(* ===== verification/Prelude.thy ===== *)
theory Prelude
  imports Main "HOL-Library.Word" "HOL-Library.Multiset" "HOL-Library.Monad_Syntax"
begin

section \<open>Shared vocabulary of the development\<close>

text \<open>
  This theory holds what every component of the development uses: names for Rust's machine
  integers, the error type of the storage crate, results as sums, saturating arithmetic, and the
  generic lemmas on lists and maps that the component proofs share.

  Conventions used throughout:
  \<^item> a Rust \<open>Result<T, AppError>\<close> is \<open>app_error + 't\<close>, with \<open>Inl\<close> the error;
  \<^item> a Rust panic (an \<open>unwrap\<close> of \<open>None\<close>, an index out of range, \<open>unreachable!\<close>) is the value
    \<open>None\<close> of an \<open>option\<close> result, combined with the \<open>do\<close> notation of \<open>Monad_Syntax\<close>;
  \<^item> mutation is state passing; an operation that may fail after it has changed its state returns
    the pair of the new state and the result, since the caller goes on using that state;
  \<^item> a \<open>usize\<close> that counts elements in memory is a \<open>nat\<close>; where the code saturates or wraps, the
    width is written out.
\<close>

subsection \<open>Collections of facts\<close>

named_theorems list_facts \<open>generic facts on lists and indices\<close>

named_theorems table_facts \<open>what the table operations do to the stored contents\<close>

named_theorems word_facts \<open>machine integers and byte encodings\<close>

subsection \<open>Machine integers\<close>

type_synonym u8 = "8 word"

type_synonym u16 = "16 word"

type_synonym u32 = "32 word"

type_synonym u64 = "64 word"

type_synonym u128 = "128 word"

type_synonym usize = nat

type_synonym bytes = "u8 list"

abbreviation usize_max :: nat where
  "usize_max \<equiv> 2 ^ 64 - 1"

text \<open>\<open>saturating_add\<close> and \<open>saturating_mul\<close> of a 64-bit unsigned integer.\<close>

definition saturating_add :: "nat \<Rightarrow> nat \<Rightarrow> nat" where
  "saturating_add a b = min (a + b) usize_max"

definition saturating_mul :: "nat \<Rightarrow> nat \<Rightarrow> nat" where
  "saturating_mul a b = min (a * b) usize_max"

lemma saturating_add_le: "saturating_add a b \<le> a + b"
  by (simp add: saturating_add_def)

lemma saturating_add_exact: "a + b \<le> usize_max \<Longrightarrow> saturating_add a b = a + b"
  unfolding saturating_add_def by (rule min_absorb1)

lemma saturating_mul_exact: "a * b \<le> usize_max \<Longrightarrow> saturating_mul a b = a * b"
  unfolding saturating_mul_def by (rule min_absorb1)

lemma unat_u8_less [word_facts]: "unat (b :: u8) < 256"
proof -
  have "unat b < 2 ^ LENGTH(8)" by (rule unsigned_less)
  then show ?thesis by simp
qed

lemma unat_u8_wide [word_facts]: "unat (ucast (b :: u8) :: u128) = unat b"
proof -
  have "unat b < 2 ^ 128" by (rule less_trans[OF unat_u8_less]) simp
  then show ?thesis by (simp add: unsigned_ucast_eq take_bit_nat_eq_self)
qed

subsection \<open>Little-endian byte strings\<close>

primrec le_value :: "bytes \<Rightarrow> nat" where
  "le_value [] = 0"
| "le_value (b # bs) = unat b + 256 * le_value bs"

lemma le_value_append: "le_value (xs @ ys) = le_value xs + 256 ^ length xs * le_value ys"
  by (induction xs) (simp_all add: algebra_simps)

lemma le_value_bound: "le_value bs < 256 ^ length bs"
proof (induction bs)
  case (Cons b bs)
  have "unat b < 256" by (rule unat_u8_less)
  with Cons show ?case by simp
qed simp

text \<open>\<open>to_le_bytes\<close> of an unsigned integer of \<open>k\<close> bytes.\<close>

primrec to_le_bytes :: "nat \<Rightarrow> nat \<Rightarrow> bytes" where
  "to_le_bytes 0 n = []"
| "to_le_bytes (Suc k) n = word_of_nat n # to_le_bytes k (n div 256)"

lemma length_to_le_bytes [simp]: "length (to_le_bytes k n) = k"
  by (induction k arbitrary: n) simp_all

lemma unat_word_of_nat_u8 [word_facts]: "unat (word_of_nat n :: u8) = n mod 256"
  by (simp add: unat_of_nat)

lemma le_value_to_le_bytes: "le_value (to_le_bytes k n) = n mod 256 ^ k"
  by (induction k arbitrary: n) (simp_all add: unat_word_of_nat_u8 mod_mult2_eq)

lemma to_le_bytes_le_value: "to_le_bytes (length bs) (le_value bs) = bs"
proof (induction bs)
  case (Cons b bs)
  have "unat b < 256" by (rule unat_u8_less)
  moreover have "word_of_nat (unat b + 256 * le_value bs) = b"
    unfolding word_unat_eq_iff unat_word_of_nat_u8 using \<open>unat b < 256\<close> by simp
  ultimately show ?case using Cons by simp
qed simp

lemma to_le_bytes_eq_iff: "i < 256 ^ k \<Longrightarrow> to_le_bytes k i = bs \<longleftrightarrow> length bs = k \<and> le_value bs = i"
  using le_value_to_le_bytes[of k i] to_le_bytes_le_value[of bs] by auto

subsection \<open>Errors and results\<close>

text \<open>
  \<open>AppError\<close> of \<open>redbit/src/error.rs\<close>, constructor by constructor. The payload of a wrapped
  third-party error is its display text; a \<open>JsonRejection\<close> also carries the HTTP status that the
  rejection reports.
\<close>

datatype app_error =
    Database string
  | Redb string
  | RedbTransaction string
  | RedbStorage string
  | RedbTable string
  | RedbCommit string
  | SerdeError string
  | Http string
  | Io string
  | JsonRejection nat string
  | JoinError string
  | RecvError string
  | NotFound string
  | BadRequest string
  | Internal string
  | Custom string

type_synonym 'a res = "app_error + 'a"

fun status_code :: "app_error \<Rightarrow> nat" where
  "status_code (NotFound _) = 404"
| "status_code (BadRequest _) = 400"
| "status_code (JsonRejection s _) = s"
| "status_code _ = 500"

definition is_ok :: "'e + 'a \<Rightarrow> bool" where
  "is_ok r = (case r of Inl _ \<Rightarrow> False | Inr _ \<Rightarrow> True)"

lemma is_ok_simps [simp]: "is_ok (Inr x)" "\<not> is_ok (Inl e)"
  by (simp_all add: is_ok_def)

lemma is_okE [elim?]:
  assumes "is_ok r"
  obtains x where "r = Inr x"
  using assms by (cases r) (simp_all add: is_ok_def)

text \<open>
  The operator \<open>?\<close> on an operation that has also changed a state: an error leaves the function with the
  state reached so far.
\<close>

definition try_then :: "'s \<times> 'a res \<Rightarrow> ('s \<Rightarrow> 'a \<Rightarrow> 's \<times> 'b res) \<Rightarrow> 's \<times> 'b res" where
  "try_then p f = (case p of (s, Inl e) \<Rightarrow> (s, Inl e) | (s, Inr a) \<Rightarrow> f s a)"

lemma try_then_simps [simp]: "try_then (s, Inr a) f = f s a" "try_then (s, Inl e) f = (s, Inl e)"
  by (simp_all add: try_then_def)

lemma try_then_ok:
  "try_then p f = (s', Inr b) \<longleftrightarrow> (\<exists>s a. p = (s, Inr a) \<and> f s a = (s', Inr b))"
  by (cases p; cases "snd p") auto

text \<open>A loop over a list that stops at the first error.\<close>

fun for_each :: "('s \<Rightarrow> 'x \<Rightarrow> 's \<times> unit res) \<Rightarrow> 's \<Rightarrow> 'x list \<Rightarrow> 's \<times> unit res" where
  "for_each f s [] = (s, Inr ())"
| "for_each f s (x # xs) = try_then (f s x) (\<lambda>s' _. for_each f s' xs)"

text \<open>The loop succeeds when every iteration does, and an invariant of the iterations holds at its end.\<close>

lemma for_each_invariant:
  assumes "R [] s"
    and "\<And>ds s x rest. xs = ds @ x # rest \<Longrightarrow> R ds s \<Longrightarrow> \<exists>s'. f s x = (s', Inr ()) \<and> R (ds @ [x]) s'"
  shows "\<exists>s'. for_each f s xs = (s', Inr ()) \<and> R xs s'"
proof -
  have "\<exists>s'. for_each f s rest = (s', Inr ()) \<and> R (ds @ rest) s'"
    if "R ds s" and "xs = ds @ rest" for ds rest s
    using that
  proof (induction rest arbitrary: ds s)
    case (Cons x rest)
    then obtain s' where s': "f s x = (s', Inr ())" "R (ds @ [x]) s'" using assms(2) by blast
    from Cons.IH[OF s'(2)] Cons.prems(2) s'(1) show ?case by simp
  qed simp
  from this[of "[]" s xs] assms(1) show ?thesis by simp
qed

subsection \<open>Lists\<close>

lemma take_length_takeWhile [list_facts]: "take (length (takeWhile P xs)) xs = takeWhile P xs"
  by (metis takeWhile_eq_take)

lemma drop_length_takeWhile [list_facts]: "drop (length (takeWhile P xs)) xs = dropWhile P xs"
  by (metis dropWhile_eq_drop)

text \<open>
  A prefix length that satisfies the predicate below it and fails it at its end is the length of
  \<open>takeWhile\<close>: the shape in which search loops deliver their results.
\<close>

lemma length_takeWhile_eqI [list_facts]:
  assumes "n \<le> length xs"
    and "\<And>i. i < n \<Longrightarrow> P (xs ! i)"
    and "n < length xs \<Longrightarrow> \<not> P (xs ! n)"
  shows "length (takeWhile P xs) = n"
proof (rule antisym)
  show "n \<le> length (takeWhile P xs)"
  proof (rule ccontr)
    assume "\<not> n \<le> length (takeWhile P xs)"
    then have lt: "length (takeWhile P xs) < n" by simp
    with assms(1) have "length (takeWhile P xs) < length xs" by simp
    then have "\<not> P (xs ! length (takeWhile P xs))" by (rule nth_length_takeWhile)
    with assms(2)[OF lt] show False by contradiction
  qed
next
  show "length (takeWhile P xs) \<le> n"
  proof (rule ccontr)
    assume "\<not> length (takeWhile P xs) \<le> n"
    then have lt: "n < length (takeWhile P xs)" by simp
    then have "P (takeWhile P xs ! n)" by (meson nth_mem set_takeWhileD)
    moreover have "takeWhile P xs ! n = xs ! n" by (rule takeWhile_nth[OF lt])
    moreover have "n < length xs" using lt length_takeWhile_le[of P xs] by simp
    ultimately show False using assms(3) by simp
  qed
qed

lemma concat_map_snoc [list_facts]: "concat (xs @ [x]) = concat xs @ x"
  by simp

subsection \<open>Sequences of operations\<close>

text \<open>A sequence of operations that stops at the first panic.\<close>

fun fold_opt :: "('s \<Rightarrow> 'c \<Rightarrow> 's option) \<Rightarrow> 's \<Rightarrow> 'c list \<Rightarrow> 's option" where
  "fold_opt f s [] = Some s"
| "fold_opt f s (c # cs) = Option.bind (f s c) (\<lambda>s'. fold_opt f s' cs)"

text \<open>A property that every step keeps, and keeps from panicking, holds along the whole sequence.\<close>

lemma fold_opt_invariant:
  assumes "R [] s"
    and "\<And>ds s c. R ds s \<Longrightarrow> c \<in> set cs \<Longrightarrow> \<exists>s'. f s c = Some s' \<and> R (ds @ [c]) s'"
  shows "\<exists>s'. fold_opt f s cs = Some s' \<and> R cs s'"
proof -
  have "\<exists>s'. fold_opt f s rest = Some s' \<and> R (ds @ rest) s'"
    if "R ds s" and "set rest \<subseteq> set cs" for ds rest s
    using that
  proof (induction rest arbitrary: ds s)
    case (Cons c rest)
    then obtain s' where s': "f s c = Some s'" "R (ds @ [c]) s'" using assms(2) by fastforce
    from Cons.IH[OF s'(2)] Cons.prems(2) s'(1) show ?case by simp
  qed simp
  from this[of "[]" s cs] assms(1) show ?thesis by simp
qed

subsection \<open>Association lists\<close>

lemma map_of_mset_cong:
  assumes "mset xs = mset ys" and "distinct (map fst xs)"
  shows "map_of xs = map_of ys"
proof
  fix k
  have "distinct (map fst ys)"
    using assms by (metis mset_map mset_eq_imp_distinct_iff)
  with assms(2) mset_eq_setD[OF assms(1)] have "map_of xs k = Some v \<longleftrightarrow> map_of ys k = Some v" for v
    by (simp add: map_of_eq_Some_iff)
  then show "map_of xs k = map_of ys k" by (metis option.exhaust)
qed

end
