(* ===== verification/Sorting_Facts.thy ===== *)
theory Sorting_Facts
  imports Prelude "HOL-Library.Sorting_Algorithms"
begin

section \<open>Facts about comparators and stable sorting\<close>

text \<open>
  Rust's \<open>sort_by\<close> and \<open>sort_by_key\<close> are the library's stable \<open>sort\<close> over a \<open>comparator\<close>. This theory
  relates its \<open>sorted\<close> to \<open>sorted_wrt\<close> and collects what the components use of it.
\<close>

lemma sorted_iff_sorted_wrt: "sorted c xs \<longleftrightarrow> sorted_wrt (\<lambda>x y. compare c x y \<noteq> Greater) xs"
proof (induction xs)
  case (Cons x xs)
  have "sorted c (x # xs) \<longleftrightarrow> sorted c xs \<and> (\<forall>y\<in>set xs. compare c x y \<noteq> Greater)"
    using sorted_append_iff[of c "[x]" xs] by simp
  with Cons.IH show ?case by auto
qed simp

lemma sorted_nth_less:
  assumes "sorted c xs" and "i < j" and "j < length xs"
  shows "compare c (xs ! i) (xs ! j) \<noteq> Greater"
  using sorted_wrt_nth_less[of "\<lambda>x y. compare c x y \<noteq> Greater" xs i j] assms
  by (simp add: sorted_iff_sorted_wrt)

lemma sorted_key_default: "sorted (key f default) xs \<longleftrightarrow> List.sorted (map f xs)"
  for f :: "'a \<Rightarrow> 'b::linorder"
  by (simp add: sorted_iff_sorted_wrt sorted_wrt_map not_less)

text \<open>Sorting by a key that enumerates the positions puts every element in its place.\<close>

lemma sort_key_positions:
  assumes "mset (map f xs) = mset [0..<n]"
  shows "map f (sort (key f default) xs) = [0..<n]"
proof -
  have "List.sorted (map f (sort (key f default) xs))" using sorted_sort sorted_key_default by blast
  moreover have "mset (map f (sort (key f default) xs)) = mset [0..<n]" using assms by simp
  ultimately show ?thesis by (metis properties_for_sort sorted_upt)
qed

end
