(* ===== verification/Merge_Buffer.thy ===== *)
theory Merge_Buffer
  imports Sorting_Facts
begin

section \<open>The merge buffer: sorted runs in a binary counter\<close>

text \<open>
  The write path collects key/value pairs in a \<open>MergeBuffer\<close> (\<open>redbit/src/storage/sort_buffer.rs\<close>)
  and drains it in key order when the transaction is flushed. This theory models the whole file:
  the record of levels, the galloping searches, the two-way merge, the three ways to add a run and
  the draining with its concatenation fast path and its heap-driven reduction.

  The key order \<open>K::compare(K::as_bytes(a), K::as_bytes(b))\<close> is an argument \<open>cmp\<close> of the type
  \<open>'k comparator\<close>, that is any total preorder. \<open>Ordering::Equal\<close> is the library's \<open>Equiv\<close>, and
  \<open>sort_by\<close> is the library's stable \<open>sort\<close>. Indexing an empty run, or a slot that holds no run,
  panics in the source; here such an access is \<open>None\<close>, and the theorems show that no operation
  panics on a well-formed buffer.
\<close>

type_synonym ('k, 'v) run = "('k \<times> 'v) list"

type_synonym ('k, 'v) slots = "('k, 'v) run option list"

record ('k, 'v) merge_buffer =
  levels :: "('k, 'v) slots"

abbreviation by_key :: "'k comparator \<Rightarrow> ('k \<times> 'v) comparator" where
  "by_key cmp \<equiv> key fst cmp"

abbreviation run_sorted :: "'k comparator \<Rightarrow> ('k, 'v) run \<Rightarrow> bool" where
  "run_sorted cmp \<equiv> sorted (by_key cmp)"

subsection \<open>Construction and inspection\<close>

definition mb_new :: "('k, 'v) merge_buffer" where
  "mb_new = \<lparr>levels = []\<rparr>"

definition mb_clear :: "('k, 'v) merge_buffer \<Rightarrow> ('k, 'v) merge_buffer" where
  "mb_clear b = b\<lparr>levels := []\<rparr>"

definition mb_is_empty :: "('k, 'v) merge_buffer \<Rightarrow> bool" where
  "mb_is_empty b = list_all (\<lambda>s. s = None) (levels b)"

definition from_sorted :: "('k, 'v) run \<Rightarrow> ('k, 'v) merge_buffer" where
  "from_sorted r = (if r = [] then mb_new else \<lparr>levels = [Some r]\<rparr>)"

definition first_key :: "('k, 'v) run \<Rightarrow> 'k option" where
  "first_key r = (case r of [] \<Rightarrow> None | (k, _) # _ \<Rightarrow> Some k)"

definition last_key :: "('k, 'v) run \<Rightarrow> 'k option" where
  "last_key r = (if r = [] then None else Some (fst (last r)))"

text \<open>\<open>slots[i].as_ref().unwrap()\<close>: a panic when the index is out of range or the slot is vacant.\<close>

definition run_at :: "('k, 'v) slots \<Rightarrow> nat \<Rightarrow> ('k, 'v) run option" where
  "run_at s i = (if i < length s then s ! i else None)"

subsection \<open>Galloping searches\<close>

text \<open>
  The exponential phase shared by both searches: \<open>p i\<close> is the test on \<open>s[i]\<close> that keeps the
  search going. The step starts at 1 and doubles; the positivity guard only makes the recursion
  total for the step 0, which no call uses.
\<close>

function gallop_exp :: "(nat \<Rightarrow> bool) \<Rightarrow> nat \<Rightarrow> nat \<Rightarrow> nat \<Rightarrow> nat \<times> nat" where
  "gallop_exp p n lst ofs =
     (if 0 < ofs \<and> lst + ofs < n \<and> p (lst + ofs) then gallop_exp p n (lst + ofs) (2 * ofs)
      else (lst, ofs))"
  by pat_completeness auto
termination
  by (relation "measure (\<lambda>(p, n, lst, ofs). n - lst)") auto

text \<open>The binary phase on the half-open interval from \<open>lo\<close> to \<open>hi\<close>.\<close>

function gallop_bin :: "(nat \<Rightarrow> bool) \<Rightarrow> nat \<Rightarrow> nat \<Rightarrow> nat" where
  "gallop_bin p lo hi =
     (if lo < hi then
        (let mid = lo + (hi - lo) div 2
         in if p mid then gallop_bin p (mid + 1) hi else gallop_bin p lo mid)
      else lo)"
  by pat_completeness auto
termination
  by (relation "measure (\<lambda>(p, lo, hi). hi - lo)") auto

declare gallop_exp.simps [simp del] gallop_bin.simps [simp del]

definition gallop_right_slice :: "'k comparator \<Rightarrow> ('k, 'v) run \<Rightarrow> nat \<Rightarrow> 'k \<Rightarrow> nat" where
  "gallop_right_slice cmp s n pivot =
     (if n = 0 then 0
      else if compare cmp (fst (s ! 0)) pivot \<noteq> Less then 0
      else (let p = (\<lambda>i. compare cmp (fst (s ! i)) pivot = Less);
                (lst, ofs) = gallop_exp p n 0 1
            in gallop_bin p (lst + 1) (min (lst + ofs) n)))"

definition gallop_left_slice :: "'k comparator \<Rightarrow> ('k, 'v) run \<Rightarrow> nat \<Rightarrow> 'k \<Rightarrow> nat" where
  "gallop_left_slice cmp s n pivot =
     (if n = 0 then 0
      else if compare cmp (fst (s ! 0)) pivot = Greater then 0
      else (let p = (\<lambda>i. compare cmp (fst (s ! i)) pivot \<noteq> Greater);
                (lst, ofs) = gallop_exp p n 0 1
            in gallop_bin p (lst + 1) (min (lst + ofs) n)))"

text \<open>Both phases never return less than the first candidate, whatever the contents.\<close>

lemma gallop_bin_ge: "lo \<le> gallop_bin p lo hi"
proof (induction p lo hi rule: gallop_bin.induct)
  case (1 p lo hi)
  then show ?case
    by (subst gallop_bin.simps) (auto simp: Let_def intro: order_trans)
qed

lemma gallop_left_pos:
  assumes "n \<noteq> 0" and "compare cmp (fst (s ! 0)) pivot \<noteq> Greater"
  shows "0 < gallop_left_slice cmp s n pivot"
  using assms gallop_bin_ge
  by (auto simp: gallop_left_slice_def Let_def split: prod.split intro: less_le_trans)

lemma gallop_right_pos:
  assumes "n \<noteq> 0" and "compare cmp (fst (s ! 0)) pivot = Less"
  shows "0 < gallop_right_slice cmp s n pivot"
  using assms gallop_bin_ge
  by (auto simp: gallop_right_slice_def Let_def split: prod.split intro: less_le_trans)

subsection \<open>Two-way merge\<close>

text \<open>
  The merge loop: take from \<open>a\<close> what is not above the head of \<open>b\<close>, then from \<open>b\<close> what is below
  the head of \<open>a\<close>; leave the loop as soon as one side is used up and append what is left.
\<close>

function merge_loop :: "'k comparator \<Rightarrow> ('k, 'v) run \<Rightarrow> ('k, 'v) run \<Rightarrow> ('k, 'v) run \<Rightarrow> ('k, 'v) run" where
  "merge_loop cmp out ia ib =
     (if ib = [] \<or> ia = [] then out @ ia @ ib
      else (let end_a = gallop_left_slice cmp ia (length ia) (fst (hd ib));
                out1 = out @ take end_a ia;
                ia1 = drop end_a ia
            in if ia1 = [] then out1 @ ia1 @ ib
               else (let end_b = gallop_right_slice cmp ib (length ib) (fst (hd ia1))
                     in merge_loop cmp (out1 @ take end_b ib) ia1 (drop end_b ib))))"
  by pat_completeness auto
termination
proof (relation "measure (\<lambda>(cmp, out, ia, ib). length ia + length ib)", goal_cases)
  case 1
  show ?case by simp
next
  case (2 cmp out ia ib end_a out1 ia1 end_b)
  have "0 < end_a \<or> 0 < end_b"
  proof (cases "compare cmp (fst (hd ia)) (fst (hd ib)) = Greater")
    case False
    with 2 have "0 < end_a" by (simp add: gallop_left_pos hd_conv_nth)
    then show ?thesis ..
  next
    case True
    then have less: "compare cmp (fst (hd ib)) (fst (hd ia)) = Less"
      by (simp add: compare.greater_iff_sym_less)
    show ?thesis
    proof (cases "end_a = 0")
      case True
      with less 2 show ?thesis by (simp add: gallop_right_pos hd_conv_nth)
    qed simp
  qed
  moreover from 2 have "end_a < length ia" and "0 < length ib" and "ia1 = drop end_a ia" by auto
  ultimately have "length ia1 + length (drop end_b ib) < length ia + length ib"
    by (simp only: length_drop) arith
  then show ?case by simp
qed

declare merge_loop.simps [simp del]

definition merge_sorted_by_key_gallop ::
    "'k comparator \<Rightarrow> ('k, 'v) run \<Rightarrow> ('k, 'v) run \<Rightarrow> ('k, 'v) run" where
  "merge_sorted_by_key_gallop cmp a b =
     (if a = [] then b
      else if b = [] then a
      else if compare cmp (fst (last a)) (fst (hd b)) \<noteq> Greater then a @ b
      else if compare cmp (fst (last b)) (fst (hd a)) = Less then b @ a
      else merge_loop cmp [] a b)"

subsection \<open>Adding runs\<close>

text \<open>
  \<open>merge_sorted\<close>: the run climbs the levels; an occupied level absorbs it when the two do not
  overlap, and is otherwise merged with it and vacated, as a carry in a binary counter.
\<close>

function merge_carry :: "'k comparator \<Rightarrow> ('k, 'v) slots \<Rightarrow> nat \<Rightarrow> ('k, 'v) run \<Rightarrow> ('k, 'v) slots option" where
  "merge_carry cmp lv lvl r =
     (if length lv = lvl then Some (lv @ [Some r])
      else if length lv < lvl then None
      else case lv ! lvl of
        None \<Rightarrow> Some (lv[lvl := Some r])
      | Some existing \<Rightarrow>
          do {
            ex_last \<leftarrow> last_key existing;
            rn_first \<leftarrow> first_key r;
            if compare cmp ex_last rn_first \<noteq> Greater then Some (lv[lvl := Some (existing @ r)])
            else do {
              rn_last \<leftarrow> last_key r;
              ex_first \<leftarrow> first_key existing;
              if compare cmp rn_last ex_first = Less then Some (lv[lvl := Some (r @ existing)])
              else merge_carry cmp (lv[lvl := None]) (lvl + 1)
                     (merge_sorted_by_key_gallop cmp existing r)
            }
          })"
  by pat_completeness auto
termination
  by (relation "measure (\<lambda>(cmp, lv, lvl, r). length lv - lvl)") auto

declare merge_carry.simps [simp del]

definition merge_sorted ::
    "'k comparator \<Rightarrow> ('k, 'v) merge_buffer \<Rightarrow> ('k, 'v) run \<Rightarrow> ('k, 'v) merge_buffer option" where
  "merge_sorted cmp b r =
     (if r = [] then Some b
      else map_option (\<lambda>lv. b\<lparr>levels := lv\<rparr>) (merge_carry cmp (levels b) 0 r))"

definition merge_unsorted ::
    "'k comparator \<Rightarrow> ('k, 'v) merge_buffer \<Rightarrow> ('k, 'v) run \<Rightarrow> ('k, 'v) merge_buffer option" where
  "merge_unsorted cmp b r = (if r = [] then Some b else merge_sorted cmp b (sort (by_key cmp) r))"

text \<open>
  The scan of \<open>append_sorted\<close>: the number of runs, the index of the first one, and the index of a
  run whose last key is the largest.
\<close>

fun append_scan ::
    "'k comparator \<Rightarrow> ('k, 'v) slots \<Rightarrow> nat \<Rightarrow> ('k, 'v) slots \<Rightarrow> nat \<times> nat option \<times> nat option \<Rightarrow>
     (nat \<times> nat option \<times> nat option) option" where
  "append_scan cmp lv i [] acc = Some acc"
| "append_scan cmp lv i (None # ss) acc = append_scan cmp lv (Suc i) ss acc"
| "append_scan cmp lv i (Some _ # ss) (n_runs, only_idx, max_idx) =
     do {
       mx \<leftarrow> (case max_idx of
                None \<Rightarrow> Some i
              | Some j \<Rightarrow> do {
                  ri \<leftarrow> run_at lv i;
                  rj \<leftarrow> run_at lv j;
                  li \<leftarrow> last_key ri;
                  lj \<leftarrow> last_key rj;
                  Some (if compare cmp li lj = Greater then i else j)
                });
       append_scan cmp lv (Suc i) ss
         (Suc n_runs, (if only_idx = None then Some i else only_idx), Some mx)
     }"

text \<open>
  Appending to the run at \<open>idx\<close> when its last key is not above the first key of the new run, and
  falling back to the carry otherwise: cases B and C of \<open>append_sorted\<close>.
\<close>

definition append_at ::
    "'k comparator \<Rightarrow> ('k, 'v) merge_buffer \<Rightarrow> nat \<Rightarrow> ('k, 'v) run \<Rightarrow> ('k, 'v) merge_buffer option" where
  "append_at cmp b idx r =
     do {
       new_first_key \<leftarrow> first_key r;
       existing \<leftarrow> run_at (levels b) idx;
       ex_last \<leftarrow> last_key existing;
       if compare cmp ex_last new_first_key \<noteq> Greater
       then Some (b\<lparr>levels := (levels b)[idx := Some (existing @ r)]\<rparr>)
       else merge_sorted cmp b r
     }"

definition append_sorted ::
    "'k comparator \<Rightarrow> ('k, 'v) merge_buffer \<Rightarrow> ('k, 'v) run \<Rightarrow> ('k, 'v) merge_buffer option" where
  "append_sorted cmp b r =
     (if r = [] then Some b
      else do {
        (n_runs, only_idx, max_idx) \<leftarrow> append_scan cmp (levels b) 0 (levels b) (0, None, None);
        if n_runs = 0 then Some (b\<lparr>levels := [Some r]\<rparr>)
        else if n_runs = 1 then do { idx \<leftarrow> only_idx; append_at cmp b idx r }
        else (case max_idx of
                Some mx \<Rightarrow> append_at cmp b mx r
              | None \<Rightarrow> merge_sorted cmp b r)
      })"

subsection \<open>Draining\<close>

definition collect_runs :: "('k, 'v) slots \<Rightarrow> ('k, 'v) run list" where
  "collect_runs s = List.map_filter id s"

fun disjoint_chain :: "'k comparator \<Rightarrow> ('k, 'v) run list \<Rightarrow> bool" where
  "disjoint_chain cmp (a # b # rs) =
     (compare cmp (fst (last a)) (fst (hd b)) \<noteq> Greater \<and> disjoint_chain cmp (b # rs))"
| "disjoint_chain cmp _ = True"

text \<open>
  The \<open>BinaryHeap<(Reverse<usize>, usize)>\<close>: a pop returns the greatest pair, that is the smallest
  length and, among equal lengths, the largest index.
\<close>

definition heap_best :: "nat \<times> nat \<Rightarrow> nat \<times> nat \<Rightarrow> nat \<times> nat" where
  "heap_best x y =
     (if fst y < fst x \<or> (fst y = fst x \<and> snd x < snd y) then y else x)"

fun heap_pop :: "(nat \<times> nat) list \<Rightarrow> ((nat \<times> nat) \<times> (nat \<times> nat) list) option" where
  "heap_pop [] = None"
| "heap_pop (x # xs) = (let m = foldl heap_best x xs in Some (m, remove1 m (x # xs)))"

lemma foldl_heap_best_mem: "foldl heap_best x xs \<in> set (x # xs)"
proof (induction xs arbitrary: x)
  case (Cons y ys)
  have "heap_best x y = x \<or> heap_best x y = y" by (simp add: heap_best_def)
  with Cons.IH[of "heap_best x y"] show ?case by auto
qed simp

lemma heap_pop_Some:
  assumes "heap_pop h = Some (m, h')"
  shows "m \<in> set h" and "h' = remove1 m h"
proof -
  obtain x xs where h: "h = x # xs" using assms by (cases h) auto
  with assms have m: "m = foldl heap_best x xs" and h': "h' = remove1 m h"
    by (auto simp add: Let_def simp del: remove1.simps)
  show "m \<in> set h" unfolding h m by (rule foldl_heap_best_mem)
  show "h' = remove1 m h" by (rule h')
qed

lemma heap_pop_length: "heap_pop h = Some (m, h') \<Longrightarrow> Suc (length h') = length h"
  using heap_pop_Some[of h m h'] by (auto simp: length_remove1 dest: length_pos_if_in_set)

function reduce_runs ::
    "'k comparator \<Rightarrow> ('k, 'v) slots \<Rightarrow> (nat \<times> nat) list \<Rightarrow> nat \<Rightarrow> ('k, 'v) run option" where
  "reduce_runs cmp pool heap next_idx =
     (if 1 < length heap then
        (case heap_pop heap of
           None \<Rightarrow> None
         | Some ((_, ia), h1) \<Rightarrow>
             (case heap_pop h1 of
                None \<Rightarrow> None
              | Some ((_, ib), h2) \<Rightarrow>
                  do {
                    a \<leftarrow> run_at pool ia;
                    b \<leftarrow> run_at (pool[ia := None]) ib;
                    let merged = merge_sorted_by_key_gallop cmp a b;
                    reduce_runs cmp (pool[ia := None, ib := None] @ [Some merged])
                      ((length merged, next_idx) # h2) (next_idx + 1)
                  }))
      else
        (case heap_pop heap of
           None \<Rightarrow> None
         | Some ((_, idx), _) \<Rightarrow>
             if idx < length pool then Some (case pool ! idx of Some r \<Rightarrow> r | None \<Rightarrow> []) else None))"
  by pat_completeness auto
termination
  by (relation "measure (\<lambda>(cmp, pool, heap, next_idx). length heap)") (auto dest!: heap_pop_length)

declare reduce_runs.simps [simp del]

text \<open>
  \<open>take_sorted\<close> empties the buffer and returns its contents. Sorting two or more runs by their
  first keys reads the first key of every one of them, so an empty run panics there.
\<close>

definition take_sorted ::
    "'k comparator \<Rightarrow> ('k, 'v) merge_buffer \<Rightarrow> (('k, 'v) run \<times> ('k, 'v) merge_buffer) option" where
  "take_sorted cmp b =
     (let runs = collect_runs (levels b); b' = b\<lparr>levels := []\<rparr>
      in if runs = [] then Some ([], b')
         else if length runs = 1 then Some (last runs, b')
         else if [] \<in> set runs then None
         else (let sorted_runs = sort (key (\<lambda>r. fst (hd r)) cmp) runs
               in if disjoint_chain cmp sorted_runs then Some (concat sorted_runs, b')
                  else map_option (\<lambda>r. (r, b'))
                         (reduce_runs cmp (map Some sorted_runs)
                            (zip (map length sorted_runs) [0..<length sorted_runs])
                            (length sorted_runs))))"

definition mb_runs :: "('k, 'v) merge_buffer \<Rightarrow> nat" where
  "mb_runs b = length (filter (\<lambda>s. s \<noteq> None) (levels b))"

subsection \<open>The galloping searches are bounds\<close>

lemma run_sorted_nth:
  assumes "run_sorted cmp s" and "i \<le> j" and "j < length s"
  shows "compare cmp (fst (s ! i)) (fst (s ! j)) \<noteq> Greater"
proof (cases "i = j")
  case True
  then show ?thesis by (simp add: compare.refl)
next
  case False
  with assms show ?thesis
    using sorted_wrt_nth_less[of "\<lambda>x y. compare (by_key cmp) x y \<noteq> Greater" s i j]
    by (simp add: sorted_iff_sorted_wrt)
qed

text \<open>A search predicate that holds on a prefix of the indices below \<open>n\<close>.\<close>

definition prefix_pred :: "(nat \<Rightarrow> bool) \<Rightarrow> nat \<Rightarrow> bool" where
  "prefix_pred p n \<longleftrightarrow> (\<forall>i j. i \<le> j \<longrightarrow> j < n \<longrightarrow> p j \<longrightarrow> p i)"

lemma prefix_pred_below: "prefix_pred p n \<Longrightarrow> m < n \<Longrightarrow> p m \<Longrightarrow> \<forall>i<m + 1. p i"
  unfolding prefix_pred_def by (auto simp: less_Suc_eq_le)

lemma gallop_exp_spec:
  assumes "gallop_exp p n lst ofs = (l, d)" and "0 < ofs" and "lst < n" and "p lst"
  shows "l < n \<and> p l \<and> 0 < d \<and> (l + d < n \<longrightarrow> \<not> p (l + d))"
  using assms
proof (induction p n lst ofs rule: gallop_exp.induct)
  case (1 p n lst ofs)
  show ?case
  proof (cases "0 < ofs \<and> lst + ofs < n \<and> p (lst + ofs)")
    case True
    with 1 show ?thesis by (simp add: gallop_exp.simps[of p n lst ofs])
  next
    case False
    with 1 show ?thesis by (auto simp: gallop_exp.simps[of p n lst ofs])
  qed
qed

lemma gallop_bin_spec:
  assumes "prefix_pred p n" and "lo \<le> hi" and "hi \<le> n"
    and "\<forall>i<lo. p i" and "hi < n \<longrightarrow> \<not> p hi"
  shows "gallop_bin p lo hi \<le> n \<and> (\<forall>i<gallop_bin p lo hi. p i) \<and>
         (gallop_bin p lo hi < n \<longrightarrow> \<not> p (gallop_bin p lo hi))"
  using assms
proof (induction p lo hi rule: gallop_bin.induct)
  case (1 p lo hi)
  show ?case
  proof (cases "lo < hi")
    case False
    then have "gallop_bin p lo hi = lo" by (simp add: gallop_bin.simps[of p lo hi])
    moreover have "lo = hi" using False 1(4) by simp
    ultimately show ?thesis using 1(5-7) by simp
  next
    case True
    define mid where "mid = lo + (hi - lo) div 2"
    have mid: "lo \<le> mid" "mid < hi" using True by (auto simp: mid_def)
    show ?thesis
    proof (cases "p mid")
      case True
      have below: "\<forall>i<mid + 1. p i" by (rule prefix_pred_below[OF 1(3)]) (use True mid 1(5) in auto)
      have "gallop_bin p lo hi = gallop_bin p (mid + 1) hi"
        using True \<open>lo < hi\<close> by (simp add: gallop_bin.simps[of p lo hi] mid_def)
      moreover note 1(1)[OF \<open>lo < hi\<close> mid_def True 1(3) _ 1(5) below 1(7)]
      ultimately show ?thesis using mid by simp
    next
      case False
      have "gallop_bin p lo hi = gallop_bin p lo mid"
        using False \<open>lo < hi\<close> by (simp add: gallop_bin.simps[of p lo hi] mid_def)
      moreover note 1(2)[OF \<open>lo < hi\<close> mid_def False 1(3) mid(1) _ 1(6)]
      ultimately show ?thesis using False mid 1(5) by simp
    qed
  qed
qed

lemma gallop_phases:
  assumes pre: "prefix_pred p n" and "0 < n" and "p 0"
    and e: "gallop_exp p n 0 1 = (l, d)"
  shows "gallop_bin p (l + 1) (min (l + d) n) \<le> n \<and>
         (\<forall>i<gallop_bin p (l + 1) (min (l + d) n). p i) \<and>
         (gallop_bin p (l + 1) (min (l + d) n) < n \<longrightarrow>
            \<not> p (gallop_bin p (l + 1) (min (l + d) n)))"
proof -
  have spec: "l < n" "p l" "0 < d" "l + d < n \<longrightarrow> \<not> p (l + d)"
    using gallop_exp_spec[OF e] assms by auto
  show ?thesis
  proof (rule gallop_bin_spec[OF pre])
    show "\<forall>i<l + 1. p i" by (rule prefix_pred_below[OF pre spec(1,2)])
    show "min (l + d) n < n \<longrightarrow> \<not> p (min (l + d) n)" using spec(4) by (simp add: min_def)
  qed (use spec in auto)
qed

lemma not_greater_less_trans:
  assumes "compare c x y \<noteq> Greater" and "compare c y z = Less"
  shows "compare c x z = Less"
  using assms by (cases "compare c x y") (auto dest: compare.trans_less compare.trans_equiv_less)

lemma prefix_pred_less:
  assumes "run_sorted cmp s"
  shows "prefix_pred (\<lambda>i. compare cmp (fst (s ! i)) pivot = Less) (length s)"
  unfolding prefix_pred_def
  by (auto intro: not_greater_less_trans[OF run_sorted_nth[OF assms]])

lemma prefix_pred_not_greater:
  assumes "run_sorted cmp s"
  shows "prefix_pred (\<lambda>i. compare cmp (fst (s ! i)) pivot \<noteq> Greater) (length s)"
  unfolding prefix_pred_def
  by (auto dest: compare.trans_not_greater[OF run_sorted_nth[OF assms]])

lemma gallop_right_slice_correct:
  assumes "run_sorted cmp s"
  shows "gallop_right_slice cmp s (length s) pivot =
         length (takeWhile (\<lambda>x. compare cmp (fst x) pivot = Less) s)"
proof (cases "s = [] \<or> compare cmp (fst (s ! 0)) pivot \<noteq> Less")
  case True
  then show ?thesis by (cases s) (auto simp: gallop_right_slice_def)
next
  case False
  then have ne: "0 < length s" and p0: "compare cmp (fst (s ! 0)) pivot = Less" by auto
  let ?p = "\<lambda>i. compare cmp (fst (s ! i)) pivot = Less"
  obtain l d where e: "gallop_exp ?p (length s) 0 1 = (l, d)" by fastforce
  from gallop_phases[OF prefix_pred_less[OF assms] ne p0 e] show ?thesis
    using ne p0 e
    by (intro length_takeWhile_eqI[symmetric]) (simp_all add: gallop_right_slice_def)
qed

lemma gallop_left_slice_correct:
  assumes "run_sorted cmp s"
  shows "gallop_left_slice cmp s (length s) pivot =
         length (takeWhile (\<lambda>x. compare cmp (fst x) pivot \<noteq> Greater) s)"
proof (cases "s = [] \<or> compare cmp (fst (s ! 0)) pivot = Greater")
  case True
  then show ?thesis by (cases s) (auto simp: gallop_left_slice_def)
next
  case False
  then have ne: "0 < length s" and p0: "compare cmp (fst (s ! 0)) pivot \<noteq> Greater" by auto
  let ?p = "\<lambda>i. compare cmp (fst (s ! i)) pivot \<noteq> Greater"
  obtain l d where e: "gallop_exp ?p (length s) 0 1 = (l, d)" by fastforce
  from gallop_phases[OF prefix_pred_not_greater[OF assms] ne p0 e] show ?thesis
    using ne p0 e
    by (intro length_takeWhile_eqI[symmetric]) (simp_all add: gallop_left_slice_def)
qed

subsection \<open>The merge loop is the textbook merge\<close>

abbreviation std_merge :: "'k comparator \<Rightarrow> ('k, 'v) run \<Rightarrow> ('k, 'v) run \<Rightarrow> ('k, 'v) run" where
  "std_merge cmp \<equiv> Sorting_Algorithms.merge (by_key cmp)"

lemma merge_Nil_right: "std_merge cmp xs [] = xs"
  by (cases xs) simp_all

lemma merge_takeWhile_left:
  "std_merge cmp xs (y # ys) =
     takeWhile (\<lambda>x. compare cmp (fst x) (fst y) \<noteq> Greater) xs @
     std_merge cmp (dropWhile (\<lambda>x. compare cmp (fst x) (fst y) \<noteq> Greater) xs) (y # ys)"
  by (induction xs) simp_all

lemma merge_takeWhile_right:
  "std_merge cmp (x # xs) ys =
     takeWhile (\<lambda>y. compare cmp (fst y) (fst x) = Less) ys @
     std_merge cmp (x # xs) (dropWhile (\<lambda>y. compare cmp (fst y) (fst x) = Less) ys)"
  by (induction ys) (simp_all add: compare.greater_iff_sym_less)

lemma sorted_dropWhile: "sorted c xs \<Longrightarrow> sorted c (dropWhile P xs)"
  by (metis dropWhile_eq_drop sorted_iff_sorted_wrt sorted_wrt_drop)

text \<open>One round of the loop, with the two searches read as \<open>takeWhile\<close>.\<close>

lemma merge_loop_round:
  assumes "run_sorted cmp ia" and "run_sorted cmp ib" and "ia \<noteq> []" and "ib = y # ys"
    and "P = (\<lambda>x. compare cmp (fst x) (fst y) \<noteq> Greater)"
  shows "merge_loop cmp out ia ib =
     (case dropWhile P ia of
        [] \<Rightarrow> out @ takeWhile P ia @ ib
      | x # xs \<Rightarrow> let Q = (\<lambda>z. compare cmp (fst z) (fst x) = Less)
                  in merge_loop cmp (out @ takeWhile P ia @ takeWhile Q ib) (x # xs) (dropWhile Q ib))"
proof -
  have end_a: "gallop_left_slice cmp ia (length ia) (fst (hd ib)) = length (takeWhile P ia)"
    using gallop_left_slice_correct[OF assms(1)] assms(4,5) by simp
  show ?thesis
  proof (cases "dropWhile P ia")
    case Nil
    then have "drop (length (takeWhile P ia)) ia = []" by (simp only: drop_length_takeWhile)
    then have "merge_loop cmp out ia ib = out @ takeWhile P ia @ ib"
      using assms(3,4) end_a
      by (subst merge_loop.simps) (simp add: take_length_takeWhile)
    with Nil show ?thesis by (simp only: list.case)
  next
    case (Cons x xs)
    then have "drop (length (takeWhile P ia)) ia = x # xs" by (simp only: drop_length_takeWhile)
    moreover have "gallop_right_slice cmp ib (length ib) (fst x) =
                   length (takeWhile (\<lambda>z. compare cmp (fst z) (fst x) = Less) ib)"
      by (rule gallop_right_slice_correct[OF assms(2)])
    ultimately have "merge_loop cmp out ia ib =
        (let Q = (\<lambda>z. compare cmp (fst z) (fst x) = Less)
         in merge_loop cmp (out @ takeWhile P ia @ takeWhile Q ib) (x # xs) (dropWhile Q ib))"
      using assms(3,4) end_a
      by (subst merge_loop.simps) (simp add: Let_def take_length_takeWhile drop_length_takeWhile
              del: drop_eq_Nil drop_eq_Nil2)
    with Cons show ?thesis by (simp only: list.case)
  qed
qed

lemma merge_loop_eq:
  assumes "run_sorted cmp ia" and "run_sorted cmp ib"
  shows "merge_loop cmp out ia ib = out @ std_merge cmp ia ib"
  using assms
proof (induction "length ia + length ib" arbitrary: out ia ib rule: less_induct)
  case less
  show ?case
  proof (cases "ib = [] \<or> ia = []")
    case True
    then show ?thesis by (auto simp: merge_loop.simps[of cmp out] merge_Nil_right)
  next
    case False
    then obtain y ys where ib: "ib = y # ys" by (cases ib) auto
    define P where "P = (\<lambda>x::'a \<times> 'b. compare cmp (fst x) (fst y) \<noteq> Greater)"
    have "ia \<noteq> []" using False by simp
    note round = merge_loop_round[OF less.prems this ib P_def, of out]
    have split_a: "std_merge cmp ia ib = takeWhile P ia @ std_merge cmp (dropWhile P ia) ib"
      unfolding ib P_def by (rule merge_takeWhile_left)
    show ?thesis
    proof (cases "dropWhile P ia")
      case Nil
      with round False split_a show ?thesis by (simp only: list.case) simp
    next
      case (Cons x xs)
      define Q where "Q = (\<lambda>z::'a \<times> 'b. compare cmp (fst z) (fst x) = Less)"
      have split_b: "std_merge cmp (x # xs) ib = takeWhile Q ib @ std_merge cmp (x # xs) (dropWhile Q ib)"
        unfolding Q_def by (rule merge_takeWhile_right)
      have "\<not> P x" using hd_dropWhile[of P ia] Cons by simp
      then have "Q y" by (simp add: P_def Q_def compare.greater_iff_sym_less)
      then have "length (dropWhile Q ib) \<le> length ys" by (simp add: ib length_dropWhile_le)
      moreover have "length (x # xs) \<le> length ia" using length_dropWhile_le[of P ia] Cons by simp
      ultimately have "length (x # xs) + length (dropWhile Q ib) < length ia + length ib"
        by (simp add: ib)
      moreover have "run_sorted cmp (x # xs)" using sorted_dropWhile[OF less.prems(1), of P] Cons by simp
      moreover have "run_sorted cmp (dropWhile Q ib)" by (rule sorted_dropWhile[OF less.prems(2)])
      ultimately have "merge_loop cmp out1 (x # xs) (dropWhile Q ib) =
                       out1 @ std_merge cmp (x # xs) (dropWhile Q ib)" for out1
        by (rule less.hyps)
      then show ?thesis
        using round Cons split_a split_b by (simp only: list.case Let_def Q_def[symmetric] append_assoc)
    qed
  qed
qed

lemma sorted_le_last:
  assumes "sorted c xs" and "x \<in> set xs"
  shows "compare c x (last xs) \<noteq> Greater"
proof -
  from assms(2) have ne: "xs \<noteq> []" by auto
  then have "sorted c (butlast xs @ [last xs])" using assms(1) by simp
  moreover have "x \<in> set (butlast xs) \<or> x = last xs"
    using assms(2) ne by (metis append_butlast_last_id in_set_conv_decomp rotate1.simps(2) set_ConsD set_rotate1)
  ultimately show ?thesis by (auto simp: sorted_append_iff compare.refl)
qed

lemma sorted_hd_le:
  assumes "sorted c xs" and "x \<in> set xs"
  shows "compare c (hd xs) x \<noteq> Greater"
  using assms by (cases xs) (auto simp: sorted_Cons_imp_not_less compare.refl)

lemma sorted_append_ends:
  assumes "sorted c xs" and "sorted c ys"
    and "xs \<noteq> [] \<Longrightarrow> ys \<noteq> [] \<Longrightarrow> compare c (last xs) (hd ys) \<noteq> Greater"
  shows "sorted c (xs @ ys)"
  unfolding sorted_append_iff
proof (intro conjI assms(1,2) ballI)
  fix x y assume x: "x \<in> set xs" and y: "y \<in> set ys"
  from x y have "compare c (last xs) (hd ys) \<noteq> Greater" by (intro assms(3)) auto
  with sorted_le_last[OF assms(1) x] have "compare c x (hd ys) \<noteq> Greater"
    by (rule compare.trans_not_greater)
  then show "compare c x y \<noteq> Greater"
    by (rule compare.trans_not_greater[OF _ sorted_hd_le[OF assms(2) y]])
qed

lemma sort_of_sorted: "sorted c xs \<Longrightarrow> sort c xs = xs"
  by (rule sort_eqI) simp_all

lemma sort_append_merge:
  assumes "sorted c a" and "sorted c b"
  shows "sort c (a @ b) = Sorting_Algorithms.merge c a b"
proof (rule sort_eqI)
  show "mset (a @ b) = mset (Sorting_Algorithms.merge c a b)" by (simp add: mset_merge)
  show "sorted c (Sorting_Algorithms.merge c a b)" by (rule sorted_merge[OF assms])
  show "stable_segment c y (a @ b) = stable_segment c y (Sorting_Algorithms.merge c a b)" for y
    by (simp add: filter_merge[OF assms] merge_stable_segments)
qed

lemma sort_append_swap:
  assumes "sorted c a" and "sorted c b" and "a \<noteq> []" and "b \<noteq> []"
    and "compare c (last b) (hd a) = Less"
  shows "sort c (a @ b) = b @ a"
proof (rule sort_eqI)
  show "mset (a @ b) = mset (b @ a)" by simp
  show "sorted c (b @ a)" by (rule sorted_append_ends[OF assms(2,1)]) (simp add: assms(5))
  have less: "compare c y x = Less" if "x \<in> set a" "y \<in> set b" for x y
  proof -
    have "compare c y (hd a) = Less"
      using sorted_le_last[OF assms(2) that(2)] assms(5) by (rule not_greater_less_trans)
    then show ?thesis
      using sorted_hd_le[OF assms(1) that(1)]
      by (cases "compare c (hd a) x") (auto dest: compare.trans_less compare.trans_less_equiv)
  qed
  fix l
  have "stable_segment c l a = [] \<or> stable_segment c l b = []"
  proof (rule ccontr)
    assume "\<not> ?thesis"
    then obtain x y where "x \<in> set a" "y \<in> set b" "compare c l x = Equiv" "compare c l y = Equiv"
      by (auto simp: filter_empty_conv)
    then have "compare c y x = Equiv" 
      by (metis compare.equiv_subst_left compare.sym)
    with less \<open>x \<in> set a\<close> \<open>y \<in> set b\<close> show False by simp
  qed
  then show "stable_segment c l (a @ b) = stable_segment c l (b @ a)" by auto
qed

lemma merge_gallop_sort:
  assumes "run_sorted cmp a" and "run_sorted cmp b"
  shows "merge_sorted_by_key_gallop cmp a b = sort (by_key cmp) (a @ b)"
proof -
  consider "a = []" | "b = []" | (ne) "a \<noteq> []" "b \<noteq> []" by blast
  then show ?thesis
  proof cases
    case ne
    show ?thesis
    proof (cases "compare cmp (fst (last a)) (fst (hd b)) \<noteq> Greater")
      case True
      then have "run_sorted cmp (a @ b)" by (intro sorted_append_ends assms) simp
      with ne True show ?thesis by (simp add: merge_sorted_by_key_gallop_def sort_of_sorted)
    next
      case False
      show ?thesis
      proof (cases "compare cmp (fst (last b)) (fst (hd a)) = Less")
        case True
        with sort_append_swap[OF assms ne] False ne show ?thesis
          by (simp add: merge_sorted_by_key_gallop_def)
      next
        case nless: False
        with sort_append_merge[OF assms] False ne show ?thesis
          by (simp add: merge_sorted_by_key_gallop_def merge_loop_eq[OF assms])
      qed
    qed
  qed (use assms in \<open>simp_all add: merge_sorted_by_key_gallop_def sort_of_sorted\<close>)
qed

subsection \<open>Well-formed buffers and their contents\<close>

text \<open>Every occupied level holds a non-empty run in key order; the contents are counted as a multiset.\<close>

definition slot_ok :: "'k comparator \<Rightarrow> ('k, 'v) run option \<Rightarrow> bool" where
  "slot_ok cmp s = (case s of None \<Rightarrow> True | Some r \<Rightarrow> r \<noteq> [] \<and> run_sorted cmp r)"

definition slots_ok :: "'k comparator \<Rightarrow> ('k, 'v) slots \<Rightarrow> bool" where
  "slots_ok cmp lv = list_all (slot_ok cmp) lv"

definition slot_mset :: "('k, 'v) run option \<Rightarrow> ('k \<times> 'v) multiset" where
  "slot_mset s = (case s of None \<Rightarrow> {#} | Some r \<Rightarrow> mset r)"

definition slots_mset :: "('k, 'v) slots \<Rightarrow> ('k \<times> 'v) multiset" where
  "slots_mset lv = sum_list (map slot_mset lv)"

abbreviation buf_ok :: "'k comparator \<Rightarrow> ('k, 'v) merge_buffer \<Rightarrow> bool" where
  "buf_ok cmp b \<equiv> slots_ok cmp (levels b)"

abbreviation buf_mset :: "('k, 'v) merge_buffer \<Rightarrow> ('k \<times> 'v) multiset" where
  "buf_mset b \<equiv> slots_mset (levels b)"

lemma slot_simps [simp]:
  "slot_ok cmp None" "slot_ok cmp (Some r) \<longleftrightarrow> r \<noteq> [] \<and> run_sorted cmp r"
  "slot_mset None = {#}" "slot_mset (Some r) = mset r"
  by (simp_all add: slot_ok_def slot_mset_def)

lemma slots_simps [simp]:
  "slots_ok cmp []" "slots_ok cmp (s # lv) \<longleftrightarrow> slot_ok cmp s \<and> slots_ok cmp lv"
  "slots_ok cmp (lv @ lv') \<longleftrightarrow> slots_ok cmp lv \<and> slots_ok cmp lv'"
  "slots_mset [] = {#}" "slots_mset (s # lv) = slot_mset s + slots_mset lv"
  "slots_mset (lv @ lv') = slots_mset lv + slots_mset lv'"
  by (simp_all add: slots_ok_def slots_mset_def)

lemma collect_runs_simps [simp]:
  "collect_runs [] = []" "collect_runs (None # s) = collect_runs s"
  "collect_runs (Some r # s) = r # collect_runs s"
  by (simp_all add: collect_runs_def List.map_filter_def)

lemma slots_mset_collect: "slots_mset lv = mset (concat (collect_runs lv))"
proof (induction lv)
  case (Cons s lv)
  then show ?case by (cases s) simp_all
qed simp

lemma slots_ok_collect: "slots_ok cmp lv \<longleftrightarrow> (\<forall>r\<in>set (collect_runs lv). r \<noteq> [] \<and> run_sorted cmp r)"
proof (induction lv)
  case (Cons s lv)
  then show ?case by (cases s) simp_all
qed simp

lemma slots_ok_nth: "slots_ok cmp lv \<Longrightarrow> i < length lv \<Longrightarrow> slot_ok cmp (lv ! i)"
  by (simp add: slots_ok_def list_all_length)

lemma slots_ok_update: "slots_ok cmp lv \<Longrightarrow> slot_ok cmp s \<Longrightarrow> slots_ok cmp (lv[i := s])"
  by (auto simp: slots_ok_def list_all_iff dest: set_update_subset_insert[THEN subsetD])

lemma slots_mset_update:
  "i < length lv \<Longrightarrow> slots_mset (lv[i := s]) + slot_mset (lv ! i) = slots_mset lv + slot_mset s"
proof (induction lv arbitrary: i)
  case (Cons a lv)
  then show ?case by (cases i) (simp_all add: ac_simps)
qed simp

lemma key_ends [simp]:
  "r \<noteq> [] \<Longrightarrow> first_key r = Some (fst (hd r))" "r \<noteq> [] \<Longrightarrow> last_key r = Some (fst (last r))"
  by (auto simp: first_key_def last_key_def split: list.splits)

lemma run_at_nth [simp]: "i < length s \<Longrightarrow> run_at s i = s ! i"
  by (simp add: run_at_def)

lemma merge_gallop_props:
  assumes "run_sorted cmp a" and "run_sorted cmp b"
  shows "run_sorted cmp (merge_sorted_by_key_gallop cmp a b)"
    and "mset (merge_sorted_by_key_gallop cmp a b) = mset a + mset b"
    and "a \<noteq> [] \<Longrightarrow> merge_sorted_by_key_gallop cmp a b \<noteq> []"
proof -
  note eq = merge_gallop_sort[OF assms]
  show "run_sorted cmp (merge_sorted_by_key_gallop cmp a b)" unfolding eq by simp
  show ms: "mset (merge_sorted_by_key_gallop cmp a b) = mset a + mset b" unfolding eq by simp
  show "merge_sorted_by_key_gallop cmp a b \<noteq> []" if "a \<noteq> []"
    using that ms by (metis mset_zero_iff subset_mset.add_eq_0_iff_both_eq_0)
qed

text \<open>Replacing the run in an occupied level by one with more elements.\<close>

lemma slots_replace:
  assumes "slots_ok cmp lv" and "i < length lv" and "lv ! i = Some e"
    and "run_sorted cmp e'" and "e' \<noteq> []" and "mset e' = mset e + mset r"
  shows "slots_ok cmp (lv[i := Some e'])" and "slots_mset (lv[i := Some e']) = slots_mset lv + mset r"
proof -
  show "slots_ok cmp (lv[i := Some e'])" using assms by (simp add: slots_ok_update)
  from slots_mset_update[OF assms(2), of "Some e'"] assms(3,6)
  have "slots_mset (lv[i := Some e']) + mset e = (slots_mset lv + mset r) + mset e"
    by (simp add: ac_simps)
  then show "slots_mset (lv[i := Some e']) = slots_mset lv + mset r" by simp
qed

lemma merge_carry_ok:
  assumes "lvl \<le> length lv" and "slots_ok cmp lv" and "run_sorted cmp r" and "r \<noteq> []"
  shows "\<exists>lv'. merge_carry cmp lv lvl r = Some lv' \<and> slots_ok cmp lv' \<and>
               slots_mset lv' = slots_mset lv + mset r"
  using assms
proof (induction cmp lv lvl r rule: merge_carry.induct)
  case (1 cmp lv lvl r)
  note prems = 1(2-5) and IH = 1(1)
  show ?case
  proof (cases "length lv = lvl")
    case True
    with prems show ?thesis by (auto simp: merge_carry.simps)
  next
    case False
    with prems(1) have lt: "lvl < length lv" by simp
    show ?thesis
    proof (cases "lv ! lvl")
      case None
      then show ?thesis
        using slots_ok_update[OF prems(2), of "Some r" lvl] slots_mset_update[OF lt, of "Some r"] prems lt
        by (simp add: merge_carry.simps[of cmp lv lvl r])
    next
      case (Some e)
      have e: "e \<noteq> []" "run_sorted cmp e" using slots_ok_nth[OF prems(2) lt] Some by auto
      consider (app) "compare cmp (fst (last e)) (fst (hd r)) \<noteq> Greater"
        | (pre) "compare cmp (fst (last e)) (fst (hd r)) = Greater" "compare cmp (fst (last r)) (fst (hd e)) = Less"
        | (carry) "compare cmp (fst (last e)) (fst (hd r)) = Greater" "compare cmp (fst (last r)) (fst (hd e)) \<noteq> Less"
        by blast
      then show ?thesis
      proof cases
        case app
        then have "run_sorted cmp (e @ r)" by (intro sorted_append_ends e prems) simp
        from slots_replace[OF prems(2) lt Some this, of r] app e prems(4) Some lt show ?thesis
          by (simp add: merge_carry.simps[of cmp lv lvl r])
      next
        case pre
        then have "run_sorted cmp (r @ e)" by (intro sorted_append_ends e prems) simp
        from slots_replace[OF prems(2) lt Some this, of r] pre e prems(4) Some lt show ?thesis
          by (simp add: merge_carry.simps[of cmp lv lvl r])
      next
        case carry
        let ?m = "merge_sorted_by_key_gallop cmp e r"
        note m = merge_gallop_props[OF e(2) prems(3)]
        have eq: "merge_carry cmp lv lvl r = merge_carry cmp (lv[lvl := None]) (lvl + 1) ?m"
          using carry e prems(4) Some lt by (simp add: merge_carry.simps[of cmp lv lvl r])
        have ms: "slots_mset lv + mset r = slots_mset (lv[lvl := None]) + mset ?m"
          using slots_mset_update[OF lt, of None] m(2) Some by (simp flip: add.assoc)
        have "slots_ok cmp (lv[lvl := None])" using prems(2) by (simp add: slots_ok_update)
        then show ?thesis
          unfolding eq ms using IH[OF False _ Some, of "fst (last e)" "fst (hd r)" "fst (last r)" "fst (hd e)"]
            carry e m prems(4) lt by simp
      qed
    qed
  qed
qed

subsection \<open>Adding runs keeps the buffer well-formed and adds exactly the run\<close>

lemma merge_sorted_ok:
  assumes "buf_ok cmp b" and "run_sorted cmp r"
  shows "\<exists>b'. merge_sorted cmp b r = Some b' \<and> buf_ok cmp b' \<and> buf_mset b' = buf_mset b + mset r"
  using merge_carry_ok[of 0 "levels b" cmp r] assms by (auto simp: merge_sorted_def)

lemma merge_unsorted_ok:
  assumes "buf_ok cmp b"
  shows "\<exists>b'. merge_unsorted cmp b r = Some b' \<and> buf_ok cmp b' \<and> buf_mset b' = buf_mset b + mset r"
  using merge_sorted_ok[OF assms, of "sort (by_key cmp) r"] assms by (auto simp: merge_unsorted_def)

text \<open>An index the scan reports is an occupied level.\<close>

definition occupied :: "('k, 'v) slots \<Rightarrow> nat option \<Rightarrow> bool" where
  "occupied lv oi = (case oi of None \<Rightarrow> True | Some i \<Rightarrow> i < length lv \<and> lv ! i \<noteq> None)"

lemma occupied_run:
  assumes "slots_ok cmp lv" and "occupied lv (Some i)"
  obtains e where "i < length lv" and "lv ! i = Some e" and "e \<noteq> []" and "run_sorted cmp e"
  using assms slots_ok_nth[OF assms(1), of i] by (auto simp: occupied_def)

lemma append_scan_ok:
  assumes "slots_ok cmp lv" and "lv = pre @ ss" and "i = length pre"
    and "occupied lv oi" and "occupied lv mi" and "oi = None \<longleftrightarrow> n = 0" and "mi = None \<longleftrightarrow> n = 0"
  shows "\<exists>n' oi' mi'. append_scan cmp lv i ss (n, oi, mi) = Some (n', oi', mi') \<and>
           occupied lv oi' \<and> occupied lv mi' \<and> (oi' = None \<longleftrightarrow> n' = 0) \<and> (mi' = None \<longleftrightarrow> n' = 0) \<and>
           n' = n + length (collect_runs ss)"
  using assms(2-)
proof (induction ss arbitrary: pre i n oi mi)
  case Nil
  then show ?case by simp
next
  case (Cons s ss)
  show ?case
  proof (cases s)
    case None
    with Cons.IH[of "pre @ [s]" "Suc i" oi mi n] Cons.prems show ?thesis by simp
  next
    case (Some e)
    have here: "occupied lv (Some i)" using Cons.prems(1,2) Some by (simp add: occupied_def)
    have "\<exists>m. (case mi of None \<Rightarrow> Some i
              | Some j \<Rightarrow> do { ri \<leftarrow> run_at lv i; rj \<leftarrow> run_at lv j; li \<leftarrow> last_key ri; lj \<leftarrow> last_key rj;
                             Some (if compare cmp li lj = Greater then i else j) }) = Some m
              \<and> occupied lv (Some m)"
    proof (cases mi)
      case None
      with here show ?thesis by simp
    next
      case (Some j)
      then have "occupied lv (Some j)" using Cons.prems(4) by simp
      with here show ?thesis
        by (elim occupied_run[OF assms(1)]) (auto simp: Some occupied_def)
    qed
    then obtain m where m: "occupied lv (Some m)" and
      eq: "append_scan cmp lv i (s # ss) (n, oi, mi) =
           append_scan cmp lv (Suc i) ss (Suc n, if oi = None then Some i else oi, Some m)"
      by (auto simp: \<open>s = Some e\<close>)
    moreover define oi2 where "oi2 = (if oi = None then Some i else oi)"
    moreover have "occupied lv oi2" and "oi2 \<noteq> None" using here Cons.prems(3) by (simp_all add: oi2_def)
    ultimately show ?thesis
      using Cons.IH[of "pre @ [s]" "Suc i" oi2 "Some m" "Suc n"] Cons.prems(1,2)
      by (simp add: Some del: append_scan.simps)
  qed
qed

lemma append_at_ok:
  assumes "buf_ok cmp b" and "occupied (levels b) (Some i)" and "run_sorted cmp r" and "r \<noteq> []"
  shows "\<exists>b'. append_at cmp b i r = Some b' \<and> buf_ok cmp b' \<and> buf_mset b' = buf_mset b + mset r"
proof -
  from assms(1,2) obtain e where e: "i < length (levels b)" "levels b ! i = Some e" "e \<noteq> []" "run_sorted cmp e"
    by (rule occupied_run)
  show ?thesis
  proof (cases "compare cmp (fst (last e)) (fst (hd r)) \<noteq> Greater")
    case True
    then have "run_sorted cmp (e @ r)" by (intro sorted_append_ends e assms) simp
    from slots_replace[OF assms(1) e(1,2) this, of r] True e assms(4) show ?thesis
      by (simp add: append_at_def)
  next
    case False
    with merge_sorted_ok[OF assms(1,3)] e assms(4) show ?thesis by (simp add: append_at_def)
  qed
qed

lemma append_sorted_ok:
  assumes "buf_ok cmp b" and "run_sorted cmp r"
  shows "\<exists>b'. append_sorted cmp b r = Some b' \<and> buf_ok cmp b' \<and> buf_mset b' = buf_mset b + mset r"
proof (cases "r = []")
  case True
  with assms show ?thesis by (simp add: append_sorted_def)
next
  case False
  from append_scan_ok[OF assms(1), of "[]" "levels b" 0 None None 0]
  obtain n oi mi where scan: "append_scan cmp (levels b) 0 (levels b) (0, None, None) = Some (n, oi, mi)"
    "occupied (levels b) oi" "occupied (levels b) mi" "oi = None \<longleftrightarrow> n = 0" "mi = None \<longleftrightarrow> n = 0"
    and n: "n = length (collect_runs (levels b))"
    by (auto simp: occupied_def)
  show ?thesis
  proof (cases "n = 0")
    case True
    with n have "buf_mset b = {#}" by (simp add: slots_mset_collect)
    with True False scan assms(2) show ?thesis by (simp add: append_sorted_def)
  next
    case nz: False
    with scan obtain i j where "oi = Some i" "mi = Some j" by auto
    with nz False scan assms append_at_ok[OF assms(1) _ assms(2) False] show ?thesis
      by (simp add: append_sorted_def)
  qed
qed

subsection \<open>Draining returns everything in key order\<close>

lemma disjoint_chain_sorted:
  assumes "disjoint_chain cmp rs" and "\<forall>r\<in>set rs. r \<noteq> [] \<and> run_sorted cmp r"
  shows "run_sorted cmp (concat rs)"
  using assms
proof (induction cmp rs rule: disjoint_chain.induct)
  case (1 cmp a b rs)
  then have "run_sorted cmp (b @ concat rs)" and "run_sorted cmp a" by simp_all
  moreover have "compare (by_key cmp) (last a) (hd (b @ concat rs)) \<noteq> Greater" using 1(2,3) by simp
  ultimately have "run_sorted cmp (a @ b @ concat rs)" by (intro sorted_append_ends[of _ a])
  then show ?case by simp
qed simp_all

text \<open>The pool and the heap of the reduction: the heap lists the occupied slots, each one once.\<close>

definition heap_ok :: "('k, 'v) slots \<Rightarrow> (nat \<times> nat) list \<Rightarrow> bool" where
  "heap_ok pool heap \<longleftrightarrow>
     distinct (map snd heap) \<and> snd ` set heap = {i. i < length pool \<and> pool ! i \<noteq> None}"

lemma heap_pop_ok:
  assumes "heap_ok pool heap" and "heap_pop heap = Some ((n, i), h)"
  shows "i < length pool" and "pool ! i \<noteq> None" and "heap_ok (pool[i := None]) h"
proof -
  note pop = heap_pop_Some[OF assms(2)]
  have mem: "i \<in> snd ` set heap" using pop(1) by force
  with assms(1) show i: "i < length pool" "pool ! i \<noteq> None" by (auto simp: heap_ok_def)
  have d: "distinct (map snd heap)" using assms(1) by (simp add: heap_ok_def)
  have dh: "distinct heap" using d by (simp add: distinct_map)
  have "snd ` set h = snd ` set heap - {i}"
  proof -
    have "set h = set heap - {(n, i)}" using pop(2) dh by simp
    moreover have "snd ` (set heap - {(n, i)}) = snd ` set heap - snd ` {(n, i)}"
      using d pop(1) by (intro inj_on_image_set_diff[of snd "set heap"]) (auto simp: distinct_map)
    ultimately show ?thesis by simp
  qed
  moreover have "distinct (map snd h)" using d dh pop(2) by (auto simp: distinct_map intro: inj_on_diff)
  moreover have "{j. j < length (pool[i := None]) \<and> pool[i := None] ! j \<noteq> None} =
                 {j. j < length pool \<and> pool ! j \<noteq> None} - {i}"
    using i(1) by (auto simp: nth_list_update split: if_splits)
  ultimately show "heap_ok (pool[i := None]) h" using assms(1) by (simp only: heap_ok_def)
qed

lemma heap_ok_push: "heap_ok pool h \<Longrightarrow> heap_ok (pool @ [Some r]) ((n, length pool) # h)"
  by (auto simp: heap_ok_def nth_append less_Suc_eq)

lemma heap_pop_total: "heap \<noteq> [] \<Longrightarrow> \<exists>n i h. heap_pop heap = Some ((n, i), h)"
  by (cases heap) (auto simp: Let_def)

lemma slots_mset_single:
  assumes "i < length pool" and "\<forall>j<length pool. pool ! j \<noteq> None \<longrightarrow> j = i"
  shows "slots_mset pool = slot_mset (pool ! i)"
proof -
  have "pool[i := None] ! j = None" if "j < length pool" for j
    using assms(2) that by (cases "j = i") auto
  then have "\<forall>s\<in>set (pool[i := None]). s = None" by (metis in_set_conv_nth length_list_update)
  moreover have "\<forall>s\<in>set p. s = None \<Longrightarrow> slots_mset p = {#}" for p :: "('a, 'b) slots"
    by (induction p) auto
  ultimately have "slots_mset (pool[i := None]) = {#}" by blast
  with slots_mset_update[OF assms(1), of None] show ?thesis by simp
qed

text \<open>One round of the reduction: two slots are emptied and their merge is pushed.\<close>

lemma reduce_round:
  assumes "slots_ok cmp pool" and "heap_ok pool heap" and "1 < length heap"
  obtains pool' heap' where "reduce_runs cmp pool heap (length pool) = reduce_runs cmp pool' heap' (length pool')"
    and "slots_ok cmp pool'" and "heap_ok pool' heap'" and "slots_mset pool' = slots_mset pool"
    and "heap' \<noteq> []" and "length heap' < length heap"
proof -
  from assms(3) have "heap \<noteq> []" by auto
  then obtain na ia h1 where pa: "heap_pop heap = Some ((na, ia), h1)" using heap_pop_total by blast
  with assms(3) heap_pop_length[OF pa] have "h1 \<noteq> []" by auto
  then obtain nb ib h2 where pb: "heap_pop h1 = Some ((nb, ib), h2)" using heap_pop_total by blast
  let ?p1 = "pool[ia := None]" and ?p2 = "pool[ia := None, ib := None]"
  note a = heap_pop_ok[OF assms(2) pa] and b = heap_pop_ok[OF heap_pop_ok(3)[OF assms(2) pa] pb]
  from a b obtain ra rb where ra: "pool ! ia = Some ra" and rb: "?p1 ! ib = Some rb" by auto
  have ok1: "slots_ok cmp ?p1" using assms(1) by (simp add: slots_ok_update)
  have sra: "ra \<noteq> []" "run_sorted cmp ra" using slots_ok_nth[OF assms(1) a(1)] ra by auto
  have srb: "run_sorted cmp rb" using slots_ok_nth[OF ok1 b(1)] rb by auto
  let ?m = "merge_sorted_by_key_gallop cmp ra rb"
  note m = merge_gallop_props[OF sra(2) srb]
  have "slots_mset (?p2 @ [Some ?m]) = (slots_mset ?p2 + mset rb) + mset ra" by (simp add: m(2) ac_simps)
  also have "slots_mset ?p2 + mset rb = slots_mset ?p1" using slots_mset_update[OF b(1), of None] rb by simp
  also have "slots_mset ?p1 + mset ra = slots_mset pool" using slots_mset_update[OF a(1), of None] ra by simp
  finally have contents: "slots_mset (?p2 @ [Some ?m]) = slots_mset pool" .
  have heap: "heap_ok (?p2 @ [Some ?m]) ((length ?m, length ?p2) # h2)" by (rule heap_ok_push[OF b(3)])
  have ok: "slots_ok cmp (?p2 @ [Some ?m])"
    using ok1 m sra(1) by (simp add: slots_ok_update)
  have step: "reduce_runs cmp pool heap (length pool) =
      reduce_runs cmp (?p2 @ [Some ?m]) ((length ?m, length ?p2) # h2) (length (?p2 @ [Some ?m]))"
    using assms(3) pa pb a(1) b(1) ra rb by (subst reduce_runs.simps) (simp add: Let_def)
  show thesis
    by (rule that[OF step ok heap contents])
      (use heap_pop_length[OF pa] heap_pop_length[OF pb] in simp_all)
qed

lemma reduce_runs_ok:
  assumes "slots_ok cmp pool" and "heap_ok pool heap" and "heap \<noteq> []"
  shows "\<exists>r. reduce_runs cmp pool heap (length pool) = Some r \<and> run_sorted cmp r \<and> mset r = slots_mset pool"
  using assms
proof (induction "length heap" arbitrary: pool heap rule: less_induct)
  case less
  show ?case
  proof (cases "1 < length heap")
    case True
    from reduce_round[OF less.prems(1,2) True] obtain pool' heap'
      where "reduce_runs cmp pool heap (length pool) = reduce_runs cmp pool' heap' (length pool')"
        "slots_ok cmp pool'" "heap_ok pool' heap'" "slots_mset pool' = slots_mset pool"
        "heap' \<noteq> []" "length heap' < length heap" .
    with less.hyps[of heap' pool'] show ?thesis by simp
  next
    case False
    with less.prems(3) obtain n i where h: "heap = [(n, i)]"
      by (cases heap) (auto simp: le_Suc_eq)
    with less.prems(2) have i: "i < length pool" "pool ! i \<noteq> None" "\<forall>j<length pool. pool ! j \<noteq> None \<longrightarrow> j = i"
      by (auto simp: heap_ok_def simp del: not_None_eq)
    from i(2) obtain r where r: "pool ! i = Some r" by auto
    have "run_sorted cmp r" using slots_ok_nth[OF less.prems(1) i(1)] r by simp
    moreover have "reduce_runs cmp pool heap (length pool) = Some r"
      using r i(1) h by (subst reduce_runs.simps) simp
    ultimately show ?thesis using slots_mset_single[OF i(1,3)] r by simp
  qed
qed

lemma mset_concat_cong: "mset xss = mset yss \<Longrightarrow> mset (concat xss) = mset (concat yss)"
  by (simp add: mset_concat flip: sum_mset_sum_list)

lemma take_sorted_ok:
  assumes "buf_ok cmp b"
  shows "\<exists>r b'. take_sorted cmp b = Some (r, b') \<and> run_sorted cmp r \<and> mset r = buf_mset b \<and>
                levels b' = []"
proof -
  define runs where "runs = collect_runs (levels b)"
  define srt where "srt = sort (key (\<lambda>r. fst (hd r)) cmp) runs"
  have runs: "\<forall>r\<in>set runs. r \<noteq> [] \<and> run_sorted cmp r" using assms by (simp add: slots_ok_collect runs_def)
  have ms: "buf_mset b = mset (concat runs)" by (simp add: slots_mset_collect runs_def)
  have srt: "\<forall>r\<in>set srt. r \<noteq> [] \<and> run_sorted cmp r" using runs by (simp add: srt_def)
  have ms': "mset (concat srt) = mset (concat runs)" by (rule mset_concat_cong) (simp add: srt_def)
  consider "runs = []" | r where "runs = [r]" | (many) "1 < length runs"
    by (cases runs; cases "tl runs") auto
  then show ?thesis
  proof cases
    case many
    then have ne: "srt \<noteq> []" "runs \<noteq> []" "length runs \<noteq> 1" by (auto simp: srt_def simp flip: length_greater_0_conv)
    show ?thesis
    proof (cases "disjoint_chain cmp srt")
      case True
      with disjoint_chain_sorted[OF True srt] ms ms' ne runs show ?thesis
        by (auto simp: take_sorted_def Let_def simp flip: runs_def srt_def)
    next
      case False
      let ?heap = "zip (map length srt) [0..<length srt]"
      have "collect_runs (map Some srt) = srt" by (induction srt) simp_all
      then have "slots_ok cmp (map Some srt)" "slots_mset (map Some srt) = mset (concat srt)"
        using srt by (simp_all add: slots_ok_collect slots_mset_collect)
      moreover have "map snd ?heap = [0..<length srt]" by simp
      then have "heap_ok (map Some srt) ?heap"
        unfolding heap_ok_def by (simp flip: set_map del: map_snd_zip) auto
      ultimately show ?thesis
        using reduce_runs_ok[of cmp "map Some srt" ?heap] False ms ms' ne runs
        by (auto simp: take_sorted_def Let_def simp flip: runs_def srt_def)
    qed
  qed (use runs ms in \<open>auto simp: take_sorted_def Let_def simp flip: runs_def\<close>)
qed

subsection \<open>The interface of a sort buffer\<close>

text \<open>
  What the transaction writer relies on: adding a batch never panics and adds exactly the batch,
  and draining returns the contents in order and leaves an empty buffer.
\<close>

datatype 'e buffer_cmd = Merge_Unsorted "'e list" | Append_Sorted "'e list"

fun batch_of :: "'e buffer_cmd \<Rightarrow> 'e list" where
  "batch_of (Merge_Unsorted xs) = xs"
| "batch_of (Append_Sorted xs) = xs"

fun cmd_ok :: "('e list \<Rightarrow> bool) \<Rightarrow> 'e buffer_cmd \<Rightarrow> bool" where
  "cmd_ok ordered (Merge_Unsorted xs) = True"
| "cmd_ok ordered (Append_Sorted xs) = ordered xs"

fun buffer_step ::
    "('b \<Rightarrow> 'e list \<Rightarrow> 'b option) \<Rightarrow> ('b \<Rightarrow> 'e list \<Rightarrow> 'b option) \<Rightarrow> 'b \<Rightarrow> 'e buffer_cmd \<Rightarrow> 'b option" where
  "buffer_step unsorted appended b (Merge_Unsorted xs) = unsorted b xs"
| "buffer_step unsorted appended b (Append_Sorted xs) = appended b xs"

locale sort_buffer =
  fixes inv :: "'b \<Rightarrow> bool"
    and contents :: "'b \<Rightarrow> 'e multiset"
    and ordered :: "'e list \<Rightarrow> bool"
    and empty :: 'b
    and add_unsorted :: "'b \<Rightarrow> 'e list \<Rightarrow> 'b option"
    and add_sorted :: "'b \<Rightarrow> 'e list \<Rightarrow> 'b option"
    and drain :: "'b \<Rightarrow> ('e list \<times> 'b) option"
  assumes empty: "inv empty" "contents empty = {#}"
    and unsorted: "inv b \<Longrightarrow> \<exists>b'. add_unsorted b xs = Some b' \<and> inv b' \<and> contents b' = contents b + mset xs"
    and sorted: "inv b \<Longrightarrow> ordered xs \<Longrightarrow>
      \<exists>b'. add_sorted b xs = Some b' \<and> inv b' \<and> contents b' = contents b + mset xs"
    and drain: "inv b \<Longrightarrow>
      \<exists>xs b'. drain b = Some (xs, b') \<and> ordered xs \<and> mset xs = contents b \<and> inv b' \<and> contents b' = {#}"
begin

abbreviation feed :: "'b \<Rightarrow> 'e buffer_cmd list \<Rightarrow> 'b option" where
  "feed \<equiv> fold_opt (buffer_step add_unsorted add_sorted)"

lemma step_ok:
  assumes "inv b" and "cmd_ok ordered c"
  shows "\<exists>b'. buffer_step add_unsorted add_sorted b c = Some b' \<and> inv b' \<and>
              contents b' = contents b + mset (batch_of c)"
  using assms unsorted sorted by (cases c) simp_all

lemma feed_ok:
  assumes "inv b" and "\<forall>c\<in>set cs. cmd_ok ordered c"
  shows "\<exists>b'. feed b cs = Some b' \<and> inv b' \<and> contents b' = contents b + mset (concat (map batch_of cs))"
proof -
  let ?R = "\<lambda>ds b'. inv b' \<and> contents b' = contents b + mset (concat (map batch_of ds))"
  have "\<exists>b'. feed b cs = Some b' \<and> ?R cs b'"
  proof (rule fold_opt_invariant)
    show "?R [] b" using assms(1) by simp
    fix ds b' c assume "?R ds b'" and "c \<in> set cs"
    with assms(2) step_ok[of b' c]
    show "\<exists>b''. buffer_step add_unsorted add_sorted b' c = Some b'' \<and> ?R (ds @ [c]) b''"
      by (auto simp: ac_simps)
  qed
  then show ?thesis by blast
qed

lemma feed_then_drain:
  assumes "\<forall>c\<in>set cs. cmd_ok ordered c"
  shows "\<exists>b xs b'. feed empty cs = Some b \<and> drain b = Some (xs, b') \<and> ordered xs \<and>
                  mset xs = mset (concat (map batch_of cs)) \<and> contents b' = {#}"
proof -
  from feed_ok[OF empty(1) assms] empty(2) obtain b where
    b: "feed empty cs = Some b" "inv b" "contents b = mset (concat (map batch_of cs))" by auto
  from drain[OF b(2)] b show ?thesis by auto
qed

end

subsection \<open>The binary counter bounds the number of levels\<close>

text \<open>
  A run at level \<open>i\<close> has at least \<open>2 ^ i\<close> entries and the topmost level is occupied, so the number of
  levels is logarithmic in the number of entries.
\<close>

definition slot_big :: "nat \<Rightarrow> ('k, 'v) run option \<Rightarrow> bool" where
  "slot_big i s = (case s of None \<Rightarrow> True | Some r \<Rightarrow> 2 ^ i \<le> length r)"

definition counter_ok :: "('k, 'v) slots \<Rightarrow> bool" where
  "counter_ok lv \<longleftrightarrow> (\<forall>i<length lv. slot_big i (lv ! i)) \<and> (lv \<noteq> [] \<longrightarrow> last lv \<noteq> None)"

lemma slot_big_simps [simp]: "slot_big i None" "slot_big i (Some r) \<longleftrightarrow> 2 ^ i \<le> length r"
  by (simp_all add: slot_big_def)

lemma counter_ok_put:
  assumes "\<forall>i<length lv. slot_big i (lv ! i)" and "last lv \<noteq> None" and "j < length lv" and "2 ^ j \<le> length r"
  shows "counter_ok (lv[j := Some r])"
  using assms by (auto simp: counter_ok_def nth_list_update last_list_update)

lemma merge_carry_counter:
  assumes "\<forall>i<length lv. slot_big i (lv ! i)" and "lv = [] \<or> last lv \<noteq> None \<or> lvl = length lv"
    and "slots_ok cmp lv" and "run_sorted cmp r" and "2 ^ lvl \<le> length r"
    and "merge_carry cmp lv lvl r = Some lv'"
  shows "counter_ok lv'"
  using assms
proof (induction cmp lv lvl r rule: merge_carry.induct)
  case (1 cmp lv lvl r)
  note IH = 1(1) and prems = 1(2-6) and res = 1(7)
  have r: "r \<noteq> []" using prems(5) by (cases r) auto
  consider (top) "lvl = length lv" | (lt) "lvl < length lv" | (above) "length lv < lvl" by linarith
  then show ?case
  proof cases
    case top
    with res have "lv' = lv @ [Some r]" by (simp add: merge_carry.simps[of cmp lv "length lv" r])
    with top prems show ?thesis by (simp add: counter_ok_def nth_append less_Suc_eq)
  next
    case above
    with res show ?thesis by (simp add: merge_carry.simps[of cmp lv lvl r])
  next
    case lt
    then have lst: "last lv \<noteq> None" using prems(2) by auto
    show ?thesis
    proof (cases "lv ! lvl")
      case None
      with lt lst prems res show ?thesis by (auto simp: merge_carry.simps[of cmp lv lvl r] counter_ok_put)
    next
      case (Some e)
      have e: "e \<noteq> []" "run_sorted cmp e" using slots_ok_nth[OF prems(3) lt] Some by auto
      have big: "2 ^ lvl \<le> length e" using prems(1) lt Some by (metis slot_big_simps(2))
      consider (absorb) e' where "lv' = lv[lvl := Some e']" "length e' = length e + length r"
        | (carry) "compare cmp (fst (last e)) (fst (hd r)) = Greater" "compare cmp (fst (last r)) (fst (hd e)) \<noteq> Less"
            "merge_carry cmp (lv[lvl := None]) (lvl + 1) (merge_sorted_by_key_gallop cmp e r) = Some lv'"
        using res lt Some e r by (auto simp: merge_carry.simps[of cmp lv lvl r] split: if_splits)
      then show ?thesis
      proof cases
        case absorb
        with big lt lst prems(1) show ?thesis by (auto intro: counter_ok_put)
      next
        case carry
        let ?m = "merge_sorted_by_key_gallop cmp e r"
        note m = merge_gallop_props[OF e(2) prems(4)]
        have "length ?m = length e + length r" using arg_cong[OF m(2), of size] by simp
        then have "2 ^ (lvl + 1) \<le> length ?m" using big prems(5) by simp
        moreover have "slots_ok cmp (lv[lvl := None])" using prems(3) by (simp add: slots_ok_update)
        moreover have "\<forall>i<length (lv[lvl := None]). slot_big i (lv[lvl := None] ! i)"
          using prems(1) lt by (simp add: nth_list_update)
        moreover have "lv[lvl := None] = [] \<or> last (lv[lvl := None]) \<noteq> None \<or> lvl + 1 = length (lv[lvl := None])"
          using lt lst by (auto simp: last_list_update)
        ultimately show ?thesis
          using IH[OF _ _ Some, of "fst (last e)" "fst (hd r)" "fst (last r)" "fst (hd e)"] carry e r lt m(1)
          by simp
      qed
    qed
  qed
qed

definition buf_inv :: "'k comparator \<Rightarrow> ('k, 'v) merge_buffer \<Rightarrow> bool" where
  "buf_inv cmp b \<longleftrightarrow> buf_ok cmp b \<and> counter_ok (levels b)"

lemma from_sorted_ok:
  assumes "run_sorted cmp r"
  shows "buf_inv cmp (from_sorted r)" and "buf_mset (from_sorted r) = mset r"
  using assms by (auto simp: from_sorted_def mb_new_def buf_inv_def counter_ok_def Suc_le_eq)

lemma merge_sorted_counter:
  assumes "buf_inv cmp b" and "run_sorted cmp r" and "merge_sorted cmp b r = Some b'"
  shows "counter_ok (levels b')"
proof (cases "r = []")
  case True
  with assms show ?thesis by (simp add: merge_sorted_def buf_inv_def)
next
  case False
  then have "1 \<le> length r" by (cases r) auto
  with assms False merge_carry_counter[of "levels b" 0 cmp r] show ?thesis
    by (auto simp: merge_sorted_def buf_inv_def counter_ok_def)
qed

lemma append_at_counter:
  assumes "buf_inv cmp b" and "occupied (levels b) (Some i)" and "run_sorted cmp r"
    and "append_at cmp b i r = Some b'"
  shows "counter_ok (levels b')"
proof -
  have ok: "buf_ok cmp b" and ct: "counter_ok (levels b)" using assms(1) by (simp_all add: buf_inv_def)
  from ok assms(2) obtain e where e: "i < length (levels b)" "levels b ! i = Some e" "e \<noteq> []"
    by (rule occupied_run)
  from ct e have "2 ^ i \<le> length e" by (metis counter_ok_def slot_big_simps(2))
  then have "counter_ok ((levels b)[i := Some (e @ r)])"
    using ct e(1) by (intro counter_ok_put) (auto simp: counter_ok_def)
  with e assms(4) merge_sorted_counter[OF assms(1,3)] show ?thesis
    by (auto simp: append_at_def bind_eq_Some_conv split: if_splits)
qed

lemma append_sorted_counter:
  assumes "buf_inv cmp b" and "run_sorted cmp r" and "append_sorted cmp b r = Some b'"
  shows "counter_ok (levels b')"
proof (cases "r = []")
  case True
  with assms show ?thesis by (simp add: append_sorted_def buf_inv_def)
next
  case False
  from append_scan_ok[of cmp "levels b" "[]" "levels b" 0 None None 0] assms(1)
  obtain n oi mi where scan: "append_scan cmp (levels b) 0 (levels b) (0, None, None) = Some (n, oi, mi)"
    "occupied (levels b) oi" "occupied (levels b) mi"
    by (auto simp: occupied_def buf_inv_def)
  show ?thesis
  proof (cases "n = 0")
    case True
    with scan assms(3) False show ?thesis by (cases r) (auto simp: append_sorted_def counter_ok_def)
  next
    case nz: False
    with scan assms(3) False have "(\<exists>i. oi = Some i \<and> append_at cmp b i r = Some b') \<or>
        (\<exists>i. mi = Some i \<and> append_at cmp b i r = Some b') \<or> merge_sorted cmp b r = Some b'"
      by (auto simp: append_sorted_def bind_eq_Some_conv split: if_splits option.splits)
    with scan(2,3) append_at_counter[OF assms(1) _ assms(2)] merge_sorted_counter[OF assms(1,2)]
    show ?thesis by blast
  qed
qed

interpretation mb: sort_buffer "buf_inv cmp" buf_mset "run_sorted cmp" mb_new "merge_unsorted cmp"
  "append_sorted cmp" "take_sorted cmp" for cmp
proof
  show "buf_inv cmp mb_new" "buf_mset mb_new = {#}" by (simp_all add: mb_new_def buf_inv_def counter_ok_def)
  fix b :: "('a, 'b) merge_buffer" and xs
  assume inv: "buf_inv cmp b"
  then have ok: "buf_ok cmp b" by (simp add: buf_inv_def)
  show "\<exists>b'. merge_unsorted cmp b xs = Some b' \<and> buf_inv cmp b' \<and> buf_mset b' = buf_mset b + mset xs"
    using merge_unsorted_ok[OF ok, of xs] merge_sorted_counter[OF inv, of "sort (by_key cmp) xs"] inv
    by (auto simp: buf_inv_def merge_unsorted_def)
  show "\<exists>b'. append_sorted cmp b xs = Some b' \<and> buf_inv cmp b' \<and> buf_mset b' = buf_mset b + mset xs"
    if "run_sorted cmp xs"
    using append_sorted_ok[OF ok that] append_sorted_counter[OF inv that] by (auto simp: buf_inv_def)
  show "\<exists>xs b'. take_sorted cmp b = Some (xs, b') \<and> run_sorted cmp xs \<and> mset xs = buf_mset b \<and>
                buf_inv cmp b' \<and> buf_mset b' = {#}"
    using take_sorted_ok[OF ok] by (auto simp: buf_inv_def counter_ok_def)
qed

lemma slot_mset_subset: "s \<in> set lv \<Longrightarrow> slot_mset s \<subseteq># slots_mset lv"
  by (induction lv) (auto intro: subset_mset.add_increasing)

lemma counter_bound:
  assumes "counter_ok lv" and "lv \<noteq> []"
  shows "2 ^ length lv \<le> 2 * size (slots_mset lv)"
proof -
  from assms obtain r where r: "last lv = Some r" by (auto simp: counter_ok_def)
  have "2 ^ (length lv - 1) \<le> length r"
    using assms r by (auto simp: counter_ok_def last_conv_nth dest: spec[of _ "length lv - 1"])
  also have "length r \<le> size (slots_mset lv)"
    using size_mset_mono[OF slot_mset_subset[of "Some r" lv]] assms(2) r last_in_set[of lv] by simp
  finally show ?thesis using assms(2) by (cases "length lv") simp_all
qed

subsection \<open>Distinct keys: the drained run is determined by the contents\<close>

lemma run_sorted_unique:
  assumes "run_sorted cmp xs" and "run_sorted cmp ys" and "mset xs = mset ys"
    and "distinct (map fst xs)" and "\<And>a b. compare cmp a b = Equiv \<Longrightarrow> a = b"
  shows "xs = ys"
proof -
  have seg: "stable_segment (by_key cmp) p zs = [p]"
    if "mset zs = mset xs" and "p \<in> set xs" for p zs
  proof -
    have d: "distinct (map fst zs)" using assms(4) that(1) by (metis mset_eq_imp_distinct_iff mset_map)
    have "p \<in> set zs" using that by (metis mset_eq_setD)
    with d assms(5) show ?thesis
    proof (induction zs)
      case (Cons z zs)
      show ?case
      proof (cases "z = p")
        case True
        with Cons.prems(1) have "fst p \<notin> fst ` set zs" by simp
        then have "\<forall>q\<in>set zs. fst q \<noteq> fst p" by (metis image_eqI)
        then have "\<forall>q\<in>set zs. compare cmp (fst p) (fst q) \<noteq> Equiv" by (metis Cons.prems(2))
        then have "stable_segment (by_key cmp) p zs = []" by (simp add: filter_empty_conv)
        with True show ?thesis by (simp add: compare.refl)
      next
        case False
        with Cons.prems have "p \<in> set zs" "fst z \<noteq> fst p" by force+
        with Cons show ?thesis by (auto dest: Cons.prems(2))
      qed
    qed simp
  qed
  have "sort (by_key cmp) xs = ys"
    by (rule sort_eqI[OF assms(3,2)]) (use assms(3) seg in simp)
  with assms(1) show ?thesis by (simp add: sort_of_sorted)
qed

subsection \<open>Ascending appends\<close>

definition one_run :: "('k, 'v) run \<Rightarrow> ('k, 'v) merge_buffer" where
  "one_run r = \<lparr>levels = (if r = [] then [] else [Some r])\<rparr>"

lemma append_to_one_run:
  assumes "run_sorted cmp (acc @ r)"
  shows "append_sorted cmp (one_run acc) r = Some (one_run (acc @ r))"
proof (cases "acc = [] \<or> r = []")
  case True
  then show ?thesis by (auto simp: append_sorted_def one_run_def)
next
  case False
  then have "compare cmp (fst (last acc)) (fst (hd r)) \<noteq> Greater"
    using assms by (auto simp: sorted_append_iff)
  with False show ?thesis by (simp add: append_sorted_def append_at_def one_run_def)
qed

abbreviation mb_feed ::
    "'k comparator \<Rightarrow> ('k, 'v) merge_buffer \<Rightarrow> ('k \<times> 'v) buffer_cmd list \<Rightarrow> ('k, 'v) merge_buffer option" where
  "mb_feed cmp \<equiv> fold_opt (buffer_step (merge_unsorted cmp) (append_sorted cmp))"

lemma feed_ascending:
  assumes "run_sorted cmp (acc @ concat batches)"
  shows "mb_feed cmp (one_run acc) (map Append_Sorted batches) = Some (one_run (acc @ concat batches))"
  using assms
proof (induction batches arbitrary: acc)
  case (Cons r batches)
  then have "run_sorted cmp (acc @ r)" by (auto simp: sorted_append_iff)
  with Cons.IH[of "acc @ r"] Cons.prems show ?case by (simp add: append_to_one_run)
qed simp

subsection \<open>Properties\<close>

text \<open>
  C15. Whatever sequence of unsorted merges and sorted appends reaches a new buffer, no operation
  panics, draining returns every pair that was added, no other and each as often as it was added,
  in key order, and leaves the buffer without levels; on the way the number of levels stays
  logarithmic in the number of pairs.
\<close>

theorem take_sorted_complete:
  assumes "\<forall>c\<in>set cmds. cmd_ok (run_sorted cmp) c"
  shows "\<exists>b out b'. mb_feed cmp mb_new cmds = Some b \<and> take_sorted cmp b = Some (out, b') \<and>
           run_sorted cmp out \<and> mset out = mset (concat (map batch_of cmds)) \<and> mb_is_empty b' \<and>
           2 ^ length (levels b) \<le> max 1 (2 * length out)"
proof -
  from mb.feed_ok[OF mb.empty(1) assms] obtain b where
    b: "mb_feed cmp mb_new cmds = Some b" "buf_inv cmp b" "buf_mset b = mset (concat (map batch_of cmds))"
    by (auto simp: mb.empty(2))
  from b(2) have ok: "buf_ok cmp b" and ct: "counter_ok (levels b)" by (simp_all add: buf_inv_def)
  from take_sorted_ok[OF ok] obtain out b' where
    out: "take_sorted cmp b = Some (out, b')" "run_sorted cmp out" "mset out = buf_mset b" "levels b' = []" by auto
  have "2 ^ length (levels b) \<le> max 1 (2 * length out)"
    using counter_bound[OF ct] arg_cong[OF out(3), of size] by (cases "levels b = []") auto
  with b out show ?thesis by (auto simp: mb_is_empty_def)
qed

theorem take_sorted_complete_witness:
  "\<exists>b out b'. mb_feed (default :: nat comparator) mb_new
       [Append_Sorted [(2, True), (4, False)], Merge_Unsorted [(3, True), (1, True)]] = Some b \<and>
     take_sorted default b = Some (out, b') \<and> run_sorted default out \<and>
     mset out = {#(2, True), (4, False), (3, True), (1, True)#} \<and> mb_is_empty b' \<and>
     2 ^ length (levels b) \<le> max 1 (2 * length out)"
  using take_sorted_complete[of "[Append_Sorted [(2, True), (4, False)], Merge_Unsorted [(3, True), (1, True)]]"
      "default :: nat comparator"]
  by simp

text \<open>
  The galloping two-way merge of two sorted runs is the stable sort of their concatenation: it
  agrees with the textbook merge on all three paths (append, prepend and the loop of the two
  searches), and pairs of the left run come before pairs of the right run with an equal key.
\<close>

theorem merge_gallop_stable:
  assumes "run_sorted cmp a" and "run_sorted cmp b"
  shows "merge_sorted_by_key_gallop cmp a b = sort (by_key cmp) (a @ b)"
  by (rule merge_gallop_sort[OF assms])

theorem merge_gallop_stable_witness:
  "merge_sorted_by_key_gallop (default :: nat comparator) [(1, ''a''), (3, ''b'')] [(1, ''c''), (2, ''d'')] =
   [(1, ''a''), (1, ''c''), (2, ''d''), (3, ''b'')]"
proof -
  have "run_sorted (default :: nat comparator) [(1, ''a''), (3, ''b'')]"
    and "run_sorted (default :: nat comparator) [(1, ''c''), (2, ''d'')]"
    by simp_all
  from merge_gallop_stable[OF this] show ?thesis by simp
qed

text \<open>
  When no two pairs share a key, the drained run is determined by the pairs alone: two command
  sequences that add the same pairs, in whatever order, grouping and mode, drain to the same list.
\<close>

theorem drain_order_independent:
  assumes "\<forall>c\<in>set cmds1. cmd_ok (run_sorted cmp) c" and "\<forall>c\<in>set cmds2. cmd_ok (run_sorted cmp) c"
    and "mset (concat (map batch_of cmds1)) = mset (concat (map batch_of cmds2))"
    and "distinct (map fst (concat (map batch_of cmds1)))"
    and "\<forall>x y. compare cmp x y = Equiv \<longrightarrow> x = y"
  shows "map_option fst (Option.bind (mb_feed cmp mb_new cmds1) (take_sorted cmp)) =
         map_option fst (Option.bind (mb_feed cmp mb_new cmds2) (take_sorted cmp))"
proof -
  from mb.feed_then_drain[OF assms(1)] obtain b1 o1 b1' where
    r1: "mb_feed cmp mb_new cmds1 = Some b1" "take_sorted cmp b1 = Some (o1, b1')" "run_sorted cmp o1"
      "mset o1 = mset (concat (map batch_of cmds1))" by blast
  from mb.feed_then_drain[OF assms(2)] obtain b2 o2 b2' where
    r2: "mb_feed cmp mb_new cmds2 = Some b2" "take_sorted cmp b2 = Some (o2, b2')" "run_sorted cmp o2"
      "mset o2 = mset (concat (map batch_of cmds2))" by blast
  have "distinct (map fst o1)" using assms(4) r1(4) by (metis mset_eq_imp_distinct_iff mset_map)
  then have "o1 = o2" using r1 r2 assms(3,5) by (intro run_sorted_unique[of cmp]) auto
  with r1 r2 show ?thesis by simp
qed

theorem drain_order_independent_witness:
  "map_option fst (Option.bind (mb_feed (default :: nat comparator) mb_new
       [Merge_Unsorted [(3, True), (1, False)], Append_Sorted [(2, True)]]) (take_sorted default)) =
   map_option fst (Option.bind (mb_feed default mb_new
       [Append_Sorted [(2, True)], Merge_Unsorted [(1, False)], Append_Sorted [(3, True)]]) (take_sorted default))"
  by (rule drain_order_independent) simp_all

text \<open>
  Appending sorted batches in ascending key order, which is how blocks arrive, never merges:
  the buffer keeps one run, the concatenation of the batches, and draining returns it unchanged.
\<close>

theorem append_ascending_one_run:
  assumes "run_sorted cmp (concat batches)" and "concat batches \<noteq> []"
  shows "mb_feed cmp mb_new (map Append_Sorted batches) = Some \<lparr>levels = [Some (concat batches)]\<rparr> \<and>
         take_sorted cmp \<lparr>levels = [Some (concat batches)]\<rparr> = Some (concat batches, \<lparr>levels = []\<rparr>)"
  using feed_ascending[of cmp "[]" batches] assms
  by (simp add: one_run_def mb_new_def take_sorted_def Let_def)

theorem append_ascending_one_run_witness:
  "mb_feed (default :: nat comparator) mb_new (map Append_Sorted [[(1, True), (2, False)], [(2, True)], [(7, True)]]) =
     Some \<lparr>levels = [Some [(1, True), (2, False), (2, True), (7, True)]]\<rparr>"
  using append_ascending_one_run[of "default :: nat comparator" "[[(1, True), (2, False)], [(2, True)], [(7, True)]]"]
  by simp

text \<open>
  Stability does not extend across runs. The levels are collected from the newest to the oldest, so
  a pair that a later batch added can be drained before the pair with the same key of an earlier
  batch; a consumer that writes the drained pairs one by one keeps the earlier value.
\<close>

theorem take_sorted_not_stable:
  "map_option fst (Option.bind
     (mb_feed (default :: nat comparator) mb_new
        [Merge_Unsorted [(5, ''a'')], Merge_Unsorted [(1, ''old''), (6, ''a'')], Merge_Unsorted [(1, ''new'')]])
     (take_sorted default)) =
   Some [(1, ''new''), (1, ''old''), (5, ''a''), (6, ''a'')]"
  by (simp add: merge_unsorted_def merge_sorted_def mb_new_def merge_carry.simps take_sorted_def
      first_key_def last_key_def merge_gallop_sort)

end
