(* ===== verification/Partitioning.thy ===== *)
theory Partitioning
  imports Prelude
begin

section \<open>Partitioning keys and values over shards\<close>

text \<open>
  The model of \<open>redbit/src/storage/partitioning.rs\<close>. A key is placed by the remainder of its
  little-endian bytes modulo the number of shards, computed byte by byte on \<open>u128\<close> accumulators; a
  value is placed by its 64-bit hash. The hash \<open>xxh3_64\<close> is code of another crate and a parameter.

  The arithmetic of \<open>le_mod_fold_chunk\<close> is kept on 128-bit words, so that it would wrap where the
  code would overflow; the theorems show that it does not for any shard count a \<open>usize\<close> can hold.
\<close>

datatype ('kp, 'vp) partitioning = ByKey 'kp | ByValue 'vp

datatype bytes_partitioner = BytesPartitioner usize

datatype xxh3_partitioner = Xxh3Partitioner usize

text \<open>The constructors assert that there is a shard.\<close>

definition bytes_partitioner_new :: "usize \<Rightarrow> bytes_partitioner option" where
  "bytes_partitioner_new n = (if 0 < n then Some (BytesPartitioner n) else None)"

definition xxh3_partitioner_new :: "usize \<Rightarrow> xxh3_partitioner option" where
  "xxh3_partitioner_new n = (if 0 < n then Some (Xxh3Partitioner n) else None)"

definition by_key_shards :: "usize \<Rightarrow> (bytes_partitioner, xxh3_partitioner) partitioning option" where
  "by_key_shards shards = map_option ByKey (bytes_partitioner_new shards)"

definition by_value_shards :: "usize \<Rightarrow> (bytes_partitioner, xxh3_partitioner) partitioning option" where
  "by_value_shards shards = map_option ByValue (xxh3_partitioner_new shards)"

definition xxh3_partition_bytes :: "(bytes \<Rightarrow> u64) \<Rightarrow> xxh3_partitioner \<Rightarrow> bytes \<Rightarrow> usize" where
  "xxh3_partition_bytes xxh3_64 p bs = (case p of Xxh3Partitioner n \<Rightarrow> unat (xxh3_64 bs mod of_nat n))"

definition partition_value :: "(bytes \<Rightarrow> u64) \<Rightarrow> ('v \<Rightarrow> bytes) \<Rightarrow> xxh3_partitioner \<Rightarrow> 'v \<Rightarrow> usize" where
  "partition_value xxh3_64 as_bytes p v = xxh3_partition_bytes xxh3_64 p (as_bytes v)"

text \<open>The accumulators run over the bytes from the least significant one.\<close>

primrec le_mod_loop :: "u128 \<Rightarrow> u128 \<Rightarrow> u128 \<Rightarrow> bytes \<Rightarrow> u128 \<times> u128" where
  "le_mod_loop m p a [] = (p, a)"
| "le_mod_loop m p a (b # bs) = le_mod_loop m ((p * 256) mod m) ((a + ucast b * p) mod m) bs"

definition le_mod_fold_chunk :: "u128 \<Rightarrow> u128 \<times> u128 \<Rightarrow> bytes \<Rightarrow> u128 \<times> u128" where
  "le_mod_fold_chunk m pa chunk = (if m = 1 then pa else le_mod_loop m (fst pa) (snd pa) chunk)"

definition partition_bytes_le :: "usize \<Rightarrow> bytes \<Rightarrow> usize" where
  "partition_bytes_le n bs =
     (let m = of_nat n :: u128
      in if m = 1 then 0
         else take_bit 64 (unat (snd (le_mod_fold_chunk m (1, 0) bs) mod m)))"

definition bytes_partition_bytes :: "bytes_partitioner \<Rightarrow> bytes \<Rightarrow> usize" where
  "bytes_partition_bytes p bs = (case p of BytesPartitioner n \<Rightarrow> partition_bytes_le n bs)"

definition partition_key_redb :: "('k \<Rightarrow> bytes) \<Rightarrow> usize \<Rightarrow> 'k \<Rightarrow> usize option" where
  "partition_key_redb as_bytes n k = (if 0 < n then Some (partition_bytes_le n (as_bytes k)) else None)"

definition partition_key :: "('k \<Rightarrow> bytes) \<Rightarrow> bytes_partitioner \<Rightarrow> 'k \<Rightarrow> usize option" where
  "partition_key as_bytes p k = (case p of BytesPartitioner n \<Rightarrow> partition_key_redb as_bytes n k)"

subsection \<open>The loop computes a remainder\<close>

text \<open>
  One step of the loop does not overflow: both accumulators are below a modulus of at most 64 bits,
  and a byte times such a number, plus such a number, is below \<open>2 ^ 73\<close>.
\<close>

lemma unat_u128_mod: "unat ((x :: u128) mod m) = unat x mod unat m"
  by (rule unat_mod)

lemma le_step_exact:
  fixes m p a :: u128 and b :: u8
  assumes "unat m < 2 ^ 64" and "unat p < unat m" and "unat a < unat m"
  shows "unat ((a + ucast b * p) mod m) = (unat a + unat b * unat p) mod unat m"
    and "unat ((p * 256) mod m) = (unat p * 256) mod unat m"
proof -
  have b: "unat (ucast b :: u128) = unat b" by (rule unat_u8_wide)
  have bb: "unat b < 256" by (rule unat_u8_less)
  have "unat b * unat p \<le> 256 * 2 ^ 64" using bb assms by (intro mult_le_mono) auto
  then have small: "unat b * unat p < 2 ^ 127" "unat a + unat b * unat p < 2 ^ 128" using assms by auto
  have "unat (ucast b * p) = unat b * unat p" using small(1) b by (simp add: unat_word_ariths)
  then have "unat (a + ucast b * p) = unat a + unat b * unat p"
    using small(2) by (simp add: unat_word_ariths)
  then show "unat ((a + ucast b * p) mod m) = (unat a + unat b * unat p) mod unat m"
    by (simp only: unat_u128_mod)
  have "unat (p * 256) = unat p * 256" using assms by (simp add: unat_word_ariths)
  then show "unat ((p * 256) mod m) = (unat p * 256) mod unat m" by (simp only: unat_u128_mod)
qed

lemma mod_step: "((x :: nat) mod m + (y mod m) * z) mod m = (x + y * z) mod m"
proof -
  have "(x mod m + (y mod m) * z) mod m = (x mod m + ((y mod m) * z) mod m) mod m" by (simp only: mod_add_right_eq)
  also have "((y mod m) * z) mod m = (y * z) mod m" by (rule mod_mult_left_eq)
  finally show ?thesis by (simp only: mod_add_eq)
qed

lemma le_mod_loop_value:
  assumes "unat m < 2 ^ 64" and "unat p < unat m" and "unat a < unat m"
  shows "unat (snd (le_mod_loop m p a bs)) = (unat a + unat p * le_value bs) mod unat m"
  using assms
proof (induction bs arbitrary: p a)
  case (Cons b bs)
  note step = le_step_exact[OF Cons.prems]
  have m: "0 < unat m" using Cons.prems(2) by simp
  have "unat (snd (le_mod_loop m p a (b # bs))) =
        ((unat a + unat b * unat p) mod unat m + (unat p * 256) mod unat m * le_value bs) mod unat m"
    using Cons.IH[of "(p * 256) mod m" "(a + ucast b * p) mod m"] Cons.prems(1) m
    by (simp add: step)
  also have "\<dots> = ((unat a + unat b * unat p) + (unat p * 256) * le_value bs) mod unat m"
    by (rule mod_step)
  finally show ?case by (simp add: algebra_simps)
qed simp

lemma partition_bytes_le_value:
  assumes "0 < n" and "n \<le> usize_max"
  shows "partition_bytes_le n bs = le_value bs mod n"
proof (cases "n = 1")
  case True
  then show ?thesis by (simp add: partition_bytes_le_def)
next
  case False
  have n: "n < 2 ^ 64" using assms(2) by simp
  then have m: "unat (of_nat n :: u128) = n" by (simp add: unat_of_nat)
  then have "(of_nat n :: u128) \<noteq> 1" using False by (metis unat_1)
  moreover have "unat (snd (le_mod_loop (of_nat n) 1 0 bs)) = le_value bs mod n"
    using le_mod_loop_value[of "of_nat n" 1 0 bs] m n False assms(1) by simp
  moreover have "le_value bs mod n < 2 ^ 64" using n assms(1) by (meson less_trans mod_less_divisor)
  ultimately show ?thesis
    by (simp add: partition_bytes_le_def Let_def le_mod_fold_chunk_def unat_u128_mod m take_bit_nat_eq_self)
qed

text \<open>The fold may be fed in chunks: the accumulators carry everything from one chunk to the next.\<close>

lemma le_mod_loop_append:
  "le_mod_loop m p a (xs @ ys) = (case le_mod_loop m p a xs of (p', a') \<Rightarrow> le_mod_loop m p' a' ys)"
  by (induction xs arbitrary: p a) simp_all

subsection \<open>Properties\<close>

text \<open>
  C38. For every shard count that the constructor accepts, the shard of a key exists, is below the
  shard count, and is the little-endian number of its bytes modulo the shard count; the 128-bit
  accumulators do not overflow on keys of any length.
\<close>

theorem partition_key_spec:
  assumes "n \<le> usize_max" and "bytes_partitioner_new n = Some p"
  shows "partition_key as_bytes p k = Some (le_value (as_bytes k) mod n) \<and> le_value (as_bytes k) mod n < n"
proof -
  from assms(2) have "0 < n" "p = BytesPartitioner n" by (auto simp: bytes_partitioner_new_def split: if_splits)
  with partition_bytes_le_value[OF _ assms(1)] show ?thesis
    by (simp add: partition_key_def partition_key_redb_def)
qed

theorem partition_key_spec_witness:
  "partition_key id (BytesPartitioner 7) [3, 1, 0, 2] = Some (le_value [3, 1, 0, 2] mod 7) \<and>
   le_value [3, 1, 0, 2] mod 7 < 7"
  using partition_key_spec[of 7 "BytesPartitioner 7" id "[3, 1, 0, 2]"]
  by (simp add: bytes_partitioner_new_def)

lemma partition_value_bound:
  assumes "n \<le> usize_max" and "xxh3_partitioner_new n = Some p"
  shows "partition_value h as_bytes p v < n"
proof -
  from assms(2) have n: "0 < n" "p = Xxh3Partitioner n" by (auto simp: xxh3_partitioner_new_def split: if_splits)
  have "unat (of_nat n :: u64) = n" using assms(1) by (simp add: unat_of_nat)
  then show ?thesis using n by (simp add: partition_value_def xxh3_partition_bytes_def unat_mod)
qed

end
