(* ===== verification/Cache_Alloc.thy ===== *)
theory Cache_Alloc
  imports Sorting_Facts
begin

section \<open>Sharing the cache between columns\<close>

text \<open>
  The model of \<open>redbit/src/storage/cache.rs\<close> with the two column definitions of
  \<open>redbit/src/storage/init.rs\<close>: the cache of the database is shared out in whole megabytes by the
  largest-remainder method, in proportion to the weights, and each column's share is divided by its
  shards.

  Sums of \<open>u64\<close> values overflow with a panic (\<open>checked_sum\<close>); products and the one increment
  saturate, as the code writes them.
\<close>

record db_def =
  def_name :: string
  def_shards :: usize
  db_cache_weight_or_zero :: usize
  lru_cache_size_or_zero :: usize

record db_def_with_cache =
  dc_name :: string
  dc_shards :: usize
  db_cache_weight :: usize
  db_cache_in_mb :: usize
  lru_cache :: usize

definition with_cache_new :: "db_def \<Rightarrow> usize \<Rightarrow> db_def_with_cache" where
  "with_cache_new d mb =
     \<lparr>dc_name = def_name d, dc_shards = def_shards d, db_cache_weight = db_cache_weight_or_zero d,
      db_cache_in_mb = mb, lru_cache = lru_cache_size_or_zero d\<rparr>"

definition validate :: "db_def_with_cache \<Rightarrow> unit res" where
  "validate d =
     (if dc_shards d = 0
      then Inl (Custom (''column `'' @ dc_name d @
                        ''`: shards == 0 is not supported; use 1 (single) or >= 2 (sharded)''))
      else Inr ())"

definition checked_sum :: "nat list \<Rightarrow> nat option" where
  "checked_sum xs = (if sum_list xs \<le> usize_max then Some (sum_list xs) else None)"

definition sum_positive_weights :: "db_def list \<Rightarrow> nat option" where
  "sum_positive_weights db_defs =
     checked_sum (filter (\<lambda>w. 0 < w) (map db_cache_weight_or_zero db_defs))"

record share =
  sh_idx :: nat
  base_mb :: nat
  rem_num :: nat

definition share_of :: "nat \<Rightarrow> nat \<Rightarrow> nat \<times> db_def \<Rightarrow> share" where
  "share_of total_mb sum_w p =
     (case p of (idx, d) \<Rightarrow>
        let w = db_cache_weight_or_zero d
        in if w = 0 then \<lparr>sh_idx = idx, base_mb = 0, rem_num = 0\<rparr>
           else let prod = saturating_mul total_mb w
                in \<lparr>sh_idx = idx, base_mb = prod div sum_w, rem_num = prod mod sum_w\<rparr>)"

definition compute_shares_mb :: "db_def list \<Rightarrow> nat \<Rightarrow> nat \<Rightarrow> share list" where
  "compute_shares_mb db_defs total_mb sum_w =
     map (share_of total_mb sum_w) (zip [0..<length db_defs] db_defs)"

text \<open>The order of the shares: larger remainders first, ties by index.\<close>

definition by_remainder :: "share comparator" where
  "by_remainder = key (\<lambda>s. (rem_num s, sh_idx s)) (prod_lex (reversed default) default)"

fun give_remainder :: "db_def list \<Rightarrow> share list \<Rightarrow> nat \<Rightarrow> share list option" where
  "give_remainder db_defs [] r = Some []"
| "give_remainder db_defs (s # ss) r =
     (if r = 0 then Some (s # ss)
      else if length db_defs \<le> sh_idx s then None
      else if 0 < db_cache_weight_or_zero (db_defs ! sh_idx s)
      then map_option (Cons (s\<lparr>base_mb := saturating_add (base_mb s) 1\<rparr>)) (give_remainder db_defs ss (r - 1))
      else map_option (Cons s) (give_remainder db_defs ss r))"

definition distribute_remainder_mb :: "share list \<Rightarrow> nat \<Rightarrow> db_def list \<Rightarrow> share list option" where
  "distribute_remainder_mb shares r db_defs =
     map_option (sort (key sh_idx default)) (give_remainder db_defs (sort by_remainder shares) r)"

definition cast_u64_to_usize :: "nat \<Rightarrow> usize" where
  "cast_u64_to_usize x = (if usize_max < x then usize_max else x)"

text \<open>One column of the result; a column without shards is a panic.\<close>

definition allocation_mb :: "db_def list \<Rightarrow> share \<Rightarrow> db_def_with_cache option" where
  "allocation_mb db_defs s =
     (if length db_defs \<le> sh_idx s then None
      else let d = db_defs ! sh_idx s; shards = def_shards d
           in if shards = 0 then None
              else Some (with_cache_new d
                     (cast_u64_to_usize (if shards = 1 then base_mb s else base_mb s div shards))))"

definition collect_allocations_mb :: "share list \<Rightarrow> db_def list \<Rightarrow> db_def_with_cache list option" where
  "collect_allocations_mb shares db_defs = those (map (allocation_mb db_defs) shares)"

definition allocate_cache_mb :: "db_def list \<Rightarrow> nat \<Rightarrow> db_def_with_cache list option" where
  "allocate_cache_mb db_defs total_mb =
     (let zeros = map (\<lambda>d. with_cache_new d 0) db_defs
      in if db_defs = [] \<or> total_mb = 0 then Some zeros
         else do {
           sum_w \<leftarrow> sum_positive_weights db_defs;
           if sum_w = 0 then Some zeros
           else do {
             let shares = compute_shares_mb db_defs total_mb sum_w;
             base_sum_mb \<leftarrow> checked_sum (map base_mb shares);
             let remainder = total_mb - base_sum_mb;
             shares' \<leftarrow> (if 0 < remainder then distribute_remainder_mb shares remainder db_defs else Some shares);
             collect_allocations_mb shares' db_defs
           }
         })"

subsection \<open>The shares before the remainder is given out\<close>

abbreviation weight :: "db_def list \<Rightarrow> nat \<Rightarrow> nat" where
  "weight defs i \<equiv> db_cache_weight_or_zero (defs ! i)"

abbreviation weights_sum :: "db_def list \<Rightarrow> nat" where
  "weights_sum defs \<equiv> sum_list (map db_cache_weight_or_zero defs)"

lemma sum_list_filter_pos: "sum_list (filter (\<lambda>w. 0 < w) xs) = sum_list (xs :: nat list)"
  by (induction xs) auto

lemma sum_positive_weights_eq:
  "weights_sum defs \<le> usize_max \<Longrightarrow> sum_positive_weights defs = Some (weights_sum defs)"
  by (simp add: sum_positive_weights_def checked_sum_def sum_list_filter_pos)

lemma length_compute_shares [simp]: "length (compute_shares_mb defs t W) = length defs"
  by (simp add: compute_shares_mb_def)

lemma nth_compute_shares:
  assumes "i < length defs" and "t * weight defs i \<le> usize_max"
  shows "compute_shares_mb defs t W ! i =
         \<lparr>sh_idx = i, base_mb = t * weight defs i div W, rem_num = t * weight defs i mod W\<rparr>"
  using assms by (auto simp: compute_shares_mb_def share_of_def Let_def saturating_mul_exact)

lemma division_sums:
  fixes xs :: "nat list"
  shows "sum_list xs = W * sum_list (map (\<lambda>x. x div W) xs) + sum_list (map (\<lambda>x. x mod W) xs)"
proof (induction xs)
  case (Cons x xs)
  have "x = W * (x div W) + x mod W" by simp
  with Cons show ?case by (simp add: algebra_simps)
qed simp

text \<open>The megabytes left over are fewer than the columns with a remainder.\<close>

lemma sum_list_le_count:
  fixes xs :: "nat list"
  assumes "\<forall>x\<in>set xs. x < W"
  shows "sum_list xs \<le> W * length (filter (\<lambda>x. 0 < x) xs)"
  using assms by (induction xs) auto

lemma count_filter_mono:
  "(\<And>x. x \<in> set xs \<Longrightarrow> P x \<Longrightarrow> Q x) \<Longrightarrow> length (filter P xs) \<le> length (filter Q xs)"
  by (induction xs) (auto simp: le_SucI)

lemma remainder_bound:
  fixes ws :: "nat list" and t :: nat
  assumes "0 < sum_list ws"
  defines "W \<equiv> sum_list ws"
  defines "bases \<equiv> sum_list (map (\<lambda>w. t * w div W) ws)"
  shows "bases \<le> t" and "t - bases \<le> length (filter (\<lambda>w. 0 < w) ws)"
proof -
  let ?rems = "map (\<lambda>w. t * w mod W) ws"
  have W: "0 < W" using assms(1) by (simp add: W_def)
  have eq: "W * t = W * bases + sum_list ?rems"
    using division_sums[of "map (\<lambda>w. t * w) ws" W] sum_list_const_mult[of t id ws]
    by (simp add: bases_def W_def o_def mult.commute[of "sum_list ws" t])
  then have "W * bases \<le> W * t" by simp
  with W show le: "bases \<le> t" by simp
  have "W * (t - bases) = sum_list ?rems" using eq by (simp add: diff_mult_distrib2)
  also have "\<dots> \<le> W * length (filter (\<lambda>x. 0 < x) ?rems)"
    by (rule sum_list_le_count) (use W in auto)
  finally have "t - bases \<le> length (filter (\<lambda>x. 0 < x) ?rems)" using W by simp
  also have "length (filter (\<lambda>x. 0 < x) ?rems) = length (filter (\<lambda>w. 0 < t * w mod W) ws)"
    by (simp add: filter_map o_def)
  also have "\<dots> \<le> length (filter (\<lambda>w. 0 < w) ws)"
    by (rule count_filter_mono) (auto intro: Nat.gr0I)
  finally show "t - bases \<le> length (filter (\<lambda>w. 0 < w) ws)" .
qed

subsection \<open>Giving out the remainder\<close>

text \<open>A share keeps its place and remainder, and gains at most one megabyte, only with a weight.\<close>

definition topped_up :: "db_def list \<Rightarrow> share \<Rightarrow> share \<Rightarrow> bool" where
  "topped_up defs s s' \<longleftrightarrow>
     s' = s \<or> (s' = s\<lparr>base_mb := base_mb s + 1\<rparr> \<and> 0 < weight defs (sh_idx s))"

lemma topped_upI:
  "topped_up defs s s"
  "0 < weight defs (sh_idx s) \<Longrightarrow> topped_up defs s (s\<lparr>base_mb := Suc (base_mb s)\<rparr>)"
  by (simp_all add: topped_up_def)

lemma topped_upD: "topped_up defs s s' \<Longrightarrow> sh_idx s' = sh_idx s \<and> rem_num s' = rem_num s"
  by (auto simp: topped_up_def)

abbreviation gained :: "share \<Rightarrow> share \<Rightarrow> bool" where
  "gained s s' \<equiv> base_mb s' \<noteq> base_mb s"

text \<open>The shares that gain come first among those with a weight.\<close>

definition gains_first :: "db_def list \<Rightarrow> share list \<Rightarrow> share list \<Rightarrow> bool" where
  "gains_first defs ss ss' \<longleftrightarrow>
     (\<forall>j<length ss. \<forall>i<j. gained (ss ! j) (ss' ! j) \<longrightarrow> 0 < weight defs (sh_idx (ss ! i)) \<longrightarrow>
        gained (ss ! i) (ss' ! i))"

lemma gains_first_Cons:
  assumes "gains_first defs ss ss'"
    and "0 < weight defs (sh_idx s) \<Longrightarrow> gained s s' \<or> ss' = ss"
  shows "gains_first defs (s # ss) (s' # ss')"
  unfolding gains_first_def
proof (intro allI impI)
  fix i j assume j: "j < length (s # ss)" "i < j" and g: "gained ((s # ss) ! j) ((s' # ss') ! j)"
    and w: "0 < weight defs (sh_idx ((s # ss) ! i))"
  from j obtain j' where j': "j = Suc j'" by (cases j) auto
  with g assms(2) w show "gained ((s # ss) ! i) ((s' # ss') ! i)"
  proof (cases i)
    case (Suc i')
    with j j' g w assms(1) show ?thesis by (auto simp: gains_first_def)
  qed auto
qed

lemma give_remainder_spec:
  assumes "\<forall>s\<in>set ss. sh_idx s < length defs \<and> base_mb s < usize_max"
  shows "\<exists>ss'. give_remainder defs ss r = Some ss' \<and> list_all2 (topped_up defs) ss ss' \<and>
           sum_list (map base_mb ss') =
             sum_list (map base_mb ss) + min r (length (filter (\<lambda>s. 0 < weight defs (sh_idx s)) ss)) \<and>
           gains_first defs ss ss'"
  using assms
proof (induction defs ss r rule: give_remainder.induct)
  case (1 defs r)
  then show ?case by (simp add: gains_first_def)
next
  case (2 defs s ss r)
  have rest: "\<forall>s\<in>set ss. sh_idx s < length defs \<and> base_mb s < usize_max" using 2(3) by simp
  have s: "\<not> length defs \<le> sh_idx s" "saturating_add (base_mb s) 1 = base_mb s + 1"
    using 2(3) by (simp_all add: saturating_add_exact)
  show ?case
  proof (cases "r = 0")
    case True
    then show ?thesis by (simp add: topped_upI gains_first_def list.rel_refl)
  next
    case r: False
    show ?thesis
    proof (cases "0 < weight defs (sh_idx s)")
      case True
      from 2(1)[OF r s(1) True rest] obtain ss' where ss': "give_remainder defs ss (r - 1) = Some ss'"
        "list_all2 (topped_up defs) ss ss'" "sum_list (map base_mb ss') =
           sum_list (map base_mb ss) + min (r - 1) (length (filter (\<lambda>s. 0 < weight defs (sh_idx s)) ss))"
        "gains_first defs ss ss'" by blast
      have "gains_first defs (s # ss) (s\<lparr>base_mb := base_mb s + 1\<rparr> # ss')"
        using ss'(4) by (rule gains_first_Cons) simp
      with ss' r s True show ?thesis by (auto intro: topped_upI)
    next
      case False
      from 2(2)[OF r s(1) False rest] obtain ss' where ss': "give_remainder defs ss r = Some ss'"
        "list_all2 (topped_up defs) ss ss'" "sum_list (map base_mb ss') =
           sum_list (map base_mb ss) + min r (length (filter (\<lambda>s. 0 < weight defs (sh_idx s)) ss))"
        "gains_first defs ss ss'" by blast
      have "gains_first defs (s # ss) (s # ss')" using ss'(4) by (rule gains_first_Cons) (use False in simp)
      with ss' r s False show ?thesis by (auto intro: topped_upI)
    qed
  qed
qed

lemma by_remainder_not_greater:
  assumes "compare by_remainder s t \<noteq> Greater" and "sh_idx s \<noteq> sh_idx t"
  shows "rem_num t < rem_num s \<or> (rem_num t = rem_num s \<and> sh_idx s < sh_idx t)"
  using assms
  by (cases "compare default (rem_num t) (rem_num s)")
    (auto simp: by_remainder_def compare_prod_lex_apply not_less)

text \<open>The two sorts cancel: position \<open>i\<close> of the result is share \<open>i\<close>, possibly topped up.\<close>

lemma distribute_spec:
  assumes n: "length shares = length defs"
    and idx: "\<forall>i<length defs. sh_idx (shares ! i) = i \<and> base_mb (shares ! i) < usize_max"
  shows "\<exists>ss'. distribute_remainder_mb shares r defs = Some ss' \<and> length ss' = length defs \<and>
           (\<forall>i<length defs. topped_up defs (shares ! i) (ss' ! i)) \<and>
           sum_list (map base_mb ss') =
             sum_list (map base_mb shares) + min r (length (filter (\<lambda>s. 0 < weight defs (sh_idx s)) shares)) \<and>
           (\<forall>i<length defs. \<forall>j<length defs. gained (shares ! i) (ss' ! i) \<longrightarrow>
              \<not> gained (shares ! j) (ss' ! j) \<longrightarrow> 0 < weight defs j \<longrightarrow>
              rem_num (shares ! j) < rem_num (shares ! i) \<or>
              (rem_num (shares ! j) = rem_num (shares ! i) \<and> i < j))"
proof -
  define srt where "srt = sort by_remainder shares"
  have mem: "s = shares ! sh_idx s \<and> sh_idx s < length defs" if "s \<in> set srt" for s
    using that idx n by (auto simp: srt_def in_set_conv_nth)
  have "\<forall>s\<in>set srt. sh_idx s < length defs \<and> base_mb s < usize_max" using mem idx by metis
  from give_remainder_spec[OF this, of r] obtain out where
    out: "give_remainder defs srt r = Some out" "list_all2 (topped_up defs) srt out"
      "sum_list (map base_mb out) =
         sum_list (map base_mb srt) + min r (length (filter (\<lambda>s. 0 < weight defs (sh_idx s)) srt))"
      "gains_first defs srt out" by blast
  define ss' where "ss' = sort (key sh_idx default) out"
  have len: "length out = length defs" "length srt = length defs"
    using out(2) n by (auto simp: srt_def dest: list_all2_lengthD)
  have "map sh_idx out = map sh_idx srt"
    using out(2) by (auto simp: list_all2_conv_all_nth topped_upD intro!: nth_equalityI)
  moreover have "map sh_idx shares = [0..<length defs]" using idx n by (intro nth_equalityI) auto
  ultimately have "mset (map sh_idx out) = mset [0..<length defs]"
    by (metis mset_map mset_sort srt_def)
  from sort_key_positions[OF this] have pos: "map sh_idx ss' = [0..<length defs]" by (simp add: ss'_def)
  have at: "\<exists>k<length defs. srt ! k = shares ! i \<and> out ! k = ss' ! i" if i: "i < length defs" for i
  proof -
    have "ss' ! i \<in> set out" using i len by (metis length_sort nth_mem set_sort ss'_def)
    then obtain k where k: "k < length defs" "out ! k = ss' ! i" by (metis in_set_conv_nth len(1))
    have "topped_up defs (srt ! k) (ss' ! i)" using out(2) k len by (metis list_all2_nthD2)
    moreover have "sh_idx (ss' ! i) = i" using pos i by (metis length_map length_upt nth_map nth_upt add_0 minus_nat.diff_0)
    ultimately have "sh_idx (srt ! k) = i" by (auto dest: topped_upD)
    with mem[of "srt ! k"] k len have "srt ! k = shares ! i" by simp
    with k show ?thesis by blast
  qed
  have largest: "rem_num (shares ! j) < rem_num (shares ! i) \<or> (rem_num (shares ! j) = rem_num (shares ! i) \<and> i < j)"
    if ij: "i < length defs" "j < length defs" and g: "gained (shares ! i) (ss' ! i)"
      and ng: "\<not> gained (shares ! j) (ss' ! j)" and w: "0 < weight defs j" for i j
  proof -
    from at[OF ij(1)] obtain ki where ki: "ki < length defs" "srt ! ki = shares ! i" "out ! ki = ss' ! i" by blast
    from at[OF ij(2)] obtain kj where kj: "kj < length defs" "srt ! kj = shares ! j" "out ! kj = ss' ! j" by blast
    have "\<not> kj < ki"
      using out(4)[unfolded gains_first_def, rule_format, of ki kj] ki kj g ng w ij idx len by auto
    moreover have "ki \<noteq> kj" using ki kj g ng by metis
    ultimately have "ki < kj" by simp
    moreover have "sorted by_remainder srt" by (simp add: srt_def)
    ultimately have "compare by_remainder (shares ! i) (shares ! j) \<noteq> Greater"
      using sorted_nth_less[of by_remainder srt ki kj] ki kj len by simp
    moreover have "i \<noteq> j" using g ng by auto
    ultimately show ?thesis using by_remainder_not_greater[of "shares ! i" "shares ! j"] ij idx by simp
  qed
  have "sum_list (map base_mb ss') = sum_list (map base_mb out)" by (simp add: ss'_def flip: sum_mset_sum_list)
  moreover have "sum_list (map base_mb srt) = sum_list (map base_mb shares)" by (simp add: srt_def flip: sum_mset_sum_list)
  moreover have "length (filter P srt) = length (filter P shares)" for P
    by (metis mset_filter mset_sort size_mset srt_def)
  moreover have "\<forall>i<length defs. topped_up defs (shares ! i) (ss' ! i)"
    using at out(2) len by (metis list_all2_nthD2)
  ultimately show ?thesis
    using out(1,3) len largest by (simp add: distribute_remainder_mb_def srt_def ss'_def)
qed

subsection \<open>Properties\<close>

lemma those_map_nth:
  assumes "\<forall>i<length xs. f (xs ! i) = Some (g i)"
  shows "those (map f xs) = Some (map g [0..<length xs])"
  using assms
proof (induction xs arbitrary: g)
  case (Cons x xs)
  from Cons.prems have "f x = Some (g 0)" and "\<forall>i<length xs. f (xs ! i) = Some (g (Suc i))" by auto
  with Cons.IH[of "\<lambda>i. g (Suc i)"] show ?case by (simp add: upt_conv_Cons map_Suc_upt[symmetric] del: upt_Suc)
qed simp

lemma collect_ok:
  assumes "length ss = length defs" and "\<forall>i<length defs. sh_idx (ss ! i) = i"
    and "\<forall>d\<in>set defs. 0 < def_shards d" and "\<forall>s\<in>set ss. base_mb s \<le> usize_max"
  shows "collect_allocations_mb ss defs =
         Some (map (\<lambda>i. with_cache_new (defs ! i) (base_mb (ss ! i) div def_shards (defs ! i))) [0..<length defs])"
proof -
  have "allocation_mb defs (ss ! i) =
        Some (with_cache_new (defs ! i) (base_mb (ss ! i) div def_shards (defs ! i)))" if "i < length ss" for i
  proof -
    have "0 < def_shards (defs ! i)" using assms(1,3) that by simp
    moreover have "base_mb (ss ! i) div k \<le> usize_max" for k
      using assms(4) that by (meson div_le_dividend nth_mem order_trans)
    ultimately show ?thesis
      using assms(1,2) that assms(4)
      by (auto simp: allocation_mb_def Let_def cast_u64_to_usize_def not_less[symmetric])
  qed
  then show ?thesis
    using those_map_nth[of ss "allocation_mb defs"] assms(1) by (simp add: collect_allocations_mb_def)
qed

text \<open>The megabytes of a column after the remainder is given out, as the method promises them.\<close>

definition hamilton :: "db_def list \<Rightarrow> nat \<Rightarrow> nat list \<Rightarrow> bool" where
  "hamilton defs t q \<longleftrightarrow>
     length q = length defs \<and> sum_list q = t \<and>
     (\<forall>i<length defs. let p = t * weight defs i; W = weights_sum defs in
        (q ! i = p div W \<or> (q ! i = p div W + 1 \<and> 0 < weight defs i)) \<and>
        (\<forall>j<length defs. q ! i = p div W + 1 \<longrightarrow> q ! j = t * weight defs j div W \<longrightarrow> 0 < weight defs j \<longrightarrow>
           t * weight defs j mod W < p mod W \<or> (t * weight defs j mod W = p mod W \<and> i < j)))"

lemma shares_to_quota:
  assumes mul: "\<forall>i<length defs. t * weight defs i \<le> usize_max" and pos: "0 < weights_sum defs"
    and t: "t \<le> usize_max"
  defines "shares \<equiv> compute_shares_mb defs t (weights_sum defs)"
  defines "r \<equiv> t - sum_list (map base_mb shares)"
  shows "sum_list (map base_mb shares) \<le> t"
    and "\<exists>ss. (if 0 < r then distribute_remainder_mb shares r defs else Some shares) = Some ss \<and>
           length ss = length defs \<and> (\<forall>i<length defs. sh_idx (ss ! i) = i) \<and> hamilton defs t (map base_mb ss)"
proof -
  let ?W = "weights_sum defs"
  have nth: "shares ! i = \<lparr>sh_idx = i, base_mb = t * weight defs i div ?W, rem_num = t * weight defs i mod ?W\<rparr>"
    if "i < length defs" for i unfolding shares_def using that mul by (intro nth_compute_shares) auto
  have len: "length shares = length defs" by (simp add: shares_def)
  have bases: "map base_mb shares = map (\<lambda>w. t * w div ?W) (map db_cache_weight_or_zero defs)"
    using len nth by (intro nth_equalityI) auto
  have cnt: "length (filter (\<lambda>s. 0 < weight defs (sh_idx s)) shares) =
             length (filter (\<lambda>w. 0 < w) (map db_cache_weight_or_zero defs))"
  proof -
    have "map (\<lambda>s. weight defs (sh_idx s)) shares = map db_cache_weight_or_zero defs"
      using len nth by (intro nth_equalityI) auto
    then have "length (filter (\<lambda>w. 0 < w) (map (\<lambda>s. weight defs (sh_idx s)) shares)) =
               length (filter (\<lambda>w. 0 < w) (map db_cache_weight_or_zero defs))" by simp
    then show ?thesis by (simp add: filter_map o_def)
  qed
  note rb = remainder_bound[OF pos, of t, folded bases]
  show le: "sum_list (map base_mb shares) \<le> t" by (rule rb(1))
  show "\<exists>ss. (if 0 < r then distribute_remainder_mb shares r defs else Some shares) = Some ss \<and>
           length ss = length defs \<and> (\<forall>i<length defs. sh_idx (ss ! i) = i) \<and> hamilton defs t (map base_mb ss)"
  proof (cases "0 < r")
    case False
    then have "sum_list (map base_mb shares) = t" using le by (simp add: r_def)
    with False nth len show ?thesis by (auto simp: hamilton_def Let_def)
  next
    case True
    have idx: "\<forall>i<length defs. sh_idx (shares ! i) = i \<and> base_mb (shares ! i) < usize_max"
    proof (intro allI impI conjI)
      fix i assume i: "i < length defs"
      then show "sh_idx (shares ! i) = i" by (simp add: nth)
      have "base_mb (shares ! i) \<le> sum_list (map base_mb shares)"
        using i len by (intro member_le_sum_list) auto
      also have "\<dots> < t" using True by (simp add: r_def)
      finally show "base_mb (shares ! i) < usize_max" using t by simp
    qed
    from distribute_spec[OF len idx, of r] obtain ss where
      ss: "distribute_remainder_mb shares r defs = Some ss" "length ss = length defs"
        "\<forall>i<length defs. topped_up defs (shares ! i) (ss ! i)"
        "sum_list (map base_mb ss) = sum_list (map base_mb shares) +
           min r (length (filter (\<lambda>s. 0 < weight defs (sh_idx s)) shares))"
        "\<forall>i<length defs. \<forall>j<length defs. gained (shares ! i) (ss ! i) \<longrightarrow>
              \<not> gained (shares ! j) (ss ! j) \<longrightarrow> 0 < weight defs j \<longrightarrow>
              rem_num (shares ! j) < rem_num (shares ! i) \<or>
              (rem_num (shares ! j) = rem_num (shares ! i) \<and> i < j)" by blast
    have sum: "sum_list (map base_mb ss) = t" using ss(4) cnt rb by (simp add: r_def)
    have val: "sh_idx (ss ! i) = i \<and> (base_mb (ss ! i) = t * weight defs i div ?W \<or>
        (base_mb (ss ! i) = t * weight defs i div ?W + 1 \<and> 0 < weight defs i))" if "i < length defs" for i
      using ss(3) that nth[OF that] by (auto simp: topped_up_def)
    have "hamilton defs t (map base_mb ss)"
      unfolding hamilton_def Let_def using ss(2,5) sum val nth by simp
    with ss(1,2) val True show ?thesis by auto
  qed
qed

text \<open>
  C39. Cache allocation is the largest-remainder method: when no product overflows and some column has
  a weight, the megabytes of the columns add up to exactly the total; each column gets the integer
  part of its proportional share or, only with a positive weight, one more; a column that gets one
  more has a larger remainder than every weighted column that does not, or an equal one and an
  earlier place. The result keeps the columns in order with the share divided by the shards.
\<close>

theorem allocate_cache_hamilton:
  assumes "\<forall>d\<in>set defs. 0 < def_shards d \<and> t * db_cache_weight_or_zero d \<le> usize_max"
    and "0 < t" and "t \<le> usize_max" and "0 < weights_sum defs" and "weights_sum defs \<le> usize_max"
  shows "\<exists>q. hamilton defs t q \<and>
           allocate_cache_mb defs t =
             Some (map (\<lambda>i. with_cache_new (defs ! i) (q ! i div def_shards (defs ! i))) [0..<length defs])"
proof -
  have mul: "\<forall>i<length defs. t * weight defs i \<le> usize_max" using assms(1) by simp
  note q = shares_to_quota[OF mul assms(4,3)]
  define shares where "shares = compute_shares_mb defs t (weights_sum defs)"
  from q(2)[folded shares_def] obtain ss where
    ss: "(if 0 < t - sum_list (map base_mb shares)
          then distribute_remainder_mb shares (t - sum_list (map base_mb shares)) defs else Some shares) = Some ss"
      "length ss = length defs" "\<forall>i<length defs. sh_idx (ss ! i) = i" "hamilton defs t (map base_mb ss)" by blast
  have "\<forall>s\<in>set ss. base_mb s \<le> t"
  proof
    fix s assume "s \<in> set ss"
    then have "base_mb s \<le> sum_list (map base_mb ss)" by (intro member_le_sum_list) auto
    also have "\<dots> = t" using ss(4) by (simp add: hamilton_def)
    finally show "base_mb s \<le> t" .
  qed
  then have "collect_allocations_mb ss defs =
      Some (map (\<lambda>i. with_cache_new (defs ! i) (base_mb (ss ! i) div def_shards (defs ! i))) [0..<length defs])"
    using ss(2,3) assms(1,3) by (intro collect_ok) auto
  moreover have "map (\<lambda>i. with_cache_new (defs ! i) (base_mb (ss ! i) div def_shards (defs ! i))) [0..<length defs] =
      map (\<lambda>i. with_cache_new (defs ! i) (map base_mb ss ! i div def_shards (defs ! i))) [0..<length defs]"
    using ss(2) by simp
  moreover have "defs \<noteq> []" using assms(4) by auto
  moreover have "weights_sum defs \<noteq> 0" using assms(4) by (rule gr_implies_not0)
  moreover have "checked_sum (map base_mb shares) = Some (sum_list (map base_mb shares))"
    using q(1)[folded shares_def] assms(3) by (simp add: checked_sum_def)
  ultimately have "allocate_cache_mb defs t =
      Some (map (\<lambda>i. with_cache_new (defs ! i) (map base_mb ss ! i div def_shards (defs ! i))) [0..<length defs])"
    using assms(2) ss(1) sum_positive_weights_eq[OF assms(5)]
    by (simp add: allocate_cache_mb_def Let_def flip: shares_def del: sum_list_eq_0_iff)
  with ss(4) show ?thesis by blast
qed

theorem allocate_cache_hamilton_witness:
  "let d = (\<lambda>n w. \<lparr>def_name = n, def_shards = 2, db_cache_weight_or_zero = w, lru_cache_size_or_zero = 0\<rparr>);
       defs = [d ''a'' 10, d ''b'' 0, d ''c'' 5]
   in \<exists>q. hamilton defs 10240 q \<and>
        allocate_cache_mb defs 10240 =
          Some (map (\<lambda>i. with_cache_new (defs ! i) (q ! i div def_shards (defs ! i))) [0..<length defs])"
  unfolding Let_def by (rule allocate_cache_hamilton) simp_all

end
