(* ===== verification/Redb.thy ===== *)
theory Redb
  imports Sorting_Facts
begin

section \<open>The embedded store and the LRU cache as parameters\<close>

text \<open>
  The tables of redb and the cache of the crate \<open>lru\<close> are not part of this repository. The model
  takes them as records of operations over an arbitrary type of handles, and the theorems assume of
  them only what their documentation states, collected in the predicates below:

  \<^item> \<open>table_laws ops view\<close>: a successful operation of a table acts on its contents \<open>view\<close> as on a finite
    map, and reports what it found there;
  \<^item> \<open>multimap_laws ops view\<close>: the same for a multimap, whose contents are sets and whose \<open>get\<close> lists a set
    without repetition in key order;
  \<^item> \<open>lru_laws ops view\<close>: a cache returns what was last put under a key unless it was evicted; putting may
    evict any other entries. \<open>lru_roomy\<close> says that putting evicts nothing.

  Every operation of a table may fail. \<open>table_total\<close> and \<open>multimap_total\<close> say of a store that it does not.

  The key order of redb is \<open>K::compare\<close>, a \<open>comparator\<close> here.
\<close>

record ('t, 'k, 'v) table_ops =
  tbl_insert :: "'t \<Rightarrow> 'k \<Rightarrow> 'v \<Rightarrow> 't \<times> 'v option res"
  tbl_remove :: "'t \<Rightarrow> 'k \<Rightarrow> 't \<times> 'v option res"
  tbl_get :: "'t \<Rightarrow> 'k \<Rightarrow> 'v option res"
  tbl_range :: "'t \<Rightarrow> 'k \<Rightarrow> 'k \<Rightarrow> ('k \<times> 'v) list res"

record ('m, 'k, 'v) multimap_ops =
  mm_insert :: "'m \<Rightarrow> 'k \<Rightarrow> 'v \<Rightarrow> 'm \<times> bool res"
  mm_remove :: "'m \<Rightarrow> 'k \<Rightarrow> 'v \<Rightarrow> 'm \<times> bool res"
  mm_get :: "'m \<Rightarrow> 'k \<Rightarrow> 'v list res"

record ('c, 'k, 'v) lru_ops =
  lru_put :: "'c \<Rightarrow> 'k \<Rightarrow> 'v \<Rightarrow> 'c"
  lru_get :: "'c \<Rightarrow> 'k \<Rightarrow> 'v option \<times> 'c"
  lru_pop :: "'c \<Rightarrow> 'k \<Rightarrow> 'c"

definition table_laws :: "('t, 'k, 'v) table_ops \<Rightarrow> ('t \<Rightarrow> 'k \<rightharpoonup> 'v) \<Rightarrow> bool" where
  "table_laws ops view \<longleftrightarrow>
     (\<forall>t k v t' r. tbl_insert ops t k v = (t', Inr r) \<longrightarrow> view t' = (view t)(k \<mapsto> v) \<and> r = view t k) \<and>
     (\<forall>t k t' r. tbl_remove ops t k = (t', Inr r) \<longrightarrow> view t' = (view t)(k := None) \<and> r = view t k) \<and>
     (\<forall>t k r. tbl_get ops t k = Inr r \<longrightarrow> r = view t k)"

definition table_range_law ::
    "'k comparator \<Rightarrow> ('t, 'k, 'v) table_ops \<Rightarrow> ('t \<Rightarrow> 'k \<rightharpoonup> 'v) \<Rightarrow> bool" where
  "table_range_law cmp ops view \<longleftrightarrow>
     (\<forall>t a b xs. tbl_range ops t a b = Inr xs \<longrightarrow>
        sorted_wrt (\<lambda>x y. compare cmp (fst x) (fst y) = Less) xs \<and>
        (\<forall>k v. (k, v) \<in> set xs \<longleftrightarrow> view t k = Some v \<and> compare cmp a k \<noteq> Greater \<and> compare cmp k b = Less))"

definition table_total :: "('t, 'k, 'v) table_ops \<Rightarrow> bool" where
  "table_total ops \<longleftrightarrow>
     (\<forall>t k v. is_ok (snd (tbl_insert ops t k v))) \<and> (\<forall>t k. is_ok (snd (tbl_remove ops t k))) \<and>
     (\<forall>t k. is_ok (tbl_get ops t k))"

definition multimap_laws :: "'v comparator \<Rightarrow> ('m, 'k, 'v) multimap_ops \<Rightarrow> ('m \<Rightarrow> 'k \<Rightarrow> 'v set) \<Rightarrow> bool" where
  "multimap_laws cmp ops view \<longleftrightarrow>
     (\<forall>m k v m' r. mm_insert ops m k v = (m', Inr r) \<longrightarrow>
        view m' = (view m)(k := insert v (view m k)) \<and> (r \<longleftrightarrow> v \<in> view m k)) \<and>
     (\<forall>m k v m' r. mm_remove ops m k v = (m', Inr r) \<longrightarrow>
        view m' = (view m)(k := view m k - {v}) \<and> (r \<longleftrightarrow> v \<in> view m k)) \<and>
     (\<forall>m k xs. mm_get ops m k = Inr xs \<longrightarrow>
        set xs = view m k \<and> sorted_wrt (\<lambda>x y. compare cmp x y = Less) xs)"

definition multimap_total :: "('m, 'k, 'v) multimap_ops \<Rightarrow> bool" where
  "multimap_total ops \<longleftrightarrow>
     (\<forall>m k v. is_ok (snd (mm_insert ops m k v))) \<and> (\<forall>m k v. is_ok (snd (mm_remove ops m k v))) \<and>
     (\<forall>m k. is_ok (mm_get ops m k))"

definition lru_laws :: "('c, 'k, 'v) lru_ops \<Rightarrow> ('c \<Rightarrow> 'k \<rightharpoonup> 'v) \<Rightarrow> bool" where
  "lru_laws ops view \<longleftrightarrow>
     (\<forall>c k v. view (lru_put ops c k v) \<subseteq>\<^sub>m (view c)(k \<mapsto> v) \<and> view (lru_put ops c k v) k = Some v) \<and>
     (\<forall>c k. fst (lru_get ops c k) = view c k \<and> view (snd (lru_get ops c k)) = view c) \<and>
     (\<forall>c k. view (lru_pop ops c k) = (view c)(k := None))"

definition lru_roomy :: "('c, 'k, 'v) lru_ops \<Rightarrow> ('c \<Rightarrow> 'k \<rightharpoonup> 'v) \<Rightarrow> bool" where
  "lru_roomy ops view \<longleftrightarrow> (\<forall>c k v. view (lru_put ops c k v) = (view c)(k \<mapsto> v))"

subsection \<open>Consequences in the form the proofs use\<close>

lemma table_insertD:
  "table_laws ops view \<Longrightarrow> tbl_insert ops t k v = (t', Inr r) \<Longrightarrow> view t' = (view t)(k \<mapsto> v)"
  by (simp add: table_laws_def)

lemma table_removeD:
  assumes "table_laws ops view" and "tbl_remove ops t k = (t', Inr r)"
  shows "view t' = (view t)(k := None)" and "r = view t k"
  using assms by (auto simp: table_laws_def)

lemma table_getD: "table_laws ops view \<Longrightarrow> tbl_get ops t k = Inr r \<Longrightarrow> r = view t k"
  by (simp add: table_laws_def)

text \<open>A store that does not fail behaves as its contents say.\<close>

lemma total_insert:
  assumes "table_laws ops view" and "table_total ops"
  shows "\<exists>t' r. tbl_insert ops t k v = (t', Inr r) \<and> view t' = (view t)(k \<mapsto> v)"
proof -
  obtain t' r where eq: "tbl_insert ops t k v = (t', r)" by fastforce
  with assms(2) have "is_ok r" by (metis snd_conv table_total_def)
  then obtain x where "r = Inr x" by (rule is_okE)
  with eq table_insertD[OF assms(1)] show ?thesis by blast
qed

lemma total_remove:
  assumes "table_laws ops view" and "table_total ops"
  shows "\<exists>t'. tbl_remove ops t k = (t', Inr (view t k)) \<and> view t' = (view t)(k := None)"
proof -
  obtain t' r where eq: "tbl_remove ops t k = (t', r)" by fastforce
  with assms(2) have "is_ok r" by (metis snd_conv table_total_def)
  then obtain x where "r = Inr x" by (rule is_okE)
  with eq table_removeD[OF assms(1)] show ?thesis by blast
qed

lemma total_get:
  assumes "table_laws ops view" and "table_total ops"
  shows "tbl_get ops t k = Inr (view t k)"
proof -
  have "is_ok (tbl_get ops t k)" using assms(2) by (simp add: table_total_def)
  then obtain x where "tbl_get ops t k = Inr x" by (rule is_okE)
  with table_getD[OF assms(1)] show ?thesis by simp
qed

lemma mm_total_insert:
  assumes "multimap_laws cmp ops view" and "multimap_total ops"
  shows "\<exists>m' r. mm_insert ops m k v = (m', Inr r) \<and> view m' = (view m)(k := insert v (view m k))"
proof -
  obtain m' r where eq: "mm_insert ops m k v = (m', r)" by fastforce
  with assms(2) have "is_ok r" by (metis snd_conv multimap_total_def)
  then obtain x where "r = Inr x" by (rule is_okE)
  with eq assms(1) show ?thesis by (auto simp: multimap_laws_def)
qed

lemma mm_total_remove:
  assumes "multimap_laws cmp ops view" and "multimap_total ops"
  shows "\<exists>m'. mm_remove ops m k v = (m', Inr (v \<in> view m k)) \<and> view m' = (view m)(k := view m k - {v})"
proof -
  obtain m' r where eq: "mm_remove ops m k v = (m', r)" by fastforce
  with assms(2) have "is_ok r" by (metis snd_conv multimap_total_def)
  then obtain x where "r = Inr x" by (rule is_okE)
  with eq assms(1) show ?thesis by (auto simp: multimap_laws_def)
qed

lemma mm_total_get:
  assumes "multimap_laws cmp ops view" and "multimap_total ops"
  shows "\<exists>xs. mm_get ops m k = Inr xs \<and> set xs = view m k \<and> sorted_wrt (\<lambda>x y. compare cmp x y = Less) xs"
proof -
  have "is_ok (mm_get ops m k)" using assms(2) by (simp add: multimap_total_def)
  then obtain x where "mm_get ops m k = Inr x" by (rule is_okE)
  with assms(1) show ?thesis by (auto simp: multimap_laws_def)
qed

lemma lruD:
  assumes "lru_laws ops view"
  shows "view (lru_put ops c k v) \<subseteq>\<^sub>m (view c)(k \<mapsto> v)" and "view (lru_put ops c k v) k = Some v"
    and "fst (lru_get ops c k) = view c k" and "view (snd (lru_get ops c k)) = view c"
    and "view (lru_pop ops c k) = (view c)(k := None)"
  using assms by (auto simp: lru_laws_def)

subsection \<open>Concrete stores\<close>

text \<open>
  Finite maps, and sorted association of sets of natural numbers, satisfy the laws: the hypotheses
  of the theorems can hold. The witnesses use these instances; the theorems do not.
\<close>

definition map_table_ops :: "('k \<rightharpoonup> 'v, 'k, 'v) table_ops" where
  "map_table_ops =
     \<lparr>tbl_insert = (\<lambda>t k v. (t(k \<mapsto> v), Inr (t k))), tbl_remove = (\<lambda>t k. (t(k := None), Inr (t k))),
      tbl_get = (\<lambda>t k. Inr (t k)), tbl_range = (\<lambda>t a b. Inl (Custom ''range''))\<rparr>"

definition list_multimap_ops :: "('k \<Rightarrow> ('v::linorder) list, 'k, 'v) multimap_ops" where
  "list_multimap_ops =
     \<lparr>mm_insert = (\<lambda>m k v. (m(k := v # m k), Inr (v \<in> set (m k)))),
      mm_remove = (\<lambda>m k v. (m(k := removeAll v (m k)), Inr (v \<in> set (m k)))),
      mm_get = (\<lambda>m k. Inr (List.sort (remdups (m k))))\<rparr>"

definition map_lru_ops :: "('k \<rightharpoonup> 'v, 'k, 'v) lru_ops" where
  "map_lru_ops = \<lparr>lru_put = (\<lambda>c k v. c(k \<mapsto> v)), lru_get = (\<lambda>c k. (c k, c)), lru_pop = (\<lambda>c k. c(k := None))\<rparr>"

definition alist_table_ops :: "(('k::linorder \<times> 'v) list, 'k, 'v) table_ops" where
  "alist_table_ops =
     \<lparr>tbl_insert = (\<lambda>t k v. ((k, v) # t, Inr (map_of t k))),
      tbl_remove = (\<lambda>t k. (filter (\<lambda>x. fst x \<noteq> k) t, Inr (map_of t k))),
      tbl_get = (\<lambda>t k. Inr (map_of t k)),
      tbl_range = (\<lambda>t a b. Inr (map (\<lambda>k. (k, the (map_of t k))) (List.sort (remdups (filter (\<lambda>k. a \<le> k \<and> k < b) (map fst t))))))\<rparr>"

lemma map_of_filter_key: "map_of (filter (\<lambda>x. fst x \<noteq> k) t) = (map_of t)(k := None)"
  by (induction t) (auto simp: fun_eq_iff)

lemma alist_table_ok:
  fixes t :: "('k::linorder \<times> 'v) list"
  defines "ops \<equiv> alist_table_ops :: (('k \<times> 'v) list, 'k, 'v) table_ops"
  shows "table_laws ops map_of" "table_total ops" "table_range_law default ops map_of"
  "is_ok (tbl_range ops t a b)"
proof -
  show "table_laws ops map_of" "table_total ops" "is_ok (tbl_range ops t a b)"
    by (auto simp: table_laws_def table_total_def ops_def alist_table_ops_def map_of_filter_key)
  show "table_range_law default ops map_of"
    unfolding table_range_law_def
  proof (intro allI impI conjI)
    fix t :: "('k \<times> 'v) list" and a b xs
    assume xs: "tbl_range ops t a b = Inr xs"
    then have xs: "xs = map (\<lambda>k. (k, the (map_of t k))) (List.sort (remdups (filter (\<lambda>k. a \<le> k \<and> k < b) (map fst t))))"
      by (simp add: ops_def alist_table_ops_def)
    show "sorted_wrt (\<lambda>x y. compare default (fst x) (fst y) = Less) xs"
      unfolding xs sorted_wrt_map by (simp add: strict_sorted_iff)
    fix k v
    have "map_of t k = Some v \<Longrightarrow> k \<in> fst ` set t" by (metis domI dom_map_of_conv_image_fst)
    moreover have "k \<in> fst ` set t \<Longrightarrow> map_of t k \<noteq> None" by (simp add: map_of_eq_None_iff)
    ultimately show "(k, v) \<in> set xs \<longleftrightarrow> map_of t k = Some v \<and> compare default a k \<noteq> Greater \<and> compare default k b = Less"
      unfolding xs by (force simp: image_iff not_less)
  qed
qed

lemma map_table_ok: "table_laws map_table_ops (\<lambda>t. t)" "table_total map_table_ops"
  by (auto simp: table_laws_def table_total_def map_table_ops_def)

lemma list_multimap_ok:
  "multimap_laws default list_multimap_ops (\<lambda>m k. set (m k))" "multimap_total list_multimap_ops"
  by (auto simp: multimap_laws_def multimap_total_def list_multimap_ops_def strict_sorted_iff intro!: ext)

lemma map_lru_ok: "lru_laws map_lru_ops (\<lambda>c. c)" "lru_roomy map_lru_ops (\<lambda>c. c)"
  by (auto simp: lru_laws_def lru_roomy_def map_lru_ops_def)

end
