(* ===== verification/Table_Api.thy ===== *)
theory Table_Api
  imports Redb
begin

section \<open>The interface of writable tables\<close>

text \<open>
  \<open>WriteTableLike\<close> of \<open>redbit/src/storage/table_writer_api.rs\<close> is a record of operations over the state
  of an open table: the table kinds provide it and the transaction machine uses it. An operation
  that a kind leaves \<open>unimplemented!()\<close> is \<open>None\<close>, a panic. The duplicate check of
  \<open>insert_many_sorted_by_key\<close> is compiled into tests only and is not part of the model.
\<close>

record ('s, 'k, 'v) write_table_ops =
  wt_insert_kv :: "'s \<Rightarrow> 'k \<Rightarrow> 'v \<Rightarrow> 's \<times> unit res"
  wt_insert_many :: "'s \<Rightarrow> ('k \<times> 'v) list \<Rightarrow> 's \<times> unit res"
  wt_delete_kv :: "'s \<Rightarrow> 'k \<Rightarrow> 's \<times> bool res"
  wt_get_any :: "'s \<Rightarrow> 'v \<Rightarrow> ('s \<times> 'k option res) option"
  wt_range :: "'s \<Rightarrow> 'k \<Rightarrow> 'k \<Rightarrow> ('k \<times> 'v) list res option"

definition is_sorted_by_key :: "'k comparator \<Rightarrow> ('k \<times> 'v) list \<Rightarrow> bool" where
  "is_sorted_by_key cmp pairs = sorted_wrt (\<lambda>a b. compare cmp (fst a) (fst b) = Less) pairs"

text \<open>
  What the clients rely on. \<open>contents\<close> is the map from keys to values that a reader of the table
  sees; \<open>insertable\<close> and \<open>batch_ok\<close> say which insertions a kind supports in a state. The law of
  \<open>insert_many\<close> says that the last pair of a key wins.
\<close>

locale write_table =
  fixes ops :: "('s, 'k, 'v) write_table_ops"
    and inv :: "'s \<Rightarrow> bool"
    and contents :: "'s \<Rightarrow> 'k \<rightharpoonup> 'v"
    and insertable :: "'s \<Rightarrow> 'k \<Rightarrow> 'v \<Rightarrow> bool"
    and batch_ok :: "'s \<Rightarrow> ('k \<times> 'v) list \<Rightarrow> bool"
  assumes insert_kv: "inv s \<Longrightarrow> insertable s k v \<Longrightarrow>
      \<exists>s'. wt_insert_kv ops s k v = (s', Inr ()) \<and> inv s' \<and> contents s' = (contents s)(k \<mapsto> v)"
    and insert_many: "inv s \<Longrightarrow> batch_ok s pairs \<Longrightarrow>
      \<exists>s'. wt_insert_many ops s pairs = (s', Inr ()) \<and> inv s' \<and> contents s' = contents s ++ map_of (rev pairs)"
    and delete_kv: "inv s \<Longrightarrow>
      \<exists>s'. wt_delete_kv ops s k = (s', Inr (k \<in> dom (contents s))) \<and> inv s' \<and>
           contents s' = (contents s)(k := None)"
begin

text \<open>An inserted key is found, and a deleted one is not; other keys are not disturbed.\<close>

lemma insert_then_delete:
  assumes "inv s" and "insertable s k v" and "k \<notin> dom (contents s)"
  shows "\<exists>s1 s2. wt_insert_kv ops s k v = (s1, Inr ()) \<and> contents s1 k = Some v \<and>
           wt_delete_kv ops s1 k = (s2, Inr True) \<and> inv s2 \<and> contents s2 = contents s"
proof -
  from insert_kv[OF assms(1,2)] obtain s1 where
    s1: "wt_insert_kv ops s k v = (s1, Inr ())" "inv s1" "contents s1 = (contents s)(k \<mapsto> v)" by blast
  from delete_kv[OF s1(2), of k] obtain s2 where
    s2: "wt_delete_kv ops s1 k = (s2, Inr (k \<in> dom (contents s1)))" "inv s2" "contents s2 = (contents s1)(k := None)"
    by blast
  from assms(3) have "(contents s)(k := None) = contents s" by auto
  with s1 s2 show ?thesis by auto
qed

lemma insert_many_lookup:
  assumes "inv s" and "batch_ok s pairs" and "distinct (map fst pairs)"
  shows "\<exists>s'. wt_insert_many ops s pairs = (s', Inr ()) \<and> inv s' \<and>
           (\<forall>(k, v) \<in> set pairs. contents s' k = Some v) \<and>
           (\<forall>k. k \<notin> fst ` set pairs \<longrightarrow> contents s' k = contents s k)"
proof -
  from insert_many[OF assms(1,2)] obtain s' where
    s': "wt_insert_many ops s pairs = (s', Inr ())" "inv s'" "contents s' = contents s ++ map_of (rev pairs)" by blast
  have "distinct (map fst (rev pairs))" using assms(3) by (simp add: rev_map[symmetric])
  then have "map_of (rev pairs) k = Some v" if "(k, v) \<in> set pairs" for k v
    using that by (simp add: map_of_eq_Some_iff)
  moreover have "map_of (rev pairs) k = None" if "k \<notin> fst ` set pairs" for k
    using that by (simp add: map_of_eq_None_iff)
  ultimately show ?thesis using s' by (auto simp: map_add_def)
qed

end

end
