(* ===== verification/Plain_Table.thy ===== *)
theory Plain_Table
  imports Table_Api
begin

section \<open>Plain tables\<close>

text \<open>
  The model of \<open>redbit/src/storage/table_plain.rs\<close> and \<open>table_plain_write.rs\<close>: one redb table, its
  factory, and the operations of \<open>WriteTableLike\<close>. The operations of redb are the argument \<open>E\<close>.
\<close>

record 't plain_table =
  pt_table :: 't

record 'd plain_factory =
  pf_name :: string
  pf_table_def :: 'd

definition plain_factory_new :: "string \<Rightarrow> 'd \<Rightarrow> 'd plain_factory" where
  "plain_factory_new nm table_def = \<lparr>pf_name = nm, pf_table_def = table_def\<rparr>"

definition plain_table_new :: "('d \<Rightarrow> 't res) \<Rightarrow> 'd \<Rightarrow> 't plain_table res" where
  "plain_table_new open_table table_def = map_sum id (\<lambda>t. \<lparr>pt_table = t\<rparr>) (open_table table_def)"

definition plain_open_for_write :: "('d \<Rightarrow> 't res) \<Rightarrow> 'd plain_factory \<Rightarrow> 't plain_table res" where
  "plain_open_for_write open_table f = plain_table_new open_table (pf_table_def f)"

text \<open>One insertion into the underlying table, with the new handle stored back.\<close>

definition plain_put :: "('t, 'k, 'v) table_ops \<Rightarrow> 't plain_table \<Rightarrow> 'k \<times> 'v \<Rightarrow> 't plain_table \<times> unit res" where
  "plain_put E s kv =
     (case tbl_insert E (pt_table s) (fst kv) (snd kv) of (t', r) \<Rightarrow>
        try_then (s\<lparr>pt_table := t'\<rparr>, r) (\<lambda>s' _. (s', Inr ())))"

definition plain_insert_kv ::
    "('t, 'k, 'v) table_ops \<Rightarrow> 't plain_table \<Rightarrow> 'k \<Rightarrow> 'v \<Rightarrow> 't plain_table \<times> unit res" where
  "plain_insert_kv E s k v = plain_put E s (k, v)"

definition plain_insert_many ::
    "('t, 'k, 'v) table_ops \<Rightarrow> 't plain_table \<Rightarrow> ('k \<times> 'v) list \<Rightarrow> 't plain_table \<times> unit res" where
  "plain_insert_many E s pairs = for_each (plain_put E) s pairs"

definition plain_delete_kv :: "('t, 'k, 'v) table_ops \<Rightarrow> 't plain_table \<Rightarrow> 'k \<Rightarrow> 't plain_table \<times> bool res" where
  "plain_delete_kv E s k =
     (case tbl_remove E (pt_table s) k of (t', r) \<Rightarrow>
        try_then (s\<lparr>pt_table := t'\<rparr>, r) (\<lambda>s' removed. (s', Inr (removed \<noteq> None))))"

definition plain_range ::
    "('t, 'k, 'v) table_ops \<Rightarrow> 't plain_table \<Rightarrow> 'k \<Rightarrow> 'k \<Rightarrow> ('k \<times> 'v) list res" where
  "plain_range E s from until = tbl_range E (pt_table s) from until"

definition plain_ops :: "('t, 'k, 'v) table_ops \<Rightarrow> ('t plain_table, 'k, 'v) write_table_ops" where
  "plain_ops E =
     \<lparr>wt_insert_kv = plain_insert_kv E, wt_insert_many = plain_insert_many E,
      wt_delete_kv = plain_delete_kv E, wt_get_any = (\<lambda>_ _. None),
      wt_range = (\<lambda>s a b. Some (plain_range E s a b))\<rparr>"

subsection \<open>A plain table implements the interface\<close>

definition plain_inv :: "('t, 'k, 'v) table_ops \<Rightarrow> ('t \<Rightarrow> 'k \<rightharpoonup> 'v) \<Rightarrow> 't plain_table \<Rightarrow> bool" where
  "plain_inv E view s \<longleftrightarrow> table_laws E view \<and> table_total E"

lemma plain_put_ok:
  assumes "plain_inv E view s"
  shows "\<exists>s'. plain_put E s (k, v) = (s', Inr ()) \<and> view (pt_table s') = (view (pt_table s))(k \<mapsto> v)"
  using total_insert[of E view "pt_table s" k v] assms by (auto simp: plain_inv_def plain_put_def)

lemma plain_insert_many_ok:
  assumes "plain_inv E view s"
  shows "\<exists>s'. plain_insert_many E s pairs = (s', Inr ()) \<and>
              view (pt_table s') = view (pt_table s) ++ map_of (rev pairs)"
  unfolding plain_insert_many_def
proof (rule for_each_invariant)
  fix ds and s' :: "'a plain_table" and x :: "'b \<times> 'c"
  assume R: "view (pt_table s') = view (pt_table s) ++ map_of (rev ds)"
  have "plain_inv E view s'" using assms by (simp add: plain_inv_def)
  from plain_put_ok[OF this, of "fst x" "snd x"] R
  show "\<exists>s''. plain_put E s' x = (s'', Inr ()) \<and>
              view (pt_table s'') = view (pt_table s) ++ map_of (rev (ds @ [x]))"
    by (cases x) auto
qed simp

interpretation plain: write_table "plain_ops E" "plain_inv E view" "\<lambda>s. view (pt_table s)"
  "\<lambda>_ _ _. True" "\<lambda>_ _. True" for E view
proof
  fix s :: "'a plain_table" and k v pairs
  assume inv: "plain_inv E view s"
  then have any: "plain_inv E view s'" for s' :: "'a plain_table" by (simp add: plain_inv_def)
  show "\<exists>s'. wt_insert_kv (plain_ops E) s k v = (s', Inr ()) \<and> plain_inv E view s' \<and>
             view (pt_table s') = (view (pt_table s))(k \<mapsto> v)"
    using plain_put_ok[OF inv] any by (simp add: plain_ops_def plain_insert_kv_def)
  show "\<exists>s'. wt_insert_many (plain_ops E) s pairs = (s', Inr ()) \<and> plain_inv E view s' \<and>
             view (pt_table s') = view (pt_table s) ++ map_of (rev pairs)"
    using plain_insert_many_ok[OF inv] any by (simp add: plain_ops_def)
  show "\<exists>s'. wt_delete_kv (plain_ops E) s k = (s', Inr (k \<in> dom (view (pt_table s)))) \<and>
             plain_inv E view s' \<and> view (pt_table s') = (view (pt_table s))(k := None)"
    using total_remove[of E view "pt_table s" k] inv
    by (auto simp: plain_inv_def plain_ops_def plain_delete_kv_def)
qed

text \<open>The first error of the store stops a batch and is returned; the pairs before it are in the table.\<close>

lemma plain_insert_many_error:
  assumes "plain_insert_many E s pairs = (s', Inl e)"
  shows "\<exists>ds kv rest s1. pairs = ds @ kv # rest \<and> plain_insert_many E s ds = (s1, Inr ()) \<and>
           snd (tbl_insert E (pt_table s1) (fst kv) (snd kv)) = Inl e"
  using assms
proof (induction pairs arbitrary: s)
  case (Cons x pairs)
  show ?case
  proof (cases "plain_put E s x")
    case (Pair s1 r)
    show ?thesis
    proof (cases r)
      case (Inl e')
      with Cons.prems Pair have "e' = e" by (simp add: plain_insert_many_def)
      with Inl Pair have "snd (tbl_insert E (pt_table s) (fst x) (snd x)) = Inl e"
        by (auto simp: plain_put_def try_then_def split: prod.splits sum.splits)
      then show ?thesis by (intro exI[of _ "[]"]) (simp add: plain_insert_many_def)
    next
      case (Inr u)
      with Cons.prems Pair have "plain_insert_many E s1 pairs = (s', Inl e)" by (simp add: plain_insert_many_def)
      from Cons.IH[OF this] obtain ds kv rest s2 where
        "pairs = ds @ kv # rest" "plain_insert_many E s1 ds = (s2, Inr ())"
        "snd (tbl_insert E (pt_table s2) (fst kv) (snd kv)) = Inl e"
        by blast
      with Inr Pair show ?thesis
        by (intro exI[of _ "x # ds"] exI[of _ kv] exI[of _ rest] exI[of _ s2]) (simp add: plain_insert_many_def)
    qed
  qed
qed (simp add: plain_insert_many_def)

end
