(* ===== verification/Index_Table.thy ===== *)
theory Index_Table
  imports Table_Api
begin

section \<open>Index tables\<close>

text \<open>
  The model of \<open>redbit/src/storage/table_index.rs\<close> and \<open>table_index_write.rs\<close>: a table from keys to
  values, a multimap from values to keys, and an optional LRU cache from values to the key inserted
  last. The environment collects the operations of redb and of the cache, the cache key of a value
  and the order of values. A key and its \<open>Unit\<close>, the form in which the cache holds it, are one type here.
\<close>

record ('m, 't, 'c, 'k, 'v, 'ck) index_env =
  ie_mm :: "('m, 'v, 'k) multimap_ops"
  ie_tbl :: "('t, 'k, 'v) table_ops"
  ie_lru :: "('c, 'ck, 'k) lru_ops"
  ie_cache_key :: "'v \<Rightarrow> 'ck"
  ie_value_cmp :: "'v comparator"

record ('m, 't, 'c) index_table =
  pk_by_index :: 'm
  index_by_pk :: 't
  ix_cache :: "'c option"

record ('md, 'd) index_factory =
  if_name :: string
  pk_by_index_def :: 'md
  index_by_pk_def :: 'd
  if_lru_capacity :: "usize option"

definition index_factory_new :: "string \<Rightarrow> usize \<Rightarrow> 'md \<Rightarrow> 'd \<Rightarrow> ('md, 'd) index_factory" where
  "index_factory_new nm cap mdef tdef =
     \<lparr>if_name = nm, pk_by_index_def = mdef, index_by_pk_def = tdef,
      if_lru_capacity = (if cap < 1 then None else Some cap)\<rparr>"

text \<open>\<open>LruCache::new\<close> is the argument; it is called with a positive capacity only, or the code panics.\<close>

definition index_new_cache :: "(usize \<Rightarrow> 'c) \<Rightarrow> ('md, 'd) index_factory \<Rightarrow> 'c option option" where
  "index_new_cache lru_new f =
     (case if_lru_capacity f of None \<Rightarrow> Some None
      | Some cap \<Rightarrow> if cap = 0 then None else Some (Some (lru_new cap)))"

definition index_table_new ::
    "('md \<Rightarrow> 'm res) \<Rightarrow> ('d \<Rightarrow> 't res) \<Rightarrow> 'c option \<Rightarrow> 'md \<Rightarrow> 'd \<Rightarrow> ('m, 't, 'c) index_table res" where
  "index_table_new open_multimap open_table c mdef tdef =
     (case open_multimap mdef of Inl e \<Rightarrow> Inl e
      | Inr mm \<Rightarrow> (case open_table tdef of Inl e \<Rightarrow> Inl e
                  | Inr t \<Rightarrow> Inr \<lparr>pk_by_index = mm, index_by_pk = t, ix_cache = c\<rparr>))"

definition index_open_for_write ::
    "('md \<Rightarrow> 'm res) \<Rightarrow> ('d \<Rightarrow> 't res) \<Rightarrow> ('md, 'd) index_factory \<Rightarrow> 'c option \<Rightarrow> ('m, 't, 'c) index_table res" where
  "index_open_for_write open_multimap open_table f c =
     index_table_new open_multimap open_table c (pk_by_index_def f) (index_by_pk_def f)"

subsection \<open>Operations\<close>

definition ix_put_forward ::
    "('m, 't, 'c, 'k, 'v, 'ck) index_env \<Rightarrow> ('m, 't, 'c) index_table \<Rightarrow> 'k \<times> 'v \<Rightarrow> ('m, 't, 'c) index_table \<times> unit res" where
  "ix_put_forward E s kv =
     (case tbl_insert (ie_tbl E) (index_by_pk s) (fst kv) (snd kv) of (t', r) \<Rightarrow>
        try_then (s\<lparr>index_by_pk := t'\<rparr>, r) (\<lambda>s' _. (s', Inr ())))"

definition ix_put_reverse ::
    "('m, 't, 'c, 'k, 'v, 'ck) index_env \<Rightarrow> ('m, 't, 'c) index_table \<Rightarrow> 'k \<times> 'v \<Rightarrow> ('m, 't, 'c) index_table \<times> unit res" where
  "ix_put_reverse E s kv =
     (case mm_insert (ie_mm E) (pk_by_index s) (snd kv) (fst kv) of (m', r) \<Rightarrow>
        try_then (s\<lparr>pk_by_index := m'\<rparr>, r) (\<lambda>s' _. (s', Inr ())))"

definition ix_cache_put ::
    "('m, 't, 'c, 'k, 'v, 'ck) index_env \<Rightarrow> ('m, 't, 'c) index_table \<Rightarrow> 'k \<times> 'v \<Rightarrow> ('m, 't, 'c) index_table" where
  "ix_cache_put E s kv =
     s\<lparr>ix_cache := map_option (\<lambda>c. lru_put (ie_lru E) c (ie_cache_key E (snd kv)) (fst kv)) (ix_cache s)\<rparr>"

definition index_insert_kv ::
    "('m, 't, 'c, 'k, 'v, 'ck) index_env \<Rightarrow> ('m, 't, 'c) index_table \<Rightarrow> 'k \<Rightarrow> 'v \<Rightarrow> ('m, 't, 'c) index_table \<times> unit res" where
  "index_insert_kv E s k v =
     try_then (ix_put_forward E s (k, v)) (\<lambda>s1 _.
       try_then (ix_put_reverse E s1 (k, v)) (\<lambda>s2 _. (ix_cache_put E s2 (k, v), Inr ())))"

text \<open>The batch: the forward table and the cache in key order, then the multimap in value order.\<close>

definition index_insert_many ::
    "('m, 't, 'c, 'k, 'v, 'ck) index_env \<Rightarrow> ('m, 't, 'c) index_table \<Rightarrow> ('k \<times> 'v) list \<Rightarrow> ('m, 't, 'c) index_table \<times> unit res" where
  "index_insert_many E s pairs =
     try_then
       (for_each (\<lambda>s kv. try_then (ix_put_forward E s kv) (\<lambda>s1 _. (ix_cache_put E s1 kv, Inr ()))) s pairs)
       (\<lambda>s1 _. for_each (ix_put_reverse E) s1 (sort (key snd (ie_value_cmp E)) pairs))"

definition index_delete_kv ::
    "('m, 't, 'c, 'k, 'v, 'ck) index_env \<Rightarrow> ('m, 't, 'c) index_table \<Rightarrow> 'k \<Rightarrow> ('m, 't, 'c) index_table \<times> bool res" where
  "index_delete_kv E s k =
     (case tbl_remove (ie_tbl E) (index_by_pk s) k of (t', r) \<Rightarrow>
        try_then (s\<lparr>index_by_pk := t'\<rparr>, r) (\<lambda>s1 found.
          case found of
            None \<Rightarrow> (s1, Inr False)
          | Some v \<Rightarrow>
              (case mm_remove (ie_mm E) (pk_by_index s1) v k of (m', r') \<Rightarrow>
                 try_then (s1\<lparr>pk_by_index := m'\<rparr>, r') (\<lambda>s2 removed.
                   (if removed
                    then s2\<lparr>ix_cache := map_option (\<lambda>c. lru_pop (ie_lru E) c (ie_cache_key E v)) (ix_cache s2)\<rparr>
                    else s2, Inr removed)))))"

definition index_get_any ::
    "('m, 't, 'c, 'k, 'v, 'ck) index_env \<Rightarrow> ('m, 't, 'c) index_table \<Rightarrow> 'v \<Rightarrow> ('m, 't, 'c) index_table \<times> 'k option res" where
  "index_get_any E s v =
     (let hit = (case ix_cache s of None \<Rightarrow> (None, s)
                 | Some c \<Rightarrow> (case lru_get (ie_lru E) c (ie_cache_key E v) of (r, c') \<Rightarrow> (r, s\<lparr>ix_cache := Some c'\<rparr>)))
      in case hit of
           (Some k, s') \<Rightarrow> (s', Inr (Some k))
         | (None, s') \<Rightarrow>
             (case mm_get (ie_mm E) (pk_by_index s') v of
                Inl e \<Rightarrow> (s', Inl e)
              | Inr [] \<Rightarrow> (s', Inr None)
              | Inr (k # _) \<Rightarrow> (s', Inr (Some k))))"

definition index_ops :: "('m, 't, 'c, 'k, 'v, 'ck) index_env \<Rightarrow> (('m, 't, 'c) index_table, 'k, 'v) write_table_ops" where
  "index_ops E =
     \<lparr>wt_insert_kv = index_insert_kv E, wt_insert_many = index_insert_many E, wt_delete_kv = index_delete_kv E,
      wt_get_any = (\<lambda>s v. Some (index_get_any E s v)), wt_range = (\<lambda>_ _ _. None)\<rparr>"

subsection \<open>The invariant\<close>

text \<open>
  The views of the three stores travel as one record. The invariant: the multimap is the inverse of
  the table, and a cached key is a key of its value.
\<close>

record ('m, 't, 'c, 'k, 'v, 'ck) index_views =
  iv_mm :: "'m \<Rightarrow> 'v \<Rightarrow> 'k set"
  iv_tbl :: "'t \<Rightarrow> 'k \<rightharpoonup> 'v"
  iv_lru :: "'c \<Rightarrow> 'ck \<rightharpoonup> 'k"

definition index_laws ::
    "'k comparator \<Rightarrow> ('m, 't, 'c, 'k, 'v, 'ck) index_env \<Rightarrow> ('m, 't, 'c, 'k, 'v, 'ck) index_views \<Rightarrow> bool" where
  "index_laws cmp E V \<longleftrightarrow>
     multimap_laws cmp (ie_mm E) (iv_mm V) \<and> multimap_total (ie_mm E) \<and>
     table_laws (ie_tbl E) (iv_tbl V) \<and> table_total (ie_tbl E) \<and>
     lru_laws (ie_lru E) (iv_lru V) \<and> inj (ie_cache_key E)"

definition cache_sound ::
    "('m, 't, 'c, 'k, 'v, 'ck) index_env \<Rightarrow> ('m, 't, 'c, 'k, 'v, 'ck) index_views \<Rightarrow> 'c option \<Rightarrow> ('k \<rightharpoonup> 'v) \<Rightarrow> bool" where
  "cache_sound E V co m \<longleftrightarrow>
     (\<forall>c v k. co = Some c \<longrightarrow> iv_lru V c (ie_cache_key E v) = Some k \<longrightarrow> m k = Some v)"

definition index_inv ::
    "'k comparator \<Rightarrow> ('m, 't, 'c, 'k, 'v, 'ck) index_env \<Rightarrow> ('m, 't, 'c, 'k, 'v, 'ck) index_views \<Rightarrow>
     ('m, 't, 'c) index_table \<Rightarrow> bool" where
  "index_inv cmp E V s \<longleftrightarrow>
     index_laws cmp E V \<and>
     (\<forall>v k. k \<in> iv_mm V (pk_by_index s) v \<longleftrightarrow> iv_tbl V (index_by_pk s) k = Some v) \<and>
     cache_sound E V (ix_cache s) (iv_tbl V (index_by_pk s))"

abbreviation ix_contents where
  "ix_contents V s \<equiv> iv_tbl V (index_by_pk s)"

text \<open>A key may be inserted when it is new or keeps its value.\<close>

definition ix_insertable where
  "ix_insertable V s k v \<longleftrightarrow> ix_contents V s k = None \<or> ix_contents V s k = Some v"

definition ix_batch_ok where
  "ix_batch_ok V s pairs \<longleftrightarrow> distinct (map fst pairs) \<and> (\<forall>(k, v)\<in>set pairs. ix_insertable V s k v)"

lemma index_lawsD:
  assumes "index_laws cmp E V"
  shows "multimap_laws cmp (ie_mm E) (iv_mm V)" "multimap_total (ie_mm E)" "table_laws (ie_tbl E) (iv_tbl V)"
    "table_total (ie_tbl E)" "lru_laws (ie_lru E) (iv_lru V)" "inj (ie_cache_key E)"
  using assms by (auto simp: index_laws_def)

lemma ix_forward_ok:
  assumes "index_laws cmp E V"
  shows "\<exists>s'. ix_put_forward E s (k, v) = (s', Inr ()) \<and> ix_contents V s' = (ix_contents V s)(k \<mapsto> v) \<and>
              pk_by_index s' = pk_by_index s \<and> ix_cache s' = ix_cache s"
  using total_insert[OF index_lawsD(3,4)[OF assms], of "index_by_pk s" k v] by (auto simp: ix_put_forward_def)

lemma ix_reverse_ok:
  assumes "index_laws cmp E V"
  shows "\<exists>s'. ix_put_reverse E s (k, v) = (s', Inr ()) \<and> index_by_pk s' = index_by_pk s \<and> ix_cache s' = ix_cache s \<and>
              iv_mm V (pk_by_index s') = (iv_mm V (pk_by_index s))(v := insert k (iv_mm V (pk_by_index s) v))"
  using mm_total_insert[OF index_lawsD(1,2)[OF assms], of "pk_by_index s" v k] by (auto simp: ix_put_reverse_def)

lemma cache_put_fields [simp]:
  "index_by_pk (ix_cache_put E s kv) = index_by_pk s" "pk_by_index (ix_cache_put E s kv) = pk_by_index s"
  by (simp_all add: ix_cache_put_def)

lemma cache_sound_put:
  assumes "index_laws cmp E V" and "cache_sound E V (ix_cache s) m" and "m' k = Some v"
    and "\<And>k' v'. m k' = Some v' \<Longrightarrow> m' k' = Some v'"
  shows "cache_sound E V (ix_cache (ix_cache_put E s (k, v))) m'"
proof -
  have "m' k' = Some v'"
    if c: "ix_cache s = Some c" and hit: "iv_lru V (lru_put (ie_lru E) c (ie_cache_key E v) k) (ie_cache_key E v') = Some k'"
    for c v' k'
  proof -
    have le: "iv_lru V (lru_put (ie_lru E) c (ie_cache_key E v) k) \<subseteq>\<^sub>m (iv_lru V c)(ie_cache_key E v \<mapsto> k)"
      by (rule lruD(1)[OF index_lawsD(5)[OF assms(1)]])
    have "((iv_lru V c)(ie_cache_key E v \<mapsto> k)) (ie_cache_key E v') = Some k'"
      using le hit by (metis domI map_le_def)
    then consider "ie_cache_key E v' = ie_cache_key E v" "k' = k"
      | "iv_lru V c (ie_cache_key E v') = Some k'" by (metis fun_upd_apply option.inject)
    then show ?thesis
    proof cases
      case 1
      with index_lawsD(6)[OF assms(1)] assms(3) show ?thesis by (simp add: inj_eq)
    next
      case 2
      with assms(2,4) c show ?thesis by (auto simp: cache_sound_def)
    qed
  qed
  then show ?thesis by (auto simp: cache_sound_def ix_cache_put_def)
qed

subsection \<open>The operations keep the invariant\<close>

lemma index_insert_kv_ok:
  assumes inv: "index_inv cmp E V s" and fresh: "ix_insertable V s k v"
  shows "\<exists>s'. index_insert_kv E s k v = (s', Inr ()) \<and> index_inv cmp E V s' \<and>
              ix_contents V s' = (ix_contents V s)(k \<mapsto> v)"
proof -
  have laws: "index_laws cmp E V" using inv by (simp add: index_inv_def)
  from ix_forward_ok[OF laws, of s k v] obtain s1 where
    s1: "ix_put_forward E s (k, v) = (s1, Inr ())" "ix_contents V s1 = (ix_contents V s)(k \<mapsto> v)"
      "pk_by_index s1 = pk_by_index s" "ix_cache s1 = ix_cache s" by blast
  from ix_reverse_ok[OF laws, of s1 k v] obtain s2 where
    s2: "ix_put_reverse E s1 (k, v) = (s2, Inr ())" "index_by_pk s2 = index_by_pk s1" "ix_cache s2 = ix_cache s1"
      "iv_mm V (pk_by_index s2) = (iv_mm V (pk_by_index s1))(v := insert k (iv_mm V (pk_by_index s1) v))" by blast
  let ?s' = "ix_cache_put E s2 (k, v)"
  have "cache_sound E V (ix_cache ?s') (ix_contents V ?s')"
    using inv s1 s2 fresh
    by (intro cache_sound_put[OF laws, of _ "ix_contents V s"]) (auto simp: index_inv_def ix_insertable_def)
  moreover have "k' \<in> iv_mm V (pk_by_index ?s') v' \<longleftrightarrow> ix_contents V ?s' k' = Some v'" for v' k'
    using inv s1 s2 fresh by (auto simp: index_inv_def ix_insertable_def)
  ultimately show ?thesis using laws s1 s2 by (auto simp: index_inv_def index_insert_kv_def)
qed

text \<open>The first pass of a batch: forward table and cache.\<close>

lemma index_pass1_ok:
  assumes laws: "index_laws cmp E V" and sound: "cache_sound E V (ix_cache s) (ix_contents V s)"
    and batch: "ix_batch_ok V s pairs"
  shows "\<exists>s'. for_each (\<lambda>s kv. try_then (ix_put_forward E s kv) (\<lambda>s1 _. (ix_cache_put E s1 kv, Inr ()))) s pairs =
                (s', Inr ()) \<and>
              ix_contents V s' = ix_contents V s ++ map_of (rev pairs) \<and> pk_by_index s' = pk_by_index s \<and>
              cache_sound E V (ix_cache s') (ix_contents V s')"
proof (rule for_each_invariant)
  show "ix_contents V s = ix_contents V s ++ map_of (rev []) \<and> pk_by_index s = pk_by_index s \<and>
        cache_sound E V (ix_cache s) (ix_contents V s)" using sound by simp
next
  fix ds and s1 :: "('b, 'c, 'd) index_table" and x rest
  assume split: "pairs = ds @ x # rest" and R: "ix_contents V s1 = ix_contents V s ++ map_of (rev ds) \<and>
    pk_by_index s1 = pk_by_index s \<and> cache_sound E V (ix_cache s1) (ix_contents V s1)"
  obtain k v where x: "x = (k, v)" by (cases x)
  have "map_of (rev ds) k = None" using batch split x by (auto simp: ix_batch_ok_def map_of_eq_None_iff)
  moreover have "ix_insertable V s k v" using batch split x by (auto simp: ix_batch_ok_def)
  ultimately have fresh: "ix_contents V s1 k = None \<or> ix_contents V s1 k = Some v"
    using R by (simp add: ix_insertable_def map_add_def)
  from ix_forward_ok[OF laws, of s1 k v] obtain s2 where
    s2: "ix_put_forward E s1 (k, v) = (s2, Inr ())" "ix_contents V s2 = (ix_contents V s1)(k \<mapsto> v)"
      "pk_by_index s2 = pk_by_index s1" "ix_cache s2 = ix_cache s1" by blast
  have "cache_sound E V (ix_cache (ix_cache_put E s2 (k, v))) (ix_contents V (ix_cache_put E s2 (k, v)))"
    using R s2 fresh by (intro cache_sound_put[OF laws, of _ "ix_contents V s1"]) auto
  then show "\<exists>s'. try_then (ix_put_forward E s1 x) (\<lambda>s1 _. (ix_cache_put E s1 x, Inr ())) = (s', Inr ()) \<and>
     ix_contents V s' = ix_contents V s ++ map_of (rev (ds @ [x])) \<and> pk_by_index s' = pk_by_index s \<and>
     cache_sound E V (ix_cache s') (ix_contents V s')"
    using R s2 x by auto
qed

text \<open>The second pass: the multimap, in whatever order.\<close>

lemma index_pass2_ok:
  assumes laws: "index_laws cmp E V"
  shows "\<exists>s'. for_each (ix_put_reverse E) s ps = (s', Inr ()) \<and> index_by_pk s' = index_by_pk s \<and>
              ix_cache s' = ix_cache s \<and>
              iv_mm V (pk_by_index s') = (\<lambda>v. iv_mm V (pk_by_index s) v \<union> {k. (k, v) \<in> set ps})"
proof (rule for_each_invariant)
  fix ds and s1 :: "('b, 'c, 'd) index_table" and x :: "'a \<times> 'e"
  assume R: "index_by_pk s1 = index_by_pk s \<and> ix_cache s1 = ix_cache s \<and>
    iv_mm V (pk_by_index s1) = (\<lambda>v. iv_mm V (pk_by_index s) v \<union> {k. (k, v) \<in> set ds})"
  obtain k v where x: "x = (k, v)" by (cases x)
  from ix_reverse_ok[OF laws, of s1 k v] R x
  show "\<exists>s'. ix_put_reverse E s1 x = (s', Inr ()) \<and> index_by_pk s' = index_by_pk s \<and> ix_cache s' = ix_cache s \<and>
     iv_mm V (pk_by_index s') = (\<lambda>v. iv_mm V (pk_by_index s) v \<union> {k. (k, v) \<in> set (ds @ [x])})"
    by (fastforce simp: fun_eq_iff)
qed simp

lemma index_insert_many_ok:
  assumes inv: "index_inv cmp E V s" and batch: "ix_batch_ok V s pairs"
  shows "\<exists>s'. index_insert_many E s pairs = (s', Inr ()) \<and> index_inv cmp E V s' \<and>
              ix_contents V s' = ix_contents V s ++ map_of (rev pairs)"
proof -
  have laws: "index_laws cmp E V" and sound: "cache_sound E V (ix_cache s) (ix_contents V s)"
    using inv by (simp_all add: index_inv_def)
  from index_pass1_ok[OF laws sound batch] obtain s1 where
    s1: "for_each (\<lambda>s kv. try_then (ix_put_forward E s kv) (\<lambda>s1 _. (ix_cache_put E s1 kv, Inr ()))) s pairs = (s1, Inr ())"
      "ix_contents V s1 = ix_contents V s ++ map_of (rev pairs)" "pk_by_index s1 = pk_by_index s"
      "cache_sound E V (ix_cache s1) (ix_contents V s1)" by blast
  let ?srt = "sort (key snd (ie_value_cmp E)) pairs"
  from index_pass2_ok[OF laws, of s1 ?srt] obtain s2 where
    s2: "for_each (ix_put_reverse E) s1 ?srt = (s2, Inr ())" "index_by_pk s2 = index_by_pk s1" "ix_cache s2 = ix_cache s1"
      "iv_mm V (pk_by_index s2) = (\<lambda>v. iv_mm V (pk_by_index s1) v \<union> {k. (k, v) \<in> set ?srt})" by blast
  have "distinct (map fst (rev pairs))" using batch by (simp add: ix_batch_ok_def rev_map[symmetric])
  then have found: "map_of (rev pairs) k = Some v \<longleftrightarrow> (k, v) \<in> set pairs" for k v
    by (simp add: map_of_eq_Some_iff)
  have "k \<in> iv_mm V (pk_by_index s2) v \<longleftrightarrow> ix_contents V s2 k = Some v" for v k
  proof (cases "map_of (rev pairs) k")
    case None
    with found[of k] have "(k, v) \<notin> set pairs" by auto
    with None inv s1 s2 show ?thesis by (simp add: index_inv_def map_add_def)
  next
    case (Some v')
    then have mem: "(k, v') \<in> set pairs" by (simp add: found)
    then have "ix_insertable V s k v'" using batch by (auto simp: ix_batch_ok_def)
    moreover have "(k, v) \<in> set pairs \<longleftrightarrow> v = v'" using Some found[of k v] by auto
    ultimately show ?thesis using Some inv s1 s2 by (auto simp: index_inv_def ix_insertable_def)
  qed
  then show ?thesis using laws s1 s2 by (auto simp: index_inv_def index_insert_many_def)
qed

lemma index_delete_kv_ok:
  assumes inv: "index_inv cmp E V s"
  shows "\<exists>s'. index_delete_kv E s k = (s', Inr (k \<in> dom (ix_contents V s))) \<and> index_inv cmp E V s' \<and>
              ix_contents V s' = (ix_contents V s)(k := None)"
proof -
  have laws: "index_laws cmp E V" using inv by (simp add: index_inv_def)
  from total_remove[OF index_lawsD(3,4)[OF laws], of "index_by_pk s" k] obtain t' where
    t': "tbl_remove (ie_tbl E) (index_by_pk s) k = (t', Inr (ix_contents V s k))"
      "iv_tbl V t' = (ix_contents V s)(k := None)" by blast
  show ?thesis
  proof (cases "ix_contents V s k")
    case None
    then have "(ix_contents V s)(k := None) = ix_contents V s" by auto
    with None inv t' show ?thesis by (auto simp: index_delete_kv_def index_inv_def)
  next
    case (Some v)
    from mm_total_remove[OF index_lawsD(1,2)[OF laws], of "pk_by_index s" v k] obtain m' where
      m': "mm_remove (ie_mm E) (pk_by_index s) v k = (m', Inr (k \<in> iv_mm V (pk_by_index s) v))"
        "iv_mm V m' = (iv_mm V (pk_by_index s))(v := iv_mm V (pk_by_index s) v - {k})" by blast
    have mem: "k \<in> iv_mm V (pk_by_index s) v" using inv Some by (simp add: index_inv_def)
    have "cache_sound E V (map_option (\<lambda>c. lru_pop (ie_lru E) c (ie_cache_key E v)) (ix_cache s)) (iv_tbl V t')"
      using inv Some t'(2) lruD(5)[OF index_lawsD(5)[OF laws]]
      by (fastforce simp: cache_sound_def index_inv_def split: if_splits)
    moreover have "k' \<in> iv_mm V m' v' \<longleftrightarrow> iv_tbl V t' k' = Some v'" for v' k'
      using inv Some t'(2) m'(2) by (auto simp: index_inv_def)
    ultimately show ?thesis using Some laws t' m' mem by (auto simp: index_delete_kv_def index_inv_def)
  qed
qed

interpretation index: write_table "index_ops E" "index_inv cmp E V" "ix_contents V"
  "ix_insertable V" "ix_batch_ok V" for cmp E V
proof
  fix s and k :: 'd and v :: 'e and pairs
  assume inv: "index_inv cmp E V s"
  show "\<exists>s'. wt_insert_kv (index_ops E) s k v = (s', Inr ()) \<and> index_inv cmp E V s' \<and>
             ix_contents V s' = (ix_contents V s)(k \<mapsto> v)" if "ix_insertable V s k v"
    using index_insert_kv_ok[OF inv that] by (simp add: index_ops_def)
  show "\<exists>s'. wt_insert_many (index_ops E) s pairs = (s', Inr ()) \<and> index_inv cmp E V s' \<and>
             ix_contents V s' = ix_contents V s ++ map_of (rev pairs)" if "ix_batch_ok V s pairs"
    using index_insert_many_ok[OF inv that] by (simp add: index_ops_def)
  show "\<exists>s'. wt_delete_kv (index_ops E) s k = (s', Inr (k \<in> dom (ix_contents V s))) \<and> index_inv cmp E V s' \<and>
             ix_contents V s' = (ix_contents V s)(k := None)"
    using index_delete_kv_ok[OF inv] by (simp add: index_ops_def)
qed

subsection \<open>Properties\<close>

lemma index_get_any_ok:
  assumes inv: "index_inv cmp E V s"
  shows "\<exists>s' r. index_get_any E s v = (s', Inr r) \<and> index_inv cmp E V s' \<and> ix_contents V s' = ix_contents V s \<and>
           (case r of None \<Rightarrow> v \<notin> ran (ix_contents V s) | Some k \<Rightarrow> ix_contents V s k = Some v) \<and>
           (ix_cache s = None \<longrightarrow> (\<forall>k k'. r = Some k \<longrightarrow> ix_contents V s k' = Some v \<longrightarrow> compare cmp k k' \<noteq> Greater))"
proof -
  have laws: "index_laws cmp E V" and sound: "cache_sound E V (ix_cache s) (ix_contents V s)"
    and rev: "\<And>v k. k \<in> iv_mm V (pk_by_index s) v \<longleftrightarrow> ix_contents V s k = Some v"
    using inv by (simp_all add: index_inv_def)
  from mm_total_get[OF index_lawsD(1,2)[OF laws], of "pk_by_index s" v] obtain xs where
    xs: "mm_get (ie_mm E) (pk_by_index s) v = Inr xs" "set xs = iv_mm V (pk_by_index s) v"
      "sorted_wrt (\<lambda>x y. compare cmp x y = Less) xs" by blast
  have keys: "set xs = {k. ix_contents V s k = Some v}" using xs(2) rev by auto
  have table: "case (case xs of [] \<Rightarrow> None | k # _ \<Rightarrow> Some k) of
      None \<Rightarrow> v \<notin> ran (ix_contents V s)
    | Some k \<Rightarrow> ix_contents V s k = Some v \<and> (\<forall>k'. ix_contents V s k' = Some v \<longrightarrow> compare cmp k k' \<noteq> Greater)"
  proof (cases xs)
    case Nil
    with keys show ?thesis by (auto simp: ran_def)
  next
    case (Cons k ks)
    then have "ix_contents V s k' = Some v \<longleftrightarrow> k' = k \<or> k' \<in> set ks" for k' using keys by auto
    with Cons xs(3) show ?thesis by (auto simp: compare.refl)
  qed
  show ?thesis
  proof (cases "ix_cache s")
    case None
    with table xs(1) inv show ?thesis by (cases xs) (auto simp: index_get_any_def Let_def)
  next
    case (Some c)
    obtain r c' where get: "lru_get (ie_lru E) c (ie_cache_key E v) = (r, c')" by fastforce
    note lg = lruD(3,4)[OF index_lawsD(5)[OF laws], of c "ie_cache_key E v", unfolded get]
    have inv': "index_inv cmp E V (s\<lparr>ix_cache := Some c'\<rparr>)"
      using inv lg(2) Some by (auto simp: index_inv_def cache_sound_def)
    show ?thesis
    proof (cases r)
      case None
      with table xs(1) inv' get Some show ?thesis by (cases xs) (auto simp: index_get_any_def Let_def)
    next
      case (Some k)
      with lg(1) sound \<open>ix_cache s = Some c\<close> have "ix_contents V s k = Some v" by (auto simp: cache_sound_def)
      with Some inv' get \<open>ix_cache s = Some c\<close> show ?thesis by (auto simp: index_get_any_def Let_def)
    qed
  qed
qed


definition demo_index_env :: "(nat \<Rightarrow> nat list, nat \<rightharpoonup> nat, nat \<rightharpoonup> nat, nat, nat, nat) index_env" where
  "demo_index_env = \<lparr>ie_mm = list_multimap_ops, ie_tbl = map_table_ops, ie_lru = map_lru_ops,
     ie_cache_key = id, ie_value_cmp = default\<rparr>"

definition demo_index_views :: "(nat \<Rightarrow> nat list, nat \<rightharpoonup> nat, nat \<rightharpoonup> nat, nat, nat, nat) index_views" where
  "demo_index_views = \<lparr>iv_mm = (\<lambda>m k. set (m k)), iv_tbl = (\<lambda>t. t), iv_lru = (\<lambda>c. c)\<rparr>"

definition demo_index :: "(nat \<Rightarrow> nat list, nat \<rightharpoonup> nat, nat \<rightharpoonup> nat) index_table" where
  "demo_index = \<lparr>pk_by_index = (\<lambda>_. []), index_by_pk = Map.empty, ix_cache = Some Map.empty\<rparr>"

lemma demo_index_inv: "index_inv default demo_index_env demo_index_views demo_index"
  by (simp add: index_inv_def index_laws_def cache_sound_def demo_index_env_def demo_index_views_def demo_index_def
      list_multimap_ok map_table_ok map_lru_ok)


text \<open>
  A reverse lookup of an index table returns a key of the value whenever one exists and nothing
  otherwise, whatever the cache holds; without a cache it returns the smallest key.
\<close>

theorem index_get_any_correct:
  assumes "index_inv cmp E V s"
  shows "\<exists>s' r. index_get_any E s v = (s', Inr r) \<and> index_inv cmp E V s' \<and> ix_contents V s' = ix_contents V s \<and>
           (case r of None \<Rightarrow> v \<notin> ran (ix_contents V s) | Some k \<Rightarrow> ix_contents V s k = Some v) \<and>
           (ix_cache s = None \<longrightarrow> (\<forall>k k'. r = Some k \<longrightarrow> ix_contents V s k' = Some v \<longrightarrow> compare cmp k k' \<noteq> Greater))"
  by (rule index_get_any_ok[OF assms])

theorem index_get_any_correct_witness:
  "\<exists>s' r. index_get_any demo_index_env demo_index 7 = (s', Inr r) \<and> index_inv default demo_index_env demo_index_views s' \<and>
     ix_contents demo_index_views s' = ix_contents demo_index_views demo_index \<and>
     (case r of None \<Rightarrow> 7 \<notin> ran (ix_contents demo_index_views demo_index)
      | Some k \<Rightarrow> ix_contents demo_index_views demo_index k = Some 7) \<and>
     (ix_cache demo_index = None \<longrightarrow> (\<forall>k k'. r = Some k \<longrightarrow>
        ix_contents demo_index_views demo_index k' = Some 7 \<longrightarrow> compare default k k' \<noteq> Greater))"
  by (rule index_get_any_correct[OF demo_index_inv])

text \<open>
  With a cache the lookup returns the key inserted last, not the smallest one: inserting the keys
  3 and 10 for the same value, in this order, makes the lookup return 10.
\<close>

theorem index_get_any_not_smallest:
  "(case index_insert_kv demo_index_env demo_index 3 7 of (s1, _) \<Rightarrow>
      case index_insert_kv demo_index_env s1 10 7 of (s2, _) \<Rightarrow>
        snd (index_get_any demo_index_env s2 7)) = Inr (Some 10)"
  by (simp add: index_insert_kv_def ix_put_forward_def ix_put_reverse_def ix_cache_put_def index_get_any_def
      demo_index_env_def demo_index_def list_multimap_ops_def map_table_ops_def map_lru_ops_def)

end
