(* ===== verification/Dict_Table.thy ===== *)
theory Dict_Table
  imports Table_Api
begin

section \<open>Dictionary tables\<close>

text \<open>
  The model of \<open>redbit/src/storage/table_dict.rs\<close> and \<open>table_dict_write.rs\<close>. A dictionary stores each
  value once, under the key that introduced it (its birth id): \<open>dict_pk_by_key\<close> sends every key to a
  birth id, \<open>value_by_dict_pk\<close> sends a birth id to the value, \<open>value_to_dict_pk\<close> sends the value back, and
  \<open>dict_pk_to_keys\<close> lists the keys of a birth id. An optional LRU cache shortens the way from a value
  to its birth id. The environment holds the operations of redb and of the cache.

  The contract is stated on an abstract dictionary of four functions; the operations are shown to
  implement its insertion and deletion, the batch under a condition on the cache.
\<close>

record ('m, 'kv, 'vk, 'kk, 'c, 'k, 'v, 'ck) dict_env =
  de_mm :: "('m, 'k, 'k) multimap_ops"
  de_kv :: "('kv, 'k, 'v) table_ops"
  de_vk :: "('vk, 'v, 'k) table_ops"
  de_kk :: "('kk, 'k, 'k) table_ops"
  de_lru :: "('c, 'ck, 'k) lru_ops"
  de_cache_key :: "'v \<Rightarrow> 'ck"
  de_key_cmp :: "'k comparator"
  de_value_cmp :: "'v comparator"

record ('m, 'kv, 'vk, 'kk, 'c) dict_table =
  dict_pk_to_keys :: 'm
  value_by_dict_pk :: 'kv
  value_to_dict_pk :: 'vk
  dict_pk_by_key :: 'kk
  dt_cache :: "'c option"

record ('md, 'd1, 'd2, 'd3) dict_factory =
  df_name :: string
  dict_pk_to_ids_def :: 'md
  value_by_dict_pk_def :: 'd1
  value_to_dict_pk_def :: 'd2
  dict_pk_by_id_def :: 'd3
  df_lru_capacity :: "usize option"

definition dict_factory_new ::
    "string \<Rightarrow> usize \<Rightarrow> 'md \<Rightarrow> 'd1 \<Rightarrow> 'd2 \<Rightarrow> 'd3 \<Rightarrow> ('md, 'd1, 'd2, 'd3) dict_factory" where
  "dict_factory_new nm cap md d1 d2 d3 =
     \<lparr>df_name = nm, dict_pk_to_ids_def = md, value_by_dict_pk_def = d1, value_to_dict_pk_def = d2,
      dict_pk_by_id_def = d3, df_lru_capacity = (if cap < 1 then None else Some cap)\<rparr>"

definition dict_new_cache :: "(usize \<Rightarrow> 'c) \<Rightarrow> ('md, 'd1, 'd2, 'd3) dict_factory \<Rightarrow> 'c option option" where
  "dict_new_cache lru_new f =
     (case df_lru_capacity f of None \<Rightarrow> Some None
      | Some cap \<Rightarrow> if cap = 0 then None else Some (Some (lru_new cap)))"

definition dict_table_new ::
    "('md \<Rightarrow> 'm res) \<Rightarrow> ('d1 \<Rightarrow> 'kv res) \<Rightarrow> ('d2 \<Rightarrow> 'vk res) \<Rightarrow> ('d3 \<Rightarrow> 'kk res) \<Rightarrow> 'c option \<Rightarrow>
     'md \<Rightarrow> 'd1 \<Rightarrow> 'd2 \<Rightarrow> 'd3 \<Rightarrow> ('m, 'kv, 'vk, 'kk, 'c) dict_table res" where
  "dict_table_new open_mm open_kv open_vk open_kk c md d1 d2 d3 =
     (case open_mm md of Inl e \<Rightarrow> Inl e
      | Inr mm \<Rightarrow> (case open_kv d1 of Inl e \<Rightarrow> Inl e
        | Inr kv \<Rightarrow> (case open_vk d2 of Inl e \<Rightarrow> Inl e
          | Inr vk \<Rightarrow> (case open_kk d3 of Inl e \<Rightarrow> Inl e
            | Inr kk \<Rightarrow> Inr \<lparr>dict_pk_to_keys = mm, value_by_dict_pk = kv, value_to_dict_pk = vk,
                           dict_pk_by_key = kk, dt_cache = c\<rparr>))))"

definition dict_open_for_write ::
    "('md \<Rightarrow> 'm res) \<Rightarrow> ('d1 \<Rightarrow> 'kv res) \<Rightarrow> ('d2 \<Rightarrow> 'vk res) \<Rightarrow> ('d3 \<Rightarrow> 'kk res) \<Rightarrow>
     ('md, 'd1, 'd2, 'd3) dict_factory \<Rightarrow> 'c option \<Rightarrow> ('m, 'kv, 'vk, 'kk, 'c) dict_table res" where
  "dict_open_for_write open_mm open_kv open_vk open_kk f c =
     dict_table_new open_mm open_kv open_vk open_kk c
       (dict_pk_to_ids_def f) (value_by_dict_pk_def f) (value_to_dict_pk_def f) (dict_pk_by_id_def f)"

subsection \<open>Operations\<close>

text \<open>One insertion into each of the four stores, and the two uses of the cache.\<close>

definition put_key :: "('m, 'kv, 'vk, 'kk, 'c, 'k, 'v, 'ck) dict_env \<Rightarrow> ('m, 'kv, 'vk, 'kk, 'c) dict_table \<Rightarrow>
    'k \<Rightarrow> 'k \<Rightarrow> ('m, 'kv, 'vk, 'kk, 'c) dict_table \<times> unit res" where
  "put_key E s k birth_id =
     (case tbl_insert (de_kk E) (dict_pk_by_key s) k birth_id of (t, r) \<Rightarrow>
        try_then (s\<lparr>dict_pk_by_key := t\<rparr>, r) (\<lambda>s' _. (s', Inr ())))"

definition put_birth :: "('m, 'kv, 'vk, 'kk, 'c, 'k, 'v, 'ck) dict_env \<Rightarrow> ('m, 'kv, 'vk, 'kk, 'c) dict_table \<Rightarrow>
    'k \<Rightarrow> 'k \<Rightarrow> ('m, 'kv, 'vk, 'kk, 'c) dict_table \<times> unit res" where
  "put_birth E s birth_id k =
     (case mm_insert (de_mm E) (dict_pk_to_keys s) birth_id k of (t, r) \<Rightarrow>
        try_then (s\<lparr>dict_pk_to_keys := t\<rparr>, r) (\<lambda>s' _. (s', Inr ())))"

definition put_value :: "('m, 'kv, 'vk, 'kk, 'c, 'k, 'v, 'ck) dict_env \<Rightarrow> ('m, 'kv, 'vk, 'kk, 'c) dict_table \<Rightarrow>
    'k \<Rightarrow> 'v \<Rightarrow> ('m, 'kv, 'vk, 'kk, 'c) dict_table \<times> unit res" where
  "put_value E s k v =
     (case tbl_insert (de_kv E) (value_by_dict_pk s) k v of (t, r) \<Rightarrow>
        try_then (s\<lparr>value_by_dict_pk := t\<rparr>, r) (\<lambda>s' _. (s', Inr ())))"

definition put_reverse :: "('m, 'kv, 'vk, 'kk, 'c, 'k, 'v, 'ck) dict_env \<Rightarrow> ('m, 'kv, 'vk, 'kk, 'c) dict_table \<Rightarrow>
    'v \<Rightarrow> 'k \<Rightarrow> ('m, 'kv, 'vk, 'kk, 'c) dict_table \<times> unit res" where
  "put_reverse E s v birth_id =
     (case tbl_insert (de_vk E) (value_to_dict_pk s) v birth_id of (t, r) \<Rightarrow>
        try_then (s\<lparr>value_to_dict_pk := t\<rparr>, r) (\<lambda>s' _. (s', Inr ())))"

definition cache_lookup :: "('m, 'kv, 'vk, 'kk, 'c, 'k, 'v, 'ck) dict_env \<Rightarrow> ('m, 'kv, 'vk, 'kk, 'c) dict_table \<Rightarrow>
    'v \<Rightarrow> 'k option \<times> ('m, 'kv, 'vk, 'kk, 'c) dict_table" where
  "cache_lookup E s v =
     (case dt_cache s of None \<Rightarrow> (None, s)
      | Some c \<Rightarrow> (case lru_get (de_lru E) c (de_cache_key E v) of (r, c') \<Rightarrow> (r, s\<lparr>dt_cache := Some c'\<rparr>)))"

definition cache_store :: "('m, 'kv, 'vk, 'kk, 'c, 'k, 'v, 'ck) dict_env \<Rightarrow> ('m, 'kv, 'vk, 'kk, 'c) dict_table \<Rightarrow>
    'v \<Rightarrow> 'k \<Rightarrow> ('m, 'kv, 'vk, 'kk, 'c) dict_table" where
  "cache_store E s v birth_id =
     s\<lparr>dt_cache := map_option (\<lambda>c. lru_put (de_lru E) c (de_cache_key E v) birth_id) (dt_cache s)\<rparr>"

definition dict_insert_kv :: "('m, 'kv, 'vk, 'kk, 'c, 'k, 'v, 'ck) dict_env \<Rightarrow> ('m, 'kv, 'vk, 'kk, 'c) dict_table \<Rightarrow>
    'k \<Rightarrow> 'v \<Rightarrow> ('m, 'kv, 'vk, 'kk, 'c) dict_table \<times> unit res" where
  "dict_insert_kv E s k v =
     (case cache_lookup E s v of
        (Some birth_id, s1) \<Rightarrow> try_then (put_key E s1 k birth_id) (\<lambda>s2 _. put_birth E s2 birth_id k)
      | (None, s1) \<Rightarrow>
          try_then (s1, tbl_get (de_vk E) (value_to_dict_pk s1) v) (\<lambda>s2 found.
            case found of
              Some birth_id \<Rightarrow>
                try_then (put_key E (cache_store E s2 v birth_id) k birth_id) (\<lambda>s3 _. put_birth E s3 birth_id k)
            | None \<Rightarrow>
                try_then (put_reverse E s2 v k) (\<lambda>s3 _.
                try_then (put_value E s3 k v) (\<lambda>s4 _.
                try_then (put_key E s4 k k) (\<lambda>s5 _.
                try_then (put_birth E s5 k k) (\<lambda>s6 _. (cache_store E s6 v k, Inr ())))))))"

text \<open>
  One round of the first pass of a batch: the state is the table with the two lists of deferred
  writes, \<open>pk_to_keys_batch\<close> and \<open>value_to_pk_batch\<close>.
\<close>

type_synonym ('s, 'k, 'v) dict_pass = "'s \<times> ('k \<times> 'k) list \<times> ('v \<times> 'k) list"

definition with_batches :: "'s \<times> unit res \<Rightarrow> ('k \<times> 'k) list \<Rightarrow> ('v \<times> 'k) list \<Rightarrow> ('s, 'k, 'v) dict_pass \<times> unit res" where
  "with_batches p b1 b2 = (case p of (s, r) \<Rightarrow> ((s, b1, b2), r))"

definition dict_pass1 :: "('m, 'kv, 'vk, 'kk, 'c, 'k, 'v, 'ck) dict_env \<Rightarrow>
    (('m, 'kv, 'vk, 'kk, 'c) dict_table, 'k, 'v) dict_pass \<Rightarrow> 'k \<times> 'v \<Rightarrow>
    (('m, 'kv, 'vk, 'kk, 'c) dict_table, 'k, 'v) dict_pass \<times> unit res" where
  "dict_pass1 E st kv =
     (case st of (s, b1, b2) \<Rightarrow> case kv of (k, v) \<Rightarrow>
        (case cache_lookup E s v of
           (Some birth_id, s1) \<Rightarrow> with_batches (put_key E s1 k birth_id) (b1 @ [(birth_id, k)]) b2
         | (None, s1) \<Rightarrow>
             (case tbl_get (de_vk E) (value_to_dict_pk s1) v of
                Inl e \<Rightarrow> ((s1, b1, b2), Inl e)
              | Inr (Some birth_id) \<Rightarrow>
                  with_batches (put_key E (cache_store E s1 v birth_id) k birth_id) (b1 @ [(birth_id, k)]) b2
              | Inr None \<Rightarrow>
                  with_batches (try_then (put_key E s1 k k) (\<lambda>s2 _.
                         try_then (put_value E s2 k v) (\<lambda>s3 _. (cache_store E s3 v k, Inr ()))))
                    (b1 @ [(k, k)]) (b2 @ [(v, k)]))))"

definition dict_insert_many :: "('m, 'kv, 'vk, 'kk, 'c, 'k, 'v, 'ck) dict_env \<Rightarrow>
    ('m, 'kv, 'vk, 'kk, 'c) dict_table \<Rightarrow> ('k \<times> 'v) list \<Rightarrow> ('m, 'kv, 'vk, 'kk, 'c) dict_table \<times> unit res" where
  "dict_insert_many E s pairs =
     (case for_each (dict_pass1 E) (s, [], []) pairs of
        ((s1, b1, b2), Inl e) \<Rightarrow> (s1, Inl e)
      | ((s1, b1, b2), Inr _) \<Rightarrow>
          try_then (for_each (\<lambda>s p. put_birth E s (fst p) (snd p)) s1 (sort (key fst (de_key_cmp E)) b1))
            (\<lambda>s2 _. for_each (\<lambda>s p. put_reverse E s (fst p) (snd p)) s2 (sort (key fst (de_value_cmp E)) b2)))"

definition dict_delete_kv :: "('m, 'kv, 'vk, 'kk, 'c, 'k, 'v, 'ck) dict_env \<Rightarrow>
    ('m, 'kv, 'vk, 'kk, 'c) dict_table \<Rightarrow> 'k \<Rightarrow> ('m, 'kv, 'vk, 'kk, 'c) dict_table \<times> bool res" where
  "dict_delete_kv E s k =
     (case tbl_remove (de_kk E) (dict_pk_by_key s) k of (t, r) \<Rightarrow>
        try_then (s\<lparr>dict_pk_by_key := t\<rparr>, r) (\<lambda>s1 found.
          case found of
            None \<Rightarrow> (s1, Inr False)
          | Some birth_id \<Rightarrow>
              (case mm_remove (de_mm E) (dict_pk_to_keys s1) birth_id k of (m', r') \<Rightarrow>
                 try_then (s1\<lparr>dict_pk_to_keys := m'\<rparr>, r') (\<lambda>s2 was_removed.
                   try_then (s2, mm_get (de_mm E) (dict_pk_to_keys s2) birth_id) (\<lambda>s3 ids.
                     if ids \<noteq> [] then (s3, Inr was_removed)
                     else (case tbl_remove (de_kv E) (value_by_dict_pk s3) birth_id of (t', r'') \<Rightarrow>
                       try_then (s3\<lparr>value_by_dict_pk := t'\<rparr>, r'') (\<lambda>s4 value.
                         case value of
                           None \<Rightarrow> (s4, Inr was_removed)
                         | Some v \<Rightarrow>
                             (case tbl_remove (de_vk E) (value_to_dict_pk s4) v of (t'', r3) \<Rightarrow>
                                try_then (s4\<lparr>value_to_dict_pk := t''\<rparr>, r3) (\<lambda>s5 _.
                                  (s5\<lparr>dt_cache := map_option (\<lambda>c. lru_pop (de_lru E) c (de_cache_key E v)) (dt_cache s5)\<rparr>,
                                   Inr was_removed))))))))))"

definition dict_ops :: "('m, 'kv, 'vk, 'kk, 'c, 'k, 'v, 'ck) dict_env \<Rightarrow>
    (('m, 'kv, 'vk, 'kk, 'c) dict_table, 'k, 'v) write_table_ops" where
  "dict_ops E =
     \<lparr>wt_insert_kv = dict_insert_kv E, wt_insert_many = dict_insert_many E, wt_delete_kv = dict_delete_kv E,
      wt_get_any = (\<lambda>_ _. None), wt_range = (\<lambda>_ _ _. None)\<rparr>"

subsection \<open>The abstract dictionary\<close>

record ('k, 'v) dict =
  keys_of :: "'k \<Rightarrow> 'k set"
  value_of :: "'k \<rightharpoonup> 'v"
  birth_of :: "'v \<rightharpoonup> 'k"
  birth_by :: "'k \<rightharpoonup> 'k"

text \<open>
  The keys of a birth id are the keys sent to it; values and birth ids are in bijection; and a birth
  id has a value exactly as long as it has a key.
\<close>

definition dict_ok :: "('k, 'v) dict \<Rightarrow> bool" where
  "dict_ok d \<longleftrightarrow>
     (\<forall>k b. k \<in> keys_of d b \<longleftrightarrow> birth_by d k = Some b) \<and>
     (\<forall>v b. birth_of d v = Some b \<longleftrightarrow> value_of d b = Some v) \<and>
     (\<forall>b. value_of d b = None \<longleftrightarrow> keys_of d b = {})"

definition dict_contents :: "('k, 'v) dict \<Rightarrow> 'k \<rightharpoonup> 'v" where
  "dict_contents d k = Option.bind (birth_by d k) (value_of d)"

definition dict_insert :: "'k \<Rightarrow> 'v \<Rightarrow> ('k, 'v) dict \<Rightarrow> ('k, 'v) dict" where
  "dict_insert k v d =
     (case birth_of d v of
        Some b \<Rightarrow> d\<lparr>keys_of := (keys_of d)(b := insert k (keys_of d b)), birth_by := (birth_by d)(k \<mapsto> b)\<rparr>
      | None \<Rightarrow> d\<lparr>keys_of := (keys_of d)(k := insert k (keys_of d k)), value_of := (value_of d)(k \<mapsto> v),
                 birth_of := (birth_of d)(v \<mapsto> k), birth_by := (birth_by d)(k \<mapsto> k)\<rparr>)"

definition dict_remove :: "'k \<Rightarrow> ('k, 'v) dict \<Rightarrow> ('k, 'v) dict" where
  "dict_remove k d =
     (case birth_by d k of
        None \<Rightarrow> d
      | Some b \<Rightarrow>
          let ks = keys_of d b - {k}; d' = d\<lparr>keys_of := (keys_of d)(b := ks), birth_by := (birth_by d)(k := None)\<rparr>
          in if ks \<noteq> {} then d'
             else (case value_of d b of
                     None \<Rightarrow> d'
                   | Some v \<Rightarrow> d'\<lparr>value_of := (value_of d)(b := None), birth_of := (birth_of d)(v := None)\<rparr>))"

text \<open>A key may be inserted when it keeps its value, or when it is neither a key nor a live birth id.\<close>

definition dict_insertable :: "('k, 'v) dict \<Rightarrow> 'k \<Rightarrow> 'v \<Rightarrow> bool" where
  "dict_insertable d k v \<longleftrightarrow>
     dict_contents d k = Some v \<or> (birth_by d k = None \<and> value_of d k = None)"

lemma dict_okD:
  assumes "dict_ok d"
  shows "k \<in> keys_of d b \<longleftrightarrow> birth_by d k = Some b" and "birth_of d v = Some b \<longleftrightarrow> value_of d b = Some v"
    and "value_of d b = None \<longleftrightarrow> keys_of d b = {}"
  using assms by (auto simp: dict_ok_def)

lemma dict_ok_inj: "dict_ok d \<Longrightarrow> value_of d b = Some v \<Longrightarrow> value_of d b' = Some v \<Longrightarrow> b' = b"
  by (metis dict_okD(2) option.inject)

lemma dict_insert_ok:
  assumes ok: "dict_ok d" and ins: "dict_insertable d k v"
  shows "dict_ok (dict_insert k v d)" and "dict_contents (dict_insert k v d) = (dict_contents d)(k \<mapsto> v)"
proof -
  have unborn: "value_of d k = None \<Longrightarrow> birth_by d k' \<noteq> Some k" for k'
    using dict_okD[OF ok] by (metis empty_iff)
  show "dict_ok (dict_insert k v d)"
  proof (cases "birth_of d v")
    case None
    then have "dict_contents d k \<noteq> Some v"
      using dict_okD(2)[OF ok, of v] by (auto simp: dict_contents_def bind_eq_Some_conv)
    then have "birth_by d k = None" "value_of d k = None" using ins by (auto simp: dict_insertable_def)
    moreover have "value_of d b \<noteq> Some v" for b using None dict_okD(2)[OF ok, of v b] by auto
    moreover have "value_of d k \<noteq> Some x" for x using calculation(2) by simp
    ultimately show ?thesis using None dict_okD[OF ok] unborn by (auto simp: dict_insert_def dict_ok_def)
  next
    case (Some b)
    then have "value_of d b = Some v" using dict_okD(2)[OF ok] by simp
    then have "birth_by d k = None \<or> birth_by d k = Some b"
      using ins unfolding dict_insertable_def dict_contents_def bind_eq_Some_conv
      by (blast dest: dict_ok_inj[OF ok])
    moreover have eq: "dict_insert k v d =
        d\<lparr>keys_of := (keys_of d)(b := insert k (keys_of d b)), birth_by := (birth_by d)(k \<mapsto> b)\<rparr>"
      using Some by (simp add: dict_insert_def)
    ultimately have "k' \<in> keys_of (dict_insert k v d) b' \<longleftrightarrow> birth_by (dict_insert k v d) k' = Some b'" for k' b'
      using dict_okD(1)[OF ok] by auto
    moreover have "value_of d b' = None \<longleftrightarrow> keys_of (dict_insert k v d) b' = {}" for b'
      using dict_okD(3)[OF ok, of b'] \<open>value_of d b = Some v\<close> eq by auto
    ultimately show ?thesis unfolding dict_ok_def using dict_okD(2)[OF ok] eq by simp
  qed
  show "dict_contents (dict_insert k v d) = (dict_contents d)(k \<mapsto> v)"
  proof (cases "birth_of d v")
    case None
    then have "dict_contents d k \<noteq> Some v"
      using dict_okD(2)[OF ok, of v] by (auto simp: dict_contents_def bind_eq_Some_conv)
    then have "birth_by d k = None" "value_of d k = None" using ins by (auto simp: dict_insertable_def)
    with None unborn show ?thesis
      by (auto simp: dict_insert_def dict_contents_def fun_eq_iff Option.bind_eq_Some_conv split: bind_split)
  next
    case (Some b)
    with dict_okD(2)[OF ok, of v b] show ?thesis
      by (auto simp: dict_insert_def dict_contents_def fun_eq_iff)
  qed
qed

lemma dict_insertable_other:
  assumes "dict_ok d" and "dict_insertable d k v" and "dict_insertable d k' v'" and "k \<noteq> k'"
  shows "dict_insertable (dict_insert k v d) k' v'"
  using assms(3) unfolding dict_insertable_def
proof
  assume "dict_contents d k' = Some v'"
  with dict_insert_ok(2)[OF assms(1,2)] assms(4)
  show "dict_contents (dict_insert k v d) k' = Some v' \<or>
        (birth_by (dict_insert k v d) k' = None \<and> value_of (dict_insert k v d) k' = None)" by simp
qed (use assms(4) in \<open>auto simp: dict_insert_def split: option.split\<close>)

lemma dict_remove_ok:
  assumes ok: "dict_ok d"
  shows "dict_ok (dict_remove k d)" and "dict_contents (dict_remove k d) = (dict_contents d)(k := None)"
proof -
  note D = dict_okD[OF ok]
  show "dict_ok (dict_remove k d)"
  proof (cases "birth_by d k")
    case None
    with ok show ?thesis by (simp add: dict_remove_def)
  next
    case (Some b)
    then have "keys_of d b \<noteq> {}" using D(1) by blast
    then obtain v where v: "value_of d b = Some v" using D(3) by blast
    show ?thesis
    proof (cases "keys_of d b - {k} = {}")
      case True
      have eq: "dict_remove k d = d\<lparr>keys_of := (keys_of d)(b := keys_of d b - {k}), birth_by := (birth_by d)(k := None),
                  value_of := (value_of d)(b := None), birth_of := (birth_of d)(v := None)\<rparr>"
        using True Some v by (simp add: dict_remove_def Let_def)
      have "birth_by d k' = Some b \<longleftrightarrow> k' = k" for k' using True Some D(1) by blast
      moreover have "birth_by d k = Some b' \<longleftrightarrow> b' = b" for b' using Some by auto
      moreover have "birth_of d v' = Some b \<longleftrightarrow> v' = v" for v' using D(2) v by auto
      moreover have "value_of d b' = Some v \<longleftrightarrow> b' = b" for b' using dict_ok_inj[OF ok v, of b'] v by auto
      ultimately show ?thesis unfolding eq dict_ok_def using D True by auto
    next
      case False
      then have "dict_remove k d = d\<lparr>keys_of := (keys_of d)(b := keys_of d b - {k}), birth_by := (birth_by d)(k := None)\<rparr>"
        using Some by (simp add: dict_remove_def Let_def)
      with False Some v D show ?thesis by (auto simp: dict_ok_def)
    qed
  qed
  show "dict_contents (dict_remove k d) = (dict_contents d)(k := None)"
  proof (cases "birth_by d k")
    case None
    then show ?thesis by (auto simp: dict_remove_def dict_contents_def)
  next
    case (Some b)
    have "keys_of d b - {k} = {} \<Longrightarrow> birth_by d k' = Some b \<Longrightarrow> k' = k" for k' using D(1) by blast
    with Some show ?thesis
      by (auto simp: dict_remove_def dict_contents_def Let_def fun_eq_iff split: option.split bind_split)
  qed
qed

subsection \<open>The stores as an abstract dictionary\<close>

record ('m, 'kv, 'vk, 'kk, 'c, 'k, 'v, 'ck) dict_views =
  dv_mm :: "'m \<Rightarrow> 'k \<Rightarrow> 'k set"
  dv_kv :: "'kv \<Rightarrow> 'k \<rightharpoonup> 'v"
  dv_vk :: "'vk \<Rightarrow> 'v \<rightharpoonup> 'k"
  dv_kk :: "'kk \<Rightarrow> 'k \<rightharpoonup> 'k"
  dv_lru :: "'c \<Rightarrow> 'ck \<rightharpoonup> 'k"

definition dict_laws ::
    "'k comparator \<Rightarrow> ('m, 'kv, 'vk, 'kk, 'c, 'k, 'v, 'ck) dict_env \<Rightarrow> ('m, 'kv, 'vk, 'kk, 'c, 'k, 'v, 'ck) dict_views \<Rightarrow> bool" where
  "dict_laws cmp E V \<longleftrightarrow>
     multimap_laws cmp (de_mm E) (dv_mm V) \<and> multimap_total (de_mm E) \<and>
     table_laws (de_kv E) (dv_kv V) \<and> table_total (de_kv E) \<and>
     table_laws (de_vk E) (dv_vk V) \<and> table_total (de_vk E) \<and>
     table_laws (de_kk E) (dv_kk V) \<and> table_total (de_kk E) \<and>
     lru_laws (de_lru E) (dv_lru V) \<and> inj (de_cache_key E)"

definition dict_abs ::
    "('m, 'kv, 'vk, 'kk, 'c, 'k, 'v, 'ck) dict_views \<Rightarrow> ('m, 'kv, 'vk, 'kk, 'c) dict_table \<Rightarrow> ('k, 'v) dict" where
  "dict_abs V s = \<lparr>keys_of = dv_mm V (dict_pk_to_keys s), value_of = dv_kv V (value_by_dict_pk s),
     birth_of = dv_vk V (value_to_dict_pk s), birth_by = dv_kk V (dict_pk_by_key s)\<rparr>"

text \<open>A cached birth id is the birth id of its value.\<close>

definition dict_cache_sound ::
    "('m, 'kv, 'vk, 'kk, 'c, 'k, 'v, 'ck) dict_env \<Rightarrow> ('m, 'kv, 'vk, 'kk, 'c, 'k, 'v, 'ck) dict_views \<Rightarrow> 'c option \<Rightarrow> ('v \<rightharpoonup> 'k) \<Rightarrow> bool" where
  "dict_cache_sound E V co births \<longleftrightarrow>
     (\<forall>c v b. co = Some c \<longrightarrow> dv_lru V c (de_cache_key E v) = Some b \<longrightarrow> births v = Some b)"

definition dict_inv ::
    "'k comparator \<Rightarrow> ('m, 'kv, 'vk, 'kk, 'c, 'k, 'v, 'ck) dict_env \<Rightarrow> ('m, 'kv, 'vk, 'kk, 'c, 'k, 'v, 'ck) dict_views \<Rightarrow> ('m, 'kv, 'vk, 'kk, 'c) dict_table \<Rightarrow> bool" where
  "dict_inv cmp E V s \<longleftrightarrow>
     dict_laws cmp E V \<and> dict_ok (dict_abs V s) \<and> dict_cache_sound E V (dt_cache s) (birth_of (dict_abs V s))"

lemma dict_lawsD:
  assumes "dict_laws cmp E V"
  shows "multimap_laws cmp (de_mm E) (dv_mm V)" "multimap_total (de_mm E)" "table_laws (de_kv E) (dv_kv V)"
    "table_total (de_kv E)" "table_laws (de_vk E) (dv_vk V)" "table_total (de_vk E)"
    "table_laws (de_kk E) (dv_kk V)" "table_total (de_kk E)" "lru_laws (de_lru E) (dv_lru V)" "inj (de_cache_key E)"
  using assms by (auto simp: dict_laws_def)

lemma put_key_ok:
  assumes "dict_laws cmp E V"
  shows "\<exists>t. put_key E s k b = (s\<lparr>dict_pk_by_key := t\<rparr>, Inr ()) \<and> dv_kk V t = (dv_kk V (dict_pk_by_key s))(k \<mapsto> b)"
  using total_insert[OF dict_lawsD(7,8)[OF assms], of "dict_pk_by_key s" k b] by (auto simp: put_key_def)

lemma put_value_ok:
  assumes "dict_laws cmp E V"
  shows "\<exists>t. put_value E s k v = (s\<lparr>value_by_dict_pk := t\<rparr>, Inr ()) \<and> dv_kv V t = (dv_kv V (value_by_dict_pk s))(k \<mapsto> v)"
  using total_insert[OF dict_lawsD(3,4)[OF assms], of "value_by_dict_pk s" k v] by (auto simp: put_value_def)

lemma put_reverse_ok:
  assumes "dict_laws cmp E V"
  shows "\<exists>t. put_reverse E s v b = (s\<lparr>value_to_dict_pk := t\<rparr>, Inr ()) \<and> dv_vk V t = (dv_vk V (value_to_dict_pk s))(v \<mapsto> b)"
  using total_insert[OF dict_lawsD(5,6)[OF assms], of "value_to_dict_pk s" v b] by (auto simp: put_reverse_def)

lemma put_birth_ok:
  assumes "dict_laws cmp E V"
  shows "\<exists>t. put_birth E s b k = (s\<lparr>dict_pk_to_keys := t\<rparr>, Inr ()) \<and>
             dv_mm V t = (dv_mm V (dict_pk_to_keys s))(b := insert k (dv_mm V (dict_pk_to_keys s) b))"
  using mm_total_insert[OF dict_lawsD(1,2)[OF assms], of "dict_pk_to_keys s" b k] by (auto simp: put_birth_def)

text \<open>The cache changes nothing but the cache, and stays sound.\<close>

lemma cache_lookup_ok:
  assumes "dict_laws cmp E V" and "dict_cache_sound E V (dt_cache s) births"
  shows "\<exists>co. cache_lookup E s v = (Option.bind (dt_cache s) (\<lambda>c. dv_lru V c (de_cache_key E v)), s\<lparr>dt_cache := co\<rparr>) \<and>
              map_option (dv_lru V) co = map_option (dv_lru V) (dt_cache s)"
proof (cases "dt_cache s")
  case None
  then have "s\<lparr>dt_cache := None\<rparr> = s" by simp
  with None show ?thesis by (auto simp: cache_lookup_def)
next
  case (Some c)
  obtain r c' where get: "lru_get (de_lru E) c (de_cache_key E v) = (r, c')" by fastforce
  with lruD(3,4)[OF dict_lawsD(9)[OF assms(1)], of c "de_cache_key E v"] Some show ?thesis
    by (auto simp: cache_lookup_def)
qed

lemma sound_view_cong:
  assumes "map_option (dv_lru V) co = map_option (dv_lru V) co'" and "dict_cache_sound E V co' births"
  shows "dict_cache_sound E V co births"
  using assms by (cases co; cases co') (auto simp: dict_cache_sound_def)

lemma sound_store:
  assumes "dict_laws cmp E V" and "dict_cache_sound E V (dt_cache s) births" and "births' v = Some b"
    and "\<And>v' b'. births v' = Some b' \<Longrightarrow> births' v' = Some b'"
  shows "dict_cache_sound E V (dt_cache (cache_store E s v b)) births'"
proof -
  have "births' v' = Some b'"
    if c: "dt_cache s = Some c" and hit: "dv_lru V (lru_put (de_lru E) c (de_cache_key E v) b) (de_cache_key E v') = Some b'"
    for c v' b'
  proof -
    have "((dv_lru V c)(de_cache_key E v \<mapsto> b)) (de_cache_key E v') = Some b'"
      using lruD(1)[OF dict_lawsD(9)[OF assms(1)]] hit by (metis domI map_le_def)
    then have "de_cache_key E v' = de_cache_key E v \<and> b' = b \<or> dv_lru V c (de_cache_key E v') = Some b'"
      by (metis fun_upd_apply option.inject)
    with dict_lawsD(10)[OF assms(1)] assms(2-4) c show ?thesis by (auto simp: dict_cache_sound_def inj_eq)
  qed
  then show ?thesis by (auto simp: dict_cache_sound_def cache_store_def)
qed

subsection \<open>The single operations implement the abstract ones\<close>

lemma dict_abs_simps [simp]:
  "keys_of (dict_abs V s) = dv_mm V (dict_pk_to_keys s)" "value_of (dict_abs V s) = dv_kv V (value_by_dict_pk s)"
  "birth_of (dict_abs V s) = dv_vk V (value_to_dict_pk s)" "birth_by (dict_abs V s) = dv_kk V (dict_pk_by_key s)"
  by (simp_all add: dict_abs_def)

lemma cache_store_fields [simp]:
  "dict_pk_to_keys (cache_store E s v b) = dict_pk_to_keys s" "value_by_dict_pk (cache_store E s v b) = value_by_dict_pk s"
  "value_to_dict_pk (cache_store E s v b) = value_to_dict_pk s" "dict_pk_by_key (cache_store E s v b) = dict_pk_by_key s"
  by (simp_all add: cache_store_def)

text \<open>Writing a key under a known birth id.\<close>

lemma put_known_ok:
  assumes "dict_laws cmp E V"
  shows "\<exists>s'. try_then (put_key E s k b) (\<lambda>s2 _. put_birth E s2 b k) = (s', Inr ()) \<and> dt_cache s' = dt_cache s \<and>
     dict_abs V s' = (dict_abs V s)\<lparr>keys_of := (keys_of (dict_abs V s))(b := insert k (keys_of (dict_abs V s) b)),
                                   birth_by := (birth_by (dict_abs V s))(k \<mapsto> b)\<rparr>"
proof -
  from put_key_ok[OF assms, of s k b] obtain t where
    t: "put_key E s k b = (s\<lparr>dict_pk_by_key := t\<rparr>, Inr ())" "dv_kk V t = (dv_kk V (dict_pk_by_key s))(k \<mapsto> b)" by blast
  from put_birth_ok[OF assms, of "s\<lparr>dict_pk_by_key := t\<rparr>" b k] t show ?thesis
    by (auto simp: dict_abs_def)
qed

text \<open>Writing a key with a new value.\<close>

lemma put_new_ok:
  assumes "dict_laws cmp E V"
  shows "\<exists>s'. try_then (put_reverse E s v k) (\<lambda>s3 _. try_then (put_value E s3 k v) (\<lambda>s4 _.
                try_then (put_key E s4 k k) (\<lambda>s5 _. try_then (put_birth E s5 k k) (\<lambda>s6 _. (cache_store E s6 v k, Inr ()))))) =
              (s', Inr ()) \<and> dt_cache s' = dt_cache (cache_store E s v k) \<and>
     dict_abs V s' = (dict_abs V s)\<lparr>keys_of := (keys_of (dict_abs V s))(k := insert k (keys_of (dict_abs V s) k)),
        value_of := (value_of (dict_abs V s))(k \<mapsto> v), birth_of := (birth_of (dict_abs V s))(v \<mapsto> k),
        birth_by := (birth_by (dict_abs V s))(k \<mapsto> k)\<rparr>"
proof -
  from put_reverse_ok[OF assms, of s v k] obtain t1 where
    t1: "put_reverse E s v k = (s\<lparr>value_to_dict_pk := t1\<rparr>, Inr ())" "dv_vk V t1 = (dv_vk V (value_to_dict_pk s))(v \<mapsto> k)" by blast
  let ?s1 = "s\<lparr>value_to_dict_pk := t1\<rparr>"
  from put_value_ok[OF assms, of ?s1 k v] obtain t2 where
    t2: "put_value E ?s1 k v = (?s1\<lparr>value_by_dict_pk := t2\<rparr>, Inr ())" "dv_kv V t2 = (dv_kv V (value_by_dict_pk s))(k \<mapsto> v)" by auto
  let ?s2 = "?s1\<lparr>value_by_dict_pk := t2\<rparr>"
  from put_key_ok[OF assms, of ?s2 k k] obtain t3 where
    t3: "put_key E ?s2 k k = (?s2\<lparr>dict_pk_by_key := t3\<rparr>, Inr ())" "dv_kk V t3 = (dv_kk V (dict_pk_by_key s))(k \<mapsto> k)" by auto
  from put_birth_ok[OF assms, of "?s2\<lparr>dict_pk_by_key := t3\<rparr>" k k] t1 t2 t3 show ?thesis
    by (auto simp: dict_abs_def cache_store_def)
qed

text \<open>Insertion implements the insertion of the abstract dictionary, through the cache or past it.\<close>

lemma dict_insert_kv_refines:
  assumes laws: "dict_laws cmp E V" and sound: "dict_cache_sound E V (dt_cache s) (birth_of (dict_abs V s))"
  shows "\<exists>s'. dict_insert_kv E s k v = (s', Inr ()) \<and> dict_abs V s' = dict_insert k v (dict_abs V s) \<and>
              dict_cache_sound E V (dt_cache s') (birth_of (dict_abs V s'))"
proof -
  from cache_lookup_ok[OF laws sound, of v] obtain co where
    look: "cache_lookup E s v = (Option.bind (dt_cache s) (\<lambda>c. dv_lru V c (de_cache_key E v)), s\<lparr>dt_cache := co\<rparr>)"
    and co: "map_option (dv_lru V) co = map_option (dv_lru V) (dt_cache s)" by blast
  let ?s1 = "s\<lparr>dt_cache := co\<rparr>"
  have abs1: "dict_abs V ?s1 = dict_abs V s" by (simp add: dict_abs_def)
  have sound1: "dict_cache_sound E V (dt_cache ?s1) (birth_of (dict_abs V ?s1))"
    using sound_view_cong[OF co sound] abs1 by simp
  show ?thesis
  proof (cases "Option.bind (dt_cache s) (\<lambda>c. dv_lru V c (de_cache_key E v))")
    case (Some b)
    then have "birth_of (dict_abs V s) v = Some b"
      using sound by (auto simp: dict_cache_sound_def bind_eq_Some_conv)
    with put_known_ok[OF laws, of ?s1 k b] look Some sound1 abs1 show ?thesis
      by (auto simp: dict_insert_kv_def dict_insert_def simp del: dict_abs_simps)
  next
    case None
    have get: "tbl_get (de_vk E) (value_to_dict_pk ?s1) v = Inr (birth_of (dict_abs V s) v)"
      using total_get[OF dict_lawsD(5,6)[OF laws]] by simp
    show ?thesis
    proof (cases "birth_of (dict_abs V s) v")
      case (Some b)
      have "dict_cache_sound E V (dt_cache (cache_store E ?s1 v b)) (birth_of (dict_abs V s))"
        using sound_store[OF laws sound1, of "birth_of (dict_abs V s)" v b] Some abs1 by simp
      moreover have "dict_abs V (cache_store E ?s1 v b) = dict_abs V s" by (simp add: dict_abs_def)
      ultimately show ?thesis
        using put_known_ok[OF laws, of "cache_store E ?s1 v b" k b] look None get Some
        by (auto simp: dict_insert_kv_def dict_insert_def simp del: dict_abs_simps)
    next
      case none: None
      have "dict_cache_sound E V (dt_cache (cache_store E ?s1 v k)) ((birth_of (dict_abs V s))(v \<mapsto> k))"
        by (rule sound_store[OF laws sound1]) (use none abs1 in \<open>auto split: if_splits\<close>)
      then show ?thesis
        using put_new_ok[OF laws, of ?s1 v k] look None get none abs1
        by (auto simp: dict_insert_kv_def dict_insert_def simp del: dict_abs_simps)
    qed
  qed
qed

text \<open>Deletion implements the removal of the abstract dictionary.\<close>

lemma dict_delete_kv_refines:
  assumes laws: "dict_laws cmp E V" and ok: "dict_ok (dict_abs V s)"
    and sound: "dict_cache_sound E V (dt_cache s) (birth_of (dict_abs V s))"
  shows "\<exists>s'. dict_delete_kv E s k = (s', Inr (k \<in> dom (dict_contents (dict_abs V s)))) \<and>
              dict_abs V s' = dict_remove k (dict_abs V s) \<and>
              dict_cache_sound E V (dt_cache s') (birth_of (dict_abs V s'))"
proof -
  let ?d = "dict_abs V s"
  note D = dict_okD[OF ok]
  from total_remove[OF dict_lawsD(7,8)[OF laws], of "dict_pk_by_key s" k] obtain t where
    t: "tbl_remove (de_kk E) (dict_pk_by_key s) k = (t, Inr (dv_kk V (dict_pk_by_key s) k))"
      "dv_kk V t = (dv_kk V (dict_pk_by_key s))(k := None)" by blast
  show ?thesis
  proof (cases "birth_by ?d k")
    case None
    then have "dict_abs V (s\<lparr>dict_pk_by_key := t\<rparr>) = ?d" using t(2) by (auto simp: dict_abs_def)
    with None t sound show ?thesis
      by (auto simp: dict_delete_kv_def dict_remove_def dict_contents_def)
  next
    case (Some b)
    have mem: "k \<in> keys_of ?d b" using Some D(1) by simp
    then obtain v where v: "value_of ?d b = Some v" using D(3)[of b] by (metis empty_iff not_None_eq)
    have dom: "k \<in> dom (dict_contents ?d)" using Some v by (auto simp: dict_contents_def)
    from mm_total_remove[OF dict_lawsD(1,2)[OF laws], of "dict_pk_to_keys s" b k] mem obtain m' where
      m': "mm_remove (de_mm E) (dict_pk_to_keys s) b k = (m', Inr True)"
        "dv_mm V m' = (dv_mm V (dict_pk_to_keys s))(b := dv_mm V (dict_pk_to_keys s) b - {k})" by auto
    from mm_total_get[OF dict_lawsD(1,2)[OF laws], of m' b] m'(2) obtain ids where
      ids: "mm_get (de_mm E) m' b = Inr ids" "set ids = keys_of ?d b - {k}" by auto
    let ?s2 = "s\<lparr>dict_pk_by_key := t, dict_pk_to_keys := m'\<rparr>"
    show ?thesis
    proof (cases "ids = []")
      case False
      then have "keys_of ?d b - {k} \<noteq> {}" using ids(2) by (metis set_empty)
      then have "dict_abs V ?s2 = dict_remove k ?d"
        using Some t(2) m'(2) by (simp add: dict_remove_def dict_abs_def Let_def)
      moreover have "dict_delete_kv E s k = (?s2, Inr True)"
        using t m' ids Some False by (simp add: dict_delete_kv_def)
      ultimately show ?thesis using dom sound by simp
    next
      case True
      then have empty: "keys_of ?d b - {k} = {}" using ids(2) by simp
      from total_remove[OF dict_lawsD(3,4)[OF laws], of "value_by_dict_pk s" b] v obtain t2 where
        t2: "tbl_remove (de_kv E) (value_by_dict_pk s) b = (t2, Inr (Some v))"
          "dv_kv V t2 = (dv_kv V (value_by_dict_pk s))(b := None)" by auto
      from total_remove[OF dict_lawsD(5,6)[OF laws], of "value_to_dict_pk s" v] obtain t3 r where
        t3: "tbl_remove (de_vk E) (value_to_dict_pk s) v = (t3, Inr r)"
          "dv_vk V t3 = (dv_vk V (value_to_dict_pk s))(v := None)" by auto
      let ?co = "map_option (\<lambda>c. lru_pop (de_lru E) c (de_cache_key E v)) (dt_cache s)"
      let ?s' = "?s2\<lparr>value_by_dict_pk := t2, value_to_dict_pk := t3, dt_cache := ?co\<rparr>"
      have "dict_abs V ?s' = dict_remove k ?d"
        using Some v empty t(2) m'(2) t2(2) t3(2) by (simp add: dict_remove_def dict_abs_def Let_def)
      moreover have "dict_delete_kv E s k = (?s', Inr True)"
        using t m' ids Some True t2 t3 by (simp add: dict_delete_kv_def)
      moreover have "dict_cache_sound E V ?co (dv_vk V t3)"
        using sound t3(2) lruD(5)[OF dict_lawsD(9)[OF laws]]
        by (fastforce simp: dict_cache_sound_def split: if_splits)
      ultimately show ?thesis using dom by simp
    qed
  qed
qed

subsection \<open>The batch implements the sequence of insertions\<close>

text \<open>
  During the first pass the deferred writes are missing from two of the stores. The dictionary they
  belong to is the one with the deferred writes applied.
\<close>

definition with_deferred :: "('k, 'v) dict \<Rightarrow> ('k \<times> 'k) list \<Rightarrow> ('v \<times> 'k) list \<Rightarrow> ('k, 'v) dict" where
  "with_deferred d b1 b2 =
     d\<lparr>keys_of := (\<lambda>b. keys_of d b \<union> {k. (b, k) \<in> set b1}), birth_of := birth_of d ++ map_of b2\<rparr>"

lemma with_deferred_simps [simp]:
  "keys_of (with_deferred d b1 b2) = (\<lambda>b. keys_of d b \<union> {k. (b, k) \<in> set b1})"
  "value_of (with_deferred d b1 b2) = value_of d" "birth_by (with_deferred d b1 b2) = birth_by d"
  "birth_of (with_deferred d b1 b2) = birth_of d ++ map_of b2"
  by (simp_all add: with_deferred_def)

text \<open>
  A deferred value is found again in the batch only through the cache. So either no value occurs
  twice, or there is a cache that evicts nothing.
\<close>

definition batch_visible ::
    "('m, 'kv, 'vk, 'kk, 'c, 'k, 'v, 'ck) dict_env \<Rightarrow> ('m, 'kv, 'vk, 'kk, 'c, 'k, 'v, 'ck) dict_views \<Rightarrow> ('m, 'kv, 'vk, 'kk, 'c) dict_table \<Rightarrow> ('k \<times> 'v) list \<Rightarrow> bool" where
  "batch_visible E V s pairs \<longleftrightarrow>
     distinct (map snd pairs) \<or> (dt_cache s \<noteq> None \<and> lru_roomy (de_lru E) (dv_lru V))"

definition cached :: "('m, 'kv, 'vk, 'kk, 'c, 'k, 'v, 'ck) dict_env \<Rightarrow> ('m, 'kv, 'vk, 'kk, 'c, 'k, 'v, 'ck) dict_views \<Rightarrow>
    ('m, 'kv, 'vk, 'kk, 'c) dict_table \<Rightarrow> 'v \<Rightarrow> 'k option" where
  "cached E V s v = Option.bind (dt_cache s) (\<lambda>c. dv_lru V c (de_cache_key E v))"

text \<open>What a round of the first pass keeps: \<open>ds\<close> are the pairs already passed.\<close>

definition pass_inv ::
    "('m, 'kv, 'vk, 'kk, 'c, 'k, 'v, 'ck) dict_env \<Rightarrow> ('m, 'kv, 'vk, 'kk, 'c, 'k, 'v, 'ck) dict_views \<Rightarrow> ('m, 'kv, 'vk, 'kk, 'c) dict_table \<Rightarrow> ('k \<times> 'v) list \<Rightarrow> (('m, 'kv, 'vk, 'kk, 'c) dict_table, 'k, 'v) dict_pass \<Rightarrow> bool" where
  "pass_inv E V s0 ds st \<longleftrightarrow>
     (case st of (s, b1, b2) \<Rightarrow>
        with_deferred (dict_abs V s) b1 b2 = foldl (\<lambda>d (k, v). dict_insert k v d) (dict_abs V s0) ds \<and>
        dict_cache_sound E V (dt_cache s) (birth_of (with_deferred (dict_abs V s) b1 b2)) \<and>
        distinct (map fst b2) \<and> fst ` set b2 \<subseteq> snd ` set ds \<and>
        (dt_cache s0 \<noteq> None \<longrightarrow> dt_cache s \<noteq> None) \<and>
        (dt_cache s0 \<noteq> None \<and> lru_roomy (de_lru E) (dv_lru V) \<longrightarrow> (\<forall>v\<in>fst ` set b2. cached E V s v \<noteq> None)))"

lemma cached_store_roomy:
  assumes "lru_roomy (de_lru E) (dv_lru V)" and "dt_cache s \<noteq> None"
  shows "cached E V (cache_store E s v b) v' =
         (if de_cache_key E v' = de_cache_key E v then Some b else cached E V s v')"
  using assms by (auto simp: cached_def cache_store_def lru_roomy_def)

text \<open>How a round changes the dictionary with the deferred writes applied.\<close>

lemma with_deferred_known:
  assumes "birth_of (with_deferred d b1 b2) v = Some b"
  shows "with_deferred (d\<lparr>birth_by := (birth_by d)(k \<mapsto> b)\<rparr>) (b1 @ [(b, k)]) b2 = dict_insert k v (with_deferred d b1 b2)"
proof -
  have "(\<lambda>b'. keys_of d b' \<union> {k'. (b', k') \<in> set (b1 @ [(b, k)])}) =
        (\<lambda>b'. keys_of d b' \<union> {k'. (b', k') \<in> set b1})(b := insert k (keys_of d b \<union> {k'. (b, k') \<in> set b1}))"
    by (auto simp: fun_eq_iff)
  with assms show ?thesis by (simp add: with_deferred_def dict_insert_def)
qed

lemma with_deferred_new:
  assumes "birth_of (with_deferred d b1 b2) v = None"
  shows "with_deferred (d\<lparr>birth_by := (birth_by d)(k \<mapsto> k), value_of := (value_of d)(k \<mapsto> v)\<rparr>) (b1 @ [(k, k)]) (b2 @ [(v, k)]) =
         dict_insert k v (with_deferred d b1 b2)"
proof -
  have "(\<lambda>b'. keys_of d b' \<union> {k'. (b', k') \<in> set (b1 @ [(k, k)])}) =
        (\<lambda>b'. keys_of d b' \<union> {k'. (b', k') \<in> set b1})(k := insert k (keys_of d k \<union> {k'. (k, k') \<in> set b1}))"
    by (auto simp: fun_eq_iff)
  moreover have "birth_of d ++ map_of (b2 @ [(v, k)]) = (birth_of d ++ map_of b2)(v \<mapsto> k)"
    using assms by (auto simp: fun_eq_iff map_add_def split: option.splits)
  moreover have "dict_insert k v (with_deferred d b1 b2) =
      (let w = with_deferred d b1 b2
       in w\<lparr>keys_of := (keys_of w)(k := insert k (keys_of w k)), value_of := (value_of w)(k \<mapsto> v),
            birth_of := (birth_of w)(v \<mapsto> k), birth_by := (birth_by w)(k \<mapsto> k)\<rparr>)"
    unfolding dict_insert_def Let_def assms by (simp only: option.case)
  ultimately show ?thesis by (simp add: with_deferred_def)
qed

lemma pass_invI:
  assumes "with_deferred (dict_abs V s) b1 b2 = foldl (\<lambda>d (k, v). dict_insert k v d) (dict_abs V s0) ds"
    and "dict_cache_sound E V (dt_cache s) (birth_of (with_deferred (dict_abs V s) b1 b2))"
    and "distinct (map fst b2)" and "fst ` set b2 \<subseteq> snd ` set ds"
    and "dt_cache s0 \<noteq> None \<longrightarrow> dt_cache s \<noteq> None"
    and "dt_cache s0 \<noteq> None \<and> lru_roomy (de_lru E) (dv_lru V) \<longrightarrow> (\<forall>v\<in>fst ` set b2. cached E V s v \<noteq> None)"
  shows "pass_inv E V s0 ds (s, b1, b2)"
  using assms unfolding pass_inv_def prod.case by blast

lemma pass_invD:
  assumes "pass_inv E V s0 ds (s, b1, b2)"
  shows "with_deferred (dict_abs V s) b1 b2 = foldl (\<lambda>d (k, v). dict_insert k v d) (dict_abs V s0) ds"
    and "dict_cache_sound E V (dt_cache s) (birth_of (with_deferred (dict_abs V s) b1 b2))"
    and "distinct (map fst b2)" and "fst ` set b2 \<subseteq> snd ` set ds"
    and "dt_cache s0 \<noteq> None \<longrightarrow> dt_cache s \<noteq> None"
    and "dt_cache s0 \<noteq> None \<and> lru_roomy (de_lru E) (dv_lru V) \<longrightarrow> (\<forall>v\<in>fst ` set b2. cached E V s v \<noteq> None)"
  using assms unfolding pass_inv_def prod.case by blast+

lemma pass_lookup:
  assumes laws: "dict_laws cmp E V" and R: "pass_inv E V s0 ds (s, b1, b2)"
  shows "\<exists>s1. cache_lookup E s v = (cached E V s v, s1) \<and> pass_inv E V s0 ds (s1, b1, b2) \<and>
              dict_abs V s1 = dict_abs V s \<and> (\<forall>v'. cached E V s1 v' = cached E V s v')"
proof -
  note D = pass_invD[OF R]
  from cache_lookup_ok[OF laws D(2), of v] obtain co where
    look: "cache_lookup E s v = (cached E V s v, s\<lparr>dt_cache := co\<rparr>)"
    and co: "map_option (dv_lru V) co = map_option (dv_lru V) (dt_cache s)" by (auto simp: cached_def)
  let ?s1 = "s\<lparr>dt_cache := co\<rparr>"
  have abs: "dict_abs V ?s1 = dict_abs V s" by (simp add: dict_abs_def)
  have same: "cached E V ?s1 v' = cached E V s v'" for v'
    using co by (cases co; cases "dt_cache s") (auto simp: cached_def)
  have sound: "dict_cache_sound E V (dt_cache ?s1) (birth_of (with_deferred (dict_abs V ?s1) b1 b2))"
    unfolding abs using sound_view_cong[OF co D(2)] by simp
  have fold: "with_deferred (dict_abs V ?s1) b1 b2 = foldl (\<lambda>d (k, v). dict_insert k v d) (dict_abs V s0) ds"
    unfolding abs by (rule D(1))
  have "pass_inv E V s0 ds (?s1, b1, b2)"
  proof (rule pass_invI[OF fold sound D(3,4)])
    show "dt_cache s0 \<noteq> None \<longrightarrow> dt_cache ?s1 \<noteq> None" using D(5) co by auto
    show "dt_cache s0 \<noteq> None \<and> lru_roomy (de_lru E) (dv_lru V) \<longrightarrow> (\<forall>v\<in>fst ` set b2. cached E V ?s1 v \<noteq> None)"
      unfolding same by (rule D(6))
  qed
  with look abs same show ?thesis by blast
qed

lemma pass_store:
  assumes laws: "dict_laws cmp E V" and R: "pass_inv E V s0 ds (s, b1, b2)"
    and b: "birth_of (with_deferred (dict_abs V s) b1 b2) v = Some b"
  shows "pass_inv E V s0 ds (cache_store E s v b, b1, b2)"
proof -
  note D = pass_invD[OF R]
  have abs: "dict_abs V (cache_store E s v b) = dict_abs V s" by (simp add: dict_abs_def)
  have some: "dt_cache s0 \<noteq> None \<longrightarrow> dt_cache (cache_store E s v b) \<noteq> None"
    using D(5) by (simp add: cache_store_def)
  show ?thesis
  proof (rule pass_invI)
    show "dict_cache_sound E V (dt_cache (cache_store E s v b)) (birth_of (with_deferred (dict_abs V (cache_store E s v b)) b1 b2))"
      unfolding abs using D(2) b by (rule sound_store[OF laws])
    show "dt_cache s0 \<noteq> None \<and> lru_roomy (de_lru E) (dv_lru V) \<longrightarrow>
          (\<forall>v'\<in>fst ` set b2. cached E V (cache_store E s v b) v' \<noteq> None)"
      using D(5,6) cached_store_roomy[of E V s v b] by simp
  qed (unfold abs, rule D(1), rule D(3), rule D(4), rule some)
qed

lemma pass_known:
  assumes laws: "dict_laws cmp E V" and R: "pass_inv E V s0 ds (s, b1, b2)"
    and b: "birth_of (with_deferred (dict_abs V s) b1 b2) v = Some b"
  shows "\<exists>s'. put_key E s k b = (s', Inr ()) \<and> pass_inv E V s0 (ds @ [(k, v)]) (s', b1 @ [(b, k)], b2)"
proof -
  note D = pass_invD[OF R] and new = with_deferred_known[OF b, of k]
  from put_key_ok[OF laws, of s k b] obtain t where
    t: "put_key E s k b = (s\<lparr>dict_pk_by_key := t\<rparr>, Inr ())" "dv_kk V t = (dv_kk V (dict_pk_by_key s))(k \<mapsto> b)" by blast
  let ?s' = "s\<lparr>dict_pk_by_key := t\<rparr>"
  have abs: "dict_abs V ?s' = (dict_abs V s)\<lparr>birth_by := (birth_by (dict_abs V s))(k \<mapsto> b)\<rparr>"
    using t(2) by (simp add: dict_abs_def)
  have births: "birth_of (dict_insert k v (with_deferred (dict_abs V s) b1 b2)) = birth_of (with_deferred (dict_abs V s) b1 b2)"
    using b by (simp add: dict_insert_def)
  have "pass_inv E V s0 (ds @ [(k, v)]) (?s', b1 @ [(b, k)], b2)"
  proof (rule pass_invI)
    show "with_deferred (dict_abs V ?s') (b1 @ [(b, k)]) b2 =
          foldl (\<lambda>d (k, v). dict_insert k v d) (dict_abs V s0) (ds @ [(k, v)])"
      unfolding abs new by (simp add: D(1))
    show "dict_cache_sound E V (dt_cache ?s') (birth_of (with_deferred (dict_abs V ?s') (b1 @ [(b, k)]) b2))"
      unfolding abs new births using D(2) by simp
  qed (use D(3-6) in \<open>auto simp: cached_def\<close>)
  with t show ?thesis by blast
qed

lemma pass_new:
  assumes laws: "dict_laws cmp E V" and R: "pass_inv E V s0 ds (s, b1, b2)"
    and b: "birth_of (with_deferred (dict_abs V s) b1 b2) v = None"
  shows "\<exists>s'. try_then (put_key E s k k) (\<lambda>s2 _. try_then (put_value E s2 k v) (\<lambda>s3 _. (cache_store E s3 v k, Inr ()))) =
                (s', Inr ()) \<and> pass_inv E V s0 (ds @ [(k, v)]) (s', b1 @ [(k, k)], b2 @ [(v, k)])"
proof -
  note D = pass_invD[OF R] and new = with_deferred_new[OF b, of k]
  let ?W = "with_deferred (dict_abs V s) b1 b2"
  from put_key_ok[OF laws, of s k k] obtain t where
    t: "put_key E s k k = (s\<lparr>dict_pk_by_key := t\<rparr>, Inr ())" "dv_kk V t = (dv_kk V (dict_pk_by_key s))(k \<mapsto> k)" by blast
  from put_value_ok[OF laws, of "s\<lparr>dict_pk_by_key := t\<rparr>" k v] obtain u where
    u: "put_value E (s\<lparr>dict_pk_by_key := t\<rparr>) k v = (s\<lparr>dict_pk_by_key := t, value_by_dict_pk := u\<rparr>, Inr ())"
      "dv_kv V u = (dv_kv V (value_by_dict_pk s))(k \<mapsto> v)" by auto
  let ?s2 = "s\<lparr>dict_pk_by_key := t, value_by_dict_pk := u\<rparr>"
  let ?s' = "cache_store E ?s2 v k"
  have abs: "dict_abs V ?s' = (dict_abs V s)\<lparr>birth_by := (birth_by (dict_abs V s))(k \<mapsto> k), value_of := (value_of (dict_abs V s))(k \<mapsto> v)\<rparr>"
    using t(2) u(2) by (simp add: dict_abs_def)
  have births: "birth_of (dict_insert k v ?W) = (birth_of ?W)(v \<mapsto> k)"
    unfolding dict_insert_def b by simp
  have fold: "with_deferred (dict_abs V ?s') (b1 @ [(k, k)]) (b2 @ [(v, k)]) =
      foldl (\<lambda>d (k, v). dict_insert k v d) (dict_abs V s0) (ds @ [(k, v)])"
    unfolding abs new by (simp add: D(1))
  have "dict_cache_sound E V (dt_cache ?s2) (birth_of ?W)" using D(2) by simp
  then have sound: "dict_cache_sound E V (dt_cache ?s') (birth_of (with_deferred (dict_abs V ?s') (b1 @ [(k, k)]) (b2 @ [(v, k)])))"
    unfolding abs new births by (rule sound_store[OF laws]) (use b in \<open>auto split: if_splits\<close>)
  have "v \<notin> fst ` set b2" using b by (simp add: map_of_eq_None_iff)
  moreover have "dt_cache s0 \<noteq> None \<longrightarrow> dt_cache ?s' \<noteq> None" using D(5) by (simp add: cache_store_def)
  moreover have "cached E V ?s' v' \<noteq> None"
    if "dt_cache s0 \<noteq> None" "lru_roomy (de_lru E) (dv_lru V)" "v' = v \<or> v' \<in> fst ` set b2" for v'
    using that D(5,6) cached_store_roomy[of E V ?s2 v k v'] by (auto simp: cached_def)
  ultimately have "pass_inv E V s0 (ds @ [(k, v)]) (?s', b1 @ [(k, k)], b2 @ [(v, k)])"
    by (intro pass_invI[OF fold sound]) (use D(3,4) in auto)
  with t u show ?thesis by simp
qed

lemma pass_round:
  assumes laws: "dict_laws cmp E V" and visible: "batch_visible E V s0 pairs"
    and split: "pairs = ds @ (k, v) # rest" and R: "pass_inv E V s0 ds (s, b1, b2)"
  shows "\<exists>st. dict_pass1 E (s, b1, b2) (k, v) = (st, Inr ()) \<and> pass_inv E V s0 (ds @ [(k, v)]) st"
proof -
  from pass_lookup[OF laws R, of v] obtain s1 where
    look: "cache_lookup E s v = (cached E V s v, s1)" and R1: "pass_inv E V s0 ds (s1, b1, b2)"
    and abs: "dict_abs V s1 = dict_abs V s" and same: "\<forall>v'. cached E V s1 v' = cached E V s v'" by blast
  let ?W = "with_deferred (dict_abs V s1) b1 b2"
  note D = pass_invD[OF R1]
  show ?thesis
  proof (cases "cached E V s v")
    case (Some b)
    then have "cached E V s1 v = Some b" using same by simp
    then have "birth_of ?W v = Some b"
      using D(2) by (auto simp: dict_cache_sound_def cached_def bind_eq_Some_conv)
    from pass_known[OF laws R1 this, of k] look Some show ?thesis
      by (auto simp: dict_pass1_def with_batches_def)
  next
    case None
    have "v \<notin> fst ` set b2" using visible None D(4-6) same split by (auto simp: batch_visible_def)
    then have births: "birth_of ?W v = birth_of (dict_abs V s1) v" 
      by (metis map_add_dom_app_simps(3) map_of_eq_None_iff domIff with_deferred_simps(4))
    have get: "tbl_get (de_vk E) (value_to_dict_pk s1) v = Inr (birth_of ?W v)"
      using total_get[OF dict_lawsD(5,6)[OF laws]] births by simp
    show ?thesis
    proof (cases "birth_of ?W v")
      case (Some b)
      have "birth_of (with_deferred (dict_abs V (cache_store E s1 v b)) b1 b2) v = Some b"
        using Some by (simp add: dict_abs_def)
      from pass_known[OF laws pass_store[OF laws R1 Some] this, of k] look None get Some show ?thesis
        by (auto simp: dict_pass1_def with_batches_def)
    next
      case none: None
      from get have "tbl_get (de_vk E) (value_to_dict_pk s1) v = Inr None" unfolding none .
      with pass_new[OF laws R1 none, of k] look None show ?thesis
        by (auto simp: dict_pass1_def with_batches_def)
    qed
  qed
qed

text \<open>Flushing the two deferred lists, in whatever order.\<close>

lemma flush_births_ok:
  assumes laws: "dict_laws cmp E V"
  shows "\<exists>s'. for_each (\<lambda>s p. put_birth E s (fst p) (snd p)) s ps = (s', Inr ()) \<and> dt_cache s' = dt_cache s \<and>
              dict_abs V s' = (dict_abs V s)\<lparr>keys_of := (\<lambda>b. keys_of (dict_abs V s) b \<union> {k. (b, k) \<in> set ps})\<rparr>"
proof (rule for_each_invariant)
  fix ds and s1 :: "('b, 'c, 'd, 'e, 'f) dict_table" and x
  assume R: "dt_cache s1 = dt_cache s \<and>
    dict_abs V s1 = (dict_abs V s)\<lparr>keys_of := (\<lambda>b. keys_of (dict_abs V s) b \<union> {k. (b, k) \<in> set ds})\<rparr>"
  from put_birth_ok[OF laws, of s1 "fst x" "snd x"] obtain t where
    t: "put_birth E s1 (fst x) (snd x) = (s1\<lparr>dict_pk_to_keys := t\<rparr>, Inr ())"
      "dv_mm V t = (dv_mm V (dict_pk_to_keys s1))(fst x := insert (snd x) (dv_mm V (dict_pk_to_keys s1) (fst x)))" by blast
  have "dv_mm V (dict_pk_to_keys s1) = (\<lambda>b. dv_mm V (dict_pk_to_keys s) b \<union> {k. (b, k) \<in> set ds})"
    using arg_cong[OF conjunct2[OF R], of keys_of] by simp
  then have "dv_mm V t = (\<lambda>b. dv_mm V (dict_pk_to_keys s) b \<union> {k. (b, k) \<in> set (ds @ [x])})"
    using t(2) by (cases x) (auto simp: fun_eq_iff)
  moreover have "dv_kv V (value_by_dict_pk s1) = dv_kv V (value_by_dict_pk s)"
    "dv_vk V (value_to_dict_pk s1) = dv_vk V (value_to_dict_pk s)" "dv_kk V (dict_pk_by_key s1) = dv_kk V (dict_pk_by_key s)"
    using R by (simp_all add: dict_abs_def)
  ultimately show "\<exists>s'. put_birth E s1 (fst x) (snd x) = (s', Inr ()) \<and> dt_cache s' = dt_cache s \<and>
     dict_abs V s' = (dict_abs V s)\<lparr>keys_of := (\<lambda>b. keys_of (dict_abs V s) b \<union> {k. (b, k) \<in> set (ds @ [x])})\<rparr>"
    using t(1) R by (auto simp: dict_abs_def)
qed (simp add: dict_abs_def)

lemma flush_reverse_ok:
  assumes laws: "dict_laws cmp E V"
  shows "\<exists>s'. for_each (\<lambda>s p. put_reverse E s (fst p) (snd p)) s ps = (s', Inr ()) \<and> dt_cache s' = dt_cache s \<and>
              dict_abs V s' = (dict_abs V s)\<lparr>birth_of := birth_of (dict_abs V s) ++ map_of (rev ps)\<rparr>"
proof (rule for_each_invariant)
  fix ds and s1 :: "('b, 'c, 'd, 'e, 'f) dict_table" and x
  assume R: "dt_cache s1 = dt_cache s \<and>
    dict_abs V s1 = (dict_abs V s)\<lparr>birth_of := birth_of (dict_abs V s) ++ map_of (rev ds)\<rparr>"
  from put_reverse_ok[OF laws, of s1 "fst x" "snd x"] obtain t where
    t: "put_reverse E s1 (fst x) (snd x) = (s1\<lparr>value_to_dict_pk := t\<rparr>, Inr ())"
      "dv_vk V t = (dv_vk V (value_to_dict_pk s1))(fst x \<mapsto> snd x)" by blast
  have "dv_vk V (value_to_dict_pk s1) = dv_vk V (value_to_dict_pk s) ++ map_of (rev ds)"
    "dv_kv V (value_by_dict_pk s1) = dv_kv V (value_by_dict_pk s)"
    "dv_mm V (dict_pk_to_keys s1) = dv_mm V (dict_pk_to_keys s)" "dv_kk V (dict_pk_by_key s1) = dv_kk V (dict_pk_by_key s)"
    using R by (simp_all add: dict_abs_def)
  with t R show "\<exists>s'. put_reverse E s1 (fst x) (snd x) = (s', Inr ()) \<and> dt_cache s' = dt_cache s \<and>
     dict_abs V s' = (dict_abs V s)\<lparr>birth_of := birth_of (dict_abs V s) ++ map_of (rev (ds @ [x]))\<rparr>"
    by (cases x) (auto simp: dict_abs_def)
qed (simp add: dict_abs_def)

lemma map_of_permuted:
  assumes "distinct (map fst xs)" and "mset ys = mset xs"
  shows "map_of ys = map_of xs"
proof -
  have "distinct (map fst ys)" using assms by (metis mset_eq_imp_distinct_iff mset_map)
  with assms show ?thesis by (metis map_of_inject_set mset_eq_setD)
qed

text \<open>
  The batch reaches the dictionary that inserting the pairs one by one reaches, as long as every
  deferred value stays visible.
\<close>

lemma dict_insert_many_refines:
  assumes laws: "dict_laws cmp E V" and sound: "dict_cache_sound E V (dt_cache s) (birth_of (dict_abs V s))"
    and visible: "batch_visible E V s pairs"
  shows "\<exists>s'. dict_insert_many E s pairs = (s', Inr ()) \<and>
              dict_abs V s' = foldl (\<lambda>d (k, v). dict_insert k v d) (dict_abs V s) pairs \<and>
              dict_cache_sound E V (dt_cache s') (birth_of (dict_abs V s'))"
proof -
  have start: "pass_inv E V s [] (s, [], [])"
    by (rule pass_invI) (use sound in \<open>simp_all add: with_deferred_def\<close>)
  have "\<exists>st. for_each (dict_pass1 E) (s, [], []) pairs = (st, Inr ()) \<and> pass_inv E V s pairs st"
    by (rule for_each_invariant[of "pass_inv E V s"], rule start) (use pass_round[OF laws visible] in force)
  then obtain s1 b1 b2 where pass: "for_each (dict_pass1 E) (s, [], []) pairs = ((s1, b1, b2), Inr ())"
    and R: "pass_inv E V s pairs (s1, b1, b2)" by auto
  note D = pass_invD[OF R]
  let ?p1 = "sort (key fst (de_key_cmp E)) b1" and ?p2 = "sort (key fst (de_value_cmp E)) b2"
  from flush_births_ok[OF laws, of s1 ?p1] obtain s2 where
    s2: "for_each (\<lambda>s p. put_birth E s (fst p) (snd p)) s1 ?p1 = (s2, Inr ())" "dt_cache s2 = dt_cache s1"
      "dict_abs V s2 = (dict_abs V s1)\<lparr>keys_of := (\<lambda>b. keys_of (dict_abs V s1) b \<union> {k. (b, k) \<in> set ?p1})\<rparr>" by blast
  from flush_reverse_ok[OF laws, of s2 ?p2] obtain s3 where
    s3: "for_each (\<lambda>s p. put_reverse E s (fst p) (snd p)) s2 ?p2 = (s3, Inr ())" "dt_cache s3 = dt_cache s2"
      "dict_abs V s3 = (dict_abs V s2)\<lparr>birth_of := birth_of (dict_abs V s2) ++ map_of (rev ?p2)\<rparr>" by blast
  have "map_of (rev ?p2) = map_of b2" by (rule map_of_permuted[OF D(3)]) simp
  then have abs: "dict_abs V s3 = with_deferred (dict_abs V s1) b1 b2"
    unfolding s3(3) s2(3) by (simp add: with_deferred_def dict_abs_def)
  have "dict_insert_many E s pairs = (s3, Inr ())" using pass s2(1) s3(1) by (simp add: dict_insert_many_def)
  moreover have "dict_abs V s3 = foldl (\<lambda>d (k, v). dict_insert k v d) (dict_abs V s) pairs"
    unfolding abs by (rule D(1))
  moreover have "dict_cache_sound E V (dt_cache s3) (birth_of (dict_abs V s3))"
    unfolding abs s3(2) s2(2) by (rule D(2))
  ultimately show ?thesis by blast
qed

subsection \<open>A dictionary table implements the interface\<close>

abbreviation dt_contents where
  "dt_contents V s \<equiv> dict_contents (dict_abs V s)"

text \<open>Batches a dictionary accepts: distinct keys, each insertable, and every deferred value visible.\<close>

definition dt_batch_ok ::
    "('m, 'kv, 'vk, 'kk, 'c, 'k, 'v, 'ck) dict_env \<Rightarrow> ('m, 'kv, 'vk, 'kk, 'c, 'k, 'v, 'ck) dict_views \<Rightarrow>
     ('m, 'kv, 'vk, 'kk, 'c) dict_table \<Rightarrow> ('k \<times> 'v) list \<Rightarrow> bool" where
  "dt_batch_ok E V s pairs \<longleftrightarrow>
     distinct (map fst pairs) \<and> (\<forall>(k, v)\<in>set pairs. dict_insertable (dict_abs V s) k v) \<and> batch_visible E V s pairs"

lemma fold_insert_ok:
  assumes "dict_ok d" and "distinct (map fst pairs)" and "\<forall>(k, v)\<in>set pairs. dict_insertable d k v"
  shows "dict_ok (foldl (\<lambda>d (k, v). dict_insert k v d) d pairs) \<and>
         dict_contents (foldl (\<lambda>d (k, v). dict_insert k v d) d pairs) = dict_contents d ++ map_of (rev pairs)"
  using assms
proof (induction pairs arbitrary: d)
  case (Cons x pairs)
  obtain k v where x: "x = (k, v)" by (cases x)
  have ins: "dict_insertable d k v" using Cons.prems(3) x by simp
  note step = dict_insert_ok[OF Cons.prems(1) ins]
  have "\<forall>(k', v')\<in>set pairs. dict_insertable (dict_insert k v d) k' v'"
    using Cons.prems x dict_insertable_other[OF Cons.prems(1) ins] by fastforce
  with Cons.IH[OF step(1)] Cons.prems(2) step(2) x show ?case
    by (auto simp: map_add_def fun_eq_iff split: option.split)
qed simp

interpretation dict: write_table "dict_ops E" "dict_inv cmp E V" "dt_contents V"
  "\<lambda>s. dict_insertable (dict_abs V s)" "dt_batch_ok E V" for cmp E V
proof
  fix s and k :: 'f and v :: 'g and pairs
  assume inv: "dict_inv cmp E V s"
  then have laws: "dict_laws cmp E V" and ok: "dict_ok (dict_abs V s)"
    and sound: "dict_cache_sound E V (dt_cache s) (birth_of (dict_abs V s))" by (auto simp: dict_inv_def)
  show "\<exists>s'. wt_insert_kv (dict_ops E) s k v = (s', Inr ()) \<and> dict_inv cmp E V s' \<and>
             dt_contents V s' = (dt_contents V s)(k \<mapsto> v)" if "dict_insertable (dict_abs V s) k v"
    using dict_insert_kv_refines[OF laws sound, of k v] dict_insert_ok[OF ok that] laws
    by (auto simp: dict_ops_def dict_inv_def simp del: dict_abs_simps)
  show "\<exists>s'. wt_insert_many (dict_ops E) s pairs = (s', Inr ()) \<and> dict_inv cmp E V s' \<and>
             dt_contents V s' = dt_contents V s ++ map_of (rev pairs)" if "dt_batch_ok E V s pairs"
    using dict_insert_many_refines[OF laws sound, of pairs] fold_insert_ok[OF ok, of pairs] that laws
    by (auto simp: dict_ops_def dict_inv_def dt_batch_ok_def simp del: dict_abs_simps)
  show "\<exists>s'. wt_delete_kv (dict_ops E) s k = (s', Inr (k \<in> dom (dt_contents V s))) \<and> dict_inv cmp E V s' \<and>
             dt_contents V s' = (dt_contents V s)(k := None)"
    using dict_delete_kv_refines[OF laws ok sound, of k] dict_remove_ok[OF ok, of k] laws
    by (auto simp: dict_ops_def dict_inv_def simp del: dict_abs_simps)
qed

subsection \<open>Properties\<close>

lemma insert_sequence_refines:
  assumes laws: "dict_laws cmp E V" and sound: "dict_cache_sound E V (dt_cache s) (birth_of (dict_abs V s))"
  shows "\<exists>s'. for_each (\<lambda>s (k, v). dict_insert_kv E s k v) s pairs = (s', Inr ()) \<and>
              dict_abs V s' = foldl (\<lambda>d (k, v). dict_insert k v d) (dict_abs V s) pairs \<and>
              dict_cache_sound E V (dt_cache s') (birth_of (dict_abs V s'))"
proof (rule for_each_invariant)
  fix ds and s1 :: "('b, 'c, 'd, 'e, 'f) dict_table" and x
  assume R: "dict_abs V s1 = foldl (\<lambda>d (k, v). dict_insert k v d) (dict_abs V s) ds \<and>
    dict_cache_sound E V (dt_cache s1) (birth_of (dict_abs V s1))"
  from dict_insert_kv_refines[OF laws conjunct2[OF R], of "fst x" "snd x"] conjunct1[OF R]
  show "\<exists>s'. (case x of (k, v) \<Rightarrow> dict_insert_kv E s1 k v) = (s', Inr ()) \<and>
     dict_abs V s' = foldl (\<lambda>d (k, v). dict_insert k v d) (dict_abs V s) (ds @ [x]) \<and>
     dict_cache_sound E V (dt_cache s') (birth_of (dict_abs V s'))"
    by (cases x) (auto simp del: dict_abs_simps)
qed (use sound in simp)

text \<open>
  C29. The single operations of a dictionary table implement the abstract dictionary on a store that
  does not fail: an insertion, whether the cache or a table knows the value or neither does, is the
  insertion of the abstract dictionary, and a deletion is its removal and reports whether the key was
  there; the cache keeps pointing at true birth ids.
\<close>

theorem dict_ops_refine:
  assumes "dict_inv cmp E V s"
  shows "(\<exists>s'. dict_insert_kv E s k v = (s', Inr ()) \<and> dict_abs V s' = dict_insert k v (dict_abs V s) \<and>
              dict_cache_sound E V (dt_cache s') (birth_of (dict_abs V s'))) \<and>
         (\<exists>s'. dict_delete_kv E s k = (s', Inr (k \<in> dom (dt_contents V s))) \<and>
              dict_abs V s' = dict_remove k (dict_abs V s) \<and> dict_inv cmp E V s')"
  using assms dict_insert_kv_refines[of cmp E V s k v] dict_delete_kv_refines[of cmp E V s k]
    dict_remove_ok(1)[of "dict_abs V s" k]
  by (auto simp: dict_inv_def simp del: dict_abs_simps)

definition demo_dict_env ::
    "(nat \<Rightarrow> nat list, nat \<rightharpoonup> nat, nat \<rightharpoonup> nat, nat \<rightharpoonup> nat, nat \<rightharpoonup> nat, nat, nat, nat) dict_env" where
  "demo_dict_env = \<lparr>de_mm = list_multimap_ops, de_kv = map_table_ops, de_vk = map_table_ops, de_kk = map_table_ops,
     de_lru = map_lru_ops, de_cache_key = id, de_key_cmp = default, de_value_cmp = default\<rparr>"

definition demo_dict_views ::
    "(nat \<Rightarrow> nat list, nat \<rightharpoonup> nat, nat \<rightharpoonup> nat, nat \<rightharpoonup> nat, nat \<rightharpoonup> nat, nat, nat, nat) dict_views" where
  "demo_dict_views = \<lparr>dv_mm = (\<lambda>m k. set (m k)), dv_kv = (\<lambda>t. t), dv_vk = (\<lambda>t. t), dv_kk = (\<lambda>t. t), dv_lru = (\<lambda>c. c)\<rparr>"

definition demo_dict ::
    "(nat \<rightharpoonup> nat) option \<Rightarrow> (nat \<Rightarrow> nat list, nat \<rightharpoonup> nat, nat \<rightharpoonup> nat, nat \<rightharpoonup> nat, nat \<rightharpoonup> nat) dict_table" where
  "demo_dict c = \<lparr>dict_pk_to_keys = (\<lambda>_. []), value_by_dict_pk = Map.empty, value_to_dict_pk = Map.empty,
     dict_pk_by_key = Map.empty, dt_cache = c\<rparr>"

lemma demo_dict_inv: "dict_inv default demo_dict_env demo_dict_views (demo_dict (Some Map.empty))"
  by (simp add: dict_inv_def dict_laws_def dict_ok_def dict_cache_sound_def dict_abs_def demo_dict_env_def
      demo_dict_views_def demo_dict_def list_multimap_ok map_table_ok map_lru_ok)

theorem dict_ops_refine_witness:
  "\<exists>s'. dict_insert_kv demo_dict_env (demo_dict (Some Map.empty)) 5 9 = (s', Inr ()) \<and>
        dict_abs demo_dict_views s' = dict_insert 5 9 (dict_abs demo_dict_views (demo_dict (Some Map.empty)))"
  using dict_ops_refine[OF demo_dict_inv, of 5 9] by blast





lemmas demo_simps = demo_dict_env_def demo_dict_def demo_dict_views_def list_multimap_ops_def map_table_ops_def
  map_lru_ops_def put_key_def put_birth_def put_value_def put_reverse_def cache_lookup_def cache_store_def

text \<open>
  Without a cache a batch does not deduplicate its own values: two keys with the same new value
  get two birth ids, and the reverse table keeps only the later one, where inserting the pairs one at
  a time gives both keys the first birth id.
\<close>

theorem dict_batch_without_cache:
  "(case dict_insert_many demo_dict_env (demo_dict None) [(1, 9), (2, 9)] of (s, r) \<Rightarrow>
      (r, dict_pk_by_key s 1, dict_pk_by_key s 2, value_to_dict_pk s 9)) = (Inr (), Some 1, Some 2, Some 2) \<and>
   (case for_each (\<lambda>s (k, v). dict_insert_kv demo_dict_env s k v) (demo_dict None) [(1, 9), (2, 9)] of (s, r) \<Rightarrow>
      (r, dict_pk_by_key s 1, dict_pk_by_key s 2, value_to_dict_pk s 9)) = (Inr (), Some 1, Some 1, Some 1)"
  by (simp add: dict_insert_many_def dict_pass1_def dict_insert_kv_def with_batches_def demo_simps)

text \<open>
  Deleting the key that gave a value its birth id, while another key shares the value, and then
  inserting the deleted key with a new value overwrites the shared value: the other key reads the new
  value.
\<close>

theorem dict_reinsert_birth_key:
  "(case for_each (\<lambda>s (k, v). dict_insert_kv demo_dict_env s k v) (demo_dict None) [(1, 9), (2, 9)] of (s1, _) \<Rightarrow>
      case dict_delete_kv demo_dict_env s1 1 of (s2, _) \<Rightarrow>
        case dict_insert_kv demo_dict_env s2 1 7 of (s3, r) \<Rightarrow>
          (dt_contents demo_dict_views s2 2, r, dt_contents demo_dict_views s3 2)) = (Some 9, Inr (), Some 7)"
  by (simp add: dict_insert_kv_def dict_delete_kv_def dict_contents_def demo_simps)

end
