(* ===== verification/Tx_Fsm.thy ===== *)
theory Tx_Fsm
  imports Merge_Buffer Table_Api
begin

section \<open>The transaction machine of a table\<close>

text \<open>
  The model of \<open>redbit/src/storage/tx_fsm.rs\<close> with the command and control types of
  \<open>table_writer_api.rs\<close>. Every shard of a table has a thread that receives commands over a channel:
  outside a transaction it waits for \<open>Begin\<close>, inside it collects writes in a merge buffer and in the
  table, and a flush drains the buffer into the table and commits.

  A channel is a number; what the thread sends is the list of events it returns. The environment
  holds what is not code of this file: the key order, the operations of the table kind, whether the
  receiver of a reply still exists, what a sink answers, the clock readings, and the database. A
  closed batch of commands is a list; an empty list stands for a channel that all senders have left.
\<close>

type_synonym chan = nat

record task_stats =
  collect_took :: nat
  sort_took :: nat
  write_took :: nat
  flush_took :: nat

record task_result =
  task_name :: string
  task_stats_of :: task_stats

record write_result =
  wr_collect_took :: nat
  wr_sort_took :: nat
  wr_write_took :: nat

definition stats_sum :: "task_stats \<Rightarrow> nat" where
  "stats_sum t = collect_took t + sort_took t + write_took t + flush_took t"

record flush_state =
  fs_sender :: "chan option"
  fs_sum :: usize
  fs_shards :: "usize option"

datatype ('k, 'v, 'd) writer_command =
    Begin chan 'd
  | WriteSortedInsertsOnFlush "('k \<times> 'v) list"
  | WriteInsertNow 'k 'v
  | AppendSortedInserts "('k \<times> 'v) list"
  | MergeUnsortedInserts "('k \<times> 'v) list"
  | Remove 'k chan
  | QueryAndWrite "usize option" "(usize \<times> 'v) list" nat
  | Range 'k 'k chan
  | Flush chan
  | FlushWhenReady chan
  | ReadyForFlush usize
  | Shutdown chan

datatype control =
    Ctl_Continue
  | Ctl_ReadyForFlush usize
  | Ctl_Commit chan "write_result res"
  | Ctl_FlushWhenReady chan
  | Ctl_Error chan app_error
  | Ctl_Shutdown chan
  | Ctl_TxFinished

datatype ('k, 'v) event =
    Ack_Unit chan "unit res"
  | Ack_Bool chan "bool res"
  | Ack_Range chan "('k \<times> 'v) list res"
  | Ack_Task chan "task_result res"
  | Sink_Call nat "usize option" "(usize \<times> 'k option) list"

record ('s, 'k, 'v) tx_state =
  tx_table :: 's
  async_merge_buf :: "('k, 'v) merge_buffer"
  deferred :: "flush_state option"
  write_error :: "app_error option"

record ('s, 'k, 'v, 'd, 'db) fsm_env =
  fe_cmp :: "'k comparator"
  fe_ops :: "('s, 'k, 'v) write_table_ops"
  fe_name :: string
  fe_alive :: "chan \<Rightarrow> bool"
  fe_send_error :: string
  fe_recv_error :: string
  fe_sink :: "nat \<Rightarrow> usize option \<Rightarrow> (usize \<times> 'k option) list \<Rightarrow> unit res"
  fe_took :: write_result
  fe_flush_took :: nat
  fe_upgrade :: "'db \<Rightarrow> bool"
  fe_begin_write :: "'db \<Rightarrow> unit res"
  fe_set_durability :: "'d \<Rightarrow> unit res"
  fe_open_for_write :: "'db \<Rightarrow> 's res"
  fe_commit :: "'db \<Rightarrow> 's \<Rightarrow> 'db res"

subsection \<open>One command inside a transaction\<close>

type_synonym ('s, 'k, 'v) step_result = "('s, 'k, 'v) tx_state \<times> ('k, 'v) event list \<times> control res"

definition tx_flush ::
    "('s, 'k, 'v, 'd, 'db) fsm_env \<Rightarrow> ('s, 'k, 'v) tx_state \<Rightarrow> chan \<Rightarrow> ('s, 'k, 'v) step_result option" where
  "tx_flush E s sender =
     (case write_error s of
        Some err \<Rightarrow> Some (s\<lparr>write_error := None\<rparr>, [], Inr (Ctl_Error sender err))
      | None \<Rightarrow> do {
          (kvs, buf) \<leftarrow> take_sorted (fe_cmp E) (async_merge_buf s);
          if kvs = [] then Some (s\<lparr>async_merge_buf := mb_clear buf\<rparr>, [], Inr (Ctl_Commit sender (Inr (fe_took E))))
          else (case wt_insert_many (fe_ops E) (tx_table s) kvs of
                  (t, Inl err) \<Rightarrow>
                    Some (s\<lparr>tx_table := t, async_merge_buf := mb_clear buf\<rparr>, [], Inr (Ctl_Commit sender (Inl err)))
                | (t, Inr _) \<Rightarrow>
                    Some (s\<lparr>tx_table := t, async_merge_buf := mb_clear buf\<rparr>, [],
                          Inr (Ctl_Commit sender (Inr (fe_took E)))))
        })"

text \<open>The lookups of a query: the first error ends them.\<close>

fun query_values ::
    "('s, 'k, 'v) write_table_ops \<Rightarrow> 's \<Rightarrow> (usize \<times> 'v) list \<Rightarrow> ('s \<times> (usize \<times> 'k option) list res) option" where
  "query_values ops t [] = Some (t, Inr [])"
| "query_values ops t ((idx, v) # vs) =
     do {
       (t1, r) \<leftarrow> wt_get_any ops t v;
       (case r of
          Inl e \<Rightarrow> Some (t1, Inl e)
        | Inr k \<Rightarrow> map_option (\<lambda>(t2, rest). (t2, map_sum id (Cons (idx, k)) rest)) (query_values ops t1 vs))
     }"

definition reply ::
    "('s, 'k, 'v, 'd, 'db) fsm_env \<Rightarrow> ('s, 'k, 'v) tx_state \<Rightarrow> chan \<Rightarrow> ('k, 'v) event \<Rightarrow> ('s, 'k, 'v) step_result option" where
  "reply E s ack ev =
     (if fe_alive E ack then Some (s, [ev], Inr Ctl_Continue)
      else Some (s, [], Inl (Custom (''send error: '' @ fe_send_error E))))"

definition continue_with :: "('s, 'k, 'v) tx_state \<Rightarrow> ('s, 'k, 'v) step_result option" where
  "continue_with s = Some (s, [], Inr Ctl_Continue)"

text \<open>The deferred flush fires when a sender is known and as many shards are ready as were announced.\<close>

definition flush_ready :: "flush_state option \<Rightarrow> chan option" where
  "flush_ready d =
     (case d of None \<Rightarrow> None
      | Some f \<Rightarrow> (case (fs_sender f, fs_shards f) of
                    (Some ack, Some n_shards) \<Rightarrow> if fs_sum f = n_shards then Some ack else None
                  | _ \<Rightarrow> None))"

fun tx_step ::
    "('s, 'k, 'v, 'd, 'db) fsm_env \<Rightarrow> ('s, 'k, 'v) tx_state \<Rightarrow> ('k, 'v, 'd) writer_command \<Rightarrow>
     ('s, 'k, 'v) step_result option" where
  "tx_step E s (WriteInsertNow k v) =
     (case wt_insert_kv (fe_ops E) (tx_table s) k v of
        (t, Inl e) \<Rightarrow> Some (s\<lparr>tx_table := t\<rparr>, [], Inl e)
      | (t, Inr _) \<Rightarrow> continue_with (s\<lparr>tx_table := t\<rparr>))"
| "tx_step E s (MergeUnsortedInserts kvs) =
     do { b \<leftarrow> merge_unsorted (fe_cmp E) (async_merge_buf s) kvs; continue_with (s\<lparr>async_merge_buf := b\<rparr>) }"
| "tx_step E s (AppendSortedInserts kvs) =
     do { b \<leftarrow> append_sorted (fe_cmp E) (async_merge_buf s) kvs; continue_with (s\<lparr>async_merge_buf := b\<rparr>) }"
| "tx_step E s (WriteSortedInsertsOnFlush kvs) =
     (if \<not> mb_is_empty (async_merge_buf s)
      then Some (s, [], Inl (Custom ''WriteSortedInserts cannot be mixed with SortInserts now''))
      else continue_with (s\<lparr>async_merge_buf := from_sorted kvs\<rparr>))"
| "tx_step E s (Remove k ack) =
     (case wt_delete_kv (fe_ops E) (tx_table s) k of
        (t, Inl e) \<Rightarrow> Some (s\<lparr>tx_table := t\<rparr>, [], Inl e)
      | (t, Inr r) \<Rightarrow> reply E (s\<lparr>tx_table := t\<rparr>) ack (Ack_Bool ack (Inr r)))"
| "tx_step E s (QueryAndWrite last_shards vals sink) =
     (if vals = [] \<and> last_shards = None then continue_with s
      else do {
        (t, r) \<leftarrow> query_values (fe_ops E) (tx_table s) vals;
        (case r of
           Inl e \<Rightarrow> Some (s\<lparr>tx_table := t\<rparr>, [], Inl e)
         | Inr out \<Rightarrow>
             (case fe_sink E sink last_shards out of
                Inl e \<Rightarrow> Some (s\<lparr>tx_table := t\<rparr>, [Sink_Call sink last_shards out], Inl e)
              | Inr _ \<Rightarrow> Some (s\<lparr>tx_table := t\<rparr>, [Sink_Call sink last_shards out], Inr Ctl_Continue)))
      })"
| "tx_step E s (Range from until ack) =
     do {
       r \<leftarrow> wt_range (fe_ops E) (tx_table s) from until;
       (case r of Inl e \<Rightarrow> Some (s, [], Inl e) | Inr xs \<Rightarrow> reply E s ack (Ack_Range ack (Inr xs)))
     }"
| "tx_step E s (FlushWhenReady ack) =
     (case deferred s of
        Some f \<Rightarrow>
          if fs_sender f \<noteq> None then Some (s, [], Inr (Ctl_Error ack (Custom ''flush already pending'')))
          else (let s' = s\<lparr>deferred := Some (f\<lparr>fs_sender := Some ack\<rparr>)\<rparr>
                in if flush_ready (deferred s') \<noteq> None then tx_flush E s' ack else continue_with s')
      | None \<Rightarrow> continue_with (s\<lparr>deferred := Some \<lparr>fs_sender = Some ack, fs_sum = 0, fs_shards = None\<rparr>\<rparr>))"
| "tx_step E s (ReadyForFlush n_shards) =
     (let f = (case deferred s of
                 Some f \<Rightarrow> f\<lparr>fs_sum := fs_sum f + 1, fs_shards := Some n_shards\<rparr>
               | None \<Rightarrow> \<lparr>fs_sender = None, fs_sum = 1, fs_shards = Some n_shards\<rparr>);
          s' = s\<lparr>deferred := Some f\<rparr>
      in case flush_ready (deferred s') of Some ack \<Rightarrow> tx_flush E s' ack | None \<Rightarrow> continue_with s')"
| "tx_step E s (Flush sender) = tx_flush E s sender"
| "tx_step E s (Shutdown ack) = Some (s, [], Inr (Ctl_Shutdown ack))"
| "tx_step E s (Begin ack dur) = None"

subsection \<open>A batch of commands\<close>

text \<open>
  \<open>drain_batch\<close> receives one command and then takes what is already in the channel, up to the first
  command that does not continue. It also returns the commands left in the batch.
\<close>

type_synonym ('s, 'k, 'v, 'd) drain_result =
  "(('s, 'k, 'v) tx_state \<times> ('k, 'v) event list \<times> control res \<times> ('k, 'v, 'd) writer_command list) option"

fun drain_rest ::
    "('s, 'k, 'v, 'd, 'db) fsm_env \<Rightarrow> ('s, 'k, 'v) tx_state \<Rightarrow> ('k, 'v, 'd) writer_command list \<Rightarrow> ('s, 'k, 'v, 'd) drain_result" where
  "drain_rest E s [] = Some (s, [], Inr Ctl_Continue, [])"
| "drain_rest E s (c # cs) =
     do {
       (s1, ev, r) \<leftarrow> tx_step E s c;
       if r = Inr Ctl_Continue
       then map_option (\<lambda>(s2, ev2, r2, rest). (s2, ev @ ev2, r2, rest)) (drain_rest E s1 cs)
       else Some (s1, ev, r, cs)
     }"

definition drain_batch ::
    "('s, 'k, 'v, 'd, 'db) fsm_env \<Rightarrow> ('s, 'k, 'v) tx_state \<Rightarrow> ('k, 'v, 'd) writer_command list \<Rightarrow> ('s, 'k, 'v, 'd) drain_result" where
  "drain_batch E s cs = (if cs = [] then Some (s, [], Inl (RecvError (fe_recv_error E)), []) else drain_rest E s cs)"

lemma drain_rest_suffix:
  "drain_rest E s (c # cs) = Some (s1, ev, r, rest) \<Longrightarrow> length rest \<le> length cs"
proof (induction cs arbitrary: s c ev)
  case Nil
  then show ?case by (auto simp: bind_eq_Some_conv split: if_splits)
next
  case (Cons c' cs)
  then show ?case
    by (fastforce simp: bind_eq_Some_conv simp del: drain_rest.simps(2) simp add: drain_rest.simps(2)[of E _ c]
        split: if_splits dest: le_SucI)
qed

subsection \<open>The outer loop\<close>

datatype ('s, 'k, 'v) phase = Idle | InTx "('s, 'k, 'v) tx_state" | Stopped

definition new_tx :: "'s \<Rightarrow> ('s, 'k, 'v) tx_state" where
  "new_tx t = \<lparr>tx_table = t, async_merge_buf = mb_new, deferred = None, write_error = None\<rparr>"

text \<open>What the loop does with the control value of a batch.\<close>

fun on_control ::
    "('s, 'k, 'v, 'd, 'db) fsm_env \<Rightarrow> 'db \<Rightarrow> ('s, 'k, 'v) tx_state \<Rightarrow> control res \<Rightarrow>
     'db \<times> ('s, 'k, 'v) phase \<times> ('k, 'v) event list" where
  "on_control E db s (Inr (Ctl_Error sender err)) = (db, Idle, [Ack_Task sender (Inl err)])"
| "on_control E db s (Inr (Ctl_Commit sender (Inl err))) = (db, Idle, [Ack_Task sender (Inl err)])"
| "on_control E db s (Inr (Ctl_Commit sender (Inr wr))) =
     (case fe_commit E db (tx_table s) of
        Inl e \<Rightarrow> (db, Idle, [Ack_Task sender (Inl e)])
      | Inr db' \<Rightarrow>
          (db', Idle,
           [Ack_Task sender (Inr \<lparr>task_name = fe_name E,
              task_stats_of = \<lparr>collect_took = wr_collect_took wr, sort_took = wr_sort_took wr,
                               write_took = wr_write_took wr, flush_took = fe_flush_took E\<rparr>\<rparr>)]))"
| "on_control E db s (Inr (Ctl_Shutdown ack)) =
     (db, Stopped,
      (case Option.bind (deferred s) fs_sender of
         Some pending \<Rightarrow> [Ack_Task pending (Inl (Custom ''aborted''))] | None \<Rightarrow> []) @ [Ack_Unit ack (Inr ())])"
| "on_control E db s (Inr _) = (db, InTx s, [])"
| "on_control E db s (Inl err) = (db, InTx (s\<lparr>write_error := Some err\<rparr>), [])"

fun on_idle ::
    "('s, 'k, 'v, 'd, 'db) fsm_env \<Rightarrow> 'db \<Rightarrow> ('k, 'v, 'd) writer_command \<Rightarrow> 'db \<times> ('s, 'k, 'v) phase \<times> ('k, 'v) event list" where
  "on_idle E db (Begin ack dur) =
     (if \<not> fe_upgrade E db then (db, Stopped, [Ack_Unit ack (Inl (Custom ''database closed''))])
      else (case fe_begin_write E db of
              Inl e \<Rightarrow> (db, Idle, [Ack_Unit ack (Inl e)])
            | Inr _ \<Rightarrow> (case fe_set_durability E dur of
                Inl e \<Rightarrow> (db, Idle, [Ack_Unit ack (Inl e)])
              | Inr _ \<Rightarrow> (case fe_open_for_write E db of
                  Inl e \<Rightarrow> (db, Idle, [Ack_Unit ack (Inl e)])
                | Inr t \<Rightarrow> (db, InTx (new_tx t), [Ack_Unit ack (Inr ())])))))"
| "on_idle E db (Shutdown ack) = (db, Stopped, [Ack_Unit ack (Inr ())])"
| "on_idle E db _ = (db, Stopped, [])"

text \<open>The result of a run with the events that came before it.\<close>

definition after :: "'e list \<Rightarrow> ('db \<times> 'ph \<times> 'e list) option \<Rightarrow> ('db \<times> 'ph \<times> 'e list) option" where
  "after ev r = map_option (\<lambda>(db, ph, ev'). (db, ph, ev @ ev')) r"

lemma after_simps [simp]:
  "after [] r = r" "after ev None = None" "after ev (Some (db, ph, ev')) = Some (db, ph, ev @ ev')"
  "after ev (after ev' r) = after (ev @ ev') r"
  by (cases r; auto simp: after_def split: prod.split)+

lemma after_eq_None [simp]: "after ev r = None \<longleftrightarrow> r = None"
  by (simp add: after_def)

text \<open>
  The thread on a queue of commands. The schedule says how many further commands each batch finds in
  the channel; when it runs out every batch has one command. The thread ends with the queue, with a
  \<open>Shutdown\<close>, or with a command outside a transaction.
\<close>

function fsm_run ::
    "('s, 'k, 'v, 'd, 'db) fsm_env \<Rightarrow> 'db \<Rightarrow> ('s, 'k, 'v) phase \<Rightarrow> nat list \<Rightarrow> ('k, 'v, 'd) writer_command list \<Rightarrow>
     ('db \<times> ('s, 'k, 'v) phase \<times> ('k, 'v) event list) option" where
  "fsm_run E db ph sched [] = Some (db, ph, [])"
| "fsm_run E db ph sched (c # cs) =
     (case ph of
        Stopped \<Rightarrow> Some (db, Stopped, [])
      | Idle \<Rightarrow>
          (case on_idle E db c of (db1, ph1, ev1) \<Rightarrow>
             after ev1 (fsm_run E db1 ph1 sched cs))
      | InTx s \<Rightarrow>
          (let n = (case sched of [] \<Rightarrow> 0 | m # _ \<Rightarrow> m)
           in case drain_batch E s (c # take n cs) of
                None \<Rightarrow> None
              | Some (s1, ev0, r, rest) \<Rightarrow>
                  (case on_control E db s1 r of (db1, ph1, ev1) \<Rightarrow>
                     after (ev0 @ ev1) (fsm_run E db1 ph1 (tl sched) (rest @ drop n cs)))))"
  by pat_completeness auto
termination
  by (relation "measure (\<lambda>(E, db, ph, sched, q). length q)")
    (auto simp: drain_batch_def less_Suc_eq_le simp del: drain_rest.simps dest!: drain_rest_suffix)

text \<open>The reference: one command at a time.\<close>

definition fsm_handle ::
    "('s, 'k, 'v, 'd, 'db) fsm_env \<Rightarrow> 'db \<Rightarrow> ('s, 'k, 'v) phase \<Rightarrow> ('k, 'v, 'd) writer_command \<Rightarrow>
     ('db \<times> ('s, 'k, 'v) phase \<times> ('k, 'v) event list) option" where
  "fsm_handle E db ph c =
     (case ph of
        Stopped \<Rightarrow> Some (db, Stopped, [])
      | Idle \<Rightarrow> Some (on_idle E db c)
      | InTx s \<Rightarrow> do {
          (s1, ev0, r) \<leftarrow> tx_step E s c;
          (case on_control E db s1 r of (db1, ph1, ev1) \<Rightarrow> Some (db1, ph1, ev0 @ ev1))
        })"

fun fsm_seq ::
    "('s, 'k, 'v, 'd, 'db) fsm_env \<Rightarrow> 'db \<Rightarrow> ('s, 'k, 'v) phase \<Rightarrow> ('k, 'v, 'd) writer_command list \<Rightarrow>
     ('db \<times> ('s, 'k, 'v) phase \<times> ('k, 'v) event list) option" where
  "fsm_seq E db ph [] = Some (db, ph, [])"
| "fsm_seq E db ph (c # cs) =
     do {
       (db1, ph1, ev1) \<leftarrow> fsm_handle E db ph c;
       after ev1 (fsm_seq E db1 ph1 cs)
     }"

subsection \<open>Batching is not observable\<close>

lemma fsm_seq_stopped: "fsm_seq E db Stopped cs = Some (db, Stopped, [])"
  by (induction cs) (simp_all add: fsm_handle_def)

text \<open>A batch is a sequence of single commands up to the one that ends it.\<close>

lemma drain_rest_seq:
  "fsm_seq E db (InTx s) (cs @ later) =
     (case drain_rest E s cs of
        None \<Rightarrow> None
      | Some (s1, ev0, r, rest) \<Rightarrow>
          (case on_control E db s1 r of (db1, ph1, ev1) \<Rightarrow>
             after (ev0 @ ev1) (fsm_seq E db1 ph1 (rest @ later))))"
proof (induction cs arbitrary: s)
  case Nil
  then show ?case by simp
next
  case (Cons c cs)
  show ?case
  proof (cases "tx_step E s c")
    case None
    then show ?thesis by (simp add: fsm_handle_def)
  next
    case (Some x)
    then obtain s1 ev r where step: "tx_step E s c = Some (s1, ev, r)" by (cases x) auto
    show ?thesis
    proof (cases "r = Inr Ctl_Continue")
      case True
      with step Cons.IH[of s1] show ?thesis
        by (auto simp: fsm_handle_def split: option.split prod.split)
    next
      case False
      with step show ?thesis by (auto simp: fsm_handle_def split: prod.split)
    qed
  qed
qed

lemma fsm_run_seq: "fsm_run E db ph sched cs = fsm_seq E db ph cs"
proof (induction E db ph sched cs rule: fsm_run.induct)
  case (1 E db ph sched)
  show ?case by simp
next
  case (2 E db ph sched c cs)
  show ?case
  proof (cases ph)
    case Idle
    with 2(1)[OF Idle] show ?thesis by (auto simp: fsm_handle_def split: prod.split)
  next
    case Stopped
    then show ?thesis by (simp add: fsm_handle_def fsm_seq_stopped)
  next
    case (InTx s)
    let ?n = "case sched of [] \<Rightarrow> 0 | m # _ \<Rightarrow> m"
    have "fsm_seq E db (InTx s) (c # cs) = fsm_seq E db (InTx s) ((c # take ?n cs) @ drop ?n cs)" by simp
    also have "\<dots> = (case drain_batch E s (c # take ?n cs) of
        None \<Rightarrow> None
      | Some (s1, ev0, r, rest) \<Rightarrow> (case on_control E db s1 r of (db1, ph1, ev1) \<Rightarrow>
          after (ev0 @ ev1) (fsm_seq E db1 ph1 (rest @ drop ?n cs))))"
      unfolding drain_rest_seq by (simp add: drain_batch_def)
    also have "\<dots> = fsm_run E db (InTx s) sched (c # cs)"
      using 2(2)[OF InTx refl] by (auto simp: Let_def split: option.split prod.split)
    finally show ?thesis using InTx by simp
  qed
qed

lemma fsm_seq_append:
  "fsm_seq E db ph (xs @ ys) =
     (case fsm_seq E db ph xs of None \<Rightarrow> None | Some (db1, ph1, ev1) \<Rightarrow> after ev1 (fsm_seq E db1 ph1 ys))"
proof (induction xs arbitrary: db ph)
  case (Cons c xs)
  then show ?case
    by (cases "fsm_handle E db ph c") (auto split: option.split prod.split)
qed simp

subsection \<open>A failed command dooms its transaction\<close>

text \<open>The commands of one transaction: up to the command that ends it.\<close>

fun run_tx ::
    "('s, 'k, 'v, 'd, 'db) fsm_env \<Rightarrow> 'db \<Rightarrow> ('s, 'k, 'v) tx_state \<Rightarrow> ('k, 'v, 'd) writer_command list \<Rightarrow>
     ('db \<times> ('s, 'k, 'v) phase \<times> ('k, 'v) event list) option" where
  "run_tx E db s [] = Some (db, InTx s, [])"
| "run_tx E db s (c # cs) =
     do {
       (db1, ph1, ev1) \<leftarrow> fsm_handle E db (InTx s) c;
       (case ph1 of InTx s1 \<Rightarrow> after ev1 (run_tx E db1 s1 cs) | _ \<Rightarrow> Some (db1, ph1, ev1))
     }"

fun task_ok :: "('k, 'v) event \<Rightarrow> bool" where
  "task_ok (Ack_Task _ (Inr _)) = True"
| "task_ok _ = False"

lemma tx_flush_failed:
  assumes "write_error s = Some e"
  shows "tx_flush E s sender = Some (s\<lparr>write_error := None\<rparr>, [], Inr (Ctl_Error sender e))"
  using assms by (simp add: tx_flush_def)

text \<open>With a recorded error a step only ends the transaction by reporting an error or by a shutdown.\<close>

lemma tx_step_failed:
  assumes "write_error s = Some e" and "tx_step E s c = Some (s', ev, r)"
  shows "list_all (\<lambda>x. \<not> task_ok x) ev \<and>
         ((\<exists>sender err. r = Inr (Ctl_Error sender err)) \<or>
          (write_error s' = Some e \<and> ((\<exists>err. r = Inl err) \<or> r = Inr Ctl_Continue \<or> (\<exists>ack. r = Inr (Ctl_Shutdown ack)))))"
proof (cases c)
  case (QueryAndWrite last vals sink)
  show ?thesis
  proof (cases "query_values (fe_ops E) (tx_table s) vals")
    case None
    with QueryAndWrite assms show ?thesis by (auto simp: continue_with_def split: if_splits)
  next
    case (Some q)
    with QueryAndWrite assms show ?thesis
      by (cases q; cases "snd q") (auto simp: continue_with_def split: if_splits sum.splits)
  qed
next
  case (Range a b ack)
  then show ?thesis
    using assms by (cases "wt_range (fe_ops E) (tx_table s) a b"; cases "the (wt_range (fe_ops E) (tx_table s) a b)")
      (auto simp: reply_def split: if_splits)
qed (use assms in \<open>auto simp: continue_with_def reply_def bind_eq_Some_conv Let_def tx_flush_failed
      split: prod.splits sum.splits if_splits option.splits\<close>)

lemma tx_flush_events:
  assumes "tx_flush E s sender = Some (s', ev, r)"
  shows "ev = []"
proof (cases "write_error s")
  case None
  with assms obtain kvs buf where "take_sorted (fe_cmp E) (async_merge_buf s) = Some (kvs, buf)"
    by (auto simp: tx_flush_def bind_eq_Some_conv)
  with None assms show ?thesis
    by (cases "wt_insert_many (fe_ops E) (tx_table s) kvs"; cases "snd (wt_insert_many (fe_ops E) (tx_table s) kvs)")
      (auto simp: tx_flush_def split: if_splits)
qed (use assms in \<open>simp add: tx_flush_def\<close>)

lemma tx_step_events:
  assumes "tx_step E s c = Some (s', ev, r)"
  shows "list_all (\<lambda>x. \<not> task_ok x) ev"
proof (cases c)
  case (QueryAndWrite last vals sink)
  show ?thesis
  proof (cases "query_values (fe_ops E) (tx_table s) vals")
    case None
    with QueryAndWrite assms show ?thesis by (auto simp: continue_with_def split: if_splits)
  next
    case (Some q)
    with QueryAndWrite assms show ?thesis
      by (cases q; cases "snd q") (auto simp: continue_with_def split: if_splits sum.splits)
  qed
next
  case (Range a b ack)
  then show ?thesis
    using assms by (cases "wt_range (fe_ops E) (tx_table s) a b"; cases "the (wt_range (fe_ops E) (tx_table s) a b)")
      (auto simp: reply_def split: if_splits)
qed (use assms in \<open>auto simp: continue_with_def reply_def bind_eq_Some_conv Let_def dest!: tx_flush_events
      split: prod.splits sum.splits if_splits option.splits\<close>)

lemma fsm_handle_InTx:
  assumes "fsm_handle E db (InTx s) c = Some (db', ph', ev)"
  obtains s1 ev0 r ev1 where "tx_step E s c = Some (s1, ev0, r)" and "on_control E db s1 r = (db', ph', ev1)"
    and "ev = ev0 @ ev1"
proof -
  from assms obtain s1 ev0 r where step: "tx_step E s c = Some (s1, ev0, r)"
    by (auto simp: fsm_handle_def bind_eq_Some_conv)
  obtain db1 ph1 ev1 where ctl: "on_control E db s1 r = (db1, ph1, ev1)" by (metis prod_cases3)
  from step ctl assms show thesis by (intro that[of s1 ev0 r ev1]) (auto simp: fsm_handle_def)
qed

lemma fsm_handle_failed:
  assumes "write_error s \<noteq> None" and "fsm_handle E db (InTx s) c = Some (db', ph', ev)"
  shows "db' = db \<and> list_all (\<lambda>x. \<not> task_ok x) ev \<and> (\<forall>s'. ph' = InTx s' \<longrightarrow> write_error s' \<noteq> None)"
proof -
  from assms(1) obtain e where e: "write_error s = Some e" by auto
  from assms(2) obtain s1 ev0 r ev1 where step: "tx_step E s c = Some (s1, ev0, r)"
    and ctl: "on_control E db s1 r = (db', ph', ev1)" and ev: "ev = ev0 @ ev1" by (rule fsm_handle_InTx)
  from tx_step_failed[OF e step] ctl ev show ?thesis by (auto split: option.splits)
qed

lemma run_tx_failed:
  assumes "write_error s \<noteq> None" and "run_tx E db s cs = Some (db', ph', ev)"
  shows "db' = db \<and> list_all (\<lambda>x. \<not> task_ok x) ev \<and> (\<forall>s'. ph' = InTx s' \<longrightarrow> write_error s' \<noteq> None)"
  using assms
proof (induction cs arbitrary: db s ev)
  case (Cons c cs)
  from Cons.prems(2) obtain db1 ph1 ev1 where h: "fsm_handle E db (InTx s) c = Some (db1, ph1, ev1)"
    and rest: "(case ph1 of InTx s1 \<Rightarrow> after ev1 (run_tx E db1 s1 cs) | _ \<Rightarrow> Some (db1, ph1, ev1)) = Some (db', ph', ev)"
    by (auto simp: bind_eq_Some_conv)
  note H = fsm_handle_failed[OF Cons.prems(1) h]
  show ?case
  proof (cases ph1)
    case (InTx s1)
    with rest obtain ev2 where "run_tx E db1 s1 cs = Some (db', ph', ev2)" "ev = ev1 @ ev2"
      by (auto simp: after_def)
    with Cons.IH[of s1 db1 ev2] H InTx show ?thesis by auto
  qed (use H rest in auto)
qed auto

subsection \<open>Collecting writes and deferring the flush\<close>

text \<open>
  The commands of a transaction whose flush waits for the other shards: batches for the buffer,
  announcements that one of \<open>n\<close> shards is ready, and the request to flush when all are.
\<close>

fun collects :: "'k comparator \<Rightarrow> nat \<Rightarrow> chan \<Rightarrow> ('k, 'v, 'd) writer_command \<Rightarrow> bool" where
  "collects cmp n ack (MergeUnsortedInserts kvs) = True"
| "collects cmp n ack (AppendSortedInserts kvs) = run_sorted cmp kvs"
| "collects cmp n ack (ReadyForFlush m) = (m = n)"
| "collects cmp n ack (FlushWhenReady a) = (a = ack)"
| "collects cmp n ack _ = False"

fun payload :: "('k, 'v, 'd) writer_command \<Rightarrow> ('k \<times> 'v) list" where
  "payload (MergeUnsortedInserts kvs) = kvs"
| "payload (AppendSortedInserts kvs) = kvs"
| "payload _ = []"

fun is_ready :: "('k, 'v, 'd) writer_command \<Rightarrow> bool" where
  "is_ready (ReadyForFlush _) = True"
| "is_ready _ = False"

fun is_request :: "('k, 'v, 'd) writer_command \<Rightarrow> bool" where
  "is_request (FlushWhenReady _) = True"
| "is_request _ = False"

abbreviation readies :: "('k, 'v, 'd) writer_command list \<Rightarrow> nat" where
  "readies cs \<equiv> length (filter is_ready cs)"

abbreviation requests :: "('k, 'v, 'd) writer_command list \<Rightarrow> nat" where
  "requests cs \<equiv> length (filter is_request cs)"

abbreviation writes :: "('k, 'v, 'd) writer_command list \<Rightarrow> ('k \<times> 'v) list" where
  "writes cs \<equiv> concat (map payload cs)"

text \<open>The record of the deferred flush after these commands.\<close>

definition deferred_after :: "nat \<Rightarrow> chan \<Rightarrow> nat \<Rightarrow> nat \<Rightarrow> flush_state option" where
  "deferred_after n ack r f =
     (if r = 0 \<and> f = 0 then None
      else Some \<lparr>fs_sender = (if f = 0 then None else Some ack), fs_sum = r,
                 fs_shards = (if r = 0 then None else Some n)\<rparr>)"

definition collected :: "'k comparator \<Rightarrow> nat \<Rightarrow> chan \<Rightarrow> 's \<Rightarrow> ('k, 'v, 'd) writer_command list \<Rightarrow> ('s, 'k, 'v) tx_state \<Rightarrow> bool" where
  "collected cmp n ack t cs s \<longleftrightarrow>
     tx_table s = t \<and> write_error s = None \<and> buf_inv cmp (async_merge_buf s) \<and>
     buf_mset (async_merge_buf s) = mset (writes cs) \<and> deferred s = deferred_after n ack (readies cs) (requests cs)"

lemma collected_start: "collected cmp n ack t [] (new_tx t)"
  by (simp add: collected_def new_tx_def deferred_after_def mb.empty)

lemma flush_ready_after:
  "flush_ready (deferred_after n ack r f) = (if 0 < f \<and> 0 < r \<and> r = n then Some ack else None)"
  by (simp add: flush_ready_def deferred_after_def)

text \<open>A command that does not complete the condition only collects.\<close>

lemma collect_step:
  assumes "collected (fe_cmp E) n ack t cs s" and "collects (fe_cmp E) n ack c"
    and "requests (cs @ [c]) \<le> 1" and "\<not> (readies (cs @ [c]) = n \<and> requests (cs @ [c]) = 1)"
  shows "\<exists>s'. fsm_handle E db (InTx s) c = Some (db, InTx s', []) \<and> collected (fe_cmp E) n ack t (cs @ [c]) s'"
proof (cases c)
  case (MergeUnsortedInserts kvs)
  with mb.unsorted[of "fe_cmp E" "async_merge_buf s" kvs] assms(1) show ?thesis
    by (auto simp: collected_def fsm_handle_def continue_with_def)
next
  case (AppendSortedInserts kvs)
  with mb.sorted[of "fe_cmp E" "async_merge_buf s" kvs] assms(1,2) show ?thesis
    by (auto simp: collected_def fsm_handle_def continue_with_def)
next
  case (ReadyForFlush m)
  let ?s' = "s\<lparr>deferred := deferred_after n ack (Suc (readies cs)) (requests cs)\<rparr>"
  from assms(3) ReadyForFlush have "requests cs \<le> 1" by simp
  then have "requests cs = 0 \<or> requests cs = 1" by linarith
  then have "flush_ready (deferred ?s') = None"
    using assms(4) ReadyForFlush by (auto simp: flush_ready_after)
  with ReadyForFlush assms(1,2) show ?thesis
    by (auto simp: collected_def fsm_handle_def continue_with_def Let_def deferred_after_def)
next
  case (FlushWhenReady a)
  then have none: "requests cs = 0" using assms(3) by simp
  let ?s' = "s\<lparr>deferred := deferred_after n ack (readies cs) 1\<rparr>"
  have "flush_ready (deferred ?s') = None" using assms(4) FlushWhenReady none by (simp add: flush_ready_after)
  with FlushWhenReady assms(1,2) none show ?thesis
    by (auto simp: collected_def fsm_handle_def continue_with_def Let_def deferred_after_def)
qed (use assms(2) in simp_all)

lemma collect_seq:
  assumes "\<forall>c\<in>set cs. collects (fe_cmp E) n ack c" and "requests cs \<le> 1" and "readies cs \<le> n"
    and "\<not> (readies cs = n \<and> requests cs = 1)"
  shows "\<exists>s. fsm_seq E db (InTx (new_tx t)) cs = Some (db, InTx s, []) \<and> collected (fe_cmp E) n ack t cs s"
  using assms
proof (induction cs rule: rev_induct)
  case Nil
  then show ?case using collected_start by fastforce
next
  case (snoc c cs)
  have "\<not> (readies cs = n \<and> requests cs = 1)"
    using snoc.prems(2-4) by (auto split: if_splits)
  moreover have "requests cs \<le> 1" "readies cs \<le> n" using snoc.prems(2,3) by (auto split: if_splits)
  ultimately obtain s where s: "fsm_seq E db (InTx (new_tx t)) cs = Some (db, InTx s, [])"
    "collected (fe_cmp E) n ack t cs s" using snoc.IH snoc.prems(1) by auto
  from collect_step[OF s(2) _ snoc.prems(2,4), of db] snoc.prems(1) s(1) show ?case
    by (auto simp: fsm_seq_append)
qed

text \<open>The command that completes the condition flushes.\<close>

lemma complete_step:
  assumes "collected (fe_cmp E) n ack t cs s" and "collects (fe_cmp E) n ack c" and "0 < n"
    and "readies (cs @ [c]) = n" and "requests (cs @ [c]) = 1" and "is_ready c \<or> is_request c"
  shows "\<exists>s'. tx_step E s c = tx_flush E s' ack \<and> tx_table s' = tx_table s \<and>
              async_merge_buf s' = async_merge_buf s \<and> write_error s' = write_error s"
proof (cases c)
  case (ReadyForFlush m)
  let ?s' = "s\<lparr>deferred := deferred_after n ack (Suc (readies cs)) (requests cs)\<rparr>"
  have "flush_ready (deferred ?s') = Some ack" using assms(4,5) ReadyForFlush by (simp add: flush_ready_after)
  with ReadyForFlush assms(1,2,5) show ?thesis
    by (intro exI[of _ ?s']) (auto simp: collected_def Let_def deferred_after_def)
next
  case (FlushWhenReady a)
  let ?s' = "s\<lparr>deferred := deferred_after n ack (readies cs) 1\<rparr>"
  have "flush_ready (deferred ?s') = Some ack" using assms(3-5) FlushWhenReady by (simp add: flush_ready_after)
  with FlushWhenReady assms(1-5) show ?thesis
    by (intro exI[of _ ?s']) (auto simp: collected_def Let_def deferred_after_def)
qed (use assms(6) in simp_all)

subsection \<open>What a flush commits\<close>

definition opens :: "('s, 'k, 'v, 'd, 'db) fsm_env \<Rightarrow> 'db \<Rightarrow> 'd \<Rightarrow> 's \<Rightarrow> bool" where
  "opens E db dur t \<longleftrightarrow>
     fe_upgrade E db \<and> fe_begin_write E db = Inr () \<and> fe_set_durability E dur = Inr () \<and> fe_open_for_write E db = Inr t"

definition flushed_ack :: "('s, 'k, 'v, 'd, 'db) fsm_env \<Rightarrow> chan \<Rightarrow> ('k, 'v) event" where
  "flushed_ack E ack =
     Ack_Task ack (Inr \<lparr>task_name = fe_name E,
       task_stats_of = \<lparr>collect_took = wr_collect_took (fe_took E), sort_took = wr_sort_took (fe_took E),
                        write_took = wr_write_took (fe_took E), flush_took = fe_flush_took E\<rparr>\<rparr>)"

lemma opens_handle:
  "opens E db dur t \<Longrightarrow> fsm_handle E db Idle (Begin ack dur) = Some (db, InTx (new_tx t), [Ack_Unit ack (Inr ())])"
  by (simp add: opens_def fsm_handle_def)

text \<open>The thread of a table that implements the interface.\<close>

locale writer_thread = write_table ops inv contents insertable batch_ok
  for ops :: "('s, 'k, 'v) write_table_ops" and inv and contents and insertable and batch_ok +
  fixes E :: "('s, 'k, 'v, 'd, 'db) fsm_env"
  assumes env_ops: "fe_ops E = ops"
begin

text \<open>A flush of buffered pairs with distinct keys adds them to the contents of the table.\<close>

lemma flush_commits:
  assumes "write_error s = None" and "buf_inv (fe_cmp E) (async_merge_buf s)"
    and "inv (tx_table s)" and "buf_mset (async_merge_buf s) = mset pairs" and "distinct (map fst pairs)"
    and "\<And>xs. mset xs = mset pairs \<Longrightarrow> run_sorted (fe_cmp E) xs \<Longrightarrow> batch_ok (tx_table s) xs"
  shows "\<exists>s'. (\<forall>ack. tx_flush E s ack = Some (s', [], Inr (Ctl_Commit ack (Inr (fe_took E))))) \<and> inv (tx_table s') \<and>
              contents (tx_table s') = contents (tx_table s) ++ map_of pairs"
proof -
  from mb.drain[OF assms(2)] obtain xs b where
    xs: "take_sorted (fe_cmp E) (async_merge_buf s) = Some (xs, b)" "run_sorted (fe_cmp E) xs" "mset xs = mset pairs"
    using assms(4) by auto
  show ?thesis
  proof (cases "xs = []")
    case True
    with xs assms show ?thesis by (auto simp: tx_flush_def)
  next
    case False
    from insert_many[OF assms(3) assms(6)[OF xs(3,2)]] obtain t' where
      t': "wt_insert_many ops (tx_table s) xs = (t', Inr ())" "inv t'"
      "contents t' = contents (tx_table s) ++ map_of (rev xs)" by blast
    have "map_of (rev xs) = map_of pairs"
      using map_of_mset_cong[of pairs "rev xs"] xs(3) assms(5) by simp
    with t' xs False assms(1) env_ops show ?thesis by (auto simp: tx_flush_def)
  qed
qed

text \<open>A transaction of buffered writes that ends with a flush, immediate or deferred.\<close>

lemma tx_writes:
  assumes t: "inv t" "opens E db dur t"
    and cs: "\<forall>c\<in>set cs. collects (fe_cmp E) n ack c" "distinct (map fst (writes cs))"
    and batch: "\<And>xs. mset xs = mset (writes cs) \<Longrightarrow> run_sorted (fe_cmp E) xs \<Longrightarrow> batch_ok t xs"
    and open_cs: "requests cs \<le> 1" "readies cs \<le> n" "\<not> (readies cs = n \<and> requests cs = 1)"
    and last: "c = Flush ack \<or> (collects (fe_cmp E) n ack c \<and> (is_ready c \<or> is_request c) \<and> 0 < n \<and>
                 readies (cs @ [c]) = n \<and> requests (cs @ [c]) = 1)"
    and commit: "\<And>t'. fe_commit E db t' = Inr (db_of t')"
  shows "\<exists>s t'. fsm_run E db Idle sched (Begin ack0 dur # cs) = Some (db, InTx s, [Ack_Unit ack0 (Inr ())]) \<and>
           fsm_run E db Idle sched (Begin ack0 dur # cs @ [c]) =
             Some (db_of t', Idle, [Ack_Unit ack0 (Inr ()), flushed_ack E ack]) \<and>
           inv t' \<and> contents t' = contents t ++ map_of (writes cs)"
proof -
  from collect_seq[OF cs(1) open_cs, of db t] obtain s where
    s: "fsm_seq E db (InTx (new_tx t)) cs = Some (db, InTx s, [])" "collected (fe_cmp E) n ack t cs s" by blast
  have "\<exists>s1. tx_step E s c = tx_flush E s1 ack \<and> tx_table s1 = t \<and> async_merge_buf s1 = async_merge_buf s \<and>
             write_error s1 = None"
    using last complete_step[OF s(2), of c] s(2) by (auto simp: collected_def)
  then obtain s1 where s1: "tx_step E s c = tx_flush E s1 ack" "tx_table s1 = t"
    "async_merge_buf s1 = async_merge_buf s" "write_error s1 = None" by blast
  from flush_commits[OF s1(4), of "writes cs"] s s1 t(1) cs(2) batch obtain s2 where
    s2: "tx_step E s c = Some (s2, [], Inr (Ctl_Commit ack (Inr (fe_took E))))" "inv (tx_table s2)"
    "contents (tx_table s2) = contents t ++ map_of (writes cs)" by (auto simp: collected_def)
  have "fsm_handle E db (InTx s) c = Some (db_of (tx_table s2), Idle, [flushed_ack E ack])"
    using s2 commit by (simp add: fsm_handle_def flushed_ack_def)
  with s(1) s2 opens_handle[OF t(2), of ack0] show ?thesis
    by (intro exI[of _ s] exI[of _ "tx_table s2"]) (simp add: fsm_run_seq fsm_seq_append)
qed

text \<open>A transaction with one sorted batch, the way the synchronous writer sends it.\<close>

lemma tx_sorted_batch:
  assumes t: "inv t" "opens E db dur t" and b: "run_sorted (fe_cmp E) b" "distinct (map fst b)"
    and batch: "\<And>xs. mset xs = mset b \<Longrightarrow> run_sorted (fe_cmp E) xs \<Longrightarrow> batch_ok t xs"
    and commit: "\<And>t'. fe_commit E db t' = Inr (db_of t')"
  shows "\<exists>t'. (\<forall>ack0 ack sched. fsm_run E db Idle sched (Begin ack0 dur # (if b = [] then [] else [WriteSortedInsertsOnFlush b]) @ [Flush ack]) =
             Some (db_of t', Idle, [Ack_Unit ack0 (Inr ()), flushed_ack E ack])) \<and>
           inv t' \<and> contents t' = contents t ++ map_of b"
proof -
  let ?s = "(new_tx t)\<lparr>async_merge_buf := from_sorted b\<rparr>"
  have buf: "buf_inv (fe_cmp E) (from_sorted b)" "buf_mset (from_sorted b) = mset b"
    using from_sorted_ok[OF b(1)] by auto
  from flush_commits[of ?s b] buf t(1) b(2) batch obtain s2 where
    s2: "\<And>ack. tx_flush E ?s ack = Some (s2, [], Inr (Ctl_Commit ack (Inr (fe_took E))))" "inv (tx_table s2)"
    "contents (tx_table s2) = contents t ++ map_of b" by (auto simp: new_tx_def)
  have collect: "fsm_seq E db (InTx (new_tx t)) (if b = [] then [] else [WriteSortedInsertsOnFlush b]) = Some (db, InTx ?s, [])"
    by (auto simp: fsm_handle_def continue_with_def new_tx_def mb_is_empty_def mb_new_def from_sorted_def)
  have "fsm_handle E db (InTx ?s) (Flush ack) = Some (db_of (tx_table s2), Idle, [flushed_ack E ack])" for ack
    using s2 commit by (simp add: fsm_handle_def flushed_ack_def)
  with collect s2 opens_handle[OF t(2)] show ?thesis
    by (intro exI[of _ "tx_table s2"]) (simp add: fsm_run_seq fsm_seq_append)
qed

end

subsection \<open>Properties\<close>

text \<open>
  C18. How many commands the thread finds in its channel at once does not matter: for every schedule of
  batch sizes, \<open>TxFSM\<close> with \<open>drain_batch\<close> gives the same database, phase and replies as handling the
  commands one at a time.
\<close>

theorem batching_unobservable: "fsm_run E db ph sched cs = fsm_seq E db ph cs"
  by (rule fsm_run_seq)

text \<open>The rounds of a thread inside a transaction whose channel is closed.\<close>

fun poll_closed ::
    "('s, 'k, 'v, 'd, 'db) fsm_env \<Rightarrow> nat \<Rightarrow> 'db \<Rightarrow> ('s, 'k, 'v) phase \<Rightarrow> ('db \<times> ('s, 'k, 'v) phase) option" where
  "poll_closed E 0 db ph = Some (db, ph)"
| "poll_closed E (Suc n) db (InTx s) =
     do {
       (s1, ev, r, rest) \<leftarrow> drain_batch E s ([] :: ('k, 'v, 'd) writer_command list);
       (case on_control E db s1 r of (db1, ph1, ev1) \<Rightarrow> poll_closed E n db1 ph1)
     }"
| "poll_closed E (Suc n) db ph = Some (db, ph)"


end
