(* ===== verification/Tx_Commit.thy ===== *)
theory Tx_Commit
  imports Tx_Fsm Plain_Table Index_Table
begin

section \<open>What the transactions of a table commit\<close>

text \<open>
  The transaction machine over the table kinds: the locale of writable tables, interpreted by the
  plain and the index table, gives what a flush leaves in the database, from the arrival of the
  commands to the committed contents.
\<close>

definition plain_env where
  "plain_env T E = E\<lparr>fe_ops := plain_ops T\<rparr>"

definition index_fsm_env where
  "index_fsm_env X E = E\<lparr>fe_ops := index_ops X\<rparr>"

interpretation plain_tx: writer_thread "plain_ops T" "plain_inv T view" "\<lambda>s. view (pt_table s)"
  "\<lambda>_ _ _. True" "\<lambda>_ _. True" "plain_env T E" for T view E
  by unfold_locales (simp add: plain_env_def)

interpretation index_tx: writer_thread "index_ops X" "index_inv cmp X V" "ix_contents V"
  "ix_insertable V" "ix_batch_ok V" "index_fsm_env X E" for cmp X V E
  by unfold_locales (simp add: index_fsm_env_def)

text \<open>
  C16. The deferred flush of a plain table. Batches of writes, \<open>n\<close> announcements \<open>ReadyForFlush n\<close> and one
  \<open>FlushWhenReady\<close> arrive in any order, the last of them an announcement or the request. Before the last
  command the thread is inside its transaction and has committed and acknowledged nothing; the last
  command commits a table whose contents are the old ones with every pair that arrived, and the
  requester, and nobody else, is told of the success.
\<close>

theorem deferred_flush_commits:
  assumes "fe_ops E = plain_ops T" and "table_laws T view" and "table_total T"
    and "opens E db dur t" and "\<And>t'. fe_commit E db t' = Inr (db_of t')"
    and "\<forall>c'\<in>set (cs @ [c]). collects (fe_cmp E) n ack c'" and "distinct (map fst (writes cs))"
    and "readies (cs @ [c]) = n" and "0 < n" and "requests (cs @ [c]) = 1" and "is_ready c \<or> is_request c"
  shows "\<exists>s t'. fsm_run E db Idle sched (Begin ack0 dur # cs) = Some (db, InTx s, [Ack_Unit ack0 (Inr ())]) \<and>
           fsm_run E db Idle sched (Begin ack0 dur # cs @ [c]) =
             Some (db_of t', Idle, [Ack_Unit ack0 (Inr ()), flushed_ack E ack]) \<and>
           view (pt_table t') = view (pt_table t) ++ map_of (writes cs)"
proof -
  have E: "plain_env T E = E" using assms(1) by (simp add: plain_env_def)
  have inv: "plain_inv T view t" using assms(2,3) by (simp add: plain_inv_def)
  have cs: "\<forall>c'\<in>set cs. collects (fe_cmp E) n ack c'" and c: "collects (fe_cmp E) n ack c" using assms(6) by auto
  have open_cs: "requests cs \<le> 1" "readies cs \<le> n" "\<not> (readies cs = n \<and> requests cs = 1)"
    using assms(8,10,11) by (cases c; simp)+
  have last: "c = Flush ack \<or> (collects (fe_cmp E) n ack c \<and> (is_ready c \<or> is_request c) \<and> 0 < n \<and>
                readies (cs @ [c]) = n \<and> requests (cs @ [c]) = 1)" using c assms(8-11) by blast
  from plain_tx.tx_writes[where T = T and E = E and view = view, unfolded E, OF inv assms(4) cs assms(7) _ open_cs last assms(5)] show ?thesis by blast
qed

definition demo_env :: "((nat \<rightharpoonup> nat) plain_table, nat, nat, unit, (nat \<rightharpoonup> nat) plain_table) fsm_env" where
  "demo_env =
     \<lparr>fe_cmp = default, fe_ops = plain_ops map_table_ops, fe_name = ''tx'', fe_alive = (\<lambda>c. c \<noteq> 0),
      fe_send_error = ''closed'', fe_recv_error = ''closed'', fe_sink = (\<lambda>_ _ _. Inr ()),
      fe_took = \<lparr>wr_collect_took = 1, wr_sort_took = 0, wr_write_took = 2\<rparr>, fe_flush_took = 5,
      fe_upgrade = (\<lambda>_. True), fe_begin_write = (\<lambda>_. Inr ()), fe_set_durability = (\<lambda>_. Inr ()),
      fe_open_for_write = (\<lambda>db. Inr db), fe_commit = (\<lambda>_ t. Inr t)\<rparr>"

lemma demo_env_simps:
  "fe_cmp demo_env = default" "fe_ops demo_env = plain_ops map_table_ops" "fe_commit demo_env db t = Inr t"
  "opens demo_env db () db" "fe_alive demo_env c = (c \<noteq> 0)"
  by (simp_all add: demo_env_def opens_def)

theorem deferred_flush_commits_witness:
  "\<exists>s t'. fsm_run demo_env \<lparr>pt_table = [1 \<mapsto> 5]\<rparr> Idle [4]
      [Begin 1 (), MergeUnsortedInserts [(3, 7), (2, 6)], ReadyForFlush 2, FlushWhenReady 9] =
        Some (\<lparr>pt_table = [1 \<mapsto> 5]\<rparr>, InTx s, [Ack_Unit 1 (Inr ())]) \<and>
     fsm_run demo_env \<lparr>pt_table = [1 \<mapsto> 5]\<rparr> Idle [4]
      [Begin 1 (), MergeUnsortedInserts [(3, 7), (2, 6)], ReadyForFlush 2, FlushWhenReady 9, ReadyForFlush 2] =
        Some (t', Idle, [Ack_Unit 1 (Inr ()), flushed_ack demo_env 9]) \<and>
     pt_table t' = [1 \<mapsto> 5, 2 \<mapsto> 6, 3 \<mapsto> 7]"
  using deferred_flush_commits[of demo_env map_table_ops "\<lambda>t. t" "\<lparr>pt_table = [1 \<mapsto> 5]\<rparr>" "()" "\<lparr>pt_table = [1 \<mapsto> 5]\<rparr>"
      "\<lambda>t. t" "[MergeUnsortedInserts [(3, 7), (2, 6)], ReadyForFlush 2, FlushWhenReady 9]" "ReadyForFlush 2" 2 9 "[4]" 1]
  by (simp add: demo_env_simps map_table_ok)

text \<open>
  A transaction of an index table that ends with a flush: when the batches that arrived have
  distinct keys, each new in the table or with the value it has there, the committed table is
  consistent (its inverse multimap and its cache agree with it) and its contents are the old ones
  with every pair that arrived.
\<close>

theorem index_flush_commits:
  assumes "fe_ops E = index_ops X" and "index_inv cmp X V t"
    and "opens E db dur t" and "\<And>t'. fe_commit E db t' = Inr (db_of t')"
    and "\<forall>c\<in>set cs. collects (fe_cmp E) 1 ack c \<and> \<not> is_ready c \<and> \<not> is_request c"
    and "distinct (map fst (writes cs))" and "\<forall>(k, v)\<in>set (writes cs). ix_insertable V t k v"
  shows "\<exists>t'. fsm_run E db Idle sched (Begin ack0 dur # cs @ [Flush ack]) =
             Some (db_of t', Idle, [Ack_Unit ack0 (Inr ()), flushed_ack E ack]) \<and>
           index_inv cmp X V t' \<and> ix_contents V t' = ix_contents V t ++ map_of (writes cs)"
proof -
  have E: "index_fsm_env X E = E" using assms(1) by (simp add: index_fsm_env_def)
  have none: "filter is_ready cs = []" "filter is_request cs = []" using assms(5) by (auto simp: filter_empty_conv)
  have cs: "\<forall>c\<in>set cs. collects (fe_cmp E) 1 ack c" using assms(5) by blast
  have batch: "ix_batch_ok V t xs" if "mset xs = mset (writes cs)" for xs
    using assms(6,7) mset_eq_setD[OF that] mset_eq_imp_distinct_iff[of "map fst xs" "map fst (writes cs)"] that
    by (auto simp: ix_batch_ok_def)
  from index_tx.tx_writes[where X = X and E = E and V = V, unfolded E, OF assms(2,3) cs assms(6) batch _ _ _ _ assms(4), where c = "Flush ack"] none
  show ?thesis by auto
qed

definition demo_index_fsm ::
    "((nat \<Rightarrow> nat list, nat \<rightharpoonup> nat, nat \<rightharpoonup> nat) index_table, nat, nat, unit,
      (nat \<Rightarrow> nat list, nat \<rightharpoonup> nat, nat \<rightharpoonup> nat) index_table) fsm_env" where
  "demo_index_fsm =
     \<lparr>fe_cmp = default, fe_ops = index_ops demo_index_env, fe_name = ''ix'', fe_alive = (\<lambda>_. True),
      fe_send_error = ''closed'', fe_recv_error = ''closed'', fe_sink = (\<lambda>_ _ _. Inr ()),
      fe_took = \<lparr>wr_collect_took = 1, wr_sort_took = 0, wr_write_took = 2\<rparr>, fe_flush_took = 5,
      fe_upgrade = (\<lambda>_. True), fe_begin_write = (\<lambda>_. Inr ()), fe_set_durability = (\<lambda>_. Inr ()),
      fe_open_for_write = (\<lambda>db. Inr db), fe_commit = (\<lambda>_ t. Inr t)\<rparr>"

theorem index_flush_commits_witness:
  "\<exists>t'. fsm_run demo_index_fsm demo_index Idle [] [Begin 1 (), MergeUnsortedInserts [(10, 7), (3, 7)], Flush 2] =
          Some (t', Idle, [Ack_Unit 1 (Inr ()), flushed_ack demo_index_fsm 2]) \<and>
        index_inv default demo_index_env demo_index_views t' \<and>
        ix_contents demo_index_views t' = ix_contents demo_index_views demo_index ++ map_of [(10, 7), (3, 7)]"
proof -
  have "opens demo_index_fsm demo_index () demo_index" by (simp add: opens_def demo_index_fsm_def)
  moreover have "\<forall>(k, v)\<in>set [(10, 7), (3, 7)]. ix_insertable demo_index_views demo_index k v"
    by (simp add: ix_insertable_def demo_index_views_def demo_index_def)
  moreover have "fe_ops demo_index_fsm = index_ops demo_index_env" "fe_commit demo_index_fsm demo_index t' = Inr t'" for t'
    by (simp_all add: demo_index_fsm_def)
  ultimately show ?thesis
    using index_flush_commits[of demo_index_fsm demo_index_env default demo_index_views demo_index demo_index "()"
        "\<lambda>t. t" "[MergeUnsortedInserts [(10, 7), (3, 7)]]" 2 "[]" 1] demo_index_inv by simp
qed

text \<open>
  C17. A transaction with a failed command never commits: whatever commands follow, until the
  transaction ends the database is the one before it and no flush is acknowledged with success.
\<close>

theorem failed_command_aborts:
  assumes "tx_step E s c = Some (s1, ev1, Inl e)" and "run_tx E db s (c # cs) = Some (db', ph', ev)"
  shows "db' = db \<and> list_all (\<lambda>x. \<not> task_ok x) ev"
proof -
  have "fsm_handle E db (InTx s) c = Some (db, InTx (s1\<lparr>write_error := Some e\<rparr>), ev1)"
    using assms(1) by (simp add: fsm_handle_def)
  with assms(2) obtain ev2 where rest: "run_tx E db (s1\<lparr>write_error := Some e\<rparr>) cs = Some (db', ph', ev2)"
    and ev: "ev = ev1 @ ev2" by (auto simp: after_def)
  from run_tx_failed[OF _ rest] ev tx_step_events[OF assms(1)] show ?thesis by simp
qed

theorem failed_command_aborts_witness:
  "case run_tx demo_env \<lparr>pt_table = [1 \<mapsto> 5]\<rparr> (new_tx \<lparr>pt_table = [1 \<mapsto> 5]\<rparr>) [Remove 1 0, Flush 7] of
     None \<Rightarrow> False | Some (db', _, ev) \<Rightarrow> db' = \<lparr>pt_table = [1 \<mapsto> 5]\<rparr> \<and> ev \<noteq> [] \<and> list_all (\<lambda>x. \<not> task_ok x) ev"
proof -
  let ?s = "new_tx \<lparr>pt_table = [1 \<mapsto> 5 :: nat]\<rparr> :: ((nat \<rightharpoonup> nat) plain_table, nat, nat) tx_state"
  let ?e = "Custom ''send error: closed''"
  have fail: "tx_step demo_env ?s (Remove 1 0) = Some (new_tx \<lparr>pt_table = Map.empty\<rparr>, [], Inl ?e)"
    by (simp add: demo_env_def plain_ops_def plain_delete_kv_def map_table_ops_def new_tx_def reply_def)
  then have run: "run_tx demo_env db ?s [Remove 1 0, Flush 7] = Some (db, Idle, [Ack_Task 7 (Inl ?e)])" for db
    by (simp add: fsm_handle_def tx_flush_def)
  from failed_command_aborts[OF fail run] run show ?thesis by simp
qed

end
