(* ===== verification/Router.thy ===== *)
theory Router
  imports Partitioning Tx_Commit
begin

section \<open>Routing of commands to shards\<close>

text \<open>
  The model of \<open>redbit/src/storage/router.rs\<close>. A sharded table has one transaction thread per shard;
  the router picks the shard of a pair by its key or its value and puts commands into the channels.

  The channels are a list of queues, one per shard, that keep every command in the order of sending.
  The reply that a command asks for is what the thread of the shard sends while it works through its
  queue: \<open>shard_run\<close> runs the machine of \<open>Tx_Fsm\<close> on the queue from the state of the shard at the start.
  Whether a channel still has a receiver is a parameter. A result \<open>None\<close> is a panic, or a wait that
  does not end.
\<close>

datatype try_send = Sent | Full | Disconnected

record ('k, 'v, 'd) net =
  queues :: "('k, 'v, 'd) writer_command list list"
  next_chan :: chan

record ('s, 'k, 'v, 'd, 'db) net_env =
  ne_fsm :: "('s, 'k, 'v, 'd, 'db) fsm_env"
  ne_start :: "usize \<Rightarrow> 'db \<times> ('s, 'k, 'v) phase"
  ne_try_send :: "usize \<Rightarrow> ('k, 'v, 'd) writer_command list \<Rightarrow> try_send"
  ne_send_ok :: "usize \<Rightarrow> ('k, 'v, 'd) writer_command list \<Rightarrow> bool"
  ne_send_error :: string
  ne_recv_error :: string

type_synonym ('k, 'v, 'd, 'a) net_result = "(('k, 'v, 'd) net \<times> 'a res) option"

type_synonym ('k, 'v) shard_fn = "('k \<Rightarrow> usize option, 'v \<Rightarrow> usize option) partitioning"

definition shards :: "('k, 'v, 'd) net \<Rightarrow> usize" where
  "shards net = length (queues net)"

subsection \<open>Sending and receiving\<close>

definition enqueue :: "('k, 'v, 'd) net \<Rightarrow> usize \<Rightarrow> ('k, 'v, 'd) writer_command \<Rightarrow> ('k, 'v, 'd) net" where
  "enqueue net sid msg = net\<lparr>queues := (queues net)[sid := queues net ! sid @ [msg]]\<rparr>"

definition fast_send ::
    "('s, 'k, 'v, 'd, 'db) net_env \<Rightarrow> ('k, 'v, 'd) net \<Rightarrow> usize \<Rightarrow> ('k, 'v, 'd) writer_command \<Rightarrow> ('k, 'v, 'd, unit) net_result" where
  "fast_send E net sid msg =
     (if sid < shards net
      then Some (case ne_try_send E sid (queues net ! sid) of
                   Sent \<Rightarrow> (enqueue net sid msg, Inr ())
                 | Full \<Rightarrow> if ne_send_ok E sid (queues net ! sid) then (enqueue net sid msg, Inr ())
                           else (net, Inl (Custom (ne_send_error E)))
                 | Disconnected \<Rightarrow> (net, Inl (Custom ''writer thread disconnected'')))
      else None)"

text \<open>A fresh reply channel.\<close>

definition new_chan :: "('k, 'v, 'd) net \<Rightarrow> chan \<times> ('k, 'v, 'd) net" where
  "new_chan net = (next_chan net, net\<lparr>next_chan := next_chan net + 1\<rparr>)"

definition shard_run ::
    "('s, 'k, 'v, 'd, 'db) net_env \<Rightarrow> ('k, 'v, 'd) net \<Rightarrow> usize \<Rightarrow> ('db \<times> ('s, 'k, 'v) phase \<times> ('k, 'v) event list) option" where
  "shard_run E net sid = (case ne_start E sid of (db, ph) \<Rightarrow> fsm_run (ne_fsm E) db ph [] (queues net ! sid))"

text \<open>
  Waiting for a reply. A thread that panicked or finished without replying has dropped the sender; a
  thread that keeps the sender for a deferred flush makes the receiver wait forever.
\<close>

fun first_reply :: "('e \<Rightarrow> 'r option) \<Rightarrow> 'e list \<Rightarrow> 'r option" where
  "first_reply f [] = None"
| "first_reply f (e # es) = (case f e of Some r \<Rightarrow> Some r | None \<Rightarrow> first_reply f es)"

definition holds_sender :: "('s, 'k, 'v) phase \<Rightarrow> chan \<Rightarrow> bool" where
  "holds_sender ph ack =
     (case ph of InTx s \<Rightarrow> Option.bind (deferred s) fs_sender = Some ack | _ \<Rightarrow> False)"

definition recv_reply ::
    "('s, 'k, 'v, 'd, 'db) net_env \<Rightarrow> ('k, 'v, 'd) net \<Rightarrow> usize \<Rightarrow> chan \<Rightarrow> (('k, 'v) event \<Rightarrow> 'r option) \<Rightarrow> 'r res option" where
  "recv_reply E net sid ack f =
     (case shard_run E net sid of
        None \<Rightarrow> Some (Inl (RecvError (ne_recv_error E)))
      | Some (db, ph, ev) \<Rightarrow>
          (case first_reply f ev of
             Some r \<Rightarrow> Some (Inr r)
           | None \<Rightarrow> if holds_sender ph ack then None else Some (Inl (RecvError (ne_recv_error E)))))"

text \<open>The operator \<open>?\<close> on the result of a receive whose message is itself a result.\<close>

definition flatten :: "'a res res \<Rightarrow> 'a res" where
  "flatten r = (case r of Inl e \<Rightarrow> Inl e | Inr x \<Rightarrow> x)"

fun bool_reply :: "chan \<Rightarrow> ('k, 'v) event \<Rightarrow> bool res option" where
  "bool_reply ack (Ack_Bool a r) = (if a = ack then Some r else None)"
| "bool_reply ack _ = None"

fun range_reply :: "chan \<Rightarrow> ('k, 'v) event \<Rightarrow> ('k \<times> 'v) list res option" where
  "range_reply ack (Ack_Range a r) = (if a = ack then Some r else None)"
| "range_reply ack _ = None"

text \<open>A sequence of sends that stops at the first error.\<close>

fun send_each ::
    "('s, 'k, 'v, 'd, 'db) net_env \<Rightarrow> ('k, 'v, 'd) net \<Rightarrow> (usize \<times> ('k, 'v, 'd) writer_command) list \<Rightarrow> ('k, 'v, 'd, unit) net_result" where
  "send_each E net [] = Some (net, Inr ())"
| "send_each E net ((sid, msg) # rest) =
     do {
       (net1, r) \<leftarrow> fast_send E net sid msg;
       (case r of Inl e \<Rightarrow> Some (net1, Inl e) | Inr _ \<Rightarrow> send_each E net1 rest)
     }"

subsection \<open>Buckets\<close>

definition shard_of :: "('k, 'v) shard_fn \<Rightarrow> 'k \<times> 'v \<Rightarrow> usize option" where
  "shard_of part kv = (case part of ByKey kp \<Rightarrow> kp (fst kv) | ByValue vp \<Rightarrow> vp (snd kv))"

definition bucket_push :: "('x \<Rightarrow> usize option) \<Rightarrow> 'x list list \<Rightarrow> 'x \<Rightarrow> 'x list list option" where
  "bucket_push f buckets x =
     do {
       sid \<leftarrow> f x;
       if sid < length buckets then Some (buckets[sid := buckets ! sid @ [x]]) else None
     }"

definition bucket :: "('k, 'v) shard_fn \<Rightarrow> usize \<Rightarrow> ('k \<times> 'v) list \<Rightarrow> ('k \<times> 'v) list list option" where
  "bucket part n pairs =
     (if n = 0 then None else fold_opt (bucket_push (shard_of part)) (replicate n []) pairs)"

definition bucket_one :: "('k, 'v) shard_fn \<Rightarrow> 'k \<Rightarrow> 'v \<Rightarrow> (usize \<times> 'k \<times> 'v) option" where
  "bucket_one part k v = do { sid \<leftarrow> shard_of part (k, v); Some (sid, k, v) }"

text \<open>The messages of the non-empty buckets, in the order of the shards.\<close>

definition bucket_messages ::
    "('x list \<Rightarrow> ('k, 'v, 'd) writer_command) \<Rightarrow> 'x list list \<Rightarrow> (usize \<times> ('k, 'v, 'd) writer_command) list" where
  "bucket_messages mk buckets = map (\<lambda>(sid, b). (sid, mk b)) (filter (\<lambda>(sid, b). b \<noteq> []) (enumerate 0 buckets))"

subsection \<open>The operations of the router\<close>

definition ready_for_flush ::
    "('s, 'k, 'v, 'd, 'db) net_env \<Rightarrow> ('k, 'v, 'd) net \<Rightarrow> usize \<Rightarrow> ('k, 'v, 'd, unit) net_result" where
  "ready_for_flush E net n = send_each E net (map (\<lambda>sid. (sid, ReadyForFlush n)) [0..<shards net])"

definition merge_unsorted_inserts ::
    "('s, 'k, 'v, 'd, 'db) net_env \<Rightarrow> ('k, 'v) shard_fn \<Rightarrow> ('k, 'v, 'd) net \<Rightarrow> ('k \<times> 'v) list \<Rightarrow> usize option \<Rightarrow>
     ('k, 'v, 'd, unit) net_result" where
  "merge_unsorted_inserts E part net pairs last_shards =
     do {
       (net1, r) \<leftarrow>
         (if pairs = [] then Some (net, Inr ())
          else if shards net = 1 then fast_send E net 0 (MergeUnsortedInserts pairs)
          else do {
            bs \<leftarrow> bucket part (shards net) pairs;
            send_each E net (bucket_messages MergeUnsortedInserts bs)
          });
       (case r of
          Inl e \<Rightarrow> Some (net1, Inl e)
        | Inr _ \<Rightarrow> (case last_shards of Some n \<Rightarrow> ready_for_flush E net1 n | None \<Rightarrow> Some (net1, Inr ())))
     }"

definition write_sorted_inserts_on_flush ::
    "('s, 'k, 'v, 'd, 'db) net_env \<Rightarrow> ('k, 'v) shard_fn \<Rightarrow> ('k, 'v, 'd) net \<Rightarrow> ('k \<times> 'v) list \<Rightarrow> ('k, 'v, 'd, unit) net_result" where
  "write_sorted_inserts_on_flush E part net pairs =
     (if pairs = [] then Some (net, Inr ())
      else if shards net = 1 then fast_send E net 0 (WriteSortedInsertsOnFlush pairs)
      else do {
        bs \<leftarrow> bucket part (shards net) pairs;
        send_each E net (bucket_messages WriteSortedInsertsOnFlush bs)
      })"

definition write_insert_now ::
    "('s, 'k, 'v, 'd, 'db) net_env \<Rightarrow> ('k, 'v) shard_fn \<Rightarrow> ('k, 'v, 'd) net \<Rightarrow> 'k \<Rightarrow> 'v \<Rightarrow> ('k, 'v, 'd, unit) net_result" where
  "write_insert_now E part net k v =
     (if shards net = 1 then fast_send E net 0 (WriteInsertNow k v)
      else do {
        (sid, pk, val) \<leftarrow> bucket_one part k v;
        fast_send E net sid (WriteInsertNow pk val)
      })"

text \<open>Sends a removal to a shard and waits for the answer.\<close>

definition remove_at ::
    "('s, 'k, 'v, 'd, 'db) net_env \<Rightarrow> ('k, 'v, 'd) net \<Rightarrow> usize \<Rightarrow> 'k \<Rightarrow> ('k, 'v, 'd, bool) net_result" where
  "remove_at E net sid pk =
     (case new_chan net of (ack, net0) \<Rightarrow> do {
        (net1, r) \<leftarrow> fast_send E net0 sid (Remove pk ack);
        (case r of
           Inl e \<Rightarrow> Some (net1, Inl e)
         | Inr _ \<Rightarrow> do { a \<leftarrow> recv_reply E net1 sid ack (bool_reply ack); Some (net1, flatten a) })
      })"

fun remove_first ::
    "('s, 'k, 'v, 'd, 'db) net_env \<Rightarrow> ('k, 'v, 'd) net \<Rightarrow> usize list \<Rightarrow> 'k \<Rightarrow> ('k, 'v, 'd, bool) net_result" where
  "remove_first E net [] pk = Some (net, Inr False)"
| "remove_first E net (sid # sids) pk =
     do {
       (net1, r) \<leftarrow> remove_at E net sid pk;
       (case r of
          Inl e \<Rightarrow> Some (net1, Inl e)
        | Inr b \<Rightarrow> if b then Some (net1, Inr True) else remove_first E net1 sids pk)
     }"

definition router_delete_kv ::
    "('s, 'k, 'v, 'd, 'db) net_env \<Rightarrow> ('k, 'v) shard_fn \<Rightarrow> ('k, 'v, 'd) net \<Rightarrow> 'k \<Rightarrow> ('k, 'v, 'd, bool) net_result" where
  "router_delete_kv E part net pk =
     (if shards net = 1 then remove_at E net 0 pk
      else (case part of
              ByKey kp \<Rightarrow> do { sid \<leftarrow> kp pk; remove_at E net sid pk }
            | ByValue _ \<Rightarrow> remove_first E net [0..<shards net] pk))"

definition router_range ::
    "('s, 'k, 'v, 'd, 'db) net_env \<Rightarrow> ('k, 'v, 'd) net \<Rightarrow> 'k \<Rightarrow> 'k \<Rightarrow> ('k, 'v, 'd, ('k \<times> 'v) list) net_result" where
  "router_range E net from until =
     (if shards net = 1
      then (case new_chan net of (ack, net0) \<Rightarrow> do {
              (net1, r) \<leftarrow> fast_send E net0 0 (Range from until ack);
              (case r of
                 Inl e \<Rightarrow> Some (net1, Inl e)
               | Inr _ \<Rightarrow> do { a \<leftarrow> recv_reply E net1 0 ack (range_reply ack); Some (net1, flatten a) })
            })
      else None)"

definition query_and_write ::
    "('s, 'k, 'v, 'd, 'db) net_env \<Rightarrow> ('k, 'v) shard_fn \<Rightarrow> ('k, 'v, 'd) net \<Rightarrow> 'v list \<Rightarrow> bool \<Rightarrow> nat \<Rightarrow> ('k, 'v, 'd, unit) net_result" where
  "query_and_write E part net vals is_last sink =
     (if shards net = 1
      then fast_send E net 0 (QueryAndWrite (if is_last then Some 1 else None) (enumerate 0 vals) sink)
      else (case part of
              ByKey _ \<Rightarrow> Some (net, Inl (Custom ''get_any_for_index requires value partitioning''))
            | ByValue vp \<Rightarrow>
                if vals = [] \<and> \<not> is_last then Some (net, Inr ())
                else do {
                  bs \<leftarrow> fold_opt (bucket_push (\<lambda>pv. vp (snd pv))) (replicate (shards net) []) (enumerate 0 vals);
                  send_each E net
                    (map (\<lambda>(sid, b). (sid, QueryAndWrite (if is_last then Some (shards net) else None) b sink))
                       (filter (\<lambda>(sid, b). b \<noteq> [] \<or> is_last) (enumerate 0 bs)))
                }))"

subsection \<open>What the queues hold after a send\<close>

definition all_connected :: "('s, 'k, 'v, 'd, 'db) net_env \<Rightarrow> bool" where
  "all_connected E \<longleftrightarrow> (\<forall>sid q. ne_try_send E sid q = Sent \<and> ne_send_ok E sid q)"

lemma shards_enqueue [simp]: "shards (enqueue net sid msg) = shards net"
  by (simp add: shards_def enqueue_def)

lemma fast_send_ok:
  "all_connected E \<Longrightarrow> sid < shards net \<Longrightarrow> fast_send E net sid msg = Some (enqueue net sid msg, Inr ())"
  by (simp add: all_connected_def fast_send_def)

definition messages_for :: "usize \<Rightarrow> (usize \<times> 'm) list \<Rightarrow> 'm list" where
  "messages_for sid msgs = map snd (filter (\<lambda>m. fst m = sid) msgs)"

definition deliver :: "('k, 'v, 'd) net \<Rightarrow> (usize \<Rightarrow> ('k, 'v, 'd) writer_command list) \<Rightarrow> ('k, 'v, 'd) net" where
  "deliver net f = net\<lparr>queues := map (\<lambda>sid. queues net ! sid @ f sid) [0..<shards net]\<rparr>"

lemma deliver_simps [simp]:
  "shards (deliver net f) = shards net" "next_chan (deliver net f) = next_chan net"
  "sid < shards net \<Longrightarrow> queues (deliver net f) ! sid = queues net ! sid @ f sid"
  "deliver (deliver net f) g = deliver net (\<lambda>sid. f sid @ g sid)"
  by (simp_all add: deliver_def shards_def)

lemma deliver_nothing [simp]: "deliver net (\<lambda>_. []) = net"
  by (simp add: deliver_def shards_def map_nth)

lemma deliver_cong: "(\<And>sid. sid < shards net \<Longrightarrow> f sid = g sid) \<Longrightarrow> deliver net f = deliver net g"
  by (simp add: deliver_def)

lemma enqueue_deliver:
  assumes "sid < shards net"
  shows "enqueue net sid msg = deliver net (\<lambda>i. if i = sid then [msg] else [])"
proof -
  have "(queues net)[sid := queues net ! sid @ [msg]] =
        map (\<lambda>i. queues net ! i @ (if i = sid then [msg] else [])) [0..<length (queues net)]"
    using assms by (auto simp: shards_def nth_list_update intro!: nth_equalityI)
  then show ?thesis by (simp add: enqueue_def deliver_def shards_def)
qed

lemma send_each_ok:
  assumes "all_connected E" and "\<forall>m\<in>set msgs. fst m < shards net"
  shows "send_each E net msgs = Some (deliver net (\<lambda>sid. messages_for sid msgs), Inr ())"
  using assms(2)
proof (induction msgs arbitrary: net)
  case Nil
  show ?case by (simp add: messages_for_def)
next
  case (Cons m msgs)
  obtain sid msg where m: "m = (sid, msg)" by fastforce
  with Cons.prems have sid: "sid < shards net" by simp
  have "send_each E (enqueue net sid msg) msgs =
        Some (deliver (enqueue net sid msg) (\<lambda>i. messages_for i msgs), Inr ())"
    using Cons.IH[of "enqueue net sid msg"] Cons.prems by simp
  moreover have "deliver (enqueue net sid msg) (\<lambda>i. messages_for i msgs) = deliver net (\<lambda>i. messages_for i (m # msgs))"
    unfolding enqueue_deliver[OF sid] deliver_simps by (rule deliver_cong) (simp add: m messages_for_def)
  ultimately show ?case using fast_send_ok[OF assms(1) sid] m by simp
qed

lemma send_each_eq:
  assumes "all_connected E" and "\<forall>m\<in>set msgs. fst m < shards net"
    and "\<And>sid. sid < shards net \<Longrightarrow> messages_for sid msgs = f sid"
  shows "send_each E net msgs = Some (deliver net f, Inr ())"
  using send_each_ok[OF assms(1,2)] deliver_cong[of net "\<lambda>sid. messages_for sid msgs" f] assms(3) by simp

text \<open>The buckets: the shard of every element, in the order of arrival.\<close>

lemma bucket_push_ok:
  assumes "\<forall>x\<in>set xs. \<exists>sid<n. f x = Some sid"
  shows "fold_opt (bucket_push f) (replicate n []) xs = Some (map (\<lambda>sid. filter (\<lambda>x. f x = Some sid) xs) [0..<n])"
proof -
  let ?R = "\<lambda>ds bs. bs = map (\<lambda>sid. filter (\<lambda>x. f x = Some sid) ds) [0..<n]"
  have "\<exists>bs. fold_opt (bucket_push f) (replicate n []) xs = Some bs \<and> ?R xs bs"
  proof (rule fold_opt_invariant)
    show "?R [] (replicate n [])" by (simp add: map_replicate_const)
    fix ds bs x assume "?R ds bs" and "x \<in> set xs"
    moreover from this assms obtain sid where "sid < n" "f x = Some sid" by blast
    ultimately show "\<exists>bs'. bucket_push f bs x = Some bs' \<and> ?R (ds @ [x]) bs'"
      by (auto simp: bucket_push_def nth_list_update intro!: nth_equalityI)
  qed
  then show ?thesis by blast
qed

lemma enumerate_map_upt: "enumerate 0 (map g [0..<n]) = map (\<lambda>i. (i, g i)) [0..<n]"
  by (rule nth_equalityI) (simp_all add: nth_enumerate_eq)

lemma filter_upt_single: "filter (\<lambda>i. P i \<and> i = sid) [0..<n] = (if sid < n \<and> P sid then [sid] else [])"
  by (induction n) (auto simp: less_Suc_eq)

lemma messages_for_map_upt:
  assumes "sid < n"
  shows "messages_for sid (map (\<lambda>i. (i, mk (g i))) (filter (\<lambda>i. P (g i)) [0..<n])) = (if P (g sid) then [mk (g sid)] else [])"
  using assms filter_upt_single[of "\<lambda>i. P (g i)" sid n]
  by (simp add: messages_for_def filter_map o_def conj_commute)

lemma bucket_messages_for:
  assumes "sid < n"
  shows "messages_for sid (bucket_messages mk (map g [0..<n])) = (if g sid = [] then [] else [mk (g sid)])"
proof -
  have "bucket_messages mk (map g [0..<n]) = map (\<lambda>i. (i, mk (g i))) (filter (\<lambda>i. g i \<noteq> []) [0..<n])"
    by (simp add: bucket_messages_def enumerate_map_upt filter_map o_def)
  then show ?thesis using messages_for_map_upt[OF assms, of mk g "\<lambda>b. b \<noteq> []"] by simp
qed

lemma bucket_messages_bound: "\<forall>m\<in>set (bucket_messages mk (map g [0..<n])). fst m < n"
  by (auto simp: bucket_messages_def enumerate_map_upt)

subsection \<open>The operations on connected channels\<close>

definition routed :: "('k, 'v) shard_fn \<Rightarrow> usize \<Rightarrow> ('k \<times> 'v) list \<Rightarrow> bool" where
  "routed part n pairs \<longleftrightarrow> (\<forall>kv\<in>set pairs. \<exists>sid<n. shard_of part kv = Some sid)"

abbreviation bucket_of :: "('k, 'v) shard_fn \<Rightarrow> ('k \<times> 'v) list \<Rightarrow> usize \<Rightarrow> ('k \<times> 'v) list" where
  "bucket_of part pairs sid \<equiv> filter (\<lambda>kv. shard_of part kv = Some sid) pairs"

lemma bucket_ok:
  "routed part n pairs \<Longrightarrow> 0 < n \<Longrightarrow> bucket part n pairs = Some (map (bucket_of part pairs) [0..<n])"
  by (simp add: bucket_def routed_def bucket_push_ok)

lemma ready_for_flush_ok:
  assumes "all_connected E"
  shows "ready_for_flush E net n = Some (deliver net (\<lambda>_. [ReadyForFlush n]), Inr ())"
  unfolding ready_for_flush_def
proof (rule send_each_eq[OF assms])
  fix sid assume "sid < shards net"
  from messages_for_map_upt[OF this, of "\<lambda>_. ReadyForFlush n" "\<lambda>_. ()" "\<lambda>_. True"]
  show "messages_for sid (map (\<lambda>sid. (sid, ReadyForFlush n)) [0..<shards net]) = [ReadyForFlush n]" by simp
qed simp

text \<open>Every pair goes to its shard, in one message per non-empty bucket.\<close>

lemma single_bucket:
  assumes "routed part 1 pairs"
  shows "bucket_of part pairs 0 = pairs"
  using assms by (auto simp: routed_def filter_id_conv)

lemma send_buckets_ok:
  assumes "all_connected E" and "routed part (shards net) pairs" and "pairs \<noteq> []"
  shows "(if shards net = 1 then fast_send E net 0 (mk pairs)
          else do { bs \<leftarrow> bucket part (shards net) pairs; send_each E net (bucket_messages mk bs) }) =
         Some (deliver net (\<lambda>sid. if bucket_of part pairs sid = [] then [] else [mk (bucket_of part pairs sid)]), Inr ())"
proof (cases "shards net = 1")
  case True
  then have "bucket_of part pairs 0 = pairs" using assms(2) single_bucket by simp
  then show ?thesis
    using True assms(3) by (simp add: fast_send_ok[OF assms(1)] enqueue_deliver) (rule deliver_cong, simp)
next
  case False
  from assms(2,3) have pos: "0 < shards net" by (cases pairs) (auto simp: routed_def)
  have "send_each E net (bucket_messages mk (map (bucket_of part pairs) [0..<shards net])) =
        Some (deliver net (\<lambda>sid. if bucket_of part pairs sid = [] then [] else [mk (bucket_of part pairs sid)]), Inr ())"
    by (rule send_each_eq[OF assms(1) bucket_messages_bound bucket_messages_for])
  then show ?thesis using False bucket_ok[OF assms(2) pos] by simp
qed

lemma merge_unsorted_inserts_ok:
  assumes "all_connected E" and "routed part (shards net) pairs"
  shows "merge_unsorted_inserts E part net pairs last_shards =
         Some (deliver net (\<lambda>sid. (if bucket_of part pairs sid = [] then [] else [MergeUnsortedInserts (bucket_of part pairs sid)]) @
                                  (case last_shards of Some n \<Rightarrow> [ReadyForFlush n] | None \<Rightarrow> [])), Inr ())"
proof (cases "pairs = []")
  case True
  then show ?thesis
    using ready_for_flush_ok[OF assms(1)] by (simp add: merge_unsorted_inserts_def split: option.split)
next
  case False
  then show ?thesis
    unfolding merge_unsorted_inserts_def
    using ready_for_flush_ok[OF assms(1)] send_buckets_ok[OF assms False, where mk = MergeUnsortedInserts]
    by (simp split: option.split)
qed

lemma write_sorted_inserts_ok:
  assumes "all_connected E" and "routed part (shards net) pairs"
  shows "write_sorted_inserts_on_flush E part net pairs =
         Some (deliver net (\<lambda>sid. if bucket_of part pairs sid = [] then [] else [WriteSortedInsertsOnFlush (bucket_of part pairs sid)]), Inr ())"
  unfolding write_sorted_inserts_on_flush_def
  using send_buckets_ok[OF assms, where mk = WriteSortedInsertsOnFlush] by simp

lemma query_and_write_ok:
  assumes "all_connected E" and "\<forall>v\<in>set vals. \<exists>sid < shards net. vp v = Some sid" and "1 < shards net" and "vals \<noteq> [] \<or> is_last"
  shows "query_and_write E (ByValue vp) net vals is_last sink =
         Some (deliver net (\<lambda>sid. let b = filter (\<lambda>pv. vp (snd pv) = Some sid) (enumerate 0 vals)
                                  in if b \<noteq> [] \<or> is_last
                                     then [QueryAndWrite (if is_last then Some (shards net) else None) b sink] else []), Inr ())"
proof -
  define mk :: "(usize \<times> 'c) list \<Rightarrow> ('b, 'c, 'd) writer_command"
    where "mk b = QueryAndWrite (if is_last then Some (shards net) else None) b sink" for b
  define g where "g sid = filter (\<lambda>pv. vp (snd pv) = Some sid) (enumerate 0 vals)" for sid
  let ?msgs = "map (\<lambda>i. (i, mk (g i))) (filter (\<lambda>i. g i \<noteq> [] \<or> is_last) [0..<shards net])"
  have "\<forall>x\<in>set (enumerate 0 vals). \<exists>sid < shards net. vp (snd x) = Some sid"
    using assms(2) by (auto simp: in_set_enumerate_eq)
  from bucket_push_ok[OF this]
  have push: "fold_opt (bucket_push (\<lambda>pv. vp (snd pv))) (replicate (shards net) []) (enumerate 0 vals) =
              Some (map g [0..<shards net])" by (simp add: g_def[abs_def])
  have "query_and_write E (ByValue vp) net vals is_last sink =
      send_each E net (map (\<lambda>(sid, b). (sid, mk b)) (filter (\<lambda>(sid, b). b \<noteq> [] \<or> is_last) (enumerate 0 (map g [0..<shards net]))))"
    using assms(3,4) push by (auto simp: query_and_write_def mk_def[abs_def])
  also have "\<dots> = send_each E net ?msgs" by (simp add: enumerate_map_upt filter_map o_def)
  also have "\<dots> = Some (deliver net (\<lambda>sid. if g sid \<noteq> [] \<or> is_last then [mk (g sid)] else []), Inr ())"
    by (rule send_each_eq[OF assms(1) _ messages_for_map_upt[of _ _ mk g "\<lambda>b. b \<noteq> [] \<or> is_last"]]) auto
  finally show ?thesis unfolding mk_def g_def Let_def .
qed

subsection \<open>Properties\<close>

lemma mset_buckets:
  assumes "routed part n pairs"
  shows "mset (concat (map (bucket_of part pairs) [0..<n])) = mset pairs"
  using assms
proof (induction pairs)
  case (Cons kv pairs)
  then obtain sid where sid: "sid < n" "shard_of part kv = Some sid" by (auto simp: routed_def)
  have "(\<Sum>i = 0..<n. if sid = i then {#kv#} else {#}) = {#kv#}" using sid(1) by simp
  moreover have "mset (concat (map (bucket_of part (kv # pairs)) [0..<n])) =
      (\<Sum>i = 0..<n. (if sid = i then {#kv#} else {#}) + mset (bucket_of part pairs i))"
    unfolding mset_concat using sid(2)
    by (simp add: sum_list_distinct_conv_sum_set interv_sum_list_conv_sum_set_nat o_def) (rule sum.cong, auto)
  moreover have "mset (concat (map (bucket_of part pairs) [0..<n])) = (\<Sum>i = 0..<n. mset (bucket_of part pairs i))"
    unfolding mset_concat by (simp add: interv_sum_list_conv_sum_set_nat o_def)
  ultimately show ?case using Cons by (simp add: routed_def sum.distrib)
qed simp


definition demo_net :: "(nat, nat, unit) net" where
  "demo_net = \<lparr>queues = [[], [ReadyForFlush 9], []], next_chan = 0\<rparr>"

definition demo_net_env :: "((nat \<rightharpoonup> nat) plain_table, nat, nat, unit, (nat \<rightharpoonup> nat) plain_table) net_env" where
  "demo_net_env = \<lparr>ne_fsm = demo_env, ne_start = (\<lambda>_. (\<lparr>pt_table = Map.empty\<rparr>, Idle)), ne_try_send = (\<lambda>_ _. Sent), ne_send_ok = (\<lambda>_ _. True),
     ne_send_error = [], ne_recv_error = []\<rparr>"


text \<open>
  A query over several shards asks for every value exactly once: with connected channels and at
  least two shards, every position of the list is sent, with its value, to the shard of the value and
  to no other; when the query is the last one every shard gets a message with the number of shards,
  so that as many announcements follow as are waited for.
\<close>

theorem query_routed_once:
  assumes "all_connected E" and "\<forall>v\<in>set vals. \<exists>sid < shards net. vp v = Some sid" and "1 < shards net"
  shows "\<exists>net'. query_and_write E (ByValue vp) net vals is_last sink = Some (net', Inr ()) \<and> shards net' = shards net \<and>
           (\<forall>sid < shards net. \<exists>b. (\<forall>pos v. (pos, v) \<in> set b \<longleftrightarrow> pos < length vals \<and> vals ! pos = v \<and> vp v = Some sid) \<and>
              distinct (map fst b) \<and>
              queues net' ! sid = queues net ! sid @
                (if b = [] \<and> \<not> is_last then [] else [QueryAndWrite (if is_last then Some (shards net) else None) b sink]))"
proof (cases "vals = [] \<and> \<not> is_last")
  case True
  then show ?thesis using assms(3) by (auto simp: query_and_write_def)
next
  case False
  define g where "g sid = filter (\<lambda>pv. vp (snd pv) = Some sid) (enumerate 0 vals)" for sid
  define net' where "net' = deliver net (\<lambda>sid. if g sid \<noteq> [] \<or> is_last
    then [QueryAndWrite (if is_last then Some (shards net) else None) (g sid) sink] else [])"
  have "query_and_write E (ByValue vp) net vals is_last sink = Some (net', Inr ())"
    unfolding net'_def g_def using query_and_write_ok[OF assms] False unfolding Let_def by blast
  moreover have "\<forall>pos v. (pos, v) \<in> set (g sid) \<longleftrightarrow> pos < length vals \<and> vals ! pos = v \<and> vp v = Some sid" for sid
    by (auto simp: g_def in_set_enumerate_eq)
  moreover have "distinct (map fst (g sid))" for sid
    unfolding g_def by (rule distinct_map_filter) simp
  moreover have "queues net' ! sid = queues net ! sid @
      (if g sid = [] \<and> \<not> is_last then [] else [QueryAndWrite (if is_last then Some (shards net) else None) (g sid) sink])"
    if "sid < shards net" for sid using that by (simp add: net'_def)
  moreover have "shards net' = shards net" by (simp add: net'_def)
  ultimately show ?thesis by blast
qed

theorem query_routed_once_witness:
  "\<exists>net'. query_and_write demo_net_env (ByValue (\<lambda>v. Some (v mod 3))) demo_net [5, 3, 8] True 1 = Some (net', Inr ()) \<and>
     (\<exists>b. (\<forall>pos v. (pos, v) \<in> set b \<longleftrightarrow> pos < 3 \<and> [5, 3, 8] ! pos = v \<and> Some (v mod 3) = Some 2) \<and>
        queues net' ! 2 = [QueryAndWrite (Some 3) b 1])"
proof -
  have "\<forall>v\<in>set [5, 3, 8]. \<exists>sid < shards demo_net. Some (v mod 3) = Some sid" by (simp add: shards_def demo_net_def)
  moreover have "all_connected demo_net_env" by (simp add: all_connected_def demo_net_env_def)
  moreover have n: "shards demo_net = 3" "queues demo_net ! 2 = []" by (simp_all add: shards_def demo_net_def)
  ultimately obtain net' where
    run: "query_and_write demo_net_env (ByValue (\<lambda>v. Some (v mod 3))) demo_net [5, 3, 8] True 1 = Some (net', Inr ())"
    and each: "\<forall>sid<3. \<exists>b. (\<forall>pos v. (pos, v) \<in> set b \<longleftrightarrow> pos < length [5, 3, 8 :: nat] \<and> [5, 3, 8] ! pos = v \<and> Some (v mod 3) = Some sid) \<and>
      distinct (map fst b) \<and> queues net' ! sid = queues demo_net ! sid @ [QueryAndWrite (Some 3) b 1]"
    using query_routed_once[of demo_net_env "[5, 3, 8]" demo_net "\<lambda>v. Some (v mod 3)" True 1] by auto
  from each[rule_format, of 2] n(2) run show ?thesis by auto
qed

end
