(* ===== verification/Table_Writer.thy ===== *)
theory Table_Writer
  imports Router
begin

section \<open>The writer of a sharded table\<close>

text \<open>
  The model of \<open>ShardedTableWriter\<close> in \<open>redbit/src/storage/table_writer.rs\<close> and of the futures of
  \<open>table_writer_api.rs\<close>. The writer keeps the pairs to be written on flush, knows whether a router was
  handed out (then a flush waits until every upstream shard is ready), and sends one command per shard
  for the start, the flush and the end of a transaction.

  The threads of the shards are the queues of \<open>Router\<close>; a future remembers the shard and the reply
  channel it waits on.
\<close>

record ('k, 'v) table_writer =
  root_pk :: bool
  tw_deferred :: bool
  sync_buf :: "('k \<times> 'v) list"

datatype start_future = StartFuture usize chan
datatype stop_future = StopFuture usize chan
datatype flush_future = Eager usize chan | Lazy usize

definition table_writer_new :: "bool \<Rightarrow> bool \<Rightarrow> ('k, 'v) table_writer" where
  "table_writer_new root defer_flush = \<lparr>root_pk = root, tw_deferred = defer_flush, sync_buf = []\<rparr>"

definition task_result_new :: "string \<Rightarrow> task_stats \<Rightarrow> task_result" where
  "task_result_new nm stats = \<lparr>task_name = nm, task_stats_of = stats\<rparr>"

definition task_result_master :: "nat \<Rightarrow> task_result" where
  "task_result_master took =
     task_result_new ''MASTER'' \<lparr>collect_took = took, sort_took = 0, write_took = 0, flush_took = 0\<rparr>"

subsection \<open>Sending to a shard and waiting for it\<close>

definition topic_send ::
    "('s, 'k, 'v, 'd, 'db) net_env \<Rightarrow> ('k, 'v, 'd) net \<Rightarrow> usize \<Rightarrow> ('k, 'v, 'd) writer_command \<Rightarrow> ('k, 'v, 'd) net \<times> unit res" where
  "topic_send E net sid msg =
     (if ne_send_ok E sid (queues net ! sid) then (enqueue net sid msg, Inr ())
      else (net, Inl (Custom (''send error: '' @ ne_send_error E))))"

fun unit_reply :: "chan \<Rightarrow> ('k, 'v) event \<Rightarrow> unit res option" where
  "unit_reply ack (Ack_Unit a r) = (if a = ack then Some r else None)"
| "unit_reply ack _ = None"

fun task_reply :: "chan \<Rightarrow> ('k, 'v) event \<Rightarrow> task_result res option" where
  "task_reply ack (Ack_Task a r) = (if a = ack then Some r else None)"
| "task_reply ack _ = None"

fun start_wait :: "('s, 'k, 'v, 'd, 'db) net_env \<Rightarrow> ('k, 'v, 'd) net \<Rightarrow> start_future \<Rightarrow> unit res option" where
  "start_wait E net (StartFuture sid ack) = map_option flatten (recv_reply E net sid ack (unit_reply ack))"

text \<open>Joining a thread fails when it panicked.\<close>

definition join_thread :: "('s, 'k, 'v, 'd, 'db) net_env \<Rightarrow> ('k, 'v, 'd) net \<Rightarrow> usize \<Rightarrow> unit res" where
  "join_thread E net sid =
     (if shard_run E net sid = None then Inl (Custom ''Write table join failed'') else Inr ())"

fun stop_wait :: "('s, 'k, 'v, 'd, 'db) net_env \<Rightarrow> ('k, 'v, 'd) net \<Rightarrow> stop_future \<Rightarrow> unit res option" where
  "stop_wait E net (StopFuture sid ack) =
     do {
       r \<leftarrow> recv_reply E net sid ack (unit_reply ack);
       (case flatten r of Inl e \<Rightarrow> Some (Inl e) | Inr _ \<Rightarrow> Some (join_thread E net sid))
     }"

text \<open>A lazy flush is sent when it is waited for.\<close>

definition fire_flush ::
    "('s, 'k, 'v, 'd, 'db) net_env \<Rightarrow> ('k, 'v, 'd) net \<Rightarrow> usize \<Rightarrow> ('k, 'v, 'd) net \<times> chan res" where
  "fire_flush E net sid =
     (case new_chan net of (ack, net0) \<Rightarrow>
        if ne_send_ok E sid (queues net0 ! sid) then (enqueue net0 sid (Flush ack), Inr ack)
        else (net0, Inl (Custom (ne_send_error E))))"

fun flush_wait :: "('s, 'k, 'v, 'd, 'db) net_env \<Rightarrow> ('k, 'v, 'd) net \<Rightarrow> flush_future \<Rightarrow> ('k, 'v, 'd, task_result) net_result" where
  "flush_wait E net (Eager sid ack) =
     map_option (\<lambda>r. (net, flatten r)) (recv_reply E net sid ack (task_reply ack))"
| "flush_wait E net (Lazy sid) =
     (case fire_flush E net sid of
        (net1, Inl e) \<Rightarrow> Some (net1, Inl e)
      | (net1, Inr ack) \<Rightarrow> map_option (\<lambda>r. (net1, flatten r)) (recv_reply E net1 sid ack (task_reply ack)))"

fun wait_tasks ::
    "('s, 'k, 'v, 'd, 'db) net_env \<Rightarrow> ('k, 'v, 'd) net \<Rightarrow> flush_future list \<Rightarrow> ('k, 'v, 'd, task_result list) net_result" where
  "wait_tasks E net [] = Some (net, Inr [])"
| "wait_tasks E net (f # fs) =
     do {
       (net1, r) \<leftarrow> flush_wait E net f;
       (case r of
          Inl e \<Rightarrow> Some (net1, Inl e)
        | Inr t \<Rightarrow> map_option (\<lambda>(net2, rs). (net2, map_sum id (Cons t) rs)) (wait_tasks E net1 fs))
     }"

text \<open>One entry per name, the slowest; the first of equally slow ones stays.\<close>

definition keep_slowest :: "(string \<rightharpoonup> task_result) \<Rightarrow> task_result \<Rightarrow> (string \<rightharpoonup> task_result)" where
  "keep_slowest by_name res =
     (case by_name (task_name res) of
        None \<Rightarrow> by_name(task_name res \<mapsto> res)
      | Some old \<Rightarrow>
          if stats_sum (task_stats_of res) > stats_sum (task_stats_of old)
          then by_name(task_name res \<mapsto> res) else by_name)"

fun dedup_loop ::
    "('s, 'k, 'v, 'd, 'db) net_env \<Rightarrow> ('k, 'v, 'd) net \<Rightarrow> (string \<rightharpoonup> task_result) \<Rightarrow> flush_future list \<Rightarrow>
     ('k, 'v, 'd, string \<rightharpoonup> task_result) net_result" where
  "dedup_loop E net by_name [] = Some (net, Inr by_name)"
| "dedup_loop E net by_name (f # fs) =
     do {
       (net1, r) \<leftarrow> flush_wait E net f;
       (case r of
          Inl e \<Rightarrow> Some (net1, Inl e)
        | Inr t \<Rightarrow> dedup_loop E net1 (keep_slowest by_name t) fs)
     }"

definition dedup_tasks_keep_slowest ::
    "('s, 'k, 'v, 'd, 'db) net_env \<Rightarrow> ('k, 'v, 'd) net \<Rightarrow> flush_future list \<Rightarrow> ('k, 'v, 'd, string \<rightharpoonup> task_result) net_result" where
  "dedup_tasks_keep_slowest E net futs = dedup_loop E net Map.empty futs"

subsection \<open>The operations of the writer\<close>

type_synonym ('k, 'v, 'd, 'a) writer_result = "(('k, 'v) table_writer \<times> ('k, 'v, 'd) net \<times> 'a res) option"

definition acquire_router :: "('k, 'v) table_writer \<Rightarrow> ('k, 'v) table_writer" where
  "acquire_router w = w\<lparr>tw_deferred := True\<rparr>"

text \<open>The start of a transaction: the reply of a shard is received, but its content is not looked at.\<close>

fun begin_shards ::
    "('s, 'k, 'v, 'd, 'db) net_env \<Rightarrow> ('k, 'v, 'd) net \<Rightarrow> 'd \<Rightarrow> usize list \<Rightarrow> ('k, 'v, 'd, unit) net_result" where
  "begin_shards E net dur [] = Some (net, Inr ())"
| "begin_shards E net dur (sid # sids) =
     (case new_chan net of (ack, net0) \<Rightarrow>
        case topic_send E net0 sid (Begin ack dur) of
          (net1, Inl e) \<Rightarrow> Some (net1, Inl e)
        | (net1, Inr _) \<Rightarrow> do {
            r \<leftarrow> recv_reply E net1 sid ack (unit_reply ack);
            (case r of Inl e \<Rightarrow> Some (net1, Inl e) | Inr _ \<Rightarrow> begin_shards E net1 dur sids)
          })"

definition begin_tx :: "('s, 'k, 'v, 'd, 'db) net_env \<Rightarrow> ('k, 'v, 'd) net \<Rightarrow> 'd \<Rightarrow> ('k, 'v, 'd, unit) net_result" where
  "begin_tx E net dur = begin_shards E net dur [0..<shards net]"

text \<open>A command with a reply channel to every shard, without waiting.\<close>

fun send_async ::
    "('s, 'k, 'v, 'd, 'db) net_env \<Rightarrow> ('k, 'v, 'd) net \<Rightarrow> (chan \<Rightarrow> ('k, 'v, 'd) writer_command) \<Rightarrow> (usize \<Rightarrow> chan \<Rightarrow> 'f) \<Rightarrow>
     usize list \<Rightarrow> ('k, 'v, 'd) net \<times> 'f list res" where
  "send_async E net mk fut [] = (net, Inr [])"
| "send_async E net mk fut (sid # sids) =
     (case new_chan net of (ack, net0) \<Rightarrow>
        case topic_send E net0 sid (mk ack) of
          (net1, Inl e) \<Rightarrow> (net1, Inl e)
        | (net1, Inr _) \<Rightarrow> (case send_async E net1 mk fut sids of
            (net2, rs) \<Rightarrow> (net2, map_sum id (Cons (fut sid ack)) rs)))"

definition begin_async :: "('s, 'k, 'v, 'd, 'db) net_env \<Rightarrow> ('k, 'v, 'd) net \<Rightarrow> 'd \<Rightarrow> ('k, 'v, 'd) net \<times> start_future list res" where
  "begin_async E net dur = send_async E net (\<lambda>ack. Begin ack dur) StartFuture [0..<shards net]"

definition insert_on_flush :: "('k, 'v) table_writer \<Rightarrow> 'k \<Rightarrow> 'v \<Rightarrow> ('k, 'v) table_writer \<times> unit res" where
  "insert_on_flush w k v = (w\<lparr>sync_buf := sync_buf w @ [(k, v)]\<rparr>, Inr ())"

definition insert_now ::
    "('s, 'k, 'v, 'd, 'db) net_env \<Rightarrow> ('k, 'v) shard_fn \<Rightarrow> ('k, 'v, 'd) net \<Rightarrow> 'k \<Rightarrow> 'v \<Rightarrow> ('k, 'v, 'd, unit) net_result" where
  "insert_now E part net k v = write_insert_now E part net k v"

text \<open>The buffered pairs leave the writer before they are sent, also when the sending fails.\<close>

definition send_sync_buf ::
    "('s, 'k, 'v, 'd, 'db) net_env \<Rightarrow> ('k, 'v) shard_fn \<Rightarrow> ('k, 'v) table_writer \<Rightarrow> ('k, 'v, 'd) net \<Rightarrow> ('k, 'v, 'd, unit) writer_result" where
  "send_sync_buf E part w net =
     (if sync_buf w = [] then Some (w, net, Inr ())
      else map_option (\<lambda>(net1, r). (w\<lparr>sync_buf := []\<rparr>, net1, r))
             (write_sorted_inserts_on_flush E part net (sync_buf w)))"

definition flush_command :: "('k, 'v) table_writer \<Rightarrow> chan \<Rightarrow> ('k, 'v, 'd) writer_command" where
  "flush_command w ack = (if tw_deferred w then FlushWhenReady ack else Flush ack)"

text \<open>The slowest task; the last of equally slow ones.\<close>

fun slowest_task :: "task_result list \<Rightarrow> task_result option" where
  "slowest_task [] = None"
| "slowest_task (t # ts) =
     (case slowest_task ts of
        None \<Rightarrow> Some t
      | Some u \<Rightarrow> Some (if stats_sum (task_stats_of t) \<le> stats_sum (task_stats_of u) then u else t))"

definition flush_writer ::
    "('s, 'k, 'v, 'd, 'db) net_env \<Rightarrow> ('k, 'v) shard_fn \<Rightarrow> ('k, 'v) table_writer \<Rightarrow> ('k, 'v, 'd) net \<Rightarrow>
     ('k, 'v, 'd, task_result) writer_result" where
  "flush_writer E part w net =
     do {
       (w1, net1, r) \<leftarrow> send_sync_buf E part w net;
       (case r of
          Inl e \<Rightarrow> Some (w1, net1, Inl e)
        | Inr _ \<Rightarrow>
            (case send_async E net1 (flush_command w1) Eager [0..<shards net1] of
               (net2, Inl e) \<Rightarrow> Some (w1, net2, Inl e)
             | (net2, Inr acks) \<Rightarrow> do {
                 (net3, r3) \<leftarrow> wait_tasks E net2 acks;
                 (case r3 of
                    Inl e \<Rightarrow> Some (w1, net3, Inl e)
                  | Inr tasks \<Rightarrow> do { t \<leftarrow> slowest_task tasks; Some (w1, net3, Inr t) })
               }))
     }"

definition flush_async ::
    "('s, 'k, 'v, 'd, 'db) net_env \<Rightarrow> ('k, 'v) shard_fn \<Rightarrow> ('k, 'v) table_writer \<Rightarrow> ('k, 'v, 'd) net \<Rightarrow>
     ('k, 'v, 'd, flush_future list) writer_result" where
  "flush_async E part w net =
     do {
       (w1, net1, r) \<leftarrow> send_sync_buf E part w net;
       (case r of
          Inl e \<Rightarrow> Some (w1, net1, Inl e)
        | Inr _ \<Rightarrow>
            if root_pk w1 then Some (w1, net1, Inr (map Lazy [0..<shards net1]))
            else (case send_async E net1 (flush_command w1) Eager [0..<shards net1] of
                    (net2, rs) \<Rightarrow> Some (w1, net2, rs)))
     }"

fun shutdown_shards ::
    "('s, 'k, 'v, 'd, 'db) net_env \<Rightarrow> ('k, 'v, 'd) net \<Rightarrow> usize list \<Rightarrow> ('k, 'v, 'd, unit) net_result" where
  "shutdown_shards E net [] = Some (net, Inr ())"
| "shutdown_shards E net (sid # sids) =
     (case new_chan net of (ack, net0) \<Rightarrow>
        case topic_send E net0 sid (Shutdown ack) of
          (net1, Inl e) \<Rightarrow> Some (net1, Inl e)
        | (net1, Inr _) \<Rightarrow> do {
            r \<leftarrow> stop_wait E net1 (StopFuture sid ack);
            (case r of Inl e \<Rightarrow> Some (net1, Inl e) | Inr _ \<Rightarrow> shutdown_shards E net1 sids)
          })"

definition shutdown_writer :: "('s, 'k, 'v, 'd, 'db) net_env \<Rightarrow> ('k, 'v, 'd) net \<Rightarrow> ('k, 'v, 'd, unit) net_result" where
  "shutdown_writer E net = shutdown_shards E net [0..<shards net]"

definition shutdown_async :: "('s, 'k, 'v, 'd, 'db) net_env \<Rightarrow> ('k, 'v, 'd) net \<Rightarrow> ('k, 'v, 'd) net \<times> stop_future list res" where
  "shutdown_async E net = send_async E net Shutdown StopFuture [0..<shards net]"

end
