(* ===== verification/Sharded_Reader.thy ===== *)
theory Sharded_Reader
  imports Partitioning Plain_Table Index_Table Dict_Table
begin

section \<open>Readers of sharded tables\<close>

text \<open>
  The model of the read side: \<open>table_plain_read.rs\<close>, \<open>table_index_read.rs\<close>, \<open>table_dict_read.rs\<close> and the
  dispatching \<open>ShardedTableReader\<close> of \<open>table_writer_api.rs\<close>. A reader holds one snapshot per shard; a
  lookup goes to the shard of the key or of the value, or through all shards.

  The read operations of redb are a record of parameters per kind of table: key to value (\<open>'t\<close>), value
  to key (\<open>'u\<close>), key to key (\<open>'w\<close>), and the multimaps from values to keys (\<open>'m\<close>) and from keys to keys (\<open>'n\<close>).
  Ranges are abstract. An operation that a kind leaves \<open>unimplemented!()\<close>, and an index out of range, is
  \<open>None\<close>.
\<close>

record redb_stats =
  ts_tree_height :: nat
  ts_leaf_pages :: nat
  ts_branch_pages :: nat
  ts_stored_bytes :: nat
  ts_metadata_bytes :: nat
  ts_fragmented_bytes :: nat

record table_info =
  ti_table_name :: string
  ti_table_entries :: nat
  ti_tree_height :: nat
  ti_leaf_pages :: nat
  ti_branch_pages :: nat
  ti_stored_leaf_bytes :: nat
  ti_metadata_bytes :: nat
  ti_fragmented_bytes :: nat

definition from_stats :: "string \<Rightarrow> nat \<Rightarrow> redb_stats \<Rightarrow> table_info" where
  "from_stats nm entries st =
     \<lparr>ti_table_name = nm, ti_table_entries = entries, ti_tree_height = ts_tree_height st,
      ti_leaf_pages = ts_leaf_pages st, ti_branch_pages = ts_branch_pages st,
      ti_stored_leaf_bytes = ts_stored_bytes st, ti_metadata_bytes = ts_metadata_bytes st,
      ti_fragmented_bytes = ts_fragmented_bytes st\<rparr>"

record ('t, 'k, 'v, 'r) read_ops =
  ro_get :: "'t \<Rightarrow> 'k \<Rightarrow> 'v option res"
  ro_first :: "'t \<Rightarrow> ('k \<times> 'v) option res"
  ro_last :: "'t \<Rightarrow> ('k \<times> 'v) option res"
  ro_range :: "'t \<Rightarrow> 'r \<Rightarrow> ('k \<times> 'v) list res"
  ro_iter :: "'t \<Rightarrow> ('k \<times> 'v) list res"
  ro_len :: "'t \<Rightarrow> nat res"
  ro_stats :: "'t \<Rightarrow> redb_stats res"

record ('m, 'v, 'k, 'q) read_mm_ops =
  rm_get :: "'m \<Rightarrow> 'v \<Rightarrow> 'k list res"
  rm_range :: "'m \<Rightarrow> 'q \<Rightarrow> ('v \<times> 'k list) list res"
  rm_len :: "'m \<Rightarrow> nat res"
  rm_stats :: "'m \<Rightarrow> redb_stats res"

record ('t, 'u, 'w, 'm, 'n, 'k, 'v, 'r, 'q) reader_env =
  rd_kv :: "('t, 'k, 'v, 'r) read_ops"
  rd_vk :: "('u, 'v, 'k, 'q) read_ops"
  rd_kk :: "('w, 'k, 'k, 'r) read_ops"
  rd_mm :: "('m, 'v, 'k, 'q) read_mm_ops"
  rd_ids :: "('n, 'k, 'k, 'r) read_mm_ops"

subsection \<open>Opening the shards\<close>

text \<open>A read transaction on a database that is still open.\<close>

definition read_tx :: "('db \<Rightarrow> bool) \<Rightarrow> ('db \<Rightarrow> 'tx res) \<Rightarrow> 'db \<Rightarrow> 'tx res" where
  "read_tx upgrade begin_read db = (if upgrade db then begin_read db else Inl (Custom ''database closed''))"

fun open_shards :: "('db \<Rightarrow> 'tb res) \<Rightarrow> 'db list \<Rightarrow> 'tb list res" where
  "open_shards open_for_read [] = Inr []"
| "open_shards open_for_read (db # dbs) =
     (case open_for_read db of Inl e \<Rightarrow> Inl e | Inr t \<Rightarrow> map_sum id (Cons t) (open_shards open_for_read dbs))"

record ('m, 't) read_index_table =
  ri_pk_by_index :: 'm
  ri_index_by_pk :: 't

record ('n, 't, 'u, 'w) read_dict_table =
  rdt_dict_pk_to_ids :: 'n
  rdt_value_by_dict_pk :: 't
  rdt_value_to_dict_pk :: 'u
  rdt_dict_pk_by_id :: 'w

definition read_plain_new :: "('db \<Rightarrow> 'tx res) \<Rightarrow> ('tx \<Rightarrow> 'd \<Rightarrow> 't res) \<Rightarrow> 'd \<Rightarrow> 'db \<Rightarrow> 't res" where
  "read_plain_new tx_of open_table def db = (case tx_of db of Inl e \<Rightarrow> Inl e | Inr tx \<Rightarrow> open_table tx def)"

definition read_index_new ::
    "('db \<Rightarrow> 'tx res) \<Rightarrow> ('tx \<Rightarrow> 'md \<Rightarrow> 'm res) \<Rightarrow> ('tx \<Rightarrow> 'd \<Rightarrow> 't res) \<Rightarrow> ('md, 'd) index_factory \<Rightarrow> 'db \<Rightarrow>
     ('m, 't) read_index_table res" where
  "read_index_new tx_of open_mm open_table f db =
     (case tx_of db of Inl e \<Rightarrow> Inl e
      | Inr tx \<Rightarrow> (case open_mm tx (pk_by_index_def f) of Inl e \<Rightarrow> Inl e
        | Inr m \<Rightarrow> (case open_table tx (index_by_pk_def f) of Inl e \<Rightarrow> Inl e
          | Inr t \<Rightarrow> Inr \<lparr>ri_pk_by_index = m, ri_index_by_pk = t\<rparr>)))"

definition read_dict_new ::
    "('db \<Rightarrow> 'tx res) \<Rightarrow> ('tx \<Rightarrow> 'md \<Rightarrow> 'n res) \<Rightarrow> ('tx \<Rightarrow> 'd1 \<Rightarrow> 't res) \<Rightarrow> ('tx \<Rightarrow> 'd2 \<Rightarrow> 'u res) \<Rightarrow> ('tx \<Rightarrow> 'd3 \<Rightarrow> 'w res) \<Rightarrow>
     ('md, 'd1, 'd2, 'd3) dict_factory \<Rightarrow> 'db \<Rightarrow> ('n, 't, 'u, 'w) read_dict_table res" where
  "read_dict_new tx_of open_mm open_kv open_vk open_kk f db =
     (case tx_of db of Inl e \<Rightarrow> Inl e
      | Inr tx \<Rightarrow> (case open_mm tx (dict_pk_to_ids_def f) of Inl e \<Rightarrow> Inl e
        | Inr n \<Rightarrow> (case open_kv tx (value_by_dict_pk_def f) of Inl e \<Rightarrow> Inl e
          | Inr t \<Rightarrow> (case open_vk tx (value_to_dict_pk_def f) of Inl e \<Rightarrow> Inl e
            | Inr u \<Rightarrow> (case open_kk tx (dict_pk_by_id_def f) of Inl e \<Rightarrow> Inl e
              | Inr w \<Rightarrow> Inr \<lparr>rdt_dict_pk_to_ids = n, rdt_value_by_dict_pk = t, rdt_value_to_dict_pk = u,
                             rdt_dict_pk_by_id = w\<rparr>)))))"

subsection \<open>Choosing shards\<close>

definition pick_shard :: "('x \<Rightarrow> usize option) \<Rightarrow> 'tb list \<Rightarrow> 'x \<Rightarrow> 'tb option" where
  "pick_shard part tbs x =
     (if length tbs = 1 then Some (tbs ! 0)
      else do { sid \<leftarrow> part x; if sid < length tbs then Some (tbs ! sid) else None })"

definition only_shard :: "'tb list \<Rightarrow> 'tb option" where
  "only_shard tbs = (if length tbs = 1 then Some (tbs ! 0) else None)"

text \<open>The entries of all shards, capped at the largest \<open>u64\<close>.\<close>

fun sum_len :: "('tb \<Rightarrow> nat res) \<Rightarrow> nat \<Rightarrow> 'tb list \<Rightarrow> nat res" where
  "sum_len len acc [] = Inr acc"
| "sum_len len acc (t # ts) = (case len t of Inl e \<Rightarrow> Inl e | Inr n \<Rightarrow> sum_len len (saturating_add acc n) ts)"

definition shard_stats :: "string \<Rightarrow> ('tb \<Rightarrow> nat res) \<Rightarrow> ('tb \<Rightarrow> redb_stats res) \<Rightarrow> 'tb list \<Rightarrow> table_info list res option" where
  "shard_stats nm len stats tbs =
     (case sum_len len 0 tbs of
        Inl e \<Rightarrow> Some (Inl e)
      | Inr acc \<Rightarrow>
          if tbs = [] then None
          else Some (map_sum id (\<lambda>st. [from_stats nm acc st]) (stats (tbs ! 0))))"

subsection \<open>The three kinds\<close>

datatype ('t, 'u, 'w, 'm, 'n, 'k, 'v) sharded_reader =
    Plain_Reader "'t list" "'k \<Rightarrow> usize option"
  | Index_Reader "('m, 't) read_index_table list" "'v \<Rightarrow> usize option"
  | Dict_Reader "('n, 't, 'u, 'w) read_dict_table list" "'v \<Rightarrow> usize option"

definition plain_get_value ::
    "('t, 'k, 'v, 'r) read_ops \<Rightarrow> ('k \<Rightarrow> usize option) \<Rightarrow> 't list \<Rightarrow> 'k \<Rightarrow> 'v option res option" where
  "plain_get_value ops part tbs k = do { t \<leftarrow> pick_shard part tbs k; Some (ro_get ops t k) }"

fun index_get_value :: "('t, 'k, 'v, 'r) read_ops \<Rightarrow> ('m, 't) read_index_table list \<Rightarrow> 'k \<Rightarrow> 'v option res" where
  "index_get_value ops [] k = Inr None"
| "index_get_value ops (s # ss) k =
     (case ro_get ops (ri_index_by_pk s) k of
        Inl e \<Rightarrow> Inl e
      | Inr (Some v) \<Rightarrow> Inr (Some v)
      | Inr None \<Rightarrow> index_get_value ops ss k)"

definition index_index_keys ::
    "('m, 'v, 'k, 'q) read_mm_ops \<Rightarrow> ('v \<Rightarrow> usize option) \<Rightarrow> ('m, 't) read_index_table list \<Rightarrow> 'v \<Rightarrow> 'k list res option" where
  "index_index_keys ops part ss v = do { s \<leftarrow> pick_shard part ss v; Some (rm_get ops (ri_pk_by_index s) v) }"

fun dict_get_value ::
    "('w, 'k, 'k, 'r) read_ops \<Rightarrow> ('t, 'k, 'v, 'r) read_ops \<Rightarrow> ('n, 't, 'u, 'w) read_dict_table list \<Rightarrow> 'k \<Rightarrow> 'v option res" where
  "dict_get_value kk kv [] k = Inr None"
| "dict_get_value kk kv (s # ss) k =
     (case ro_get kk (rdt_dict_pk_by_id s) k of
        Inl e \<Rightarrow> Inl e
      | Inr (Some birth_id) \<Rightarrow> ro_get kv (rdt_value_by_dict_pk s) birth_id
      | Inr None \<Rightarrow> dict_get_value kk kv ss k)"

definition dict_dict_keys ::
    "('u, 'v, 'k, 'q) read_ops \<Rightarrow> ('n, 'k, 'k, 'r) read_mm_ops \<Rightarrow> ('v \<Rightarrow> usize option) \<Rightarrow> ('n, 't, 'u, 'w) read_dict_table list \<Rightarrow>
     'v \<Rightarrow> 'k list option res option" where
  "dict_dict_keys vk ids part ss v =
     do {
       s \<leftarrow> pick_shard part ss v;
       Some (case ro_get vk (rdt_value_to_dict_pk s) v of
               Inl e \<Rightarrow> Inl e
             | Inr (Some birth_id) \<Rightarrow> map_sum id Some (rm_get ids (rdt_dict_pk_to_ids s) birth_id)
             | Inr None \<Rightarrow> Inr None)
     }"

subsection \<open>Dispatch\<close>

definition reader_get_value ::
    "('t, 'u, 'w, 'm, 'n, 'k, 'v, 'r, 'q) reader_env \<Rightarrow> ('t, 'u, 'w, 'm, 'n, 'k, 'v) sharded_reader \<Rightarrow> 'k \<Rightarrow> 'v option res option" where
  "reader_get_value E rd k =
     (case rd of
        Plain_Reader ts part \<Rightarrow> plain_get_value (rd_kv E) part ts k
      | Index_Reader ss part \<Rightarrow> Some (index_get_value (rd_kv E) ss k)
      | Dict_Reader ss part \<Rightarrow> Some (dict_get_value (rd_kk E) (rd_kv E) ss k))"

definition reader_index_keys ::
    "('t, 'u, 'w, 'm, 'n, 'k, 'v, 'r, 'q) reader_env \<Rightarrow> ('t, 'u, 'w, 'm, 'n, 'k, 'v) sharded_reader \<Rightarrow> 'v \<Rightarrow> 'k list res option" where
  "reader_index_keys E rd v =
     (case rd of
        Index_Reader ss part \<Rightarrow> index_index_keys (rd_mm E) part ss v
      | _ \<Rightarrow> Some (Inl (Custom ''index_keys unsupported for this table kind'')))"

definition reader_dict_keys ::
    "('t, 'u, 'w, 'm, 'n, 'k, 'v, 'r, 'q) reader_env \<Rightarrow> ('t, 'u, 'w, 'm, 'n, 'k, 'v) sharded_reader \<Rightarrow> 'v \<Rightarrow> 'k list option res option" where
  "reader_dict_keys E rd v =
     (case rd of
        Dict_Reader ss part \<Rightarrow> dict_dict_keys (rd_vk E) (rd_ids E) part ss v
      | _ \<Rightarrow> Some (Inl (Custom ''dict_keys unsupported for this table kind'')))"

definition reader_iter_keys ::
    "('t, 'u, 'w, 'm, 'n, 'k, 'v, 'r, 'q) reader_env \<Rightarrow> ('t, 'u, 'w, 'm, 'n, 'k, 'v) sharded_reader \<Rightarrow> ('k \<times> 'v) list res option" where
  "reader_iter_keys E rd =
     (case rd of
        Plain_Reader ts part \<Rightarrow> map_option (ro_iter (rd_kv E)) (only_shard ts)
      | _ \<Rightarrow> None)"

definition reader_range ::
    "('t, 'u, 'w, 'm, 'n, 'k, 'v, 'r, 'q) reader_env \<Rightarrow> ('t, 'u, 'w, 'm, 'n, 'k, 'v) sharded_reader \<Rightarrow> 'r \<Rightarrow> ('k \<times> 'v) list res option" where
  "reader_range E rd r =
     (case rd of
        Plain_Reader ts part \<Rightarrow> map_option (\<lambda>t. ro_range (rd_kv E) t r) (only_shard ts)
      | _ \<Rightarrow> None)"

definition reader_index_range ::
    "('t, 'u, 'w, 'm, 'n, 'k, 'v, 'r, 'q) reader_env \<Rightarrow> ('t, 'u, 'w, 'm, 'n, 'k, 'v) sharded_reader \<Rightarrow> 'q \<Rightarrow> ('v \<times> 'k list) list res option" where
  "reader_index_range E rd r =
     (case rd of
        Index_Reader ss part \<Rightarrow> map_option (\<lambda>s. rm_range (rd_mm E) (ri_pk_by_index s) r) (only_shard ss)
      | _ \<Rightarrow> Some (Inl (Custom ''index_range unsupported for this table kind'')))"

definition reader_first_key ::
    "('t, 'u, 'w, 'm, 'n, 'k, 'v, 'r, 'q) reader_env \<Rightarrow> ('t, 'u, 'w, 'm, 'n, 'k, 'v) sharded_reader \<Rightarrow> ('k \<times> 'v) option res option" where
  "reader_first_key E rd =
     (case rd of Plain_Reader ts part \<Rightarrow> map_option (ro_first (rd_kv E)) (only_shard ts) | _ \<Rightarrow> None)"

definition reader_last_key ::
    "('t, 'u, 'w, 'm, 'n, 'k, 'v, 'r, 'q) reader_env \<Rightarrow> ('t, 'u, 'w, 'm, 'n, 'k, 'v) sharded_reader \<Rightarrow> ('k \<times> 'v) option res option" where
  "reader_last_key E rd =
     (case rd of Plain_Reader ts part \<Rightarrow> map_option (ro_last (rd_kv E)) (only_shard ts) | _ \<Rightarrow> None)"

definition reader_stats ::
    "('t, 'u, 'w, 'm, 'n, 'k, 'v, 'r, 'q) reader_env \<Rightarrow> ('t, 'u, 'w, 'm, 'n, 'k, 'v) sharded_reader \<Rightarrow> table_info list res option" where
  "reader_stats E rd =
     (case rd of
        Plain_Reader ts part \<Rightarrow> shard_stats ''underlying'' (ro_len (rd_kv E)) (ro_stats (rd_kv E)) ts
      | Index_Reader ss part \<Rightarrow>
          shard_stats ''pk_by_index'' (rm_len (rd_mm E) \<circ> ri_pk_by_index) (rm_stats (rd_mm E) \<circ> ri_pk_by_index) ss
      | Dict_Reader ss part \<Rightarrow>
          shard_stats ''distinct_values'' (ro_len (rd_kv E) \<circ> rdt_value_by_dict_pk) (ro_stats (rd_kv E) \<circ> rdt_value_by_dict_pk) ss)"

text \<open>Which kind of reader a table gets depends on its factory; the partitioning must match the kind.\<close>

datatype ('tb1, 'tb2, 'tb3) read_factory = Plain_Factory 'tb1 | Index_Factory 'tb2 | Dict_Factory 'tb3

definition build_sharded_reader ::
    "('db \<Rightarrow> 't res, 'db \<Rightarrow> ('m, 't) read_index_table res, 'db \<Rightarrow> ('n, 't, 'u, 'w) read_dict_table res) read_factory \<Rightarrow> 'db list \<Rightarrow>
     ('k \<Rightarrow> usize option, 'v \<Rightarrow> usize option) partitioning \<Rightarrow> ('t, 'u, 'w, 'm, 'n, 'k, 'v) sharded_reader res" where
  "build_sharded_reader f dbs part =
     (case f of
        Plain_Factory open_for_read \<Rightarrow>
          (case part of
             ByKey kp \<Rightarrow> map_sum id (\<lambda>ts. Plain_Reader ts kp) (open_shards open_for_read dbs)
           | ByValue _ \<Rightarrow> Inl (Custom ''PlainFactory does not support value partitioning''))
      | Index_Factory open_for_read \<Rightarrow>
          (case part of
             ByKey _ \<Rightarrow> Inl (Custom ''IndexFactory does not support key partitioning'')
           | ByValue vp \<Rightarrow> map_sum id (\<lambda>ss. Index_Reader ss vp) (open_shards open_for_read dbs))
      | Dict_Factory open_for_read \<Rightarrow>
          (case part of
             ByKey _ \<Rightarrow> Inl (Custom ''DictFactory does not support key partitioning'')
           | ByValue vp \<Rightarrow> map_sum id (\<lambda>ss. Dict_Reader ss vp) (open_shards open_for_read dbs)))"

definition reader_from_dbs where
  "reader_from_dbs f dbs part =
     (if length dbs < 1
      then Inl (Custom (''ShardedReadOnlyTable expected at least one database, got 0''))
      else build_sharded_reader f dbs part)"

subsection \<open>A lookup through all shards\<close>

definition reads :: "('t, 'k, 'v, 'r) read_ops \<Rightarrow> ('t \<Rightarrow> 'k \<rightharpoonup> 'v) \<Rightarrow> bool" where
  "reads ops view \<longleftrightarrow> (\<forall>t k. ro_get ops t k = Inr (view t k))"

definition reads_mm :: "('m, 'v, 'k, 'q) read_mm_ops \<Rightarrow> ('m \<Rightarrow> 'v \<Rightarrow> 'k set) \<Rightarrow> bool" where
  "reads_mm ops view \<longleftrightarrow> (\<forall>m v. \<exists>ks. rm_get ops m v = Inr ks \<and> set ks = view m v)"

fun first_found :: "('s \<Rightarrow> 'v option) \<Rightarrow> 's list \<Rightarrow> 'v option" where
  "first_found f [] = None"
| "first_found f (s # ss) = (case f s of Some v \<Rightarrow> Some v | None \<Rightarrow> first_found f ss)"

text \<open>Shards that hold a value for at most one of their positions are searched as their union.\<close>

definition exclusive :: "('s \<Rightarrow> 'k \<rightharpoonup> 'v) \<Rightarrow> 's list \<Rightarrow> bool" where
  "exclusive f ss \<longleftrightarrow>
     (\<forall>i j k. i < length ss \<longrightarrow> j < length ss \<longrightarrow> f (ss ! i) k \<noteq> None \<longrightarrow> f (ss ! j) k \<noteq> None \<longrightarrow> i = j)"

lemma first_found_eq:
  assumes "exclusive f ss" and "i < length ss" and "f (ss ! i) k = Some v"
  shows "first_found (\<lambda>s. f s k) ss = Some v"
  using assms
proof (induction ss arbitrary: i)
  case (Cons s ss)
  have sub: "exclusive f ss"
    unfolding exclusive_def
  proof (intro allI impI)
    fix i j k assume "i < length ss" "j < length ss" "f (ss ! i) k \<noteq> None" "f (ss ! j) k \<noteq> None"
    with Cons.prems(1)[unfolded exclusive_def, rule_format, of "Suc i" "Suc j" k] show "i = j" by simp
  qed
  show ?case
  proof (cases i)
    case 0
    with Cons.prems show ?thesis by simp
  next
    case (Suc j)
    then have "f s k = None"
      using Cons.prems(1)[unfolded exclusive_def, rule_format, of 0 i k] Cons.prems(2,3) by (cases "f s k") auto
    with Cons.IH[OF sub, of j] Suc Cons.prems show ?thesis by simp
  qed
qed simp

lemma first_foundD: "first_found (\<lambda>s. f s k) ss = Some v \<Longrightarrow> \<exists>i < length ss. f (ss ! i) k = Some v"
proof (induction ss)
  case (Cons s ss)
  then show ?case by (cases "f s k") (auto intro: exI[of _ 0] exI[of _ "Suc _"])
qed simp

lemma index_get_value_found:
  "reads ops view \<Longrightarrow> index_get_value ops ss k = Inr (first_found (\<lambda>s. view (ri_index_by_pk s) k) ss)"
  by (induction ss) (auto simp: reads_def split: option.split)

lemma dict_ok_births:
  assumes "dict_ok d" and "birth_by d k = Some b"
  shows "\<exists>v. value_of d b = Some v"
  using assms dict_okD(1,3)[OF assms(1)] by (metis empty_iff option.exhaust)

lemma dict_get_value_found:
  assumes "reads kk wv" and "reads kv tv"
    and "\<forall>s\<in>set ss. dict_ok \<lparr>keys_of = nv s, value_of = tv (rdt_value_by_dict_pk s), birth_of = uv s, birth_by = wv (rdt_dict_pk_by_id s)\<rparr>"
  shows "dict_get_value kk kv ss k =
         Inr (first_found (\<lambda>s. Option.bind (wv (rdt_dict_pk_by_id s) k) (tv (rdt_value_by_dict_pk s))) ss)"
  using assms(3)
proof (induction ss)
  case (Cons s ss)
  show ?case
  proof (cases "wv (rdt_dict_pk_by_id s) k")
    case None
    with assms(1) Cons show ?thesis by (simp add: reads_def)
  next
    case (Some b)
    with Cons.prems have "\<exists>v. tv (rdt_value_by_dict_pk s) b = Some v" using dict_ok_births by fastforce
    with Some assms(1,2) show ?thesis by (auto simp: reads_def)
  qed
qed simp

lemma pick_shard_found:
  "part x = Some i \<Longrightarrow> i < length ss \<Longrightarrow> pick_shard part ss x = Some (ss ! i)"
  by (auto simp: pick_shard_def)

subsection \<open>Properties\<close>

text \<open>Value partitioning: a key is stored in the shard of its value.\<close>

definition placed :: "('s \<Rightarrow> 'k \<rightharpoonup> 'v) \<Rightarrow> ('v \<Rightarrow> usize option) \<Rightarrow> 's list \<Rightarrow> bool" where
  "placed f part ss \<longleftrightarrow> (\<forall>i k v. i < length ss \<longrightarrow> f (ss ! i) k = Some v \<longrightarrow> part v = Some i)"

lemma placed_lookup:
  assumes "exclusive f ss" and "placed f part ss" and "part v = Some i" and "i < length ss"
  shows "first_found (\<lambda>s. f s k) ss = Some v \<longleftrightarrow> f (ss ! i) k = Some v"
  using first_found_eq[OF assms(1,4)] first_foundD[of f k ss v] assms(2,3) by (auto simp: placed_def)

definition read_dict_abs ::
    "('n \<Rightarrow> 'k \<Rightarrow> 'k set) \<Rightarrow> ('t \<Rightarrow> 'k \<rightharpoonup> 'v) \<Rightarrow> ('u \<Rightarrow> 'v \<rightharpoonup> 'k) \<Rightarrow> ('w \<Rightarrow> 'k \<rightharpoonup> 'k) \<Rightarrow> ('n, 't, 'u, 'w) read_dict_table \<Rightarrow> ('k, 'v) dict" where
  "read_dict_abs nv tv uv wv s =
     \<lparr>keys_of = nv (rdt_dict_pk_to_ids s), value_of = tv (rdt_value_by_dict_pk s),
      birth_of = uv (rdt_value_to_dict_pk s), birth_by = wv (rdt_dict_pk_by_id s)\<rparr>"

text \<open>
  C27. A sharded dictionary answers both directions of a lookup alike: when every shard is a consistent
  dictionary, values lie in the shard that the partitioner names and no key is in two shards, the keys
  that \<open>dict_keys\<close> returns for a value are exactly the keys whose \<open>get_value\<close> is that value, although the
  first looks at one shard and the second searches all of them.
\<close>

theorem dict_reader_inverse:
  assumes "reads kk wv" and "reads kv tv" and "reads vk uv" and "reads_mm ids nv"
    and "\<forall>s\<in>set ss. dict_ok (read_dict_abs nv tv uv wv s)"
    and "exclusive (\<lambda>s. dict_contents (read_dict_abs nv tv uv wv s)) ss"
    and "placed (\<lambda>s. dict_contents (read_dict_abs nv tv uv wv s)) part ss"
    and "part v = Some i" and "i < length ss"
  shows "\<exists>r. dict_dict_keys vk ids part ss v = Some (Inr r) \<and>
             (\<forall>k. (\<exists>ks. r = Some ks \<and> k \<in> set ks) \<longleftrightarrow> dict_get_value kk kv ss k = Inr (Some v))"
proof -
  let ?abs = "read_dict_abs nv tv uv wv" and ?s = "ss ! i"
  have ok: "dict_ok (?abs ?s)" using assms(5,9) by simp
  have "dict_get_value kk kv ss k = Inr (first_found (\<lambda>s. dict_contents (?abs s) k) ss)" for k
    using dict_get_value_found[OF assms(1,2), of ss "\<lambda>s. nv (rdt_dict_pk_to_ids s)" "\<lambda>s. uv (rdt_value_to_dict_pk s)"] assms(5)
    by (simp add: read_dict_abs_def dict_contents_def)
  then have get: "dict_get_value kk kv ss k = Inr (Some v) \<longleftrightarrow> dict_contents (?abs ?s) k = Some v" for k
    using placed_lookup[OF assms(6-9)] by simp
  have birth: "dict_contents (?abs ?s) k = Some v \<longleftrightarrow> (\<exists>b. birth_of (?abs ?s) v = Some b \<and> k \<in> keys_of (?abs ?s) b)" for k
    using dict_okD(1,2)[OF ok] by (auto simp: dict_contents_def bind_eq_Some_conv)
  show ?thesis
  proof (cases "uv (rdt_value_to_dict_pk ?s) v")
    case None
    then show ?thesis
      using get birth assms(3) pick_shard_found[of part v i ss] assms(8,9)
      by (auto simp: dict_dict_keys_def reads_def read_dict_abs_def)
  next
    case (Some b)
    from assms(4) obtain ks where ks: "rm_get ids (rdt_dict_pk_to_ids ?s) b = Inr ks" "set ks = nv (rdt_dict_pk_to_ids ?s) b"
      unfolding reads_mm_def by blast
    then show ?thesis
      using Some get birth assms(3) pick_shard_found[of part v i ss] assms(8,9)
      by (auto simp: dict_dict_keys_def reads_def read_dict_abs_def)
  qed
qed

definition map_read_ops :: "('k \<rightharpoonup> 'v, 'k, 'v, unit) read_ops" where
  "map_read_ops =
     \<lparr>ro_get = (\<lambda>t k. Inr (t k)), ro_first = (\<lambda>_. Inr None), ro_last = (\<lambda>_. Inr None), ro_range = (\<lambda>_ _. Inr []),
      ro_iter = (\<lambda>_. Inr []), ro_len = (\<lambda>_. Inr 0), ro_stats = (\<lambda>_. Inl (Custom ''stats''))\<rparr>"

definition list_read_mm_ops :: "('v \<Rightarrow> 'k list, 'v, 'k, unit) read_mm_ops" where
  "list_read_mm_ops =
     \<lparr>rm_get = (\<lambda>m v. Inr (m v)), rm_range = (\<lambda>_ _. Inr []), rm_len = (\<lambda>_. Inr 0), rm_stats = (\<lambda>_. Inl (Custom ''stats''))\<rparr>"

lemma demo_reads: "reads map_read_ops (\<lambda>t. t)" "reads_mm list_read_mm_ops (\<lambda>m v. set (m v))"
  by (simp_all add: reads_def reads_mm_def map_read_ops_def list_read_mm_ops_def)

definition demo_dict_shards ::
    "(nat \<Rightarrow> nat list, nat \<rightharpoonup> nat, nat \<rightharpoonup> nat, nat \<rightharpoonup> nat) read_dict_table list" where
  "demo_dict_shards =
     [\<lparr>rdt_dict_pk_to_ids = (\<lambda>b. if b = 1 then [1, 2] else []), rdt_value_by_dict_pk = [1 \<mapsto> 4],
       rdt_value_to_dict_pk = [4 \<mapsto> 1], rdt_dict_pk_by_id = [1 \<mapsto> 1, 2 \<mapsto> 1]\<rparr>,
      \<lparr>rdt_dict_pk_to_ids = (\<lambda>_. []), rdt_value_by_dict_pk = Map.empty, rdt_value_to_dict_pk = Map.empty, rdt_dict_pk_by_id = Map.empty\<rparr>]"

theorem dict_reader_inverse_witness:
  "\<exists>r. dict_dict_keys map_read_ops list_read_mm_ops (\<lambda>v. Some (v mod 2)) demo_dict_shards 4 = Some (Inr r) \<and>
       (\<forall>k. (\<exists>ks. r = Some ks \<and> k \<in> set ks) \<longleftrightarrow> dict_get_value map_read_ops map_read_ops demo_dict_shards k = Inr (Some 4))"
proof (rule dict_reader_inverse[where i = 0, OF demo_reads(1) demo_reads(1) demo_reads(1) demo_reads(2)])
  show "\<forall>s\<in>set demo_dict_shards. dict_ok (read_dict_abs (\<lambda>m v. set (m v)) (\<lambda>t. t) (\<lambda>t. t) (\<lambda>t. t) s)"
    by (auto simp: demo_dict_shards_def dict_ok_def read_dict_abs_def)
  show "exclusive (\<lambda>s. dict_contents (read_dict_abs (\<lambda>m v. set (m v)) (\<lambda>t. t) (\<lambda>t. t) (\<lambda>t. t) s)) demo_dict_shards"
    by (auto simp: exclusive_def demo_dict_shards_def dict_contents_def read_dict_abs_def less_Suc_eq nth_Cons')
  show "placed (\<lambda>s. dict_contents (read_dict_abs (\<lambda>m v. set (m v)) (\<lambda>t. t) (\<lambda>t. t) (\<lambda>t. t) s)) (\<lambda>v. Some (v mod 2)) demo_dict_shards"
    by (auto simp: placed_def demo_dict_shards_def dict_contents_def read_dict_abs_def less_Suc_eq nth_Cons' split: if_splits)
qed (simp_all add: demo_dict_shards_def)

text \<open>
  C33. The same for a sharded index: with every shard's multimap the inverse of its table, \<open>index_keys\<close> of
  a value returns exactly the keys whose \<open>get_value\<close> is that value.
\<close>

theorem index_reader_inverse:
  assumes "reads kv tv" and "reads_mm mm mv"
    and "\<forall>s\<in>set ss. \<forall>v k. k \<in> mv (ri_pk_by_index s) v \<longleftrightarrow> tv (ri_index_by_pk s) k = Some v"
    and "exclusive (\<lambda>s. tv (ri_index_by_pk s)) ss" and "placed (\<lambda>s. tv (ri_index_by_pk s)) part ss"
    and "part v = Some i" and "i < length ss"
  shows "\<exists>ks. index_index_keys mm part ss v = Some (Inr ks) \<and>
              (\<forall>k. k \<in> set ks \<longleftrightarrow> index_get_value kv ss k = Inr (Some v))"
proof -
  from assms(2) obtain ks where "rm_get mm (ri_pk_by_index (ss ! i)) v = Inr ks" "set ks = mv (ri_pk_by_index (ss ! i)) v"
    unfolding reads_mm_def by blast
  moreover have "index_get_value kv ss k = Inr (Some v) \<longleftrightarrow> tv (ri_index_by_pk (ss ! i)) k = Some v" for k
    by (simp only: index_get_value_found[OF assms(1)] sum.inject placed_lookup[OF assms(4-7)])
  ultimately show ?thesis
    using assms(3,7) pick_shard_found[of part v i ss] assms(6) by (auto simp: index_index_keys_def)
qed

definition demo_index_shards :: "(nat \<Rightarrow> nat list, nat \<rightharpoonup> nat) read_index_table list" where
  "demo_index_shards =
     [\<lparr>ri_pk_by_index = (\<lambda>v. if v = 4 then [1, 2] else []), ri_index_by_pk = [1 \<mapsto> 4, 2 \<mapsto> 4]\<rparr>,
      \<lparr>ri_pk_by_index = (\<lambda>v. if v = 5 then [3] else []), ri_index_by_pk = [3 \<mapsto> 5]\<rparr>]"

theorem index_reader_inverse_witness:
  "\<exists>ks. index_index_keys list_read_mm_ops (\<lambda>v. Some (v mod 2)) demo_index_shards 5 = Some (Inr ks) \<and>
        (\<forall>k. k \<in> set ks \<longleftrightarrow> index_get_value map_read_ops demo_index_shards k = Inr (Some 5))"
proof (rule index_reader_inverse[where i = 1, OF demo_reads])
  show "\<forall>s\<in>set demo_index_shards. \<forall>v k. k \<in> set (ri_pk_by_index s v) \<longleftrightarrow> ri_index_by_pk s k = Some v"
    by (auto simp: demo_index_shards_def)
  show "exclusive ri_index_by_pk demo_index_shards"
    by (auto simp: exclusive_def demo_index_shards_def less_Suc_eq nth_Cons' split: if_splits)
  show "placed ri_index_by_pk (\<lambda>v. Some (v mod 2)) demo_index_shards"
    by (auto simp: placed_def demo_index_shards_def less_Suc_eq nth_Cons' split: if_splits)
qed (simp_all add: demo_index_shards_def)

end
