(* ===== verification/Sharded_Table.thy ===== *)
theory Sharded_Table
  imports Table_Writer Sharded_Reader
begin

section \<open>Sharded tables from the first command to the last lookup\<close>

text \<open>
  The writer, the router, the transaction threads of all shards, the table kind and the reader
  together: what is written through \<open>ShardedTableWriter\<close> is what \<open>ShardedTableReader\<close> finds.
\<close>

subsection \<open>Commands to all shards\<close>

lemma deliver_next_chan [simp]: "deliver (net\<lparr>next_chan := c\<rparr>) f = (deliver net f)\<lparr>next_chan := c\<rparr>"
  by (simp add: deliver_def shards_def)

lemma shards_next_chan [simp]: "shards (net\<lparr>next_chan := c\<rparr>) = shards net"
  by (simp add: shards_def)

lemma next_chan_enqueue [simp]: "next_chan (enqueue net sid msg) = next_chan net"
  by (simp add: enqueue_def)

lemma topic_send_ok: "all_connected E \<Longrightarrow> topic_send E net sid msg = (enqueue net sid msg, Inr ())"
  by (simp add: all_connected_def topic_send_def)

definition sent_from :: "usize \<Rightarrow> (chan \<Rightarrow> ('k, 'v, 'd) writer_command) \<Rightarrow> ('k, 'v, 'd) net \<Rightarrow> ('k, 'v, 'd) net" where
  "sent_from i mk net =
     (deliver net (\<lambda>sid. if i \<le> sid then [mk (next_chan net + (sid - i))] else []))
       \<lparr>next_chan := next_chan net + (shards net - i)\<rparr>"

lemma sent_from_step:
  assumes "i < shards net" and "new_chan net = (ack, net0)"
  shows "sent_from (Suc i) mk (enqueue net0 i (mk ack)) = sent_from i mk net"
proof -
  have n0: "net0 = net\<lparr>next_chan := Suc (next_chan net)\<rparr>" "ack = next_chan net"
    using assms(2) by (auto simp: new_chan_def)
  have eq: "deliver net (\<lambda>sid. (if sid = i then [mk (next_chan net)] else []) @
          (if Suc i \<le> sid then [mk (Suc (next_chan net) + (sid - Suc i))] else [])) =
        deliver net (\<lambda>sid. if i \<le> sid then [mk (next_chan net + (sid - i))] else [])"
    by (rule deliver_cong) (auto simp: Suc_diff_Suc le_less)
  have D: "deliver (enqueue net0 i (mk ack)) (\<lambda>sid. if Suc i \<le> sid then [mk (Suc (next_chan net) + (sid - Suc i))] else []) =
        (deliver net (\<lambda>sid. if i \<le> sid then [mk (next_chan net + (sid - i))] else []))\<lparr>next_chan := Suc (next_chan net)\<rparr>"
    using assms(1) n0 by (simp add: enqueue_deliver eq del: add_Suc)
  have "next_chan (enqueue net0 i (mk ack)) = Suc (next_chan net)" "shards (enqueue net0 i (mk ack)) = shards net"
    using n0 by simp_all
  then show ?thesis unfolding sent_from_def by (simp only: D) (use assms(1) in simp)
qed

lemma send_async_ok:
  assumes "all_connected E" and "i \<le> shards net"
  shows "send_async E net mk fut [i..<shards net] =
         (sent_from i mk net, Inr (map (\<lambda>sid. fut sid (next_chan net + (sid - i))) [i..<shards net]))"
  using assms(2)
proof (induction "shards net - i" arbitrary: i net)
  case 0
  then have "\<not> i \<le> sid" if "sid < shards net" for sid using that by simp
  then have "deliver net (\<lambda>sid. if i \<le> sid then [mk (next_chan net + (sid - i))] else []) = net"
    using deliver_cong[of net "\<lambda>sid. if i \<le> sid then [mk (next_chan net + (sid - i))] else []" "\<lambda>_. []"] by auto
  with 0 show ?case by (simp add: sent_from_def)
next
  case (Suc m)
  obtain ack net0 where nc: "new_chan net = (ack, net0)" by fastforce
  let ?net1 = "enqueue net0 i (mk ack)"
  have i: "i < shards net" using Suc by simp
  have n1: "shards ?net1 = shards net" "next_chan ?net1 = Suc (next_chan net)" "ack = next_chan net"
    using nc by (auto simp: new_chan_def enqueue_def shards_def)
  have "send_async E ?net1 mk fut [Suc i..<shards net] =
        (sent_from (Suc i) mk ?net1, Inr (map (\<lambda>sid. fut sid (Suc (next_chan net) + (sid - Suc i))) [Suc i..<shards net]))"
    using Suc.hyps(1)[of ?net1 "Suc i"] Suc.hyps(2) i n1 by simp
  moreover have "map (\<lambda>sid. fut sid (Suc (next_chan net) + (sid - Suc i))) [Suc i..<shards net] =
                 map (\<lambda>sid. fut sid (next_chan net + (sid - i))) [Suc i..<shards net]"
    by (auto simp: Suc_diff_Suc)
  ultimately show ?case
    using i nc n1 sent_from_step[OF i nc, of mk] by (simp add: upt_conv_Cons topic_send_ok[OF assms(1)])
qed

lemma queues_sent_from:
  "sid < shards net \<Longrightarrow> queues (sent_from i mk net) ! sid = queues net ! sid @ (if i \<le> sid then [mk (next_chan net + (sid - i))] else [])"
  "shards (sent_from i mk net) = shards net"
  by (simp_all add: sent_from_def)

text \<open>The start of a transaction in shards that are idle.\<close>

lemma begin_shards_ok:
  assumes "all_connected E" and "i \<le> shards net"
    and "\<And>sid. i \<le> sid \<Longrightarrow> sid < shards net \<Longrightarrow>
      queues net ! sid = [] \<and> ne_start E sid = (db sid, Idle) \<and> opens (ne_fsm E) (db sid) dur (tb sid)"
  shows "begin_shards E net dur [i..<shards net] = Some (sent_from i (\<lambda>ack. Begin ack dur) net, Inr ())"
  using assms(2,3)
proof (induction "shards net - i" arbitrary: i net)
  case 0
  then show ?case using send_async_ok[OF assms(1), of i net "\<lambda>ack. Begin ack dur" "\<lambda>_ _. ()"] by simp
next
  case (Suc m)
  obtain ack net0 where nc: "new_chan net = (ack, net0)" by fastforce
  let ?net1 = "enqueue net0 i (Begin ack dur)"
  have i: "i < shards net" using Suc by simp
  have n1: "shards ?net1 = shards net" and q1: "queues ?net1 ! i = [Begin ack dur]"
    using nc i Suc.prems(2)[of i] by (auto simp: new_chan_def enqueue_def shards_def)
  have "recv_reply E ?net1 i ack (unit_reply ack) = Some (Inr (Inr ()))"
    using Suc.prems(2)[of i] i q1 opens_handle[of "ne_fsm E" "db i" dur "tb i" ack]
    by (simp add: recv_reply_def shard_run_def fsm_run_seq)
  moreover have "begin_shards E ?net1 dur [Suc i..<shards ?net1] = Some (sent_from (Suc i) (\<lambda>ack. Begin ack dur) ?net1, Inr ())"
  proof (rule Suc.hyps(1))
    fix sid assume "Suc i \<le> sid" "sid < shards ?net1"
    with Suc.prems(2)[of sid] n1 nc show "queues ?net1 ! sid = [] \<and> ne_start E sid = (db sid, Idle) \<and>
        opens (ne_fsm E) (db sid) dur (tb sid)" by (auto simp: new_chan_def enqueue_def shards_def)
  qed (use Suc.hyps(2) i n1 in auto)
  ultimately show ?case
    using i nc n1 sent_from_step[OF i nc, of "\<lambda>ack. Begin ack dur"] by (simp add: upt_conv_Cons topic_send_ok[OF assms(1)])
qed

text \<open>Waiting for shards that have all replied.\<close>

lemma wait_tasks_ok:
  assumes "\<And>sid. sid \<in> set sids \<Longrightarrow> \<exists>db. shard_run E net sid = Some (db, Idle, [Ack_Unit (a sid) (Inr ()), flushed_ack F (c sid)])"
  shows "\<exists>tasks. wait_tasks E net (map (\<lambda>sid. Eager sid (c sid)) sids) = Some (net, Inr tasks) \<and> length tasks = length sids"
  using assms
proof (induction sids)
  case (Cons sid sids)
  from Cons.prems[of sid] obtain db where
    "shard_run E net sid = Some (db, Idle, [Ack_Unit (a sid) (Inr ()), flushed_ack F (c sid)])" by auto
  moreover from Cons obtain tasks where
    "wait_tasks E net (map (\<lambda>sid. Eager sid (c sid)) sids) = Some (net, Inr tasks)" "length tasks = length sids" by auto
  ultimately show ?case by (auto simp: recv_reply_def flushed_ack_def flatten_def)
qed simp

lemma slowest_task_some: "tasks \<noteq> [] \<Longrightarrow> \<exists>t. slowest_task tasks = Some t"
  by (cases tasks) (auto split: option.split)


subsection \<open>A synchronous transaction\<close>

text \<open>The writer after a sequence of \<open>insert_on_flush\<close>.\<close>

definition inserted :: "bool \<Rightarrow> ('k \<times> 'v) list \<Rightarrow> ('k, 'v) table_writer" where
  "inserted root pairs = foldl (\<lambda>w kv. fst (insert_on_flush w (fst kv) (snd kv))) (table_writer_new root False) pairs"

lemma inserted_simps: "sync_buf (inserted root pairs) = pairs" "tw_deferred (inserted root pairs) = False"
proof -
  have "sync_buf (foldl (\<lambda>w kv. fst (insert_on_flush w (fst kv) (snd kv))) w pairs) = sync_buf w @ pairs \<and>
        tw_deferred (foldl (\<lambda>w kv. fst (insert_on_flush w (fst kv) (snd kv))) w pairs) = tw_deferred w" for w
    by (induction pairs arbitrary: w) (simp_all add: insert_on_flush_def)
  then show "sync_buf (inserted root pairs) = pairs" "tw_deferred (inserted root pairs) = False"
    by (simp_all add: inserted_def table_writer_new_def)
qed

text \<open>A table whose shards are all idle, with nothing in their channels.\<close>

definition idle_shards where
  "idle_shards E net dur db tb \<longleftrightarrow>
     all_connected E \<and> 0 < shards net \<and>
     (\<forall>sid < shards net. queues net ! sid = [] \<and> ne_start E sid = (db sid, Idle) \<and> opens (ne_fsm E) (db sid) dur (tb sid))"

lemma flush_writer_ok:
  assumes idle: "idle_shards E net dur db tb" and routed: "routed part (shards net) pairs"
    and each: "\<And>sid c c'. sid < shards net \<Longrightarrow>
      fsm_run (ne_fsm E) (db sid) Idle [] (Begin c dur # (if bucket_of part pairs sid = [] then []
          else [WriteSortedInsertsOnFlush (bucket_of part pairs sid)]) @ [Flush c']) =
        Some (db' sid, Idle, [Ack_Unit c (Inr ()), flushed_ack (ne_fsm E) c'])"
  shows "\<exists>net1 w net2 task. begin_tx E net dur = Some (net1, Inr ()) \<and>
           flush_writer E part (inserted root pairs) net1 = Some (w, net2, Inr task) \<and> sync_buf w = [] \<and>
           (\<forall>sid < shards net. \<exists>ev. shard_run E net2 sid = Some (db' sid, Idle, ev))"
proof -
  have con: "all_connected E" and pos: "0 < shards net" using idle by (auto simp: idle_shards_def)
  define net1 where "net1 = sent_from 0 (\<lambda>ack. Begin ack dur) net"
  define mk :: "usize \<Rightarrow> ('b, 'c, 'd) writer_command list" where "mk sid = (if bucket_of part pairs sid = [] then [] else [WriteSortedInsertsOnFlush (bucket_of part pairs sid)])" for sid
  define net2 where "net2 = sent_from 0 Flush (deliver net1 mk)"
  define w where "w = (inserted root pairs)\<lparr>sync_buf := []\<rparr>"
  have start: "begin_tx E net dur = Some (net1, Inr ())"
    unfolding begin_tx_def net1_def using begin_shards_ok[OF con, of 0 net db dur tb] idle
    by (auto simp: idle_shards_def)
  have n1: "shards net1 = shards net" by (simp add: net1_def queues_sent_from)
  have "send_sync_buf E part (inserted root pairs) net1 = Some (w, deliver net1 mk, Inr ())"
  proof (cases "pairs = []")
    case True
    then have "mk = (\<lambda>_. [])" by (auto simp: mk_def)
    moreover have "w = inserted root pairs" using True inserted_simps(1)[of root pairs] by (simp add: w_def)
    ultimately show ?thesis using True by (simp add: send_sync_buf_def inserted_simps)
  next
    case False
    with write_sorted_inserts_ok[OF con, of part net1 pairs] routed n1 show ?thesis
      by (simp add: send_sync_buf_def inserted_simps w_def mk_def[abs_def])
  qed
  moreover have "flush_command w = (Flush :: chan \<Rightarrow> ('b, 'c, 'd) writer_command)" by (auto simp: flush_command_def w_def inserted_simps)
  moreover have "send_async E (deliver net1 mk) Flush Eager [0..<shards (deliver net1 mk)] =
      (net2, Inr (map (\<lambda>sid. Eager sid (next_chan (deliver net1 mk) + sid)) [0..<shards net]))"
    using send_async_ok[OF con, of 0 "deliver net1 mk" Flush Eager] n1 by (simp add: net2_def)
  moreover have run: "shard_run E net2 sid = Some (db' sid, Idle, [Ack_Unit (next_chan net + sid) (Inr ()),
      flushed_ack (ne_fsm E) (next_chan (deliver net1 mk) + sid)])" if "sid < shards net" for sid
  proof -
    have "queues net2 ! sid = Begin (next_chan net + sid) dur # mk sid @ [Flush (next_chan (deliver net1 mk) + sid)]"
      using that idle n1 by (simp add: net2_def net1_def queues_sent_from idle_shards_def)
    with each[OF that] that idle show ?thesis by (simp add: shard_run_def mk_def idle_shards_def)
  qed
  moreover obtain tasks where "wait_tasks E net2 (map (\<lambda>sid. Eager sid (next_chan (deliver net1 mk) + sid)) [0..<shards net]) =
      Some (net2, Inr tasks)" "length tasks = shards net"
    using wait_tasks_ok[of "[0..<shards net]" E net2 "\<lambda>sid. next_chan net + sid" "ne_fsm E" "\<lambda>sid. next_chan (deliver net1 mk) + sid"] run
    by auto
  moreover from this(2) pos obtain task where "slowest_task tasks = Some task"
    using slowest_task_some[of tasks] by (cases "tasks = []") auto
  ultimately have "flush_writer E part (inserted root pairs) net1 = Some (w, net2, Inr task)" by (simp add: flush_writer_def)
  moreover have "sync_buf w = []" by (simp add: w_def)
  ultimately show ?thesis using start run by blast
qed


subsection \<open>Properties\<close>

text \<open>
  C4. What a sharded table is given is what its reader finds. On a plain table with any number of
  shards, opening a transaction, \<open>insert_on_flush\<close> of pairs in key order without repetition, and \<open>flush\<close>
  succeed; every shard commits; and a reader of the committed shards finds the value of every key
  that was inserted and the old value of every other key, whatever shards the partitioner chooses.
\<close>

theorem sharded_write_then_read:
  assumes idle: "idle_shards E net dur db tb"
    and store: "fe_ops (ne_fsm E) = plain_ops T" "table_laws T view" "table_total T" "reads R view"
    and commit: "\<And>sid t'. fe_commit (ne_fsm E) (db sid) t' = Inr (db_of sid t')"
    and part: "\<And>k. \<exists>sid < shards net. kp k = Some sid"
    and pairs: "run_sorted (fe_cmp (ne_fsm E)) pairs" "distinct (map fst pairs)"
  shows "\<exists>net1 w net2 task tb'. begin_tx E net dur = Some (net1, Inr ()) \<and>
           flush_writer E (ByKey kp) (inserted root pairs) net1 = Some (w, net2, Inr task) \<and> sync_buf w = [] \<and>
           (\<forall>sid < shards net. \<exists>ev. shard_run E net2 sid = Some (db_of sid (tb' sid), Idle, ev)) \<and>
           (\<forall>k. plain_get_value R kp (map (\<lambda>sid. pt_table (tb' sid)) [0..<shards net]) k =
                (case map_of pairs k of
                   Some v \<Rightarrow> Some (Inr (Some v))
                 | None \<Rightarrow> plain_get_value R kp (map (\<lambda>sid. pt_table (tb sid)) [0..<shards net]) k))"
proof -
  let ?F = "ne_fsm E" and ?b = "bucket_of (ByKey kp) pairs"
  have F: "plain_env T ?F = ?F" using store(1) by (simp add: plain_env_def)
  have "\<exists>t'. (\<forall>c c' sched. fsm_run ?F (db sid) Idle sched (Begin c dur # (if ?b sid = [] then [] else [WriteSortedInsertsOnFlush (?b sid)]) @ [Flush c']) =
          Some (db_of sid t', Idle, [Ack_Unit c (Inr ()), flushed_ack ?F c'])) \<and> plain_inv T view t' \<and>
        view (pt_table t') = view (pt_table (tb sid)) ++ map_of (?b sid)" if "sid < shards net" for sid
  proof (rule plain_tx.tx_sorted_batch[where T = T and E = ?F and view = view, unfolded F])
    show "plain_inv T view (tb sid)" using store by (simp add: plain_inv_def)
    show "opens ?F (db sid) dur (tb sid)" using idle that by (simp add: idle_shards_def)
    show "run_sorted (fe_cmp ?F) (?b sid)" using pairs(1) by (simp add: sorted_iff_sorted_wrt sorted_wrt_filter)
    show "distinct (map fst (?b sid))" using pairs(2) by (rule distinct_map_filter)
  qed (use commit in simp_all)
  then obtain tb' where tb': "\<And>sid c c' sched. sid < shards net \<Longrightarrow>
      fsm_run ?F (db sid) Idle sched (Begin c dur # (if ?b sid = [] then [] else [WriteSortedInsertsOnFlush (?b sid)]) @ [Flush c']) =
          Some (db_of sid (tb' sid), Idle, [Ack_Unit c (Inr ()), flushed_ack ?F c'])"
      "\<And>sid. sid < shards net \<Longrightarrow> view (pt_table (tb' sid)) = view (pt_table (tb sid)) ++ map_of (?b sid)" by metis
  have get: "plain_get_value R kp (map (\<lambda>sid. pt_table (f sid)) [0..<shards net]) k = Some (Inr (view (pt_table (f sid)) k))"
    if "kp k = Some sid" "sid < shards net" for f k sid
    using that store(4) pick_shard_found[of kp k sid "map (\<lambda>sid. pt_table (f sid)) [0..<shards net]"]
    by (simp add: plain_get_value_def reads_def)
  have look: "map_of (?b sid) k = map_of pairs k" if "kp k = Some sid" for k sid
    using that by (induction pairs) (auto simp: shard_of_def)
  have "plain_get_value R kp (map (\<lambda>sid. pt_table (tb' sid)) [0..<shards net]) k =
      (case map_of pairs k of Some v \<Rightarrow> Some (Inr (Some v))
       | None \<Rightarrow> plain_get_value R kp (map (\<lambda>sid. pt_table (tb sid)) [0..<shards net]) k)" for k
  proof -
    obtain sid where sid: "kp k = Some sid" "sid < shards net" using part by blast
    then show ?thesis by (simp add: get tb'(2) look map_add_def split: option.split)
  qed
  moreover have "routed (ByKey kp) (shards net) pairs" using part by (auto simp: routed_def shard_of_def)
  ultimately show ?thesis using flush_writer_ok[OF idle _ tb'(1), of root] by blast
qed

theorem sharded_write_then_read_witness:
  "\<exists>net1 w net2 task tb'. begin_tx demo_net_env \<lparr>queues = [[], []], next_chan = 0\<rparr> () = Some (net1, Inr ()) \<and>
     flush_writer demo_net_env (ByKey (partition_key (\<lambda>k. [of_nat k]) (BytesPartitioner 2))) (inserted False [(3, 30), (4, 40)]) net1 =
       Some (w, net2, Inr task) \<and>
     (\<forall>sid < 2. \<exists>ev. shard_run demo_net_env net2 sid = Some (tb' sid, Idle, ev)) \<and>
     plain_get_value map_read_ops (partition_key (\<lambda>k. [of_nat k]) (BytesPartitioner 2)) (map (\<lambda>sid. pt_table (tb' sid)) [0..<2]) 4 = Some (Inr (Some 40))"
proof -
  let ?net = "\<lparr>queues = [[], []], next_chan = 0\<rparr> :: (nat, nat, unit) net"
  let ?db = "\<lparr>pt_table = Map.empty\<rparr> :: (nat \<rightharpoonup> nat) plain_table"
  let ?kp = "partition_key (\<lambda>k :: nat. [of_nat k]) (BytesPartitioner 2)"
  have n: "shards ?net = 2" by (simp add: shards_def)
  have "idle_shards demo_net_env ?net () (\<lambda>_. ?db) (\<lambda>_. ?db)"
    by (simp add: idle_shards_def all_connected_def demo_net_env_def demo_env_simps shards_def less_Suc_eq nth_Cons')
  moreover have "\<exists>sid < shards ?net. ?kp k = Some sid" for k
    using partition_bytes_le_value[of 2 "[of_nat k]"] by (simp add: n partition_key_def partition_key_redb_def)
  moreover have "run_sorted default [(3 :: nat, 30 :: nat), (4, 40)]"
    by (simp add: sorted_key_default)
  moreover have "ne_fsm demo_net_env = demo_env" by (simp add: demo_net_env_def)
  ultimately obtain net1 w net2 task tb' where r: "begin_tx demo_net_env ?net () = Some (net1, Inr ())"
    "flush_writer demo_net_env (ByKey ?kp) (inserted False [(3, 30), (4, 40)]) net1 = Some (w, net2, Inr task)"
    "\<forall>sid < shards ?net. \<exists>ev. shard_run demo_net_env net2 sid = Some (tb' sid, Idle, ev)"
    "\<forall>k. plain_get_value map_read_ops ?kp (map (\<lambda>sid. pt_table (tb' sid)) [0..<shards ?net]) k =
       (case map_of [(3, 30), (4, 40)] k of Some v \<Rightarrow> Some (Inr (Some v))
        | None \<Rightarrow> plain_get_value map_read_ops ?kp (map (\<lambda>sid. pt_table ?db) [0..<shards ?net]) k)"
    using sharded_write_then_read[of demo_net_env ?net "()" "\<lambda>_. ?db" "\<lambda>_. ?db" map_table_ops "\<lambda>t. t" map_read_ops
        "\<lambda>_ t. t" ?kp "[(3, 30), (4, 40)]" False] by (auto simp: demo_env_simps map_table_ok demo_reads)
  from r(4)[rule_format, of 4] have "plain_get_value map_read_ops ?kp (map (\<lambda>sid. pt_table (tb' sid)) [0..<2]) 4 = Some (Inr (Some 40))"
    by (simp add: n)
  with r(1-3) n show ?thesis by metis
qed

text \<open>
  C37. \<open>begin\<close> hides a failed start: when the store of the only shard refuses the write transaction,
  \<open>begin\<close> still returns success and the shard is not in a transaction, while \<open>begin_async\<close> on the same
  state hands out a future whose \<open>wait\<close> returns the error.
\<close>

theorem begin_hides_error:
  assumes "all_connected E" and "shards net = 1" and "queues net = [[]]" and "ne_start E 0 = (db, Idle)"
    and "fe_upgrade (ne_fsm E) db" and "fe_begin_write (ne_fsm E) db = Inl e"
  shows "\<exists>net1 ev. begin_tx E net dur = Some (net1, Inr ()) \<and> shard_run E net1 0 = Some (db, Idle, ev) \<and>
           begin_async E net dur = (net1, Inr [StartFuture 0 (next_chan net)]) \<and>
           start_wait E net1 (StartFuture 0 (next_chan net)) = Some (Inl e)"
proof -
  obtain ack net0 where nc: "new_chan net = (ack, net0)" by fastforce
  let ?net1 = "enqueue net0 0 (Begin ack dur)"
  have q: "queues ?net1 ! 0 = [Begin ack dur]" and ack: "ack = next_chan net"
    using nc assms(3) by (auto simp: new_chan_def enqueue_def)
  have run: "shard_run E ?net1 0 = Some (db, Idle, [Ack_Unit ack (Inl e)])"
    using q assms(4-6) by (simp add: shard_run_def fsm_run_seq fsm_handle_def)
  then have "recv_reply E ?net1 0 ack (unit_reply ack) = Some (Inr (Inl e))" by (simp add: recv_reply_def)
  with run nc ack show ?thesis
    by (intro exI[of _ ?net1] exI conjI)
      (simp_all add: begin_tx_def begin_async_def assms(2) topic_send_ok[OF assms(1)] flatten_def)
qed

definition refusing_env where
  "refusing_env = demo_net_env\<lparr>ne_fsm := demo_env\<lparr>fe_begin_write := (\<lambda>_. Inl (RedbTransaction ''busy''))\<rparr>\<rparr>"

theorem begin_hides_error_witness:
  "\<exists>net1 ev. begin_tx refusing_env \<lparr>queues = [[]], next_chan = 5\<rparr> () = Some (net1, Inr ()) \<and>
     shard_run refusing_env net1 0 = Some (\<lparr>pt_table = Map.empty\<rparr>, Idle, ev) \<and>
     begin_async refusing_env \<lparr>queues = [[]], next_chan = 5\<rparr> () = (net1, Inr [StartFuture 0 5]) \<and>
     start_wait refusing_env net1 (StartFuture 0 5) = Some (Inl (RedbTransaction ''busy''))"
proof -
  have "all_connected refusing_env" by (simp add: all_connected_def refusing_env_def demo_net_env_def)
  from begin_hides_error[OF this, of "\<lparr>queues = [[]], next_chan = 5\<rparr>" "\<lparr>pt_table = Map.empty\<rparr>" "RedbTransaction ''busy''" "()"]
  show ?thesis by (simp add: shards_def refusing_env_def demo_net_env_def demo_env_def)
qed

end
