(* ===== verification/Reorder_Buffer.thy ===== *)
theory Reorder_Buffer
  imports Prelude "HOL-Library.AList"
begin

section \<open>The reorder buffer\<close>

text \<open>
  The model of \<open>chain/src/reorder_buffer.rs\<close>: blocks arrive in any order and leave in the order of their
  heights, without gaps. The hash map of pending blocks is an association list with distinct keys.
  Heights are \<open>u32\<close>; the increment of the next height panics at the largest one in builds with overflow
  checks and wraps around in the others, and \<open>checks\<close> says which build it is.
\<close>

abbreviation u32_max :: nat where
  "u32_max \<equiv> 2 ^ 32 - 1"

definition succ_u32 :: "bool \<Rightarrow> nat \<Rightarrow> nat option" where
  "succ_u32 checks n = (if n = u32_max then (if checks then None else Some 0) else Some (n + 1))"

record 'b reorder_buffer =
  next_height :: nat
  pending :: "(nat \<times> 'b) list"
  max_buffer_hint :: usize
  max_seen :: "nat option"
  dropped_too_low :: nat

definition reorder_new :: "nat \<Rightarrow> usize \<Rightarrow> 'b reorder_buffer" where
  "reorder_new start_lower_bound hint =
     \<lparr>next_height = start_lower_bound, pending = [], max_buffer_hint = hint, max_seen = None, dropped_too_low = 0\<rparr>"

lemma delete_length:
  assumes "map_of xs k \<noteq> None"
  shows "length (AList.delete k xs) < length xs"
proof -
  from assms have "k \<in> fst ` set xs" by (simp add: map_of_eq_None_iff)
  then have "\<exists>x\<in>set xs. \<not> fst x \<noteq> k" by auto
  then show ?thesis by (auto simp: AList.delete_eq intro: length_filter_less)
qed

text \<open>The loop that releases the contiguous blocks from the next height on.\<close>

function release :: "bool \<Rightarrow> nat \<Rightarrow> (nat \<times> 'b) list \<Rightarrow> ('b list \<times> nat \<times> (nat \<times> 'b) list) option" where
  "release checks nxt pend =
     (case map_of pend nxt of
        None \<Rightarrow> Some ([], nxt, pend)
      | Some b \<Rightarrow> do {
          nxt' \<leftarrow> succ_u32 checks nxt;
          (ready, n, p) \<leftarrow> release checks nxt' (AList.delete nxt pend);
          Some (b # ready, n, p)
        })"
  by pat_completeness auto
termination
  by (relation "measure (\<lambda>(checks, nxt, pend). length pend)") (simp_all add: delete_length)

declare release.simps [simp del]

definition reorder_insert :: "bool \<Rightarrow> 'b reorder_buffer \<Rightarrow> nat \<Rightarrow> 'b \<Rightarrow> ('b list \<times> 'b reorder_buffer) option" where
  "reorder_insert checks rb height block =
     (if height < next_height rb
      then Some ([], rb\<lparr>dropped_too_low := min (dropped_too_low rb + 1) u32_max\<rparr>)
      else
        let seen = (case max_seen rb of None \<Rightarrow> Some height | Some ms \<Rightarrow> if height > ms then Some height else Some ms);
            pend = (case map_of (pending rb) height of None \<Rightarrow> (height, block) # pending rb | Some _ \<Rightarrow> pending rb)
        in do {
          (ready, n, p) \<leftarrow> release checks (next_height rb) pend;
          Some (ready, rb\<lparr>next_height := n, pending := p, max_seen := seen\<rparr>)
        })"

definition pending_len :: "'b reorder_buffer \<Rightarrow> usize" where
  "pending_len rb = length (pending rb)"

definition is_saturated :: "'b reorder_buffer \<Rightarrow> bool" where
  "is_saturated rb = (length (pending rb) \<ge> max_buffer_hint rb)"

definition gap_span :: "'b reorder_buffer \<Rightarrow> (nat \<times> nat) option" where
  "gap_span rb =
     (case max_seen rb of
        None \<Rightarrow> None
      | Some ms \<Rightarrow> if ms \<ge> next_height rb then Some (next_height rb, ms) else None)"

text \<open>A sequence of insertions, with everything it released.\<close>

fun reorder_run :: "bool \<Rightarrow> 'b reorder_buffer \<Rightarrow> (nat \<times> 'b) list \<Rightarrow> ('b list \<times> 'b reorder_buffer) option" where
  "reorder_run checks rb [] = Some ([], rb)"
| "reorder_run checks rb ((h, b) # xs) =
     do {
       (ready, rb1) \<leftarrow> reorder_insert checks rb h b;
       (more_ready, rb2) \<leftarrow> reorder_run checks rb1 xs;
       Some (ready @ more_ready, rb2)
     }"

subsection \<open>What the loop releases\<close>

lemma release_spec:
  assumes "\<forall>k\<in>fst ` set pend. k < u32_max"
  shows "\<exists>n p. release checks nxt pend = Some (map (\<lambda>h. the (map_of pend h)) [nxt..<n], n, p) \<and> nxt \<le> n \<and>
           (\<forall>h. nxt \<le> h \<longrightarrow> h < n \<longrightarrow> map_of pend h \<noteq> None) \<and> map_of pend n = None \<and>
           (\<forall>h. map_of p h = (if nxt \<le> h \<and> h < n then None else map_of pend h)) \<and>
           (distinct (map fst pend) \<longrightarrow> distinct (map fst p))"
  using assms
proof (induction checks nxt pend rule: release.induct)
  case (1 checks nxt pend)
  show ?case
  proof (cases "map_of pend nxt")
    case None
    then show ?thesis by (auto simp: release.simps[of checks nxt])
  next
    case (Some b)
    then have "nxt < u32_max" using 1(2) by (force dest: map_of_SomeD)
    then have succ: "succ_u32 checks nxt = Some (Suc nxt)" by (simp add: succ_u32_def)
    let ?pend = "AList.delete nxt pend"
    have del: "map_of ?pend h = (if h = nxt then None else map_of pend h)" for h
      by (simp add: AList.delete_conv)
    have "fst ` set ?pend \<subseteq> fst ` set pend" by (auto simp: AList.delete_eq)
    then have "\<forall>k\<in>fst ` set ?pend. k < u32_max" using 1(2) by blast
    from 1(1)[OF Some succ this] obtain n p where
      n: "release checks (Suc nxt) ?pend = Some (map (\<lambda>h. the (map_of ?pend h)) [Suc nxt..<n], n, p)" "Suc nxt \<le> n"
      "\<And>h. Suc nxt \<le> h \<Longrightarrow> h < n \<Longrightarrow> map_of ?pend h \<noteq> None" "map_of ?pend n = None"
      "\<And>h. map_of p h = (if Suc nxt \<le> h \<and> h < n then None else map_of ?pend h)"
      "distinct (map fst ?pend) \<Longrightarrow> distinct (map fst p)" by blast
    have "map (\<lambda>h. the (map_of pend h)) [nxt..<n] = b # map (\<lambda>h. the (map_of ?pend h)) [Suc nxt..<n]"
      using n(2) Some by (simp add: upt_conv_Cons del)
    with n(1) succ Some have "release checks nxt pend = Some (map (\<lambda>h. the (map_of pend h)) [nxt..<n], n, p)"
      by (simp add: release.simps[of checks nxt])
    moreover have "map_of pend h \<noteq> None" if "nxt \<le> h" "h < n" for h
      using Some n(3)[of h] that by (cases "h = nxt") (auto simp: del)
    moreover have "map_of p h = (if nxt \<le> h \<and> h < n then None else map_of pend h)" for h
      using n(2) n(5)[of h] by (cases "h = nxt") (auto simp: del)
    moreover have "map_of pend n = None" "nxt \<le> n" using n(2,4) by (auto simp: del split: if_splits)
    moreover have "distinct (map fst p)" if "distinct (map fst pend)" using n(6) that by (simp add: AList.distinct_delete)
    ultimately show ?thesis by blast
  qed
qed

text \<open>
  The state after a sequence of insertions, in terms of the sequence alone: for every height the first
  block that arrived counts.
\<close>

definition reordered :: "nat \<Rightarrow> (nat \<times> 'b) list \<Rightarrow> 'b list \<Rightarrow> 'b reorder_buffer \<Rightarrow> bool" where
  "reordered start xs out rb \<longleftrightarrow>
     start \<le> next_height rb \<and> (\<forall>h. start \<le> h \<longrightarrow> h < next_height rb \<longrightarrow> map_of xs h \<noteq> None) \<and>
     map_of xs (next_height rb) = None \<and>
     out = map (\<lambda>h. the (map_of xs h)) [start..<next_height rb] \<and>
     (\<forall>h. map_of (pending rb) h = (if next_height rb \<le> h then map_of xs h else None)) \<and>
     distinct (map fst (pending rb))"

lemma reordered_start: "reordered start [] [] (reorder_new start hint)"
  by (simp add: reordered_def reorder_new_def)

lemma reordered_insert:
  assumes inv: "reordered start xs out rb" and bound: "\<forall>k\<in>fst ` set (xs @ [(h, b)]). k < u32_max"
  shows "\<exists>ready rb'. reorder_insert checks rb h b = Some (ready, rb') \<and> reordered start (xs @ [(h, b)]) (out @ ready) rb'"
proof (cases "h < next_height rb")
  case True
  have same: "map_of (xs @ [(h, b)]) k = map_of xs k" if "start \<le> k" for k
    using inv True that by (auto simp: reordered_def map_add_def split: option.split)
  then have "out = map (\<lambda>k. the (map_of (xs @ [(h, b)]) k)) [start..<next_height rb]"
    using inv by (auto simp: reordered_def simp del: map_of_append)
  moreover have "map_of (pending rb) k = (if next_height rb \<le> k then map_of (xs @ [(h, b)]) k else None)" for k
    using inv same[of k] by (auto simp: reordered_def simp del: map_of_append)
  ultimately show ?thesis
    using True inv same by (auto simp: reorder_insert_def reordered_def simp del: map_of_append)
next
  case False
  let ?xs = "xs @ [(h, b)]" and ?nxt = "next_height rb"
  define pend where "pend = (case map_of (pending rb) h of None \<Rightarrow> (h, b) # pending rb | Some _ \<Rightarrow> pending rb)"
  have pend: "map_of pend k = (if ?nxt \<le> k then map_of ?xs k else None)" for k
    using inv False by (auto simp: pend_def reordered_def map_add_def split: option.split)
  have dist: "distinct (map fst pend)"
  proof (cases "map_of (pending rb) h")
    case None
    then have "h \<notin> fst ` set (pending rb)" by (simp only: map_of_eq_None_iff not_False_eq_True)
    with None inv show ?thesis by (simp add: pend_def reordered_def)
  qed (use inv in \<open>simp add: pend_def reordered_def\<close>)
  have "k \<in> fst ` set pend \<Longrightarrow> map_of pend k \<noteq> None" for k by (simp add: map_of_eq_None_iff)
  then have "k \<in> fst ` set pend \<Longrightarrow> map_of ?xs k \<noteq> None" for k by (metis pend)
  then have "\<forall>k\<in>fst ` set pend. k < u32_max" using bound by (metis map_of_eq_None_iff)
  from release_spec[OF this, of checks ?nxt] obtain n p where
    n: "release checks ?nxt pend = Some (map (\<lambda>h. the (map_of pend h)) [?nxt..<n], n, p)" "?nxt \<le> n"
      "\<And>k. ?nxt \<le> k \<Longrightarrow> k < n \<Longrightarrow> map_of pend k \<noteq> None" "map_of pend n = None"
      "\<And>k. map_of p k = (if ?nxt \<le> k \<and> k < n then None else map_of pend k)" "distinct (map fst p)"
    using dist by blast
  define seen where "seen = (case max_seen rb of None \<Rightarrow> Some h | Some ms \<Rightarrow> if h > ms then Some h else Some ms)"
  let ?ready = "map (\<lambda>k. the (map_of pend k)) [?nxt..<n]" and ?rb = "rb\<lparr>next_height := n, pending := p, max_seen := seen\<rparr>"
  have run: "reorder_insert checks rb h b = Some (?ready, ?rb)"
    using False n(1) by (simp add: reorder_insert_def pend_def[symmetric] seen_def[symmetric])
  have old: "map_of ?xs k = map_of xs k" if "start \<le> k" "k < ?nxt" for k
    using inv that by (auto simp: reordered_def map_add_def)
  have "start \<le> ?nxt" "out = map (\<lambda>k. the (map_of xs k)) [start..<?nxt]" using inv by (auto simp: reordered_def)
  moreover have "[start..<n] = [start..<?nxt] @ [?nxt..<n]"
    using \<open>start \<le> ?nxt\<close> n(2) by (metis le_Suc_ex upt_add_eq_append)
  moreover have "map (\<lambda>k. the (map_of xs k)) [start..<?nxt] = map (\<lambda>k. the (map_of ?xs k)) [start..<?nxt]"
    by (rule map_cong) (auto simp: old simp del: map_of_append)
  moreover have "?ready = map (\<lambda>k. the (map_of ?xs k)) [?nxt..<n]" by (rule map_cong) (auto simp: pend simp del: map_of_append)
  ultimately have out: "out @ ?ready = map (\<lambda>k. the (map_of ?xs k)) [start..<n]" by simp
  have "map_of ?xs k \<noteq> None" if "start \<le> k" "k < n" for k
  proof (cases "k < ?nxt")
    case True
    then show ?thesis using inv that old[of k] by (auto simp: reordered_def)
  next
    case False
    then show ?thesis using n(3)[of k] pend[of k] that by (auto simp del: map_of_append split: if_splits)
  qed
  moreover have "map_of ?xs n = None" using n(2,4) pend[of n] by (simp del: map_of_append)
  moreover have "map_of p k = (if n \<le> k then map_of ?xs k else None)" for k
    using n(2,5) pend[of k] by (auto simp del: map_of_append)
  ultimately show ?thesis
    using run out n(2,6) \<open>start \<le> ?nxt\<close> by (intro exI[of _ ?ready] exI[of _ ?rb]) (simp add: reordered_def del: map_of_append)
qed

lemma reorder_run_reordered:
  assumes "reordered start xs out rb" and "\<forall>k\<in>fst ` set (xs @ ys). k < u32_max"
  shows "\<exists>ready rb'. reorder_run checks rb ys = Some (ready, rb') \<and> reordered start (xs @ ys) (out @ ready) rb'"
  using assms
proof (induction ys arbitrary: xs out rb)
  case (Cons y ys)
  obtain h b where y: "y = (h, b)" by fastforce
  from reordered_insert[OF Cons.prems(1), of h b checks] Cons.prems(2) y obtain ready rb1 where
    1: "reorder_insert checks rb h b = Some (ready, rb1)" "reordered start (xs @ [y]) (out @ ready) rb1" by auto
  from Cons.IH[OF 1(2)] Cons.prems(2) obtain ready' rb2 where
    "reorder_run checks rb1 ys = Some (ready', rb2)" "reordered start (xs @ y # ys) (out @ ready @ ready') rb2" by auto
  with 1 y show ?case by auto
qed simp

lemma reorder_run_new:
  assumes "\<forall>k\<in>fst ` set xs. k < u32_max"
  shows "\<exists>out rb. reorder_run checks (reorder_new start hint) xs = Some (out, rb) \<and> reordered start xs out rb"
  using reorder_run_reordered[OF reordered_start, of xs] assms by simp

text \<open>What was released depends on the blocks that arrived only.\<close>

lemma reordered_unique:
  assumes "reordered start xs out rb" and "reordered start ys out' rb'" and "map_of xs = map_of ys"
  shows "out = out'" and "next_height rb = next_height rb'"
proof -
  have "\<not> next_height rb < next_height rb'" "\<not> next_height rb' < next_height rb"
    using assms unfolding reordered_def by metis+
  then show "next_height rb = next_height rb'" by simp
  with assms show "out = out'" by (simp add: reordered_def)
qed

subsection \<open>Properties\<close>

text \<open>
  The reorder buffer delivers every block once, in the order of heights, without gaps. After any
  sequence of arrivals below the largest height the released blocks are those of the heights from the
  start on, for every height the first block that arrived, up to the first height that has not
  arrived; the blocks above that height, and only they, are pending.
\<close>

theorem reorder_releases_in_order:
  assumes "\<forall>k\<in>fst ` set xs. k < u32_max"
  shows "\<exists>out rb. reorder_run checks (reorder_new start hint) xs = Some (out, rb) \<and>
           start \<le> next_height rb \<and> {start..<next_height rb} \<subseteq> fst ` set xs \<and> next_height rb \<notin> fst ` set xs \<and>
           out = map (\<lambda>h. the (map_of xs h)) [start..<next_height rb] \<and>
           (\<forall>h. map_of (pending rb) h = (if next_height rb < h then map_of xs h else None))"
proof -
  from reorder_run_new[OF assms] obtain out rb where
    run: "reorder_run checks (reorder_new start hint) xs = Some (out, rb)" and R: "reordered start xs out rb" by blast
  have all: "h \<in> fst ` set xs" if "start \<le> h" "h < next_height rb" for h
    using R that unfolding reordered_def by (metis map_of_eq_None_iff)
  have stop: "map_of xs (next_height rb) = None" using R by (simp add: reordered_def)
  have "next_height rb \<notin> fst ` set xs" using stop by (simp only: map_of_eq_None_iff not_False_eq_True)
  moreover have "map_of (pending rb) h = (if next_height rb < h then map_of xs h else None)" for h
    using R stop unfolding reordered_def by (cases "h = next_height rb") auto
  moreover have "start \<le> next_height rb" "out = map (\<lambda>h. the (map_of xs h)) [start..<next_height rb]"
    using R by (auto simp: reordered_def)
  ultimately show ?thesis using run all by (intro exI[of _ out] exI[of _ rb]) auto
qed

theorem reorder_releases_in_order_witness:
  "\<exists>out rb. reorder_run True (reorder_new 5 100) [(7, ''c''), (5, ''a''), (3, ''x''), (6, ''b''), (9, ''e''), (6, ''z'')] = Some (out, rb) \<and>
     5 \<le> next_height rb \<and> {5..<next_height rb} \<subseteq> {7, 5, 3, 6, 9} \<and> next_height rb \<notin> {7, 5, 3, 6, 9}"
  using reorder_releases_in_order[of "[(7, ''c''), (5, ''a''), (3, ''x''), (6, ''b''), (9, ''e''), (6, ''z'')]" True 5 100]
  by fastforce

text \<open>
  The order of arrival does not matter: two sequences with the same blocks at distinct heights
  release the same blocks in the same order.
\<close>

theorem reorder_order_independent:
  assumes "\<forall>k\<in>fst ` set xs. k < u32_max" and "mset xs = mset ys" and "distinct (map fst xs)"
  shows "map_option fst (reorder_run checks (reorder_new start hint) xs) =
         map_option fst (reorder_run checks (reorder_new start hint) ys)"
proof -
  have "set ys = set xs" using assms(2) by (metis set_mset_mset)
  with assms(1) have "\<forall>k\<in>fst ` set ys. k < u32_max" by simp
  from reorder_run_new[OF assms(1), of checks start hint] reorder_run_new[OF this, of checks start hint] obtain o1 r1 o2 r2 where
    "reorder_run checks (reorder_new start hint) xs = Some (o1, r1)" "reordered start xs o1 r1"
    "reorder_run checks (reorder_new start hint) ys = Some (o2, r2)" "reordered start ys o2 r2" by blast
  with reordered_unique[OF _ _ map_of_mset_cong[OF assms(2,3)]] show ?thesis by simp
qed

theorem reorder_order_independent_witness:
  "map_option fst (reorder_run False (reorder_new 1 10) [(2, True), (1, False), (3, True)]) =
   map_option fst (reorder_run False (reorder_new 1 10) [(1, False), (2, True), (3, True)])"
  by (rule reorder_order_independent) (simp_all add: add_mset_commute)

text \<open>
  C39. The last height is out of reach: in a build with overflow checks a block at the largest \<open>u32\<close>
  height that becomes due ends the task with a panic, and in a build without them the next expected
  height becomes 0, so that blocks of all heights are accepted again.
\<close>

theorem reorder_height_overflow:
  "reorder_insert True (reorder_new u32_max hint) u32_max b = None \<and>
   map_option (\<lambda>(out, rb). (out, next_height rb)) (reorder_insert False (reorder_new u32_max hint) u32_max b) = Some ([b], 0)"
  by (simp add: reorder_insert_def reorder_new_def release.simps[of _ 4294967295] release.simps[of _ 0] succ_u32_def)

end
