(* ===== verification/Batchers.thy ===== *)
theory Batchers
  imports Prelude
begin

section \<open>Batching of streams\<close>

text \<open>
  The models of \<open>chain/src/weight_batcher.rs\<close> and \<open>chain/src/size_batcher.rs\<close>. Both collect items until a
  threshold is reached and hand out what they collected; a final flush hands out the rest. What they
  share, that no item is lost, duplicated or moved, is the locale \<open>batcher\<close>.

  The durability modes of redb are a type with a third value for the modes the code does not support;
  these end with a panic.
\<close>

datatype durability = Durability_None | Durability_Immediate | Durability_Other

subsection \<open>The interface\<close>

fun feed_batches :: "('s \<Rightarrow> 'b \<Rightarrow> ('b list option \<times> 's) option) \<Rightarrow> 's \<Rightarrow> 'b list \<Rightarrow> ('b list list \<times> 's) option" where
  "feed_batches push s [] = Some ([], s)"
| "feed_batches push s (x # xs) =
     do {
       (out, s1) \<leftarrow> push s x;
       (outs, s2) \<leftarrow> feed_batches push s1 xs;
       Some ((case out of Some b \<Rightarrow> [b] | None \<Rightarrow> []) @ outs, s2)
     }"

text \<open>The whole stream: all items, then the final flush.\<close>

definition batch_stream ::
    "('s \<Rightarrow> 'b \<Rightarrow> ('b list option \<times> 's) option) \<Rightarrow> ('s \<Rightarrow> ('b list option \<times> 's) option) \<Rightarrow> 's \<Rightarrow> 'b list \<Rightarrow> 'b list list option" where
  "batch_stream push flush s xs =
     do {
       (outs, s1) \<leftarrow> feed_batches push s xs;
       (out, s2) \<leftarrow> flush s1;
       Some (outs @ (case out of Some b \<Rightarrow> [b] | None \<Rightarrow> []))
     }"

locale batcher =
  fixes inv :: "'s \<Rightarrow> bool"
    and held :: "'s \<Rightarrow> 'b list"
    and ok_item :: "'b \<Rightarrow> bool"
    and full :: "'b list \<Rightarrow> bool"
    and push :: "'s \<Rightarrow> 'b \<Rightarrow> ('b list option \<times> 's) option"
    and flush :: "'s \<Rightarrow> ('b list option \<times> 's) option"
  assumes push: "inv s \<Longrightarrow> ok_item x \<Longrightarrow>
      \<exists>out s'. push s x = Some (out, s') \<and> inv s' \<and> (case out of Some b \<Rightarrow> b | None \<Rightarrow> []) @ held s' = held s @ [x] \<and>
        (\<forall>b. out = Some b \<longrightarrow> b \<noteq> [] \<and> full b)"
    and flush: "inv s \<Longrightarrow> \<exists>out s'. flush s = Some (out, s') \<and> (case out of Some b \<Rightarrow> b | None \<Rightarrow> []) = held s \<and> out \<noteq> Some []"
begin

lemma feed_ok:
  assumes "inv s" and "\<forall>x\<in>set xs. ok_item x"
  shows "\<exists>outs s'. feed_batches push s xs = Some (outs, s') \<and> inv s' \<and> concat outs @ held s' = held s @ xs \<and>
           (\<forall>b\<in>set outs. b \<noteq> [] \<and> full b)"
  using assms
proof (induction xs arbitrary: s)
  case (Cons x xs)
  from push[OF Cons.prems(1), of x] Cons.prems(2) obtain out s1 where 1: "push s x = Some (out, s1)" "inv s1" "(case out of Some b \<Rightarrow> b | None \<Rightarrow> []) @ held s1 = held s @ [x]"
    "\<forall>b. out = Some b \<longrightarrow> b \<noteq> [] \<and> full b" by auto
  from Cons.IH[OF 1(2)] Cons.prems(2) obtain outs s2 where
    2: "feed_batches push s1 xs = Some (outs, s2)" "inv s2" "concat outs @ held s2 = held s1 @ xs" "\<forall>b\<in>set outs. b \<noteq> [] \<and> full b" by auto
  show ?case
  proof (cases out)
    case None
    then show ?thesis using 1 2 by auto
  next
    case (Some b)
    then have "concat (b # outs) @ held s2 = held s @ x # xs" using 1(3) 2(3) by (metis append.assoc append_Cons append_Nil concat.simps(2) option.simps(5))
    with Some 1 2 show ?thesis by auto
  qed
qed simp

text \<open>The batches of a stream, joined, are the stream; all but the last are full, and none is empty.\<close>

lemma stream_ok:
  assumes "inv s" and "held s = []" and "\<forall>x\<in>set xs. ok_item x"
  shows "\<exists>bs. batch_stream push flush s xs = Some bs \<and> concat bs = xs \<and> [] \<notin> set bs \<and> (\<forall>b\<in>set (butlast bs). full b)"
proof -
  from feed_ok[OF assms(1,3)] assms(2) obtain outs s1 where
    1: "feed_batches push s xs = Some (outs, s1)" "inv s1" "concat outs @ held s1 = xs" "\<forall>b\<in>set outs. b \<noteq> [] \<and> full b" by auto
  from flush[OF 1(2)] obtain out s2 where
    2: "flush s1 = Some (out, s2)" "(case out of Some b \<Rightarrow> b | None \<Rightarrow> []) = held s1" "out \<noteq> Some []" by blast
  show ?thesis
    using 1 2 by (cases out) (auto simp: batch_stream_def dest: in_set_butlastD)
qed

end

subsection \<open>Batching by weight\<close>

record 'b weight_batcher =
  wb_buf :: "'b list"
  wb_weight :: usize
  min_weight :: usize
  wb_cap :: usize
  wb_mode :: durability

definition weight_batcher_new :: "usize \<Rightarrow> usize \<Rightarrow> durability \<Rightarrow> 'b weight_batcher" where
  "weight_batcher_new min_w cap mode = \<lparr>wb_buf = [], wb_weight = 0, min_weight = min_w, wb_cap = cap, wb_mode = mode\<rparr>"

definition take_inner :: "'b weight_batcher \<Rightarrow> 'b list \<times> 'b weight_batcher" where
  "take_inner w = (wb_buf w, w\<lparr>wb_weight := 0, wb_buf := []\<rparr>)"

definition push_with :: "('b \<Rightarrow> usize) \<Rightarrow> 'b weight_batcher \<Rightarrow> 'b \<Rightarrow> ('b list option \<times> 'b weight_batcher) option" where
  "push_with weight_of w item =
     (case wb_mode w of
        Durability_Immediate \<Rightarrow> Some (Some [item], w)
      | Durability_None \<Rightarrow>
          (let w1 = w\<lparr>wb_weight := saturating_add (wb_weight w) (weight_of item), wb_buf := wb_buf w @ [item]\<rparr>
           in if wb_weight w1 \<ge> min_weight w1 \<or> length (wb_buf w1) \<ge> wb_cap w1
              then (case take_inner w1 of (b, w2) \<Rightarrow> Some (Some b, w2))
              else Some (None, w1))
      | Durability_Other \<Rightarrow> None)"

definition wb_flush :: "'b weight_batcher \<Rightarrow> ('b list option \<times> 'b weight_batcher) option" where
  "wb_flush w =
     (case wb_mode w of
        Durability_Immediate \<Rightarrow> Some (None, w)
      | Durability_None \<Rightarrow> if wb_buf w = [] then Some (None, w) else (case take_inner w of (b, w2) \<Rightarrow> Some (Some b, w2))
      | Durability_Other \<Rightarrow> None)"

definition wb_len :: "'b weight_batcher \<Rightarrow> usize option" where
  "wb_len w = (case wb_mode w of Durability_Immediate \<Rightarrow> Some 0 | Durability_None \<Rightarrow> Some (length (wb_buf w)) | Durability_Other \<Rightarrow> None)"

definition wb_is_empty :: "'b weight_batcher \<Rightarrow> bool option" where
  "wb_is_empty w = map_option (\<lambda>n. n = 0) (wb_len w)"

text \<open>
  What the batcher keeps: its parameters, the capped sum of the weights it holds, and that the items it
  holds do not make a full batch. A batch is full at the first item that reaches a threshold.
\<close>

definition weight_sum :: "('b \<Rightarrow> usize) \<Rightarrow> 'b list \<Rightarrow> nat" where
  "weight_sum weight_of xs = sum_list (map weight_of xs)"

definition reaches :: "('b \<Rightarrow> usize) \<Rightarrow> usize \<Rightarrow> usize \<Rightarrow> 'b list \<Rightarrow> bool" where
  "reaches weight_of min_w cap b \<longleftrightarrow> min_w \<le> weight_sum weight_of b \<or> cap \<le> length b"

definition wb_full :: "('b \<Rightarrow> usize) \<Rightarrow> usize \<Rightarrow> usize \<Rightarrow> durability \<Rightarrow> 'b list \<Rightarrow> bool" where
  "wb_full weight_of min_w cap mode b \<longleftrightarrow>
     (case mode of
        Durability_Immediate \<Rightarrow> length b = 1
      | _ \<Rightarrow> reaches weight_of min_w cap b \<and> (butlast b = [] \<or> \<not> reaches weight_of min_w cap (butlast b)))"

definition wb_inv :: "('b \<Rightarrow> usize) \<Rightarrow> usize \<Rightarrow> usize \<Rightarrow> durability \<Rightarrow> 'b weight_batcher \<Rightarrow> bool" where
  "wb_inv weight_of min_w cap mode w \<longleftrightarrow>
     min_w \<le> usize_max \<and> mode \<noteq> Durability_Other \<and> wb_mode w = mode \<and> min_weight w = min_w \<and> wb_cap w = cap \<and>
     wb_weight w = min (weight_sum weight_of (wb_buf w)) usize_max \<and>
     (mode = Durability_Immediate \<longrightarrow> wb_buf w = []) \<and>
     (wb_buf w = [] \<or> \<not> reaches weight_of min_w cap (wb_buf w))"

lemma weight_sum_simps [simp]:
  "weight_sum f [] = 0" "weight_sum f (xs @ [x]) = weight_sum f xs + f x"
  by (simp_all add: weight_sum_def)

lemma push_with_ok:
  assumes "wb_inv f min_w cap mode w"
  shows "\<exists>out w'. push_with f w x = Some (out, w') \<and> wb_inv f min_w cap mode w' \<and>
           (case out of Some b \<Rightarrow> b | None \<Rightarrow> []) @ wb_buf w' = wb_buf w @ [x] \<and>
           (\<forall>b. out = Some b \<longrightarrow> b \<noteq> [] \<and> wb_full f min_w cap mode b)"
proof (cases mode)
  case Durability_None
  have "saturating_add (wb_weight w) (f x) = min (weight_sum f (wb_buf w @ [x])) usize_max"
    using assms by (auto simp: wb_inv_def saturating_add_def)
  moreover from this assms have "min_w \<le> saturating_add (wb_weight w) (f x) \<longleftrightarrow> min_w \<le> weight_sum f (wb_buf w @ [x])"
    by (auto simp: wb_inv_def)
  ultimately show ?thesis
    using assms Durability_None
    by (auto simp: push_with_def wb_inv_def take_inner_def Let_def wb_full_def reaches_def)
qed (use assms in \<open>auto simp: push_with_def wb_inv_def wb_full_def\<close>)

interpretation wb: batcher "wb_inv f min_w cap mode" wb_buf "\<lambda>_. True" "wb_full f min_w cap mode" "push_with f" wb_flush
  for f min_w cap mode
proof
  show "\<exists>out s'. push_with f s x = Some (out, s') \<and> wb_inv f min_w cap mode s' \<and>
      (case out of Some b \<Rightarrow> b | None \<Rightarrow> []) @ wb_buf s' = wb_buf s @ [x] \<and>
      (\<forall>b. out = Some b \<longrightarrow> b \<noteq> [] \<and> wb_full f min_w cap mode b)" if "wb_inv f min_w cap mode s" for s and x :: 'a
    by (rule push_with_ok[OF that])
  show "\<exists>out s'. wb_flush s = Some (out, s') \<and> (case out of Some b \<Rightarrow> b | None \<Rightarrow> []) = wb_buf s \<and> out \<noteq> Some []"
    if "wb_inv f min_w cap mode s" for s :: "'a weight_batcher"
    using that by (cases mode) (auto simp: wb_flush_def wb_inv_def take_inner_def)
qed

lemma wb_inv_new: "min_w \<le> usize_max \<Longrightarrow> mode \<noteq> Durability_Other \<Longrightarrow> wb_inv f min_w cap mode (weight_batcher_new min_w cap mode)"
  by (simp add: wb_inv_def weight_batcher_new_def)

subsection \<open>Batching by size\<close>

record 'b size_batcher =
  byte_limit :: usize
  sb_buf :: "'b list"
  sb_bytes :: usize
  immediate :: bool

definition size_batcher_new :: "usize \<Rightarrow> bool \<Rightarrow> 'b size_batcher" where
  "size_batcher_new limit imm = \<lparr>byte_limit = limit, sb_buf = [], sb_bytes = 0, immediate = imm\<rparr>"

text \<open>The multiplication overflows for limits that no configuration uses; \<open>None\<close> is the panic.\<close>

definition size_batcher_from_kb :: "usize \<Rightarrow> bool \<Rightarrow> 'b size_batcher option" where
  "size_batcher_from_kb kb imm = (if kb * 1024 \<le> usize_max then Some (size_batcher_new (kb * 1024) imm) else None)"

definition sb_push :: "('b \<Rightarrow> usize) \<Rightarrow> 'b size_batcher \<Rightarrow> 'b \<Rightarrow> 'b list option \<times> 'b size_batcher" where
  "sb_push size_of s item =
     (if immediate s then (Some [item], s)
      else
        let item_size = size_of item; projected = saturating_add (sb_bytes s) item_size
        in if projected > byte_limit s
           then (if sb_buf s = [] then (Some [item], s)
                 else (Some (sb_buf s), s\<lparr>sb_bytes := item_size, sb_buf := [item]\<rparr>))
           else (None, s\<lparr>sb_bytes := projected, sb_buf := sb_buf s @ [item]\<rparr>))"

definition take_all :: "'b size_batcher \<Rightarrow> 'b list option \<times> 'b size_batcher" where
  "take_all s =
     (if immediate s \<or> sb_buf s = [] then (None, s) else (Some (sb_buf s), s\<lparr>sb_bytes := 0, sb_buf := []\<rparr>))"

definition sb_full :: "('b \<Rightarrow> usize) \<Rightarrow> usize \<Rightarrow> bool \<Rightarrow> 'b list \<Rightarrow> bool" where
  "sb_full size_of limit imm b \<longleftrightarrow> length b = 1 \<or> (\<not> imm \<and> weight_sum size_of b \<le> limit)"

definition sb_inv :: "('b \<Rightarrow> usize) \<Rightarrow> usize \<Rightarrow> bool \<Rightarrow> 'b size_batcher \<Rightarrow> bool" where
  "sb_inv size_of limit imm s \<longleftrightarrow>
     limit < usize_max \<and> byte_limit s = limit \<and> immediate s = imm \<and> (imm \<longrightarrow> sb_buf s = []) \<and>
     sb_bytes s = weight_sum size_of (sb_buf s) \<and> (sb_buf s = [] \<or> sb_full size_of limit imm (sb_buf s))"

lemma sb_push_ok:
  assumes "sb_inv f limit imm s" and "f x \<le> usize_max"
  shows "\<exists>out s'. Some (sb_push f s x) = Some (out, s') \<and> sb_inv f limit imm s' \<and>
           (case out of Some b \<Rightarrow> b | None \<Rightarrow> []) @ sb_buf s' = sb_buf s @ [x] \<and>
           (\<forall>b. out = Some b \<longrightarrow> b \<noteq> [] \<and> sb_full f limit imm b)"
proof (cases "\<not> imm \<and> \<not> limit < saturating_add (sb_bytes s) (f x)")
  case True
  then have "saturating_add (sb_bytes s) (f x) = weight_sum f (sb_buf s @ [x])"
    using assms by (auto simp: sb_inv_def saturating_add_def min_def split: if_splits)
  with True assms show ?thesis by (auto simp: sb_push_def sb_inv_def Let_def sb_full_def)
next
  case False
  with assms show ?thesis by (auto simp: sb_push_def sb_inv_def Let_def sb_full_def weight_sum_def)
qed

interpretation sb: batcher "sb_inv f limit imm" sb_buf "\<lambda>x. f x \<le> usize_max" "sb_full f limit imm"
  "\<lambda>s x. Some (sb_push f s x)" "\<lambda>s. Some (take_all s)" for f limit imm
proof
  show "\<exists>out s'. Some (sb_push f s x) = Some (out, s') \<and> sb_inv f limit imm s' \<and>
      (case out of Some b \<Rightarrow> b | None \<Rightarrow> []) @ sb_buf s' = sb_buf s @ [x] \<and>
      (\<forall>b. out = Some b \<longrightarrow> b \<noteq> [] \<and> sb_full f limit imm b)" if "sb_inv f limit imm s" "f x \<le> usize_max" for s and x :: 'a
    by (rule sb_push_ok[OF that])
  show "\<exists>out s'. Some (take_all s) = Some (out, s') \<and> (case out of Some b \<Rightarrow> b | None \<Rightarrow> []) = sb_buf s \<and> out \<noteq> Some []"
    if "sb_inv f limit imm s" for s :: "'a size_batcher"
    using that by (auto simp: take_all_def sb_inv_def)
qed

lemma sb_inv_new: "limit < usize_max \<Longrightarrow> sb_inv f limit imm (size_batcher_new limit imm)"
  by (simp add: sb_inv_def size_batcher_new_def)

subsection \<open>Properties\<close>

text \<open>
  The weight batcher keeps the stream: for both supported modes the batches of a stream with its
  final flush, joined, are the stream; no batch is empty; and every batch but the last is full: a
  single block in immediate mode, otherwise the shortest run whose weight reaches the minimum or
  whose length reaches the cap.
\<close>

theorem weight_batches_partition_stream:
  assumes "min_w \<le> usize_max" and "mode \<noteq> Durability_Other"
  shows "\<exists>bs. batch_stream (push_with f) wb_flush (weight_batcher_new min_w cap mode) xs = Some bs \<and> concat bs = xs \<and>
           [] \<notin> set bs \<and> (\<forall>b\<in>set (butlast bs). wb_full f min_w cap mode b)"
  using wb.stream_ok[OF wb_inv_new[OF assms]] by (simp add: weight_batcher_new_def)

theorem weight_batches_partition_stream_witness:
  "\<exists>bs. batch_stream (push_with (\<lambda>n. n)) wb_flush (weight_batcher_new 10 3 Durability_None) [4, 7, 1, 1, 1, 2] = Some bs \<and>
        concat bs = [4, 7, 1, 1, 1, 2] \<and> [] \<notin> set bs \<and> (\<forall>b\<in>set (butlast bs). wb_full (\<lambda>n. n) 10 3 Durability_None b)"
  by (rule weight_batches_partition_stream) simp_all

text \<open>
  C19. The size batcher keeps the stream and its limit: the batches of a stream with the final
  \<open>take_all\<close>, joined, are the stream, and every batch but the last has a total size within the limit
  unless it is a single item that alone exceeds it.
\<close>

theorem size_batches_partition_stream:
  assumes "limit < usize_max" and "\<forall>x\<in>set xs. f x \<le> usize_max"
  shows "\<exists>bs. batch_stream (\<lambda>s x. Some (sb_push f s x)) (\<lambda>s. Some (take_all s)) (size_batcher_new limit imm) xs = Some bs \<and>
           concat bs = xs \<and> [] \<notin> set bs \<and> (\<forall>b\<in>set (butlast bs). sb_full f limit imm b)"
  using sb.stream_ok[OF sb_inv_new[OF assms(1), of f imm] _ assms(2)] by (simp add: size_batcher_new_def)

theorem size_batches_partition_stream_witness:
  "\<exists>bs. batch_stream (\<lambda>s x. Some (sb_push id s x)) (\<lambda>s. Some (take_all s)) (size_batcher_new 10 False) [4, 7, 30, 1, 1] = Some bs \<and>
        concat bs = [4, 7, 30, 1, 1] \<and> [] \<notin> set bs \<and> (\<forall>b\<in>set (butlast bs). sb_full id 10 False b)"
  by (rule size_batches_partition_stream) simp_all

end
