(* ===== verification/Syncer.thy ===== *)
theory Syncer
  imports Reorder_Buffer Batchers
begin

section \<open>Synchronising a chain\<close>

text \<open>
  The model of \<open>chain/src/syncer.rs\<close> with the types of \<open>api.rs\<close> and \<open>err.rs\<close>, of the fetching task in
  \<open>block_stream.rs\<close>, and of \<open>await_shutdown\<close> in \<open>combine.rs\<close>. A synchronisation fetches blocks in parallel,
  processes them, restores their order, and persists them in batches; near the tip it links every
  block to its parent and downloads missing parents.

  The tasks are functions from what they receive to what they send, in the order of the receipts; the
  scheduler, the node and the database are parameters. \<open>None\<close> is a panic. Subtractions of \<open>u32\<close> heights
  panic in builds with overflow checks and wrap around in others; \<open>checks\<close> says which build it is.
\<close>

datatype chain_error =
    Ch_Join string
  | Ch_Shutdown string
  | Ch_Redb string
  | Ch_Transaction string
  | Ch_Table string
  | Ch_Commit string
  | Ch_Storage string
  | Ch_App app_error
  | Ch_Hex string
  | Ch_Config string
  | Ch_Custom string

type_synonym 'a cres = "chain_error + 'a"

definition chain_error_new :: "string \<Rightarrow> chain_error" where
  "chain_error_new msg = Ch_Custom msg"

record 'h block_header =
  bh_height :: nat
  bh_hash :: 'h
  bh_prev_hash :: 'h
  bh_weight :: nat

definition sub_u32 :: "bool \<Rightarrow> nat \<Rightarrow> nat \<Rightarrow> nat option" where
  "sub_u32 checks a b = (if b \<le> a then Some (a - b) else if checks then None else Some (2 ^ 32 + a - b))"

subsection \<open>Waiting for the shutdown\<close>

datatype shutdown_reason = AlreadyTrue | ChangedToTrue | SenderDropped

datatype watch_event = Watch_Changed bool | Watch_Dropped

text \<open>The value of the watch channel, and the events that follow; \<open>None\<close> while none of them ends the wait.\<close>

fun await_changes :: "watch_event list \<Rightarrow> shutdown_reason option" where
  "await_changes [] = None"
| "await_changes (Watch_Changed v # es) = (if v then Some ChangedToTrue else await_changes es)"
| "await_changes (Watch_Dropped # es) = Some SenderDropped"

definition await_shutdown :: "bool \<Rightarrow> watch_event list \<Rightarrow> shutdown_reason option" where
  "await_shutdown current es = (if current then Some AlreadyTrue else await_changes es)"

subsection \<open>The fetching task\<close>

definition heights_to_stream :: "bool \<Rightarrow> nat option \<Rightarrow> nat \<Rightarrow> nat list option" where
  "heights_to_stream checks last_height tip =
     do {
       from_height \<leftarrow> (case last_height of None \<Rightarrow> Some 1 | Some h \<Rightarrow> succ_u32 checks h);
       Some [from_height..<tip + 1]
     }"

definition stream_batch_kb :: "usize \<Rightarrow> usize" where
  "stream_batch_kb max_entity_buffer_kb = max max_entity_buffer_kb 256 div 64"

datatype 'f fetch_event = Fetched 'f | Fetch_End | Fetch_Shutdown

text \<open>
  The fetch loop: the events are the fetched blocks in the order in which they complete, the end of the
  stream, and the shutdown. \<open>send_ok n\<close> says whether the channel takes the batch after \<open>n\<close> sent ones.
\<close>

fun fetch_loop :: "('f \<Rightarrow> usize) \<Rightarrow> (nat \<Rightarrow> bool) \<Rightarrow> 'f size_batcher \<Rightarrow> 'f list list \<Rightarrow> 'f fetch_event list \<Rightarrow> 'f list list" where
  "fetch_loop size_of send_ok s sent [] = sent"
| "fetch_loop size_of send_ok s sent (Fetched f # es) =
     (case sb_push size_of s f of
        (Some b, s1) \<Rightarrow> if send_ok (length sent) then fetch_loop size_of send_ok s1 (sent @ [b]) es else sent
      | (None, s1) \<Rightarrow> fetch_loop size_of send_ok s1 sent es)"
| "fetch_loop size_of send_ok s sent (_ # es) =
     (case take_all s of
        (Some tail, _) \<Rightarrow> if send_ok (length sent) then sent @ [tail] else sent
      | (None, _) \<Rightarrow> sent)"

definition fetch_task :: "('f \<Rightarrow> usize) \<Rightarrow> (nat \<Rightarrow> bool) \<Rightarrow> usize \<Rightarrow> bool \<Rightarrow> 'f fetch_event list \<Rightarrow> 'f list list option" where
  "fetch_task size_of send_ok max_entity_buffer_kb batch es =
     do {
       s \<leftarrow> size_batcher_from_kb (stream_batch_kb max_entity_buffer_kb) (\<not> batch);
       Some (fetch_loop size_of send_ok s [] es)
     }"

subsection \<open>The plan of a synchronisation\<close>

record indexer_settings =
  is_name :: string
  is_enable :: bool
  is_db_path :: string
  node_sync_interval_s :: nat
  fork_detection_heights :: nat
  min_entity_batch_size :: usize
  max_entity_buffer_kb_size :: usize
  non_durable_batches :: usize
  db_cache_size_gb :: nat
  processing_parallelism :: usize
  validation_from_height :: nat

record sync_plan =
  sp_from :: nat
  sp_fetch :: nat
  sp_fork_height :: nat
  sp_batching :: bool
  sp_durability :: durability
  sp_process_limit :: usize

definition plan_sync :: "bool \<Rightarrow> indexer_settings \<Rightarrow> nat \<Rightarrow> nat option \<Rightarrow> sync_plan option option" where
  "plan_sync checks conf tip last_height =
     do {
       from_height \<leftarrow> (case last_height of None \<Rightarrow> Some 1 | Some h \<Rightarrow> succ_u32 checks h);
       to_fetch \<leftarrow> sub_u32 checks tip (case last_height of None \<Rightarrow> 0 | Some h \<Rightarrow> h);
       fork_height \<leftarrow> sub_u32 checks tip (fork_detection_heights conf);
       if to_fetch < 1 then Some None
       else Some (Some
         \<lparr>sp_from = from_height, sp_fetch = to_fetch, sp_fork_height = fork_height,
          sp_batching = (to_fetch > fork_detection_heights conf),
          sp_durability = (if to_fetch > fork_detection_heights conf then Durability_None else Durability_Immediate),
          sp_process_limit = min_entity_batch_size conf div 64\<rparr>)
     }"

subsection \<open>The processing task\<close>

text \<open>Blocks are collected until their weight exceeds the limit; a block that failed is left out.\<close>

definition process_block :: "('b \<Rightarrow> usize) \<Rightarrow> usize \<Rightarrow> 'b list \<times> usize \<Rightarrow> 'b \<Rightarrow> 'b list option \<times> 'b list \<times> usize" where
  "process_block weight_of limit st b =
     (case st of (buf, weight) \<Rightarrow>
        let weight1 = saturating_add weight (weight_of b); buf1 = buf @ [b]
        in if weight1 > limit then (Some buf1, [], 0) else (None, buf1, weight1))"

fun process_results ::
    "('b \<Rightarrow> usize) \<Rightarrow> usize \<Rightarrow> 'b list \<times> usize \<Rightarrow> 'b cres list \<Rightarrow> 'b list list \<times> 'b list \<times> usize" where
  "process_results weight_of limit st [] = ([], st)"
| "process_results weight_of limit st (r # rs) =
     (case r of
        Inl e \<Rightarrow> process_results weight_of limit st rs
      | Inr b \<Rightarrow> (case process_block weight_of limit st b of
          (out, st1) \<Rightarrow> (case process_results weight_of limit st1 rs of
            (outs, st2) \<Rightarrow> ((case out of Some x \<Rightarrow> [x] | None \<Rightarrow> []) @ outs, st2))))"

text \<open>The task: the joined results of the worker threads, or the error of a thread.\<close>

fun process_task ::
    "('b \<Rightarrow> usize) \<Rightarrow> usize \<Rightarrow> 'b list \<times> usize \<Rightarrow> (string + 'b cres list) list \<Rightarrow> 'b list list \<times> 'b list \<times> usize" where
  "process_task weight_of limit st [] = ([], st)"
| "process_task weight_of limit st (j # js) =
     (case j of
        Inl e \<Rightarrow> process_task weight_of limit st js
      | Inr rs \<Rightarrow> (case process_results weight_of limit st rs of
          (outs, st1) \<Rightarrow> (case process_task weight_of limit st1 js of
            (outs', st2) \<Rightarrow> (outs @ outs', st2))))"

text \<open>What the task sends until its stream is closed.\<close>

definition processed :: "('b \<Rightarrow> usize) \<Rightarrow> usize \<Rightarrow> (string + 'b cres list) list \<Rightarrow> 'b list list" where
  "processed weight_of limit js = fst (process_task weight_of limit ([], 0) js)"

subsection \<open>The sorting task\<close>

record 'b sort_state =
  so_reorder :: "'b reorder_buffer"
  so_batcher :: "'b weight_batcher"
  so_sent :: "'b list list"
  so_closed :: bool

fun push_ready :: "('b \<Rightarrow> usize) \<Rightarrow> (nat \<Rightarrow> bool) \<Rightarrow> 'b sort_state \<Rightarrow> 'b list \<Rightarrow> 'b sort_state option" where
  "push_ready weight_of send_ok s [] = Some s"
| "push_ready weight_of send_ok s (b # bs) =
     do {
       (out, wb) \<leftarrow> push_with weight_of (so_batcher s) b;
       (case out of
          None \<Rightarrow> push_ready weight_of send_ok (s\<lparr>so_batcher := wb\<rparr>) bs
        | Some batch \<Rightarrow>
            if send_ok (length (so_sent s))
            then push_ready weight_of send_ok (s\<lparr>so_batcher := wb, so_sent := so_sent s @ [batch]\<rparr>) bs
            else Some (s\<lparr>so_batcher := wb, so_closed := True\<rparr>))
     }"

definition sort_block ::
    "bool \<Rightarrow> ('b \<Rightarrow> nat) \<Rightarrow> ('b \<Rightarrow> usize) \<Rightarrow> (nat \<Rightarrow> bool) \<Rightarrow> 'b sort_state \<Rightarrow> 'b \<Rightarrow> 'b sort_state option" where
  "sort_block checks height_of weight_of send_ok s b =
     (if so_closed s then Some s
      else do {
        (ready, rb) \<leftarrow> reorder_insert checks (so_reorder s) (height_of b) b;
        push_ready weight_of send_ok (s\<lparr>so_reorder := rb\<rparr>) ready
      })"

definition sort_start :: "nat \<Rightarrow> usize \<Rightarrow> durability \<Rightarrow> 'b sort_state" where
  "sort_start from_height min_batch mode =
     \<lparr>so_reorder = reorder_new from_height (1024 * 8), so_batcher = weight_batcher_new min_batch (1024 * 8) mode,
      so_sent = [], so_closed = False\<rparr>"

definition sort_finish :: "(nat \<Rightarrow> bool) \<Rightarrow> 'b sort_state \<Rightarrow> 'b list list option" where
  "sort_finish send_ok s =
     (if so_closed s then Some (so_sent s)
      else do {
        (out, wb) \<leftarrow> wb_flush (so_batcher s);
        Some (case out of
                Some batch \<Rightarrow> if send_ok (length (so_sent s)) then so_sent s @ [batch] else so_sent s
              | None \<Rightarrow> so_sent s)
      })"

definition sort_task ::
    "bool \<Rightarrow> ('b \<Rightarrow> nat) \<Rightarrow> ('b \<Rightarrow> usize) \<Rightarrow> (nat \<Rightarrow> bool) \<Rightarrow> nat \<Rightarrow> usize \<Rightarrow> durability \<Rightarrow> 'b list list \<Rightarrow> 'b list list option" where
  "sort_task checks height_of weight_of send_ok from_height min_batch mode batches =
     do {
       s \<leftarrow> fold_opt (sort_block checks height_of weight_of send_ok) (sort_start from_height min_batch mode) (concat batches);
       sort_finish send_ok s
     }"

subsection \<open>Linking blocks near the tip\<close>

record ('st, 'b, 'h, 'tasks) chain_env =
  ce_header :: "'b \<Rightarrow> 'h block_header"
  ce_header_by_hash :: "'st \<Rightarrow> 'h \<Rightarrow> 'h block_header list cres"
  ce_processed_block :: "'h \<Rightarrow> 'b option cres"
  ce_store_blocks :: "'st \<Rightarrow> 'b list \<Rightarrow> durability \<Rightarrow> 'st \<times> 'tasks cres"
  ce_update_blocks :: "'st \<Rightarrow> 'b list \<Rightarrow> 'st \<times> 'tasks cres"
  ce_stop_writing :: "'st \<Rightarrow> 'st \<times> unit cres"
  ce_no_tasks :: 'tasks

text \<open>
  The recursion follows parents as long as the node knows them and the database does not; nothing in
  the code bounds it. \<open>None\<close> says that it does not return, \<open>Some None\<close> that it panics.
\<close>

partial_function (option) chain_link ::
    "bool \<Rightarrow> ('st, 'b, 'h, 'tasks) chain_env \<Rightarrow> 'st \<Rightarrow> 'b \<Rightarrow> 'b list cres option option" where
  "chain_link checks E st block =
     (case ce_header_by_hash E st (bh_prev_hash (ce_header E block)) of
        Inl e \<Rightarrow> Some (Some (Inl e))
      | Inr prev_headers \<Rightarrow>
          if bh_height (ce_header E block) = 1 then Some (Some (Inr [block]))
          else (case prev_headers of
            ph # _ \<Rightarrow>
              (case sub_u32 checks (bh_height (ce_header E block)) 1 of
                 None \<Rightarrow> Some None
               | Some h \<Rightarrow> if bh_height ph = h then Some (Some (Inr [block])) else Some None)
          | [] \<Rightarrow>
              (case ce_processed_block E (bh_prev_hash (ce_header E block)) of
                 Inl e \<Rightarrow> Some (Some (Inl e))
               | Inr None \<Rightarrow> Some (Some (Inr []))
               | Inr (Some parent) \<Rightarrow>
                   Option.bind (chain_link checks E st parent) (\<lambda>r.
                     Some (case r of
                             None \<Rightarrow> None
                           | Some (Inl e) \<Rightarrow> Some (Inl e)
                           | Some (Inr fork) \<Rightarrow> Some (Inr (fork @ [block])))))))"

text \<open>The blocks of a batch one after the other; the first error ends it.\<close>

fun link_all ::
    "bool \<Rightarrow> ('st, 'b, 'h, 'tasks) chain_env \<Rightarrow> durability \<Rightarrow> 'st \<Rightarrow> 'tasks \<Rightarrow> 'b list \<Rightarrow> ('st \<times> 'tasks cres) option option" where
  "link_all checks E dur st last_tasks [] = Some (Some (st, Inr last_tasks))"
| "link_all checks E dur st last_tasks (b # bs) =
     Option.bind (chain_link checks E st b) (\<lambda>r.
       case r of
         None \<Rightarrow> Some None
       | Some (Inl e) \<Rightarrow> Some (Some (st, Inl e))
       | Some (Inr fork) \<Rightarrow>
           (case fork of
              [] \<Rightarrow> link_all checks E dur st last_tasks bs
            | [x] \<Rightarrow> (case ce_store_blocks E st [x] dur of
                (st1, Inl e) \<Rightarrow> Some (Some (st1, Inl e))
              | (st1, Inr tasks) \<Rightarrow> link_all checks E dur st1 tasks bs)
            | _ \<Rightarrow> (case ce_update_blocks E st fork of
                (st1, Inl e) \<Rightarrow> Some (Some (st1, Inl e))
              | (st1, Inr tasks) \<Rightarrow> link_all checks E dur st1 tasks bs)))"

definition persist_or_link ::
    "bool \<Rightarrow> ('st, 'b, 'h, 'tasks) chain_env \<Rightarrow> nat \<Rightarrow> durability \<Rightarrow> 'st \<Rightarrow> 'b list \<Rightarrow> ('st \<times> 'tasks cres) option option" where
  "persist_or_link checks E fork_detection_height dur st blocks =
     (if blocks = [] then Some (Some (st, Inr (ce_no_tasks E)))
      else if bh_height (ce_header E (last blocks)) \<le> fork_detection_height
      then Some (Some (ce_store_blocks E st blocks dur))
      else link_all checks E dur st (ce_no_tasks E) blocks)"

subsection \<open>The persisting task\<close>

datatype 'b persist_event = Persist_Batch "'b list" | Persist_Empty | Persist_Disconnected | Persist_Shutdown

datatype persist_end = Stopped_Writing | Left_On_Error | Waiting_More

definition batch_durability :: "durability \<Rightarrow> usize \<Rightarrow> nat \<Rightarrow> durability option" where
  "batch_durability default_durability non_durable counter =
     (if counter > 0
      then (if non_durable = 0 then None
            else if counter mod non_durable = 0 then Some Durability_Immediate else Some default_durability)
      else Some default_durability)"

fun persist_loop ::
    "bool \<Rightarrow> ('st, 'b, 'h, 'tasks) chain_env \<Rightarrow> durability \<Rightarrow> usize \<Rightarrow> nat \<Rightarrow> 'st \<Rightarrow> nat \<Rightarrow> 'b persist_event list \<Rightarrow>
     ('st \<times> persist_end) option option" where
  "persist_loop checks E dur non_durable fork_height st counter [] = Some (Some (st, Waiting_More))"
| "persist_loop checks E dur non_durable fork_height st counter (ev # es) =
     (case ev of
        Persist_Batch batch \<Rightarrow>
          (case batch_durability dur non_durable counter of
             None \<Rightarrow> Some None
           | Some d \<Rightarrow> Option.bind (persist_or_link checks E fork_height d st batch) (\<lambda>r.
               case r of
                 None \<Rightarrow> Some None
               | Some (st1, Inl e) \<Rightarrow> Some (Some (st1, Left_On_Error))
               | Some (st1, Inr tasks) \<Rightarrow> persist_loop checks E dur non_durable fork_height st1 (counter + 1) es))
      | Persist_Empty \<Rightarrow> persist_loop checks E dur non_durable fork_height st counter es
      | _ \<Rightarrow> Some (Some (fst (ce_stop_writing E st), Stopped_Writing)))"

end
