(* ===== verification/Sync_Pipeline.thy ===== *)
theory Sync_Pipeline
  imports Syncer
begin

section \<open>What the tasks of a synchronisation deliver\<close>

text \<open>
  The properties of the tasks of \<open>Syncer\<close>: the plan covers the missing heights, the fetching and the
  sorting task keep every block, the processing task drops the last ones, and linking a block near the
  tip returns its branch up to the database.
\<close>

subsection \<open>The sorting task\<close>

lemma feed_batches_append:
  "feed_batches push s (xs @ ys) =
     do { (o1, s1) \<leftarrow> feed_batches push s xs; (o2, s2) \<leftarrow> feed_batches push s1 ys; Some (o1 @ o2, s2) }"
proof (induction xs arbitrary: s)
  case Nil
  show ?case by (cases "feed_batches push s ys") auto
next
  case (Cons x xs)
  show ?case
  proof (cases "push s x")
    case (Some r)
    obtain out s1 where r: "r = (out, s1)" by fastforce
    show ?thesis
    proof (cases "feed_batches push s1 xs")
      case (Some r2)
      obtain o1 s2 where "r2 = (o1, s2)" by fastforce
      with Some r \<open>push s x = Some r\<close> Cons[of s1] show ?thesis
        by (cases "feed_batches push s2 ys") auto
    qed (use Cons[of s1] r Some in simp)
  qed simp
qed

lemma push_ready_ok:
  assumes "feed_batches (push_with f) (so_batcher s) bs = Some (outs, wb)"
  shows "push_ready f (\<lambda>_. True) s bs = Some (s\<lparr>so_batcher := wb, so_sent := so_sent s @ outs\<rparr>)"
  using assms
proof (induction bs arbitrary: s outs)
  case (Cons b bs)
  from Cons.prems obtain out wb1 outs1 where
    1: "push_with f (so_batcher s) b = Some (out, wb1)" "feed_batches (push_with f) wb1 bs = Some (outs1, wb)"
       "outs = (case out of Some x \<Rightarrow> [x] | None \<Rightarrow> []) @ outs1"
    by (auto simp: bind_eq_Some_conv)
  show ?case
  proof (cases out)
    case None
    with 1 Cons.IH[of "s\<lparr>so_batcher := wb1\<rparr>" outs1] show ?thesis by simp
  next
    case (Some x)
    with 1 Cons.IH[of "s\<lparr>so_batcher := wb1, so_sent := so_sent s @ [x]\<rparr>" outs1] show ?thesis by simp
  qed
qed simp

lemma sort_blocks_ok:
  assumes "reorder_run checks (so_reorder s) (map (\<lambda>b. (height_of b, b)) bs) = Some (ready, rb)"
    and "feed_batches (push_with f) (so_batcher s) ready = Some (outs, wb)" and "\<not> so_closed s"
  shows "fold_opt (sort_block checks height_of f (\<lambda>_. True)) s bs =
         Some (s\<lparr>so_reorder := rb, so_batcher := wb, so_sent := so_sent s @ outs\<rparr>)"
  using assms
proof (induction bs arbitrary: s ready outs)
  case (Cons b bs)
  from Cons.prems(1) obtain r1 rb1 r2 where
    1: "reorder_insert checks (so_reorder s) (height_of b) b = Some (r1, rb1)"
       "reorder_run checks rb1 (map (\<lambda>b. (height_of b, b)) bs) = Some (r2, rb)" "ready = r1 @ r2"
    by (auto simp: bind_eq_Some_conv)
  from Cons.prems(2) 1(3) obtain o1 wb1 o2 where
    2: "feed_batches (push_with f) (so_batcher s) r1 = Some (o1, wb1)" "feed_batches (push_with f) wb1 r2 = Some (o2, wb)" "outs = o1 @ o2"
    by (auto simp: feed_batches_append bind_eq_Some_conv)
  let ?s1 = "s\<lparr>so_reorder := rb1, so_batcher := wb1, so_sent := so_sent s @ o1\<rparr>"
  have "sort_block checks height_of f (\<lambda>_. True) s b = Some ?s1"
    using 1(1) 2(1) Cons.prems(3) push_ready_ok[of f "s\<lparr>so_reorder := rb1\<rparr>" r1 o1 wb1] by (simp add: sort_block_def)
  with Cons.IH[of ?s1 r2 o2] 1 2 Cons.prems(3) show ?case by simp
qed auto

text \<open>The blocks of the sorting task as the reorder buffer sees them.\<close>

abbreviation by_height :: "('b \<Rightarrow> nat) \<Rightarrow> 'b list \<Rightarrow> (nat \<times> 'b) list" where
  "by_height height_of bs \<equiv> map (\<lambda>b. (height_of b, b)) bs"

lemma sort_task_ok:
  assumes "\<forall>b\<in>set (concat batches). height_of b < u32_max" and "min_w \<le> usize_max" and "mode \<noteq> Durability_Other"
  shows "\<exists>outs rb. sort_task checks height_of f (\<lambda>_. True) start min_w mode batches = Some outs \<and>
           reordered start (by_height height_of (concat batches)) (concat outs) rb \<and> [] \<notin> set outs \<and>
           (\<forall>b\<in>set (butlast outs). wb_full f min_w (1024 * 8) mode b)"
proof -
  from reorder_run_new[of "by_height height_of (concat batches)" checks start "1024 * 8"] assms(1) obtain ready rb where
    run: "reorder_run checks (reorder_new start (1024 * 8)) (by_height height_of (concat batches)) = Some (ready, rb)"
    and R: "reordered start (by_height height_of (concat batches)) ready rb" by auto
  let ?wb0 = "weight_batcher_new min_w (1024 * 8) mode"
  from wb.feed_ok[OF wb_inv_new[OF assms(2,3)], of ready f "1024 * 8"] obtain outs wb where
    feed: "feed_batches (push_with f) ?wb0 ready = Some (outs, wb)" "wb_inv f min_w (1024 * 8) mode wb"
      "concat outs @ wb_buf wb = ready" "\<forall>b\<in>set outs. b \<noteq> [] \<and> wb_full f min_w (1024 * 8) mode b"
    by (auto simp: weight_batcher_new_def)
  from wb.flush[OF feed(2)] obtain out wb2 where
    fl: "wb_flush wb = Some (out, wb2)" "(case out of Some b \<Rightarrow> b | None \<Rightarrow> []) = wb_buf wb" "out \<noteq> Some []" by blast
  have "fold_opt (sort_block checks height_of f (\<lambda>_. True)) (sort_start start min_w mode) (concat batches) =
        Some ((sort_start start min_w mode)\<lparr>so_reorder := rb, so_batcher := wb, so_sent := outs\<rparr>)"
    using sort_blocks_ok[of checks "sort_start start min_w mode" height_of "concat batches" ready rb f outs wb] run feed(1)
    by (simp add: sort_start_def)
  then have "sort_task checks height_of f (\<lambda>_. True) start min_w mode batches =
             Some (case out of Some b \<Rightarrow> outs @ [b] | None \<Rightarrow> outs)"
    using fl(1) by (simp add: sort_task_def sort_finish_def sort_start_def split: option.split)
  with R feed(3,4) fl(2,3) show ?thesis
    by (cases out) (auto dest: in_set_butlastD intro!: exI[of _ rb])
qed

subsection \<open>The processing task\<close>

definition ok_blocks :: "'b cres list \<Rightarrow> 'b list" where
  "ok_blocks rs = concat (map (\<lambda>r. case r of Inl _ \<Rightarrow> [] | Inr b \<Rightarrow> [b]) rs)"

definition joined_blocks :: "(string + 'b cres list) list \<Rightarrow> 'b list" where
  "joined_blocks js = concat (map (\<lambda>j. case j of Inl _ \<Rightarrow> [] | Inr rs \<Rightarrow> ok_blocks rs) js)"

definition process_inv :: "('b \<Rightarrow> usize) \<Rightarrow> usize \<Rightarrow> 'b list \<times> usize \<Rightarrow> bool" where
  "process_inv f limit st \<longleftrightarrow> snd st = weight_sum f (fst st) \<and> weight_sum f (fst st) \<le> limit"

lemma process_block_ok:
  assumes "limit < usize_max" and "process_inv f limit st" and "process_block f limit st b = (out, st')"
  shows "process_inv f limit st' \<and> (case out of Some x \<Rightarrow> x | None \<Rightarrow> []) @ fst st' = fst st @ [b] \<and>
         (\<forall>x. out = Some x \<longrightarrow> limit < weight_sum f x)"
proof -
  obtain buf w where st: "st = (buf, w)" by fastforce
  have "saturating_add w (f b) > limit \<longleftrightarrow> weight_sum f (buf @ [b]) > limit"
    "saturating_add w (f b) \<le> limit \<Longrightarrow> saturating_add w (f b) = weight_sum f (buf @ [b])"
    using assms(1,2) st by (auto simp: process_inv_def saturating_add_def min_def split: if_splits)
  with assms(2,3) st show ?thesis
    by (auto simp: process_block_def process_inv_def Let_def split: if_splits)
qed

lemma append_chain: "xs @ u = s @ t \<Longrightarrow> ys @ v = u @ w \<Longrightarrow> xs @ ys @ v = s @ t @ w"
  by (metis append.assoc)

lemma process_results_ok:
  assumes "limit < usize_max" and "process_inv f limit st" and "process_results f limit st rs = (outs, st')"
  shows "process_inv f limit st' \<and> concat outs @ fst st' = fst st @ ok_blocks rs \<and> (\<forall>x\<in>set outs. limit < weight_sum f x)"
  using assms(2,3)
proof (induction rs arbitrary: st outs)
  case (Cons r rs)
  show ?case
  proof (cases r)
    case (Inl e)
    with Cons show ?thesis by (auto simp: ok_blocks_def)
  next
    case (Inr b)
    obtain out st1 outs1 where 1: "process_block f limit st b = (out, st1)" "process_results f limit st1 rs = (outs1, st')"
      "outs = (case out of Some x \<Rightarrow> [x] | None \<Rightarrow> []) @ outs1"
      using Cons.prems(2) Inr by (auto split: prod.splits)
    note B = process_block_ok[OF assms(1) Cons.prems(1) 1(1)]
    from Cons.IH[of st1 outs1] B 1(2) have
      "process_inv f limit st' \<and> concat outs1 @ fst st' = fst st1 @ ok_blocks rs \<and> (\<forall>x\<in>set outs1. limit < weight_sum f x)" by blast
    moreover from this B have "(case out of Some x \<Rightarrow> x | None \<Rightarrow> []) @ concat outs1 @ fst st' = fst st @ [b] @ ok_blocks rs"
      by (intro append_chain) auto
    ultimately show ?thesis using B 1(3) Inr by (cases out) (auto simp: ok_blocks_def)
  qed
qed (simp add: ok_blocks_def)

lemma process_task_ok:
  assumes "limit < usize_max" and "process_inv f limit st" and "process_task f limit st js = (outs, st')"
  shows "process_inv f limit st' \<and> concat outs @ fst st' = fst st @ joined_blocks js \<and> (\<forall>x\<in>set outs. limit < weight_sum f x)"
  using assms(2,3)
proof (induction js arbitrary: st outs)
  case (Cons j js)
  show ?case
  proof (cases j)
    case (Inl e)
    with Cons show ?thesis by (auto simp: joined_blocks_def)
  next
    case (Inr rs)
    obtain o1 st1 o2 where 1: "process_results f limit st rs = (o1, st1)" "process_task f limit st1 js = (o2, st')" "outs = o1 @ o2"
      using Cons.prems(2) Inr by (auto split: prod.splits)
    note R = process_results_ok[OF assms(1) Cons.prems(1) 1(1)]
    from Cons.IH[of st1 o2] R 1(2) have
      "process_inv f limit st' \<and> concat o2 @ fst st' = fst st1 @ joined_blocks js \<and> (\<forall>x\<in>set o2. limit < weight_sum f x)" by blast
    moreover from this R have "concat o1 @ concat o2 @ fst st' = fst st @ ok_blocks rs @ joined_blocks js"
      by (intro append_chain) auto
    ultimately show ?thesis using R 1(3) Inr by (auto simp: joined_blocks_def)
  qed
qed (simp add: joined_blocks_def)

lemma processed_prefix:
  assumes "limit < usize_max"
  shows "\<exists>rest. concat (processed f limit js) @ rest = joined_blocks js \<and> weight_sum f rest \<le> limit \<and>
           (\<forall>b\<in>set (processed f limit js). limit < weight_sum f b)"
proof -
  obtain outs st where run: "process_task f limit ([], 0) js = (outs, st)" by (cases "process_task f limit ([], 0) js") auto
  have "process_inv f limit ([], 0)" by (simp add: process_inv_def)
  from process_task_ok[OF assms this run] run show ?thesis
    by (intro exI[of _ "fst st"]) (auto simp: processed_def process_inv_def)
qed

lemma weight_sum_append: "weight_sum f (xs @ ys) = weight_sum f xs + weight_sum f ys"
  by (simp add: weight_sum_def)

lemma processed_light:
  assumes "limit < usize_max" and "weight_sum f (joined_blocks js) \<le> limit"
  shows "processed f limit js = []"
proof (rule ccontr)
  assume "processed f limit js \<noteq> []"
  then obtain b bs where bs: "processed f limit js = b # bs" by (meson neq_Nil_conv)
  from processed_prefix[OF assms(1), of f js] bs obtain rest where
    "b @ concat bs @ rest = joined_blocks js" "limit < weight_sum f b" by auto
  then have "limit < weight_sum f (joined_blocks js)" by (metis weight_sum_append trans_less_add1)
  with assms(2) show False by simp
qed

subsection \<open>The fetching task\<close>

lemma fetch_loop_ok:
  assumes "feed_batches (\<lambda>s x. Some (sb_push f s x)) s fs = Some (outs, s')"
  shows "fetch_loop f (\<lambda>_. True) s sent (map Fetched fs @ [Fetch_End]) =
         sent @ outs @ (case fst (take_all s') of Some b \<Rightarrow> [b] | None \<Rightarrow> [])"
  using assms
proof (induction fs arbitrary: s outs sent)
  case Nil
  then show ?case by (cases "take_all s'"; cases "fst (take_all s')") auto
next
  case (Cons x fs)
  obtain out s1 where 0: "sb_push f s x = (out, s1)" by fastforce
  with Cons.prems obtain outs1 where
    1: "feed_batches (\<lambda>s x. Some (sb_push f s x)) s1 fs = Some (outs1, s')" "outs = (case out of Some b \<Rightarrow> [b] | None \<Rightarrow> []) @ outs1"
    by (auto simp: bind_eq_Some_conv)
  with 0 Cons.IH[OF 1(1)] show ?case by (cases out) auto
qed

subsection \<open>Linking\<close>

text \<open>
  A node and a database that agree on the chain: the parent of a block above height 1 is either in the
  database, at the height below, or known to the node, with the hash asked for and at the height below.
\<close>

definition consistent_chain :: "('st, 'b, 'h, 'tasks) chain_env \<Rightarrow> 'st \<Rightarrow> bool" where
  "consistent_chain E st \<longleftrightarrow>
     (\<forall>b. \<exists>hs. ce_header_by_hash E st (bh_prev_hash (ce_header E b)) = Inr hs \<and>
        (1 < bh_height (ce_header E b) \<longrightarrow>
           (\<forall>h\<in>set hs. bh_height h = bh_height (ce_header E b) - 1) \<and>
           (hs = [] \<longrightarrow> (\<exists>p. ce_processed_block E (bh_prev_hash (ce_header E b)) = Inr (Some p) \<and>
              bh_hash (ce_header E p) = bh_prev_hash (ce_header E b) \<and>
              bh_height (ce_header E p) = bh_height (ce_header E b) - 1))))"

definition links :: "('st, 'b, 'h, 'tasks) chain_env \<Rightarrow> 'b \<Rightarrow> 'b \<Rightarrow> bool" where
  "links E p b \<longleftrightarrow> bh_hash (ce_header E p) = bh_prev_hash (ce_header E b) \<and>
     bh_height (ce_header E b) = bh_height (ce_header E p) + 1"

definition attached :: "('st, 'b, 'h, 'tasks) chain_env \<Rightarrow> 'st \<Rightarrow> 'b \<Rightarrow> bool" where
  "attached E st b \<longleftrightarrow> bh_height (ce_header E b) = 1 \<or>
     (\<exists>ph hs. ce_header_by_hash E st (bh_prev_hash (ce_header E b)) = Inr (ph # hs) \<and>
              bh_height (ce_header E b) = bh_height ph + 1)"

lemma chain_link_ok:
  assumes "consistent_chain E st" and "1 \<le> bh_height (ce_header E b)"
  shows "\<exists>fork. chain_link checks E st b = Some (Some (Inr fork)) \<and> fork \<noteq> [] \<and> last fork = b \<and>
           successively (links E) fork \<and> attached E st (hd fork) \<and> length fork \<le> bh_height (ce_header E b)"
  using assms(2)
proof (induction "bh_height (ce_header E b)" arbitrary: b rule: less_induct)
  case less
  let ?hd = "ce_header E b"
  obtain hs where hs: "ce_header_by_hash E st (bh_prev_hash ?hd) = Inr hs"
    and up: "1 < bh_height ?hd \<Longrightarrow> (\<forall>h\<in>set hs. bh_height h = bh_height ?hd - 1) \<and>
       (hs = [] \<longrightarrow> (\<exists>p. ce_processed_block E (bh_prev_hash ?hd) = Inr (Some p) \<and>
          bh_hash (ce_header E p) = bh_prev_hash ?hd \<and> bh_height (ce_header E p) = bh_height ?hd - 1))"
    using assms(1) unfolding consistent_chain_def by blast
  show ?case
  proof (cases "bh_height ?hd = 1")
    case True
    with hs show ?thesis by (subst chain_link.simps) (auto simp: attached_def)
  next
    case False
    with less.prems have high: "1 < bh_height ?hd" by simp
    show ?thesis
    proof (cases hs)
      case (Cons ph rest)
      with up[OF high] hs high False show ?thesis
        by (subst chain_link.simps) (auto simp: attached_def sub_u32_def)
    next
      case Nil
      with up[OF high] obtain p where p: "ce_processed_block E (bh_prev_hash ?hd) = Inr (Some p)"
        "bh_hash (ce_header E p) = bh_prev_hash ?hd" "bh_height (ce_header E p) = bh_height ?hd - 1" by blast
      have "bh_height (ce_header E p) < bh_height ?hd" "1 \<le> bh_height (ce_header E p)" using p(3) high by simp_all
      from less.hyps[OF this] obtain fork where f: "chain_link checks E st p = Some (Some (Inr fork))" "fork \<noteq> []"
        "last fork = p" "successively (links E) fork" "attached E st (hd fork)" "length fork \<le> bh_height (ce_header E p)" by blast
      have "chain_link checks E st b = Some (Some (Inr (fork @ [b])))"
        using hs Nil False p(1) f(1) by (subst chain_link.simps) simp
      moreover have "links E p b" using p high by (simp add: links_def)
      ultimately show ?thesis
        using f p(3) high by (intro exI[of _ "fork @ [b]"]) (auto simp: successively_append_iff)
    qed
  qed
qed

subsection \<open>Properties\<close>

text \<open>
  C10. The sorting task sends the chain in order. Whatever order the processed blocks arrive in, with an
  open channel and heights below the largest one, the batches sent, joined, are the blocks of the
  consecutive heights from the first missing one on, for every height the block that arrived first, up
  to the first height that did not arrive; no batch is empty, and all but the last are full.
\<close>

theorem sort_task_in_order:
  assumes "\<forall>b\<in>set (concat batches). height_of b < u32_max" and "min_w \<le> usize_max" and "mode \<noteq> Durability_Other"
  shows "\<exists>outs n. sort_task checks height_of f (\<lambda>_. True) start min_w mode batches = Some outs \<and> start \<le> n \<and>
           map height_of (concat outs) = [start..<n] \<and> set (concat outs) \<subseteq> set (concat batches) \<and>
           (\<forall>b\<in>set (concat batches). height_of b \<noteq> n) \<and> [] \<notin> set outs \<and>
           (\<forall>b\<in>set (butlast outs). wb_full f min_w (1024 * 8) mode b)"
proof -
  let ?xs = "by_height height_of (concat batches)"
  from sort_task_ok[OF assms, of checks f start] obtain outs rb where
    run: "sort_task checks height_of f (\<lambda>_. True) start min_w mode batches = Some outs" and R: "reordered start ?xs (concat outs) rb"
    and rest: "[] \<notin> set outs" "\<forall>b\<in>set (butlast outs). wb_full f min_w (1024 * 8) mode b" by blast
  have n: "start \<le> next_height rb" "concat outs = map (\<lambda>h. the (map_of ?xs h)) [start..<next_height rb]"
    "map_of ?xs (next_height rb) = None" "\<And>h. start \<le> h \<Longrightarrow> h < next_height rb \<Longrightarrow> map_of ?xs h \<noteq> None"
    using R unfolding reordered_def by blast+
  have each: "height_of (the (map_of ?xs h)) = h \<and> the (map_of ?xs h) \<in> set (concat batches)"
    if "start \<le> h" "h < next_height rb" for h
    using n(4)[OF that] map_of_SomeD[of ?xs h] by fastforce
  have "map height_of (concat outs) = map (\<lambda>h. height_of (the (map_of ?xs h))) [start..<next_height rb]"
    unfolding n(2) by (simp add: o_def)
  also have "\<dots> = [start..<next_height rb]" by (rule map_idI) (use each in auto)
  finally have "map height_of (concat outs) = [start..<next_height rb]" .
  moreover have "set (concat outs) \<subseteq> set (concat batches)" unfolding n(2) using each by fastforce
  moreover have "next_height rb \<notin> fst ` set ?xs" using n(3) by (simp only: map_of_eq_None_iff not_False_eq_True)
  then have "\<forall>b\<in>set (concat batches). height_of b \<noteq> next_height rb" by (simp add: image_iff) metis
  ultimately show ?thesis using run rest n(1) by blast
qed

theorem sort_task_in_order_witness:
  "\<exists>outs n. sort_task True id (\<lambda>_. 1) (\<lambda>_. True) 5 2 Durability_None [[7, 5], [3, 6], [9]] = Some outs \<and> 5 \<le> n \<and>
     map id (concat outs) = [5..<n] \<and> (\<forall>b\<in>set (concat [[7, 5], [3, 6], [9]]). id b \<noteq> n)"
  using sort_task_in_order[of "[[7, 5], [3, 6], [9]]" id 2 Durability_None True "\<lambda>_. 1" 5] by fastforce

text \<open>
  The processing task sends a prefix: the batches it sends before its stream closes, joined, are an
  initial part of the blocks that were processed, in their order, and each of them weighs more than
  the limit. What follows this part, blocks of a total weight up to the limit, is not sent.
\<close>

theorem process_sends_prefix:
  assumes "limit < usize_max"
  shows "\<exists>rest. concat (processed f limit js) @ rest = joined_blocks js \<and> weight_sum f rest \<le> limit \<and>
           (\<forall>b\<in>set (processed f limit js). limit < weight_sum f b)"
  by (rule processed_prefix[OF assms])

theorem process_sends_prefix_witness:
  "\<exists>rest. concat (processed id 5 [Inr [Inr 4, Inl (Ch_Custom ''x''), Inr 3], Inl ''join'', Inr [Inr 2]]) @ rest =
          joined_blocks [Inr [Inr 4, Inl (Ch_Custom ''x''), Inr 3], Inl ''join'', Inr [Inr 2]] \<and> weight_sum id rest \<le> 5"
  using process_sends_prefix[of 5 id "[Inr [Inr 4, Inl (Ch_Custom ''x''), Inr 3], Inl ''join'', Inr [Inr 2]]"] by fastforce

text \<open>
  A light tail of the chain is not persisted: when the blocks of a synchronisation together weigh
  no more than the processing limit, nothing reaches the sorting task and it sends nothing, although
  every block was fetched and processed.
\<close>

theorem light_blocks_lost:
  assumes "limit < usize_max" and "weight_sum f (joined_blocks js) \<le> limit" and "mode \<noteq> Durability_Other"
  shows "sort_task checks height_of f send_ok start min_w mode (processed f limit js) = Some []"
  using processed_light[OF assms(1,2)] assms(3)
  by (cases mode) (simp_all add: sort_task_def sort_start_def sort_finish_def wb_flush_def weight_batcher_new_def)

theorem light_blocks_lost_witness:
  "sort_task True fst snd (\<lambda>_. True) 101 10000 Durability_Immediate (processed snd (10000 div 64) [Inr [Inr (101, 50)]]) = Some []"
  by (rule light_blocks_lost) (simp_all add: joined_blocks_def ok_blocks_def weight_sum_def)

text \<open>
  The fetching task sends what it fetched: with an open channel and a configured buffer below the
  range of sizes, the batches until the end of the stream, joined, are the fetched blocks in the order
  of their arrival, each batch within the size limit unless it is a single block.
\<close>

theorem fetch_task_complete:
  assumes "stream_batch_kb kb * 1024 < usize_max" and "\<forall>x\<in>set fs. size_of x \<le> usize_max"
  shows "\<exists>bs. fetch_task size_of (\<lambda>_. True) kb batch (map Fetched fs @ [Fetch_End]) = Some bs \<and> concat bs = fs \<and> [] \<notin> set bs \<and>
           (\<forall>b\<in>set (butlast bs). sb_full size_of (stream_batch_kb kb * 1024) (\<not> batch) b)"
proof -
  let ?s = "size_batcher_new (stream_batch_kb kb * 1024) (\<not> batch)"
  from sb.stream_ok[OF sb_inv_new[OF assms(1), of size_of "\<not> batch"] _ assms(2)] obtain bs where
    bs: "batch_stream (\<lambda>s x. Some (sb_push size_of s x)) (\<lambda>s. Some (take_all s)) ?s fs = Some bs" "concat bs = fs" "[] \<notin> set bs"
      "\<forall>b\<in>set (butlast bs). sb_full size_of (stream_batch_kb kb * 1024) (\<not> batch) b" by (auto simp: size_batcher_new_def)
  from bs(1) obtain outs s1 where feed: "feed_batches (\<lambda>s x. Some (sb_push size_of s x)) ?s fs = Some (outs, s1)"
    by (auto simp: batch_stream_def bind_eq_Some_conv)
  from bs(1) have eq: "bs = outs @ (case fst (take_all s1) of Some b \<Rightarrow> [b] | None \<Rightarrow> [])"
    by (cases "take_all s1") (auto simp: batch_stream_def feed)
  have "fetch_task size_of (\<lambda>_. True) kb batch (map Fetched fs @ [Fetch_End]) = Some bs"
    using fetch_loop_ok[OF feed, of "[]"] eq assms(1) by (simp add: fetch_task_def size_batcher_from_kb_def)
  with bs show ?thesis by blast
qed

theorem fetch_task_complete_witness:
  "\<exists>bs. fetch_task (\<lambda>n. n * 1000) (\<lambda>_. True) 512 True (map Fetched [3, 4, 20, 1] @ [Fetch_End]) = Some bs \<and> concat bs = [3, 4, 20, 1]"
  using fetch_task_complete[of 512 "[3, 4, 20, 1]" "\<lambda>n. n * 1000" True] by (auto simp: stream_batch_kb_def)

text \<open>
  The plan covers the missing heights: when the tip of the node is not behind the last persisted
  block and not below the fork detection distance, nothing is planned if and only if the tip is
  persisted, and otherwise the fetching task asks for exactly the planned number of heights, from the
  one after the last persisted up to the tip.
\<close>

theorem plan_covers_gap:
  assumes "last_of \<le> tip" and "tip < u32_max" and "fork_detection_heights conf \<le> tip"
    and "last_of = (case last_height of None \<Rightarrow> 0 | Some h \<Rightarrow> h)"
  shows "\<exists>r hs. plan_sync checks conf tip last_height = Some r \<and> heights_to_stream checks last_height tip = Some hs \<and>
           (r = None \<longleftrightarrow> tip = last_of) \<and> hs = [last_of + 1..<tip + 1] \<and>
           (\<forall>p. r = Some p \<longrightarrow> length hs = sp_fetch p \<and> sp_from p = hd hs \<and> last hs = tip \<and>
              sp_fork_height p = tip - fork_detection_heights conf \<and>
              (sp_durability p = Durability_None \<longleftrightarrow> fork_detection_heights conf < length hs))"
  using assms by (cases last_height)
    (auto simp: plan_sync_def heights_to_stream_def sub_u32_def succ_u32_def hd_upt last_upt not_le not_less simp del: upt_Suc)

definition demo_conf :: indexer_settings where
  "demo_conf = \<lparr>is_name = ''btc'', is_enable = True, is_db_path = ''/tmp'', node_sync_interval_s = 1, fork_detection_heights = 10,
     min_entity_batch_size = 10000, max_entity_buffer_kb_size = 512, non_durable_batches = 4, db_cache_size_gb = 1,
     processing_parallelism = 4, validation_from_height = 1\<rparr>"

theorem plan_covers_gap_witness:
  "\<exists>r hs. plan_sync True demo_conf 120 (Some 100) = Some r \<and> heights_to_stream True (Some 100) 120 = Some hs \<and>
     (r = None \<longleftrightarrow> 120 = (100 :: nat)) \<and> hs = [101..<121]"
  using plan_covers_gap[of 100 120 demo_conf "Some 100" True] by (auto simp: demo_conf_def)

text \<open>
  A young chain stops the synchronisation or disables the fork detection: with a tip below the
  configured fork detection distance the plan panics in a build with overflow checks; in a build
  without them the height from which blocks are linked lies above the tip, so that every batch up to
  the tip is stored without looking for its parent.
\<close>

theorem young_chain_underflow:
  assumes "tip < fork_detection_heights conf" and "fork_detection_heights conf < 256"
    and "last_height = None" and "1 \<le> tip"
  shows "plan_sync True conf tip last_height = None \<and>
         (\<exists>p. plan_sync False conf tip last_height = Some (Some p) \<and> tip < sp_fork_height p \<and>
              (\<forall>E dur st blocks. blocks \<noteq> [] \<longrightarrow> bh_height (ce_header E (last blocks)) \<le> tip \<longrightarrow>
                 persist_or_link False E (sp_fork_height p) dur st blocks = Some (Some (ce_store_blocks E st blocks dur))))"
  using assms by (auto simp: plan_sync_def sub_u32_def persist_or_link_def)

theorem young_chain_underflow_witness:
  "plan_sync True demo_conf 3 None = None \<and> (\<exists>p. plan_sync False demo_conf 3 None = Some (Some p) \<and> 3 < sp_fork_height p)"
  using young_chain_underflow[of 3 demo_conf None] by (auto simp: demo_conf_def)


definition demo_chain :: "(unit, nat, nat, unit) chain_env" where
  "demo_chain =
     \<lparr>ce_header = (\<lambda>n. \<lparr>bh_height = n, bh_hash = n, bh_prev_hash = n - 1, bh_weight = 1\<rparr>),
      ce_header_by_hash = (\<lambda>_ h. Inr (if h \<le> 5 then [\<lparr>bh_height = h, bh_hash = h, bh_prev_hash = h - 1, bh_weight = 1\<rparr>] else [])),
      ce_processed_block = (\<lambda>h. Inr (if h = 12 then None else Some h)), ce_store_blocks = (\<lambda>st _ _. (st, Inr ())),
      ce_update_blocks = (\<lambda>st _. (st, Inr ())), ce_stop_writing = (\<lambda>st. (st, Inr ())), ce_no_tasks = ()\<rparr>"


text \<open>
  A branch with an unavailable ancestor is not given up: when the parent of a block is downloaded
  but the parent's own parent is neither in the database nor known to the node, linking returns the
  block alone, without its parent, and the block is stored as if it were linked.
\<close>

theorem partial_branch_stored:
  assumes "ce_header_by_hash E st (bh_prev_hash (ce_header E b)) = Inr []" and "bh_height (ce_header E b) \<noteq> 1"
    and "ce_processed_block E (bh_prev_hash (ce_header E b)) = Inr (Some p)"
    and "ce_header_by_hash E st (bh_prev_hash (ce_header E p)) = Inr []" and "bh_height (ce_header E p) \<noteq> 1"
    and "ce_processed_block E (bh_prev_hash (ce_header E p)) = Inr None"
    and "fork_height < bh_height (ce_header E b)" and "ce_store_blocks E st [b] dur = (st', Inr tasks)"
  shows "chain_link checks E st b = Some (Some (Inr [b])) \<and>
         persist_or_link checks E fork_height dur st [b] = Some (Some (st', Inr tasks))"
proof -
  have "chain_link checks E st p = Some (Some (Inr []))" using assms(4-6) by (subst chain_link.simps) simp
  then have "chain_link checks E st b = Some (Some (Inr [b]))" using assms(1-3) by (subst chain_link.simps) simp
  then show ?thesis using assms(7,8) by (simp add: persist_or_link_def)
qed

theorem partial_branch_stored_witness:
  "chain_link True demo_chain () 14 = Some (Some (Inr [14])) \<and>
   persist_or_link True demo_chain 5 Durability_Immediate () [14] = Some (Some ((), Inr ()))"
  by (rule partial_branch_stored[where p = 13]) (simp_all add: demo_chain_def)

end
