(* ===== verification/Pointers.thy ===== *)
theory Pointers
  imports Sorting_Facts
begin

section \<open>Primary keys and pointers\<close>

text \<open>
  The keys of entities: \<open>macro_rules.rs\<close> (the implementations that the key macros expand to), the traits of
  \<open>lib.rs\<close>, and the templates \<open>pk/root_impls.rs\<close> and \<open>pk/pointer_impls.rs\<close>. A root key is a newtype around an
  unsigned integer; a pointer is a parent key with an index. Every struct that the macros generate is a
  key type \<open>ptr_ty\<close>, and its values are the pointers that are \<open>well_typed\<close> at it; the generated functions take
  the key type as an argument where the code is generated from it. The size of an index type is given in
  bytes.

  An addition to an index panics in builds with overflow checks and wraps around in others; \<open>checks\<close> says
  which build it is, and \<open>None\<close> is a panic.
\<close>

datatype ptr_ty = Root_Ty nat | Child_Ty ptr_ty nat

datatype pointer = Root nat | Child pointer nat

fun well_typed :: "ptr_ty \<Rightarrow> pointer \<Rightarrow> bool" where
  "well_typed (Root_Ty k) (Root i) \<longleftrightarrow> i < 256 ^ k"
| "well_typed (Child_Ty t k) (Child p i) \<longleftrightarrow> well_typed t p \<and> i < 256 ^ k"
| "well_typed _ _ \<longleftrightarrow> False"

lemma well_typed_RootE [elim!]:
  assumes "well_typed (Root_Ty k) p" obtains i where "p = Root i" "i < 256 ^ k"
  using assms by (cases p) auto

lemma well_typed_ChildE [elim!]:
  assumes "well_typed (Child_Ty t k) p" obtains q i where "p = Child q i" "well_typed t q" "i < 256 ^ k"
  using assms by (cases p) auto

subsection \<open>The derived order\<close>

instantiation pointer :: linorder
begin

fun less_pointer :: "pointer \<Rightarrow> pointer \<Rightarrow> bool" where
  "Root i < Root j \<longleftrightarrow> i < j"
| "Root i < Child q j \<longleftrightarrow> True"
| "Child p i < Root j \<longleftrightarrow> False"
| "Child p i < Child q j \<longleftrightarrow> p < q \<or> p = q \<and> i < j"

definition less_eq_pointer :: "pointer \<Rightarrow> pointer \<Rightarrow> bool" where
  "less_eq_pointer p q \<longleftrightarrow> p < q \<or> p = q"

instance
proof
  have irrefl: "\<not> p < p" for p :: pointer by (induction p) auto
  have trans: "p < r" if "p < q" "q < r" for p q r :: pointer
    using that
  proof (induction p arbitrary: q r)
    case (Root i)
    then show ?case by (cases q; cases r) auto
  next
    case (Child p i)
    then show ?case by (cases q; cases r) auto
  qed
  have lin: "p < q \<or> p = q \<or> q < p" for p q :: pointer
  proof (induction p arbitrary: q)
    case (Root i)
    show ?case by (cases q) auto
  next
    case (Child p i)
    then show ?case by (cases q) auto
  qed
  fix p q r :: pointer
  show "p < q \<longleftrightarrow> p \<le> q \<and> \<not> q \<le> p" using irrefl trans by (auto simp: less_eq_pointer_def)
  show "p \<le> p" by (simp add: less_eq_pointer_def)
  show "p \<le> q \<Longrightarrow> q \<le> r \<Longrightarrow> p \<le> r" using trans by (auto simp: less_eq_pointer_def)
  show "p \<le> q \<Longrightarrow> q \<le> p \<Longrightarrow> p = q" using irrefl trans by (auto simp: less_eq_pointer_def)
  show "p \<le> q \<or> q \<le> p" using lin by (auto simp: less_eq_pointer_def)
qed

end

lemma Child_le [simp]: "Child p i \<le> Child q j \<longleftrightarrow> p < q \<or> p = q \<and> i \<le> j"
  by (auto simp: less_eq_pointer_def)

lemma Root_le [simp]: "Root i \<le> Root j \<longleftrightarrow> i \<le> j"
  by (auto simp: less_eq_pointer_def)

subsection \<open>The binary codec\<close>

fun codec_size :: "ptr_ty \<Rightarrow> nat" where
  "codec_size (Root_Ty k) = k"
| "codec_size (Child_Ty t k) = codec_size t + k"

fun as_le_bytes :: "ptr_ty \<Rightarrow> pointer \<Rightarrow> bytes" where
  "as_le_bytes (Root_Ty k) (Root i) = to_le_bytes k i"
| "as_le_bytes (Child_Ty t k) (Child p i) = as_le_bytes t p @ to_le_bytes k i"
| "as_le_bytes _ _ = []"

text \<open>A slice of another length panics: the length is asserted before the bytes are split.\<close>

fun from_le_bytes :: "ptr_ty \<Rightarrow> bytes \<Rightarrow> pointer option" where
  "from_le_bytes (Root_Ty k) bs = (if length bs = k then Some (Root (le_value bs)) else None)"
| "from_le_bytes (Child_Ty t k) bs =
     (if length bs = codec_size t + k
      then do {
        p \<leftarrow> from_le_bytes t (take (codec_size t) bs);
        Some (Child p (le_value (drop (codec_size t) bs)))
      }
      else None)"

definition key_compare :: "ptr_ty \<Rightarrow> bytes \<Rightarrow> bytes \<Rightarrow> comp option" where
  "key_compare t data1 data2 =
     do {
       a \<leftarrow> from_le_bytes t data1;
       b \<leftarrow> from_le_bytes t data2;
       Some (compare default a b)
     }"

subsection \<open>Indices\<close>

definition add_index :: "bool \<Rightarrow> nat \<Rightarrow> nat \<Rightarrow> nat \<Rightarrow> nat option" where
  "add_index checks k a b =
     (if a + b < 256 ^ k then Some (a + b) else if checks then None else Some ((a + b) mod 256 ^ k))"

fun ptr_index :: "pointer \<Rightarrow> nat" where
  "ptr_index (Root i) = i"
| "ptr_index (Child p i) = i"

fun next_index :: "bool \<Rightarrow> ptr_ty \<Rightarrow> pointer \<Rightarrow> pointer option" where
  "next_index checks (Root_Ty k) (Root i) = map_option Root (add_index checks k i 1)"
| "next_index checks (Child_Ty t k) (Child p i) = map_option (Child p) (add_index checks k i 1)"
| "next_index checks _ _ = None"

text \<open>The cast \<open>n as Index\<close> keeps the low bytes of the argument.\<close>

fun nth_index :: "bool \<Rightarrow> ptr_ty \<Rightarrow> pointer \<Rightarrow> usize \<Rightarrow> pointer option" where
  "nth_index checks (Root_Ty k) (Root i) n = map_option Root (add_index checks k i (n mod 256 ^ k))"
| "nth_index checks (Child_Ty t k) (Child p i) n = map_option (Child p) (add_index checks k i (n mod 256 ^ k))"
| "nth_index checks _ _ n = None"

fun rollback_or_init :: "pointer \<Rightarrow> nat \<Rightarrow> pointer" where
  "rollback_or_init (Root i) n = Root (if n \<le> i then i - n else 0)"
| "rollback_or_init (Child p i) n = Child (rollback_or_init p n) 0"

fun total_index :: "pointer \<Rightarrow> nat" where
  "total_index (Root i) = i"
| "total_index (Child p i) = total_index p * 3 + i"

fun depth :: "pointer \<Rightarrow> nat" where
  "depth (Root i) = 0"
| "depth (Child p i) = 1 + depth p"

fun is_pointer :: "pointer \<Rightarrow> bool" where
  "is_pointer (Root i) = False"
| "is_pointer (Child p i) = True"

definition from_many :: "nat list \<Rightarrow> pointer list" where
  "from_many pks = map Root pks"

definition from_parent :: "pointer \<Rightarrow> nat \<Rightarrow> pointer" where
  "from_parent p i = Child p i"

fun parent :: "pointer \<Rightarrow> pointer option" where
  "parent (Root i) = None"
| "parent (Child p i) = Some p"

text \<open>The range of the children of a key: from its first child to the first child of the next key.\<close>

definition fk_range :: "bool \<Rightarrow> ptr_ty \<Rightarrow> pointer \<Rightarrow> (pointer \<times> pointer) option" where
  "fk_range checks t p =
     do {
       q \<leftarrow> next_index checks t p;
       Some (from_parent p 0, from_parent q 0)
     }"

subsection \<open>Text\<close>

datatype int_error = Int_Empty | Int_Invalid_Digit | Int_Pos_Overflow

datatype parse_pointer_error = Ptr_Format | Ptr_Parse_Int int_error

definition digit_char :: "nat \<Rightarrow> char" where
  "digit_char d = char_of (48 + d)"

definition digit_of :: "char \<Rightarrow> nat option" where
  "digit_of c = (let n = of_char c :: nat in if 48 \<le> n \<and> n < 58 then Some (n - 48) else None)"

fun show_uint :: "nat \<Rightarrow> string" where
  "show_uint n = (if n < 10 then [digit_char n] else show_uint (n div 10) @ [digit_char (n mod 10)])"

declare show_uint.simps [simp del]

text \<open>
  Parsing an unsigned integer of \<open>k\<close> bytes, as the standard library does it: a leading plus sign is
  accepted, a character that is no digit is reported before an overflow at the same place.
\<close>

fun parse_digits :: "nat \<Rightarrow> nat \<Rightarrow> string \<Rightarrow> int_error + nat" where
  "parse_digits k acc [] = Inr acc"
| "parse_digits k acc (c # cs) =
     (case digit_of c of
        None \<Rightarrow> Inl Int_Invalid_Digit
      | Some d \<Rightarrow> if acc * 10 + d < 256 ^ k then parse_digits k (acc * 10 + d) cs else Inl Int_Pos_Overflow)"

definition parse_uint :: "nat \<Rightarrow> string \<Rightarrow> int_error + nat" where
  "parse_uint k s =
     (if s = [] then Inl Int_Empty
      else if s = ''+'' \<or> s = ''-'' then Inl Int_Invalid_Digit
      else parse_digits k 0 (if hd s = CHR ''+'' then tl s else s))"

fun url_encode :: "pointer \<Rightarrow> string" where
  "url_encode (Root i) = show_uint i"
| "url_encode (Child p i) = url_encode p @ ''-'' @ show_uint i"

text \<open>\<open>rsplitn(2, '-')\<close>: the part behind the last dash, then the part before it, when there is a dash.\<close>

definition rsplit_dash :: "string \<Rightarrow> string \<times> string option" where
  "rsplit_dash s =
     (let tail = rev (takeWhile (\<lambda>c. c \<noteq> CHR ''-'') (rev s))
      in (tail, if CHR ''-'' \<in> set s then Some (take (length s - length tail - 1) s) else None))"

fun try_from :: "ptr_ty \<Rightarrow> string \<Rightarrow> parse_pointer_error + pointer" where
  "try_from (Root_Ty k) s =
     (if CHR ''-'' \<in> set s then Inl Ptr_Format
      else (case parse_uint k s of Inl e \<Rightarrow> Inl (Ptr_Parse_Int e) | Inr i \<Rightarrow> Inr (Root i)))"
| "try_from (Child_Ty t k) s =
     (case rsplit_dash s of
        (idx_str, None) \<Rightarrow> Inl Ptr_Format
      | (idx_str, Some parent_str) \<Rightarrow>
          (case try_from t parent_str of
             Inl e \<Rightarrow> Inl e
           | Inr p \<Rightarrow> (case parse_uint k idx_str of Inl e \<Rightarrow> Inl (Ptr_Parse_Int e) | Inr i \<Rightarrow> Inr (Child p i))))"

subsection \<open>Lemmas on the codec\<close>

lemma length_as_le_bytes [simp]: "well_typed t p \<Longrightarrow> length (as_le_bytes t p) = codec_size t"
  by (induction t p rule: well_typed.induct) simp_all

lemma from_as_le_bytes [simp]: "well_typed t p \<Longrightarrow> from_le_bytes t (as_le_bytes t p) = Some p"
  by (induction t p rule: well_typed.induct) (simp_all add: le_value_to_le_bytes)

lemma from_le_bytes_Some_iff: "from_le_bytes t bs = Some p \<longleftrightarrow> well_typed t p \<and> as_le_bytes t p = bs"
proof (induction t arbitrary: bs p)
  case (Root_Ty k)
  show ?case
    using le_value_bound[of bs] by (cases p) (auto simp: to_le_bytes_eq_iff)
next
  case (Child_Ty t k)
  show ?case
  proof (cases p)
    case (Child q i)
    have "from_le_bytes (Child_Ty t k) bs = Some p \<longleftrightarrow>
        length bs = codec_size t + k \<and> well_typed t q \<and> as_le_bytes t q = take (codec_size t) bs \<and>
        i = le_value (drop (codec_size t) bs)"
      using Child Child_Ty.IH[of "take (codec_size t) bs" q] by (auto simp: bind_eq_Some_conv)
    also have "\<dots> \<longleftrightarrow> well_typed t q \<and> i < 256 ^ k \<and> as_le_bytes t q @ to_le_bytes k i = bs"
      using le_value_bound[of "drop (codec_size t) bs"] to_le_bytes_le_value[of "drop (codec_size t) bs"]
      by (auto simp: le_value_to_le_bytes)
    finally show ?thesis using Child by simp
  qed (auto simp: bind_eq_Some_conv)
qed

lemma from_le_bytes_total: "length bs = codec_size t \<Longrightarrow> \<exists>p. from_le_bytes t bs = Some p"
proof (induction t arbitrary: bs)
  case (Child_Ty t k)
  then have "length (take (codec_size t) bs) = codec_size t" by simp
  from Child_Ty.IH[OF this] obtain p where "from_le_bytes t (take (codec_size t) bs) = Some p" by blast
  with Child_Ty.prems show ?case by simp
qed simp

subsection \<open>Lemmas on text\<close>

lemma digit_of_digit_char [simp]: "d < 10 \<Longrightarrow> digit_of (digit_char d) = Some d"
  by (simp add: digit_of_def digit_char_def)

lemma show_uint_nonempty [simp]: "show_uint n \<noteq> []"
  by (subst show_uint.simps) simp

lemma show_uint_digits: "c \<in> set (show_uint n) \<Longrightarrow> digit_of c \<noteq> None"
proof (induction n rule: show_uint.induct)
  case (1 n)
  from 1(2) show ?case by (subst (asm) show_uint.simps) (use 1(1) in \<open>auto split: if_splits\<close>)
qed

lemma no_dash_in_show [simp]: "CHR ''-'' \<notin> set (show_uint n)"
  using show_uint_digits[of "CHR ''-''" n] by (auto simp: digit_of_def)

lemma parse_digits_append:
  "parse_digits k acc (xs @ ys) = (case parse_digits k acc xs of Inl e \<Rightarrow> Inl e | Inr a \<Rightarrow> parse_digits k a ys)"
  by (induction xs arbitrary: acc) (auto split: option.splits)

lemma parse_digits_show: "n < 256 ^ k \<Longrightarrow> parse_digits k 0 (show_uint n) = Inr n"
proof (induction n rule: show_uint.induct)
  case (1 n)
  show ?case
  proof (cases "n < 10")
    case False
    have "n div 10 < 256 ^ k" using "1.prems" by (meson div_le_dividend le_less_trans)
    with 1 False show ?thesis by (subst show_uint.simps) (simp add: parse_digits_append)
  qed (subst show_uint.simps, use "1.prems" in simp)
qed

lemma parse_uint_show: "n < 256 ^ k \<Longrightarrow> parse_uint k (show_uint n) = Inr n"
proof -
  assume n: "n < 256 ^ k"
  have "hd (show_uint n) \<noteq> CHR ''+''" "show_uint n \<noteq> ''+''" "show_uint n \<noteq> ''-''"
    using show_uint_digits[of "hd (show_uint n)" n] by (auto simp: digit_of_def)
  with parse_digits_show[OF n] show ?thesis by (simp add: parse_uint_def)
qed

lemma rsplit_dash_join:
  assumes "CHR ''-'' \<notin> set b"
  shows "rsplit_dash (a @ CHR ''-'' # b) = (b, Some a)"
proof -
  have "takeWhile (\<lambda>c. c \<noteq> CHR ''-'') (rev (a @ CHR ''-'' # b)) = rev b"
    using assms by (auto simp: takeWhile_tail takeWhile_eq_all_conv)
  then show ?thesis by (simp add: rsplit_dash_def Let_def)
qed

lemma parse_digits_bound: "parse_digits k acc s = Inr n \<Longrightarrow> acc < 256 ^ k \<Longrightarrow> n < 256 ^ k"
  by (induction s arbitrary: acc) (auto split: option.splits if_splits)

lemma parse_uint_bound: "parse_uint k s = Inr n \<Longrightarrow> n < 256 ^ k"
  by (auto simp: parse_uint_def split: if_splits elim: parse_digits_bound)

lemma try_from_typed: "try_from t s = Inr p \<Longrightarrow> well_typed t p"
  by (induction t s arbitrary: p rule: try_from.induct)
    (auto split: if_splits sum.splits prod.splits option.splits dest: parse_uint_bound)

lemma try_from_url_encode: "well_typed t p \<Longrightarrow> try_from t (url_encode p) = Inr p"
  by (induction t p rule: well_typed.induct) (simp_all add: parse_uint_show rsplit_dash_join)

subsection \<open>Lemmas on indices\<close>

lemma add_index_bound: "add_index checks k a b = Some n \<Longrightarrow> n < 256 ^ k"
  by (auto simp: add_index_def split: if_splits)

lemma well_typed_next_index: "well_typed t p \<Longrightarrow> next_index checks t p = Some q \<Longrightarrow> well_typed t q"
  by (induction checks t p rule: next_index.induct) (auto dest: add_index_bound)

lemma well_typed_nth_index: "well_typed t p \<Longrightarrow> nth_index checks t p n = Some q \<Longrightarrow> well_typed t q"
  by (induction checks t p n rule: nth_index.induct) (auto dest: add_index_bound)

lemma well_typed_rollback: "well_typed t p \<Longrightarrow> well_typed t (rollback_or_init p n)"
  by (induction t p rule: well_typed.induct) (auto intro: le_less_trans[OF diff_le_self])

lemma rollback_le: "rollback_or_init p n \<le> p"
  by (induction p) (auto simp: less_eq_pointer_def)

lemma next_index_checked: "next_index True t p = Some q \<Longrightarrow> next_index checks t p = Some q"
  by (cases t; cases p) (auto simp: add_index_def split: if_splits)

text \<open>Nothing lies between a key and the next one.\<close>

lemma next_index_successor:
  assumes "next_index True t p = Some q" and "well_typed t p" and "well_typed t r"
  shows "p \<le> r \<and> r < q \<longleftrightarrow> r = p"
proof (cases t)
  case (Root_Ty k)
  with assms show ?thesis by (auto simp: add_index_def split: if_splits)
next
  case (Child_Ty t' k)
  with assms obtain p' i r' m where "p = Child p' i" "q = Child p' (Suc i)" "r = Child r' m"
    by (auto simp: add_index_def split: if_splits)
  then show ?thesis using less_asym[of p' r'] by auto
qed

lemma children_range: "from_parent p 0 \<le> from_parent r j \<and> from_parent r j < from_parent q 0 \<longleftrightarrow> p \<le> r \<and> r < q"
  by (auto simp: from_parent_def less_eq_pointer_def)

lemma fk_range_children:
  assumes "well_typed t p" and "next_index True t p \<noteq> None"
  shows "\<exists>a b. fk_range checks t p = Some (a, b) \<and>
           (\<forall>k c. well_typed (Child_Ty t k) c \<longrightarrow> (a \<le> c \<and> c < b \<longleftrightarrow> parent c = Some p))"
proof -
  from assms(2) obtain q where q: "next_index True t p = Some q" by blast
  have "fk_range checks t p = Some (from_parent p 0, from_parent q 0)"
    using next_index_checked[OF q] by (simp add: fk_range_def)
  moreover have "from_parent p 0 \<le> c \<and> c < from_parent q 0 \<longleftrightarrow> parent c = Some p" if "well_typed (Child_Ty t k) c" for k c
  proof -
    from that obtain r i where c: "c = from_parent r i" "well_typed t r" by (auto simp: from_parent_def)
    show ?thesis unfolding c(1) children_range next_index_successor[OF q assms(1) c(2)] by (simp add: from_parent_def)
  qed
  ultimately show ?thesis by blast
qed

subsection \<open>Properties\<close>

text \<open>
  C20. The binary codec of a key is a bijection between the values of its type and the byte strings of its
  fixed width, and the comparison that the store applies to the encoded keys is the derived order of the
  keys: parents first, then indices.
\<close>

theorem pointer_codec_roundtrip:
  assumes "well_typed t p" and "well_typed t q"
  shows "from_le_bytes t (as_le_bytes t p) = Some p \<and> length (as_le_bytes t p) = codec_size t \<and>
         (\<forall>bs. length bs = codec_size t \<longrightarrow>
            (\<exists>r. well_typed t r \<and> from_le_bytes t bs = Some r \<and> as_le_bytes t r = bs)) \<and>
         key_compare t (as_le_bytes t p) (as_le_bytes t q) = Some (compare default p q)"
  using assms from_le_bytes_total[of _ t] from_le_bytes_Some_iff by (simp add: key_compare_def)

abbreviation utxo_ty :: ptr_ty where
  "utxo_ty \<equiv> Child_Ty (Child_Ty (Root_Ty 4) 2) 2"

theorem pointer_codec_roundtrip_witness:
  "from_le_bytes utxo_ty (as_le_bytes utxo_ty (Child (Child (Root 840000) 3) 1)) = Some (Child (Child (Root 840000) 3) 1) \<and>
   key_compare utxo_ty (as_le_bytes utxo_ty (Child (Child (Root 840000) 3) 1)) (as_le_bytes utxo_ty (Child (Child (Root 840000) 2) 9)) =
     Some (compare default (Child (Child (Root 840000) 3) 1) (Child (Child (Root 840000) 2) 9))"
  using pointer_codec_roundtrip[of utxo_ty "Child (Child (Root 840000) 3) 1" "Child (Child (Root 840000) 2) 9"] by simp

text \<open>
  The text form of a key is read back: parsing the text of a key gives the key, and whatever text the
  parser accepts, the key it returns is a value of the key type.
\<close>

theorem pointer_text_roundtrip:
  assumes "well_typed t p"
  shows "try_from t (url_encode p) = Inr p \<and> (\<forall>s q. try_from t s = Inr q \<longrightarrow> well_typed t q)"
  using try_from_url_encode[OF assms] try_from_typed by blast

theorem pointer_text_roundtrip_witness:
  "try_from utxo_ty (url_encode (Child (Child (Root 840000) 3) 1)) = Inr (Child (Child (Root 840000) 3) 1)"
  using pointer_text_roundtrip[of utxo_ty "Child (Child (Root 840000) 3) 1"] by simp



text \<open>
  C22. The range of a foreign key is exact: when the index of the parent is not the largest of its type,
  the range from the first child of the parent to the first child of the next key holds exactly the keys
  of which it is the parent.
\<close>

theorem fk_range_exact:
  assumes "well_typed t p" and "next_index True t p \<noteq> None"
  shows "\<exists>a b. fk_range checks t p = Some (a, b) \<and>
           (\<forall>k c. well_typed (Child_Ty t k) c \<longrightarrow> (a \<le> c \<and> c < b \<longleftrightarrow> parent c = Some p))"
  by (rule fk_range_children[OF assms])

theorem fk_range_exact_witness:
  "\<exists>a b. fk_range True (Child_Ty (Root_Ty 4) 2) (Child (Root 7) 3) = Some (a, b) \<and>
     (a \<le> Child (Child (Root 7) 3) 65535 \<and> Child (Child (Root 7) 3) 65535 < b)"
proof -
  have "well_typed (Child_Ty (Root_Ty 4) 2) (Child (Root 7) 3)" "next_index True (Child_Ty (Root_Ty 4) 2) (Child (Root 7) 3) \<noteq> None"
    "well_typed (Child_Ty (Child_Ty (Root_Ty 4) 2) 2) (Child (Child (Root 7) 3) 65535)"
    by (simp_all add: add_index_def)
  with fk_range_exact[of "Child_Ty (Root_Ty 4) 2" "Child (Root 7) 3" True] show ?thesis by (metis parent.simps(2))
qed

text \<open>
  At the largest index the range is lost: for a pointer with the largest index of its type, a build
  with overflow checks panics where the children are looked up, and a build without gives a range that
  holds none of the children.
\<close>

theorem fk_range_overflow:
  assumes "0 < m"
  shows "fk_range True (Child_Ty t m) (Child p (256 ^ m - 1)) = None \<and>
         (\<exists>a b. fk_range False (Child_Ty t m) (Child p (256 ^ m - 1)) = Some (a, b) \<and>
            (\<forall>c. parent c = Some (Child p (256 ^ m - 1)) \<longrightarrow> \<not> (a \<le> c \<and> c < b)))"
proof -
  have "(1 :: nat) < 256 ^ m" using assms one_less_power[of "256 :: nat" m] by simp
  moreover from this have "Suc (256 ^ m - Suc 0) = (256 ^ m :: nat)" by simp
  ultimately have range: "fk_range True (Child_Ty t m) (Child p (256 ^ m - 1)) = None"
    "fk_range False (Child_Ty t m) (Child p (256 ^ m - 1)) = Some (Child (Child p (256 ^ m - 1)) 0, Child (Child p 0) 0)"
    by (simp_all add: fk_range_def add_index_def from_parent_def)
  moreover have "\<not> (Child (Child p (256 ^ m - 1)) 0 \<le> c \<and> c < Child (Child p 0) 0)"
    if "parent c = Some (Child p (256 ^ m - 1))" for c
    using that \<open>(1 :: nat) < 256 ^ m\<close> by (cases c) auto
  ultimately show ?thesis by blast
qed

theorem fk_range_overflow_witness:
  "fk_range True (Child_Ty (Root_Ty 4) 2) (Child (Root 7) (256 ^ 2 - 1)) = None"
  using fk_range_overflow[of 2 "Root_Ty 4" "Root 7"] by simp

end
