(* ===== verification/Column_Codec.thy ===== *)
theory Column_Codec
  imports Pointers
begin

section \<open>Columns: encodings, order and samples\<close>

text \<open>
  The implementations of redb's \<open>Value\<close> and \<open>Key\<close> that the column macro generates: \<open>impl_redb_newtype_*\<close> and
  \<open>impl_cachekey_*\<close> of \<open>macro_rules.rs\<close>, chosen by the inner type in \<open>column/column_impls.rs\<close>; and the sample
  values of \<open>Sampleable\<close> in \<open>lib.rs\<close>, \<open>inc_le\<close> of \<open>utils.rs\<close> and \<open>Utf8\<close> of \<open>codec.rs\<close>. The encoding of the crate
  bincode, for strings, booleans, times and structs, is not part of this repository and not modelled.
\<close>

subsection \<open>Encodings\<close>

datatype inner_kind = Unsigned nat | Signed nat | Byte_Array nat | Vec_U8

datatype col_value = Int_Val int | Bytes_Val bytes

fun fixed_width :: "inner_kind \<Rightarrow> nat option" where
  "fixed_width (Unsigned k) = Some k"
| "fixed_width (Signed k) = Some k"
| "fixed_width (Byte_Array n) = Some n"
| "fixed_width Vec_U8 = None"

text \<open>The values of the inner type.\<close>

fun col_typed :: "inner_kind \<Rightarrow> col_value \<Rightarrow> bool" where
  "col_typed (Unsigned k) (Int_Val i) \<longleftrightarrow> 0 \<le> i \<and> i < 256 ^ k"
| "col_typed (Signed k) (Int_Val i) \<longleftrightarrow> - (256 ^ k) \<le> 2 * i \<and> 2 * i < 256 ^ k"
| "col_typed (Byte_Array n) (Bytes_Val bs) \<longleftrightarrow> length bs = n"
| "col_typed Vec_U8 (Bytes_Val bs) \<longleftrightarrow> True"
| "col_typed _ _ \<longleftrightarrow> False"

fun col_as_bytes :: "inner_kind \<Rightarrow> col_value \<Rightarrow> bytes" where
  "col_as_bytes (Unsigned k) (Int_Val i) = to_le_bytes k (nat i)"
| "col_as_bytes (Signed k) (Int_Val i) = to_le_bytes k (nat (i mod 256 ^ k))"
| "col_as_bytes (Byte_Array n) (Bytes_Val bs) = bs"
| "col_as_bytes Vec_U8 (Bytes_Val bs) = bs"
| "col_as_bytes _ _ = []"

text \<open>Two's complement: the upper half of the byte strings are the negative numbers.\<close>

definition signed_value :: "nat \<Rightarrow> nat \<Rightarrow> int" where
  "signed_value k n = (if 2 * int n < 256 ^ k then int n else int n - 256 ^ k)"

fun col_from_bytes :: "inner_kind \<Rightarrow> bytes \<Rightarrow> col_value option" where
  "col_from_bytes (Unsigned k) bs = (if length bs = k then Some (Int_Val (int (le_value bs))) else None)"
| "col_from_bytes (Signed k) bs = (if length bs = k then Some (Int_Val (signed_value k (le_value bs))) else None)"
| "col_from_bytes (Byte_Array n) bs = (if length bs = n then Some (Bytes_Val bs) else None)"
| "col_from_bytes Vec_U8 bs = Some (Bytes_Val bs)"

text \<open>The order of slices: the first difference decides, a prefix comes first.\<close>

fun cmp_bytes :: "bytes \<Rightarrow> bytes \<Rightarrow> comp" where
  "cmp_bytes [] [] = Equiv"
| "cmp_bytes [] (b # bs) = Less"
| "cmp_bytes (a # as) [] = Greater"
| "cmp_bytes (a # as) (b # bs) = (if a < b then Less else if b < a then Greater else cmp_bytes as bs)"

fun col_compare :: "inner_kind \<Rightarrow> bytes \<Rightarrow> bytes \<Rightarrow> comp option" where
  "col_compare (Unsigned k) d1 d2 =
     (if length d1 = k \<and> length d2 = k then Some (compare default (le_value d1) (le_value d2)) else None)"
| "col_compare (Signed k) d1 d2 =
     (if length d1 = k \<and> length d2 = k
      then Some (compare default (signed_value k (le_value d1)) (signed_value k (le_value d2))) else None)"
| "col_compare (Byte_Array n) d1 d2 = Some (cmp_bytes d1 d2)"
| "col_compare Vec_U8 d1 d2 = Some (cmp_bytes d1 d2)"

text \<open>The derived order of the newtype.\<close>

fun col_cmp :: "col_value \<Rightarrow> col_value \<Rightarrow> comp" where
  "col_cmp (Int_Val i) (Int_Val j) = compare default i j"
| "col_cmp (Bytes_Val a) (Bytes_Val b) = cmp_bytes a b"
| "col_cmp (Int_Val i) (Bytes_Val b) = Less"
| "col_cmp (Bytes_Val a) (Int_Val j) = Greater"

text \<open>The key under which a value is cached.\<close>

definition cache_key :: "col_value \<Rightarrow> col_value" where
  "cache_key v = v"

subsection \<open>Samples\<close>

fun inc_le :: "bytes \<Rightarrow> bytes" where
  "inc_le [] = []"
| "inc_le (b # bs) = (if b \<noteq> 0xFF then (b + 1) # bs else 0 # inc_le bs)"

text \<open>The next value of a byte vector: its last byte is incremented, an empty vector gets a byte.\<close>

definition next_bytes :: "bytes \<Rightarrow> bytes" where
  "next_bytes v = (if v = [] then [1] else butlast v @ [last v + 1])"

fun nth_value :: "('a \<Rightarrow> 'a) \<Rightarrow> 'a \<Rightarrow> usize \<Rightarrow> 'a" where
  "nth_value next_value v 0 = v"
| "nth_value next_value v (Suc n) = nth_value next_value (next_value v) n"

fun sample_many_from_seed :: "('a \<Rightarrow> 'a) \<Rightarrow> usize \<Rightarrow> 'a \<Rightarrow> 'a list" where
  "sample_many_from_seed next_value 0 v = []"
| "sample_many_from_seed next_value (Suc n) v = v # sample_many_from_seed next_value n (next_value v)"

definition sample_many_from :: "('a \<Rightarrow> 'a) \<Rightarrow> 'a \<Rightarrow> usize \<Rightarrow> usize \<Rightarrow> 'a list" where
  "sample_many_from next_value dflt n start_at =
     sample_many_from_seed next_value n (nth_value next_value dflt (saturating_mul start_at n))"

text \<open>Scalar values of Unicode, and the loop that looks for the next one.\<close>

definition is_scalar :: "nat \<Rightarrow> bool" where
  "is_scalar c \<longleftrightarrow> c < 0xD800 \<or> 0xE000 \<le> c \<and> c \<le> 0x10FFFF"

function next_scalar :: "nat \<Rightarrow> nat option" where
  "next_scalar candidate =
     (if candidate \<le> 0x10FFFF then if is_scalar candidate then Some candidate else next_scalar (candidate + 1) else None)"
  by pat_completeness auto
termination by (relation "measure (\<lambda>c. 0x110000 - c)") auto

declare next_scalar.simps [simp del]

definition increment_last_scalar :: "nat list \<Rightarrow> nat list" where
  "increment_last_scalar s =
     (if s = [] then [1]
      else butlast s @ [case next_scalar (last s + 1) of Some c \<Rightarrow> c | None \<Rightarrow> 1])"

subsection \<open>Lemmas\<close>

lemma signed_value_to_le:
  assumes "- (256 ^ k) \<le> 2 * i" and "2 * i < 256 ^ k"
  shows "signed_value k (nat (i mod 256 ^ k)) = i"
proof (cases "0 \<le> i")
  case True
  then have "i mod 256 ^ k = i" using assms by (intro mod_pos_pos_trivial) auto
  with True assms show ?thesis by (simp add: signed_value_def)
next
  case False
  then have "i mod 256 ^ k = (i + 256 ^ k) mod 256 ^ k" by simp
  also have "\<dots> = i + 256 ^ k" using False assms by (intro mod_pos_pos_trivial) linarith+
  finally have "i mod 256 ^ k = i + 256 ^ k" .
  with False assms show ?thesis by (simp add: signed_value_def)
qed

lemma signed_value_bounds:
  assumes "n < 256 ^ k"
  shows "- (256 ^ k) \<le> 2 * signed_value k n \<and> 2 * signed_value k n < 256 ^ k"
proof -
  have "int n < 256 ^ k" using assms by (metis of_nat_less_iff of_nat_numeral of_nat_power)
  then have "signed_value k n = int n \<and> 2 * int n < 256 ^ k \<or> signed_value k n = int n - 256 ^ k \<and> 256 ^ k \<le> 2 * int n"
    by (simp add: signed_value_def)
  with \<open>int n < 256 ^ k\<close> show ?thesis by linarith
qed

lemma to_le_signed_value:
  assumes "n < 256 ^ k"
  shows "nat (signed_value k n mod 256 ^ k) = n"
proof -
  have n: "int n < 256 ^ k" using assms by (metis of_nat_less_iff of_nat_numeral of_nat_power)
  have "signed_value k n mod 256 ^ k = int n mod 256 ^ k"
    by (cases "2 * int n < 256 ^ k") (simp_all add: signed_value_def mod_diff_right_eq[symmetric])
  then show ?thesis using n by simp
qed

lemma nat_less_power: "0 \<le> i \<Longrightarrow> i < 256 ^ k \<Longrightarrow> nat i < 256 ^ k"
  by (metis nat_less_iff of_nat_numeral of_nat_power)

lemma col_from_as_bytes: "col_typed ty v \<Longrightarrow> col_from_bytes ty (col_as_bytes ty v) = Some v"
proof (induction ty v rule: col_typed.induct)
  case (1 k i)
  then show ?case using nat_less_power[of i k] by (simp add: le_value_to_le_bytes)
next
  case (2 k i)
  have "nat (i mod 256 ^ k) < 256 ^ k" by (rule nat_less_power) simp_all
  with 2 signed_value_to_le[of k i] show ?case by (simp add: le_value_to_le_bytes)
qed simp_all

lemma compare_default_mono:
  assumes "x < y \<longleftrightarrow> f x < f y" and "x = y \<longleftrightarrow> f x = f y"
  shows "compare default (f x) (f y) = compare default x y"
proof (cases "compare default x y")
  case Less
  then have "compare default (f x) (f y) = Less" using assms by simp
  with Less show ?thesis by metis
next
  case Equiv
  then have "compare default (f x) (f y) = Equiv" using assms by simp
  with Equiv show ?thesis by metis
next
  case Greater
  with assms have "f y < f x" by (metis compare_default_eq_Greater_iff less_asym linorder_cases)
  then have "compare default (f x) (f y) = Greater" by simp
  with Greater show ?thesis by metis
qed

lemma col_compare_order:
  assumes "col_typed ty v" and "col_typed ty w"
  shows "col_compare ty (col_as_bytes ty v) (col_as_bytes ty w) = Some (col_cmp v w)"
proof (cases ty)
  case (Unsigned k)
  with assms obtain i j where *: "v = Int_Val i" "w = Int_Val j" "0 \<le> i" "i < 256 ^ k" "0 \<le> j" "j < 256 ^ k"
    by (cases v; cases w) auto
  have "compare default (nat i) (nat j) = compare default i j"
    using * by (intro compare_default_mono) auto
  with * Unsigned nat_less_power[of i k] nat_less_power[of j k] show ?thesis by (simp add: le_value_to_le_bytes)
next
  case (Signed k)
  with assms obtain i j where *: "v = Int_Val i" "w = Int_Val j" "- (256 ^ k) \<le> 2 * i" "2 * i < 256 ^ k"
    "- (256 ^ k) \<le> 2 * j" "2 * j < 256 ^ k"
    by (cases v; cases w) auto
  have "nat (i mod 256 ^ k) < 256 ^ k" "nat (j mod 256 ^ k) < 256 ^ k" by (simp_all add: nat_less_power)
  with * Signed signed_value_to_le show ?thesis by (simp add: le_value_to_le_bytes)
next
  case (Byte_Array n)
  with assms show ?thesis by (cases v; cases w) auto
next
  case Vec_U8
  with assms show ?thesis by (cases v; cases w) auto
qed

lemma inc_le_value: "le_value (inc_le bs) = (le_value bs + 1) mod 256 ^ length bs \<and> length (inc_le bs) = length bs"
proof (induction bs)
  case (Cons b bs)
  have v: "le_value (b # bs) < 256 ^ length (b # bs)" by (rule le_value_bound)
  show ?case
  proof (cases "b = 0xFF")
    case True
    then have "le_value (b # bs) + 1 = 256 * (le_value bs + 1)" by simp
    with True Cons show ?thesis by (simp add: mult_mod_right)
  next
    case False
    then have "unat b \<noteq> unat (0xFF :: u8)" by (simp only: word_unat_eq_iff not_False_eq_True)
    then have "unat b \<noteq> 255" by simp
    with unat_u8_less[of b] have lt: "unat b < 255" by simp
    have "unat (b + 1) = unat b + 1" using lt by (simp add: unat_word_ariths)
    moreover have "unat b + 1 + 256 * le_value bs < 256 * 256 ^ length bs"
    proof -
      have "le_value bs + 1 \<le> 256 ^ length bs" using le_value_bound[of bs] by simp
      then have "256 * (le_value bs + 1) \<le> 256 * 256 ^ length bs" by (rule mult_le_mono2)
      with lt show ?thesis by simp
    qed
    ultimately show ?thesis using False by simp
  qed
qed simp

lemma nth_value_Suc: "nth_value next_value v (Suc n) = next_value (nth_value next_value v n)"
  by (induction n arbitrary: v) simp_all

lemma nth_sample:
  "length (sample_many_from_seed next_value n v) = n \<and>
   (\<forall>i<n. sample_many_from_seed next_value n v ! i = nth_value next_value v i)"
proof (induction n arbitrary: v)
  case (Suc n)
  have "sample_many_from_seed next_value (Suc n) v ! i = nth_value next_value v i" if "i < Suc n" for i
    using Suc[of "next_value v"] that by (cases i) simp_all
  then show ?case using Suc[of "next_value v"] by simp
qed simp

lemma next_scalar_Some:
  "next_scalar c = Some d \<Longrightarrow> c \<le> d \<and> is_scalar d"
  by (induction c rule: next_scalar.induct) (subst (asm) next_scalar.simps, auto split: if_splits)

lemma next_scalar_exists: "c \<le> 0x10FFFF \<Longrightarrow> \<exists>d. next_scalar c = Some d"
proof (induction c rule: next_scalar.induct)
  case (1 c)
  show ?case
  proof (cases "is_scalar c")
    case False
    then have "c + 1 \<le> 0x10FFFF" using 1(2) by (auto simp: is_scalar_def)
    from 1(1)[OF 1(2) False this] False 1(2) show ?thesis by (subst next_scalar.simps) simp
  qed (use 1(2) in \<open>subst next_scalar.simps, simp\<close>)
qed

subsection \<open>Properties\<close>

text \<open>
  C36. The encodings of the native column types are faithful: decoding the encoded value gives the value
  back, for integers of either sign, arrays and vectors of bytes; the encoded value has the fixed width
  of its type; and the comparison that the store applies to the encoded values is the order of the
  values.
\<close>

theorem column_codec_faithful:
  assumes "col_typed ty v" and "col_typed ty w"
  shows "col_from_bytes ty (col_as_bytes ty v) = Some v \<and>
         (\<forall>n. fixed_width ty = Some n \<longrightarrow> length (col_as_bytes ty v) = n) \<and>
         col_compare ty (col_as_bytes ty v) (col_as_bytes ty w) = Some (col_cmp v w)"
proof -
  have "\<forall>n. fixed_width ty = Some n \<longrightarrow> length (col_as_bytes ty v) = n"
    using assms(1) by (cases ty; cases v) auto
  with col_from_as_bytes[OF assms(1)] col_compare_order[OF assms] show ?thesis by blast
qed

theorem column_codec_faithful_witness:
  "col_from_bytes (Signed 4) (col_as_bytes (Signed 4) (Int_Val (- 3))) = Some (Int_Val (- 3)) \<and>
   col_compare (Signed 4) (col_as_bytes (Signed 4) (Int_Val (- 3))) (col_as_bytes (Signed 4) (Int_Val 2)) =
     Some (col_cmp (Int_Val (- 3)) (Int_Val 2))"
proof -
  have "col_typed (Signed 4) (Int_Val (- 3))" "col_typed (Signed 4) (Int_Val 2)" by simp_all
  from column_codec_faithful[OF this] show ?thesis by blast
qed

end
