(* ===== verification/Schema.thy ===== *)
theory Schema
  imports Prelude
begin

section \<open>From annotated structs to column definitions\<close>

text \<open>
  The parser of the entity macro, \<open>macros/src/field_parser.rs\<close>: from the fields of a struct and their
  attributes to its key and its columns, in the order in which the generated code handles them. The
  syntax trees of the crate syn are the datatypes below, cut down to what the parser looks at: the last
  segment of a path type with its generic arguments, and attributes with their nested items. The parser
  of types from strings and the conversion to snake case are parameters.

  \<open>parse_nested_meta\<close> runs its callback on the items of an attribute until one fails: the callback
  returns an error, or leaves tokens of the item behind. What the callbacks assigned before stays
  assigned, and the parser discards the error in most places (\<open>let _ = \<dots>\<close>).
\<close>

subsection \<open>Syntax trees\<close>

datatype syn_type = Ty_Path string "syn_type list option" | Ty_Other

datatype meta = Meta_Ident string | Meta_Int string nat | Meta_List string "meta list" | Meta_Path "string list"

record syn_attr =
  at_path :: string
  at_metas :: "meta list option"

record syn_field =
  sf_ident :: "string option"
  sf_ty :: syn_type
  sf_attrs :: "syn_attr list"

datatype syn_fields = Named "syn_field list" | Unnamed "syn_field list" | Unit_Fields

datatype syn_data = Data_Struct syn_fields | Data_Other

datatype syn_error =
    Only_Named_Columns
  | Expected_Pointer_Type
  | Bad_Base_Type
  | Expected_Write_From
  | Unsupported_Form
  | Unnamed_Field
  | Missing_Multiplicity
  | Bad_One2Many_Name
  | Missing_Annotation
  | Dependency_Not_Satisfied string
  | Internal_Invariant
  | Multiple_Keys
  | No_Key
  | Not_A_Struct
  | One_Field_Expected
  | Named_Fields_Expected
  | Two_Fields_Expected
  | No_Index_Field
  | No_Parent_Field

fun get_ident :: "meta \<Rightarrow> string option" where
  "get_ident (Meta_Ident s) = Some s"
| "get_ident (Meta_Int s n) = Some s"
| "get_ident (Meta_List s ms) = Some s"
| "get_ident (Meta_Path ss) = None"

text \<open>Whether no tokens of the item are left when the callback looked at its path only.\<close>

fun rest_ok :: "meta \<Rightarrow> bool" where
  "rest_ok (Meta_Ident s) = True"
| "rest_ok (Meta_Path ss) = True"
| "rest_ok _ = False"

fun run_metas :: "('s \<Rightarrow> meta \<Rightarrow> 's \<times> bool) \<Rightarrow> 's \<Rightarrow> meta list \<Rightarrow> 's \<times> bool" where
  "run_metas f s [] = (s, True)"
| "run_metas f s (m # ms) = (case f s m of (s1, ok) \<Rightarrow> if ok then run_metas f s1 ms else (s1, False))"

definition parse_nested_meta :: "('s \<Rightarrow> meta \<Rightarrow> 's \<times> bool) \<Rightarrow> 's \<Rightarrow> meta list option \<Rightarrow> 's \<times> bool" where
  "parse_nested_meta f s mo = (case mo of None \<Rightarrow> (s, False) | Some ms \<Rightarrow> run_metas f s ms)"

text \<open>\<open>nested.value()?.parse::<LitInt>()?\<close> with \<open>base10_parse::<usize>\<close>.\<close>

fun lit_usize :: "meta \<Rightarrow> usize option" where
  "lit_usize (Meta_Int s n) = (if n \<le> usize_max then Some n else None)"
| "lit_usize _ = None"

subsection \<open>Definitions of columns\<close>

datatype multiplicity = OneToOption | OneToOne | OneToMany

record field_def =
  fd_name :: string
  fd_tpe :: syn_type

record column_props =
  cp_shards :: usize
  cp_db_cache_weight :: usize
  cp_lru_cache_size :: usize

definition column_props_new :: "usize \<Rightarrow> usize \<Rightarrow> usize \<Rightarrow> column_props" where
  "column_props_new shards db_cache_weight lru_cache_size_m =
     \<lparr>cp_shards = shards, cp_db_cache_weight = db_cache_weight, cp_lru_cache_size = lru_cache_size_m * 1000000\<rparr>"

definition column_props_for_key :: "usize \<Rightarrow> column_props" where
  "column_props_for_key db_cache_weight = \<lparr>cp_shards = 1, cp_db_cache_weight = db_cache_weight, cp_lru_cache_size = 0\<rparr>"

datatype key_def = Pk field_def column_props | Fk field_def multiplicity "syn_type option" column_props

fun is_root :: "key_def \<Rightarrow> bool" where
  "is_root (Pk f p) = True"
| "is_root (Fk f m t p) = False"

fun key_field_def :: "key_def \<Rightarrow> field_def" where
  "key_field_def (Pk f p) = f"
| "key_field_def (Fk f m t p) = f"

datatype indexing_type = Off column_props | Index column_props | Range column_props | Dict column_props

record write_from =
  wf_from :: string
  wf_using :: string

record read_from =
  rf_outer :: string
  rf_inner :: string

datatype column_def =
    Col_Key key_def
  | Col_Plain field_def indexing_type bool bool
  | Col_Relationship field_def "write_from option" bool multiplicity
  | Col_Transient field_def
  | Col_TransientRel field_def "read_from option"

fun col_name :: "column_def \<Rightarrow> string" where
  "col_name (Col_Key k) = fd_name (key_field_def k)"
| "col_name (Col_Plain f i u p) = fd_name f"
| "col_name (Col_Relationship f w u m) = fd_name f"
| "col_name (Col_Transient f) = fd_name f"
| "col_name (Col_TransientRel f r) = fd_name f"

subsection \<open>Attributes\<close>

definition get_named_fields :: "syn_fields \<Rightarrow> syn_error + syn_field list" where
  "get_named_fields fs = (case fs of Named xs \<Rightarrow> Inr xs | _ \<Rightarrow> Inl Only_Named_Columns)"

definition strip_suffix :: "string \<Rightarrow> string \<Rightarrow> string option" where
  "strip_suffix suf s =
     (let n = length s - length suf in if length suf \<le> length s \<and> drop n s = suf then Some (take n s) else None)"

definition extract_base_type_from_pointer :: "(string \<Rightarrow> syn_type option) \<Rightarrow> syn_type \<Rightarrow> syn_error + syn_type" where
  "extract_base_type_from_pointer parse_type ty =
     (case ty of
        Ty_Path ident _ \<Rightarrow>
          (case strip_suffix ''Pointer'' ident of
             Some base_name \<Rightarrow> (case parse_type base_name of Some t \<Rightarrow> Inr t | None \<Rightarrow> Inl Bad_Base_Type)
           | None \<Rightarrow> Inl Expected_Pointer_Type)
      | Ty_Other \<Rightarrow> Inl Expected_Pointer_Type)"

definition parse_write_from_using :: "syn_attr \<Rightarrow> syn_error + write_from" where
  "parse_write_from_using attr =
     (case parse_nested_meta
             (\<lambda>idents m. case get_ident m of Some s \<Rightarrow> (idents @ [s], rest_ok m) | None \<Rightarrow> (idents, False)) [] (at_metas attr) of
        ([a, b], True) \<Rightarrow> Inr \<lparr>wf_from = a, wf_using = b\<rparr>
      | _ \<Rightarrow> Inl Expected_Write_From)"

definition get_column_usize_attr :: "meta \<Rightarrow> string \<Rightarrow> syn_error + usize option" where
  "get_column_usize_attr nested attr =
     (let ident = (case get_ident nested of Some s \<Rightarrow> s | None \<Rightarrow> [])
      in if ident = attr then (case lit_usize nested of Some n \<Rightarrow> Inr (Some n) | None \<Rightarrow> Inl Unsupported_Form)
         else if ident \<in> {''dictionary'', ''range'', ''index'', ''transient''} then Inr None
         else Inl Unsupported_Form)"

text \<open>The attribute of a primary key: every item assigns the weight, also one that carries none.\<close>

definition pk_meta :: "usize \<Rightarrow> meta \<Rightarrow> usize \<times> bool" where
  "pk_meta weight m =
     (case get_column_usize_attr m ''db_cache'' of
        Inl e \<Rightarrow> (weight, False)
      | Inr None \<Rightarrow> (0, rest_ok m)
      | Inr (Some n) \<Rightarrow> (n, True))"

text \<open>The attribute of a foreign key: the multiplicity, the parent type and the cache weight.\<close>

definition fk_meta ::
    "(string \<Rightarrow> syn_type option) \<Rightarrow> syn_type \<Rightarrow> multiplicity option \<times> syn_type option \<times> usize \<Rightarrow> meta \<Rightarrow>
     (multiplicity option \<times> syn_type option \<times> usize) \<times> bool" where
  "fk_meta parse_type ty st m =
     (case st of (mul, parent_type, weight) \<Rightarrow>
        let ident = (case get_ident m of Some s \<Rightarrow> s | None \<Rightarrow> [])
        in if ident = ''db_cache'' then (case lit_usize m of Some n \<Rightarrow> ((mul, parent_type, n), True) | None \<Rightarrow> (st, False))
           else if ident = ''one2many'' then
             (case extract_base_type_from_pointer parse_type ty of
                Inl e \<Rightarrow> ((Some OneToMany, parent_type, weight), False)
              | Inr t \<Rightarrow> ((Some OneToMany, Some t, weight), rest_ok m))
           else if ident = ''one2one'' then ((Some OneToOne, parent_type, weight), rest_ok m)
           else if ident = ''one2opt'' then ((Some OneToOption, parent_type, weight), rest_ok m)
           else (st, False))"

record column_flags =
  cf_used :: bool
  cf_pointer :: bool
  cf_db_cache :: usize
  cf_lru_cache :: usize
  cf_shards :: usize
  cf_index :: bool
  cf_dictionary :: bool
  cf_range :: bool
  cf_transient :: bool
  cf_read_from :: "read_from option"

definition leaf_meta :: "read_from option \<Rightarrow> meta \<Rightarrow> read_from option \<times> bool" where
  "leaf_meta rf m = (case m of Meta_Path [a, b] \<Rightarrow> (Some \<lparr>rf_outer = a, rf_inner = b\<rparr>, True) | _ \<Rightarrow> (rf, False))"

definition transient_meta :: "read_from option \<Rightarrow> meta \<Rightarrow> read_from option \<times> bool" where
  "transient_meta rf m =
     (case m of
        Meta_List s ms \<Rightarrow> if s = ''read_from'' then (fst (run_metas leaf_meta rf ms), True) else (rf, False)
      | _ \<Rightarrow> (rf, rest_ok m))"

definition column_meta :: "column_flags \<Rightarrow> meta \<Rightarrow> column_flags \<times> bool" where
  "column_meta fl m =
     (let ident = (case get_ident m of Some s \<Rightarrow> s | None \<Rightarrow> [])
      in if ident = ''pointer'' then (fl\<lparr>cf_pointer := True\<rparr>, rest_ok m)
         else if ident = ''db_cache'' then (case lit_usize m of Some n \<Rightarrow> (fl\<lparr>cf_db_cache := n\<rparr>, True) | None \<Rightarrow> (fl, False))
         else if ident = ''used'' then (fl\<lparr>cf_used := True\<rparr>, rest_ok m)
         else if ident = ''lru_cache'' then (case lit_usize m of Some n \<Rightarrow> (fl\<lparr>cf_lru_cache := n\<rparr>, True) | None \<Rightarrow> (fl, False))
         else if ident = ''shards'' then (case lit_usize m of Some n \<Rightarrow> (fl\<lparr>cf_shards := n\<rparr>, True) | None \<Rightarrow> (fl, False))
         else if ident = ''transient'' then
           (case m of
              Meta_List _ ms \<Rightarrow> (fl\<lparr>cf_transient := True, cf_read_from := fst (run_metas transient_meta (cf_read_from fl) ms)\<rparr>, True)
            | _ \<Rightarrow> (fl\<lparr>cf_transient := True\<rparr>, rest_ok m))
         else if ident = ''index'' then (fl\<lparr>cf_index := True\<rparr>, rest_ok m)
         else if ident = ''dictionary'' then (fl\<lparr>cf_dictionary := True\<rparr>, rest_ok m)
         else if ident = ''range'' then (fl\<lparr>cf_range := True\<rparr>, rest_ok m)
         else (fl, rest_ok m))"

definition column_flags_init :: column_flags where
  "column_flags_init =
     \<lparr>cf_used = False, cf_pointer = False, cf_db_cache = 0, cf_lru_cache = 0, cf_shards = 1, cf_index = False,
      cf_dictionary = False, cf_range = False, cf_transient = False, cf_read_from = None\<rparr>"

subsection \<open>Fields\<close>

definition validate_one_to_many_name :: "(string \<Rightarrow> string) \<Rightarrow> string \<Rightarrow> string \<Rightarrow> syn_error + unit" where
  "validate_one_to_many_name snake field_name inner_type =
     (if field_name \<noteq> snake inner_type @ ''s'' then Inl Bad_One2Many_Name else Inr ())"

definition get_relationship ::
    "(string \<Rightarrow> string) \<Rightarrow> syn_field \<Rightarrow> string \<Rightarrow> syn_type \<Rightarrow> bool \<Rightarrow> read_from option \<Rightarrow> syn_error + column_def option" where
  "get_relationship snake field column_name column_type transient rf =
     (case column_type of
        Ty_Path segment args \<Rightarrow>
          if segment = ''Vec'' then
            (case args of
               Some (Ty_Path inner_type _ # _) \<Rightarrow>
                 (case (if transient then Inr () else validate_one_to_many_name snake column_name inner_type) of
                    Inl e \<Rightarrow> Inl e
                  | Inr _ \<Rightarrow>
                      let fd = \<lparr>fd_name = column_name, fd_tpe = Ty_Path inner_type None\<rparr>;
                          wfrom = (case find (\<lambda>a. at_path a = ''write_from_using'') (sf_attrs field) of
                                  None \<Rightarrow> None
                                | Some a \<Rightarrow> (case parse_write_from_using a of Inl _ \<Rightarrow> None | Inr w \<Rightarrow> Some w))
                      in Inr (Some (if transient then Col_TransientRel fd rf else Col_Relationship fd wfrom False OneToMany)))
             | _ \<Rightarrow> Inr None)
          else if segment = ''Option'' then
            (case args of
               Some (Ty_Path inner_type _ # _) \<Rightarrow>
                 if transient then Inr None
                 else Inr (Some (Col_Relationship \<lparr>fd_name = column_name, fd_tpe = Ty_Path inner_type None\<rparr> None False OneToOption))
             | _ \<Rightarrow> Inr None)
          else if \<not> transient \<and> args = None
          then Inr (Some (Col_Relationship \<lparr>fd_name = column_name, fd_tpe = Ty_Path segment None\<rparr> None False OneToOne))
          else Inr None
      | Ty_Other \<Rightarrow> Inr None)"

text \<open>The column of a field with a \<open>column\<close> attribute, from the flags it sets.\<close>

definition column_of_flags :: "(string \<Rightarrow> string) \<Rightarrow> syn_field \<Rightarrow> string \<Rightarrow> column_flags \<Rightarrow> syn_error + column_def" where
  "column_of_flags snake field column_name fl =
     (let fd = \<lparr>fd_name = column_name, fd_tpe = sf_ty field\<rparr>;
          props = column_props_new (cf_shards fl) (cf_db_cache fl) (cf_lru_cache fl)
      in if cf_transient fl then
           (case get_relationship snake field column_name (sf_ty field) True (cf_read_from fl) of
              Inl e \<Rightarrow> Inl e
            | Inr None \<Rightarrow> Inr (Col_Transient fd)
            | Inr (Some rel) \<Rightarrow> Inr rel)
         else if cf_dictionary fl then Inr (Col_Plain fd (Dict props) (cf_used fl) (cf_pointer fl))
         else if cf_range fl then Inr (Col_Plain fd (Range props) (cf_used fl) (cf_pointer fl))
         else if cf_index fl then Inr (Col_Plain fd (Index props) (cf_used fl) (cf_pointer fl))
         else Inr (Col_Plain fd (Off props) (cf_used fl) (cf_pointer fl)))"

fun parse_attrs ::
    "(string \<Rightarrow> syn_type option) \<Rightarrow> (string \<Rightarrow> string) \<Rightarrow> syn_field \<Rightarrow> string \<Rightarrow> syn_attr list \<Rightarrow> syn_error + column_def" where
  "parse_attrs parse_type snake field column_name [] =
     (case get_relationship snake field column_name (sf_ty field) False None of
        Inl e \<Rightarrow> Inl e
      | Inr (Some rel) \<Rightarrow> Inr rel
      | Inr None \<Rightarrow> Inl Missing_Annotation)"
| "parse_attrs parse_type snake field column_name (attr # attrs) =
     (let fd = \<lparr>fd_name = column_name, fd_tpe = sf_ty field\<rparr>
      in if at_path attr = ''pk'' then
           Inr (Col_Key (Pk fd (column_props_for_key (fst (parse_nested_meta pk_meta 0 (at_metas attr))))))
         else if at_path attr = ''fk'' then
           (case fst (parse_nested_meta (fk_meta parse_type (sf_ty field)) (None, None, 0) (at_metas attr)) of
              (Some m, parent_type, weight) \<Rightarrow> Inr (Col_Key (Fk fd m parent_type (column_props_for_key weight)))
            | (None, _, _) \<Rightarrow> Inl Missing_Multiplicity)
         else if at_path attr = ''column'' then
           column_of_flags snake field column_name (fst (parse_nested_meta column_meta column_flags_init (at_metas attr)))
         else parse_attrs parse_type snake field column_name attrs)"

definition parse_entity_field ::
    "(string \<Rightarrow> syn_type option) \<Rightarrow> (string \<Rightarrow> string) \<Rightarrow> syn_field \<Rightarrow> syn_error + column_def" where
  "parse_entity_field parse_type snake field =
     (case sf_ident field of
        None \<Rightarrow> Inl Unnamed_Field
      | Some column_name \<Rightarrow> parse_attrs parse_type snake field column_name (sf_attrs field))"

subsection \<open>Columns that are written from others\<close>

definition extract_dependency :: "column_def \<Rightarrow> string option" where
  "extract_dependency col =
     (case col of Col_Relationship f (Some wfrom) u m \<Rightarrow> Some (wf_using wfrom) | _ \<Rightarrow> None)"

fun find_dependency_by_idx :: "column_def list \<Rightarrow> (nat \<times> string) option" where
  "find_dependency_by_idx [] = None"
| "find_dependency_by_idx (c # cs) =
     (case extract_dependency c of
        Some uses \<Rightarrow> Some (0, uses)
      | None \<Rightarrow> map_option (\<lambda>(i, uses). (i + 1, uses)) (find_dependency_by_idx cs))"

definition is_dependee :: "string \<Rightarrow> column_def \<Rightarrow> bool" where
  "is_dependee uses c =
     (case c of
        Col_Plain f i u p \<Rightarrow> fd_name f = uses
      | Col_Relationship f w u m \<Rightarrow> fd_name f = uses
      | _ \<Rightarrow> False)"

text \<open>The position of the first column with the name, other than the one at \<open>skip_idx\<close>.\<close>

fun find_used_idx :: "column_def list \<Rightarrow> string \<Rightarrow> nat \<Rightarrow> nat \<Rightarrow> nat option" where
  "find_used_idx [] uses skip_idx i = None"
| "find_used_idx (c # cs) uses skip_idx i =
     (if i \<noteq> skip_idx \<and> is_dependee uses c then Some i else find_used_idx cs uses skip_idx (i + 1))"

definition find_used_idx_for_dependency :: "column_def list \<Rightarrow> string \<Rightarrow> nat \<Rightarrow> nat option" where
  "find_used_idx_for_dependency cols uses skip_idx = find_used_idx cols uses skip_idx 0"

definition remove_at_idx :: "nat \<Rightarrow> 'a list \<Rightarrow> 'a list" where
  "remove_at_idx i xs = take i xs @ drop (Suc i) xs"

fun mark_used :: "column_def \<Rightarrow> column_def option" where
  "mark_used (Col_Plain f i u p) = Some (Col_Plain f i True p)"
| "mark_used (Col_Relationship f w u m) = Some (Col_Relationship f w True m)"
| "mark_used _ = None"

text \<open>The new columns, and the column that depends with the name it uses, if there is one.\<close>

definition take_and_chain_relation_with_plain ::
    "column_def list \<Rightarrow> syn_error + (column_def list \<times> (column_def \<times> string) option)" where
  "take_and_chain_relation_with_plain columns =
     (case find_dependency_by_idx columns of
        None \<Rightarrow> Inr (columns, None)
      | Some (dep_idx, uses) \<Rightarrow>
          (case find_used_idx_for_dependency columns uses dep_idx of
             None \<Rightarrow> Inl (Dependency_Not_Satisfied uses)
           | Some used_idx \<Rightarrow>
               let used_col = columns ! used_idx; using_col = columns ! dep_idx;
                   rest = (if used_idx > dep_idx then remove_at_idx dep_idx (remove_at_idx used_idx columns)
                           else remove_at_idx used_idx (remove_at_idx dep_idx columns))
               in (case mark_used used_col of
                     None \<Rightarrow> Inl Internal_Invariant
                   | Some marked \<Rightarrow> Inr (rest @ [marked, using_col], Some (using_col, uses)))))"

text \<open>The fields one after the other: the key found so far, the stored and the transient columns.\<close>

fun collect_fields ::
    "(string \<Rightarrow> syn_type option) \<Rightarrow> (string \<Rightarrow> string) \<Rightarrow> key_def option \<times> column_def list \<times> column_def list \<Rightarrow>
     syn_field list \<Rightarrow> syn_error + (key_def option \<times> column_def list \<times> column_def list)" where
  "collect_fields parse_type snake st [] = Inr st"
| "collect_fields parse_type snake st (f # fs) =
     (case st of (key_column, columns, transients) \<Rightarrow>
        (case parse_entity_field parse_type snake f of
           Inl e \<Rightarrow> Inl e
         | Inr (Col_Key k) \<Rightarrow>
             if key_column \<noteq> None then Inl Multiple_Keys
             else collect_fields parse_type snake (Some k, columns, transients) fs
         | Inr (Col_Transient fd) \<Rightarrow> collect_fields parse_type snake (key_column, columns, transients @ [Col_Transient fd]) fs
         | Inr (Col_TransientRel fd rf) \<Rightarrow> collect_fields parse_type snake (key_column, columns, transients @ [Col_TransientRel fd rf]) fs
         | Inr c \<Rightarrow> collect_fields parse_type snake (key_column, columns @ [c], transients) fs))"

definition get_field_macros ::
    "(string \<Rightarrow> syn_type option) \<Rightarrow> (string \<Rightarrow> string) \<Rightarrow> syn_fields \<Rightarrow> syn_error + (key_def \<times> column_def list)" where
  "get_field_macros parse_type snake ast =
     (case get_named_fields ast of
        Inl e \<Rightarrow> Inl e
      | Inr flds \<Rightarrow>
          (case collect_fields parse_type snake (None, [], []) flds of
             Inl e \<Rightarrow> Inl e
           | Inr (None, _, _) \<Rightarrow> Inl No_Key
           | Inr (Some k, columns, transients) \<Rightarrow>
               (case take_and_chain_relation_with_plain ((if is_root k then [] else [Col_Key k]) @ columns) of
                  Inl e \<Rightarrow> Inl e
                | Inr (chained, _) \<Rightarrow> Inr (k, chained @ transients @ (if is_root k then [Col_Key k] else [])))))"

subsection \<open>Key structs\<close>

definition is_index_field :: "syn_field \<Rightarrow> bool" where
  "is_index_field f \<longleftrightarrow> sf_ident f = Some ''index''"

datatype pointer_type = Root_Pointer | Child_Pointer

definition extract_pointer_key_fields :: "syn_data \<Rightarrow> pointer_type \<Rightarrow> syn_error + (syn_field option \<times> syn_field)" where
  "extract_pointer_key_fields input pt =
     (case input of
        Data_Other \<Rightarrow> Inl Not_A_Struct
      | Data_Struct flds \<Rightarrow>
          (case pt of
             Root_Pointer \<Rightarrow>
               (case flds of
                  Unit_Fields \<Rightarrow> Inl One_Field_Expected
                | Named [f] \<Rightarrow> Inr (None, f)
                | Unnamed [f] \<Rightarrow> Inr (None, f)
                | _ \<Rightarrow> Inl One_Field_Expected)
           | Child_Pointer \<Rightarrow>
               (case flds of
                  Named fs \<Rightarrow>
                    if length fs \<noteq> 2 then Inl Two_Fields_Expected
                    else (case find is_index_field fs of
                            None \<Rightarrow> Inl No_Index_Field
                          | Some index_field \<Rightarrow>
                              (case find (\<lambda>f. \<not> is_index_field f) fs of
                                 None \<Rightarrow> Inl No_Parent_Field
                               | Some parent_field \<Rightarrow> Inr (Some parent_field, index_field)))
                | _ \<Rightarrow> Inl Named_Fields_Expected)))"

definition validate_root_key :: "syn_data \<Rightarrow> syn_error + unit" where
  "validate_root_key input = (case input of Data_Struct _ \<Rightarrow> Inr () | Data_Other \<Rightarrow> Inl Not_A_Struct)"

definition validate_pointer_key :: "syn_data \<Rightarrow> syn_error + unit" where
  "validate_pointer_key input =
     (case input of
        Data_Other \<Rightarrow> Inl Not_A_Struct
      | Data_Struct (Named fs) \<Rightarrow> if length fs \<noteq> 2 then Inl Two_Fields_Expected else Inr ()
      | Data_Struct _ \<Rightarrow> Inl Named_Fields_Expected)"

subsection \<open>Lemmas\<close>

fun is_key_col :: "column_def \<Rightarrow> bool" where
  "is_key_col (Col_Key k) = True"
| "is_key_col _ = False"

fun is_transient_col :: "column_def \<Rightarrow> bool" where
  "is_transient_col (Col_Transient f) = True"
| "is_transient_col (Col_TransientRel f r) = True"
| "is_transient_col _ = False"

abbreviation is_stored_col :: "column_def \<Rightarrow> bool" where
  "is_stored_col c \<equiv> \<not> is_key_col c \<and> \<not> is_transient_col c"

lemma get_relationship_name: "get_relationship snake f n ty tr rf = Inr (Some c) \<Longrightarrow> col_name c = n"
  by (auto simp: get_relationship_def Let_def split: syn_type.splits if_splits option.splits list.splits sum.splits)

lemma column_of_flags_name: "column_of_flags snake f n fl = Inr c \<Longrightarrow> col_name c = n"
  by (auto simp: column_of_flags_def Let_def split: if_splits sum.splits option.splits dest: get_relationship_name)

lemma parse_attrs_name: "parse_attrs pt snake f n attrs = Inr c \<Longrightarrow> col_name c = n"
  by (induction attrs)
    (auto simp: Let_def split: sum.splits option.splits if_splits prod.splits dest: get_relationship_name column_of_flags_name)

lemma parse_entity_field_name: "parse_entity_field pt snake f = Inr c \<Longrightarrow> sf_ident f = Some (col_name c)"
  by (auto simp: parse_entity_field_def split: option.splits dest: parse_attrs_name)

lemma collect_fields_spec:
  assumes "collect_fields pt snake (k0, cols0, trs0) fs = Inr (k, cols, trs)"
  shows "\<exists>ps. map (parse_entity_field pt snake) fs = map Inr ps \<and> cols = cols0 @ filter is_stored_col ps \<and>
              trs = trs0 @ filter is_transient_col ps \<and>
              (k0 = None \<and> k = None \<and> filter is_key_col ps = [] \<or>
               k0 = None \<and> (\<exists>k1. k = Some k1 \<and> filter is_key_col ps = [Col_Key k1]) \<or>
               k0 \<noteq> None \<and> k = k0 \<and> filter is_key_col ps = [])"
  using assms
proof (induction fs arbitrary: k0 cols0 trs0)
  case (Cons f fs)
  from Cons.prems obtain c where c: "parse_entity_field pt snake f = Inr c" by (auto split: sum.splits)
  show ?case
  proof (cases c)
    case (Col_Key k1)
    with Cons.prems c have "k0 = None" "collect_fields pt snake (Some k1, cols0, trs0) fs = Inr (k, cols, trs)"
      by (auto split: if_splits)
    from Cons.IH[OF this(2)] this(1) c Col_Key show ?thesis by (elim exE, intro exI[of _ "c # _"]) auto
  next
    case (Col_Plain fd i u p)
    with Cons.prems c have "collect_fields pt snake (k0, cols0 @ [c], trs0) fs = Inr (k, cols, trs)" by simp
    from Cons.IH[OF this] c Col_Plain show ?thesis by (elim exE, intro exI[of _ "c # _"]) auto
  next
    case (Col_Relationship fd w u m)
    with Cons.prems c have "collect_fields pt snake (k0, cols0 @ [c], trs0) fs = Inr (k, cols, trs)" by simp
    from Cons.IH[OF this] c Col_Relationship show ?thesis by (elim exE, intro exI[of _ "c # _"]) auto
  next
    case (Col_Transient fd)
    with Cons.prems c have "collect_fields pt snake (k0, cols0, trs0 @ [c]) fs = Inr (k, cols, trs)" by simp
    from Cons.IH[OF this] c Col_Transient show ?thesis by (elim exE, intro exI[of _ "c # _"]) auto
  next
    case (Col_TransientRel fd rf)
    with Cons.prems c have "collect_fields pt snake (k0, cols0, trs0 @ [c]) fs = Inr (k, cols, trs)" by simp
    from Cons.IH[OF this] c Col_TransientRel show ?thesis by (elim exE, intro exI[of _ "c # _"]) auto
  qed
qed auto

lemma mset_columns: "mset (filter is_stored_col ps) + mset (filter is_transient_col ps) + mset (filter is_key_col ps) = mset ps"
proof (induction ps)
  case (Cons c ps)
  then show ?case by (cases c) auto
qed simp

lemma mset_remove_at_idx: "i < length xs \<Longrightarrow> mset xs = add_mset (xs ! i) (mset (remove_at_idx i xs))"
  unfolding remove_at_idx_def by (metis id_take_nth_drop mset.simps(2) mset_append union_mset_add_mset_right)

lemma nth_remove_at_idx: "i < j \<Longrightarrow> j < length xs \<Longrightarrow> remove_at_idx j xs ! i = xs ! i"
  by (simp add: remove_at_idx_def nth_append)

lemma length_remove_at_idx: "i < length xs \<Longrightarrow> length (remove_at_idx i xs) = length xs - 1"
  by (simp add: remove_at_idx_def)

lemma mset_remove_two:
  assumes "i < j" and "j < length xs"
  shows "mset xs = mset (remove_at_idx i (remove_at_idx j xs)) + {#xs ! i, xs ! j#}"
  using mset_remove_at_idx[OF assms(2)] mset_remove_at_idx[of i "remove_at_idx j xs"] assms
  by (simp add: nth_remove_at_idx length_remove_at_idx add_mset_commute)

lemma remove_at_idx_Cons: "0 < i \<Longrightarrow> remove_at_idx i (x # xs) = x # remove_at_idx (i - 1) xs"
  by (cases i) (simp_all add: remove_at_idx_def)

lemma find_dependency_Some:
  "find_dependency_by_idx cols = Some (i, uses) \<Longrightarrow> i < length cols \<and> extract_dependency (cols ! i) = Some uses"
  by (induction cols arbitrary: i) (auto split: option.splits)

lemma find_dependency_None: "find_dependency_by_idx cols = None \<longleftrightarrow> (\<forall>c\<in>set cols. extract_dependency c = None)"
  by (induction cols) (auto split: option.splits)

lemma find_used_Some:
  "find_used_idx cols uses skip j = Some i \<Longrightarrow> j \<le> i \<and> i - j < length cols \<and> i \<noteq> skip \<and> is_dependee uses (cols ! (i - j))"
proof (induction cols arbitrary: j)
  case (Cons c cols)
  show ?case
  proof (cases "j \<noteq> skip \<and> is_dependee uses c")
    case False
    with Cons.prems have "find_used_idx cols uses skip (j + 1) = Some i" by (simp split: if_splits)
    from Cons.IH[OF this] show ?thesis by (auto simp: nth_Cons' less_diff_conv2)
  qed (use Cons.prems in auto)
qed simp

lemma mark_used_name: "mark_used c = Some c' \<Longrightarrow> col_name c' = col_name c \<and> is_stored_col c' \<and> is_stored_col c"
  by (cases c) auto

lemma mark_used_idem: "mark_used c = Some c' \<Longrightarrow> mark_used c' = Some c'"
  by (cases c) auto

lemma is_dependee_name: "is_dependee uses c \<Longrightarrow> col_name c = uses \<and> is_stored_col c"
  by (cases c) (auto simp: is_dependee_def)

lemma extract_dependency_stored: "extract_dependency c = Some uses \<Longrightarrow> is_stored_col c"
  by (cases c) (auto simp: extract_dependency_def)

lemma chain_spec:
  assumes "take_and_chain_relation_with_plain cols = Inr (chained, r)"
  shows "chained = cols \<and> (\<forall>c\<in>set cols. extract_dependency c = None) \<or>
         (\<exists>rest u u' d uses. chained = rest @ [u', d] \<and> mset cols = mset rest + {#u, d#} \<and>
            extract_dependency d = Some uses \<and> is_dependee uses u \<and> mark_used u = Some u' \<and>
            (\<forall>k xs. cols = Col_Key k # xs \<longrightarrow> (\<exists>ys. rest = Col_Key k # ys)))"
proof (cases "find_dependency_by_idx cols")
  case None
  with assms show ?thesis by (auto simp: take_and_chain_relation_with_plain_def find_dependency_None)
next
  case (Some iu)
  then obtain dep uses where dep: "find_dependency_by_idx cols = Some (dep, uses)" by (cases iu) auto
  with assms obtain used u' where used: "find_used_idx cols uses dep 0 = Some used" and u': "mark_used (cols ! used) = Some u'"
    and chained: "chained = (if used > dep then remove_at_idx dep (remove_at_idx used cols)
                             else remove_at_idx used (remove_at_idx dep cols)) @ [u', cols ! dep]"
    by (auto simp: take_and_chain_relation_with_plain_def find_used_idx_for_dependency_def Let_def split: option.splits)
  let ?rest = "if used > dep then remove_at_idx dep (remove_at_idx used cols) else remove_at_idx used (remove_at_idx dep cols)"
  from find_dependency_Some[OF dep] have d: "dep < length cols" "extract_dependency (cols ! dep) = Some uses" by blast+
  from find_used_Some[OF used] have u: "used < length cols" "used \<noteq> dep" "is_dependee uses (cols ! used)" by auto
  have "mset cols = mset ?rest + {#cols ! used, cols ! dep#}"
    using mset_remove_two[of dep used cols] mset_remove_two[of used dep cols] d u by (auto simp: add_mset_commute)
  moreover have "\<exists>ys. ?rest = Col_Key k # ys" if "cols = Col_Key k # xs" for k xs
  proof -
    have "0 < dep" "0 < used"
      using d(2) u(3) that by (auto simp: nth_Cons' extract_dependency_def is_dependee_def split: if_splits intro: ccontr)
    then show ?thesis using that by (auto simp: remove_at_idx_Cons)
  qed
  ultimately show ?thesis using chained d(2) u(3) u' by blast
qed

lemma mset_chain_names:
  assumes "take_and_chain_relation_with_plain cols = Inr (chained, r)"
  shows "mset (map col_name chained) = mset (map col_name cols)"
  using chain_spec[OF assms] by (auto simp: mark_used_name simp flip: mset_map dest!: arg_cong[of "mset cols" _ "image_mset col_name"])

lemma chain_keys:
  assumes "take_and_chain_relation_with_plain cols = Inr (chained, r)"
  shows "mset (filter is_key_col chained) = mset (filter is_key_col cols)"
  using chain_spec[OF assms]
  by (auto simp: mark_used_name simp flip: mset_filter dest!: arg_cong[of "mset cols" _ "filter_mset is_key_col"]
      dest: is_dependee_name extract_dependency_stored mark_used_name)

lemma get_field_macros_parts:
  assumes "get_field_macros pt snake (Named fs) = Inr (k, cols)"
  obtains ps chained r where "map (parse_entity_field pt snake) fs = map Inr ps" and "filter is_key_col ps = [Col_Key k]"
    and "take_and_chain_relation_with_plain ((if is_root k then [] else [Col_Key k]) @ filter is_stored_col ps) = Inr (chained, r)"
    and "cols = chained @ filter is_transient_col ps @ (if is_root k then [Col_Key k] else [])"
proof -
  from assms obtain columns transients chained r where
    col: "collect_fields pt snake (None, [], []) fs = Inr (Some k, columns, transients)" and
    ch: "take_and_chain_relation_with_plain ((if is_root k then [] else [Col_Key k]) @ columns) = Inr (chained, r)" and
    res: "cols = chained @ transients @ (if is_root k then [Col_Key k] else [])"
    by (auto simp: get_field_macros_def get_named_fields_def split: sum.splits option.splits prod.splits)
  from collect_fields_spec[OF col] obtain ps where "map (parse_entity_field pt snake) fs = map Inr ps"
    "columns = filter is_stored_col ps" "transients = filter is_transient_col ps" "filter is_key_col ps = [Col_Key k]" by auto
  with ch res show thesis by (intro that) auto
qed

lemma no_keys_in_stored [simp]: "filter is_key_col (filter is_stored_col ps) = []" "filter is_key_col (filter is_transient_col ps) = []"
proof -
  have "\<not> (is_transient_col c \<and> is_key_col c)" for c by (cases c) auto
  then show "filter is_key_col (filter is_stored_col ps) = []" "filter is_key_col (filter is_transient_col ps) = []"
    by (auto simp: filter_empty_conv)
qed

lemma mset_filter_single: "mset (filter P xs) = {#x#} \<Longrightarrow> filter P xs = [x]"
  using mset_single_iff by blast

text \<open>The columns have the names of the fields, and one of them is the key.\<close>

lemma get_field_macros_names:
  assumes "get_field_macros pt snake (Named fs) = Inr (k, cols)"
  shows "mset (map (\<lambda>c. Some (col_name c)) cols) = mset (map sf_ident fs)" and "filter is_key_col cols = [Col_Key k]"
proof -
  obtain ps chained r where p: "map (parse_entity_field pt snake) fs = map Inr ps" "filter is_key_col ps = [Col_Key k]"
    and ch: "take_and_chain_relation_with_plain ((if is_root k then [] else [Col_Key k]) @ filter is_stored_col ps) = Inr (chained, r)"
    and cols: "cols = chained @ filter is_transient_col ps @ (if is_root k then [Col_Key k] else [])"
    using get_field_macros_parts[OF assms] by blast
  have fs: "map sf_ident fs = map (\<lambda>c. Some (col_name c)) ps"
    using p(1) by (induction fs arbitrary: ps) (auto simp: Cons_eq_map_conv map_eq_Cons_conv dest: parse_entity_field_name)
  have "mset (map col_name cols) = mset (map col_name (filter is_stored_col ps @ filter is_transient_col ps @ filter is_key_col ps))"
    unfolding cols p(2) using mset_chain_names[OF ch] by simp
  then have "mset (map col_name cols) = mset (map col_name ps)"
    using arg_cong[OF mset_columns[of ps], of "image_mset col_name"] by (simp add: union_assoc)
  then have "image_mset Some (mset (map col_name cols)) = image_mset Some (mset (map col_name ps))" by (rule arg_cong)
  then show "mset (map (\<lambda>c. Some (col_name c)) cols) = mset (map sf_ident fs)"
    by (simp add: fs image_mset.compositionality o_def)
  show "filter is_key_col cols = [Col_Key k]"
    by (rule mset_filter_single) (use chain_keys[OF ch] in \<open>simp add: cols del: filter_filter mset_filter\<close>)
qed

subsection \<open>Properties\<close>


definition demo_tx_fields :: "syn_field list" where
  "demo_tx_fields =
     [\<lparr>sf_ident = Some ''id'', sf_ty = Ty_Path ''BlockPointer'' None,
       sf_attrs = [\<lparr>at_path = ''fk'', at_metas = Some [Meta_Ident ''one2many'', Meta_Int ''db_cache'' 2]\<rparr>]\<rparr>,
      \<lparr>sf_ident = Some ''hash'', sf_ty = Ty_Path ''TxHash'' None,
       sf_attrs = [\<lparr>at_path = ''column'', at_metas = Some [Meta_Ident ''index'']\<rparr>]\<rparr>,
      \<lparr>sf_ident = Some ''inputs'', sf_ty = Ty_Path ''Vec'' (Some [Ty_Path ''Input'' None]),
       sf_attrs = [\<lparr>at_path = ''write_from_using'', at_metas = Some [Meta_Ident ''input_refs'', Meta_Ident ''hash'']\<rparr>]\<rparr>,
      \<lparr>sf_ident = Some ''utxos'', sf_ty = Ty_Path ''Vec'' (Some [Ty_Path ''Utxo'' None]), sf_attrs = []\<rparr>,
      \<lparr>sf_ident = Some ''input_refs'', sf_ty = Ty_Path ''Vec'' (Some [Ty_Path ''InputRef'' None]),
       sf_attrs = [\<lparr>at_path = ''column'', at_metas = Some [Meta_Ident ''transient'']\<rparr>]\<rparr>]"

definition demo_snake :: "string \<Rightarrow> string" where
  "demo_snake s = (if s = ''Input'' then ''input'' else ''utxo'')"

lemma demo_tx_columns:
  "\<exists>k cols. get_field_macros (\<lambda>s. Some (Ty_Path s None)) demo_snake (Named demo_tx_fields) = Inr (k, cols) \<and>
     map col_name cols = [''id'', ''utxos'', ''hash'', ''inputs'', ''input_refs''] \<and> \<not> is_root k \<and> extract_dependency (cols ! 3) \<noteq> None"
  by (simp add: get_field_macros_def get_named_fields_def demo_tx_fields_def demo_snake_def parse_entity_field_def
      parse_nested_meta_def fk_meta_def extract_base_type_from_pointer_def strip_suffix_def column_meta_def column_flags_init_def
      column_of_flags_def get_relationship_def validate_one_to_many_name_def parse_write_from_using_def
      take_and_chain_relation_with_plain_def extract_dependency_def find_used_idx_for_dependency_def is_dependee_def remove_at_idx_def Let_def)


end
