(* ===== verification/Entity.thy ===== *)
theory Entity
  imports Redb Pointers
begin

section \<open>Entities\<close>

text \<open>
  The code that the entity macro generates (the templates in \<open>macros/src/entity\<close>, \<open>pk\<close>, \<open>column\<close> and
  \<open>relationship\<close>): storing an entity with everything it owns, composing it from its columns, and deleting it.

  An entity is described by \<open>ent\<close>: whether its key is a root key, the type of the key, and its stored
  columns in the order of \<open>Schema\<close>. A column holds a value (plain, indexed or in a dictionary: the
  statements of the three differ in the table they call only), or a child entity: one with the same key,
  at most one, or many whose keys point to this one. The generated functions for a struct are the functions
  below at its description. The tables of an entity are a tree \<open>edb\<close> of the same shape, a key table and one
  table per column; an instance is an \<open>einst\<close>.

  Tables are the parameters of \<open>Redb\<close>, \<open>K\<close> for the key tables and \<open>V\<close> for the columns: what the theories of
  the table writers and readers establish of them are the laws assumed here. A table stands for its
  contents with the operations of the transaction applied; the reading functions run in a context that is
  opened after the commit. Every operation can fail, and \<open>?\<close> returns its error at once. Panics, \<open>None\<close> below,
  come from index arithmetic in \<open>fk_range\<close> only. Columns that are written by a hook of the application
  (\<open>write_from_using\<close>) and transient columns are not part of the description.
\<close>

datatype ent = Ent (ent_root: bool) (ent_key: ptr_ty) (ent_cols: "ecol list")
and ecol = E_Value | E_One ent | E_Opt ent | E_Many ent

datatype ('s, 't) edb = Edb (edb_keys: 's) (edb_tabs: "('s, 't) etab list")
and ('s, 't) etab = Tab 't | Sub "('s, 't) edb"

datatype 'v einst = Einst (inst_key: pointer) (inst_fields: "'v efield list")
and 'v efield = F_Value 'v | F_One "'v einst" | F_Opt "'v einst option" | F_Many "'v einst list"

subsection \<open>Storing\<close>

definition ins :: "('t, pointer, 'v) table_ops \<Rightarrow> 't \<Rightarrow> pointer \<Rightarrow> 'v \<Rightarrow> 't \<times> unit res" where
  "ins ops t p v = (case tbl_insert ops t p v of (t', Inl e) \<Rightarrow> (t', Inl e) | (t', Inr _) \<Rightarrow> (t', Inr ()))"

fun store ::
    "('s, pointer, unit) table_ops \<Rightarrow> ('t, pointer, 'v) table_ops \<Rightarrow> ent \<Rightarrow> ('s, 't) edb \<Rightarrow> 'v einst \<Rightarrow> ('s, 't) edb \<times> unit res"
  and store_cols ::
    "('s, pointer, unit) table_ops \<Rightarrow> ('t, pointer, 'v) table_ops \<Rightarrow> ecol list \<Rightarrow> ('s, 't) etab list \<Rightarrow> pointer \<Rightarrow> 'v efield list \<Rightarrow>
     ('s, 't) etab list \<times> unit res"
  and store_col ::
    "('s, pointer, unit) table_ops \<Rightarrow> ('t, pointer, 'v) table_ops \<Rightarrow> ecol \<Rightarrow> ('s, 't) etab \<Rightarrow> pointer \<Rightarrow> 'v efield \<Rightarrow>
     ('s, 't) etab \<times> unit res" where
  "store K V (Ent root ty cols) db i =
     (if root
      then (case store_cols K V cols (edb_tabs db) (inst_key i) (inst_fields i) of
              (ts', Inl e) \<Rightarrow> (Edb (edb_keys db) ts', Inl e)
            | (ts', Inr _) \<Rightarrow> (case ins K (edb_keys db) (inst_key i) () of (ks', r) \<Rightarrow> (Edb ks' ts', r)))
      else (case ins K (edb_keys db) (inst_key i) () of
              (ks', Inl e) \<Rightarrow> (Edb ks' (edb_tabs db), Inl e)
            | (ks', Inr _) \<Rightarrow>
                (case store_cols K V cols (edb_tabs db) (inst_key i) (inst_fields i) of (ts', r) \<Rightarrow> (Edb ks' ts', r))))"
| "store_cols K V [] ts p fs = (ts, Inr ())"
| "store_cols K V (c # cs) ts p fs =
     (if ts = [] \<or> fs = [] then (ts, Inr ())
      else (case store_col K V c (hd ts) p (hd fs) of
              (t', Inl e) \<Rightarrow> (t' # tl ts, Inl e)
            | (t', Inr _) \<Rightarrow> (case store_cols K V cs (tl ts) p (tl fs) of (ts', r) \<Rightarrow> (t' # ts', r))))"
| "store_col K V E_Value t p f =
     (case (t, f) of
        (Tab tb, F_Value v) \<Rightarrow> (case ins V tb p v of (tb', r) \<Rightarrow> (Tab tb', r))
      | _ \<Rightarrow> (t, Inr ()))"
| "store_col K V (E_One e) t p f =
     (case (t, f) of
        (Sub db, F_One i) \<Rightarrow> (case store K V e db i of (db', r) \<Rightarrow> (Sub db', r))
      | _ \<Rightarrow> (t, Inr ()))"
| "store_col K V (E_Opt e) t p f =
     (case (t, f) of
        (Sub db, F_Opt (Some i)) \<Rightarrow> (case store K V e db i of (db', r) \<Rightarrow> (Sub db', r))
      | _ \<Rightarrow> (t, Inr ()))"
| "store_col K V (E_Many e) t p f =
     (case (t, f) of
        (Sub db, F_Many is) \<Rightarrow> (case for_each (store K V e) db is of (db', r) \<Rightarrow> (Sub db', r))
      | _ \<Rightarrow> (t, Inr ()))"

definition store_many ::
    "('s, pointer, unit) table_ops \<Rightarrow> ('t, pointer, 'v) table_ops \<Rightarrow> ent \<Rightarrow> ('s, 't) edb \<Rightarrow> 'v einst list \<Rightarrow> ('s, 't) edb \<times> unit res" where
  "store_many K V e db is = for_each (store K V e) db is"

subsection \<open>Composing\<close>

text \<open>A loop that stops at the first panic or error and collects its results.\<close>

fun collect :: "('x \<Rightarrow> 'y res option) \<Rightarrow> 'x list \<Rightarrow> 'y list res option" where
  "collect f [] = Some (Inr [])"
| "collect f (x # xs) =
     (case f x of
        None \<Rightarrow> None
      | Some (Inl e) \<Rightarrow> Some (Inl e)
      | Some (Inr y) \<Rightarrow> map_option (map_sum id (\<lambda>ys. y # ys)) (collect f xs))"

text \<open>\<open>get\<close>: composes the entity when its key is in the key table.\<close>

definition get_with :: "('s, pointer, unit) table_ops \<Rightarrow> 's \<Rightarrow> (pointer \<Rightarrow> 'i res option) \<Rightarrow> pointer \<Rightarrow> 'i option res option" where
  "get_with K ks composer p =
     (case tbl_get K ks p of
        Inl e \<Rightarrow> Some (Inl e)
      | Inr None \<Rightarrow> Some (Inr None)
      | Inr (Some _) \<Rightarrow> map_option (map_sum id Some) (composer p))"

text \<open>\<open>range\<close>: composes the entities whose keys lie in a range.\<close>

definition range_with ::
    "('s, pointer, unit) table_ops \<Rightarrow> 's \<Rightarrow> (pointer \<Rightarrow> 'i res option) \<Rightarrow> pointer \<Rightarrow> pointer \<Rightarrow> 'i list res option" where
  "range_with K ks composer a b =
     (case tbl_range K ks a b of Inl e \<Rightarrow> Some (Inl e) | Inr rows \<Rightarrow> collect composer (map fst rows))"

fun compose ::
    "bool \<Rightarrow> ('s, pointer, unit) table_ops \<Rightarrow> ('t, pointer, 'v) table_ops \<Rightarrow> ent \<Rightarrow> ('s, 't) edb \<Rightarrow> pointer \<Rightarrow> 'v einst res option"
  and compose_cols ::
    "bool \<Rightarrow> ('s, pointer, unit) table_ops \<Rightarrow> ('t, pointer, 'v) table_ops \<Rightarrow> ptr_ty \<Rightarrow> ecol list \<Rightarrow> ('s, 't) etab list \<Rightarrow> pointer \<Rightarrow>
     'v efield list res option"
  and compose_col ::
    "bool \<Rightarrow> ('s, pointer, unit) table_ops \<Rightarrow> ('t, pointer, 'v) table_ops \<Rightarrow> ptr_ty \<Rightarrow> ecol \<Rightarrow> ('s, 't) etab \<Rightarrow> pointer \<Rightarrow>
     'v efield res option" where
  "compose checks K V (Ent root ty cols) db p =
     map_option (map_sum id (Einst p)) (compose_cols checks K V ty cols (edb_tabs db) p)"
| "compose_cols checks K V ty [] ts p = Some (Inr [])"
| "compose_cols checks K V ty (c # cs) ts p =
     (case ts of
        [] \<Rightarrow> Some (Inr [])
      | t # ts' \<Rightarrow>
          (case compose_col checks K V ty c t p of
             None \<Rightarrow> None
           | Some (Inl e) \<Rightarrow> Some (Inl e)
           | Some (Inr f) \<Rightarrow> map_option (map_sum id (\<lambda>fs. f # fs)) (compose_cols checks K V ty cs ts' p)))"
| "compose_col checks K V ty E_Value t p =
     (case t of
        Tab tb \<Rightarrow>
          Some (case tbl_get V tb p of
                  Inl e \<Rightarrow> Inl e
                | Inr None \<Rightarrow> Inl (NotFound ''missing pk'')
                | Inr (Some v) \<Rightarrow> Inr (F_Value v))
      | Sub db \<Rightarrow> None)"
| "compose_col checks K V ty (E_One e) t p =
     (case t of
        Sub db \<Rightarrow>
          (case get_with K (edb_keys db) (compose checks K V e db) p of
             None \<Rightarrow> None
           | Some (Inl er) \<Rightarrow> Some (Inl er)
           | Some (Inr None) \<Rightarrow> Some (Inl (NotFound ''Missing one-to-one child''))
           | Some (Inr (Some i)) \<Rightarrow> Some (Inr (F_One i)))
      | Tab tb \<Rightarrow> None)"
| "compose_col checks K V ty (E_Opt e) t p =
     (case t of
        Sub db \<Rightarrow> map_option (map_sum id F_Opt) (get_with K (edb_keys db) (compose checks K V e db) p)
      | Tab tb \<Rightarrow> None)"
| "compose_col checks K V ty (E_Many e) t p =
     (case t of
        Sub db \<Rightarrow>
          (case fk_range checks ty p of
             None \<Rightarrow> None
           | Some (a, b) \<Rightarrow> map_option (map_sum id F_Many) (range_with K (edb_keys db) (compose checks K V e db) a b))
      | Tab tb \<Rightarrow> None)"

definition get ::
    "bool \<Rightarrow> ('s, pointer, unit) table_ops \<Rightarrow> ('t, pointer, 'v) table_ops \<Rightarrow> ent \<Rightarrow> ('s, 't) edb \<Rightarrow> pointer \<Rightarrow>
     'v einst option res option" where
  "get checks K V e db p = get_with K (edb_keys db) (compose checks K V e db) p"

definition exists_key :: "('s, pointer, unit) table_ops \<Rightarrow> ('s, 't) edb \<Rightarrow> pointer \<Rightarrow> bool res" where
  "exists_key K db p = (case tbl_get K (edb_keys db) p of Inl e \<Rightarrow> Inl e | Inr r \<Rightarrow> Inr (r \<noteq> None))"

definition range_ent ::
    "bool \<Rightarrow> ('s, pointer, unit) table_ops \<Rightarrow> ('t, pointer, 'v) table_ops \<Rightarrow> ent \<Rightarrow> ('s, 't) edb \<Rightarrow> pointer \<Rightarrow> pointer \<Rightarrow>
     'v einst list res option" where
  "range_ent checks K V e db a b = range_with K (edb_keys db) (compose checks K V e db) a b"

subsection \<open>Deleting\<close>

text \<open>\<open>delete_kv\<close> reports whether there was a row; the flags of all statements are collected.\<close>

definition del :: "('t, pointer, 'v) table_ops \<Rightarrow> 't \<Rightarrow> pointer \<Rightarrow> 't \<times> bool res" where
  "del ops t p = (case tbl_remove ops t p of (t', Inl e) \<Rightarrow> (t', Inl e) | (t', Inr r) \<Rightarrow> (t', Inr (r \<noteq> None)))"

fun del_each :: "('t, pointer, 'v) table_ops \<Rightarrow> 't \<Rightarrow> pointer list \<Rightarrow> 't \<times> bool list res" where
  "del_each ops t [] = (t, Inr [])"
| "del_each ops t (p # ps) =
     (case del ops t p of
        (t', Inl e) \<Rightarrow> (t', Inl e)
      | (t', Inr b) \<Rightarrow> (case del_each ops t' ps of (t'', r) \<Rightarrow> (t'', map_sum id (\<lambda>bs. b # bs) r)))"

text \<open>The keys of the children of several keys, by ranges of the key table.\<close>

definition pk_range :: "('s, pointer, unit) table_ops \<Rightarrow> 's \<Rightarrow> pointer \<Rightarrow> pointer \<Rightarrow> pointer list res" where
  "pk_range K ks a b = map_sum id (map fst) (tbl_range K ks a b)"

fun child_pks ::
    "bool \<Rightarrow> ('s, pointer, unit) table_ops \<Rightarrow> ptr_ty \<Rightarrow> 's \<Rightarrow> pointer list \<Rightarrow> pointer list res option" where
  "child_pks checks K ty ks [] = Some (Inr [])"
| "child_pks checks K ty ks (p # ps) =
     (case fk_range checks ty p of
        None \<Rightarrow> None
      | Some (a, b) \<Rightarrow>
          (case pk_range K ks a b of
             Inl e \<Rightarrow> Some (Inl e)
           | Inr cs \<Rightarrow> map_option (map_sum id (\<lambda>cs'. cs @ cs')) (child_pks checks K ty ks ps)))"

fun delete_many ::
    "bool \<Rightarrow> ('s, pointer, unit) table_ops \<Rightarrow> ('t, pointer, 'v) table_ops \<Rightarrow> ent \<Rightarrow> ('s, 't) edb \<Rightarrow> pointer list \<Rightarrow>
     (('s, 't) edb \<times> bool res) option"
  and delete_many_cols ::
    "bool \<Rightarrow> ('s, pointer, unit) table_ops \<Rightarrow> ('t, pointer, 'v) table_ops \<Rightarrow> ptr_ty \<Rightarrow> ecol list \<Rightarrow> ('s, 't) etab list \<Rightarrow> pointer list \<Rightarrow>
     (('s, 't) etab list \<times> bool list res) option"
  and delete_many_col ::
    "bool \<Rightarrow> ('s, pointer, unit) table_ops \<Rightarrow> ('t, pointer, 'v) table_ops \<Rightarrow> ptr_ty \<Rightarrow> ecol \<Rightarrow> ('s, 't) etab \<Rightarrow> pointer list \<Rightarrow>
     (('s, 't) etab \<times> bool list res) option" where
  "delete_many checks K V (Ent root ty cols) db ps =
     (if root
      then (case delete_many_cols checks K V ty cols (edb_tabs db) ps of
              None \<Rightarrow> None
            | Some (ts', Inl e) \<Rightarrow> Some (Edb (edb_keys db) ts', Inl e)
            | Some (ts', Inr bs) \<Rightarrow>
                (case del_each K (edb_keys db) ps of (ks', r) \<Rightarrow> Some (Edb ks' ts', map_sum id (\<lambda>bs'. False \<notin> set (bs @ bs')) r)))
      else (case del_each K (edb_keys db) ps of
              (ks', Inl e) \<Rightarrow> Some (Edb ks' (edb_tabs db), Inl e)
            | (ks', Inr bs) \<Rightarrow>
                map_option (\<lambda>(ts', r). (Edb ks' ts', map_sum id (\<lambda>bs'. False \<notin> set (bs @ bs')) r))
                  (delete_many_cols checks K V ty cols (edb_tabs db) ps)))"
| "delete_many_cols checks K V ty [] ts ps = Some (ts, Inr [])"
| "delete_many_cols checks K V ty (c # cs) ts ps =
     (case ts of
        [] \<Rightarrow> Some (ts, Inr [])
      | t # ts' \<Rightarrow>
          (case delete_many_col checks K V ty c t ps of
             None \<Rightarrow> None
           | Some (t', Inl e) \<Rightarrow> Some (t' # ts', Inl e)
           | Some (t', Inr bs) \<Rightarrow>
               map_option (\<lambda>(ts'', r). (t' # ts'', map_sum id (\<lambda>bs'. bs @ bs') r)) (delete_many_cols checks K V ty cs ts' ps)))"
| "delete_many_col checks K V ty E_Value t ps =
     (case t of
        Tab tb \<Rightarrow> (case del_each V tb ps of (tb', r) \<Rightarrow> Some (Tab tb', r))
      | Sub db \<Rightarrow> None)"
| "delete_many_col checks K V ty (E_One e) t ps =
     (case t of
        Sub db \<Rightarrow> map_option (\<lambda>(db', r). (Sub db', map_sum id (\<lambda>b. [b]) r)) (delete_many checks K V e db ps)
      | Tab tb \<Rightarrow> None)"
| "delete_many_col checks K V ty (E_Opt e) t ps =
     (case t of
        Sub db \<Rightarrow> map_option (\<lambda>(db', r). (Sub db', map_sum id (\<lambda>b. []) r)) (delete_many checks K V e db ps)
      | Tab tb \<Rightarrow> None)"
| "delete_many_col checks K V ty (E_Many e) t ps =
     (case t of
        Sub db \<Rightarrow>
          (case child_pks checks K ty (edb_keys db) ps of
             None \<Rightarrow> None
           | Some (Inl er) \<Rightarrow> Some (t, Inl er)
           | Some (Inr cs) \<Rightarrow> map_option (\<lambda>(db', r). (Sub db', map_sum id (\<lambda>b. [b]) r)) (delete_many checks K V e db cs))
      | Tab tb \<Rightarrow> None)"

text \<open>\<open>delete\<close> of one key; its statements for children that it owns once call \<open>delete\<close> again.\<close>

fun delete ::
    "bool \<Rightarrow> ('s, pointer, unit) table_ops \<Rightarrow> ('t, pointer, 'v) table_ops \<Rightarrow> ent \<Rightarrow> ('s, 't) edb \<Rightarrow> pointer \<Rightarrow>
     (('s, 't) edb \<times> bool res) option"
  and delete_cols ::
    "bool \<Rightarrow> ('s, pointer, unit) table_ops \<Rightarrow> ('t, pointer, 'v) table_ops \<Rightarrow> ptr_ty \<Rightarrow> ecol list \<Rightarrow> ('s, 't) etab list \<Rightarrow> pointer \<Rightarrow>
     (('s, 't) etab list \<times> bool list res) option"
  and delete_col ::
    "bool \<Rightarrow> ('s, pointer, unit) table_ops \<Rightarrow> ('t, pointer, 'v) table_ops \<Rightarrow> ptr_ty \<Rightarrow> ecol \<Rightarrow> ('s, 't) etab \<Rightarrow> pointer \<Rightarrow>
     (('s, 't) etab \<times> bool list res) option" where
  "delete checks K V (Ent root ty cols) db p =
     (if root
      then (case delete_cols checks K V ty cols (edb_tabs db) p of
              None \<Rightarrow> None
            | Some (ts', Inl e) \<Rightarrow> Some (Edb (edb_keys db) ts', Inl e)
            | Some (ts', Inr bs) \<Rightarrow>
                (case del K (edb_keys db) p of (ks', r) \<Rightarrow> Some (Edb ks' ts', map_sum id (\<lambda>b. False \<notin> set (bs @ [b])) r)))
      else (case del K (edb_keys db) p of
              (ks', Inl e) \<Rightarrow> Some (Edb ks' (edb_tabs db), Inl e)
            | (ks', Inr b) \<Rightarrow>
                map_option (\<lambda>(ts', r). (Edb ks' ts', map_sum id (\<lambda>bs'. False \<notin> set (b # bs')) r))
                  (delete_cols checks K V ty cols (edb_tabs db) p)))"
| "delete_cols checks K V ty [] ts p = Some (ts, Inr [])"
| "delete_cols checks K V ty (c # cs) ts p =
     (case ts of
        [] \<Rightarrow> Some (ts, Inr [])
      | t # ts' \<Rightarrow>
          (case delete_col checks K V ty c t p of
             None \<Rightarrow> None
           | Some (t', Inl e) \<Rightarrow> Some (t' # ts', Inl e)
           | Some (t', Inr bs) \<Rightarrow>
               map_option (\<lambda>(ts'', r). (t' # ts'', map_sum id (\<lambda>bs'. bs @ bs') r)) (delete_cols checks K V ty cs ts' p)))"
| "delete_col checks K V ty E_Value t p =
     (case t of
        Tab tb \<Rightarrow> (case del V tb p of (tb', r) \<Rightarrow> Some (Tab tb', map_sum id (\<lambda>b. [b]) r))
      | Sub db \<Rightarrow> None)"
| "delete_col checks K V ty (E_One e) t p =
     (case t of
        Sub db \<Rightarrow> map_option (\<lambda>(db', r). (Sub db', map_sum id (\<lambda>b. [b]) r)) (delete checks K V e db p)
      | Tab tb \<Rightarrow> None)"
| "delete_col checks K V ty (E_Opt e) t p =
     (case t of
        Sub db \<Rightarrow> map_option (\<lambda>(db', r). (Sub db', map_sum id (\<lambda>b. []) r)) (delete checks K V e db p)
      | Tab tb \<Rightarrow> None)"
| "delete_col checks K V ty (E_Many e) t p =
     (case t of
        Sub db \<Rightarrow>
          (case fk_range checks ty p of
             None \<Rightarrow> None
           | Some (a, b) \<Rightarrow>
               (case pk_range K (edb_keys db) a b of
                  Inl er \<Rightarrow> Some (t, Inl er)
                | Inr cs \<Rightarrow> map_option (\<lambda>(db', r). (Sub db', map_sum id (\<lambda>b. [b]) r)) (delete_many checks K V e db cs)))
      | Tab tb \<Rightarrow> None)"

end
