(* ===== verification/Entity_Refine.thy ===== *)
theory Entity_Refine
  imports Entity
begin

section \<open>Entities refine a map from keys to instances\<close>

text \<open>
  The generated functions implement a map: \<open>lookup\<close> reads the instance of a key out of the tables of an
  entity and of everything it owns, \<open>valid\<close> is the invariant of these tables. Storing under a fresh key
  updates the map, composing reads it, deleting removes keys from it, and all of them keep the invariant.
\<close>

subsection \<open>What is assumed of the tables\<close>

definition tables_ok ::
    "('s, pointer, unit) table_ops \<Rightarrow> ('t, pointer, 'v) table_ops \<Rightarrow> ('s \<Rightarrow> pointer \<rightharpoonup> unit) \<Rightarrow> ('t \<Rightarrow> pointer \<rightharpoonup> 'v) \<Rightarrow> bool" where
  "tables_ok K V kview vview \<longleftrightarrow>
     table_laws K kview \<and> table_total K \<and> table_range_law default K kview \<and> (\<forall>t a b. is_ok (tbl_range K t a b)) \<and>
     table_laws V vview \<and> table_total V"

lemma tables_okD:
  assumes "tables_ok K V kview vview"
  shows "\<exists>t'. ins K s p () = (t', Inr ()) \<and> kview t' = (kview s)(p \<mapsto> ())"
    and "\<exists>t'. ins V t p v = (t', Inr ()) \<and> vview t' = (vview t)(p \<mapsto> v)"
    and "tbl_get K s p = Inr (kview s p)" and "tbl_get V t p = Inr (vview t p)"
    and "\<exists>t'. del K s p = (t', Inr (p \<in> dom (kview s))) \<and> kview t' = (kview s)(p := None)"
    and "\<exists>t'. del V t p = (t', Inr (p \<in> dom (vview t))) \<and> vview t' = (vview t)(p := None)"
proof -
  from assms have laws: "table_laws K kview" "table_total K" "table_laws V vview" "table_total V" by (auto simp: tables_ok_def)
  show "\<exists>t'. ins K s p () = (t', Inr ()) \<and> kview t' = (kview s)(p \<mapsto> ())"
    using total_insert[OF laws(1,2), of s p "()"] by (auto simp: ins_def)
  show "\<exists>t'. ins V t p v = (t', Inr ()) \<and> vview t' = (vview t)(p \<mapsto> v)"
    using total_insert[OF laws(3,4), of t p v] by (auto simp: ins_def)
  show "tbl_get K s p = Inr (kview s p)" "tbl_get V t p = Inr (vview t p)"
    by (rule total_get[OF laws(1,2)], rule total_get[OF laws(3,4)])
  show "\<exists>t'. del K s p = (t', Inr (p \<in> dom (kview s))) \<and> kview t' = (kview s)(p := None)"
    using total_remove[OF laws(1,2), of s p] by (auto simp: del_def)
  show "\<exists>t'. del V t p = (t', Inr (p \<in> dom (vview t))) \<and> vview t' = (vview t)(p := None)"
    using total_remove[OF laws(3,4), of t p] by (auto simp: del_def)
qed

text \<open>The rows of a range are its keys in ascending order.\<close>

lemma range_rows:
  assumes "tables_ok K V kview vview"
  shows "\<exists>rows. tbl_range K s a b = Inr rows \<and> finite {k \<in> dom (kview s). a \<le> k \<and> k < b} \<and>
           map fst rows = sorted_list_of_set {k \<in> dom (kview s). a \<le> k \<and> k < b}"
proof -
  from assms have "is_ok (tbl_range K s a b)" by (simp add: tables_ok_def)
  then obtain rows where rows: "tbl_range K s a b = Inr rows" by (rule is_okE)
  with assms have sorted: "sorted_wrt (\<lambda>x y. compare default (fst x) (fst y) = Less) rows"
    and mem: "\<And>k v. (k, v) \<in> set rows \<longleftrightarrow> kview s k = Some v \<and> compare default a k \<noteq> Greater \<and> compare default k b = Less"
    unfolding tables_ok_def table_range_law_def by blast+
  have set: "fst ` set rows = {k \<in> dom (kview s). a \<le> k \<and> k < b}"
    using mem by (force simp: image_iff not_less)
  have "sorted_wrt (<) (map fst rows)" using sorted by (simp add: sorted_wrt_map)
  then have "map fst rows = sorted_list_of_set (set (map fst rows))"
    by (metis strict_sorted_equal strict_sorted_list_of_set set_sorted_list_of_set List.finite_set)
  moreover have "finite (fst ` set rows)" by simp
  ultimately show ?thesis using rows set by simp
qed

subsection \<open>The map and the invariant\<close>

abbreviation keys_of :: "('s \<Rightarrow> pointer \<rightharpoonup> unit) \<Rightarrow> ('s, 't) edb \<Rightarrow> pointer set" where
  "keys_of kview db \<equiv> dom (kview (edb_keys db))"

abbreviation children_of :: "('s \<Rightarrow> pointer \<rightharpoonup> unit) \<Rightarrow> ('s, 't) edb \<Rightarrow> pointer \<Rightarrow> pointer set" where
  "children_of kview db p \<equiv> {c \<in> keys_of kview db. parent c = Some p}"

definition key_ok :: "ptr_ty \<Rightarrow> pointer \<Rightarrow> bool" where
  "key_ok ty p \<longleftrightarrow> well_typed ty p \<and> next_index True ty p \<noteq> None"

fun lookup ::
    "('s \<Rightarrow> pointer \<rightharpoonup> unit) \<Rightarrow> ('t \<Rightarrow> pointer \<rightharpoonup> 'v) \<Rightarrow> ent \<Rightarrow> ('s, 't) edb \<Rightarrow> pointer \<Rightarrow> 'v einst option"
  and lookup_cols :: "('s \<Rightarrow> pointer \<rightharpoonup> unit) \<Rightarrow> ('t \<Rightarrow> pointer \<rightharpoonup> 'v) \<Rightarrow> ecol list \<Rightarrow> ('s, 't) etab list \<Rightarrow> pointer \<Rightarrow> 'v efield list"
  and lookup_col :: "('s \<Rightarrow> pointer \<rightharpoonup> unit) \<Rightarrow> ('t \<Rightarrow> pointer \<rightharpoonup> 'v) \<Rightarrow> ecol \<Rightarrow> ('s, 't) etab \<Rightarrow> pointer \<Rightarrow> 'v efield" where
  "lookup kview vview (Ent root ty cols) db p =
     (if p \<in> keys_of kview db then Some (Einst p (lookup_cols kview vview cols (edb_tabs db) p)) else None)"
| "lookup_cols kview vview [] ts p = []"
| "lookup_cols kview vview (c # cs) ts p =
     (case ts of [] \<Rightarrow> [] | t # ts' \<Rightarrow> lookup_col kview vview c t p # lookup_cols kview vview cs ts' p)"
| "lookup_col kview vview E_Value t p = (case t of Tab tb \<Rightarrow> F_Value (the (vview tb p)) | Sub db \<Rightarrow> F_Opt None)"
| "lookup_col kview vview (E_One e) t p = (case t of Sub db \<Rightarrow> F_One (the (lookup kview vview e db p)) | Tab tb \<Rightarrow> F_Opt None)"
| "lookup_col kview vview (E_Opt e) t p = (case t of Sub db \<Rightarrow> F_Opt (lookup kview vview e db p) | Tab tb \<Rightarrow> F_Opt None)"
| "lookup_col kview vview (E_Many e) t p =
     (case t of
        Sub db \<Rightarrow> F_Many (map (\<lambda>c. the (lookup kview vview e db c)) (sorted_list_of_set (children_of kview db p)))
      | Tab tb \<Rightarrow> F_Opt None)"

fun valid :: "('s \<Rightarrow> pointer \<rightharpoonup> unit) \<Rightarrow> ('t \<Rightarrow> pointer \<rightharpoonup> 'v) \<Rightarrow> ent \<Rightarrow> ('s, 't) edb \<Rightarrow> bool"
  and valid_cols :: "('s \<Rightarrow> pointer \<rightharpoonup> unit) \<Rightarrow> ('t \<Rightarrow> pointer \<rightharpoonup> 'v) \<Rightarrow> ptr_ty \<Rightarrow> pointer set \<Rightarrow> ecol list \<Rightarrow> ('s, 't) etab list \<Rightarrow> bool"
  and valid_col :: "('s \<Rightarrow> pointer \<rightharpoonup> unit) \<Rightarrow> ('t \<Rightarrow> pointer \<rightharpoonup> 'v) \<Rightarrow> ptr_ty \<Rightarrow> pointer set \<Rightarrow> ecol \<Rightarrow> ('s, 't) etab \<Rightarrow> bool" where
  "valid kview vview (Ent root ty cols) db \<longleftrightarrow>
     (\<forall>p\<in>keys_of kview db. key_ok ty p) \<and> valid_cols kview vview ty (keys_of kview db) cols (edb_tabs db)"
| "valid_cols kview vview ty D [] ts \<longleftrightarrow> ts = []"
| "valid_cols kview vview ty D (c # cs) ts \<longleftrightarrow>
     (case ts of [] \<Rightarrow> False | t # ts' \<Rightarrow> valid_col kview vview ty D c t \<and> valid_cols kview vview ty D cs ts')"
| "valid_col kview vview ty D E_Value t \<longleftrightarrow> (case t of Tab tb \<Rightarrow> dom (vview tb) = D | Sub db \<Rightarrow> False)"
| "valid_col kview vview ty D (E_One e) t \<longleftrightarrow>
     (case t of Sub db \<Rightarrow> ent_key e = ty \<and> valid kview vview e db \<and> keys_of kview db = D | Tab tb \<Rightarrow> False)"
| "valid_col kview vview ty D (E_Opt e) t \<longleftrightarrow>
     (case t of Sub db \<Rightarrow> ent_key e = ty \<and> valid kview vview e db \<and> keys_of kview db \<subseteq> D | Tab tb \<Rightarrow> False)"
| "valid_col kview vview ty D (E_Many e) t \<longleftrightarrow>
     (case t of
        Sub db \<Rightarrow> (\<exists>w. ent_key e = Child_Ty ty w) \<and> valid kview vview e db \<and> (\<forall>c\<in>keys_of kview db. \<exists>p\<in>D. parent c = Some p)
      | Tab tb \<Rightarrow> False)"

text \<open>Instances whose owned instances carry the keys that composing expects.\<close>

fun wf_inst :: "ent \<Rightarrow> 'v einst \<Rightarrow> bool"
  and wf_fields :: "ptr_ty \<Rightarrow> pointer \<Rightarrow> ecol list \<Rightarrow> 'v efield list \<Rightarrow> bool"
  and wf_field :: "ptr_ty \<Rightarrow> pointer \<Rightarrow> ecol \<Rightarrow> 'v efield \<Rightarrow> bool" where
  "wf_inst (Ent root ty cols) i \<longleftrightarrow> key_ok ty (inst_key i) \<and> wf_fields ty (inst_key i) cols (inst_fields i)"
| "wf_fields ty p [] fs \<longleftrightarrow> fs = []"
| "wf_fields ty p (c # cs) fs \<longleftrightarrow> (case fs of [] \<Rightarrow> False | f # fs' \<Rightarrow> wf_field ty p c f \<and> wf_fields ty p cs fs')"
| "wf_field ty p E_Value f \<longleftrightarrow> (case f of F_Value v \<Rightarrow> True | _ \<Rightarrow> False)"
| "wf_field ty p (E_One e) f \<longleftrightarrow> (case f of F_One i \<Rightarrow> inst_key i = p \<and> wf_inst e i | _ \<Rightarrow> False)"
| "wf_field ty p (E_Opt e) f \<longleftrightarrow> (case f of F_Opt io \<Rightarrow> (\<forall>i. io = Some i \<longrightarrow> inst_key i = p \<and> wf_inst e i) | _ \<Rightarrow> False)"
| "wf_field ty p (E_Many e) f \<longleftrightarrow>
     (case f of
        F_Many is \<Rightarrow> (\<forall>i\<in>set is. parent (inst_key i) = Some p \<and> wf_inst e i) \<and> sorted_wrt (<) (map inst_key is)
      | _ \<Rightarrow> False)"

subsection \<open>Composing reads the map\<close>

lemma children_rows:
  assumes "tables_ok K V kview vview" and "key_ok ty p" and "\<forall>c\<in>keys_of kview db. well_typed (Child_Ty ty w) c"
  shows "\<exists>a b rows. fk_range checks ty p = Some (a, b) \<and> tbl_range K (edb_keys db) a b = Inr rows \<and>
           finite (children_of kview db p) \<and> map fst rows = sorted_list_of_set (children_of kview db p)"
proof -
  from fk_range_children[of ty p checks] assms(2) obtain a b where
    ab: "fk_range checks ty p = Some (a, b)" "\<And>c. well_typed (Child_Ty ty w) c \<Longrightarrow> a \<le> c \<and> c < b \<longleftrightarrow> parent c = Some p"
    by (auto simp: key_ok_def)
  have "{k \<in> keys_of kview db. a \<le> k \<and> k < b} = children_of kview db p" using ab(2) assms(3) by blast
  with range_rows[OF assms(1), of "edb_keys db" a b] ab(1) show ?thesis by auto
qed

lemma compose_all_ok: "(\<And>x. x \<in> set xs \<Longrightarrow> f x = Some (Inr (g x))) \<Longrightarrow> collect f xs = Some (Inr (map g xs))"
  by (induction xs) auto

lemma valid_keys: "valid kview vview e db \<Longrightarrow> p \<in> keys_of kview db \<Longrightarrow> key_ok (ent_key e) p"
  by (cases e) auto

lemma lookup_Some: "p \<in> keys_of kview db \<longleftrightarrow> lookup kview vview e db p \<noteq> None"
  by (cases e) auto

lemma compose_ok:
  assumes "tables_ok K V kview vview"
  shows "valid kview vview e db \<Longrightarrow> p \<in> keys_of kview db \<Longrightarrow>
           compose checks K V e db p = Some (Inr (the (lookup kview vview e db p)))"
    and "valid_col kview vview ty D c t \<Longrightarrow> p \<in> D \<Longrightarrow> key_ok ty p \<Longrightarrow>
           compose_col checks K V ty c t p = Some (Inr (lookup_col kview vview c t p))"
proof (induction e and c arbitrary: db p and ty D t p rule: ent.induct ecol.induct)
  case (Ent root ty cols)
  have "compose_cols checks K V ty cs ts p = Some (Inr (lookup_cols kview vview cs ts p))"
    if "valid_cols kview vview ty D cs ts" "p \<in> D" "set cs \<subseteq> set cols" "key_ok ty p" for cs ts D
    using that
  proof (induction cs arbitrary: ts)
    case (Cons c cs)
    then obtain t ts' where "ts = t # ts'" "valid_col kview vview ty D c t" "valid_cols kview vview ty D cs ts'"
      by (cases ts) auto
    with Cons Ent.IH[of c ty D t p] show ?case by simp
  qed simp
  from this[of "keys_of kview db" cols "edb_tabs db"] Ent.prems show ?case by auto
next
  case E_Value
  then show ?case using tables_okD(4)[OF assms] by (cases t) (auto split: option.splits)
next
  case (E_One e)
  then obtain db where db: "t = Sub db" "valid kview vview e db" "keys_of kview db = D" by (cases t) auto
  from E_One.IH[OF db(2)] db(3) E_One.prems(2) have "compose checks K V e db p = Some (Inr (the (lookup kview vview e db p)))" by simp
  with db E_One.prems(2) tables_okD(3)[OF assms] show ?case by (auto simp: get_with_def)
next
  case (E_Opt e)
  then obtain db where db: "t = Sub db" "valid kview vview e db" by (cases t) auto
  from E_Opt.IH[OF db(2)] have "p \<in> keys_of kview db \<Longrightarrow> compose checks K V e db p = Some (Inr (the (lookup kview vview e db p)))" .
  with db tables_okD(3)[OF assms] lookup_Some[of p kview db vview e] show ?case by (auto simp: get_with_def split: option.splits)
next
  case (E_Many e)
  then obtain db w where db: "t = Sub db" "valid kview vview e db" "ent_key e = Child_Ty ty w" by (cases t) auto
  have "\<forall>c\<in>keys_of kview db. well_typed (Child_Ty ty w) c" using valid_keys[OF db(2)] db(3) by (auto simp: key_ok_def)
  from children_rows[OF assms E_Many.prems(3) this, of checks] obtain a b rows where
    r: "fk_range checks ty p = Some (a, b)" "tbl_range K (edb_keys db) a b = Inr rows" "finite (children_of kview db p)"
      "map fst rows = sorted_list_of_set (children_of kview db p)" by blast
  have "collect (compose checks K V e db) (map fst rows) = Some (Inr (map (\<lambda>c. the (lookup kview vview e db c)) (map fst rows)))"
    by (rule compose_all_ok) (use r E_Many.IH[OF db(2)] in auto)
  with r db(1) show ?case by (simp add: range_with_def)
qed

subsection \<open>Storing updates the map\<close>

abbreviation stored ::
    "('s \<Rightarrow> pointer \<rightharpoonup> unit) \<Rightarrow> ('t \<Rightarrow> pointer \<rightharpoonup> 'v) \<Rightarrow> ent \<Rightarrow> ('s, 't) edb \<Rightarrow> 'v einst \<Rightarrow> ('s, 't) edb \<Rightarrow> bool" where
  "stored kview vview e db i db' \<equiv>
     valid kview vview e db' \<and> keys_of kview db' = insert (inst_key i) (keys_of kview db) \<and>
     lookup kview vview e db' = (lookup kview vview e db)(inst_key i \<mapsto> i)"

lemma store_each_ok:
  assumes "\<And>db i. i \<in> set is \<Longrightarrow> valid kview vview e db \<Longrightarrow> inst_key i \<notin> keys_of kview db \<Longrightarrow>
             \<exists>db'. store K V e db i = (db', Inr ()) \<and> stored kview vview e db i db'"
    and "valid kview vview e db" and "distinct (map inst_key is)" and "inst_key ` set is \<inter> keys_of kview db = {}"
  shows "\<exists>db'. for_each (store K V e) db is = (db', Inr ()) \<and> valid kview vview e db' \<and>
           keys_of kview db' = keys_of kview db \<union> inst_key ` set is \<and> (\<forall>i\<in>set is. lookup kview vview e db' (inst_key i) = Some i) \<and>
           (\<forall>q. q \<notin> inst_key ` set is \<longrightarrow> lookup kview vview e db' q = lookup kview vview e db q)"
  using assms
proof (induction "is" arbitrary: db)
  case (Cons i "is")
  have fresh: "inst_key i \<notin> keys_of kview db" using Cons.prems(4) by auto
  obtain db1 where 1: "store K V e db i = (db1, Inr ())" "stored kview vview e db i db1"
    using Cons.prems(1)[OF list.set_intros(1) Cons.prems(2) fresh] by blast
  have "inst_key ` set is \<inter> keys_of kview db1 = {}" using Cons.prems(3,4) 1(2) by auto
  with Cons.IH[of db1] Cons.prems(1,3) 1(2) obtain db' where
    2: "for_each (store K V e) db1 is = (db', Inr ())" "valid kview vview e db'"
      "keys_of kview db' = keys_of kview db1 \<union> inst_key ` set is" "\<forall>i\<in>set is. lookup kview vview e db' (inst_key i) = Some i"
      "\<forall>q. q \<notin> inst_key ` set is \<longrightarrow> lookup kview vview e db' q = lookup kview vview e db1 q" by auto
  have "for_each (store K V e) db (i # is) = (db', Inr ())" using 1(1) 2(1) by simp
  moreover have "keys_of kview db' = keys_of kview db \<union> inst_key ` set (i # is)" using 1(2) 2(3) by auto
  moreover have "inst_key i \<notin> inst_key ` set is" using Cons.prems(3) by auto
  ultimately show ?case using 1(2) 2(2,4,5) by (intro exI[of _ db']) auto
qed simp

lemma store_ok:
  fixes V :: "('t, pointer, 'v) table_ops"
  assumes "tables_ok K V kview vview"
  shows "valid kview vview e db \<Longrightarrow> wf_inst e i \<Longrightarrow> inst_key i \<notin> keys_of kview db \<Longrightarrow>
           \<exists>db'. store K V e db i = (db', Inr ()) \<and> stored kview vview e db i db'"
    and "valid_col kview vview ty D c t \<Longrightarrow> wf_field ty p c f \<Longrightarrow> p \<notin> D \<Longrightarrow>
           \<exists>t'. store_col K V c t p f = (t', Inr ()) \<and> valid_col kview vview ty (insert p D) c t' \<and>
             lookup_col kview vview c t' p = f \<and> (\<forall>q\<in>D. lookup_col kview vview c t' q = lookup_col kview vview c t q)"
proof (induction e and c arbitrary: db i and ty D t p f rule: ent.induct ecol.induct)
  case (Ent root ty cols)
  let ?D = "keys_of kview db" and ?p = "inst_key i"
  have cols: "\<exists>ts'. store_cols K V cs ts ?p fs = (ts', Inr ()) \<and> valid_cols kview vview ty (insert ?p ?D) cs ts' \<and>
      lookup_cols kview vview cs ts' ?p = fs \<and> (\<forall>q\<in>?D. lookup_cols kview vview cs ts' q = lookup_cols kview vview cs ts q)"
    if "valid_cols kview vview ty ?D cs ts" "wf_fields ty ?p cs fs" "set cs \<subseteq> set cols" for cs ts fs
    using that
  proof (induction cs arbitrary: ts fs)
    case (Cons c cs)
    then obtain t ts' f fs' where *: "ts = t # ts'" "valid_col kview vview ty ?D c t" "valid_cols kview vview ty ?D cs ts'"
      "fs = f # fs'" "wf_field ty ?p c f" "wf_fields ty ?p cs fs'" by (cases ts; cases fs) auto
    from Ent.IH[OF _ *(2,5)] Cons.prems(3) Ent.prems(3) obtain t1 where
      1: "store_col K V c t ?p f = (t1, Inr ())" "valid_col kview vview ty (insert ?p ?D) c t1" "lookup_col kview vview c t1 ?p = f"
        "\<forall>q\<in>?D. lookup_col kview vview c t1 q = lookup_col kview vview c t q" by auto
    from Cons.IH[OF *(3,6)] Cons.prems(3) obtain ts1 where
      2: "store_cols K V cs ts' ?p fs' = (ts1, Inr ())" "valid_cols kview vview ty (insert ?p ?D) cs ts1"
        "lookup_cols kview vview cs ts1 ?p = fs'" "\<forall>q\<in>?D. lookup_cols kview vview cs ts1 q = lookup_cols kview vview cs ts' q" by auto
    from 1 2 *(1,4) show ?case by (intro exI[of _ "t1 # ts1"]) simp
  qed simp
  from cols[of cols "edb_tabs db" "inst_fields i"] Ent.prems obtain ts' where
    ts': "store_cols K V cols (edb_tabs db) ?p (inst_fields i) = (ts', Inr ())" "valid_cols kview vview ty (insert ?p ?D) cols ts'"
      "lookup_cols kview vview cols ts' ?p = inst_fields i"
      "\<forall>q\<in>?D. lookup_cols kview vview cols ts' q = lookup_cols kview vview cols (edb_tabs db) q" by auto
  from tables_okD(1)[OF assms, of "edb_keys db" ?p] obtain ks' where
    ks': "ins K (edb_keys db) ?p () = (ks', Inr ())" "kview ks' = (kview (edb_keys db))(?p \<mapsto> ())" by blast
  have "store K V (Ent root ty cols) db i = (Edb ks' ts', Inr ())" using ts'(1) ks'(1) by simp
  moreover have "valid kview vview (Ent root ty cols) (Edb ks' ts')" using Ent.prems(1,2) ts'(2) ks'(2) by auto
  moreover have "lookup kview vview (Ent root ty cols) (Edb ks' ts') = (lookup kview vview (Ent root ty cols) db)(?p \<mapsto> i)"
    using ts'(3,4) ks'(2) by (intro ext) (auto simp: einst.expand)
  moreover have "keys_of kview (Edb ks' ts') = insert ?p ?D" using ks'(2) by simp
  ultimately show ?case by blast
next
  case E_Value
  then obtain tb v where *: "t = Tab tb" "dom (vview tb) = D" "f = F_Value v" by (cases t; cases f) auto
  from tables_okD(2)[OF assms, of tb p v] obtain tb' where "ins V tb p v = (tb', Inr ())" "vview tb' = (vview tb)(p \<mapsto> v)" by blast
  with * E_Value.prems(3) show ?case by (intro exI[of _ "Tab tb'"]) auto
next
  case (E_One e)
  then obtain db i where *: "t = Sub db" "ent_key e = ty" "valid kview vview e db" "keys_of kview db = D"
    "f = F_One i" "inst_key i = p" "wf_inst e i" by (cases t; cases f) auto
  have "inst_key i \<notin> keys_of kview db" using *(4,6) E_One.prems(3) by blast
  from E_One.IH[OF *(3,7) this] obtain db' where
    "store K V e db i = (db', Inr ())" "stored kview vview e db i db'" by blast
  with * E_One.prems(3) show ?case by (intro exI[of _ "Sub db'"]) auto
next
  case (E_Opt e)
  then obtain db io where *: "t = Sub db" "ent_key e = ty" "valid kview vview e db" "keys_of kview db \<subseteq> D"
    "f = F_Opt io" "\<And>i. io = Some i \<Longrightarrow> inst_key i = p \<and> wf_inst e i" by (cases t; cases f) auto
  show ?case
  proof (cases io)
    case None
    have "lookup kview vview e db p = None" using lookup_Some[of p kview db vview e] *(4) E_Opt.prems(3) by auto
    with None * show ?thesis by (intro exI[of _ "Sub db"]) auto
  next
    case (Some i)
    have "inst_key i \<notin> keys_of kview db" "wf_inst e i" using *(4) *(6)[OF Some] E_Opt.prems(3) by blast+
    from E_Opt.IH[OF *(3) this(2,1)] obtain db' where
      "store K V e db i = (db', Inr ())" "stored kview vview e db i db'" by blast
    with * Some *(6)[OF Some] E_Opt.prems(3) show ?thesis by (intro exI[of _ "Sub db'"]) auto
  qed
next
  case (E_Many e)
  then obtain db w "is" where *: "t = Sub db" "ent_key e = Child_Ty ty w" "valid kview vview e db"
    "\<forall>c\<in>keys_of kview db. \<exists>p\<in>D. parent c = Some p" "f = F_Many is"
    "\<And>i. i \<in> set is \<Longrightarrow> parent (inst_key i) = Some p \<and> wf_inst e i" "sorted_wrt (<) (map inst_key is)"
    by (cases t; cases f) auto
  have none: "parent c \<noteq> Some p" if "c \<in> keys_of kview db" for c using bspec[OF *(4) that] E_Many.prems(3) by (metis option.inject)
  then have "inst_key ` set is \<inter> keys_of kview db = {}" using *(6) by blast
  with store_each_ok[of "is" kview vview e K V db] E_Many.IH *(3,6,7) obtain db' where
    db': "for_each (store K V e) db is = (db', Inr ())" "valid kview vview e db'"
      "keys_of kview db' = keys_of kview db \<union> inst_key ` set is" "\<forall>i\<in>set is. lookup kview vview e db' (inst_key i) = Some i"
      "\<forall>q. q \<notin> inst_key ` set is \<longrightarrow> lookup kview vview e db' q = lookup kview vview e db q"
    by (auto simp: strict_sorted_iff)
  have new: "children_of kview db' p = set (map inst_key is)" unfolding db'(3) set_map using *(6) none by blast
  have "sorted_list_of_set (children_of kview db' p) = map inst_key is"
    unfolding new using *(7) by (metis strict_sorted_equal strict_sorted_list_of_set set_sorted_list_of_set List.finite_set)
  then have "lookup_col kview vview (E_Many e) (Sub db') p = f" using *(5) db'(4) by (simp add: map_idI o_def)
  moreover have "lookup_col kview vview (E_Many e) (Sub db') q = lookup_col kview vview (E_Many e) (Sub db) q" if "q \<in> D" for q
  proof -
    have "q \<noteq> p" using that E_Many.prems(3) by blast
    then have others: "parent (inst_key i) \<noteq> Some q" if "i \<in> set is" for i using *(6)[OF that] by simp
    then have same: "children_of kview db' q = children_of kview db q" unfolding db'(3) by blast
    moreover have "lookup kview vview e db' c = lookup kview vview e db c" if "c \<in> children_of kview db q" for c
    proof -
      have "c \<notin> inst_key ` set is" using others that by auto
      with db'(5) show ?thesis by simp
    qed
    ultimately show ?thesis by (cases "finite (children_of kview db q)") auto
  qed
  moreover have "valid_col kview vview ty (insert p D) (E_Many e) (Sub db')" using *(2,4,6) db'(2,3) by auto
  ultimately show ?case using *(1,5) db'(1) by (intro exI[of _ "Sub db'"]) auto
qed

subsection \<open>Deleting removes keys from the map\<close>

text \<open>Deleting one key is deleting a list of one key.\<close>

lemma del_each_single: "del_each ops t [p] = (case del ops t p of (t', r) \<Rightarrow> (t', map_sum id (\<lambda>b. [b]) r))"
  by (auto split: prod.splits sum.splits)

lemma delete_single:
  shows "delete checks K V e db p = delete_many checks K V e db [p]"
    and "delete_col checks K V ty c t p = delete_many_col checks K V ty c t [p]"
proof (induction e and c arbitrary: db and ty t rule: ent.induct ecol.induct)
  case (Ent root ty cols)
  have cols: "delete_cols checks K V ty cs ts p = delete_many_cols checks K V ty cs ts [p]" if "set cs \<subseteq> set cols" for cs ts
    using that
  proof (induction cs arbitrary: ts)
    case (Cons c cs)
    then show ?case using Ent.IH[of c ty] by (cases ts) (simp_all split: option.split prod.split sum.split)
  qed simp
  then have "delete_cols checks K V ty cols (edb_tabs db) p = delete_many_cols checks K V ty cols (edb_tabs db) [p]" by simp
  then show ?case by (auto simp: del_each_single simp del: del_each.simps split: prod.splits sum.splits option.splits)
next
  case E_Value
  then show ?case by (cases t) (simp_all add: del_each_single del: del_each.simps split: prod.splits)
next
  case (E_One e)
  then show ?case by (cases t) simp_all
next
  case (E_Opt e)
  then show ?case by (cases t) simp_all
next
  case (E_Many e)
  show ?case by (cases t) (simp_all add: id_def split: option.splits sum.splits)
qed

lemma del_each_ok:
  assumes "\<And>t p. \<exists>t'. del ops t p = (t', Inr (p \<in> dom (view t))) \<and> view t' = (view t)(p := None)"
  shows "\<exists>t' bs. del_each ops t ps = (t', Inr bs) \<and> view t' = view t |` (- set ps) \<and>
           (distinct ps \<and> set ps \<subseteq> dom (view t) \<longrightarrow> False \<notin> set bs)"
proof (induction ps arbitrary: t)
  case (Cons p ps)
  from assms[of t p] obtain t1 where 1: "del ops t p = (t1, Inr (p \<in> dom (view t)))" "view t1 = (view t)(p := None)" by blast
  from Cons.IH[of t1] obtain t' bs where 2: "del_each ops t1 ps = (t', Inr bs)" "view t' = view t1 |` (- set ps)"
    "distinct ps \<and> set ps \<subseteq> dom (view t1) \<longrightarrow> False \<notin> set bs" by blast
  have "view t' = view t |` (- set (p # ps))" using 1(2) 2(2) by (auto simp: restrict_map_def)
  moreover have "False \<notin> set ((p \<in> dom (view t)) # bs)" if "distinct (p # ps)" "set (p # ps) \<subseteq> dom (view t)"
  proof -
    have "set ps \<subseteq> dom (view t1)" using that 1(2) by auto
    with that 2(3) show ?thesis by auto
  qed
  ultimately show ?case using 1(1) 2(1) by simp
qed (simp add: restrict_map_def)

lemma child_pks_ok:
  assumes "tables_ok K V kview vview" and "\<forall>p\<in>set ps. key_ok ty p" and "\<forall>c\<in>keys_of kview db. well_typed (Child_Ty ty w) c"
  shows "\<exists>cs. child_pks checks K ty (edb_keys db) ps = Some (Inr cs) \<and> set cs = (\<Union>p\<in>set ps. children_of kview db p) \<and>
           (distinct ps \<longrightarrow> distinct cs)"
  using assms(2)
proof (induction ps)
  case (Cons p ps)
  from children_rows[OF assms(1) _ assms(3), of p checks] Cons.prems obtain a b rows where
    r: "fk_range checks ty p = Some (a, b)" "tbl_range K (edb_keys db) a b = Inr rows" "finite (children_of kview db p)"
      "map fst rows = sorted_list_of_set (children_of kview db p)" by auto
  from Cons obtain cs where cs: "child_pks checks K ty (edb_keys db) ps = Some (Inr cs)"
    "set cs = (\<Union>p\<in>set ps. children_of kview db p)" "distinct ps \<longrightarrow> distinct cs" by auto
  have "set (map fst rows) = children_of kview db p" "distinct (map fst rows)" using r(3,4) by simp_all
  moreover have "children_of kview db p \<inter> (\<Union>q\<in>set ps. children_of kview db q) = {}" if "p \<notin> set ps" using that by auto
  ultimately show ?case using r(1,2) cs by (auto simp: pk_range_def)
qed simp

abbreviation removed_from ::
    "('s \<Rightarrow> pointer \<rightharpoonup> unit) \<Rightarrow> ('t \<Rightarrow> pointer \<rightharpoonup> 'v) \<Rightarrow> ent \<Rightarrow> ('s, 't) edb \<Rightarrow> pointer list \<Rightarrow> ('s, 't) edb \<Rightarrow> bool" where
  "removed_from kview vview e db ps db' \<equiv>
     valid kview vview e db' \<and> keys_of kview db' = keys_of kview db - set ps \<and>
     lookup kview vview e db' = lookup kview vview e db |` (- set ps)"

lemma delete_many_ok:
  fixes V :: "('t, pointer, 'v) table_ops"
  assumes "tables_ok K V kview vview"
  shows "valid kview vview e db \<Longrightarrow> \<forall>p\<in>set ps. key_ok (ent_key e) p \<Longrightarrow>
           \<exists>db' b. delete_many checks K V e db ps = Some (db', Inr b) \<and> removed_from kview vview e db ps db' \<and>
             (distinct ps \<and> set ps \<subseteq> keys_of kview db \<longrightarrow> b)"
    and "valid_col kview vview ty D c t \<Longrightarrow> \<forall>p\<in>set ps. key_ok ty p \<Longrightarrow>
           \<exists>t' bs. delete_many_col checks K V ty c t ps = Some (t', Inr bs) \<and> valid_col kview vview ty (D - set ps) c t' \<and>
             (\<forall>q\<in>D - set ps. lookup_col kview vview c t' q = lookup_col kview vview c t q) \<and>
             (distinct ps \<and> set ps \<subseteq> D \<longrightarrow> False \<notin> set bs)"
proof (induction e and c arbitrary: db ps and ty D t ps rule: ent.induct ecol.induct)
  case (Ent root ty cols)
  let ?D = "keys_of kview db"
  have cols: "\<exists>ts' bs. delete_many_cols checks K V ty cs ts ps = Some (ts', Inr bs) \<and> valid_cols kview vview ty (?D - set ps) cs ts' \<and>
      (\<forall>q\<in>?D - set ps. lookup_cols kview vview cs ts' q = lookup_cols kview vview cs ts q) \<and>
      (distinct ps \<and> set ps \<subseteq> ?D \<longrightarrow> False \<notin> set bs)"
    if "valid_cols kview vview ty ?D cs ts" "set cs \<subseteq> set cols" for cs ts
    using that
  proof (induction cs arbitrary: ts)
    case (Cons c cs)
    then obtain t ts1 where *: "ts = t # ts1" "valid_col kview vview ty ?D c t" "valid_cols kview vview ty ?D cs ts1"
      by (cases ts) auto
    from Ent.IH[OF _ *(2), of ps] Cons.prems(2) Ent.prems(2) obtain t' bs where
      1: "delete_many_col checks K V ty c t ps = Some (t', Inr bs)" "valid_col kview vview ty (?D - set ps) c t'"
        "\<forall>q\<in>?D - set ps. lookup_col kview vview c t' q = lookup_col kview vview c t q" "distinct ps \<and> set ps \<subseteq> ?D \<longrightarrow> False \<notin> set bs"
      by (auto simp del: valid_col.simps lookup_col.simps)
    from Cons.IH[OF *(3)] Cons.prems(2) obtain ts' bs' where
      2: "delete_many_cols checks K V ty cs ts1 ps = Some (ts', Inr bs')" "valid_cols kview vview ty (?D - set ps) cs ts'"
        "\<forall>q\<in>?D - set ps. lookup_cols kview vview cs ts' q = lookup_cols kview vview cs ts1 q"
        "distinct ps \<and> set ps \<subseteq> ?D \<longrightarrow> False \<notin> set bs'" by auto
    from 1 2 *(1) show ?case by (intro exI[of _ "t' # ts'"] exI[of _ "bs @ bs'"]) auto
  qed simp
  from cols[of cols "edb_tabs db"] Ent.prems(1) obtain ts' bs where
    ts': "delete_many_cols checks K V ty cols (edb_tabs db) ps = Some (ts', Inr bs)" "valid_cols kview vview ty (?D - set ps) cols ts'"
      "\<forall>q\<in>?D - set ps. lookup_cols kview vview cols ts' q = lookup_cols kview vview cols (edb_tabs db) q"
      "distinct ps \<and> set ps \<subseteq> ?D \<longrightarrow> False \<notin> set bs" by auto
  from del_each_ok[of K kview "edb_keys db" ps] tables_okD(5)[OF assms] obtain ks' bs' where
    ks': "del_each K (edb_keys db) ps = (ks', Inr bs')" "kview ks' = kview (edb_keys db) |` (- set ps)"
      "distinct ps \<and> set ps \<subseteq> ?D \<longrightarrow> False \<notin> set bs'" by blast
  let ?db = "Edb ks' ts'"
  have keys: "keys_of kview ?db = ?D - set ps" using ks'(2) by auto
  have "\<exists>b. delete_many checks K V (Ent root ty cols) db ps = Some (?db, Inr b) \<and> (distinct ps \<and> set ps \<subseteq> ?D \<longrightarrow> b)"
    using ts'(1,4) ks'(1,3) by auto
  moreover have "valid kview vview (Ent root ty cols) ?db"
    using Ent.prems(1) ts'(2) keys by (metis DiffD1 edb.sel(2) valid.simps)
  moreover have "lookup kview vview (Ent root ty cols) ?db = lookup kview vview (Ent root ty cols) db |` (- set ps)"
    using ts'(3) keys by (intro ext) (simp add: restrict_map_def)
  ultimately show ?case using keys by blast
next
  case E_Value
  then obtain tb where tb: "t = Tab tb" "dom (vview tb) = D" by (cases t) auto
  from del_each_ok[of V vview tb ps] tables_okD(6)[OF assms] obtain tb' bs where
    r: "del_each V tb ps = (tb', Inr bs)" "vview tb' = vview tb |` (- set ps)" "distinct ps \<and> set ps \<subseteq> dom (vview tb) \<longrightarrow> False \<notin> set bs"
    by blast
  then show ?case using tb by (intro exI[of _ "Tab tb'"] exI[of _ bs]) auto
next
  case (E_One e)
  then obtain db where db: "t = Sub db" "ent_key e = ty" "valid kview vview e db" "keys_of kview db = D" by (cases t) auto
  from E_One.IH[OF db(3)] E_One.prems(2) db(2) obtain db' b where
    r: "delete_many checks K V e db ps = Some (db', Inr b)" "removed_from kview vview e db ps db'"
      "distinct ps \<and> set ps \<subseteq> keys_of kview db \<longrightarrow> b" by blast
  then show ?case using db by (intro exI[of _ "Sub db'"] exI[of _ "[b]"]) auto
next
  case (E_Opt e)
  then obtain db where db: "t = Sub db" "ent_key e = ty" "valid kview vview e db" "keys_of kview db \<subseteq> D" by (cases t) auto
  from E_Opt.IH[OF db(3)] E_Opt.prems(2) db(2) obtain db' b where
    r: "delete_many checks K V e db ps = Some (db', Inr b)" "removed_from kview vview e db ps db'" by blast
  then show ?case using db by (intro exI[of _ "Sub db'"] exI[of _ "[]"]) auto
next
  case (E_Many e)
  then obtain db w where db: "t = Sub db" "ent_key e = Child_Ty ty w" "valid kview vview e db"
    "\<forall>c\<in>keys_of kview db. \<exists>p\<in>D. parent c = Some p" by (cases t) auto
  have typed: "\<forall>c\<in>keys_of kview db. well_typed (Child_Ty ty w) c" using valid_keys[OF db(3)] db(2) by (auto simp: key_ok_def)
  from child_pks_ok[OF assms E_Many.prems(2) typed, of checks] obtain cs where
    cs: "child_pks checks K ty (edb_keys db) ps = Some (Inr cs)" "set cs = (\<Union>p\<in>set ps. children_of kview db p)" "distinct ps \<longrightarrow> distinct cs"
    by blast
  have sub: "set cs \<subseteq> keys_of kview db" using cs(2) by blast
  then have "\<forall>c\<in>set cs. key_ok (ent_key e) c" using valid_keys[OF db(3)] by blast
  from E_Many.IH[OF db(3) this] obtain db' b where
    r: "delete_many checks K V e db cs = Some (db', Inr b)" "removed_from kview vview e db cs db'"
      "distinct cs \<and> set cs \<subseteq> keys_of kview db \<longrightarrow> b" by blast
  have keys: "keys_of kview db' = keys_of kview db - set cs" using r(2) by blast
  have left: "c \<in> keys_of kview db' \<longleftrightarrow> c \<in> keys_of kview db \<and> (\<forall>p\<in>set ps. parent c \<noteq> Some p)" for c
    unfolding keys cs(2) by blast
  have "lookup_col kview vview (E_Many e) (Sub db') q = lookup_col kview vview (E_Many e) (Sub db) q" if "q \<in> D - set ps" for q
  proof -
    have same: "children_of kview db' q = children_of kview db q"
      by (rule Collect_cong) (use left that in \<open>metis DiffD2 option.inject\<close>)
    moreover have "lookup kview vview e db' c = lookup kview vview e db c" if "c \<in> children_of kview db q" for c
    proof -
      have "c \<in> keys_of kview db'" using that same by blast
      then have "c \<notin> set cs" unfolding keys by blast
      with r(2) show ?thesis by (simp add: restrict_map_def)
    qed
    ultimately show ?thesis by (cases "finite (children_of kview db q)") auto
  qed
  moreover have "valid_col kview vview ty (D - set ps) (E_Many e) (Sub db')"
  proof -
    have "\<exists>p\<in>D - set ps. parent c = Some p" if "c \<in> keys_of kview db'" for c
      using db(4) left[of c] that by (metis DiffI)
    then show ?thesis using db(2) r(2) by auto
  qed
  moreover have "delete_many_col checks K V ty (E_Many e) t ps = Some (Sub db', Inr [b])" using db(1) cs(1) r(1) by simp
  ultimately show ?case using db(1) r(3) sub cs(3) by (intro exI[of _ "Sub db'"] exI[of _ "[b]"]) auto
qed

subsection \<open>The interface of an entity\<close>

text \<open>
  What the code above an entity relies on: it is a map from keys to instances, whose operations succeed.
\<close>

locale entity_map =
  fixes store_op :: "'db \<Rightarrow> 'i \<Rightarrow> 'db \<times> unit res"
    and get_op :: "'db \<Rightarrow> pointer \<Rightarrow> 'i option res option"
    and delete_op :: "'db \<Rightarrow> pointer \<Rightarrow> ('db \<times> bool res) option"
    and range_op :: "'db \<Rightarrow> pointer \<Rightarrow> pointer \<Rightarrow> 'i list res option"
    and inv :: "'db \<Rightarrow> bool"
    and contents :: "'db \<Rightarrow> pointer \<rightharpoonup> 'i"
    and inst_ok :: "'i \<Rightarrow> bool"
    and pk_of :: "'i \<Rightarrow> pointer"
    and pk_ok :: "pointer \<Rightarrow> bool"
  assumes get_law: "inv db \<Longrightarrow> get_op db p = Some (Inr (contents db p))"
    and store_law: "inv db \<Longrightarrow> inst_ok i \<Longrightarrow> contents db (pk_of i) = None \<Longrightarrow>
           \<exists>db'. store_op db i = (db', Inr ()) \<and> inv db' \<and> contents db' = (contents db)(pk_of i \<mapsto> i)"
    and delete_law: "inv db \<Longrightarrow> pk_ok p \<Longrightarrow>
           \<exists>db' b. delete_op db p = Some (db', Inr b) \<and> inv db' \<and> contents db' = (contents db)(p := None) \<and>
             (contents db p \<noteq> None \<longrightarrow> b)"
    and range_law: "inv db \<Longrightarrow>
           finite {k \<in> dom (contents db). a \<le> k \<and> k < b} \<and>
           range_op db a b = Some (Inr (map (\<lambda>k. the (contents db k)) (sorted_list_of_set {k \<in> dom (contents db). a \<le> k \<and> k < b})))"
    and inst_pk_ok: "inst_ok i \<Longrightarrow> pk_ok (pk_of i)"
    and contents_pk: "inv db \<Longrightarrow> contents db p = Some i \<Longrightarrow> pk_of i = p"
begin

lemma store_all_law:
  assumes "inv db" and "\<forall>i\<in>set is. inst_ok i \<and> contents db (pk_of i) = None" and "distinct (map pk_of is)"
  shows "\<exists>db'. for_each store_op db is = (db', Inr ()) \<and> inv db' \<and> contents db' = contents db ++ map_of (map (\<lambda>i. (pk_of i, i)) is)"
  using assms
proof (induction "is" arbitrary: db)
  case (Cons i "is")
  from store_law[OF Cons.prems(1)] Cons.prems(2) obtain db1 where
    1: "store_op db i = (db1, Inr ())" "inv db1" "contents db1 = (contents db)(pk_of i \<mapsto> i)" by auto
  have "\<forall>j\<in>set is. inst_ok j \<and> contents db1 (pk_of j) = None" using Cons.prems(2,3) 1(3) by (force simp: image_iff)
  from Cons.IH[OF 1(2) this] Cons.prems(3) obtain db' where
    2: "for_each store_op db1 is = (db', Inr ())" "inv db'" "contents db' = contents db1 ++ map_of (map (\<lambda>i. (pk_of i, i)) is)" by auto
  have "map_of (map (\<lambda>i. (pk_of i, i)) is) (pk_of i) = None" using Cons.prems(3) by (auto simp: map_of_eq_None_iff)
  then have "contents db' = contents db ++ map_of (map (\<lambda>i. (pk_of i, i)) (i # is))"
    unfolding 2(3) 1(3) by (auto simp: fun_eq_iff map_add_def split: option.splits)
  moreover have "for_each store_op db (i # is) = (db', Inr ())" using 1(1) 2(1) by simp
  ultimately show ?case using 2(2) by blast
qed simp

end

lemma get_ok:
  assumes "tables_ok K V kview vview" and "valid kview vview e db"
  shows "get checks K V e db p = Some (Inr (lookup kview vview e db p))"
proof (cases "p \<in> keys_of kview db")
  case True
  with compose_ok(1)[OF assms this] lookup_Some[of p kview db vview e] tables_okD(3)[OF assms(1)] show ?thesis
    by (auto simp: get_def get_with_def)
next
  case False
  then have "kview (edb_keys db) p = None" "lookup kview vview e db p = None" using lookup_Some[of p kview db vview e] by auto
  with tables_okD(3)[OF assms(1)] show ?thesis by (simp add: get_def get_with_def)
qed

lemma dom_lookup: "dom (lookup kview vview e db) = keys_of kview db"
  using lookup_Some[of _ kview db vview e] by blast

lemma range_ok:
  assumes "tables_ok K V kview vview" and "valid kview vview e db"
  shows "finite {k \<in> keys_of kview db. a \<le> k \<and> k < b} \<and>
         range_ent checks K V e db a b =
           Some (Inr (map (\<lambda>k. the (lookup kview vview e db k)) (sorted_list_of_set {k \<in> keys_of kview db. a \<le> k \<and> k < b})))"
proof -
  from range_rows[OF assms(1), of "edb_keys db" a b] obtain rows where
    rows: "tbl_range K (edb_keys db) a b = Inr rows" and fin: "finite {k \<in> keys_of kview db. a \<le> k \<and> k < b}"
    and fst: "map fst rows = sorted_list_of_set {k \<in> keys_of kview db. a \<le> k \<and> k < b}" by blast
  have "collect (compose checks K V e db) (map fst rows) = Some (Inr (map (\<lambda>k. the (lookup kview vview e db k)) (map fst rows)))"
    by (rule compose_all_ok) (use compose_ok(1)[OF assms] fin in \<open>simp add: fst\<close>)
  with rows fin fst show ?thesis by (simp add: range_ent_def range_with_def)
qed

lemma lookup_key: "lookup kview vview e db p = Some i \<Longrightarrow> inst_key i = p"
  by (cases e) (auto split: if_splits)

interpretation entity: entity_map "store K V e" "get checks K V e" "delete checks K V e" "range_ent checks K V e"
  "\<lambda>db. tables_ok K V kview vview \<and> valid kview vview e db" "lookup kview vview e" "wf_inst e" inst_key "key_ok (ent_key e)"
  for checks K V e kview vview
proof (unfold_locales, goal_cases)
  case (1 db p)
  then show ?case using get_ok by blast
next
  case (2 db i)
  then show ?case using store_ok(1)[of K V kview vview e db i] lookup_Some[of "inst_key i" kview db vview e] by blast
next
  case (3 db p)
  then obtain db' b where "delete_many checks K V e db [p] = Some (db', Inr b)" "removed_from kview vview e db [p] db'"
    "distinct [p] \<and> set [p] \<subseteq> keys_of kview db \<longrightarrow> b"
    using delete_many_ok(1)[of K V kview vview e db "[p]" checks] by auto
  moreover have "lookup kview vview e db |` (- set [p]) = (lookup kview vview e db)(p := None)"
    by (auto simp: restrict_map_def)
  ultimately show ?case using 3 lookup_Some[of p kview db vview e]
    by (auto simp: delete_single(1))
next
  case (4 db a b)
  then show ?case using range_ok[of K V kview vview e db a b checks] by (simp add: dom_lookup)
next
  case (5 i)
  then show ?case by (cases e) simp
next
  case (6 db p i)
  then show ?case using lookup_key by blast
qed

subsection \<open>Properties\<close>


text \<open>
  C2. Deleting an entity removes it with everything it owns: on consistent tables, deleting any keys of the
  entity succeeds and keeps the tables consistent, without rows of owned entities whose owner is gone;
  the deleted keys read as absent, every other key reads as before, and the flag is true when the keys
  were distinct and present.
\<close>

theorem entity_delete_removes:
  assumes "tables_ok K V kview vview" and "valid kview vview e db" and "\<forall>p\<in>set ps. key_ok (ent_key e) p"
  shows "\<exists>db' b. delete_many checks K V e db ps = Some (db', Inr b) \<and> valid kview vview e db' \<and>
           (\<forall>q. get checks K V e db' q = (if q \<in> set ps then Some (Inr None) else get checks K V e db q)) \<and>
           (distinct ps \<and> (\<forall>p\<in>set ps. exists_key K db p = Inr True) \<longrightarrow> b)"
proof -
  from delete_many_ok(1)[OF assms, of checks] obtain db' b where
    r: "delete_many checks K V e db ps = Some (db', Inr b)" "removed_from kview vview e db ps db'"
      "distinct ps \<and> set ps \<subseteq> keys_of kview db \<longrightarrow> b" by blast
  have "exists_key K db p = Inr True \<longleftrightarrow> p \<in> keys_of kview db" for p
    using tables_okD(3)[OF assms(1)] by (auto simp: exists_key_def)
  with r assms(1,2) show ?thesis by (intro exI[of _ db'] exI[of _ b]) (auto simp: get_ok restrict_map_def)
qed

text \<open>
  C30. A range of entities is complete and in key order: on consistent tables \<open>range\<close> returns the instances of
  all keys from the lower bound up to and without the upper bound, in ascending order of their keys, each as
  \<open>get\<close> composes it.
\<close>

theorem entity_range_sorted:
  assumes "tables_ok K V kview vview" and "valid kview vview e db"
  shows "\<exists>is. range_ent checks K V e db a b = Some (Inr is) \<and> sorted_wrt (<) (map inst_key is) \<and>
           (\<forall>i. i \<in> set is \<longleftrightarrow> a \<le> inst_key i \<and> inst_key i < b \<and> get checks K V e db (inst_key i) = Some (Inr (Some i)))"
proof -
  let ?S = "{k \<in> keys_of kview db. a \<le> k \<and> k < b}"
  let ?is = "map (\<lambda>k. the (lookup kview vview e db k)) (sorted_list_of_set ?S)"
  have fin: "finite ?S" and r: "range_ent checks K V e db a b = Some (Inr ?is)"
    using range_ok[OF assms, of a b checks] by blast+
  have look: "\<exists>i. lookup kview vview e db k = Some i \<and> inst_key i = k" if "k \<in> keys_of kview db" for k
    using that lookup_Some[of k kview db vview e] lookup_key by blast
  then have "map inst_key ?is = sorted_list_of_set ?S"
    using fin by (force simp: o_def intro!: map_idI)
  moreover have "i \<in> set ?is \<longleftrightarrow> a \<le> inst_key i \<and> inst_key i < b \<and> lookup kview vview e db (inst_key i) = Some i" for i
    using look lookup_Some[of "inst_key i" kview db vview e] fin by (force simp: image_iff)
  ultimately show ?thesis using r assms by (intro exI[of _ ?is]) (simp add: get_ok)
qed

subsection \<open>A concrete entity\<close>

text \<open>A block with one value, its header, and transactions that each have one value.\<close>

definition demo_block :: ent where
  "demo_block = Ent True (Root_Ty 4) [E_Value, E_One (Ent False (Root_Ty 4) [E_Value]), E_Many (Ent False (Child_Ty (Root_Ty 4) 2) [E_Value])]"

abbreviation demo_keys :: "((pointer \<times> unit) list, pointer, unit) table_ops" where
  "demo_keys \<equiv> alist_table_ops"

abbreviation demo_vals :: "((pointer \<times> nat) list, pointer, nat) table_ops" where
  "demo_vals \<equiv> alist_table_ops"

definition demo_db :: "((pointer \<times> unit) list, (pointer \<times> nat) list) edb" where
  "demo_db = Edb [] [Tab [], Sub (Edb [] [Tab []]), Sub (Edb [] [Tab []])]"

definition demo_inst :: "nat \<Rightarrow> nat einst" where
  "demo_inst h =
     Einst (Root h)
       [F_Value 7, F_One (Einst (Root h) [F_Value 8]),
        F_Many [Einst (Child (Root h) 0) [F_Value 9], Einst (Child (Root h) 3) [F_Value 10]]]"

lemma demo_tables: "tables_ok demo_keys demo_vals map_of map_of"
  by (simp add: tables_ok_def alist_table_ok)

lemma demo_valid: "valid map_of map_of demo_block demo_db"
  by (simp add: demo_block_def demo_db_def)

lemma demo_wf: "h < 1000 \<Longrightarrow> wf_inst demo_block (demo_inst h)"
  by (auto simp: demo_block_def demo_inst_def key_ok_def add_index_def)


definition demo_db1 :: "((pointer \<times> unit) list, (pointer \<times> nat) list) edb" where
  "demo_db1 =
     Edb [(Root 5, ())]
       [Tab [(Root 5, 7)], Sub (Edb [(Root 5, ())] [Tab [(Root 5, 8)]]),
        Sub (Edb [(Child (Root 5) 3, ()), (Child (Root 5) 0, ())] [Tab [(Child (Root 5) 3, 10), (Child (Root 5) 0, 9)]])]"

lemma demo_valid1: "valid map_of map_of demo_block demo_db1"
  by (auto simp: demo_block_def demo_db1_def key_ok_def add_index_def split: if_splits)

theorem entity_delete_removes_witness:
  "\<exists>db' b. delete_many True demo_keys demo_vals demo_block demo_db1 [Root 5] = Some (db', Inr b) \<and>
     get True demo_keys demo_vals demo_block db' (Root 5) = Some (Inr None) \<and> b"
proof -
  have "\<forall>p\<in>set [Root 5]. key_ok (ent_key demo_block) p" by (simp add: demo_block_def key_ok_def add_index_def)
  from entity_delete_removes[OF demo_tables demo_valid1 this, of True] show ?thesis
    by (auto simp: exists_key_def alist_table_ops_def demo_db1_def)
qed

theorem entity_range_sorted_witness:
  "\<exists>is. range_ent True demo_keys demo_vals demo_block demo_db1 (Root 0) (Root 9) = Some (Inr is) \<and> sorted_wrt (<) (map inst_key is)"
  using entity_range_sorted[OF demo_tables demo_valid1, of True "Root 0" "Root 9"] by blast

end
