(* ===== verification/Entity_Query.thy ===== *)
theory Entity_Query
  imports Entity_Refine
begin

section \<open>Queries over entities\<close>

text \<open>
  The reading functions of an entity beside \<open>get\<close> and \<open>range\<close>: composing under a filter query
  (\<open>compose_with_filter\<close>, \<open>filter\<close>, and \<open>compose_many\<close> with a query, \<open>macros/src/entity/compose.rs\<close>, \<open>pk/filter.rs\<close>,
  the \<open>_init_with_query\<close> templates), the first and the last entities (\<open>pk/first.rs\<close>, \<open>last.rs\<close>, \<open>take.rs\<close>,
  \<open>tail.rs\<close>), and lookups by the value of an indexed column (\<open>column/get_by.rs\<close>).

  The query of an entity has one entry per column, in the order of the columns: a filter for a value, a
  query for the entities of a relationship, or nothing. The key has none.
\<close>

subsection \<open>Filters\<close>

datatype 'v filter_op = Eq 'v | Ne 'v | Lt 'v | Le 'v | Gt 'v | Ge 'v | In "'v list"

fun matches :: "'v::order filter_op \<Rightarrow> 'v \<Rightarrow> bool" where
  "matches (Eq expected) v \<longleftrightarrow> v = expected"
| "matches (Ne expected) v \<longleftrightarrow> v \<noteq> expected"
| "matches (Lt expected) v \<longleftrightarrow> v < expected"
| "matches (Le expected) v \<longleftrightarrow> v \<le> expected"
| "matches (Gt expected) v \<longleftrightarrow> v > expected"
| "matches (Ge expected) v \<longleftrightarrow> v \<ge> expected"
| "matches (In options) v \<longleftrightarrow> v \<in> set options"

datatype 'v fquery = Query "'v fcol list"
and 'v fcol = Q_Value "'v filter_op option" | Q_Child "'v fquery option"

subsection \<open>Composing under a query\<close>

text \<open>\<open>if let Ok(Some(item)) = compose_with_filter(..)\<close>: an error of one entity skips the entity.\<close>

fun keep_matching :: "('x \<Rightarrow> 'y option res option) \<Rightarrow> 'x list \<Rightarrow> 'y list option" where
  "keep_matching f [] = Some []"
| "keep_matching f (x # xs) =
     (case f x of
        None \<Rightarrow> None
      | Some (Inr (Some y)) \<Rightarrow> map_option (\<lambda>ys. y # ys) (keep_matching f xs)
      | Some _ \<Rightarrow> keep_matching f xs)"

definition filter_with ::
    "('s, pointer, unit) table_ops \<Rightarrow> 's \<Rightarrow> (pointer \<Rightarrow> 'i option res option) \<Rightarrow> pointer \<Rightarrow> 'i option res option" where
  "filter_with K ks composer p =
     (case tbl_get K ks p of
        Inl e \<Rightarrow> Some (Inl e)
      | Inr None \<Rightarrow> Some (Inr None)
      | Inr (Some _) \<Rightarrow> composer p)"

definition range_matching ::
    "('s, pointer, unit) table_ops \<Rightarrow> 's \<Rightarrow> (pointer \<Rightarrow> 'i option res option) \<Rightarrow> pointer \<Rightarrow> pointer \<Rightarrow> 'i list res option" where
  "range_matching K ks composer a b =
     (case tbl_range K ks a b of Inl e \<Rightarrow> Some (Inl e) | Inr rows \<Rightarrow> map_option Inr (keep_matching composer (map fst rows)))"

fun compose_with_filter ::
    "bool \<Rightarrow> ('s, pointer, unit) table_ops \<Rightarrow> ('t, pointer, 'v::order) table_ops \<Rightarrow> ent \<Rightarrow> ('s, 't) edb \<Rightarrow> 'v fquery \<Rightarrow> pointer \<Rightarrow>
     'v einst option res option"
  and filter_cols ::
    "bool \<Rightarrow> ('s, pointer, unit) table_ops \<Rightarrow> ('t, pointer, 'v) table_ops \<Rightarrow> ptr_ty \<Rightarrow> ecol list \<Rightarrow> ('s, 't) etab list \<Rightarrow> 'v fcol list \<Rightarrow> pointer \<Rightarrow>
     'v efield list option res option"
  and filter_col ::
    "bool \<Rightarrow> ('s, pointer, unit) table_ops \<Rightarrow> ('t, pointer, 'v) table_ops \<Rightarrow> ptr_ty \<Rightarrow> ecol \<Rightarrow> ('s, 't) etab \<Rightarrow> 'v fcol \<Rightarrow> pointer \<Rightarrow>
     'v efield option res option" where
  "compose_with_filter checks K V (Ent root ty cols) db q p =
     (case q of Query qs \<Rightarrow> map_option (map_sum id (map_option (Einst p))) (filter_cols checks K V ty cols (edb_tabs db) qs p))"
| "filter_cols checks K V ty [] ts qs p = Some (Inr (Some []))"
| "filter_cols checks K V ty (c # cs) ts qs p =
     (if ts = [] \<or> qs = [] then Some (Inr (Some []))
      else (case filter_col checks K V ty c (hd ts) (hd qs) p of
              None \<Rightarrow> None
            | Some (Inl e) \<Rightarrow> Some (Inl e)
            | Some (Inr None) \<Rightarrow> Some (Inr None)
            | Some (Inr (Some f)) \<Rightarrow>
                map_option (map_sum id (map_option (\<lambda>fs. f # fs))) (filter_cols checks K V ty cs (tl ts) (tl qs) p)))"
| "filter_col checks K V ty E_Value t q p =
     (case t of
        Tab tb \<Rightarrow>
          Some (case tbl_get V tb p of
                  Inl e \<Rightarrow> Inl e
                | Inr None \<Rightarrow> Inl (NotFound ''missing pk'')
                | Inr (Some v) \<Rightarrow>
                    (case q of
                       Q_Value (Some filter_op) \<Rightarrow> if \<not> matches filter_op v then Inr None else Inr (Some (F_Value v))
                     | _ \<Rightarrow> Inr (Some (F_Value v))))
      | Sub db \<Rightarrow> None)"
| "filter_col checks K V ty (E_One e) t q p =
     (case t of
        Sub db \<Rightarrow>
          (case q of
             Q_Child (Some cq) \<Rightarrow>
               map_option (map_sum id (map_option F_One)) (filter_with K (edb_keys db) (compose_with_filter checks K V e db cq) p)
           | _ \<Rightarrow> map_option (map_sum id Some) (compose_col checks K V ty (E_One e) t p))
      | Tab tb \<Rightarrow> None)"
| "filter_col checks K V ty (E_Opt e) t q p =
     (case t of
        Sub db \<Rightarrow>
          (case q of
             Q_Child (Some cq) \<Rightarrow>
               map_option (map_sum id (map_option (\<lambda>i. F_Opt (Some i))))
                 (filter_with K (edb_keys db) (compose_with_filter checks K V e db cq) p)
           | _ \<Rightarrow> map_option (map_sum id Some) (compose_col checks K V ty (E_Opt e) t p))
      | Tab tb \<Rightarrow> None)"
| "filter_col checks K V ty (E_Many e) t q p =
     (case t of
        Sub db \<Rightarrow>
          (case fk_range checks ty p of
             None \<Rightarrow> None
           | Some (a, b) \<Rightarrow>
               map_option (map_sum id (\<lambda>children. if children = [] then None else Some (F_Many children)))
                 (case q of
                    Q_Child (Some cq) \<Rightarrow> range_matching K (edb_keys db) (compose_with_filter checks K V e db cq) a b
                  | _ \<Rightarrow> range_with K (edb_keys db) (compose checks K V e db) a b))
      | Tab tb \<Rightarrow> None)"

definition filter_ent ::
    "bool \<Rightarrow> ('s, pointer, unit) table_ops \<Rightarrow> ('t, pointer, 'v::order) table_ops \<Rightarrow> ent \<Rightarrow> ('s, 't) edb \<Rightarrow> pointer \<Rightarrow> 'v fquery \<Rightarrow>
     'v einst option res option" where
  "filter_ent checks K V e db p q = filter_with K (edb_keys db) (compose_with_filter checks K V e db q) p"

definition range_query ::
    "bool \<Rightarrow> ('s, pointer, unit) table_ops \<Rightarrow> ('t, pointer, 'v::order) table_ops \<Rightarrow> ent \<Rightarrow> ('s, 't) edb \<Rightarrow> pointer \<Rightarrow> pointer \<Rightarrow>
     'v fquery option \<Rightarrow> 'v einst list res option" where
  "range_query checks K V e db a b query =
     (case query of
        Some q \<Rightarrow> range_matching K (edb_keys db) (compose_with_filter checks K V e db q) a b
      | None \<Rightarrow> range_ent checks K V e db a b)"

subsection \<open>First and last entities\<close>

text \<open>The parameters \<open>first_key\<close> and \<open>last_key\<close> are the smallest and the largest key of a key table.\<close>

definition edge_ent ::
    "bool \<Rightarrow> ('s, pointer, unit) table_ops \<Rightarrow> ('t, pointer, 'v) table_ops \<Rightarrow> ent \<Rightarrow> ('s, 't) edb \<Rightarrow> ('s \<Rightarrow> pointer option res) \<Rightarrow>
     'v einst option res option" where
  "edge_ent checks K V e db edge_key =
     (case edge_key (edb_keys db) of
        Inl er \<Rightarrow> Some (Inl er)
      | Inr None \<Rightarrow> Some (Inr None)
      | Inr (Some k) \<Rightarrow> map_option (map_sum id Some) (compose checks K V e db k))"

definition take_ent ::
    "bool \<Rightarrow> ('s, pointer, unit) table_ops \<Rightarrow> ('t, pointer, 'v) table_ops \<Rightarrow> ent \<Rightarrow> ('s, 't) edb \<Rightarrow> ('s \<Rightarrow> pointer list res) \<Rightarrow> usize \<Rightarrow>
     'v einst list res option" where
  "take_ent checks K V e db iter_keys n =
     (if n > 100 then Some (Inl (Internal ''Cannot take more than 100 entities at once''))
      else (case iter_keys (edb_keys db) of
              Inl er \<Rightarrow> Some (Inl er)
            | Inr ks \<Rightarrow> collect (compose checks K V e db) (take n ks)))"

text \<open>The last entries of the range below the last key, at most \<open>n\<close>, read backwards and reversed again.\<close>

definition tail_ent ::
    "bool \<Rightarrow> ('s, pointer, unit) table_ops \<Rightarrow> ('t, pointer, 'v) table_ops \<Rightarrow> ent \<Rightarrow> ('s, 't) edb \<Rightarrow> ('s \<Rightarrow> pointer option res) \<Rightarrow> usize \<Rightarrow>
     'v einst list res option" where
  "tail_ent checks K V e db last_key n =
     (if n = 0 then Some (Inr [])
      else if n > 100 then Some (Inl (Internal ''Cannot take more than 100 entities at once''))
      else (case last_key (edb_keys db) of
              Inl er \<Rightarrow> Some (Inl er)
            | Inr None \<Rightarrow> Some (Inr [])
            | Inr (Some k) \<Rightarrow>
                (case next_index checks (ent_key e) k of
                   None \<Rightarrow> None
                 | Some until \<Rightarrow>
                     (case tbl_range K (edb_keys db) (rollback_or_init until n) until of
                        Inl er \<Rightarrow> Some (Inl er)
                      | Inr rows \<Rightarrow> collect (compose checks K V e db) (rev (take n (rev (map fst rows))))))))"

text \<open>The entities of the keys that an index or a dictionary has for a value.\<close>

definition get_by ::
    "bool \<Rightarrow> ('s, pointer, unit) table_ops \<Rightarrow> ('t, pointer, 'v) table_ops \<Rightarrow> ent \<Rightarrow> ('s, 't) edb \<Rightarrow> ('v \<Rightarrow> pointer list res) \<Rightarrow> 'v \<Rightarrow>
     'v einst list res option" where
  "get_by checks K V e db index_keys v =
     (case index_keys v of Inl er \<Rightarrow> Some (Inl er) | Inr ks \<Rightarrow> collect (compose checks K V e db) ks)"

subsection \<open>What a query selects\<close>

text \<open>
  The reference: the part of an instance that a query selects, defined on the instance alone. A query on
  owned entities keeps those that match. An empty list of owned entities selects nothing, whether or not the
  query asks for them.
\<close>

fun filter_inst :: "'v::order fquery \<Rightarrow> 'v einst \<Rightarrow> 'v einst option"
  and filter_fields :: "'v fcol list \<Rightarrow> 'v efield list \<Rightarrow> 'v efield list option"
  and filter_field :: "'v fcol \<Rightarrow> 'v efield \<Rightarrow> 'v efield option"
  and filter_insts :: "'v fquery \<Rightarrow> 'v einst list \<Rightarrow> 'v einst list" where
  "filter_inst q (Einst p fs) = (case q of Query qs \<Rightarrow> map_option (Einst p) (filter_fields qs fs))"
| "filter_fields qs [] = Some []"
| "filter_fields qs (f # fs) =
     (case qs of
        [] \<Rightarrow> Some []
      | q # qs' \<Rightarrow> (case filter_field q f of None \<Rightarrow> None | Some f' \<Rightarrow> map_option (\<lambda>fs'. f' # fs') (filter_fields qs' fs)))"
| "filter_field q (F_Value v) =
     (case q of Q_Value (Some op) \<Rightarrow> if matches op v then Some (F_Value v) else None | _ \<Rightarrow> Some (F_Value v))"
| "filter_field q (F_One i) = (case q of Q_Child (Some cq) \<Rightarrow> map_option F_One (filter_inst cq i) | _ \<Rightarrow> Some (F_One i))"
| "filter_field q (F_Opt None) = (case q of Q_Child (Some cq) \<Rightarrow> None | _ \<Rightarrow> Some (F_Opt None))"
| "filter_field q (F_Opt (Some i)) =
     (case q of Q_Child (Some cq) \<Rightarrow> map_option (\<lambda>j. F_Opt (Some j)) (filter_inst cq i) | _ \<Rightarrow> Some (F_Opt (Some i)))"
| "filter_field q (F_Many is) =
     (let kept = (case q of Q_Child (Some cq) \<Rightarrow> filter_insts cq is | _ \<Rightarrow> is)
      in if kept = [] then None else Some (F_Many kept))"
| "filter_insts q [] = []"
| "filter_insts q (i # is) = (case filter_inst q i of None \<Rightarrow> filter_insts q is | Some j \<Rightarrow> j # filter_insts q is)"

lemma keep_matching_ok:
  "(\<And>x. x \<in> set xs \<Longrightarrow> f x = Some (Inr (filter_inst q (g x)))) \<Longrightarrow> keep_matching f xs = Some (filter_insts q (map g xs))"
  by (induction xs) (auto split: option.split)

lemma filter_inst_Einst: "filter_inst (Query qs) i = map_option (Einst (inst_key i)) (filter_fields qs (inst_fields i))"
  by (cases i) simp

lemma filter_with_ok:
  assumes "tables_ok K V kview vview"
    and "p \<in> keys_of kview db \<Longrightarrow> composer p = Some (Inr (filter_inst q (the (lookup kview vview e db p))))"
  shows "filter_with K (edb_keys db) composer p = Some (Inr (Option.bind (lookup kview vview e db p) (filter_inst q)))"
  using assms(2) tables_okD(3)[OF assms(1)] lookup_Some[of p kview db vview e]
  by (cases "kview (edb_keys db) p") (auto simp: filter_with_def)

lemma range_matching_ok:
  assumes "tables_ok K V kview vview"
    and "\<And>p. p \<in> keys_of kview db \<Longrightarrow> composer p = Some (Inr (filter_inst q (g p)))"
  shows "range_matching K (edb_keys db) composer a b =
           Some (Inr (filter_insts q (map g (sorted_list_of_set {k \<in> keys_of kview db. a \<le> k \<and> k < b}))))"
proof -
  from range_rows[OF assms(1), of "edb_keys db" a b] obtain rows where
    r: "tbl_range K (edb_keys db) a b = Inr rows" "finite {k \<in> keys_of kview db. a \<le> k \<and> k < b}"
      "map fst rows = sorted_list_of_set {k \<in> keys_of kview db. a \<le> k \<and> k < b}" by blast
  have "keep_matching composer (map fst rows) = Some (filter_insts q (map g (map fst rows)))"
    by (rule keep_matching_ok) (use assms(2) r(2,3) in simp)
  with r show ?thesis by (simp add: range_matching_def)
qed

lemma compose_with_filter_ok:
  fixes V :: "('t, pointer, 'v::order) table_ops"
  assumes "tables_ok K V kview vview"
  shows "valid kview vview e db \<Longrightarrow> p \<in> keys_of kview db \<Longrightarrow>
           compose_with_filter checks K V e db q p = Some (Inr (filter_inst q (the (lookup kview vview e db p))))"
    and "valid_col kview vview ty D c t \<Longrightarrow> p \<in> D \<Longrightarrow> key_ok ty p \<Longrightarrow>
           filter_col checks K V ty c t cq p = Some (Inr (filter_field cq (lookup_col kview vview c t p)))"
proof (induction e and c arbitrary: db q p and ty D t cq p rule: ent.induct ecol.induct)
  case (Ent root ty cols)
  have cols: "filter_cols checks K V ty cs ts qs p = Some (Inr (filter_fields qs (lookup_cols kview vview cs ts p)))"
    if "valid_cols kview vview ty D cs ts" "p \<in> D" "set cs \<subseteq> set cols" "key_ok ty p" for cs ts qs D
    using that
  proof (induction cs arbitrary: ts qs)
    case (Cons c cs)
    then obtain t ts' where "ts = t # ts'" "valid_col kview vview ty D c t" "valid_cols kview vview ty D cs ts'"
      by (cases ts) auto
    with Cons Ent.IH[of c ty D t p] show ?case by (cases qs) (simp_all split: option.split)
  qed simp
  obtain qs where q: "q = Query qs" by (cases q)
  from cols[of "keys_of kview db" cols "edb_tabs db" qs] Ent.prems show ?case by (auto simp: q filter_inst_Einst)
next
  case E_Value
  then show ?case using tables_okD(4)[OF assms] by (cases t) (auto split: option.splits fcol.splits)
next
  case (E_One e)
  then obtain db where db: "t = Sub db" "valid kview vview e db" "keys_of kview db = D" by (cases t) auto
  obtain i where i: "lookup kview vview e db p = Some i" using lookup_Some[of p kview db vview e] db(3) E_One.prems(2) by blast
  show ?case
  proof (cases "\<exists>q. cq = Q_Child (Some q)")
    case True
    then obtain q where "cq = Q_Child (Some q)" by blast
    moreover have "filter_with K (edb_keys db) (compose_with_filter checks K V e db q) p = Some (Inr (filter_inst q i))"
      using filter_with_ok[OF assms, of p db "compose_with_filter checks K V e db q" q e] E_One.IH[OF db(2)] i by simp
    ultimately show ?thesis using db(1) i by (simp add: id_def)
  next
    case False
    with compose_ok(2)[OF assms E_One.prems, of checks] db(1) show ?thesis by (auto split: fcol.splits option.splits)
  qed
next
  case (E_Opt e)
  then obtain db where db: "t = Sub db" "valid kview vview e db" by (cases t) auto
  show ?case
  proof (cases "\<exists>q. cq = Q_Child (Some q)")
    case True
    then obtain q where "cq = Q_Child (Some q)" by blast
    moreover have "filter_with K (edb_keys db) (compose_with_filter checks K V e db q) p =
        Some (Inr (Option.bind (lookup kview vview e db p) (filter_inst q)))"
      by (rule filter_with_ok[OF assms]) (rule E_Opt.IH[OF db(2)])
    ultimately show ?thesis using db(1) by (cases "lookup kview vview e db p") (simp_all add: id_def)
  next
    case False
    with compose_ok(2)[OF assms E_Opt.prems, of checks] db(1) show ?thesis
      by (cases "lookup kview vview e db p") (auto split: fcol.splits option.splits)
  qed
next
  case (E_Many e)
  then obtain db w where db: "t = Sub db" "valid kview vview e db" "ent_key e = Child_Ty ty w" by (cases t) auto
  have "\<forall>c\<in>keys_of kview db. well_typed (Child_Ty ty w) c" using valid_keys[OF db(2)] db(3) by (auto simp: key_ok_def)
  then obtain a b where ab: "fk_range checks ty p = Some (a, b)"
    "{k \<in> keys_of kview db. a \<le> k \<and> k < b} = children_of kview db p"
    using fk_range_children[of ty p checks] E_Many.prems(3) by (auto simp: key_ok_def) blast
  let ?cs = "map (\<lambda>c. the (lookup kview vview e db c)) (sorted_list_of_set (children_of kview db p))"
  have all: "range_with K (edb_keys db) (compose checks K V e db) a b = Some (Inr ?cs)"
    using range_ok[OF assms db(2), of a b checks] ab(2) by (simp add: range_ent_def)
  have some: "range_matching K (edb_keys db) (compose_with_filter checks K V e db q) a b = Some (Inr (filter_insts q ?cs))" for q
    using range_matching_ok[OF assms E_Many.IH[OF db(2)], where db = db and a = a and b = b] ab(2) by simp
  show ?case using db(1) ab(1) all some by (auto simp: Let_def split: fcol.splits option.splits)
qed

lemma filter_ent_ok:
  assumes "tables_ok K V kview vview" and "valid kview vview e db"
  shows "filter_ent checks K V e db p q = Some (Inr (Option.bind (lookup kview vview e db p) (filter_inst q)))"
  unfolding filter_ent_def by (rule filter_with_ok[OF assms(1)]) (rule compose_with_filter_ok(1)[OF assms])

lemma childless_filtered: "F_Many [] \<in> set fs \<Longrightarrow> length qs = length fs \<Longrightarrow> filter_fields qs fs = None"
proof (induction fs arbitrary: qs)
  case (Cons f fs)
  then obtain q qs' where qs: "qs = q # qs'" by (cases qs) auto
  show ?case
  proof (cases "f = F_Many []")
    case True
    then show ?thesis using qs by (auto split: fcol.splits option.splits)
  next
    case False
    with Cons qs show ?thesis by (auto split: option.splits)
  qed
qed simp

text \<open>At most \<open>n\<close> root keys lie in a range of \<open>n\<close> indices.\<close>

lemma root_range_card:
  assumes "finite S" and "S \<subseteq> {Root j | j. a \<le> j \<and> j < b}"
  shows "length (sorted_list_of_set S) \<le> b - a"
proof -
  have "S \<subseteq> Root ` {a..<b}" using assms(2) by auto
  then have "card S \<le> card (Root ` {a..<b})" by (rule card_mono[rotated]) simp
  also have "\<dots> \<le> b - a" using card_image_le[of "{a..<b}" Root] by simp
  finally show ?thesis by simp
qed

lemma rollback_from_next: "rollback_or_init (Root (Suc l)) n = Root (Suc l - n)"
  by simp

lemma tail_ok:
  assumes "tables_ok K V kview vview" and "valid kview vview e db" and "ent_key e = Root_Ty w"
    and "last_key (edb_keys db) = Inr (Some (Root l))" and "Root l \<in> keys_of kview db" and "0 < n" and "n \<le> 100"
  shows "tail_ent checks K V e db last_key n =
           Some (Inr (map (\<lambda>k. the (lookup kview vview e db k))
                        (sorted_list_of_set {k \<in> keys_of kview db. Root (Suc l - n) \<le> k \<and> k < Root (Suc l)})))"
proof -
  let ?S = "{k \<in> keys_of kview db. Root (Suc l - n) \<le> k \<and> k < Root (Suc l)}"
  have "key_ok (Root_Ty w) (Root l)" using valid_keys[OF assms(2,5)] assms(3) by simp
  then have nxt: "next_index checks (ent_key e) (Root l) = Some (Root (Suc l))"
    using assms(3) by (auto simp: key_ok_def add_index_def split: if_splits)
  from range_rows[OF assms(1), of "edb_keys db" "Root (Suc l - n)" "Root (Suc l)"] obtain rows where
    rows: "tbl_range K (edb_keys db) (Root (Suc l - n)) (Root (Suc l)) = Inr rows" "finite ?S" "map fst rows = sorted_list_of_set ?S" by blast
  have "?S \<subseteq> {Root j | j. Suc l - n \<le> j \<and> j < Suc l}"
  proof
    fix k assume k: "k \<in> ?S"
    then have "well_typed (Root_Ty w) k" using valid_keys[OF assms(2)] assms(3) by (auto simp: key_ok_def)
    with k show "k \<in> {Root j | j. Suc l - n \<le> j \<and> j < Suc l}" by auto
  qed
  from root_range_card[OF rows(2) this] assms(6) have "length (map fst rows) \<le> n" unfolding rows(3) by linarith
  then have "rev (take n (rev (map fst rows))) = sorted_list_of_set ?S" using rows(3) by (simp del: length_map)
  moreover have "collect (compose checks K V e db) (sorted_list_of_set ?S) =
      Some (Inr (map (\<lambda>k. the (lookup kview vview e db k)) (sorted_list_of_set ?S)))"
    by (rule compose_all_ok) (use compose_ok(1)[OF assms(1,2)] rows(2) in simp)
  ultimately show ?thesis using assms(4,6,7) nxt rows(1) by (simp add: tail_ent_def rollback_from_next del: rollback_or_init.simps)
qed

subsection \<open>Properties\<close>

text \<open>
  C27. A query selects from the composed entities: on consistent tables the filtered lookup of a key returns
  what the reference selects from the instance that \<open>get\<close> composes, and a range with a query returns what
  the reference selects from the entities of the range without one, although the code composes column by
  column and stops at the first that does not match.
\<close>

theorem query_selects:
  assumes "tables_ok K V kview vview" and "valid kview vview e db"
  shows "(\<exists>r. get checks K V e db p = Some (Inr r) \<and> filter_ent checks K V e db p q = Some (Inr (Option.bind r (filter_inst q)))) \<and>
         (\<exists>is. range_ent checks K V e db a b = Some (Inr is) \<and> range_query checks K V e db a b (Some q) = Some (Inr (filter_insts q is)))"
  using get_ok[OF assms] filter_ent_ok[OF assms] range_ok[OF assms, of a b checks]
    range_matching_ok[OF assms(1) compose_with_filter_ok(1)[OF assms], where a = a and b = b]
  by (simp add: range_query_def)

text \<open>
  An entity with an empty one-to-many column is selected by no query: it is stored and composed, but
  every query of its type, the empty one included, leaves it out.
\<close>

theorem childless_never_selected:
  assumes "tables_ok K V kview vview" and "valid kview vview e db"
    and "get checks K V e db p = Some (Inr (Some i))" and "F_Many [] \<in> set (inst_fields i)" and "length qs = length (inst_fields i)"
  shows "filter_ent checks K V e db p (Query qs) = Some (Inr None)"
  using assms(3) childless_filtered[OF assms(4,5)] by (simp add: get_ok[OF assms(1,2)] filter_ent_ok[OF assms(1,2)] filter_inst_Einst)

text \<open>
  C31. \<open>tail\<close> returns what lies within \<open>n\<close> of the last key: for an entity with a root key it composes, in
  ascending order, the entities whose keys are less than \<open>n\<close> below the last one. Where keys are missing these
  are fewer than the \<open>n\<close> last entities.
\<close>

theorem tail_within_n:
  assumes "tables_ok K V kview vview" and "valid kview vview e db" and "ent_key e = Root_Ty w"
    and "last_key (edb_keys db) = Inr (Some (Root l))" and "exists_key K db (Root l) = Inr True"
    and "\<forall>k. exists_key K db k = Inr True \<longrightarrow> k \<le> Root l" and "0 < n" and "n \<le> 100"
  shows "\<exists>is. tail_ent checks K V e db last_key n = Some (Inr is) \<and> sorted_wrt (<) (map inst_key is) \<and>
           (\<forall>i. i \<in> set is \<longleftrightarrow> get checks K V e db (inst_key i) = Some (Inr (Some i)) \<and> l < ptr_index (inst_key i) + n)"
proof -
  let ?S = "{k \<in> keys_of kview db. Root (Suc l - n) \<le> k \<and> k < Root (Suc l)}"
  let ?is = "map (\<lambda>k. the (lookup kview vview e db k)) (sorted_list_of_set ?S)"
  have ex: "exists_key K db k = Inr True \<longleftrightarrow> k \<in> keys_of kview db" for k
    using tables_okD(3)[OF assms(1)] by (auto simp: exists_key_def)
  have fin: "finite ?S" and r: "range_ent checks K V e db (Root (Suc l - n)) (Root (Suc l)) = Some (Inr ?is)"
    using range_ok[OF assms(1,2), of "Root (Suc l - n)" "Root (Suc l)" checks] by blast+
  have root: "\<exists>j. k = Root j" if "k \<in> keys_of kview db" for k
    using valid_keys[OF assms(2) that] assms(3) by (auto simp: key_ok_def)
  have mem: "k \<in> ?S \<longleftrightarrow> k \<in> keys_of kview db \<and> l < ptr_index k + n" for k
    using root[of k] assms(6) ex by fastforce
  have look: "\<exists>i. lookup kview vview e db k = Some i \<and> inst_key i = k" if "k \<in> keys_of kview db" for k
    using that lookup_Some[of k kview db vview e] lookup_key by blast
  then have "map inst_key ?is = sorted_list_of_set ?S" using fin by (force simp: o_def intro!: map_idI)
  moreover have "i \<in> set ?is \<longleftrightarrow> lookup kview vview e db (inst_key i) = Some i \<and> l < ptr_index (inst_key i) + n" for i
  proof -
    have "i \<in> set ?is \<longleftrightarrow> (\<exists>k\<in>?S. i = the (lookup kview vview e db k))" using fin by (auto simp: image_iff)
    also have "\<dots> \<longleftrightarrow> inst_key i \<in> ?S \<and> lookup kview vview e db (inst_key i) = Some i"
      using look by (metis (no_types, lifting) mem option.sel)
    finally show ?thesis using mem lookup_Some[of "inst_key i" kview db vview e] by blast
  qed
  ultimately show ?thesis
    using tail_ok[of K V kview vview e db w last_key l n checks] assms ex
    by (intro exI[of _ ?is]) (simp add: get_ok[OF assms(1,2)])
qed

subsection \<open>Witnesses\<close>

definition demo_query :: "nat fquery" where
  "demo_query = Query [Q_Value (Some (Ge 5)), Q_Child None, Q_Child (Some (Query [Q_Value (Some (Lt 10))]))]"

theorem query_selects_witness:
  "\<exists>r. get True demo_keys demo_vals demo_block demo_db1 (Root 5) = Some (Inr r) \<and>
     filter_ent True demo_keys demo_vals demo_block demo_db1 (Root 5) demo_query = Some (Inr (Option.bind r (filter_inst demo_query)))"
  using query_selects[OF demo_tables demo_valid1, of True "Root 5" demo_query "Root 0" "Root 9"] by blast

definition demo_db2 :: "((pointer \<times> unit) list, (pointer \<times> nat) list) edb" where
  "demo_db2 = Edb [(Root 5, ())] [Tab [(Root 5, 7)], Sub (Edb [(Root 5, ())] [Tab [(Root 5, 8)]]), Sub (Edb [] [Tab []])]"

lemma demo_valid2: "valid map_of map_of demo_block demo_db2"
  by (auto simp: demo_block_def demo_db2_def key_ok_def add_index_def split: if_splits)

theorem childless_never_selected_witness:
  "get True demo_keys demo_vals demo_block demo_db2 (Root 5) =
     Some (Inr (Some (Einst (Root 5) [F_Value 7, F_One (Einst (Root 5) [F_Value 8]), F_Many []]))) \<and>
   filter_ent True demo_keys demo_vals demo_block demo_db2 (Root 5) (Query [Q_Value None, Q_Child None, Q_Child None]) = Some (Inr None)"
proof -
  have g: "get True demo_keys demo_vals demo_block demo_db2 (Root 5) =
      Some (Inr (Some (Einst (Root 5) [F_Value 7, F_One (Einst (Root 5) [F_Value 8]), F_Many []])))"
    by (simp add: get_ok[OF demo_tables demo_valid2]) (simp add: demo_block_def demo_db2_def)
  from childless_never_selected[OF demo_tables demo_valid2 g, of "[Q_Value None, Q_Child None, Q_Child None]"] g show ?thesis by simp
qed

theorem tail_within_n_witness:
  "\<exists>is. tail_ent True demo_keys demo_vals demo_block demo_db1 (\<lambda>_. Inr (Some (Root 5))) 2 = Some (Inr is) \<and>
     (\<forall>i. i \<in> set is \<longleftrightarrow> get True demo_keys demo_vals demo_block demo_db1 (inst_key i) = Some (Inr (Some i)) \<and> 5 < ptr_index (inst_key i) + 2)"
proof -
  have "ent_key demo_block = Root_Ty 4" by (simp add: demo_block_def)
  moreover have "exists_key demo_keys demo_db1 k = Inr (k = Root 5)" for k
    by (simp add: exists_key_def demo_db1_def alist_table_ops_def)
  ultimately show ?thesis
    using tail_within_n[OF demo_tables demo_valid1, of 4 "\<lambda>_. Inr (Some (Root 5))" 5 2 True] by auto
qed

end
