(* ===== verification/Column_Query.thy ===== *)
theory Column_Query
  imports Entity_Query Sharded_Reader
begin

section \<open>Queries by the value of a column\<close>

text \<open>
  The functions that are generated for an indexed column: the keys and the entities of a value
  (\<open>macros/src/column/get_keys_by.rs\<close>, \<open>get_by.rs\<close>, \<open>stream_keys_by.rs\<close>, \<open>stream_by.rs\<close>), the entities of a range of
  values (\<open>range_by.rs\<close>, \<open>stream_range_by.rs\<close>), the parents of the entities of a value
  (\<open>stream_parents_by.rs\<close>), with \<open>compose_many\<close> and \<open>compose_many_stream\<close> of \<open>entity/compose.rs\<close> that all of
  them end in, and the reading functions of relationships (\<open>relationship/get.rs\<close>, \<open>relationship/transient.rs\<close>).

  The table of the column is a sharded reader (\<open>Sharded_Reader\<close>), the entity is composed from its tables
  (\<open>Entity\<close>). An iterator of redb is the list of the results that it yields. A stream is the list of its
  items, each computed when it is polled: \<open>None\<close> is an item whose computation panics.
\<close>

subsection \<open>Composing the entities of an iterator\<close>

text \<open>The display text of an error, which \<open>AppError::Internal(err.into())\<close> wraps.\<close>

fun error_text :: "app_error \<Rightarrow> string" where
  "error_text (Database m) = ''Database error: '' @ m"
| "error_text (Redb m) = ''redb error: '' @ m"
| "error_text (RedbTransaction m) = ''redb transaction error: '' @ m"
| "error_text (RedbStorage m) = ''redb storage error: '' @ m"
| "error_text (RedbTable m) = ''redb table error: '' @ m"
| "error_text (RedbCommit m) = ''redb commit error: '' @ m"
| "error_text (SerdeError m) = ''serde error: '' @ m"
| "error_text (Http m) = ''HTTP error: '' @ m"
| "error_text (Io m) = ''IO error: '' @ m"
| "error_text (JsonRejection s m) = ''Json rejection: '' @ m"
| "error_text (JoinError m) = ''Join: '' @ m"
| "error_text (RecvError m) = ''Recv: '' @ m"
| "error_text (NotFound m) = ''Not Found: '' @ m"
| "error_text (BadRequest m) = ''Bad Request: '' @ m"
| "error_text (Internal m) = ''Internal error: '' @ m"
| "error_text (Custom m) = ''Custom error: '' @ m"

fun compose_each :: "('k \<Rightarrow> 'i res option) \<Rightarrow> 'k res list \<Rightarrow> 'i list res option" where
  "compose_each f [] = Some (Inr [])"
| "compose_each f (Inl e # pks) = Some (Inl e)"
| "compose_each f (Inr p # pks) =
     (case f p of
        None \<Rightarrow> None
      | Some (Inl e) \<Rightarrow> Some (Inl e)
      | Some (Inr i) \<Rightarrow> map_option (map_sum id (\<lambda>is. i # is)) (compose_each f pks))"

text \<open>With a query, an error of the iterator ends the loop, an error of composing skips the entity.\<close>

fun compose_each_matching :: "('k \<Rightarrow> 'i option res option) \<Rightarrow> 'k res list \<Rightarrow> 'i list res option" where
  "compose_each_matching f [] = Some (Inr [])"
| "compose_each_matching f (Inl e # pks) = Some (Inl e)"
| "compose_each_matching f (Inr p # pks) =
     (case f p of
        None \<Rightarrow> None
      | Some (Inr (Some i)) \<Rightarrow> map_option (map_sum id (\<lambda>is. i # is)) (compose_each_matching f pks)
      | Some _ \<Rightarrow> compose_each_matching f pks)"

definition compose_many ::
    "bool \<Rightarrow> ('s, pointer, unit) table_ops \<Rightarrow> ('t, pointer, 'v::order) table_ops \<Rightarrow> ent \<Rightarrow> ('s, 't) edb \<Rightarrow> pointer res list \<Rightarrow>
     'v fquery option \<Rightarrow> 'v einst list res option" where
  "compose_many checks K V e db pks stream_query =
     (case stream_query of
        Some q \<Rightarrow> compose_each_matching (compose_with_filter checks K V e db q) pks
      | None \<Rightarrow> compose_each (compose checks K V e db) pks)"

type_synonym 'i item = "'i res option"

definition stream_item ::
    "bool \<Rightarrow> ('s, pointer, unit) table_ops \<Rightarrow> ('t, pointer, 'v::order) table_ops \<Rightarrow> ent \<Rightarrow> ('s, 't) edb \<Rightarrow> 'v fquery option \<Rightarrow>
     pointer res \<Rightarrow> 'v einst item option" where
  "stream_item checks K V e db stream_query item_res =
     (case item_res of
        Inl er \<Rightarrow> Some (Some (Inl er))
      | Inr pk \<Rightarrow>
          (case stream_query of
             Some q \<Rightarrow>
               (case compose_with_filter checks K V e db q pk of
                  None \<Rightarrow> Some None
                | Some (Inr (Some i)) \<Rightarrow> Some (Some (Inr i))
                | Some (Inr None) \<Rightarrow> None
                | Some (Inl er) \<Rightarrow> Some (Some (Inl (Internal (error_text er)))))
           | None \<Rightarrow>
               (case compose checks K V e db pk of
                  None \<Rightarrow> Some None
                | Some (Inr i) \<Rightarrow> Some (Some (Inr i))
                | Some (Inl er) \<Rightarrow> Some (Some (Inl (Internal (error_text er)))))))"

definition compose_many_stream ::
    "bool \<Rightarrow> ('s, pointer, unit) table_ops \<Rightarrow> ('t, pointer, 'v::order) table_ops \<Rightarrow> ent \<Rightarrow> ('s, 't) edb \<Rightarrow> pointer res list \<Rightarrow>
     'v fquery option \<Rightarrow> 'v einst item list res" where
  "compose_many_stream checks K V e db pks stream_query = Inr (List.map_filter (stream_item checks K V e db stream_query) pks)"

subsection \<open>The keys of a value\<close>

text \<open>\<open>?\<close> on a lookup that may panic.\<close>

definition when_ok :: "'a res option \<Rightarrow> ('a \<Rightarrow> 'b res option) \<Rightarrow> 'b res option" where
  "when_ok r f = (case r of None \<Rightarrow> None | Some (Inl e) \<Rightarrow> Some (Inl e) | Some (Inr x) \<Rightarrow> f x)"

lemma when_ok_simps [simp]: "when_ok (Some (Inr x)) f = f x" "when_ok (Some (Inl e)) f = Some (Inl e)" "when_ok None f = None"
  by (simp_all add: when_ok_def)

type_synonym ('t, 'u, 'w, 'm, 'n, 'v, 'r) column_env = "('t, 'u, 'w, 'm, 'n, pointer, 'v, 'r, 'v \<times> 'v) reader_env"
type_synonym ('t, 'u, 'w, 'm, 'n, 'v) column_reader = "('t, 'u, 'w, 'm, 'n, pointer, 'v) sharded_reader"

definition dict_iter :: "('t, 'u, 'w, 'm, 'n, 'v, 'r) column_env \<Rightarrow> ('t, 'u, 'w, 'm, 'n, 'v) column_reader \<Rightarrow> 'v \<Rightarrow> pointer list res option" where
  "dict_iter E rd v = when_ok (reader_dict_keys E rd v) (\<lambda>r. Some (Inr (case r of None \<Rightarrow> [] | Some ks \<Rightarrow> ks)))"

definition get_keys_by_dict :: "('t, 'u, 'w, 'm, 'n, 'v, 'r) column_env \<Rightarrow> ('t, 'u, 'w, 'm, 'n, 'v) column_reader \<Rightarrow> 'v \<Rightarrow> pointer list res option" where
  "get_keys_by_dict E rd v = when_ok (reader_dict_keys E rd v) (case_option (Some (Inr [])) (\<lambda>ks. Some (Inr ks)))"

definition get_keys_by_index :: "('t, 'u, 'w, 'm, 'n, 'v, 'r) column_env \<Rightarrow> ('t, 'u, 'w, 'm, 'n, 'v) column_reader \<Rightarrow> 'v \<Rightarrow> pointer list res option" where
  "get_keys_by_index E rd v = reader_index_keys E rd v"

definition stream_keys_by_dict :: "('t, 'u, 'w, 'm, 'n, 'v, 'r) column_env \<Rightarrow> ('t, 'u, 'w, 'm, 'n, 'v) column_reader \<Rightarrow> 'v \<Rightarrow> pointer item list res option" where
  "stream_keys_by_dict E rd v = when_ok (dict_iter E rd v) (\<lambda>ks. Some (Inr (map (\<lambda>k. Some (Inr k)) ks)))"

definition stream_keys_by_index :: "('t, 'u, 'w, 'm, 'n, 'v, 'r) column_env \<Rightarrow> ('t, 'u, 'w, 'm, 'n, 'v) column_reader \<Rightarrow> 'v \<Rightarrow> pointer item list res option" where
  "stream_keys_by_index E rd v = when_ok (reader_index_keys E rd v) (\<lambda>ks. Some (Inr (map (\<lambda>k. Some (Inr k)) ks)))"

subsection \<open>The entities of a value\<close>

definition get_by_dict where
  "get_by_dict checks K V e db E rd v = when_ok (dict_iter E rd v) (\<lambda>ks. compose_many checks K V e db (map Inr ks) None)"

definition get_by_index where
  "get_by_index checks K V e db E rd v = when_ok (reader_index_keys E rd v) (\<lambda>ks. compose_many checks K V e db (map Inr ks) None)"

definition stream_by_dict where
  "stream_by_dict checks K V e db E rd v query =
     when_ok (dict_iter E rd v) (\<lambda>ks. Some (compose_many_stream checks K V e db (map Inr ks) query))"

definition stream_by_index where
  "stream_by_index checks K V e db E rd v query =
     when_ok (reader_index_keys E rd v) (\<lambda>ks. Some (compose_many_stream checks K V e db (map Inr ks) query))"

text \<open>The rows of an index range are grouped by value; the iterator runs through the groups.\<close>

definition range_by_index where
  "range_by_index checks K V e db E rd a b =
     when_ok (reader_index_range E rd (a, b)) (\<lambda>rows. compose_many checks K V e db (map Inr (concat (map snd rows))) None)"

definition stream_range_by_index where
  "stream_range_by_index checks K V e db E rd a b query =
     when_ok (reader_index_range E rd (a, b)) (\<lambda>rows. Some (compose_many_stream checks K V e db (map Inr (concat (map snd rows))) query))"

text \<open>\<open>stream_range\<close> of an entity runs through its own key table.\<close>

definition stream_range ::
    "bool \<Rightarrow> ('s, pointer, unit) table_ops \<Rightarrow> ('t, pointer, 'v::order) table_ops \<Rightarrow> ent \<Rightarrow> ('s, 't) edb \<Rightarrow> pointer \<Rightarrow> pointer \<Rightarrow>
     'v fquery option \<Rightarrow> 'v einst item list res" where
  "stream_range checks K V e db a b query =
     (case tbl_range K (edb_keys db) a b of
        Inl er \<Rightarrow> Inl er
      | Inr rows \<Rightarrow> compose_many_stream checks K V e db (map (Inr \<circ> fst) rows) query)"

subsection \<open>The parents of the entities of a value\<close>

text \<open>The \<open>scan\<close> over a \<open>HashSet\<close> of the parents seen so far lets every parent through once.\<close>

fun unique_parents :: "pointer set \<Rightarrow> pointer res list \<Rightarrow> pointer res list" where
  "unique_parents seen [] = []"
| "unique_parents seen (Inl e # rs) = Inl e # unique_parents seen rs"
| "unique_parents seen (Inr p # rs) =
     (if p \<in> seen then unique_parents seen rs else Inr p # unique_parents (insert p seen) rs)"

text \<open>
  The field \<open>parent\<close> of a key exists for the keys of children only: the functions are generated for an entity
  with a foreign key, and a key without a parent is outside the model.
\<close>

definition stream_parents_by_dict where
  "stream_parents_by_dict checks K V parent_ent db E rd v query =
     when_ok (dict_iter E rd v) (\<lambda>ks.
       map_option (\<lambda>parents. compose_many_stream checks K V parent_ent db (unique_parents {} (map Inr parents)) query) (those (map parent ks)))"

definition stream_parents_by_index where
  "stream_parents_by_index checks K V parent_ent db E rd v query =
     when_ok (reader_index_keys E rd v) (\<lambda>ks.
       map_option (\<lambda>parents. compose_many_stream checks K V parent_ent db (unique_parents {} (map Inr parents)) query) (those (map parent ks)))"

subsection \<open>Reading a relationship\<close>

text \<open>The texts stand for the formatted name of the child and its key.\<close>

definition get_one_child where
  "get_one_child checks K V child db missing p =
     when_ok (get checks K V child db p) (\<lambda>opt. Some (case opt of Some i \<Rightarrow> Inr i | None \<Rightarrow> Inl (NotFound (missing p))))"

definition get_opt_child where
  "get_opt_child checks K V child db p = get checks K V child db p"

definition get_many_children where
  "get_many_children checks K V child db ty p =
     (case fk_range checks ty p of None \<Rightarrow> None | Some (a, b) \<Rightarrow> range_query checks K V child db a b None)"

text \<open>
  A transient relationship \<open>read_from(outer::inner)\<close>: for every entity of the outer field the entity that its
  field \<open>inner\<close> points to, where there is one.
\<close>

fun read_from_outer ::
    "bool \<Rightarrow> ('s, pointer, unit) table_ops \<Rightarrow> ('t, pointer, 'v) table_ops \<Rightarrow> ent \<Rightarrow> ('s, 't) edb \<Rightarrow> ('o \<Rightarrow> pointer) \<Rightarrow> 'o list \<Rightarrow>
     'v einst list res option" where
  "read_from_outer checks K V child db inner [] = Some (Inr [])"
| "read_from_outer checks K V child db inner (in_field # outer) =
     when_ok (get checks K V child db (inner in_field)) (\<lambda>out_field.
       map_option (map_sum id (\<lambda>result. case out_field of Some i \<Rightarrow> i # result | None \<Rightarrow> result))
         (read_from_outer checks K V child db inner outer))"

subsection \<open>Composing valid keys\<close>

abbreviation stored_keys :: "('s \<Rightarrow> pointer \<rightharpoonup> unit) \<Rightarrow> ('s, 't) edb \<Rightarrow> pointer set" where
  "stored_keys kview db \<equiv> dom (kview (edb_keys db))"

definition select :: "'v::order fquery option \<Rightarrow> 'v einst list \<Rightarrow> 'v einst list" where
  "select query is = (case query of Some q \<Rightarrow> filter_insts q is | None \<Rightarrow> is)"

definition ready :: "'i list \<Rightarrow> 'i item list" where
  "ready is = map (\<lambda>i. Some (Inr i)) is"

lemma compose_each_ok:
  "(\<And>p. p \<in> set ks \<Longrightarrow> f p = Some (Inr (g p))) \<Longrightarrow> compose_each f (map Inr ks) = Some (Inr (map g ks))"
  by (induction ks) simp_all

lemma map_filter_ready:
  "(\<And>p. p \<in> set ks \<Longrightarrow> f (Inr p) = map_option (\<lambda>i. Some (Inr i)) (filter_inst q (g p))) \<Longrightarrow>
     List.map_filter f (map Inr ks) = ready (filter_insts q (map g ks))"
  by (induction ks) (simp_all add: ready_def map_filter_simps split: option.split)

lemma map_filter_all: "(\<And>p. p \<in> set ks \<Longrightarrow> f (Inr p) = Some (Some (Inr (g p)))) \<Longrightarrow> List.map_filter f (map Inr ks) = ready (map g ks)"
  by (induction ks) (simp_all add: ready_def map_filter_simps)

lemma compose_many_ok:
  assumes "tables_ok K V kview vview" and "valid kview vview e db" and "set ks \<subseteq> stored_keys kview db"
  shows "compose_many checks K V e db (map Inr ks) None = Some (Inr (map (\<lambda>p. the (lookup kview vview e db p)) ks))"
    and "compose_many_stream checks K V e db (map Inr ks) query = Inr (ready (select query (map (\<lambda>p. the (lookup kview vview e db p)) ks)))"
proof -
  have c: "compose checks K V e db p = Some (Inr (the (lookup kview vview e db p)))" if "p \<in> set ks" for p
    using compose_ok(1)[OF assms(1,2)] assms(3) that by blast
  have f: "compose_with_filter checks K V e db q p = Some (Inr (filter_inst q (the (lookup kview vview e db p))))" if "p \<in> set ks" for p q
    using compose_with_filter_ok(1)[OF assms(1,2)] assms(3) that by blast
  show "compose_many checks K V e db (map Inr ks) None = Some (Inr (map (\<lambda>p. the (lookup kview vview e db p)) ks))"
    by (simp add: compose_many_def compose_each_ok[OF c])
  show "compose_many_stream checks K V e db (map Inr ks) query = Inr (ready (select query (map (\<lambda>p. the (lookup kview vview e db p)) ks)))"
  proof (cases query)
    case None
    show ?thesis
      unfolding None compose_many_stream_def select_def by (simp add: map_filter_all stream_item_def c)
  next
    case (Some q)
    have "List.map_filter (stream_item checks K V e db (Some q)) (map Inr ks) = ready (filter_insts q (map (\<lambda>p. the (lookup kview vview e db p)) ks))"
      by (rule map_filter_ready) (simp add: stream_item_def f split: option.split)
    then show ?thesis by (simp add: Some compose_many_stream_def select_def)
  qed
qed

subsection \<open>The column of an entity\<close>

definition value_column :: "ent \<Rightarrow> ('s, 't) edb \<Rightarrow> nat \<Rightarrow> 't \<Rightarrow> bool" where
  "value_column e db n tb \<longleftrightarrow> n < length (ent_cols e) \<and> ent_cols e ! n = E_Value \<and> n < length (edb_tabs db) \<and> edb_tabs db ! n = Tab tb"

lemma valid_cols_nth: "valid_cols kview vview ty D cs ts \<Longrightarrow> n < length cs \<Longrightarrow> valid_col kview vview ty D (cs ! n) (ts ! n)"
  by (induction cs arbitrary: ts n) (auto simp: nth_Cons' split: list.splits)

lemma lookup_cols_nth:
  "n < length cs \<Longrightarrow> n < length ts \<Longrightarrow> lookup_cols kview vview cs ts p ! n = lookup_col kview vview (cs ! n) (ts ! n) p"
  by (induction cs arbitrary: ts n) (auto simp: nth_Cons' split: list.splits)

lemma value_column_ok:
  assumes "valid kview vview e db" and "value_column e db n tb"
  shows "dom (vview tb) = stored_keys kview db"
    and "lookup kview vview e db p = Some i \<Longrightarrow> inst_fields i ! n = F_Value v \<longleftrightarrow> vview tb p = Some v"
proof -
  obtain root ty cols where e: "e = Ent root ty cols" by (cases e)
  show d: "dom (vview tb) = stored_keys kview db"
    using assms valid_cols_nth[of kview vview ty "stored_keys kview db" cols "edb_tabs db" n] by (simp add: e value_column_def)
  show "inst_fields i ! n = F_Value v \<longleftrightarrow> vview tb p = Some v" if "lookup kview vview e db p = Some i"
  proof -
    from that have "p \<in> dom (vview tb)" "i = Einst p (lookup_cols kview vview cols (edb_tabs db) p)"
      by (auto simp: e d split: if_splits)
    with assms(2) show ?thesis by (auto simp: e value_column_def lookup_cols_nth)
  qed
qed

text \<open>What a query for a value of column \<open>n\<close> has to return: the entities with that value, in the order of their keys.\<close>

definition entities_with ::
    "bool \<Rightarrow> ('s, pointer, unit) table_ops \<Rightarrow> ('t, pointer, 'v) table_ops \<Rightarrow> ent \<Rightarrow> ('s, 't) edb \<Rightarrow> nat \<Rightarrow> ('v \<Rightarrow> bool) \<Rightarrow> 'v einst list \<Rightarrow> bool" where
  "entities_with checks K V e db n P is \<longleftrightarrow>
     distinct (map inst_key is) \<and>
     (\<forall>i. i \<in> set is \<longleftrightarrow> get checks K V e db (inst_key i) = Some (Inr (Some i)) \<and> (\<exists>v. inst_fields i ! n = F_Value v \<and> P v))"

lemma looked_up:
  assumes "set ks \<subseteq> stored_keys kview db"
  shows "map inst_key (map (\<lambda>p. the (lookup kview vview e db p)) ks) = ks"
    and "i \<in> set (map (\<lambda>p. the (lookup kview vview e db p)) ks) \<longleftrightarrow> inst_key i \<in> set ks \<and> lookup kview vview e db (inst_key i) = Some i"
proof -
  have look: "\<exists>i. lookup kview vview e db p = Some i \<and> inst_key i = p" if "p \<in> set ks" for p
    using that assms lookup_Some[of p kview db vview e] lookup_key by blast
  then show "map inst_key (map (\<lambda>p. the (lookup kview vview e db p)) ks) = ks"
    by (force simp: o_def intro!: map_idI)
  show "i \<in> set (map (\<lambda>p. the (lookup kview vview e db p)) ks) \<longleftrightarrow> inst_key i \<in> set ks \<and> lookup kview vview e db (inst_key i) = Some i"
  proof
    assume "i \<in> set (map (\<lambda>p. the (lookup kview vview e db p)) ks)"
    then obtain p where p: "p \<in> set ks" "i = the (lookup kview vview e db p)" by auto
    moreover from look[OF p(1)] obtain j where "lookup kview vview e db p = Some j" "inst_key j = p" by blast
    ultimately show "inst_key i \<in> set ks \<and> lookup kview vview e db (inst_key i) = Some i" by simp
  next
    assume a: "inst_key i \<in> set ks \<and> lookup kview vview e db (inst_key i) = Some i"
    have "i \<in> (\<lambda>p. the (lookup kview vview e db p)) ` set ks" by (rule image_eqI[of _ _ "inst_key i"]) (simp_all add: a)
    then show "i \<in> set (map (\<lambda>p. the (lookup kview vview e db p)) ks)" by simp
  qed
qed

lemma entities_of_keys:
  assumes "tables_ok K V kview vview" and "valid kview vview e db" and "value_column e db n tb"
    and "distinct ks" and "\<And>p. p \<in> set ks \<longleftrightarrow> (\<exists>v. vview tb p = Some v \<and> P v)"
  shows "set ks \<subseteq> stored_keys kview db"
    and "entities_with checks K V e db n P (map (\<lambda>p. the (lookup kview vview e db p)) ks)"
proof -
  show sub: "set ks \<subseteq> stored_keys kview db" using assms(5) value_column_ok(1)[OF assms(2,3)] by auto
  have "i \<in> set (map (\<lambda>p. the (lookup kview vview e db p)) ks) \<longleftrightarrow>
      lookup kview vview e db (inst_key i) = Some i \<and> (\<exists>v. inst_fields i ! n = F_Value v \<and> P v)" for i
    unfolding looked_up(2)[of ks kview db, OF sub]
    using assms(5)[of "inst_key i"] value_column_ok(2)[OF assms(2,3), of "inst_key i" i]
    by (cases "lookup kview vview e db (inst_key i) = Some i") simp_all
  with looked_up(1)[of ks kview db vview e, OF sub] assms(4) show "entities_with checks K V e db n P (map (\<lambda>p. the (lookup kview vview e db p)) ks)"
    unfolding entities_with_def get_ok[OF assms(1,2)] option.inject sum.inject by metis
qed

subsection \<open>Parents\<close>

lemma unique_parents_sorted:
  "sorted_wrt (\<le>) ps \<Longrightarrow> \<exists>us. unique_parents seen (map Inr ps) = map Inr us \<and> sorted_wrt (<) us \<and> set us = set ps - seen"
proof (induction ps arbitrary: seen)
  case (Cons p ps)
  then have le: "\<forall>q\<in>set ps. p \<le> q" by simp
  show ?case
  proof (cases "p \<in> seen")
    case True
    with Cons.IH[of seen] Cons.prems show ?thesis by auto
  next
    case False
    from Cons.IH[of "insert p seen"] Cons.prems obtain us where
      us: "unique_parents (insert p seen) (map Inr ps) = map Inr us" "sorted_wrt (<) us" "set us = set ps - insert p seen" by auto
    then have "\<forall>q\<in>set us. p < q" using le by (auto intro: order_neq_le_trans)
    with us False show ?thesis by (intro exI[of _ "p # us"]) auto
  qed
qed simp

lemma those_parents:
  assumes "sorted_wrt (<) ks" and "\<forall>k\<in>set ks. parent k \<noteq> None"
  shows "\<exists>ps. those (map parent ks) = Some ps \<and> sorted_wrt (\<le>) ps \<and> set ps = {p. \<exists>k\<in>set ks. parent k = Some p}"
  using assms
proof (induction ks)
  case (Cons k ks)
  then obtain ps where ps: "those (map parent ks) = Some ps" "sorted_wrt (\<le>) ps" "set ps = {p. \<exists>k\<in>set ks. parent k = Some p}" by auto
  from Cons.prems(2) obtain p where p: "parent k = Some p" by auto
  have "p \<le> q" if q: "q \<in> set ps" for q
  proof -
    from q ps(3) obtain k' where k': "k' \<in> set ks" "parent k' = Some q" by blast
    with Cons.prems(1) have "k < k'" by simp
    with p k'(2) show ?thesis by (cases k; cases k') auto
  qed
  with ps p show ?case by (intro exI[of _ "p # ps"]) auto
qed simp

text \<open>The entities one of whose children has the value.\<close>

definition parents_with ::
    "bool \<Rightarrow> ('s, pointer, unit) table_ops \<Rightarrow> ('t, pointer, 'v) table_ops \<Rightarrow> ent \<Rightarrow> ('s, 't) edb \<Rightarrow> nat \<Rightarrow> nat \<Rightarrow> 'v \<Rightarrow> 'v einst list \<Rightarrow> bool" where
  "parents_with checks K V e db n m v is \<longleftrightarrow>
     (\<forall>i. i \<in> set is \<longleftrightarrow>
        get checks K V e db (inst_key i) = Some (Inr (Some i)) \<and>
        (\<exists>children c. inst_fields i ! n = F_Many children \<and> c \<in> set children \<and> inst_fields c ! m = F_Value v))"

definition many_column :: "ent \<Rightarrow> ('s, 't) edb \<Rightarrow> nat \<Rightarrow> ent \<Rightarrow> ('s, 't) edb \<Rightarrow> bool" where
  "many_column e db n child cdb \<longleftrightarrow>
     n < length (ent_cols e) \<and> n < length (edb_tabs db) \<and> ent_cols e ! n = E_Many child \<and> edb_tabs db ! n = Sub cdb"

lemma many_column_ok:
  assumes "tables_ok K V kview vview" and "valid kview vview e db" and "many_column e db n child cdb"
  shows "valid kview vview child cdb"
    and "c \<in> stored_keys kview cdb \<Longrightarrow> \<exists>p\<in>stored_keys kview db. parent c = Some p"
    and "lookup kview vview e db p = Some i \<Longrightarrow>
           \<exists>children. inst_fields i ! n = F_Many children \<and>
             set children = (\<lambda>c. the (lookup kview vview child cdb c)) ` {c \<in> stored_keys kview cdb. parent c = Some p}"
proof -
  obtain root ty cols where e: "e = Ent root ty cols" by (cases e)
  have col: "valid_col kview vview ty (stored_keys kview db) (E_Many child) (Sub cdb)"
    using assms(2,3) valid_cols_nth[of kview vview ty "stored_keys kview db" cols "edb_tabs db" n] by (simp add: e many_column_def)
  then show v: "valid kview vview child cdb" and "c \<in> stored_keys kview cdb \<Longrightarrow> \<exists>p\<in>stored_keys kview db. parent c = Some p" by simp_all
  assume i: "lookup kview vview e db p = Some i"
  from col obtain w where "ent_key child = Child_Ty ty w" by auto
  then have "\<forall>c\<in>stored_keys kview cdb. well_typed (Child_Ty ty w) c" using valid_keys[OF v] by (auto simp: key_ok_def)
  moreover have "key_ok ty p" using valid_keys[OF assms(2), of p] i by (auto simp: e split: if_splits)
  ultimately have "finite {c \<in> stored_keys kview cdb. parent c = Some p}" using children_rows[OF assms(1), of ty p cdb w True] by blast
  with i assms(3) show "\<exists>children. inst_fields i ! n = F_Many children \<and>
      set children = (\<lambda>c. the (lookup kview vview child cdb c)) ` {c \<in> stored_keys kview cdb. parent c = Some p}"
    by (auto simp: e many_column_def lookup_cols_nth split: if_splits)
qed

subsection \<open>The interface of an indexed column\<close>

text \<open>
  What a query by value needs of the table of its column: under the laws of the table, the keys of a value are
  the keys that have it, in ascending order. The streams of entities and of parents are proved over this interface; the
  index and the dictionary provide it.
\<close>

locale column_keys =
  fixes laws :: bool
    and keys_by :: "'v::order \<Rightarrow> pointer list res option"
    and column :: "pointer \<rightharpoonup> 'v"
  assumes answered: "laws \<Longrightarrow> finite {p. column p = Some v} \<and> keys_by v = Some (Inr (sorted_list_of_set {p. column p = Some v}))"
begin

lemma answered_ok:
  assumes "tables_ok K V kview vview" and "valid kview vview e db" and "value_column e db n tb"
    and laws and "vview tb = column"
  shows "\<exists>is. entities_with checks K V e db n (\<lambda>x. x = v) is \<and> sorted_wrt (<) (map inst_key is) \<and>
           keys_by v = Some (Inr (map inst_key is)) \<and>
           when_ok (keys_by v) (\<lambda>ks. compose_many checks K V e db (map Inr ks) None) = Some (Inr is) \<and>
           (\<forall>query. when_ok (keys_by v) (\<lambda>ks. Some (compose_many_stream checks K V e db (map Inr ks) query)) =
                      Some (Inr (ready (select query is))))"
proof -
  let ?ks = "sorted_list_of_set {p. vview tb p = Some v}"
  from answered[OF assms(4), of v] assms(5) have a: "finite {p. vview tb p = Some v}" "keys_by v = Some (Inr ?ks)" by simp_all
  note ek = entities_of_keys[OF assms(1-3), of ?ks "\<lambda>x. x = v"]
  have s: "set ?ks \<subseteq> stored_keys kview db" "entities_with checks K V e db n (\<lambda>x. x = v) (map (\<lambda>p. the (lookup kview vview e db p)) ?ks)"
    using ek a(1) by simp_all
  then show ?thesis
    by (intro exI[of _ "map (\<lambda>p. the (lookup kview vview e db p)) ?ks"])
      (simp add: a(2) looked_up(1)[of ?ks kview db, OF s(1)] compose_many_ok[OF assms(1,2) s(1)] del: map_map)
qed

lemma parent_streamed:
  assumes "tables_ok K V kview vview" and "valid kview vview e db" and "many_column e db n child cdb"
    and "value_column child cdb m tb" and laws and "vview tb = column"
  shows "\<exists>is. parents_with checks K V e db n m v is \<and> sorted_wrt (<) (map inst_key is) \<and>
           (\<forall>query. when_ok (keys_by v) (\<lambda>ks. map_option (\<lambda>parents. compose_many_stream checks K V e db (unique_parents {} (map Inr parents)) query)
                        (those (map parent ks))) = Some (Inr (ready (select query is))))"
proof -
  note child = many_column_ok[OF assms(1-3)]
  let ?ks = "sorted_list_of_set {c. vview tb c = Some v}" and ?get = "\<lambda>p. the (lookup kview vview e db p)"
  from answered[OF assms(5), of v] assms(6) have a: "finite {c. vview tb c = Some v}" "keys_by v = Some (Inr ?ks)" by simp_all
  have dom: "dom (vview tb) = stored_keys kview cdb" by (rule value_column_ok(1)[OF child(1) assms(4)])
  then have owned: "\<exists>p\<in>stored_keys kview db. parent c = Some p" if "vview tb c = Some v" for c using child(2)[of c] that by blast
  have "\<forall>k\<in>set ?ks. parent k \<noteq> None" using owned a(1) by auto
  from those_parents[OF strict_sorted_list_of_set this] obtain ps where
    ps: "those (map parent ?ks) = Some ps" "sorted_wrt (\<le>) ps" "set ps = {p. \<exists>c. vview tb c = Some v \<and> parent c = Some p}"
    using a(1) by auto
  from unique_parents_sorted[OF ps(2), of "{}"] obtain us where
    us: "unique_parents {} (map Inr ps) = map Inr us" "sorted_wrt (<) us" "set us = set ps" by auto
  have sub: "set us \<subseteq> stored_keys kview db" using us(3) ps(3) owned by fastforce
  have value_iff: "(\<exists>c. vview tb c = Some v \<and> parent c = Some (inst_key i)) \<longleftrightarrow>
      (\<exists>children c. inst_fields i ! n = F_Many children \<and> c \<in> set children \<and> inst_fields c ! m = F_Value v)"
    if i: "lookup kview vview e db (inst_key i) = Some i" for i
  proof -
    from child(3)[OF i] obtain children where ch: "inst_fields i ! n = F_Many children"
      "set children = (\<lambda>c. the (lookup kview vview child cdb c)) ` {c \<in> stored_keys kview cdb. parent c = Some (inst_key i)}" by blast
    have "inst_fields (the (lookup kview vview child cdb c)) ! m = F_Value v \<longleftrightarrow> vview tb c = Some v" if "c \<in> stored_keys kview cdb" for c
      using that lookup_Some[of c kview cdb vview child] value_column_ok(2)[OF child(1) assms(4), of c] by auto
    with ch dom show ?thesis by auto blast
  qed
  have "parents_with checks K V e db n m v (map ?get us)"
    unfolding parents_with_def get_ok[OF assms(1,2)] looked_up(2)[of us kview db, OF sub] us(3) ps(3) using value_iff by auto
  with us(2) show ?thesis
    by (intro exI[of _ "map ?get us"])
      (simp add: a(2) ps(1) us(1) looked_up(1)[of us kview db, OF sub] compose_many_ok(2)[OF assms(1,2) sub] del: map_map)
qed

end

subsection \<open>What the sharded tables answer\<close>

text \<open>
  The documented behaviour of the multimaps of redb: a lookup yields the keys of a value in ascending
  order, a range yields the values that have keys in ascending order, each with its keys.
\<close>

definition reads_ordered :: "('m, 'v, pointer, 'q) read_mm_ops \<Rightarrow> ('m \<Rightarrow> 'v \<Rightarrow> pointer set) \<Rightarrow> bool" where
  "reads_ordered ops view \<longleftrightarrow> (\<forall>m v. finite (view m v) \<and> rm_get ops m v = Inr (sorted_list_of_set (view m v)))"

definition ranges_ordered :: "('m, 'v::linorder, pointer, 'v \<times> 'v) read_mm_ops \<Rightarrow> ('m \<Rightarrow> 'v \<Rightarrow> pointer set) \<Rightarrow> bool" where
  "ranges_ordered ops view \<longleftrightarrow>
     (\<forall>m a b. let vs = {v. view m v \<noteq> {} \<and> a \<le> v \<and> v < b} in
        finite vs \<and> rm_range ops m (a, b) = Inr (map (\<lambda>v. (v, sorted_list_of_set (view m v))) (sorted_list_of_set vs)))"

text \<open>The shards of an index: inverse multimaps, values in the shard of the partitioner, no key in two shards.\<close>

definition index_column where
  "index_column E mv tv part ss \<longleftrightarrow>
     reads (rd_kv E) tv \<and> reads_ordered (rd_mm E) mv \<and>
     (\<forall>s\<in>set ss. \<forall>v k. k \<in> mv (ri_pk_by_index s) v \<longleftrightarrow> tv (ri_index_by_pk s) k = Some v) \<and>
     exclusive (\<lambda>s. tv (ri_index_by_pk s)) ss \<and> placed (\<lambda>s. tv (ri_index_by_pk s)) part ss \<and>
     (\<forall>v. \<exists>i < length ss. part v = Some i)"

definition dict_column where
  "dict_column E nv tv uv wv part ss \<longleftrightarrow>
     reads (rd_kk E) wv \<and> reads (rd_kv E) tv \<and> reads (rd_vk E) uv \<and> reads_ordered (rd_ids E) nv \<and>
     (\<forall>s\<in>set ss. dict_ok (read_dict_abs nv tv uv wv s)) \<and>
     exclusive (\<lambda>s. dict_contents (read_dict_abs nv tv uv wv s)) ss \<and>
     placed (\<lambda>s. dict_contents (read_dict_abs nv tv uv wv s)) part ss \<and>
     (\<forall>v. \<exists>i < length ss. part v = Some i)"

lemma reads_ordered_mm: "reads_ordered ops view \<Longrightarrow> reads_mm ops view"
  by (auto simp: reads_ordered_def reads_mm_def)

lemma ascending_set: "sorted_wrt (<) ks \<Longrightarrow> ks = sorted_list_of_set (set ks)" for ks :: "pointer list"
  by (metis strict_sorted_equal strict_sorted_list_of_set set_sorted_list_of_set List.finite_set)

lemma index_answers:
  assumes "index_column E mv tv part ss" and "\<And>p. index_get_value (rd_kv E) ss p = Inr (column p)"
  shows "finite {p. column p = Some v} \<and>
      reader_index_keys E (Index_Reader ss part) v = Some (Inr (sorted_list_of_set {p. column p = Some v}))"
proof -
  from assms(1) obtain i where i: "i < length ss" "part v = Some i" unfolding index_column_def by blast
  from assms(1) have r: "reads (rd_kv E) tv" "reads_ordered (rd_mm E) mv"
    "\<forall>s\<in>set ss. \<forall>v k. k \<in> mv (ri_pk_by_index s) v \<longleftrightarrow> tv (ri_index_by_pk s) k = Some v"
    "exclusive (\<lambda>s. tv (ri_index_by_pk s)) ss" "placed (\<lambda>s. tv (ri_index_by_pk s)) part ss" by (simp_all add: index_column_def)
  from index_reader_inverse[OF r(1) reads_ordered_mm[OF r(2)] r(3-5) i(2,1)] obtain ks where
    ks: "index_index_keys (rd_mm E) part ss v = Some (Inr ks)" "set ks = {p. column p = Some v}" by (auto simp: assms(2))
  have "sorted_wrt (<) ks"
    using ks(1) r(2) pick_shard_found[of part v i ss] i by (simp add: index_index_keys_def reads_ordered_def) (metis strict_sorted_list_of_set)
  moreover have "reader_index_keys E (Index_Reader ss part) v = Some (Inr ks)" by (simp add: reader_index_keys_def ks(1))
  ultimately show "finite {p. column p = Some v} \<and>
      reader_index_keys E (Index_Reader ss part) v = Some (Inr (sorted_list_of_set {p. column p = Some v}))"
    using ks(2) ascending_set[of ks] by (metis List.finite_set)
qed

interpretation index_keys: column_keys
  "index_column E mv tv part ss \<and> (\<forall>p. index_get_value (rd_kv E) ss p = Inr (column p))" "reader_index_keys E (Index_Reader ss part)" column
  for E :: "('t, 'u, 'w, 'm, 'n, pointer, 'v::order, 'r, 'q) reader_env" and mv tv part ss column
  by unfold_locales (elim conjE, rule index_answers, assumption, simp)

lemma dict_answers:
  assumes "dict_column E nv tv uv wv part ss" and "\<And>p. dict_get_value (rd_kk E) (rd_kv E) ss p = Inr (column p)"
  shows "finite {p. column p = Some v} \<and>
      dict_iter E (Dict_Reader ss part) v = Some (Inr (sorted_list_of_set {p. column p = Some v}))"
proof -
  from assms(1) obtain i where i: "i < length ss" "part v = Some i" unfolding dict_column_def by blast
  from assms(1) have r: "reads (rd_kk E) wv" "reads (rd_kv E) tv" "reads (rd_vk E) uv" "reads_ordered (rd_ids E) nv"
    "\<forall>s\<in>set ss. dict_ok (read_dict_abs nv tv uv wv s)" "exclusive (\<lambda>s. dict_contents (read_dict_abs nv tv uv wv s)) ss"
    "placed (\<lambda>s. dict_contents (read_dict_abs nv tv uv wv s)) part ss" by (simp_all add: dict_column_def)
  from dict_reader_inverse[OF r(1-3) reads_ordered_mm[OF r(4)] r(5-7) i(2,1)] obtain kso where
    k: "dict_dict_keys (rd_vk E) (rd_ids E) part ss v = Some (Inr kso)" "\<And>p. (\<exists>ks. kso = Some ks \<and> p \<in> set ks) \<longleftrightarrow> column p = Some v"
    by (auto simp: assms(2))
  define ks where "ks = (case kso of None \<Rightarrow> [] | Some ks \<Rightarrow> ks)"
  have s: "set ks = {p. column p = Some v}" using k(2) by (auto simp: ks_def split: option.split)
  have "sorted_wrt (<) ks"
    using k(1) r(3,4) pick_shard_found[of part v i ss] i
    by (auto simp: dict_dict_keys_def reads_ordered_def reads_def ks_def split: option.splits)
  then have "ks = sorted_list_of_set {p. column p = Some v}" using ascending_set[of ks] s by simp
  moreover have "dict_iter E (Dict_Reader ss part) v = Some (Inr ks)"
    by (simp add: dict_iter_def reader_dict_keys_def k(1) ks_def)
  ultimately show "finite {p. column p = Some v} \<and>
      dict_iter E (Dict_Reader ss part) v = Some (Inr (sorted_list_of_set {p. column p = Some v}))"
    using s by (metis List.finite_set)
qed

interpretation dict_keys: column_keys
  "dict_column E nv tv uv wv part ss \<and> (\<forall>p. dict_get_value (rd_kk E) (rd_kv E) ss p = Inr (column p))" "dict_iter E (Dict_Reader ss part)" column
  for E :: "('t, 'u, 'w, 'm, 'n, pointer, 'v::order, 'r, 'v \<times> 'v) reader_env" and nv tv uv wv part ss column
  by unfold_locales (elim conjE, rule dict_answers, assumption, simp)

lemma dict_keys_iter: "get_keys_by_dict E rd v = dict_iter E rd v"
  by (simp add: get_keys_by_dict_def dict_iter_def when_ok_def split: option.split sum.split)

subsection \<open>Ranges of values\<close>

lemma sorted_wrt_concat:
  "sorted_wrt R (concat xss) \<longleftrightarrow> (\<forall>xs\<in>set xss. sorted_wrt R xs) \<and> sorted_wrt (\<lambda>xs ys. \<forall>x\<in>set xs. \<forall>y\<in>set ys. R x y) xss"
  by (induction xss) (auto simp: sorted_wrt_append)

lemma range_rows_sorted:
  assumes "\<And>v. finite (f v)" and "\<And>v p. p \<in> f v \<longleftrightarrow> column p = Some v" and "finite vs"
  shows "sorted_wrt (\<lambda>p q. the (column p) < the (column q) \<or> column p = column q \<and> p < q)
           (concat (map (\<lambda>v. sorted_list_of_set (f v)) (sorted_list_of_set vs)))"
  (is "sorted_wrt ?R _")
proof -
  have "sorted_wrt ?R (sorted_list_of_set (f v))" for v
    by (rule sorted_wrt_mono_rel[OF _ strict_sorted_list_of_set]) (use assms(1,2) in simp)
  moreover have "sorted_wrt (\<lambda>u v. \<forall>p\<in>f u. \<forall>q\<in>f v. ?R p q) (sorted_list_of_set vs)"
    by (rule sorted_wrt_mono_rel[OF _ strict_sorted_list_of_set]) (use assms(2) in auto)
  ultimately show ?thesis using assms(1) by (simp add: sorted_wrt_concat sorted_wrt_map)
qed

lemma sorted_wrt_distinct: "sorted_wrt R xs \<Longrightarrow> (\<And>x. \<not> R x x) \<Longrightarrow> distinct xs"
  by (induction xs) auto

definition row_before :: "nat \<Rightarrow> 'v::linorder einst \<Rightarrow> 'v einst \<Rightarrow> bool" where
  "row_before n i j \<longleftrightarrow>
     (\<exists>u v. inst_fields i ! n = F_Value u \<and> inst_fields j ! n = F_Value v \<and> (u < v \<or> u = v \<and> inst_key i < inst_key j))"

lemma map_sum_Many [simp]: "map_sum id F_Many z = Inr (F_Many is) \<longleftrightarrow> z = Inr is"
  by (cases z) simp_all

subsection \<open>Properties\<close>

text \<open>
  C30. The queries of an indexed column: when the column of a valid entity is the table of the reader, the
  keys of a value, the entities of a value and the stream of a value are those of exactly the stored entities
  that have the value, each once, in the order of their keys. A stream with a query holds the selected parts
  of the same entities, and no item of it fails.
\<close>

theorem index_queries_exact:
  assumes "tables_ok K V kview vview" and "valid kview vview e db" and "value_column e db n tb"
    and "index_column E mv tv part ss" and "\<forall>p. tbl_get V tb p = index_get_value (rd_kv E) ss p"
  shows "\<exists>is. entities_with checks K V e db n (\<lambda>x. x = v) is \<and> sorted_wrt (<) (map inst_key is) \<and>
           get_keys_by_index E (Index_Reader ss part) v = Some (Inr (map inst_key is)) \<and>
           get_by_index checks K V e db E (Index_Reader ss part) v = Some (Inr is) \<and>
           (\<forall>query. stream_by_index checks K V e db E (Index_Reader ss part) v query = Some (Inr (ready (select query is))))"
proof -
  have get: "\<forall>p. index_get_value (rd_kv E) ss p = Inr (vview tb p)"
    using assms(5) tables_okD(4)[OF assms(1)] by metis
  from index_keys.answered_ok[OF assms(1-3) conjI[OF assms(4) get] refl, of checks v] show ?thesis
    by (simp add: get_keys_by_index_def get_by_index_def stream_by_index_def)
qed

text \<open>
  The same for a column with a dictionary, whose keys come from the dictionary of the shard of the value.
\<close>

theorem dict_queries_exact:
  assumes "tables_ok K V kview vview" and "valid kview vview e db" and "value_column e db n tb"
    and "dict_column E nv tv uv wv part ss" and "\<forall>p. tbl_get V tb p = dict_get_value (rd_kk E) (rd_kv E) ss p"
  shows "\<exists>is. entities_with checks K V e db n (\<lambda>x. x = v) is \<and> sorted_wrt (<) (map inst_key is) \<and>
           get_keys_by_dict E (Dict_Reader ss part) v = Some (Inr (map inst_key is)) \<and>
           get_by_dict checks K V e db E (Dict_Reader ss part) v = Some (Inr is) \<and>
           (\<forall>query. stream_by_dict checks K V e db E (Dict_Reader ss part) v query = Some (Inr (ready (select query is))))"
proof -
  have get: "\<forall>p. dict_get_value (rd_kk E) (rd_kv E) ss p = Inr (vview tb p)"
    using assms(5) tables_okD(4)[OF assms(1)] by metis
  from dict_keys.answered_ok[OF assms(1-3) conjI[OF assms(4) get] refl, of checks v] show ?thesis
    by (simp add: dict_keys_iter get_by_dict_def stream_by_dict_def)
qed

text \<open>
  Ranges of values of an index in one shard return the entities whose value lies in the range, each
  once, in the order of their values and, for equal values, of their keys. For an index of several shards the
  same query panics.
\<close>

theorem range_queries_exact:
  assumes "tables_ok K V kview vview" and "valid kview vview e db" and "value_column e db n tb"
    and "index_column E mv tv part [s]" and "\<forall>p. tbl_get V tb p = index_get_value (rd_kv E) [s] p" and "ranges_ordered (rd_mm E) mv"
  shows "(\<exists>is. entities_with checks K V e db n (\<lambda>x. a \<le> x \<and> x < b) is \<and> sorted_wrt (row_before n) is \<and>
            range_by_index checks K V e db E (Index_Reader [s] part) a b = Some (Inr is) \<and>
            (\<forall>query. stream_range_by_index checks K V e db E (Index_Reader [s] part) a b query = Some (Inr (ready (select query is))))) \<and>
         (\<forall>ss. 2 \<le> length ss \<longrightarrow> range_by_index checks K V e db E (Index_Reader ss part) a b = None)"
proof -
  let ?f = "mv (ri_pk_by_index s)" and ?get = "\<lambda>p. the (lookup kview vview e db p)"
  let ?vs = "{v. ?f v \<noteq> {} \<and> a \<le> v \<and> v < b}"
  let ?ks = "concat (map (\<lambda>v. sorted_list_of_set (?f v)) (sorted_list_of_set ?vs))"
  from assms(4) have laws: "\<And>v. finite (?f v)" "\<And>v p. p \<in> ?f v \<longleftrightarrow> tv (ri_index_by_pk s) p = Some v" "reads (rd_kv E) tv"
    by (auto simp: index_column_def reads_ordered_def)
  have "vview tb p = tv (ri_index_by_pk s) p" for p
    using assms(5) tables_okD(4)[OF assms(1), of tb p] laws(3) by (simp add: reads_def split: option.splits)
  with laws(2) have f: "p \<in> ?f v \<longleftrightarrow> vview tb p = Some v" for p v by simp
  from assms(6) have vs: "finite ?vs" "rm_range (rd_mm E) (ri_pk_by_index s) (a, b) = Inr (map (\<lambda>v. (v, sorted_list_of_set (?f v))) (sorted_list_of_set ?vs))"
    by (auto simp: ranges_ordered_def Let_def)
  have rows: "reader_index_range E (Index_Reader [s] part) (a, b) = Some (Inr (map (\<lambda>v. (v, sorted_list_of_set (?f v))) (sorted_list_of_set ?vs)))"
    by (simp add: reader_index_range_def only_shard_def vs(2))
  have ordered: "sorted_wrt (\<lambda>p q. the (vview tb p) < the (vview tb q) \<or> vview tb p = vview tb q \<and> p < q) ?ks"
    by (rule range_rows_sorted[OF laws(1) f vs(1)])
  have mem: "p \<in> set ?ks \<longleftrightarrow> (\<exists>v. vview tb p = Some v \<and> (a \<le> v \<and> v < b))" for p
  proof -
    have "p \<in> set ?ks \<longleftrightarrow> (\<exists>v. v \<in> ?vs \<and> p \<in> ?f v)" using vs(1) laws(1) by auto
    then show ?thesis using f by blast
  qed
  have "distinct ?ks" by (rule sorted_wrt_distinct[OF ordered]) simp
  note ek = entities_of_keys[OF assms(1-3) this mem]
  note sub = ek(1)
  have "row_before n (?get p) (?get q)"
    if pq: "p \<in> set ?ks" "q \<in> set ?ks" and less: "the (vview tb p) < the (vview tb q) \<or> vview tb p = vview tb q \<and> p < q" for p q
  proof -
    have "\<exists>i u. lookup kview vview e db k = Some i \<and> inst_key i = k \<and> vview tb k = Some u \<and> inst_fields i ! n = F_Value u"
      if "k \<in> set ?ks" for k
      using that sub mem[of k] lookup_Some[of k kview db vview e] lookup_key[of kview vview e db k] value_column_ok(2)[OF assms(2,3), of k] by blast
    from this[OF pq(1)] this[OF pq(2)] less show ?thesis by (auto simp: row_before_def)
  qed
  then have "sorted_wrt (row_before n) (map ?get ?ks)"
    unfolding sorted_wrt_map by (rule sorted_wrt_mono_rel[OF _ ordered])
  moreover have "entities_with checks K V e db n (\<lambda>x. a \<le> x \<and> x < b) (map ?get ?ks)" by (rule ek(2))
  moreover have cat: "concat (map snd (map (\<lambda>v. (v, sorted_list_of_set (?f v))) (sorted_list_of_set ?vs))) = ?ks" by (simp add: o_def)
  have "range_by_index checks K V e db E (Index_Reader [s] part) a b = Some (Inr (map ?get ?ks))"
    by (simp only: range_by_index_def rows when_ok_simps cat compose_many_ok[OF assms(1,2) sub])
  moreover have "\<forall>query. stream_range_by_index checks K V e db E (Index_Reader [s] part) a b query = Some (Inr (ready (select query (map ?get ?ks))))"
    by (simp only: stream_range_by_index_def rows when_ok_simps cat compose_many_ok[OF assms(1,2) sub]) simp
  moreover have "\<forall>ss. 2 \<le> length ss \<longrightarrow> range_by_index checks K V e db E (Index_Reader ss part) a b = None"
    by (auto simp: range_by_index_def reader_index_range_def only_shard_def)
  ultimately show ?thesis by blast
qed

text \<open>
  C31. The parents of the entities of a value: the stream holds every entity one of whose children has the
  value, once, in the order of the keys, however many children have it.
\<close>

theorem parents_streamed_once:
  assumes "tables_ok K V kview vview" and "valid kview vview e db" and "many_column e db n child cdb" and "value_column child cdb m tb"
    and "index_column E mv tv part ss" and "\<forall>p. tbl_get V tb p = index_get_value (rd_kv E) ss p"
  shows "\<exists>is. parents_with checks K V e db n m v is \<and> sorted_wrt (<) (map inst_key is) \<and>
           (\<forall>query. stream_parents_by_index checks K V e db E (Index_Reader ss part) v query = Some (Inr (ready (select query is))))"
proof -
  have get: "\<forall>p. index_get_value (rd_kv E) ss p = Inr (vview tb p)"
    using assms(6) tables_okD(4)[OF assms(1)] by metis
  from index_keys.parent_streamed[OF assms(1-4) conjI[OF assms(5) get] refl, of checks v] show ?thesis
    by (simp add: stream_parents_by_index_def)
qed

theorem dict_parents_streamed_once:
  assumes "tables_ok K V kview vview" and "valid kview vview e db" and "many_column e db n child cdb" and "value_column child cdb m tb"
    and "dict_column E nv tv uv wv part ss" and "\<forall>p. tbl_get V tb p = dict_get_value (rd_kk E) (rd_kv E) ss p"
  shows "\<exists>is. parents_with checks K V e db n m v is \<and> sorted_wrt (<) (map inst_key is) \<and>
           (\<forall>query. stream_parents_by_dict checks K V e db E (Dict_Reader ss part) v query = Some (Inr (ready (select query is))))"
proof -
  have get: "\<forall>p. dict_get_value (rd_kk E) (rd_kv E) ss p = Inr (vview tb p)"
    using assms(6) tables_okD(4)[OF assms(1)] by metis
  from dict_keys.parent_streamed[OF assms(1-4) conjI[OF assms(5) get] refl, of checks v] show ?thesis
    by (simp add: stream_parents_by_dict_def)
qed

text \<open>
  Reading relationships: the children of a key are read as the field of the composed entity, and a
  transient field holds, for the entities of the outer field in order, the entities that they point to; a
  pointer to nothing is left out.
\<close>

theorem relationships_read:
  assumes "tables_ok K V kview vview" and "valid kview vview e db" and "many_column e db n child cdb"
    and "get checks K V e db p = Some (Inr (Some i))"
  shows "\<exists>children. inst_fields i ! n = F_Many children \<and>
           get_many_children checks K V child cdb (ent_key e) p = Some (Inr children) \<and>
           (\<exists>found. (\<forall>o'. get checks K V child cdb (inner o') = Some (Inr (found o'))) \<and>
              read_from_outer checks K V child cdb inner outer = Some (Inr (List.map_filter found outer)))"
proof -
  obtain root ty cols where e: "e = Ent root ty cols" by (cases e)
  from assms(4) have i: "lookup kview vview e db p = Some i" by (simp add: get_ok[OF assms(1,2)])
  then have p: "p \<in> stored_keys kview db" by (auto simp: e split: if_splits)
  have "valid_col kview vview ty (stored_keys kview db) (E_Many child) (Sub cdb)"
    using assms(2,3) valid_cols_nth[of kview vview ty "stored_keys kview db" cols "edb_tabs db" n] by (simp add: e many_column_def)
  from compose_ok(2)[OF assms(1) this p, of checks] valid_keys[OF assms(2) p]
  have "compose_col checks K V ty (E_Many child) (Sub cdb) p = Some (Inr (lookup_col kview vview (E_Many child) (Sub cdb) p))"
    by (simp add: e)
  moreover have "inst_fields i ! n = lookup_col kview vview (E_Many child) (Sub cdb) p"
    using i assms(3) by (auto simp: e many_column_def lookup_cols_nth split: if_splits)
  moreover have "read_from_outer checks K V child cdb inner outer = Some (Inr (List.map_filter (\<lambda>o'. lookup kview vview child cdb (inner o')) outer))"
    by (induction outer) (simp_all add: get_ok[OF assms(1) many_column_ok(1)[OF assms(1-3)]] map_filter_simps split: option.split)
  ultimately show ?thesis
    by (intro exI[of _ "map (\<lambda>c. the (lookup kview vview child cdb c)) (sorted_list_of_set {c \<in> stored_keys kview cdb. parent c = Some p})"])
      (auto simp: e get_many_children_def range_query_def range_ent_def get_ok[OF assms(1) many_column_ok(1)[OF assms(1-3)]]
        intro!: exI[of _ "\<lambda>o'. lookup kview vview child cdb (inner o')"] split: option.splits prod.splits sum.splits)
qed

subsection \<open>Witnesses\<close>

definition demo_read_ops :: "('k \<rightharpoonup> 'v, 'k, 'v, 'r) read_ops" where
  "demo_read_ops =
     \<lparr>ro_get = (\<lambda>t k. Inr (t k)), ro_first = (\<lambda>_. Inr None), ro_last = (\<lambda>_. Inr None), ro_range = (\<lambda>_ _. Inr []),
      ro_iter = (\<lambda>_. Inr []), ro_len = (\<lambda>_. Inr 0), ro_stats = (\<lambda>_. Inl (Custom ''stats''))\<rparr>"

definition demo_read_mm :: "(nat \<Rightarrow> pointer list, nat, pointer, nat \<times> nat) read_mm_ops" where
  "demo_read_mm =
     \<lparr>rm_get = (\<lambda>m v. Inr (sorted_list_of_set (set (m v)))),
      rm_range = (\<lambda>m (a, b). Inr (map (\<lambda>v. (v, sorted_list_of_set (set (m v)))) (sorted_list_of_set {v. set (m v) \<noteq> {} \<and> a \<le> v \<and> v < b}))),
      rm_len = (\<lambda>_. Inr 0), rm_stats = (\<lambda>_. Inl (Custom ''stats''))\<rparr>"

definition demo_ids :: "(pointer \<Rightarrow> pointer list, pointer, pointer, unit) read_mm_ops" where
  "demo_ids =
     \<lparr>rm_get = (\<lambda>m v. Inr (sorted_list_of_set (set (m v)))), rm_range = (\<lambda>_ _. Inr []), rm_len = (\<lambda>_. Inr 0),
      rm_stats = (\<lambda>_. Inl (Custom ''stats''))\<rparr>"

definition demo_reader_env :: "(pointer \<rightharpoonup> nat, nat \<rightharpoonup> pointer, pointer \<rightharpoonup> pointer, nat \<Rightarrow> pointer list, pointer \<Rightarrow> pointer list, nat, unit) column_env" where
  "demo_reader_env = \<lparr>rd_kv = demo_read_ops, rd_vk = demo_read_ops, rd_kk = demo_read_ops, rd_mm = demo_read_mm, rd_ids = demo_ids\<rparr>"

definition demo_shard :: "pointer list \<Rightarrow> nat \<Rightarrow> (nat \<Rightarrow> pointer list, pointer \<rightharpoonup> nat) read_index_table" where
  "demo_shard ps x =
     \<lparr>ri_pk_by_index = (\<lambda>v. if v = x then ps else []), ri_index_by_pk = (\<lambda>p. if p \<in> set ps then Some x else None)\<rparr>"

definition demo_read_dict :: "(pointer \<Rightarrow> pointer list, pointer \<rightharpoonup> nat, nat \<rightharpoonup> pointer, pointer \<rightharpoonup> pointer) read_dict_table" where
  "demo_read_dict =
     \<lparr>rdt_dict_pk_to_ids = (\<lambda>p. if p = Root 5 then [Root 5] else []), rdt_value_by_dict_pk = [Root 5 \<mapsto> 7],
      rdt_value_to_dict_pk = [7 \<mapsto> Root 5], rdt_dict_pk_by_id = [Root 5 \<mapsto> Root 5]\<rparr>"

definition demo_db3 :: "((pointer \<times> unit) list, (pointer \<times> nat) list) edb" where
  "demo_db3 =
     Edb [(Root 5, ())]
       [Tab [(Root 5, 7)], Sub (Edb [(Root 5, ())] [Tab [(Root 5, 8)]]),
        Sub (Edb [(Child (Root 5) 3, ()), (Child (Root 5) 0, ())] [Tab [(Child (Root 5) 3, 9), (Child (Root 5) 0, 9)]])]"

lemma demo_reader_reads:
  "reads (rd_kv demo_reader_env) (\<lambda>t. t)" "reads (rd_vk demo_reader_env) (\<lambda>t. t)" "reads (rd_kk demo_reader_env) (\<lambda>t. t)"
  "reads_ordered (rd_mm demo_reader_env) (\<lambda>m v. set (m v))" "reads_ordered (rd_ids demo_reader_env) (\<lambda>m v. set (m v))"
  "ranges_ordered (rd_mm demo_reader_env) (\<lambda>m v. set (m v))"
  by (simp_all add: demo_reader_env_def demo_read_ops_def demo_read_mm_def demo_ids_def reads_def reads_ordered_def ranges_ordered_def Let_def)

lemma demo_index_column: "index_column demo_reader_env (\<lambda>m v. set (m v)) (\<lambda>t. t) (\<lambda>v. Some 0) [demo_shard ps x]"
  by (auto simp: index_column_def demo_reader_reads demo_shard_def exclusive_def placed_def)

lemma demo_read_dict_column: "dict_column demo_reader_env (\<lambda>m v. set (m v)) (\<lambda>t. t) (\<lambda>t. t) (\<lambda>t. t) (\<lambda>v. Some 0) [demo_read_dict]"
  by (auto simp: dict_column_def demo_reader_reads demo_read_dict_def exclusive_def placed_def dict_ok_def read_dict_abs_def)

lemma demo_valid3: "valid map_of map_of demo_block demo_db3"
  by (auto simp: demo_block_def demo_db3_def key_ok_def add_index_def split: if_splits)

lemma demo_column: "value_column demo_block demo_db1 0 [(Root 5, 7)]"
  by (simp add: value_column_def demo_block_def demo_db1_def)

lemma demo_index_get: "\<forall>p. tbl_get demo_vals [(Root 5, 7)] p = index_get_value (rd_kv demo_reader_env) [demo_shard [Root 5] 7] p"
  by (simp add: alist_table_ops_def demo_reader_env_def demo_read_ops_def demo_shard_def)

theorem index_queries_exact_witness:
  "\<exists>is. entities_with True demo_keys demo_vals demo_block demo_db1 0 (\<lambda>x. x = 7) is \<and>
     get_by_index True demo_keys demo_vals demo_block demo_db1 demo_reader_env (Index_Reader [demo_shard [Root 5] 7] (\<lambda>v. Some 0)) 7 = Some (Inr is)"
  using index_queries_exact[OF demo_tables demo_valid1 demo_column demo_index_column demo_index_get, of True 7] by blast

theorem dict_queries_exact_witness:
  "\<exists>is. entities_with True demo_keys demo_vals demo_block demo_db1 0 (\<lambda>x. x = 7) is \<and>
     get_by_dict True demo_keys demo_vals demo_block demo_db1 demo_reader_env (Dict_Reader [demo_read_dict] (\<lambda>v. Some 0)) 7 = Some (Inr is)"
proof -
  have "\<forall>p. tbl_get demo_vals [(Root 5, 7)] p = dict_get_value (rd_kk demo_reader_env) (rd_kv demo_reader_env) [demo_read_dict] p"
    by (simp add: alist_table_ops_def demo_reader_env_def demo_read_ops_def demo_read_dict_def)
  from dict_queries_exact[OF demo_tables demo_valid1 demo_column demo_read_dict_column this, of True 7] show ?thesis by blast
qed

theorem range_queries_exact_witness:
  "\<exists>is. entities_with True demo_keys demo_vals demo_block demo_db1 0 (\<lambda>x. 5 \<le> x \<and> x < 9) is \<and>
     range_by_index True demo_keys demo_vals demo_block demo_db1 demo_reader_env (Index_Reader [demo_shard [Root 5] 7] (\<lambda>v. Some 0)) 5 9 = Some (Inr is)"
  using range_queries_exact[OF demo_tables demo_valid1 demo_column demo_index_column demo_index_get demo_reader_reads(6), of True 5 9] by blast

theorem parents_streamed_once_witness:
  "\<exists>is. parents_with True demo_keys demo_vals demo_block demo_db3 2 0 9 is \<and>
     stream_parents_by_index True demo_keys demo_vals demo_block demo_db3 demo_reader_env
       (Index_Reader [demo_shard [Child (Root 5) 0, Child (Root 5) 3] 9] (\<lambda>v. Some 0)) 9 None = Some (Inr (ready is))"
proof -
  have "many_column demo_block demo_db3 2 (Ent False (Child_Ty (Root_Ty 4) 2) [E_Value])
      (Edb [(Child (Root 5) 3, ()), (Child (Root 5) 0, ())] [Tab [(Child (Root 5) 3, 9), (Child (Root 5) 0, 9)]])"
    by (simp add: many_column_def demo_block_def demo_db3_def)
  moreover have "value_column (Ent False (Child_Ty (Root_Ty 4) 2) [E_Value])
      (Edb [(Child (Root 5) 3, ()), (Child (Root 5) 0, ())] [Tab [(Child (Root 5) 3, 9), (Child (Root 5) 0, 9)]]) 0
      [(Child (Root 5) 3, 9), (Child (Root 5) 0, 9)]"
    by (simp add: value_column_def)
  moreover have "\<forall>p. tbl_get demo_vals [(Child (Root 5) 3, 9), (Child (Root 5) 0, 9)] p =
      index_get_value (rd_kv demo_reader_env) [demo_shard [Child (Root 5) 0, Child (Root 5) 3] 9] p"
    by (simp add: alist_table_ops_def demo_reader_env_def demo_read_ops_def demo_shard_def)
  ultimately show ?thesis
    using parents_streamed_once[OF demo_tables demo_valid3 _ _ demo_index_column, where checks = True and v = 9] by (fastforce simp: select_def)
qed

theorem relationships_read_witness:
  "\<exists>children. get_many_children True demo_keys demo_vals (Ent False (Child_Ty (Root_Ty 4) 2) [E_Value])
       (Edb [(Child (Root 5) 3, ()), (Child (Root 5) 0, ())] [Tab [(Child (Root 5) 3, 9), (Child (Root 5) 0, 9)]]) (Root_Ty 4) (Root 5) =
     Some (Inr children)"
proof -
  have m: "many_column demo_block demo_db3 2 (Ent False (Child_Ty (Root_Ty 4) 2) [E_Value])
      (Edb [(Child (Root 5) 3, ()), (Child (Root 5) 0, ())] [Tab [(Child (Root 5) 3, 9), (Child (Root 5) 0, 9)]])"
    by (simp add: many_column_def demo_block_def demo_db3_def)
  have "\<exists>i. get True demo_keys demo_vals demo_block demo_db3 (Root 5) = Some (Inr (Some i))"
    by (simp add: get_ok[OF demo_tables demo_valid3]) (simp add: demo_block_def demo_db3_def)
  then obtain i where "get True demo_keys demo_vals demo_block demo_db3 (Root 5) = Some (Inr (Some i))" by blast
  from relationships_read[OF demo_tables demo_valid3 m this, of id "[]"] show ?thesis by (auto simp: demo_block_def)
qed

end
