(* ===== verification/Context.thy ===== *)
theory Context
  imports Table_Writer
begin

section \<open>Write contexts and the two-phase commit\<close>

text \<open>
  The model of \<open>WriteTxContext\<close> in \<open>redbit/src/storage/context.rs\<close> and of the contexts that the entity macro
  generates (\<open>macros/src/entity/context.rs\<close>). A context is the list of its components, the table writers of
  an entity and the contexts of the entities it owns, in the order of the columns. The tables have
  different types, so the state of all of them is one type of worlds \<open>'w\<close>, and a future is a function of
  the world: waiting for it may change the world and gives a result; \<open>None\<close> is a wait that does not end or
  a panic. \<open>table_component\<close> is the component of a \<open>ShardedTableWriter\<close>.
\<close>

type_synonym ('w, 'a) future = "'w \<Rightarrow> ('w \<times> 'a res) option"

record ('w, 'd) component =
  begin_async_ref :: "'d \<Rightarrow> 'w \<Rightarrow> ('w \<times> ('w, unit) future list res) option"
  commit_with_ref :: "'w \<Rightarrow> ('w \<times> ('w, task_result) future list res) option"
  stop_async_ref :: "'w \<Rightarrow> ('w \<times> ('w, unit) future list res) option"

subsection \<open>The context as a loop over its components\<close>

text \<open>\<open>for c in self.writer_refs() { v.extend(f(c)?) }\<close>\<close>

fun extend_all :: "('c \<Rightarrow> 'w \<Rightarrow> ('w \<times> 'f list res) option) \<Rightarrow> 'c list \<Rightarrow> 'w \<Rightarrow> ('w \<times> 'f list res) option" where
  "extend_all f [] w = Some (w, Inr [])"
| "extend_all f (c # cs) w =
     do {
       (w1, r) \<leftarrow> f c w;
       (case r of
          Inl e \<Rightarrow> Some (w1, Inl e)
        | Inr fs \<Rightarrow> map_option (\<lambda>(w2, rs). (w2, map_sum id (\<lambda>gs. fs @ gs) rs)) (extend_all f cs w1))
     }"

definition begin_writing_async :: "('w, 'd) component list \<Rightarrow> 'd \<Rightarrow> 'w \<Rightarrow> ('w \<times> ('w, unit) future list res) option" where
  "begin_writing_async ctx d w = extend_all (\<lambda>c. begin_async_ref c d) ctx w"

definition commit_ctx_async :: "('w, 'd) component list \<Rightarrow> 'w \<Rightarrow> ('w \<times> ('w, task_result) future list res) option" where
  "commit_ctx_async ctx w = extend_all commit_with_ref ctx w"

definition stop_writing_async :: "('w, 'd) component list \<Rightarrow> 'w \<Rightarrow> ('w \<times> ('w, unit) future list res) option" where
  "stop_writing_async ctx w = extend_all stop_async_ref ctx w"

text \<open>A context is a component of the context that owns it.\<close>

definition ctx_component :: "('w, 'd) component list \<Rightarrow> ('w, 'd) component" where
  "ctx_component ctx =
     \<lparr>begin_async_ref = begin_writing_async ctx, commit_with_ref = commit_ctx_async ctx, stop_async_ref = stop_writing_async ctx\<rparr>"

fun wait_all :: "('w, unit) future list \<Rightarrow> 'w \<Rightarrow> ('w \<times> unit res) option" where
  "wait_all [] w = Some (w, Inr ())"
| "wait_all (f # fs) w =
     do {
       (w1, r) \<leftarrow> f w;
       (case r of Inl e \<Rightarrow> Some (w1, Inl e) | Inr _ \<Rightarrow> wait_all fs w1)
     }"

text \<open>\<open>?\<close> on a result with a world.\<close>

definition and_then :: "('w \<times> 'a res) option \<Rightarrow> ('w \<Rightarrow> 'a \<Rightarrow> ('w \<times> 'b res) option) \<Rightarrow> ('w \<times> 'b res) option" where
  "and_then m f = Option.bind m (\<lambda>(w, r). case r of Inl e \<Rightarrow> Some (w, Inl e) | Inr a \<Rightarrow> f w a)"

definition begin_writing :: "('w, 'd) component list \<Rightarrow> 'd \<Rightarrow> 'w \<Rightarrow> ('w \<times> unit res) option" where
  "begin_writing ctx d w = and_then (begin_writing_async ctx d w) (\<lambda>w1 futs. wait_all futs w1)"

definition stop_writing :: "('w, 'd) component list \<Rightarrow> 'w \<Rightarrow> ('w \<times> unit res) option" where
  "stop_writing ctx w = and_then (stop_writing_async ctx w) (\<lambda>w1 futs. wait_all futs w1)"

subsection \<open>Committing\<close>

fun dedup_wait :: "(string \<rightharpoonup> task_result) \<Rightarrow> ('w, task_result) future list \<Rightarrow> 'w \<Rightarrow> ('w \<times> (string \<rightharpoonup> task_result) res) option" where
  "dedup_wait by_name [] w = Some (w, Inr by_name)"
| "dedup_wait by_name (f # fs) w = and_then (f w) (\<lambda>w1 t. dedup_wait (keep_slowest by_name t) fs w1)"

definition two_phase_commit :: "('w, 'd) component list \<Rightarrow> 'w \<Rightarrow> ('w \<times> (string \<rightharpoonup> task_result) res) option" where
  "two_phase_commit ctx w = and_then (commit_ctx_async ctx w) (\<lambda>w1 futs. dedup_wait Map.empty futs w1)"

definition two_phase_commit_and_close :: "('w, 'd) component list \<Rightarrow> 'w \<Rightarrow> ('w \<times> (string \<rightharpoonup> task_result) res) option" where
  "two_phase_commit_and_close ctx w =
     and_then (two_phase_commit ctx w) (\<lambda>w1 tasks. and_then (stop_writing ctx w1) (\<lambda>w2 _. Some (w2, Inr tasks)))"

definition with_master :: "nat \<Rightarrow> (string \<rightharpoonup> task_result) \<Rightarrow> (string \<rightharpoonup> task_result)" where
  "with_master took tasks = (let m = task_result_master took in tasks(task_name m \<mapsto> m))"

text \<open>The closure of the caller is a function of the world; \<open>took\<close> is the time that it took.\<close>

definition two_phase_commit_or_rollback_and_close_with ::
    "('w, 'd) component list \<Rightarrow> ('w, 'r) future \<Rightarrow> nat \<Rightarrow> 'w \<Rightarrow> ('w \<times> (string \<rightharpoonup> task_result) res) option" where
  "two_phase_commit_or_rollback_and_close_with ctx f took w =
     do {
       (w1, r) \<leftarrow> f w;
       (case r of
          Inr _ \<Rightarrow> and_then (two_phase_commit_and_close ctx w1) (\<lambda>w2 tasks. Some (w2, Inr (with_master took tasks)))
        | Inl err \<Rightarrow> and_then (stop_writing ctx w1) (\<lambda>w2 _. Some (w2, Inl err)))
     }"

definition two_phase_commit_with ::
    "('w, 'd) component list \<Rightarrow> ('w, 'r) future \<Rightarrow> nat \<Rightarrow> 'w \<Rightarrow> ('w \<times> (string \<rightharpoonup> task_result) res) option" where
  "two_phase_commit_with ctx f took w =
     and_then (f w) (\<lambda>w1 _. and_then (two_phase_commit ctx w1) (\<lambda>w2 tasks. Some (w2, Inr (with_master took tasks))))"

subsection \<open>The component of a table writer\<close>

text \<open>
  A table writer with the queues of its shards is a part of the world; \<open>part_of\<close> and \<open>put\<close> read and write
  that part.
\<close>

definition table_component ::
    "('s, 'k, 'v, 'd, 'db) net_env \<Rightarrow> ('k, 'v) shard_fn \<Rightarrow> ('w \<Rightarrow> ('k, 'v) table_writer \<times> ('k, 'v, 'd) net) \<Rightarrow>
     ('w \<Rightarrow> ('k, 'v) table_writer \<times> ('k, 'v, 'd) net \<Rightarrow> 'w) \<Rightarrow> ('w, 'd) component" where
  "table_component E part part_of put =
     (let set_net = (\<lambda>w net. put w (fst (part_of w), net));
          wait_start = (\<lambda>fut w. map_option (\<lambda>r. (w, r)) (start_wait E (snd (part_of w)) fut));
          wait_stop = (\<lambda>fut w. map_option (\<lambda>r. (w, r)) (stop_wait E (snd (part_of w)) fut));
          wait_flush = (\<lambda>fut w. map_option (\<lambda>(net, r). (set_net w net, r)) (flush_wait E (snd (part_of w)) fut))
      in \<lparr>begin_async_ref =
            (\<lambda>d w. case begin_async E (snd (part_of w)) d of (net, r) \<Rightarrow> Some (set_net w net, map_sum id (map wait_start) r)),
          commit_with_ref =
            (\<lambda>w. map_option (\<lambda>(tw, net, r). (put w (tw, net), map_sum id (map wait_flush) r))
                   (flush_async E part (fst (part_of w)) (snd (part_of w)))),
          stop_async_ref =
            (\<lambda>w. case shutdown_async E (snd (part_of w)) of (net, r) \<Rightarrow> Some (set_net w net, map_sum id (map wait_stop) r))\<rparr>)"

subsection \<open>Loops over components and futures\<close>

lemma and_then_simps [simp]:
  "and_then None f = None" "and_then (Some (w, Inl e)) f = Some (w, Inl e)" "and_then (Some (w, Inr a)) f = f w a"
  by (simp_all add: and_then_def)

lemma and_then_SomeE:
  assumes "and_then m f = Some (w', r)"
  obtains e where "m = Some (w', Inl e)" "r = Inl e" | w1 a where "m = Some (w1, Inr a)" "f w1 a = Some (w', r)"
proof (cases m)
  case None
  with assms show ?thesis by simp
next
  case (Some x)
  with assms that show ?thesis by (cases x; cases "snd x") auto
qed

lemma extend_all_Cons: "extend_all f (c # cs) w = and_then (f c w) (\<lambda>w1 fs. and_then (extend_all f cs w1) (\<lambda>w2 gs. Some (w2, Inr (fs @ gs))))"
  by (auto simp: and_then_def split: Option.bind_splits option.splits sum.splits prod.splits)

lemma extend_all_append:
  "extend_all f (cs @ ds) w = and_then (extend_all f cs w) (\<lambda>w1 fs. and_then (extend_all f ds w1) (\<lambda>w2 gs. Some (w2, Inr (fs @ gs))))"
proof (induction cs arbitrary: w)
  case Nil
  show ?case by (auto simp: and_then_def split: Option.bind_splits sum.splits)
next
  case (Cons c cs)
  then show ?case
    by (auto simp: extend_all_Cons and_then_def simp del: extend_all.simps split: Option.bind_splits sum.splits)
qed

lemma dedup_wait_append:
  "dedup_wait tasks (fs @ gs) w = and_then (dedup_wait tasks fs w) (\<lambda>w1 tasks'. dedup_wait tasks' gs w1)"
  by (induction fs arbitrary: tasks w) (auto simp: and_then_def split: Option.bind_splits sum.splits)

text \<open>Components and futures that leave a part of the world alone.\<close>

definition keeps :: "('w \<Rightarrow> 'x) \<Rightarrow> ('w, 'a) future \<Rightarrow> bool" where
  "keeps part_of f \<longleftrightarrow> (\<forall>w w' r. f w = Some (w', r) \<longrightarrow> part_of w' = part_of w)"

definition commit_keeps :: "('w \<Rightarrow> 'x) \<Rightarrow> ('w, 'd) component \<Rightarrow> bool" where
  "commit_keeps part_of c \<longleftrightarrow>
     keeps part_of (commit_with_ref c) \<and>
     (\<forall>w w' fs. commit_with_ref c w = Some (w', Inr fs) \<longrightarrow> (\<forall>f\<in>set fs. keeps part_of f))"

lemma commit_ctx_keeps:
  assumes "\<forall>c\<in>set cs. commit_keeps part_of c" and "extend_all commit_with_ref cs w = Some (w', r)"
  shows "part_of w' = part_of w \<and> (\<forall>fs. r = Inr fs \<longrightarrow> (\<forall>f\<in>set fs. keeps part_of f))"
  using assms
proof (induction cs arbitrary: w r)
  case (Cons c cs)
  from Cons.prems(2)[unfolded extend_all_Cons] show ?case
  proof (cases rule: and_then_SomeE)
    case (1 e)
    then show ?thesis using Cons.prems(1) by (auto simp: commit_keeps_def keeps_def)
  next
    case (2 w1 fs)
    have 1: "part_of w1 = part_of w" "\<forall>f\<in>set fs. keeps part_of f"
      using 2(1) Cons.prems(1) by (auto simp: commit_keeps_def keeps_def)
    from 2(2) show ?thesis
    proof (cases rule: and_then_SomeE)
      case (1 e)
      with Cons.IH[of w1 "Inl e"] Cons.prems(1) \<open>part_of w1 = part_of w\<close> show ?thesis by simp
    next
      case (2 w2 gs)
      with Cons.IH[of w1 "Inr gs"] Cons.prems(1) 1 show ?thesis by auto
    qed
  qed
qed simp

lemma dedup_wait_keeps:
  "\<forall>f\<in>set fs. keeps part_of f \<Longrightarrow> dedup_wait tasks fs w = Some (w', r) \<Longrightarrow> part_of w' = part_of w"
proof (induction fs arbitrary: tasks w)
  case (Cons f fs)
  from Cons.prems(2) have "and_then (f w) (\<lambda>w1 t. dedup_wait (keep_slowest tasks t) fs w1) = Some (w', r)" by simp
  then show ?case
  proof (cases rule: and_then_SomeE)
    case (1 e)
    then show ?thesis using Cons.prems(1) by (auto simp: keeps_def)
  next
    case (2 w1 t)
    have "part_of w1 = part_of w" using 2(1) Cons.prems(1) by (auto simp: keeps_def)
    with 2(2) Cons show ?thesis by simp
  qed
qed simp

text \<open>A table of a context leaves every part of the world alone that writing its own part leaves alone.\<close>

lemma table_component_keeps:
  assumes "\<And>w x. other (put w x) = other w"
  shows "commit_keeps other (table_component E part part_of put)"
proof -
  let ?wait = "\<lambda>fut w. map_option (\<lambda>(net, r). (put w (fst (part_of w), net), r)) (flush_wait E (snd (part_of w)) fut)"
  have wait: "keeps other (?wait fut)" for fut using assms by (auto simp: keeps_def)
  have part_kept: "other w' = other w \<and> (\<forall>fs. r = Inr fs \<longrightarrow> (\<exists>futs. fs = map ?wait futs))"
    if "commit_with_ref (table_component E part part_of put) w = Some (w', r)" for w w' r
  proof -
    from that obtain tw net x where "w' = put w (tw, net)" "r = map_sum id (map ?wait) x"
      by (auto simp: table_component_def Let_def)
    then show ?thesis using assms by (cases x) auto
  qed
  show ?thesis
    unfolding commit_keeps_def
  proof (intro conjI allI impI ballI)
    show "keeps other (commit_with_ref (table_component E part part_of put))"
      unfolding keeps_def using part_kept by blast
    fix w w' fs f
    assume "commit_with_ref (table_component E part part_of put) w = Some (w', Inr fs)" and f: "f \<in> set fs"
    from part_kept[OF this(1)] obtain futs where "fs = map ?wait futs" by blast
    with f wait show "keeps other f" by auto
  qed
qed

subsection \<open>Flush commands of a table\<close>

fun is_flush :: "('k, 'v, 'd) writer_command \<Rightarrow> bool" where
  "is_flush (Flush _) = True"
| "is_flush (FlushWhenReady _) = True"
| "is_flush _ = False"

definition flushes :: "('k, 'v, 'd) net \<Rightarrow> ('k, 'v, 'd) writer_command list list" where
  "flushes net = map (filter is_flush) (queues net)"

lemma flushes_enqueue: "\<not> is_flush msg \<Longrightarrow> flushes (enqueue net sid msg) = flushes net"
  by (cases "sid < length (queues net)")
    (simp_all add: flushes_def enqueue_def map_update list_update_same_conv list_update_beyond)

lemma flushes_fast_send: "\<not> is_flush msg \<Longrightarrow> fast_send E net sid msg = Some (net', r) \<Longrightarrow> flushes net' = flushes net"
  by (auto simp: fast_send_def flushes_enqueue split: if_splits try_send.splits)

lemma flushes_send_each:
  "\<forall>(sid, msg)\<in>set msgs. \<not> is_flush msg \<Longrightarrow> send_each E net msgs = Some (net', r) \<Longrightarrow> flushes net' = flushes net"
proof (induction msgs arbitrary: net)
  case (Cons m msgs)
  obtain sid msg where m: "m = (sid, msg)" by fastforce
  with Cons.prems obtain net1 r1 where f: "fast_send E net sid msg = Some (net1, r1)" by (auto split: Option.bind_splits)
  then have "flushes net1 = flushes net" using Cons.prems(1) m by (auto intro: flushes_fast_send)
  with Cons f m show ?case by (auto split: sum.splits)
qed simp

lemma flushes_sync_buf:
  assumes "send_sync_buf E part tw net = Some (tw', net', r)"
  shows "flushes net' = flushes net \<and> root_pk tw' = root_pk tw"
proof -
  have "flushes net1 = flushes net" if "write_sorted_inserts_on_flush E part net pairs = Some (net1, r)" for pairs net1
    using that
    by (auto simp: write_sorted_inserts_on_flush_def bucket_messages_def elim!: flushes_fast_send[rotated] flushes_send_each[rotated]
        split: if_splits Option.bind_splits)
  with assms show ?thesis by (auto simp: send_sync_buf_def split: if_splits)
qed

text \<open>A root key table is sent its rows when the commit starts, but no flush: that is left to its futures.\<close>

lemma flush_async_root:
  assumes "flush_async E part tw net = Some (tw', net', r)" and "root_pk tw"
  shows "flushes net' = flushes net \<and> (\<forall>futs. r = Inr futs \<longrightarrow> futs = map Lazy [0..<shards net'])"
  using assms flushes_sync_buf by (fastforce simp: flush_async_def split: Option.bind_splits sum.splits)

subsection \<open>Properties\<close>

text \<open>
  C3. The root is committed last: in the commit of a context whose last component is the key table of the
  root entity, a flush command reaches that table only after the commit of every other component was
  started, and every future of theirs was waited for with success. Up to that moment the root table has
  received no flush, so when a child table fails to commit, or does not answer, no root key becomes
  visible.
\<close>

theorem root_committed_last:
  assumes lens: "\<forall>w x. part_of (put w x) = x" and others: "\<forall>c\<in>set others. commit_keeps part_of c"
    and root: "root_pk (fst (part_of w))"
    and commit: "two_phase_commit (others @ [table_component E part part_of put]) w = Some (w', r)"
    and flushed: "flushes (snd (part_of w')) \<noteq> flushes (snd (part_of w))"
  shows "\<exists>w1 futs w2 root_futs w3 tasks.
           commit_ctx_async others w = Some (w1, Inr futs) \<and>
           commit_with_ref (table_component E part part_of put) w1 = Some (w2, Inr root_futs) \<and>
           dedup_wait Map.empty futs w2 = Some (w3, Inr tasks) \<and> dedup_wait tasks root_futs w3 = Some (w', r) \<and>
           flushes (snd (part_of w3)) = flushes (snd (part_of w))"
proof -
  let ?root = "table_component E part part_of put"
  have single: "extend_all commit_with_ref [?root] v = commit_with_ref ?root v" for v
    by (auto simp: extend_all_Cons and_then_def simp del: extend_all.simps split: Option.bind_splits sum.splits) (simp_all)
  have root_kept: "flushes (snd (part_of v')) = flushes (snd (part_of v))"
    if "commit_with_ref ?root v = Some (v', x)" "root_pk (fst (part_of v))" for v v' x
    using that flush_async_root lens by (fastforce simp: table_component_def Let_def)
  from commit[unfolded two_phase_commit_def commit_ctx_async_def extend_all_append single] show ?thesis
  proof (cases rule: and_then_SomeE)
    case (1 e)
    from 1(1) have "flushes (snd (part_of w')) = flushes (snd (part_of w))"
    proof (cases rule: and_then_SomeE)
      case (1 e')
      with commit_ctx_keeps[OF others 1(1)] show ?thesis by simp
    next
      case (2 w1 futs)
      have "part_of w1 = part_of w" using commit_ctx_keeps[OF others 2(1)] by simp
      with 2(2) root root_kept show ?thesis by (auto elim!: and_then_SomeE)
    qed
    with flushed show ?thesis by blast
  next
    case (2 w2 all_futs)
    from 2(1) obtain w1 futs root_futs where f: "extend_all commit_with_ref others w = Some (w1, Inr futs)"
      "commit_with_ref ?root w1 = Some (w2, Inr root_futs)" "all_futs = futs @ root_futs"
      by (auto elim!: and_then_SomeE)
    have kept: "part_of w1 = part_of w" "\<forall>f\<in>set futs. keeps part_of f" using commit_ctx_keeps[OF others f(1)] by simp_all
    with f(2) root root_kept have same: "flushes (snd (part_of w2)) = flushes (snd (part_of w))" by simp
    from 2(2)[unfolded f(3) dedup_wait_append] show ?thesis
    proof (cases rule: and_then_SomeE)
      case (1 e)
      with dedup_wait_keeps[OF kept(2) 1(1)] same flushed show ?thesis by simp
    next
      case (2 w3 tasks)
      with dedup_wait_keeps[OF kept(2) 2(1)] same f show ?thesis by (auto simp: commit_ctx_async_def)
    qed
  qed
qed

text \<open>A context of one child table and the root key table, both in a transaction.\<close>

type_synonym demo_part = "(nat, nat) table_writer \<times> (nat, nat, unit) net"

definition demo_part_in_tx :: "bool \<Rightarrow> demo_part" where
  "demo_part_in_tx root = (table_writer_new root False, \<lparr>queues = [[Begin 1 ()]], next_chan = 2\<rparr>)"

definition demo_child :: "(demo_part \<times> demo_part, unit) component" where
  "demo_child = table_component demo_net_env (ByKey (\<lambda>_. Some 0)) fst (\<lambda>w x. (x, snd w))"

definition demo_root :: "(demo_part \<times> demo_part, unit) component" where
  "demo_root = table_component demo_net_env (ByKey (\<lambda>_. Some 0)) snd (\<lambda>w x. (fst w, x))"

lemma demo_flush_reply:
  "\<exists>t. recv_reply demo_net_env \<lparr>queues = [[Begin (Suc 0) (), Flush 2]], next_chan = 3\<rparr> 0 2 (task_reply 2) = Some (Inr (Inr t))"
proof -
  have E: "plain_env map_table_ops demo_env = demo_env" by (simp add: plain_env_def demo_env_def)
  obtain t' where "fsm_run demo_env \<lparr>pt_table = Map.empty\<rparr> Idle [] [Begin (Suc 0) (), Flush 2] =
      Some (t', Idle, [Ack_Unit (Suc 0) (Inr ()), flushed_ack demo_env 2])"
    using plain_tx.tx_sorted_batch[of map_table_ops "\<lambda>t. t" "\<lparr>pt_table = Map.empty\<rparr>" demo_env "\<lparr>pt_table = Map.empty\<rparr>" "()" "[]" "\<lambda>t. t"]
    by (auto simp: E demo_env_simps plain_inv_def map_table_ok)
  then show ?thesis by (simp add: recv_reply_def shard_run_def demo_net_env_def flushed_ack_def)
qed

lemma demo_commit:
  "\<exists>w' tasks. two_phase_commit [demo_child, demo_root] (demo_part_in_tx False, demo_part_in_tx True) = Some (w', Inr tasks) \<and>
     queues (snd (snd w')) = [[Begin 1 (), Flush 2]]"
proof -
  obtain t where t: "recv_reply demo_net_env \<lparr>queues = [[Begin (Suc 0) (), Flush 2]], next_chan = 3\<rparr> 0 2 (task_reply 2) = Some (Inr (Inr t))"
    using demo_flush_reply by blast
  have "ne_send_ok demo_net_env sid q" for sid q by (simp add: demo_net_env_def)
  with t show ?thesis
    by (simp add: two_phase_commit_def commit_ctx_async_def demo_child_def demo_root_def table_component_def demo_part_in_tx_def
        table_writer_new_def flush_async_def send_sync_buf_def shards_def new_chan_def topic_send_def enqueue_def flush_command_def
        fire_flush_def flatten_def)
qed

theorem root_committed_last_witness:
  "\<exists>w1 futs w2 root_futs w3 tasks.
     commit_ctx_async [demo_child] (demo_part_in_tx False, demo_part_in_tx True) = Some (w1, Inr futs) \<and>
     commit_with_ref demo_root w1 = Some (w2, Inr root_futs) \<and>
     dedup_wait Map.empty futs w2 = Some (w3, Inr tasks) \<and> flushes (snd (snd w3)) = [[]]"
proof -
  obtain w' tasks where w': "two_phase_commit ([demo_child] @ [demo_root]) (demo_part_in_tx False, demo_part_in_tx True) = Some (w', Inr tasks)"
    "queues (snd (snd w')) = [[Begin 1 (), Flush 2]]" using demo_commit by auto
  have "flushes (snd (snd w')) = [[Flush 2]]" using w'(2) by (simp add: flushes_def)
  moreover have "flushes (snd (demo_part_in_tx True)) = [[]]" by (simp add: flushes_def demo_part_in_tx_def)
  moreover have "commit_keeps snd demo_child" unfolding demo_child_def by (rule table_component_keeps) simp
  moreover have "root_pk (fst (demo_part_in_tx True))" by (simp add: demo_part_in_tx_def table_writer_new_def)
  ultimately show ?thesis
    using root_committed_last[of snd "\<lambda>w x. (fst w, x)" "[demo_child]" "(demo_part_in_tx False, demo_part_in_tx True)"
        demo_net_env "ByKey (\<lambda>_. Some 0)" w' "Inr tasks"] w'(1)
    unfolding demo_root_def[symmetric] by auto
qed

end
