(* ===== verification/Block_Chain.thy ===== *)
theory Block_Chain
  imports Entity_Query Context Syncer
begin

section \<open>The block chain of a root entity\<close>

text \<open>
  The implementation of \<open>BlockChainLike\<close> that the entity macro generates for the entity \<open>Block\<close>
  (\<open>macros/src/entity/chain.rs\<close>): storing, replacing and deleting blocks through a write context, and
  checking the links between stored headers. It is a client of \<open>Entity\<close>, through the interface \<open>entity_map\<close>,
  of \<open>Entity_Query\<close> and of the two-phase commit of \<open>Context\<close>.

  The tables that the write context has open are a part of the world of \<open>Context\<close>, read by \<open>rd\<close> and written
  by \<open>wr\<close>; a closure on the context works on that part.
\<close>

subsection \<open>Operations\<close>

definition on_tx :: "('w \<Rightarrow> 'db) \<Rightarrow> ('w \<Rightarrow> 'db \<Rightarrow> 'w) \<Rightarrow> ('db \<Rightarrow> ('db \<times> 'a res) option) \<Rightarrow> ('w, 'a) future" where
  "on_tx rd wr f w = map_option (\<lambda>(db, r). (wr w db, r)) (f (rd w))"

text \<open>The operator \<open>?\<close> turns an \<open>AppError\<close> into a \<open>ChainError\<close>.\<close>

definition chain_result :: "('w \<times> 'a res) option \<Rightarrow> ('w \<times> 'a cres) option" where
  "chain_result r = map_option (\<lambda>(w, x). (w, map_sum Ch_App id x)) r"

definition store_blocks ::
    "('w, 'd) component list \<Rightarrow> ('w \<Rightarrow> ('s, 't) edb) \<Rightarrow> ('w \<Rightarrow> ('s, 't) edb \<Rightarrow> 'w) \<Rightarrow>
     ('s, pointer, unit) table_ops \<Rightarrow> ('t, pointer, 'v) table_ops \<Rightarrow> ent \<Rightarrow> 'v einst list \<Rightarrow> 'd \<Rightarrow> nat \<Rightarrow> 'w \<Rightarrow>
     ('w \<times> (string \<rightharpoonup> task_result) cres) option" where
  "store_blocks ctx rd wr K V e blocks dur took w =
     chain_result (and_then (begin_writing ctx dur w) (\<lambda>w1 _.
       two_phase_commit_with ctx (on_tx rd wr (\<lambda>db. Some (store_many K V e db blocks))) took w1))"

fun delete_blocks ::
    "bool \<Rightarrow> ('s, pointer, unit) table_ops \<Rightarrow> ('t, pointer, 'v) table_ops \<Rightarrow> ent \<Rightarrow> 'v einst list \<Rightarrow> ('s, 't) edb \<Rightarrow>
     (('s, 't) edb \<times> unit res) option" where
  "delete_blocks checks K V e [] db = Some (db, Inr ())"
| "delete_blocks checks K V e (b # bs) db =
     and_then (delete checks K V e db (inst_key b)) (\<lambda>db' _. delete_blocks checks K V e bs db')"

text \<open>Replacing blocks is two transactions: one deletes, the other stores.\<close>

definition update_blocks ::
    "('w, 'd) component list \<Rightarrow> ('w \<Rightarrow> ('s, 't) edb) \<Rightarrow> ('w \<Rightarrow> ('s, 't) edb \<Rightarrow> 'w) \<Rightarrow> bool \<Rightarrow>
     ('s, pointer, unit) table_ops \<Rightarrow> ('t, pointer, 'v) table_ops \<Rightarrow> ent \<Rightarrow> 'v einst list \<Rightarrow> 'd \<Rightarrow> nat \<Rightarrow> nat \<Rightarrow> 'w \<Rightarrow>
     ('w \<times> (string \<rightharpoonup> task_result) cres) option" where
  "update_blocks ctx rd wr checks K V e blocks dur took took' w =
     (case and_then (begin_writing ctx dur w) (\<lambda>w1 _.
             two_phase_commit_with ctx (on_tx rd wr (delete_blocks checks K V e blocks)) took w1) of
        None \<Rightarrow> None
      | Some (w2, Inl er) \<Rightarrow> Some (w2, Inl (Ch_App er))
      | Some (w2, Inr _) \<Rightarrow> store_blocks ctx rd wr K V e blocks dur took' w2)"

text \<open>The keys from 0 to the tip; \<open>headers\<close> are the stored headers that a read context sees.\<close>

definition chain_pks :: "pointer \<Rightarrow> pointer list" where
  "chain_pks tip = from_many [0..<Suc (ptr_index tip)]"

definition chain_delete ::
    "('w, 'd) component list \<Rightarrow> ('w \<Rightarrow> ('s, 't) edb) \<Rightarrow> ('w \<Rightarrow> ('s, 't) edb \<Rightarrow> 'w) \<Rightarrow> bool \<Rightarrow>
     ('s, pointer, unit) table_ops \<Rightarrow> ('t, pointer, 'v) table_ops \<Rightarrow> ent \<Rightarrow> ent \<Rightarrow> ('w \<Rightarrow> ('s, 't) edb) \<Rightarrow> ('s \<Rightarrow> pointer option res) \<Rightarrow>
     'd \<Rightarrow> nat \<Rightarrow> 'w \<Rightarrow> ('w \<times> unit cres) option" where
  "chain_delete ctx rd wr checks K V e header headers last_of dur took w =
     (case edge_ent checks K V header (headers w) last_of of
        None \<Rightarrow> None
      | Some (Inl er) \<Rightarrow> Some (w, Inl (Ch_App er))
      | Some (Inr None) \<Rightarrow> Some (w, Inr ())
      | Some (Inr (Some tip)) \<Rightarrow>
          chain_result (and_then (begin_writing ctx dur w) (\<lambda>w1 _.
            and_then
              (two_phase_commit_or_rollback_and_close_with ctx
                (on_tx rd wr (\<lambda>db. delete_many checks K V e db (chain_pks (inst_key tip)))) took w1)
              (\<lambda>w2 _. Some (w2, Inr ())))))"

definition get_last_header ::
    "bool \<Rightarrow> ('s, pointer, unit) table_ops \<Rightarrow> ('t, pointer, 'v) table_ops \<Rightarrow> ent \<Rightarrow> ('s, 't) edb \<Rightarrow> ('s \<Rightarrow> pointer option res) \<Rightarrow>
     'v einst option cres option" where
  "get_last_header checks K V header db last_of = map_option (map_sum Ch_App id) (edge_ent checks K V header db last_of)"

definition get_header_by_hash ::
    "bool \<Rightarrow> ('s, pointer, unit) table_ops \<Rightarrow> ('t, pointer, 'v) table_ops \<Rightarrow> ent \<Rightarrow> ('s, 't) edb \<Rightarrow> ('v \<Rightarrow> pointer list res) \<Rightarrow> 'v \<Rightarrow>
     'v einst list cres option" where
  "get_header_by_hash checks K V header db index_keys hash = map_option (map_sum Ch_App id) (get_by checks K V header db index_keys hash)"

subsection \<open>Validation\<close>

text \<open>The loop over the headers: a header whose successor names another predecessor is affected.\<close>

fun unlinked :: "('i \<Rightarrow> 'h) \<Rightarrow> ('i \<Rightarrow> 'h) \<Rightarrow> 'i \<Rightarrow> 'i list \<Rightarrow> 'i list" where
  "unlinked hash_of prev_hash_of before [] = []"
| "unlinked hash_of prev_hash_of before (cur # rest) =
     (if hash_of before \<noteq> prev_hash_of cur then [before] else []) @ unlinked hash_of prev_hash_of cur rest"

text \<open>The stream of a range composes lazily; the first error ends the validation.\<close>

definition validate_chain ::
    "bool \<Rightarrow> ('s, pointer, unit) table_ops \<Rightarrow> ('t, pointer, 'v) table_ops \<Rightarrow> ent \<Rightarrow> ('s, 't) edb \<Rightarrow> ('s \<Rightarrow> pointer option res) \<Rightarrow>
     ('v einst \<Rightarrow> 'h) \<Rightarrow> ('v einst \<Rightarrow> 'h) \<Rightarrow> nat \<Rightarrow> 'v einst list cres option" where
  "validate_chain checks K V header db last_of hash_of prev_hash_of from_height =
     (case edge_ent checks K V header db last_of of
        None \<Rightarrow> None
      | Some (Inl er) \<Rightarrow> Some (Inl (Ch_App er))
      | Some (Inr None) \<Rightarrow> Some (Inr [])
      | Some (Inr (Some tip)) \<Rightarrow>
          (case range_ent checks K V header db (Root from_height) (inst_key tip) of
             None \<Rightarrow> None
           | Some (Inl er) \<Rightarrow> Some (Inl (chain_error_new ''Stream error''))
           | Some (Inr []) \<Rightarrow> Some (Inr [])
           | Some (Inr (h # hs)) \<Rightarrow> Some (Inr (unlinked hash_of prev_hash_of h hs))))"

subsection \<open>Replacing instances in an entity\<close>

context entity_map
begin

lemma replace_law:
  assumes "inv db" and "\<forall>i\<in>set is. inst_ok i" and "distinct (map pk_of is)"
    and "\<And>db. loop [] db = Some (db, Inr ())"
    and "\<And>i is db. loop (i # is) db = and_then (delete_op db (pk_of i)) (\<lambda>db' _. loop is db')"
  shows "\<exists>db1 db2. loop is db = Some (db1, Inr ()) \<and> for_each store_op db1 is = (db2, Inr ()) \<and> inv db2 \<and>
           contents db2 = contents db ++ map_of (map (\<lambda>i. (pk_of i, i)) is)"
proof -
  have deleted: "\<exists>db1. loop js d = Some (db1, Inr ()) \<and> inv db1 \<and> contents db1 = contents d |` (- pk_of ` set js)"
    if "inv d" "\<forall>i\<in>set js. inst_ok i" for d js
    using that
  proof (induction js arbitrary: d)
    case Nil
    then show ?case using assms(4) by (simp add: restrict_map_def)
  next
    case (Cons i js)
    obtain d' b where d': "delete_op d (pk_of i) = Some (d', Inr b)" "inv d'" "contents d' = (contents d)(pk_of i := None)"
      using delete_law[of d "pk_of i"] inst_pk_ok Cons.prems by auto
    from Cons.IH[OF d'(2)] Cons.prems(2) obtain db1 where
      "loop js d' = Some (db1, Inr ())" "inv db1" "contents db1 = contents d' |` (- pk_of ` set js)" by auto
    with d' assms(5) show ?case by (auto simp: restrict_map_def fun_eq_iff)
  qed
  from deleted[OF assms(1,2)] obtain db1 where
    db1: "loop is db = Some (db1, Inr ())" "inv db1" "contents db1 = contents db |` (- pk_of ` set is)" by blast
  from store_all_law[OF db1(2), of "is"] assms(2,3) db1(3) obtain db2 where
    db2: "for_each store_op db1 is = (db2, Inr ())" "inv db2" "contents db2 = contents db1 ++ map_of (map (\<lambda>i. (pk_of i, i)) is)"
    by (auto simp: restrict_map_def)
  have "contents db2 = contents db ++ map_of (map (\<lambda>i. (pk_of i, i)) is)"
  proof
    fix q
    show "contents db2 q = (contents db ++ map_of (map (\<lambda>i. (pk_of i, i)) is)) q"
    proof (cases "q \<in> pk_of ` set is")
      case True
      then have "q \<in> fst ` set (map (\<lambda>i. (pk_of i, i)) is)" by (auto simp: image_image)
      then have "map_of (map (\<lambda>i. (pk_of i, i)) is) q \<noteq> None" unfolding map_of_eq_None_iff by simp
      then show ?thesis unfolding db2(3) by (auto simp: map_add_def)
    next
      case False
      then show ?thesis unfolding db2(3) db1(3) by (simp add: map_add_def restrict_map_def)
    qed
  qed
  with db1(1) db2(1,2) show ?thesis by blast
qed

end

subsection \<open>Lemmas on validation\<close>

lemma unlinked_pairs:
  "unlinked hash_of prev_hash_of h hs = map fst (filter (\<lambda>(x, y). hash_of x \<noteq> prev_hash_of y) (zip (h # hs) hs))"
  by (induction hs arbitrary: h) auto

lemma chain_pks_root: "set (chain_pks (Root t)) = Root ` {0..t}" "distinct (chain_pks (Root t))"
  by (auto simp: chain_pks_def from_many_def distinct_map inj_on_def)

lemma key_ok_below: "key_ok (Root_Ty w) (Root t) \<Longrightarrow> i \<le> t \<Longrightarrow> key_ok (Root_Ty w) (Root i)"
  by (auto simp: key_ok_def add_index_def split: if_splits)

text \<open>
  A context whose components start, commit and stop without an error, and leave the open tables alone
  meanwhile; reading and writing the open tables are a lens.
\<close>

definition serves :: "('w, 'd) component list \<Rightarrow> 'd \<Rightarrow> ('w \<Rightarrow> 'db) \<Rightarrow> ('w \<Rightarrow> 'db \<Rightarrow> 'w) \<Rightarrow> bool" where
  "serves ctx dur rd wr \<longleftrightarrow>
     (\<forall>w db. rd (wr w db) = db) \<and>
     (\<forall>w. \<exists>w'. begin_writing ctx dur w = Some (w', Inr ()) \<and> rd w' = rd w) \<and>
     (\<forall>w. \<exists>w' tasks. two_phase_commit ctx w = Some (w', Inr tasks) \<and> rd w' = rd w) \<and>
     (\<forall>w. \<exists>w'. stop_writing ctx w = Some (w', Inr ()) \<and> rd w' = rd w)"

lemma servesD:
  assumes "serves ctx dur rd wr"
  shows "rd (wr w db) = db" "\<exists>w'. begin_writing ctx dur w = Some (w', Inr ()) \<and> rd w' = rd w"
    "\<exists>w' tasks. two_phase_commit ctx w = Some (w', Inr tasks) \<and> rd w' = rd w"
    "\<exists>w'. stop_writing ctx w = Some (w', Inr ()) \<and> rd w' = rd w"
  using assms by (simp_all add: serves_def)

lemma transaction_ok:
  assumes "serves ctx dur rd wr" and "f (rd w) = Some (db, Inr x)"
  shows "\<exists>w' tasks. and_then (begin_writing ctx dur w) (\<lambda>w1 _. two_phase_commit_with ctx (on_tx rd wr f) took w1) = Some (w', Inr tasks) \<and>
           rd w' = db"
    and "\<exists>w' tasks. and_then (begin_writing ctx dur w) (\<lambda>w1 _. two_phase_commit_or_rollback_and_close_with ctx (on_tx rd wr f) took w1) =
             Some (w', Inr tasks) \<and> rd w' = db"
proof -
  from servesD(2)[OF assms(1), of w] obtain w1 where w1: "begin_writing ctx dur w = Some (w1, Inr ())" "rd w1 = rd w" by blast
  from servesD(3)[OF assms(1), of "wr w1 db"] obtain w2 tasks where
    w2: "two_phase_commit ctx (wr w1 db) = Some (w2, Inr tasks)" "rd w2 = db" using servesD(1)[OF assms(1)] by metis
  from servesD(4)[OF assms(1), of w2] obtain w3 where w3: "stop_writing ctx w2 = Some (w3, Inr ())" "rd w3 = rd w2" by blast
  show "\<exists>w' tasks. and_then (begin_writing ctx dur w) (\<lambda>w1 _. two_phase_commit_with ctx (on_tx rd wr f) took w1) = Some (w', Inr tasks) \<and>
           rd w' = db"
    using w1 w2 assms(2) by (simp add: two_phase_commit_with_def on_tx_def)
  show "\<exists>w' tasks. and_then (begin_writing ctx dur w) (\<lambda>w1 _. two_phase_commit_or_rollback_and_close_with ctx (on_tx rd wr f) took w1) =
             Some (w', Inr tasks) \<and> rd w' = db"
    using w1 w2 w3 assms(2) by (simp add: two_phase_commit_or_rollback_and_close_with_def two_phase_commit_and_close_def on_tx_def)
qed

lemma last_ent_ok:
  assumes "tables_ok K V kview vview" and "valid kview vview e db"
    and "last_of (edb_keys db) = Inr (Some t)" and "exists_key K db t = Inr True"
  shows "\<exists>i. edge_ent checks K V e db last_of = Some (Inr (Some i)) \<and> inst_key i = t"
proof -
  have t: "t \<in> keys_of kview db" using assms(4) tables_okD(3)[OF assms(1)] by (auto simp: exists_key_def)
  obtain i where "lookup kview vview e db t = Some i" "inst_key i = t"
    using t lookup_Some[of t kview db vview e] lookup_key by blast
  then show ?thesis using compose_ok(1)[OF assms(1,2) t] assms(3) by (simp add: edge_ent_def)
qed

subsection \<open>Properties\<close>


text \<open>
  C26. Deleting the chain: when the tip of the stored headers is the last key of a chain of root keys, \<open>delete\<close>
  removes the keys from 0 to the tip, of which some may be missing, and leaves consistent tables without any block.
\<close>

theorem chain_deleted:
  assumes "serves ctx dur rd wr" and "tables_ok K V kview vview" and "valid kview vview e (rd w)" and "ent_key e = Root_Ty n"
    and "exists_key K (rd w) (Root t) = Inr True" and "\<forall>k. exists_key K (rd w) k = Inr True \<longrightarrow> k \<le> Root t"
    and "valid kview vview header (headers w)" and "last_of (edb_keys (headers w)) = Inr (Some (Root t))"
    and "exists_key K (headers w) (Root t) = Inr True"
  shows "\<exists>w'. chain_delete ctx rd wr checks K V e header headers last_of dur took w = Some (w', Inr ()) \<and> valid kview vview e (rd w') \<and>
           (\<forall>q. get checks K V e (rd w') q = Some (Inr None))"
proof -
  have ex: "exists_key K (rd w) k = Inr True \<longleftrightarrow> k \<in> keys_of kview (rd w)" for k
    using tables_okD(3)[OF assms(2)] by (auto simp: exists_key_def)
  have "key_ok (Root_Ty n) (Root t)" using valid_keys[OF assms(3), of "Root t"] assms(4,5) ex by simp
  then have "\<forall>p\<in>set (chain_pks (Root t)). key_ok (ent_key e) p"
    unfolding chain_pks_root assms(4) using key_ok_below by auto
  from delete_many_ok(1)[OF assms(2,3) this, of checks] obtain db' b where
    r: "delete_many checks K V e (rd w) (chain_pks (Root t)) = Some (db', Inr b)"
      "removed_from kview vview e (rd w) (chain_pks (Root t)) db'" by blast
  have "k \<in> set (chain_pks (Root t))" if "k \<in> keys_of kview (rd w)" for k
  proof -
    have "well_typed (Root_Ty n) k" using valid_keys[OF assms(3) that] assms(4) by (simp add: key_ok_def)
    then obtain i where "k = Root i" by auto
    then show ?thesis using assms(6) ex that unfolding chain_pks_root by auto
  qed
  then have "keys_of kview db' = {}" using r(2) by blast
  then have "lookup kview vview e db' q = None" for q using lookup_Some[of q kview db' vview e] by blast
  moreover from last_ent_ok[OF assms(2,7), of last_of "Root t" checks] assms(8,9) obtain tip where
    tip: "edge_ent checks K V header (headers w) last_of = Some (Inr (Some tip))" "inst_key tip = Root t" by blast
  moreover from transaction_ok(2)[OF assms(1), of "\<lambda>db. delete_many checks K V e db (chain_pks (Root t))", OF r(1)] obtain w' tasks where
    "and_then (begin_writing ctx dur w) (\<lambda>w1 _. two_phase_commit_or_rollback_and_close_with ctx
       (on_tx rd wr (\<lambda>db. delete_many checks K V e db (chain_pks (Root t)))) took w1) = Some (w', Inr tasks)" "rd w' = db'" by blast
  moreover from this(1) have "and_then (begin_writing ctx dur w) (\<lambda>w1 _. and_then (two_phase_commit_or_rollback_and_close_with ctx
       (on_tx rd wr (\<lambda>db. delete_many checks K V e db (chain_pks (Root t)))) took w1) (\<lambda>w2 _. Some (w2, Inr ()))) = Some (w', Inr ())"
    by (auto elim!: and_then_SomeE)
  ultimately show ?thesis using r(2) assms(2) by (auto simp: chain_delete_def chain_result_def get_ok)
qed

text \<open>
  What validation looks at: on consistent tables it returns, in order, the headers between the starting
  height and the tip, the tip excluded, whose successor in that range names another predecessor. The link
  of the tip itself is not looked at.
\<close>

theorem validation_excludes_tip:
  assumes "tables_ok K V kview vview" and "valid kview vview e db"
    and "last_of (edb_keys db) = Inr (Some t)" and "exists_key K db t = Inr True"
  shows "\<exists>hs. range_ent checks K V e db (Root from_height) t = Some (Inr hs) \<and> t \<notin> inst_key ` set hs \<and>
           validate_chain checks K V e db last_of hash_of prev_hash_of from_height =
             Some (Inr (map fst (filter (\<lambda>(x, y). hash_of x \<noteq> prev_hash_of y) (zip hs (tl hs)))))"
proof -
  obtain i where edge: "edge_ent checks K V e db last_of = Some (Inr (Some i))" "inst_key i = t"
    using last_ent_ok[OF assms(1,2), of last_of t checks] assms(3,4) by blast
  let ?S = "{k \<in> keys_of kview db. Root from_height \<le> k \<and> k < t}"
  let ?hs = "map (\<lambda>k. the (lookup kview vview e db k)) (sorted_list_of_set ?S)"
  have fin: "finite ?S" and r: "range_ent checks K V e db (Root from_height) t = Some (Inr ?hs)"
    using range_ok[OF assms(1,2), of "Root from_height" t checks] by blast+
  have "t \<notin> inst_key ` set ?hs"
  proof
    assume "t \<in> inst_key ` set ?hs"
    then obtain k where "k \<in> ?S" "t = inst_key (the (lookup kview vview e db k))" using fin by auto
    moreover from this lookup_Some[of k kview db vview e] lookup_key have "inst_key (the (lookup kview vview e db k)) = k" by force
    ultimately show False by simp
  qed
  moreover have "validate_chain checks K V e db last_of hash_of prev_hash_of from_height =
      Some (Inr (map fst (filter (\<lambda>(x, y). hash_of x \<noteq> prev_hash_of y) (zip ?hs (tl ?hs)))))"
    using edge r by (cases ?hs) (simp_all add: validate_chain_def unlinked_pairs)
  ultimately show ?thesis using r by blast
qed

subsection \<open>Witnesses\<close>

text \<open>A context of one table that starts, commits and stops at once; its world is the open tables.\<close>

definition demo_ctx :: "('w, unit) component list" where
  "demo_ctx =
     [\<lparr>begin_async_ref = (\<lambda>_ w. Some (w, Inr [\<lambda>w. Some (w, Inr ())])),
       commit_with_ref = (\<lambda>w. Some (w, Inr [\<lambda>w. Some (w, Inr (task_result_master 3))])),
       stop_async_ref = (\<lambda>w. Some (w, Inr [\<lambda>w. Some (w, Inr ())]))\<rparr>]"

lemma demo_ctx_serves: "serves demo_ctx () (\<lambda>w. w) (\<lambda>_ db. db)"
  by (simp add: serves_def demo_ctx_def begin_writing_def begin_writing_async_def two_phase_commit_def commit_ctx_async_def
      stop_writing_def stop_writing_async_def)


theorem chain_deleted_witness:
  "\<exists>w'. chain_delete demo_ctx (\<lambda>w. w) (\<lambda>_ db. db) True demo_keys demo_vals demo_block demo_block (\<lambda>w. w) (\<lambda>_. Inr (Some (Root 5))) () 3 demo_db1 =
       Some (w', Inr ()) \<and>
     (\<forall>q. get True demo_keys demo_vals demo_block w' q = Some (Inr None))"
proof -
  have "exists_key demo_keys demo_db1 k = Inr (k = Root 5)" for k
    by (simp add: exists_key_def demo_db1_def alist_table_ops_def)
  with chain_deleted[OF demo_ctx_serves demo_tables demo_valid1, of 4 5 demo_block "\<lambda>w. w" "\<lambda>_. Inr (Some (Root 5))" True 3] demo_valid1
  show ?thesis by (auto simp: demo_block_def)
qed

text \<open>Headers with a hash and the hash of their predecessor; the tip names a predecessor that is not stored.\<close>

definition demo_header :: ent where
  "demo_header = Ent False (Root_Ty 4) [E_Value, E_Value]"

definition demo_headers :: "((pointer \<times> unit) list, (pointer \<times> nat) list) edb" where
  "demo_headers =
     Edb [(Root 0, ()), (Root 1, ()), (Root 2, ())]
       [Tab [(Root 0, 10), (Root 1, 11), (Root 2, 12)], Tab [(Root 0, 9), (Root 1, 10), (Root 2, 99)]]"

fun demo_value :: "nat \<Rightarrow> nat einst \<Rightarrow> nat" where
  "demo_value n (Einst p fs) = (case fs ! n of F_Value v \<Rightarrow> v | _ \<Rightarrow> 0)"

lemma demo_headers_valid: "valid map_of map_of demo_header demo_headers"
  by (auto simp: demo_header_def demo_headers_def key_ok_def add_index_def split: if_splits)

theorem validation_excludes_tip_witness:
  "get True demo_keys demo_vals demo_header demo_headers (Root 2) = Some (Inr (Some (Einst (Root 2) [F_Value 12, F_Value 99]))) \<and>
   get True demo_keys demo_vals demo_header demo_headers (Root 1) = Some (Inr (Some (Einst (Root 1) [F_Value 11, F_Value 10]))) \<and>
   validate_chain True demo_keys demo_vals demo_header demo_headers (\<lambda>_. Inr (Some (Root 2))) (demo_value 0) (demo_value 1) 0 = Some (Inr [])"
proof -
  have "exists_key demo_keys demo_headers (Root 2) = Inr True"
    by (simp add: exists_key_def demo_headers_def alist_table_ops_def)
  moreover have "range_ent True demo_keys demo_vals demo_header demo_headers (Root 0) (Root 2) =
      Some (Inr [Einst (Root 0) [F_Value 10, F_Value 9], Einst (Root 1) [F_Value 11, F_Value 10]])"
    by (simp add: range_ent_def range_with_def demo_header_def demo_headers_def alist_table_ops_def)
  ultimately have "validate_chain True demo_keys demo_vals demo_header demo_headers (\<lambda>_. Inr (Some (Root 2))) (demo_value 0) (demo_value 1) 0 = Some (Inr [])"
    using validation_excludes_tip[OF demo_tables demo_headers_valid, of "\<lambda>_. Inr (Some (Root 2))" "Root 2" True 0 "demo_value 0" "demo_value 1"]
    by auto
  then show ?thesis by (simp add: get_def get_with_def demo_header_def demo_headers_def alist_table_ops_def)
qed

end
