(* ===== verification/Input_Hooks.thy ===== *)
theory Input_Hooks
  imports Sharded_Table Pointers
begin

section \<open>Inputs of transactions\<close>

text \<open>
  The inputs of a transaction are not stored as they come: each refers to an output by the hash of the
  transaction that created it, and is stored as a pointer to that output. The entity macro collects the
  references of all transactions of a block (\<open>one2many_write_from_def\<close> in \<open>macros/src/relationship/store.rs\<close>) and
  hands them to the hook of the application (\<open>chains/*/src/hook.rs\<close>), which queries the index of transaction
  hashes and, in the thread of every index shard, writes what that shard found through the routers of the
  input tables.

  The hooks of the chains differ in the pointer that they store; it is the parameter \<open>resolve\<close>, with one
  definition per chain. The hook runs in the transaction threads of \<open>Tx_Fsm\<close>, as the sink of \<open>QueryAndWrite\<close>,
  and its writes go through \<open>Router\<close> to the threads of the input tables, which flush when every index shard
  has announced that it is ready.
\<close>

subsection \<open>Collecting the references\<close>

record 'h input_ref =
  ref_hash :: 'h
  ref_index :: nat

type_synonym 'r ref_entry = "'r \<times> pointer \<times> nat"

text \<open>The references of one transaction, with their positions; a reference that was seen is a double spend.\<close>

fun collect_refs :: "'r ref_entry list \<Rightarrow> pointer \<Rightarrow> (nat \<times> 'r) list \<Rightarrow> 'r ref_entry list res" where
  "collect_refs entries pk [] = Inr entries"
| "collect_refs entries pk ((idx, r) # rs) =
     (if r \<in> fst ` set entries then Inl (Custom ''Double spend not supported'')
      else collect_refs (entries @ [(r, pk, idx)]) pk rs)"

fun collect_all_refs :: "'r ref_entry list \<Rightarrow> (pointer \<times> 'r list) list \<Rightarrow> 'r ref_entry list res" where
  "collect_all_refs entries [] = Inr entries"
| "collect_all_refs entries ((pk, rs) # instances) =
     (case collect_refs entries pk (enumerate 0 rs) of Inl e \<Rightarrow> Inl e | Inr entries' \<Rightarrow> collect_all_refs entries' instances)"

subsection \<open>The hooks\<close>

definition btc_utxo_pointer :: "'h input_ref \<Rightarrow> pointer option \<Rightarrow> pointer" where
  "btc_utxo_pointer r tx_pointer =
     (case tx_pointer of
        Some p \<Rightarrow> from_parent p (ref_index r)
      | None \<Rightarrow>
          if ref_index r = 65535 then from_parent (from_parent (Root 0) 0) (ref_index r)
          else from_parent (from_parent (Root 0) 0) 0)"

definition cardano_utxo_pointer :: "'h input_ref \<Rightarrow> pointer option \<Rightarrow> pointer" where
  "cardano_utxo_pointer r tx_pointer =
     (case tx_pointer of Some p \<Rightarrow> from_parent p (ref_index r) | None \<Rightarrow> from_parent (from_parent (Root 0) 0) 0)"

definition ergo_utxo_pointer :: "'h \<Rightarrow> pointer option \<Rightarrow> pointer" where
  "ergo_utxo_pointer box_id utxo_pointer =
     (case utxo_pointer of Some p \<Rightarrow> p | None \<Rightarrow> from_parent (from_parent (Root 0) 0) 0)"

text \<open>The key of an input: its transaction and its position, cut to 16 bits.\<close>

definition input_id :: "'r ref_entry \<Rightarrow> pointer" where
  "input_id entry = (case entry of (_, id_pointer, id_index) \<Rightarrow> from_parent id_pointer (id_index mod 65536))"

fun hook_rows ::
    "('r \<Rightarrow> pointer option \<Rightarrow> pointer) \<Rightarrow> 'r ref_entry list \<Rightarrow> (usize \<times> pointer option) list \<Rightarrow>
     ((pointer \<times> unit) list \<times> (pointer \<times> pointer) list) res" where
  "hook_rows resolve input_refs [] = Inr ([], [])"
| "hook_rows resolve input_refs ((index, tx_pointer) # out) =
     (if index < length input_refs
      then (let entry = input_refs ! index; row = input_id entry
            in map_sum id (\<lambda>(ids, pointers). ((row, ()) # ids, (row, resolve (fst entry) tx_pointer) # pointers))
                 (hook_rows resolve input_refs out))
      else Inl (Custom ''internal error: no input_ref exists for index''))"

text \<open>What the hook does with the answers of one index shard.\<close>

definition hook_sink ::
    "('si, pointer, unit, 'd, 'dbi) net_env \<Rightarrow> (pointer, unit) shard_fn \<Rightarrow> ('sp, pointer, pointer, 'd, 'dbp) net_env \<Rightarrow> (pointer, pointer) shard_fn \<Rightarrow>
     ('r \<Rightarrow> pointer option \<Rightarrow> pointer) \<Rightarrow> 'r ref_entry list \<Rightarrow> (pointer, unit, 'd) net \<times> (pointer, pointer, 'd) net \<Rightarrow>
     usize option \<Rightarrow> (usize \<times> pointer option) list \<Rightarrow> (((pointer, unit, 'd) net \<times> (pointer, pointer, 'd) net) \<times> unit res) option" where
  "hook_sink EI part_i EP part_p resolve input_refs nets last_shards out =
     (case hook_rows resolve input_refs out of
        Inl e \<Rightarrow> Some (nets, Inl e)
      | Inr (ids, pointers) \<Rightarrow> do {
          (net_i, r) \<leftarrow> merge_unsorted_inserts EI part_i (fst nets) ids last_shards;
          (case r of
             Inl e \<Rightarrow> Some ((net_i, snd nets), Inl e)
           | Inr _ \<Rightarrow>
               map_option (\<lambda>(net_p, r'). ((net_i, net_p), r'))
                 (merge_unsorted_inserts EP part_p (snd nets) pointers last_shards))
        })"

text \<open>The hook itself: the input tables wait for announcements from now on, and the index is queried.\<close>

definition write_from_input_refs ::
    "('s, pointer, 'h, 'd, 'db) net_env \<Rightarrow> (pointer, 'h) shard_fn \<Rightarrow> (pointer, 'h, 'd) net \<Rightarrow> ('r \<Rightarrow> 'h) \<Rightarrow>
     (pointer, unit) table_writer \<Rightarrow> (pointer, pointer) table_writer \<Rightarrow> 'r ref_entry list \<Rightarrow> bool \<Rightarrow> nat \<Rightarrow>
     (pointer, unit) table_writer \<times> (pointer, pointer) table_writer \<times> ((pointer, 'h, 'd) net \<times> unit res) option" where
  "write_from_input_refs E part net hash_of ids_writer ptrs_writer input_refs is_last sink =
     (acquire_router ids_writer, acquire_router ptrs_writer,
      query_and_write E part net (map (\<lambda>entry. hash_of (fst entry)) input_refs) is_last sink)"

subsection \<open>Lemmas on collecting\<close>

lemma collect_refs_ok:
  assumes "distinct (map fst entries @ map snd irs)"
  shows "collect_refs entries pk irs = Inr (entries @ map (\<lambda>(idx, r). (r, pk, idx)) irs)"
  using assms by (induction irs arbitrary: entries) (auto simp: image_iff)

lemma collect_refs_double:
  assumes "distinct (map fst entries)" and "\<not> distinct (map fst entries @ map snd irs)"
  shows "collect_refs entries pk irs = Inl (Custom ''Double spend not supported'')"
  using assms
proof (induction irs arbitrary: entries)
  case (Cons ir irs)
  obtain idx r where ir: "ir = (idx, r)" by fastforce
  show ?case
  proof (cases "r \<in> fst ` set entries")
    case False
    with Cons.prems ir have "distinct (map fst (entries @ [(r, pk, idx)]))" "\<not> distinct (map fst (entries @ [(r, pk, idx)]) @ map snd irs)" by auto
    from Cons.IH[OF this] False ir show ?thesis by simp
  qed (simp add: ir)
qed simp

definition entries_of :: "(pointer \<times> 'r list) list \<Rightarrow> 'r ref_entry list" where
  "entries_of instances = concat (map (\<lambda>(pk, rs). map (\<lambda>(idx, r). (r, pk, idx)) (enumerate 0 rs)) instances)"

lemma map_fst_entries: "map fst (map (\<lambda>(idx, r). (r, pk, idx)) irs) = map snd irs"
  by (induction irs) auto

lemma collect_all_refs_iff:
  assumes "distinct (map fst entries)"
  shows "collect_all_refs entries instances =
           (if distinct (map fst entries @ concat (map snd instances)) then Inr (entries @ entries_of instances)
            else Inl (Custom ''Double spend not supported''))"
  using assms
proof (induction instances arbitrary: entries)
  case (Cons x instances)
  obtain pk rs where x: "x = (pk, rs)" by fastforce
  let ?new = "entries @ map (\<lambda>(idx, r). (r, pk, idx)) (enumerate 0 rs)"
  have fst_new: "map fst ?new = map fst entries @ rs" unfolding map_append map_fst_entries by simp
  show ?case
  proof (cases "distinct (map fst entries @ rs)")
    case True
    then have "collect_refs entries pk (enumerate 0 rs) = Inr ?new" by (intro collect_refs_ok) simp
    moreover have "distinct (map fst ?new)" unfolding fst_new using True .
    ultimately show ?thesis using Cons.IH[of ?new] unfolding fst_new by (simp add: x entries_of_def)
  next
    case False
    then have "collect_refs entries pk (enumerate 0 rs) = Inl (Custom ''Double spend not supported'')"
      using Cons.prems by (intro collect_refs_double) simp_all
    then show ?thesis using False by (auto simp: x)
  qed
qed (simp add: entries_of_def)

subsection \<open>Lemmas on the query and the rows\<close>

text \<open>An answer of an index: a key of the value, or nothing when no key has it.\<close>

definition found :: "('k \<rightharpoonup> 'v) \<Rightarrow> 'v \<Rightarrow> 'k option \<Rightarrow> bool" where
  "found m v r \<longleftrightarrow> (case r of None \<Rightarrow> v \<notin> ran m | Some k \<Rightarrow> m k = Some v)"

lemma query_values_ok:
  assumes "index_inv cmp X V t"
  shows "\<exists>t' ans. query_values (index_ops X) t b = Some (t', Inr (zip (map fst b) ans)) \<and> length ans = length b \<and>
           index_inv cmp X V t' \<and> ix_contents V t' = ix_contents V t \<and> (\<forall>j < length b. found (ix_contents V t) (snd (b ! j)) (ans ! j))"
  using assms
proof (induction b arbitrary: t)
  case (Cons x b)
  obtain idx v where x: "x = (idx, v)" by fastforce
  from index_get_any_ok[OF Cons.prems, of v] obtain t1 r where
    1: "index_get_any X t v = (t1, Inr r)" "index_inv cmp X V t1" "ix_contents V t1 = ix_contents V t" "found (ix_contents V t) v r"
    by (auto simp: found_def)
  from Cons.IH[OF 1(2)] obtain t' ans where
    2: "query_values (index_ops X) t1 b = Some (t', Inr (zip (map fst b) ans))" "length ans = length b" "index_inv cmp X V t'"
      "ix_contents V t' = ix_contents V t1" "\<forall>j < length b. found (ix_contents V t1) (snd (b ! j)) (ans ! j)" by blast
  have "\<forall>j < length (x # b). found (ix_contents V t) (snd ((x # b) ! j)) ((r # ans) ! j)"
    using 1(3,4) 2(5) x by (auto simp: nth_Cons split: nat.split)
  with 1 2 x show ?case by (intro exI[of _ t'] exI[of _ "r # ans"]) (simp add: index_ops_def)
qed simp

lemma hook_rows_ok:
  assumes "\<forall>(i, r)\<in>set out. i < length input_refs"
  shows "hook_rows resolve input_refs out =
           Inr (map (\<lambda>(i, r). (input_id (input_refs ! i), ())) out, map (\<lambda>(i, r). (input_id (input_refs ! i), resolve (fst (input_refs ! i)) r)) out)"
  using assms by (induction out) (auto simp: Let_def)

subsection \<open>Interleavings\<close>

text \<open>The orders in which one receiver gets the commands of several senders.\<close>

fun interleavings :: "'a list list \<Rightarrow> 'a list set" where
  "interleavings [] = {[]}"
| "interleavings (xs # xss) = (\<Union>ys\<in>interleavings xss. shuffles xs ys)"

lemma mset_interleavings: "zs \<in> interleavings xss \<Longrightarrow> mset zs = mset (concat xss)"
  by (induction xss arbitrary: zs) (auto dest!: mset_shuffles)

lemma shuffles_snoc:
  "zs \<in> shuffles xs ys \<Longrightarrow> zs \<noteq> [] \<Longrightarrow> (xs \<noteq> [] \<and> last zs = last xs) \<or> (ys \<noteq> [] \<and> last zs = last ys)"
proof (induction xs ys arbitrary: zs rule: shuffles.induct)
  case (3 x xs y ys)
  from 3(3) consider zs' where "zs = x # zs'" "zs' \<in> shuffles xs (y # ys)" | zs' where "zs = y # zs'" "zs' \<in> shuffles (x # xs) ys"
    by auto
  then show ?case
  proof cases
    case 1
    then have "zs' \<noteq> []" by auto
    with 3(1)[OF 1(2)] 1(1) show ?thesis by (cases "xs = []") auto
  next
    case 2
    then have "zs' \<noteq> []" by auto
    with 3(2)[OF 2(2)] 2(1) show ?thesis by (cases "ys = []") auto
  qed
qed auto

lemma last_interleavings:
  assumes "zs \<in> interleavings xss" and "zs \<noteq> []" and "\<forall>xs\<in>set xss. xs \<noteq> [] \<longrightarrow> P (last xs)"
  shows "P (last zs)"
  using assms
proof (induction xss arbitrary: zs)
  case (Cons xs xss)
  then obtain ys where "ys \<in> interleavings xss" "zs \<in> shuffles xs ys" by auto
  with shuffles_snoc[OF this(2)] Cons show ?case by auto
qed simp

subsection \<open>What the sinks send\<close>

text \<open>The commands that one shard of an input table gets from one index shard.\<close>

definition sink_messages :: "(pointer, 'v) shard_fn \<Rightarrow> usize \<Rightarrow> (pointer \<times> 'v) list \<Rightarrow> usize \<Rightarrow> (pointer, 'v, 'd) writer_command list" where
  "sink_messages part n rows sid =
     (if bucket_of part rows sid = [] then [] else [MergeUnsortedInserts (bucket_of part rows sid)]) @ [ReadyForFlush n]"

lemma hook_sink_delivers:
  assumes "all_connected EI" and "all_connected EP"
    and "routed part_i (shards net_i) (map (\<lambda>x. (fst x, ())) rows)" and "routed part_p (shards net_p) rows"
    and "hook_rows resolve input_refs out = Inr (map (\<lambda>x. (fst x, ())) rows, rows)"
  shows "hook_sink EI part_i EP part_p resolve input_refs (net_i, net_p) (Some n) out =
           Some ((deliver net_i (sink_messages part_i n (map (\<lambda>x. (fst x, ())) rows)), deliver net_p (sink_messages part_p n rows)), Inr ())"
  using assms(5) merge_unsorted_inserts_ok[OF assms(1,3), of "Some n"] merge_unsorted_inserts_ok[OF assms(2,4), of "Some n"]
  by (simp add: hook_sink_def sink_messages_def[abs_def])

lemma writes_append [simp]: "writes (cs @ ds) = writes cs @ writes ds"
  by simp

lemma mset_writes: "mset cs = mset ds \<Longrightarrow> mset (writes cs) = mset (writes ds)"
  by (metis mset_concat_cong mset_map)

lemma length_filter_mset: "mset cs = mset ds \<Longrightarrow> length (filter P cs) = length (filter P ds)"
  by (metis mset_filter size_mset)


lemma writes_sink_messages: "writes (sink_messages part n rows sid) = bucket_of part rows sid"
  by (simp add: sink_messages_def)

lemma writes_Cons: "writes (c # cs) = payload c @ writes cs"
  by simp

lemma writes_concat: "writes (concat css) = concat (map writes css)"
  by (induction css) simp_all

text \<open>
  One shard of an input table gets the commands of all index shards, in any interleaving with the request
  of the writer to flush: it commits the rows that belong to it, and does so with the last command.
\<close>

lemma sinks_commit:
  assumes E: "fe_ops E = plain_ops T" "table_laws T view" "table_total T"
    and start: "opens E db dur t" and commit: "\<And>t'. fe_commit E db t' = Inr (db_of t')"
    and cs: "cs \<in> interleavings ([FlushWhenReady ack] # map (\<lambda>s. sink_messages part n (rows s) sid) [0..<n])" and n: "0 < n"
    and keys: "distinct (map fst (bucket_of part (concat (map rows [0..<n])) sid))"
  shows "\<exists>t'. fsm_run E db Idle sched (Begin ack0 dur # cs) = Some (db_of t', Idle, [Ack_Unit ack0 (Inr ()), flushed_ack E ack]) \<and>
           view (pt_table t') = view (pt_table t) ++ map_of (bucket_of part (concat (map rows [0..<n])) sid)"
proof -
  let ?msgs = "\<lambda>s. sink_messages part n (rows s) sid" and ?bucket = "bucket_of part (concat (map rows [0..<n])) sid"
  have E': "plain_env T E = E" using E(1) by (simp add: plain_env_def)
  have ms: "mset cs = mset (FlushWhenReady ack # concat (map ?msgs [0..<n]))"
    using mset_interleavings[OF cs] by simp
  have "cs \<noteq> []" using ms by auto
  then obtain cs' c where snoc: "cs = cs' @ [c]" by (metis rev_exhaust)
  have "is_ready (last cs) \<or> is_request (last cs)"
    by (rule last_interleavings[OF cs \<open>cs \<noteq> []\<close>]) (auto simp: sink_messages_def)
  then have c: "is_ready c \<or> is_request c" by (simp add: snoc)
  have ready: "filter is_ready (?msgs s) = [ReadyForFlush n]" "filter is_request (?msgs s) = []" for s
    by (simp_all add: sink_messages_def)
  have counts: "readies cs = n" "requests cs = 1"
    using length_filter_mset[OF ms, of is_ready] length_filter_mset[OF ms, of is_request]
    by (simp_all add: filter_concat ready o_def length_concat)
  have coll: "\<forall>c'\<in>set cs. collects (fe_cmp E) n ack c'"
    unfolding mset_eq_setD[OF ms] by (auto simp: sink_messages_def)
  have "payload c = []" using c by (cases c) auto
  moreover have "mset (writes cs) = mset ?bucket"
    using mset_writes[OF ms] by (simp only: writes_Cons writes_concat) (simp add: o_def filter_concat writes_sink_messages)
  ultimately have wr: "mset (writes cs') = mset ?bucket" by (simp add: snoc)
  have dist: "distinct (map fst (writes cs'))"
    using keys mset_eq_imp_distinct_iff[of "map fst (writes cs')" "map fst ?bucket"] wr by (metis mset_map)
  have open_cs: "requests cs' \<le> 1" "readies cs' \<le> n" "\<not> (readies cs' = n \<and> requests cs' = 1)"
    using counts c by (cases c; simp add: snoc)+
  have inv: "plain_inv T view t" using E(2,3) by (simp add: plain_inv_def)
  have fin: "c = Flush ack \<or> (collects (fe_cmp E) n ack c \<and> (is_ready c \<or> is_request c) \<and> 0 < n \<and>
               readies (cs' @ [c]) = n \<and> requests (cs' @ [c]) = 1)" using coll c n counts snoc by simp
  have coll': "\<forall>c'\<in>set cs'. collects (fe_cmp E) n ack c'" using coll snoc by simp
  have "map_of (writes cs') = map_of ?bucket" by (rule map_of_mset_cong[OF wr dist])
  with plain_tx.tx_writes[where T = T and E = E and view = view, unfolded E', OF inv start coll' dist _ open_cs fin commit]
  show ?thesis by (metis snoc)
qed

subsection \<open>Every shard of the index answers for its values\<close>

lemma query_answers:
  assumes "index_inv cmp X V t" and "distinct (map fst b)"
  shows "\<exists>t' f. query_values (index_ops X) t b = Some (t', Inr (map (\<lambda>(i, v). (i, f i)) b)) \<and>
           (\<forall>(i, v)\<in>set b. found (ix_contents V t) v (f i))"
proof -
  from query_values_ok[OF assms(1), of b] obtain t' ans where
    q: "query_values (index_ops X) t b = Some (t', Inr (zip (map fst b) ans))" "length ans = length b"
      "\<forall>j < length b. found (ix_contents V t) (snd (b ! j)) (ans ! j)" by blast
  define f where "f i = the (map_of (zip (map fst b) ans) i)" for i
  have f: "f (fst (b ! j)) = ans ! j" if "j < length b" for j
    using map_of_zip_nth[of "map fst b" ans j] that q(2) assms(2) by (simp add: f_def)
  have "zip (map fst b) ans = map (\<lambda>(i, v). (i, f i)) b"
    by (rule nth_equalityI) (use q(2) f in \<open>auto simp: split_beta\<close>)
  moreover have "\<forall>(i, v)\<in>set b. found (ix_contents V t) v (f i)"
    using q(3) f by (auto simp: in_set_conv_nth) (metis fst_conv snd_conv)
  ultimately show ?thesis using q(1) by auto
qed

text \<open>The pairs of positions and hashes that the router sends to one index shard.\<close>

definition hash_bucket :: "('h \<Rightarrow> usize option) \<Rightarrow> ('r \<Rightarrow> 'h) \<Rightarrow> 'r ref_entry list \<Rightarrow> usize \<Rightarrow> (usize \<times> 'h) list" where
  "hash_bucket vp hash_of refs sid = filter (\<lambda>pv. vp (snd pv) = Some sid) (enumerate 0 (map (\<lambda>entry. hash_of (fst entry)) refs))"

definition resolved_row :: "('r \<Rightarrow> pointer option \<Rightarrow> pointer) \<Rightarrow> 'r ref_entry list \<Rightarrow> (usize \<Rightarrow> pointer option) \<Rightarrow> usize \<Rightarrow> pointer \<times> pointer" where
  "resolved_row resolve refs answer i = (input_id (refs ! i), resolve (fst (refs ! i)) (answer i))"

lemma set_hash_bucket:
  "(i, h) \<in> set (hash_bucket vp hash_of refs sid) \<longleftrightarrow> i < length refs \<and> h = hash_of (fst (refs ! i)) \<and> vp h = Some sid"
  by (auto simp: hash_bucket_def in_set_enumerate_eq)

lemma distinct_hash_bucket: "distinct (map fst (hash_bucket vp hash_of refs sid))"
  by (simp add: hash_bucket_def distinct_map_filter)

lemma mset_hash_buckets:
  assumes "\<forall>e\<in>set refs. \<exists>sid<n. vp (hash_of (fst e)) = Some sid"
  shows "mset (map fst (concat (map (hash_bucket vp hash_of refs) [0..<n]))) = mset [0..<length refs]"
proof -
  let ?pairs = "enumerate 0 (map (\<lambda>entry. hash_of (fst entry)) refs)"
  have "routed (ByValue vp) n ?pairs" using assms by (auto simp: routed_def shard_of_def in_set_enumerate_eq)
  from mset_buckets[OF this] have "mset (concat (map (hash_bucket vp hash_of refs) [0..<n])) = mset ?pairs"
    by (simp add: hash_bucket_def[abs_def] shard_of_def)
  then have "mset (map fst (concat (map (hash_bucket vp hash_of refs) [0..<n]))) = mset (map fst ?pairs)"
    unfolding mset_map by (rule arg_cong)
  then show ?thesis by simp
qed

lemma refs_resolved:
  assumes inv: "\<forall>sid<n. index_inv cmp X V (t sid)"
    and placed: "\<forall>sid<n. \<forall>h\<in>ran (ix_contents V (t sid)). vp h = Some sid"
    and total: "\<forall>e\<in>set refs. \<exists>sid<n. vp (hash_of (fst e)) = Some sid"
  shows "\<exists>rows answer.
           (\<forall>sid<n. \<exists>t' out. query_values (index_ops X) (t sid) (hash_bucket vp hash_of refs sid) = Some (t', Inr out) \<and>
              hook_rows resolve refs out = Inr (map (\<lambda>x. (fst x, ())) (rows sid), rows sid)) \<and>
           mset (concat (map rows [0..<n])) = mset (map (resolved_row resolve refs answer) [0..<length refs]) \<and>
           (\<forall>i<length refs. case answer i of
              Some k \<Rightarrow> \<exists>sid<n. ix_contents V (t sid) k = Some (hash_of (fst (refs ! i)))
            | None \<Rightarrow> \<forall>sid<n. hash_of (fst (refs ! i)) \<notin> ran (ix_contents V (t sid)))"
proof -
  let ?b = "hash_bucket vp hash_of refs"
  have "\<forall>sid. \<exists>f. sid < n \<longrightarrow> (\<exists>t'. query_values (index_ops X) (t sid) (?b sid) = Some (t', Inr (map (\<lambda>(i, v). (i, f i)) (?b sid)))) \<and>
          (\<forall>(i, v)\<in>set (?b sid). found (ix_contents V (t sid)) v (f i))"
  proof
    fix sid
    show "\<exists>f. sid < n \<longrightarrow> (\<exists>t'. query_values (index_ops X) (t sid) (?b sid) = Some (t', Inr (map (\<lambda>(i, v). (i, f i)) (?b sid)))) \<and>
          (\<forall>(i, v)\<in>set (?b sid). found (ix_contents V (t sid)) v (f i))"
      using query_answers[OF inv[rule_format] distinct_hash_bucket, of sid] by blast
  qed
  from choice[OF this] obtain f where f0: "\<forall>sid. sid < n \<longrightarrow>
      (\<exists>t'. query_values (index_ops X) (t sid) (?b sid) = Some (t', Inr (map (\<lambda>(i, v). (i, f sid i)) (?b sid)))) \<and>
      (\<forall>(i, v)\<in>set (?b sid). found (ix_contents V (t sid)) v (f sid i))" by blast
  have f: "\<exists>t'. query_values (index_ops X) (t sid) (?b sid) = Some (t', Inr (map (\<lambda>(i, v). (i, f sid i)) (?b sid)))"
    "\<forall>(i, v)\<in>set (?b sid). found (ix_contents V (t sid)) v (f sid i)" if "sid < n" for sid
    using f0 that by blast+
  define answer where "answer i = f (the (vp (hash_of (fst (refs ! i))))) i" for i
  define rows where "rows sid = map (\<lambda>x. resolved_row resolve refs answer (fst x)) (?b sid)" for sid
  have "hook_rows resolve refs (map (\<lambda>(i, v). (i, f sid i)) (?b sid)) = Inr (map (\<lambda>x. (fst x, ())) (rows sid), rows sid)" for sid
    by (subst hook_rows_ok) (auto simp: set_hash_bucket rows_def resolved_row_def answer_def)
  with f(1) have run: "\<forall>sid<n. \<exists>t' out. query_values (index_ops X) (t sid) (?b sid) = Some (t', Inr out) \<and>
      hook_rows resolve refs out = Inr (map (\<lambda>x. (fst x, ())) (rows sid), rows sid)" by blast
  have "concat (map rows [0..<n]) = map (resolved_row resolve refs answer) (map fst (concat (map ?b [0..<n])))"
    by (simp add: rows_def[abs_def] map_concat o_def)
  then have all: "mset (concat (map rows [0..<n])) = mset (map (resolved_row resolve refs answer) [0..<length refs])"
    using mset_hash_buckets[of refs n vp hash_of, OF total] by (metis mset_map)
  have "case answer i of Some k \<Rightarrow> \<exists>sid<n. ix_contents V (t sid) k = Some (hash_of (fst (refs ! i)))
          | None \<Rightarrow> \<forall>sid<n. hash_of (fst (refs ! i)) \<notin> ran (ix_contents V (t sid))" if i: "i < length refs" for i
  proof -
    from total i obtain sid where sid: "sid < n" "vp (hash_of (fst (refs ! i))) = Some sid" by (meson nth_mem)
    with f(2)[OF sid(1)] i have "found (ix_contents V (t sid)) (hash_of (fst (refs ! i))) (answer i)"
      by (force simp: set_hash_bucket answer_def)
    with sid placed show ?thesis by (auto simp: found_def split: option.splits)
  qed
  with run all show ?thesis by blast
qed

subsection \<open>Properties\<close>

text \<open>
  C5. The inputs of a block end up in the input table as pointers to the outputs that they spend. The index of
  transaction hashes has any number \<open>n\<close> of shards, each consistent and holding the hashes that the
  partitioner gives to it. Every index shard answers for its part of the references, and its sink sends the
  resolved rows and one announcement to every shard of the two input tables. A shard of the pointer table that gets those commands, and
  the request to flush, in any interleaving commits, with the last of them, its old contents with exactly
  the resolved rows that the partitioner gives to it. An answer that was found points to a transaction with the hash of the
  reference; a reference is unresolved only if no shard of the index has its hash.
\<close>

theorem inputs_resolved_and_committed:
  assumes index: "0 < n" "\<forall>sid<n. index_inv cmp X V (t sid)" "\<forall>sid<n. \<forall>h\<in>ran (ix_contents V (t sid)). vp h = Some sid"
      "\<forall>e\<in>set refs. \<exists>sid<n. vp (hash_of (fst e)) = Some sid"
    and nets: "all_connected EI" "all_connected EP" "\<forall>k. \<exists>sid < shards net_i. shard_of part_i (k, ()) = Some sid"
      "\<forall>kv. \<exists>sid < shards net_p. shard_of part_p kv = Some sid"
    and store: "fe_ops E = plain_ops T" "table_laws T view" "table_total T" "opens E db dur tb"
      "\<And>t'. fe_commit E db t' = Inr (db_of t')"
    and ids: "distinct (map input_id refs)"
  shows "\<exists>rows answer.
           (\<forall>sid<n. \<exists>t' out. query_values (index_ops X) (t sid) (hash_bucket vp hash_of refs sid) = Some (t', Inr out) \<and>
              hook_sink EI part_i EP part_p resolve refs (net_i, net_p) (Some n) out =
                Some ((deliver net_i (sink_messages part_i n (map (\<lambda>x. (fst x, ())) (rows sid))),
                       deliver net_p (sink_messages part_p n (rows sid))), Inr ())) \<and>
           (\<forall>i<length refs. case answer i of
              Some k \<Rightarrow> \<exists>sid<n. ix_contents V (t sid) k = Some (hash_of (fst (refs ! i)))
            | None \<Rightarrow> \<forall>sid<n. hash_of (fst (refs ! i)) \<notin> ran (ix_contents V (t sid))) \<and>
           (\<forall>sid cs. cs \<in> interleavings ([FlushWhenReady ack] # map (\<lambda>s. sink_messages part_p n (rows s) sid) [0..<n]) \<longrightarrow>
              (\<exists>t'. fsm_run E db Idle sched (Begin ack0 dur # cs) =
                      Some (db_of t', Idle, [Ack_Unit ack0 (Inr ()), flushed_ack E ack]) \<and>
                    view (pt_table t') = view (pt_table tb) ++
                      map_of (bucket_of part_p (map (resolved_row resolve refs answer) [0..<length refs]) sid)))"
proof -
  from refs_resolved[OF index(2,3), of refs hash_of resolve, OF index(4)] obtain rows answer where
    run: "\<forall>sid<n. \<exists>t' out. query_values (index_ops X) (t sid) (hash_bucket vp hash_of refs sid) = Some (t', Inr out) \<and>
              hook_rows resolve refs out = Inr (map (\<lambda>x. (fst x, ())) (rows sid), rows sid)" and
    all: "mset (concat (map rows [0..<n])) = mset (map (resolved_row resolve refs answer) [0..<length refs])" and
    ans: "\<forall>i<length refs. case answer i of
              Some k \<Rightarrow> \<exists>sid<n. ix_contents V (t sid) k = Some (hash_of (fst (refs ! i)))
            | None \<Rightarrow> \<forall>sid<n. hash_of (fst (refs ! i)) \<notin> ran (ix_contents V (t sid))" by blast
  let ?rows = "concat (map rows [0..<n])" and ?resolved = "map (resolved_row resolve refs answer) [0..<length refs]"
  have routed: "routed part_i (shards net_i) (map (\<lambda>x. (fst x, ())) r)" "routed part_p (shards net_p) r" for r
    using nets(3,4) by (auto simp: routed_def)
  have "map fst ?resolved = map input_id refs"
    by (rule nth_equalityI) (simp_all add: resolved_row_def)
  then have bucket: "mset (bucket_of part_p ?rows sid) = mset (bucket_of part_p ?resolved sid)"
    and dist: "distinct (map fst (bucket_of part_p ?resolved sid))" for sid
    using all ids by (simp_all only: mset_filter distinct_map_filter)
  then have dist': "distinct (map fst (bucket_of part_p ?rows sid))" for sid
    by (metis mset_eq_imp_distinct_iff mset_map)
  have sink: "\<exists>t' out. query_values (index_ops X) (t sid) (hash_bucket vp hash_of refs sid) = Some (t', Inr out) \<and>
      hook_sink EI part_i EP part_p resolve refs (net_i, net_p) (Some n) out =
        Some ((deliver net_i (sink_messages part_i n (map (\<lambda>x. (fst x, ())) (rows sid))),
               deliver net_p (sink_messages part_p n (rows sid))), Inr ())" if "sid < n" for sid
  proof -
    from run that obtain t' out where q: "query_values (index_ops X) (t sid) (hash_bucket vp hash_of refs sid) = Some (t', Inr out)"
      "hook_rows resolve refs out = Inr (map (\<lambda>x. (fst x, ())) (rows sid), rows sid)" by blast
    from hook_sink_delivers[OF nets(1,2) routed q(2), of n] q(1) show ?thesis by blast
  qed
  have "\<exists>t'. fsm_run E db Idle sched (Begin ack0 dur # cs) = Some (db_of t', Idle, [Ack_Unit ack0 (Inr ()), flushed_ack E ack]) \<and>
           view (pt_table t') = view (pt_table tb) ++ map_of (bucket_of part_p ?resolved sid)"
    if "cs \<in> interleavings ([FlushWhenReady ack] # map (\<lambda>s. sink_messages part_p n (rows s) sid) [0..<n])" for sid cs
    using sinks_commit[OF store that index(1) dist'] map_of_mset_cong[OF bucket dist'] by metis
  with sink ans show ?thesis by blast
qed

definition demo_hash_env :: "(nat \<Rightarrow> pointer list, pointer \<rightharpoonup> nat, nat \<rightharpoonup> pointer, pointer, nat, nat) index_env" where
  "demo_hash_env = \<lparr>ie_mm = list_multimap_ops, ie_tbl = map_table_ops, ie_lru = map_lru_ops, ie_cache_key = id, ie_value_cmp = default\<rparr>"

definition demo_hash_views :: "(nat \<Rightarrow> pointer list, pointer \<rightharpoonup> nat, nat \<rightharpoonup> pointer, pointer, nat, nat) index_views" where
  "demo_hash_views = \<lparr>iv_mm = (\<lambda>m k. set (m k)), iv_tbl = (\<lambda>t. t), iv_lru = (\<lambda>c. c)\<rparr>"

definition demo_hashes :: "usize \<Rightarrow> (nat \<Rightarrow> pointer list, pointer \<rightharpoonup> nat, nat \<rightharpoonup> pointer) index_table" where
  "demo_hashes sid =
     (if sid = 1 then \<lparr>pk_by_index = (\<lambda>_. [])(7 := [Child (Root 3) 2]), index_by_pk = [Child (Root 3) 2 \<mapsto> 7], ix_cache = None\<rparr>
      else \<lparr>pk_by_index = (\<lambda>_. []), index_by_pk = Map.empty, ix_cache = None\<rparr>)"

definition demo_refs :: "nat input_ref ref_entry list" where
  "demo_refs = [(\<lparr>ref_hash = 7, ref_index = 1\<rparr>, Child (Root 5) 0, 0), (\<lparr>ref_hash = 8, ref_index = 65535\<rparr>, Child (Root 5) 1, 0)]"

definition demo_ptr_fsm :: "('v itself) \<Rightarrow> ((pointer \<rightharpoonup> 'v) plain_table, pointer, 'v, unit, (pointer \<rightharpoonup> 'v) plain_table) fsm_env" where
  "demo_ptr_fsm _ =
     \<lparr>fe_cmp = default, fe_ops = plain_ops map_table_ops, fe_name = ''inputs'', fe_alive = (\<lambda>_. True),
      fe_send_error = ''closed'', fe_recv_error = ''closed'', fe_sink = (\<lambda>_ _ _. Inr ()),
      fe_took = \<lparr>wr_collect_took = 1, wr_sort_took = 0, wr_write_took = 2\<rparr>, fe_flush_took = 5,
      fe_upgrade = (\<lambda>_. True), fe_begin_write = (\<lambda>_. Inr ()), fe_set_durability = (\<lambda>_. Inr ()),
      fe_open_for_write = (\<lambda>db. Inr db), fe_commit = (\<lambda>_ t. Inr t)\<rparr>"

definition demo_ptr_net :: "('v itself) \<Rightarrow> ((pointer \<rightharpoonup> 'v) plain_table, pointer, 'v, unit, (pointer \<rightharpoonup> 'v) plain_table) net_env" where
  "demo_ptr_net v = \<lparr>ne_fsm = demo_ptr_fsm v, ne_start = (\<lambda>_. (\<lparr>pt_table = Map.empty\<rparr>, Idle)), ne_try_send = (\<lambda>_ _. Sent),
     ne_send_ok = (\<lambda>_ _. True), ne_send_error = [], ne_recv_error = []\<rparr>"

lemma demo_hashes_inv: "index_inv default demo_hash_env demo_hash_views (demo_hashes sid)"
  by (auto simp: index_inv_def index_laws_def cache_sound_def demo_hash_env_def demo_hash_views_def demo_hashes_def
      list_multimap_ok map_table_ok map_lru_ok)

theorem inputs_resolved_and_committed_witness:
  "\<exists>rows answer.
     (\<forall>sid<2. \<exists>t' out. query_values (index_ops demo_hash_env) (demo_hashes sid) (hash_bucket (\<lambda>h. Some (h mod 2)) ref_hash demo_refs sid) =
           Some (t', Inr out) \<and>
        hook_sink (demo_ptr_net TYPE(unit)) (ByKey (\<lambda>_. Some 0)) (demo_ptr_net TYPE(pointer)) (ByKey (\<lambda>_. Some 0)) btc_utxo_pointer demo_refs
            (\<lparr>queues = [[]], next_chan = 0\<rparr>, \<lparr>queues = [[]], next_chan = 0\<rparr>) (Some 2) out =
          Some ((deliver \<lparr>queues = [[]], next_chan = 0\<rparr> (sink_messages (ByKey (\<lambda>_. Some 0)) 2 (map (\<lambda>x. (fst x, ())) (rows sid))),
                 deliver \<lparr>queues = [[]], next_chan = 0\<rparr> (sink_messages (ByKey (\<lambda>_. Some 0)) 2 (rows sid))), Inr ())) \<and>
     (\<forall>i<length demo_refs. case answer i of
        Some k \<Rightarrow> \<exists>sid<2. ix_contents demo_hash_views (demo_hashes sid) k = Some (ref_hash (fst (demo_refs ! i)))
      | None \<Rightarrow> \<forall>sid<2. ref_hash (fst (demo_refs ! i)) \<notin> ran (ix_contents demo_hash_views (demo_hashes sid))) \<and>
     (\<forall>sid cs. cs \<in> interleavings ([FlushWhenReady 9] # map (\<lambda>s. sink_messages (ByKey (\<lambda>_. Some 0)) 2 (rows s) sid) [0..<2]) \<longrightarrow>
        (\<exists>t'. fsm_run (demo_ptr_fsm TYPE(pointer)) \<lparr>pt_table = Map.empty\<rparr> Idle [] (Begin 1 () # cs) =
                Some (t', Idle, [Ack_Unit 1 (Inr ()), flushed_ack (demo_ptr_fsm TYPE(pointer)) 9]) \<and>
              pt_table t' = pt_table \<lparr>pt_table = Map.empty\<rparr> ++
                map_of (bucket_of (ByKey (\<lambda>_. Some 0)) (map (resolved_row btc_utxo_pointer demo_refs answer) [0..<length demo_refs]) sid)))"
proof (rule inputs_resolved_and_committed[where cmp = default and X = demo_hash_env and V = demo_hash_views and T = map_table_ops and view = "\<lambda>t. t" and db_of = "\<lambda>t. t"])
  show "\<forall>sid<2. \<forall>h\<in>ran (ix_contents demo_hash_views (demo_hashes sid)). Some (h mod 2) = Some sid"
    by (auto simp: demo_hash_views_def demo_hashes_def ran_def)
  show "\<forall>e\<in>set demo_refs. \<exists>sid<2. Some (ref_hash (fst e) mod 2) = Some sid" by simp
  show "distinct (map input_id demo_refs)" by (simp add: demo_refs_def input_id_def from_parent_def)
qed (simp_all add: demo_hashes_inv all_connected_def demo_ptr_net_def shards_def shard_of_def demo_ptr_fsm_def map_table_ok opens_def)

text \<open>
  C23. A reference is spent at most once in a batch: the references of all transactions are collected in order, each with the
  key of its transaction and its position, if they are all different; as soon as one of them comes a second
  time the whole batch is refused. The keys that the hook derives are
  different when the transactions are different and none has more than 65536 inputs.
\<close>

theorem double_spend_refused:
  "collect_all_refs [] instances =
     (if distinct (concat (map snd instances)) then Inr (entries_of instances) else Inl (Custom ''Double spend not supported'')) \<and>
   (distinct (map fst instances) \<and> (\<forall>(pk, rs)\<in>set instances. length rs \<le> 65536) \<longrightarrow> distinct (map input_id (entries_of instances)))"
proof -
  have "distinct (map input_id (entries_of instances))"
    if "distinct (map fst instances)" "\<forall>(pk, rs)\<in>set instances. length rs \<le> 65536"
    using that
  proof (induction instances)
    case (Cons x instances)
    obtain pk rs where x: "x = (pk, rs)" by fastforce
    have ids: "map input_id (map (\<lambda>(idx, r). (r, pk, idx)) (enumerate 0 rs)) = map (\<lambda>i. from_parent pk i) [0..<length rs]"
      using Cons.prems(2) x by (intro nth_equalityI) (auto simp: input_id_def nth_enumerate_eq)
    have "from_parent pk i \<notin> set (map input_id (entries_of instances))" for i
      using Cons.prems(1) x by (auto simp: entries_of_def input_id_def from_parent_def image_iff)
    then have "set (map (\<lambda>i. from_parent pk i) [0..<length rs]) \<inter> set (map input_id (entries_of instances)) = {}" by auto
    moreover have "distinct (map (\<lambda>i. from_parent pk i) [0..<length rs])" by (auto simp: distinct_map inj_on_def from_parent_def)
    moreover have "entries_of (x # instances) = map (\<lambda>(idx, r). (r, pk, idx)) (enumerate 0 rs) @ entries_of instances"
      by (simp add: entries_of_def x)
    ultimately show ?case using Cons x by (simp only: map_append ids distinct_append) simp
  qed (simp add: entries_of_def)
  then show ?thesis using collect_all_refs_iff[of "[]" instances] by auto
qed

theorem double_spend_refused_witness:
  "distinct (map input_id (entries_of [(Child (Root 5) 0, [7, 8 :: nat]), (Child (Root 5) 1, [9])])) \<and>
   collect_all_refs [] [(Child (Root 5) 0, [7, 8 :: nat]), (Child (Root 5) 1, [7])] = Inl (Custom ''Double spend not supported'')"
  using double_spend_refused[of "[(Child (Root 5) 0, [7, 8 :: nat]), (Child (Root 5) 1, [9])]"]
    double_spend_refused[of "[(Child (Root 5) 0, [7, 8 :: nat]), (Child (Root 5) 1, [7])]"] by simp

end
