(* ===== verification/Address_Codec.thy ===== *)
theory Address_Codec
  imports Prelude
begin

unbundle bit_operations_syntax

section \<open>Addresses as bytes and as text\<close>

text \<open>
  The serialisers of the address column of the chains (\<open>chains/btc/src/codec.rs\<close>, \<open>chains/ltc/src/codec.rs\<close>,
  \<open>chains/bch/src/codec.rs\<close>, \<open>chains/cardano/src/codec.rs\<close>, \<open>chains/ergo/src/codec.rs\<close>). An address is stored as bytes and shown as text: a legacy
  address is a version byte with 20 bytes and its text is Base58Check; a witness program is tagged and its
  text is Bech32.

  The crates bs58, bech32, bitcoin and ergo-lib are the environment \<open>addr_env\<close>, with what the code relies on as
  the laws below it. A text is the list of its UTF-8 bytes, each a \<open>char\<close>. An error is a message; \<open>None\<close> is a
  panic. The interface \<open>text_codec\<close> is what a column needs of its serialiser, and every codec is an
  interpretation of it on the bytes that it can write.
\<close>

type_synonym 'a parsed = "string + 'a"

definition map_err :: "string \<Rightarrow> 'a parsed \<Rightarrow> 'a parsed" where
  "map_err msg r = map_sum (\<lambda>e. msg @ e) id r"

lemma map_err_simps [simp]: "map_err msg (Inr x) = Inr x" "map_err msg (Inl e) = Inl (msg @ e)"
  by (simp_all add: map_err_def)

record ('h, 'addr) addr_env =
  b58check_encode :: "bytes \<Rightarrow> string"
  b58check_decode :: "string \<Rightarrow> bytes parsed"
  segwit_encode :: "string \<Rightarrow> nat \<Rightarrow> bytes \<Rightarrow> string parsed"
  segwit_decode :: "string \<Rightarrow> ('h \<times> nat \<times> bytes) parsed"
  btc_address_from_str :: "string \<Rightarrow> (nat \<times> bytes) option parsed"
  bech32m_encode :: "string \<Rightarrow> bytes \<Rightarrow> string parsed"
  bech32_decode :: "string \<Rightarrow> ('h \<times> bytes) parsed"
  ergo_from_bytes :: "bytes \<Rightarrow> 'addr parsed"
  ergo_from_str :: "string \<Rightarrow> 'addr parsed"
  ergo_to_str :: "'addr \<Rightarrow> string"
  ergo_to_bytes :: "'addr \<Rightarrow> bytes"

definition TAG_SEGWIT :: u8 where "TAG_SEGWIT = 0xB0"

definition TAG_OP_RETURN :: u8 where "TAG_OP_RETURN = 0xF0"

definition TAG_NON_ADDR :: u8 where "TAG_NON_ADDR = 0xFF"

subsection \<open>Base58 and Bech32 alone\<close>

definition base58_serialize_as :: "('h, 'a) addr_env \<Rightarrow> bytes \<Rightarrow> string parsed" where
  "base58_serialize_as X source = Inr (b58check_encode X source)"

definition base58_deserialize_as :: "('h, 'a) addr_env \<Rightarrow> string \<Rightarrow> bytes parsed" where
  "base58_deserialize_as X s = map_err ''Base58 decode error: '' (b58check_decode X s)"

definition bech32_serialize_as :: "('h, 'a) addr_env \<Rightarrow> bytes \<Rightarrow> string parsed" where
  "bech32_serialize_as X source =
     (case if length source = 20 then Inr 0 else if length source = 32 then Inr 1 else Inl ''Unsupported witness program length'' of
        Inl e \<Rightarrow> Inl e
      | Inr version \<Rightarrow> map_err ''Bech32 encode error: '' (segwit_encode X ''bc'' version source))"

definition bech32_deserialize_as :: "('h, 'a) addr_env \<Rightarrow> string \<Rightarrow> bytes parsed" where
  "bech32_deserialize_as X s = map_err ''Bech32 decode error: '' (map_sum id (\<lambda>(_, _, program). program) (segwit_decode X s))"

subsection \<open>Case-insensitive prefixes\<close>

definition ascii_eq_icase :: "u8 \<Rightarrow> u8 \<Rightarrow> bool" where
  "ascii_eq_icase a b \<longleftrightarrow> a = b \<or> a XOR 0x20 = b"

definition as_bytes :: "string \<Rightarrow> bytes" where
  "as_bytes s = map of_char s"

definition has_prefix_icase :: "string \<Rightarrow> bytes \<Rightarrow> bool" where
  "has_prefix_icase s p =
     (let b = as_bytes s in if length b < length p then False else list_all (\<lambda>i. ascii_eq_icase (b ! i) (p ! i)) [0..<length p])"

subsection \<open>Bitcoin\<close>

definition btc_looks_bech32_addr :: "string \<Rightarrow> bool" where
  "btc_looks_bech32_addr s \<longleftrightarrow>
     has_prefix_icase s (as_bytes ''bc1'') \<or> has_prefix_icase s (as_bytes ''tb1'') \<or> has_prefix_icase s (as_bytes ''bcrt1'')"

definition btc_encode_tagged_segwit :: "('h, 'a) addr_env \<Rightarrow> bytes \<Rightarrow> string parsed" where
  "btc_encode_tagged_segwit X src =
     (let ver = src ! 1; prog = drop 2 src in
      if 16 < unat ver then Inl ''invalid segwit version''
      else if length prog \<noteq> 20 \<and> length prog \<noteq> 32 then Inl ''invalid segwit program length''
      else map_err ''Bech32 encode error: '' (segwit_encode X ''bc'' (unat ver) prog))"

text \<open>The legacy text for two version bytes; the empty case is \<open>unreachable!()\<close>.\<close>

definition base58_serialize :: "('h, 'a) addr_env \<Rightarrow> u8 \<Rightarrow> u8 \<Rightarrow> bytes \<Rightarrow> string parsed option" where
  "base58_serialize X p2pkh p2sh src =
     (case src of
        [] \<Rightarrow> None
      | v # _ \<Rightarrow> Some (if v = p2pkh \<or> v = p2sh then Inr (b58check_encode X src) else Inl ''21 bytes but unknown legacy version''))"

definition btc_serialize_as :: "('h, 'a) addr_env \<Rightarrow> bytes \<Rightarrow> string parsed option" where
  "btc_serialize_as X source =
     (if 3 \<le> length source \<and> source ! 0 = TAG_SEGWIT then Some (btc_encode_tagged_segwit X source)
      else if length source = 21 then base58_serialize X 0x00 0x05 source
      else Some (Inl ''unsupported address-bytes layout''))"

text \<open>The end of every deserialiser: the legacy text for two version bytes.\<close>

definition base58_deserialize :: "('h, 'a) addr_env \<Rightarrow> u8 \<Rightarrow> u8 \<Rightarrow> string \<Rightarrow> bytes parsed" where
  "base58_deserialize X p2pkh p2sh s =
     (case b58check_decode X s of
        Inr vec \<Rightarrow>
          if length vec = 21 \<and> (hd vec = p2pkh \<or> hd vec = p2sh) then Inr vec else Inl ''Base58 payload must be 21 bytes''
      | Inl _ \<Rightarrow> Inl ''Invalid address'')"

definition btc_deserialize_as :: "('h, 'a) addr_env \<Rightarrow> string \<Rightarrow> bytes parsed" where
  "btc_deserialize_as X s =
     (if btc_looks_bech32_addr s
      then (case btc_address_from_str X s of
              Inl e \<Rightarrow> Inl (''Bech32 parse failed: '' @ e)
            | Inr None \<Rightarrow> Inl ''expected segwit witness program''
            | Inr (Some (ver, prog)) \<Rightarrow>
                if length prog \<noteq> 20 \<and> length prog \<noteq> 32 then Inl ''invalid segwit program length''
                else Inr ([TAG_SEGWIT, of_nat ver] @ prog))
      else base58_deserialize X 0x00 0x05 s)"

subsection \<open>Litecoin\<close>

definition ltc_looks_bech32_addr :: "string \<Rightarrow> bool" where
  "ltc_looks_bech32_addr s \<longleftrightarrow> has_prefix_icase s (as_bytes ''ltc1'') \<or> has_prefix_icase s (as_bytes ''tltc1'')"

definition ltc_encode_tagged_segwit :: "('h, 'a) addr_env \<Rightarrow> bytes \<Rightarrow> string parsed" where
  "ltc_encode_tagged_segwit X src =
     (let ver = src ! 1; prog = drop 2 src in
      if length prog \<noteq> 20 \<and> length prog \<noteq> 32 then Inl ''invalid segwit program length''
      else if 1 < unat ver then Inl ''unsupported segwit version''
      else map_err ''Bech32 encode error: '' (segwit_encode X ''ltc'' (unat ver) prog))"

definition ltc_serialize_as :: "('h, 'a) addr_env \<Rightarrow> bytes \<Rightarrow> string parsed option" where
  "ltc_serialize_as X source =
     (if 3 \<le> length source \<and> source ! 0 = TAG_SEGWIT then Some (ltc_encode_tagged_segwit X source)
      else if length source = 21 then base58_serialize X 0x30 0x32 source
      else Some (Inl ''unsupported address-bytes layout''))"

definition ltc_deserialize_as :: "('h, 'a) addr_env \<Rightarrow> string \<Rightarrow> bytes parsed" where
  "ltc_deserialize_as X s =
     (if ltc_looks_bech32_addr s
      then (case segwit_decode X s of
              Inl e \<Rightarrow> Inl (''Bech32 parse failed: '' @ e)
            | Inr (_, ver, prog) \<Rightarrow>
                if length prog \<noteq> 20 \<and> length prog \<noteq> 32 then Inl ''invalid segwit program length''
                else if ver \<le> 16 then Inr ([TAG_SEGWIT, of_nat ver] @ prog)
                else Inl ''invalid segwit version'')
      else base58_deserialize X 0x30 0x32 s)"

subsection \<open>Bitcoin Cash\<close>

definition bch_serialize_as :: "('h, 'a) addr_env \<Rightarrow> bytes \<Rightarrow> string parsed option" where
  "bch_serialize_as X source =
     (if length source = 21 then base58_serialize X 0x00 0x05 source else Some (Inl ''unsupported address-bytes layout''))"

definition bch_deserialize_as :: "('h, 'a) addr_env \<Rightarrow> string \<Rightarrow> bytes parsed" where
  "bch_deserialize_as X s = base58_deserialize X 0x00 0x05 s"

subsection \<open>Cardano\<close>

definition cardano_serialize_as :: "('h, 'a) addr_env \<Rightarrow> bytes \<Rightarrow> string parsed" where
  "cardano_serialize_as X source =
     (if 20 \<le> length source \<and> length source \<le> 32 then bech32m_encode X ''addr'' source
      else Inr (b58check_encode X source))"

definition cardano_deserialize_as :: "('h, 'a) addr_env \<Rightarrow> string \<Rightarrow> bytes parsed" where
  "cardano_deserialize_as X s =
     (case bech32_decode X s of
        Inr (_, data) \<Rightarrow> Inr data
      | Inl _ \<Rightarrow>
          (case b58check_decode X s of
             Inr vec \<Rightarrow> Inr vec
           | Inl _ \<Rightarrow> Inl ''invalid Cardano address format''))"

subsection \<open>Ergo\<close>

definition EMPTY_ADDR_SENTINEL :: string where "EMPTY_ADDR_SENTINEL = ''EMPTY''"

definition ergo_serialize_as :: "('h, 'a) addr_env \<Rightarrow> bytes \<Rightarrow> string parsed" where
  "ergo_serialize_as X source =
     (if source = [] then Inr EMPTY_ADDR_SENTINEL else map_sum id (ergo_to_str X) (ergo_from_bytes X source))"

definition ergo_deserialize_as :: "('h, 'a) addr_env \<Rightarrow> string \<Rightarrow> bytes parsed" where
  "ergo_deserialize_as X s =
     (if s = EMPTY_ADDR_SENTINEL then Inr [] else map_sum id (ergo_to_bytes X) (ergo_from_str X s))"

subsection \<open>What the crates document\<close>

text \<open>
  Base58Check is decoded to what was encoded. The text of a legacy Bitcoin address, 21 bytes with version
  0 or 5, begins with 1 or 3.
\<close>

definition base58_laws :: "('h, 'a) addr_env \<Rightarrow> bool" where
  "base58_laws X \<longleftrightarrow>
     (\<forall>bs. b58check_decode X (b58check_encode X bs) = Inr bs) \<and>
     (\<forall>bs. length bs = 21 \<longrightarrow> hd bs = 0x00 \<longrightarrow> (\<exists>s. b58check_encode X bs = CHR ''1'' # s)) \<and>
     (\<forall>bs. length bs = 21 \<longrightarrow> hd bs = 0x05 \<longrightarrow> (\<exists>s. b58check_encode X bs = CHR ''3'' # s))"

text \<open>
  A witness program of 20 or 32 bytes has a text for every version up to 16. The text begins with the
  human-readable part and the separator 1, and is parsed to the version and the program.
\<close>

definition segwit_laws :: "('h, 'a) addr_env \<Rightarrow> bool" where
  "segwit_laws X \<longleftrightarrow>
     (\<forall>hrp ver prog. ver \<le> 16 \<longrightarrow> length prog = 20 \<or> length prog = 32 \<longrightarrow>
        (\<exists>t. segwit_encode X hrp ver prog = Inr (hrp @ ''1'' @ t) \<and>
             (\<exists>h. segwit_decode X (hrp @ ''1'' @ t) = Inr (h, ver, prog)) \<and>
             (hrp = ''bc'' \<longrightarrow> btc_address_from_str X (hrp @ ''1'' @ t) = Inr (Some (ver, prog))))) \<and>
     (\<forall>s ver prog. btc_address_from_str X s = Inr (Some (ver, prog)) \<longrightarrow> ver \<le> 16)"

definition cardano_laws :: "('h, 'a) addr_env \<Rightarrow> bool" where
  "cardano_laws X \<longleftrightarrow>
     (\<forall>hrp bs. 20 \<le> length bs \<longrightarrow> length bs \<le> 32 \<longrightarrow>
        (\<exists>s h. bech32m_encode X hrp bs = Inr s \<and> bech32_decode X s = Inr (h, bs))) \<and>
     (\<forall>bs. b58check_decode X (b58check_encode X bs) = Inr bs)"

definition ergo_laws :: "('h, 'a) addr_env \<Rightarrow> bool" where
  "ergo_laws X \<longleftrightarrow>
     (\<forall>a. ergo_from_str X (ergo_to_str X a) = Inr a \<and> ergo_to_str X a \<noteq> EMPTY_ADDR_SENTINEL) \<and>
     (\<forall>a. ergo_from_bytes X (ergo_to_bytes X a) = Inr a \<and> ergo_to_bytes X a \<noteq> [])"

subsection \<open>The interface of a text codec\<close>

text \<open>
  A column needs that every value it can hold has a text and that the text is read back to the value
  (\<open>text_writer\<close>), and that what is read can be written again (\<open>text_codec\<close>).
\<close>

locale text_writer =
  fixes env_ok :: bool and writable :: "'b \<Rightarrow> bool" and enc :: "'b \<Rightarrow> 't option" and dec :: "'t \<Rightarrow> 'b option"
  assumes enc_total: "env_ok \<Longrightarrow> writable b \<Longrightarrow> \<exists>t. enc b = Some t"
    and dec_enc: "env_ok \<Longrightarrow> writable b \<Longrightarrow> enc b = Some t \<Longrightarrow> dec t = Some b"
begin

lemma roundtrip: "env_ok \<Longrightarrow> writable b \<Longrightarrow> \<exists>t. enc b = Some t \<and> dec t = Some b"
  using enc_total dec_enc by blast

lemma enc_inj: "env_ok \<Longrightarrow> writable b \<Longrightarrow> writable c \<Longrightarrow> enc b = enc c \<Longrightarrow> b = c"
  using roundtrip[of b] roundtrip[of c] by auto

end

locale text_codec = text_writer +
  assumes dec_writable: "env_ok \<Longrightarrow> dec t = Some b \<Longrightarrow> writable b"
begin

text \<open>What was read has a canonical text, which is read to the same value.\<close>

lemma canonical: "env_ok \<Longrightarrow> dec t = Some b \<Longrightarrow> \<exists>t'. enc b = Some t' \<and> dec t' = Some b"
  using roundtrip dec_writable by blast

end

subsection \<open>Layouts\<close>

definition legacy_layout :: "u8 \<Rightarrow> u8 \<Rightarrow> bytes \<Rightarrow> bool" where
  "legacy_layout p2pkh p2sh b \<longleftrightarrow> length b = 21 \<and> (hd b = p2pkh \<or> hd b = p2sh)"

definition segwit_layout :: "nat \<Rightarrow> bytes \<Rightarrow> bool" where
  "segwit_layout max_ver b \<longleftrightarrow>
     (\<exists>ver prog. b = [TAG_SEGWIT, of_nat ver] @ prog \<and> ver \<le> max_ver \<and> (length prog = 20 \<or> length prog = 32))"

lemma segwit_layoutE:
  assumes "segwit_layout n b"
  obtains ver prog where "b = TAG_SEGWIT # of_nat ver # prog" "ver \<le> n" "length prog = 20 \<or> length prog = 32"
  using assms by (auto simp: segwit_layout_def)

lemma segwit_layoutI: "ver \<le> n \<Longrightarrow> length prog = 20 \<or> length prog = 32 \<Longrightarrow> segwit_layout n (TAG_SEGWIT # of_nat ver # prog)"
  by (auto simp: segwit_layout_def)

lemma tag_not_legacy: "TAG_SEGWIT \<noteq> 0x00" "TAG_SEGWIT \<noteq> 0x05" "TAG_SEGWIT \<noteq> 0x30" "TAG_SEGWIT \<noteq> 0x32"
  by (simp_all add: TAG_SEGWIT_def)

lemma segwit_length: "segwit_layout n b \<Longrightarrow> length b = 22 \<or> length b = 34"
  by (auto elim!: segwit_layoutE)

text \<open>The success of a serialiser, with errors and panics set apart.\<close>

definition text_of :: "string parsed option \<Rightarrow> string option" where
  "text_of r = (case r of Some (Inr s) \<Rightarrow> Some s | _ \<Rightarrow> None)"

definition value_of :: "'a parsed \<Rightarrow> 'a option" where
  "value_of r = (case r of Inr x \<Rightarrow> Some x | Inl _ \<Rightarrow> None)"

lemma text_of_simps [simp]: "text_of None = None" "text_of (Some (Inl e)) = None" "text_of (Some (Inr s)) = Some s"
  by (simp_all add: text_of_def)

lemma value_of_simps [simp]: "value_of (Inl e) = None" "value_of (Inr x) = Some x"
  by (simp_all add: value_of_def)

lemma value_of_Some: "value_of r = Some x \<longleftrightarrow> r = Inr x"
  by (cases r) simp_all

subsection \<open>Lemmas on prefixes\<close>

lemma has_prefix_icase_iff:
  "has_prefix_icase s p \<longleftrightarrow> length p \<le> length s \<and> (\<forall>i < length p. ascii_eq_icase (of_char (s ! i)) (p ! i))"
  by (auto simp: has_prefix_icase_def as_bytes_def Let_def list_all_iff)

lemma has_prefix_icase_Cons:
  "has_prefix_icase s (p # ps) \<longleftrightarrow> (case s of [] \<Rightarrow> False | c # cs \<Rightarrow> ascii_eq_icase (of_char c) p \<and> has_prefix_icase cs ps)"
  by (cases s) (auto simp: has_prefix_icase_iff All_less_Suc2)

lemma has_prefix_icase_Nil [simp]: "has_prefix_icase s []"
  by (simp add: has_prefix_icase_iff)

lemma has_prefix_icase_append: "has_prefix_icase (p @ t) (as_bytes p)"
  by (auto simp: has_prefix_icase_iff as_bytes_def ascii_eq_icase_def nth_append)

lemma as_bytes_Cons: "as_bytes (c # cs) = of_char c # as_bytes cs" "as_bytes [] = []"
  by (simp_all add: as_bytes_def)

lemma btc_legacy_not_bech32: "\<not> btc_looks_bech32_addr (CHR ''1'' # s)" "\<not> btc_looks_bech32_addr (CHR ''3'' # s)"
  by (simp_all add: btc_looks_bech32_addr_def as_bytes_Cons has_prefix_icase_Cons ascii_eq_icase_def)

lemma btc_segwit_bech32: "btc_looks_bech32_addr (''bc'' @ ''1'' @ t)"
  using has_prefix_icase_append[of "''bc1''" t] by (simp add: btc_looks_bech32_addr_def)

lemma ltc_segwit_bech32: "ltc_looks_bech32_addr (''ltc'' @ ''1'' @ t)"
  using has_prefix_icase_append[of "''ltc1''" t] by (simp add: ltc_looks_bech32_addr_def)

subsection \<open>The codecs as interpretations\<close>

lemma base58_serialize_ok: "legacy_layout v w b \<Longrightarrow> base58_serialize X v w b = Some (Inr (b58check_encode X b))"
  by (cases b) (auto simp: legacy_layout_def base58_serialize_def)

lemma base58_serialize_Inr: "length b = 21 \<Longrightarrow> base58_serialize X v w b = Some (Inr s) \<Longrightarrow> legacy_layout v w b"
  by (cases b) (auto simp: legacy_layout_def base58_serialize_def split: if_splits)

lemma base58_deserialize_Inr: "base58_deserialize X v w s = Inr b \<Longrightarrow> legacy_layout v w b"
  by (auto simp: base58_deserialize_def legacy_layout_def split: sum.splits if_splits)

lemma base58_deserialize_ok:
  "b58check_decode X (b58check_encode X b) = Inr b \<Longrightarrow> legacy_layout v w b \<Longrightarrow> base58_deserialize X v w (b58check_encode X b) = Inr b"
  by (simp add: base58_deserialize_def legacy_layout_def)

lemma segwit_lawsE:
  assumes "segwit_laws X" and "ver \<le> 16" and "length prog = 20 \<or> length prog = 32"
  obtains t h where "segwit_encode X hrp ver prog = Inr (hrp @ ''1'' @ t)" "segwit_decode X (hrp @ ''1'' @ t) = Inr (h, ver, prog)"
    "hrp = ''bc'' \<Longrightarrow> btc_address_from_str X (hrp @ ''1'' @ t) = Inr (Some (ver, prog))"
proof -
  have "\<exists>t. segwit_encode X hrp ver prog = Inr (hrp @ ''1'' @ t) \<and>
             (\<exists>h. segwit_decode X (hrp @ ''1'' @ t) = Inr (h, ver, prog)) \<and>
             (hrp = ''bc'' \<longrightarrow> btc_address_from_str X (hrp @ ''1'' @ t) = Inr (Some (ver, prog)))"
    by (rule assms(1)[unfolded segwit_laws_def, THEN conjunct1, rule_format, OF assms(2,3)])
  with that show ?thesis by blast
qed

lemma segwit_laws_version: "segwit_laws X \<Longrightarrow> btc_address_from_str X s = Inr (Some (ver, prog)) \<Longrightarrow> ver \<le> 16"
  unfolding segwit_laws_def by blast

lemma unat_version: "ver \<le> 16 \<Longrightarrow> unat (of_nat ver :: u8) = ver"
  by (simp add: unat_of_nat)

definition btc_layout :: "bytes \<Rightarrow> bool" where
  "btc_layout b \<longleftrightarrow> legacy_layout 0x00 0x05 b \<or> segwit_layout 16 b"

lemma legacy_not_tagged: "legacy_layout v w b \<Longrightarrow> v \<noteq> TAG_SEGWIT \<Longrightarrow> w \<noteq> TAG_SEGWIT \<Longrightarrow> b ! 0 \<noteq> TAG_SEGWIT"
  by (cases b) (auto simp: legacy_layout_def)

lemma btc_serialize_legacy: "legacy_layout 0x00 0x05 b \<Longrightarrow> btc_serialize_as X b = Some (Inr (b58check_encode X b))"
  using legacy_not_tagged[OF _ tag_not_legacy(1,2)[symmetric]] base58_serialize_ok[of "0x00" "0x05" b X]
  unfolding btc_serialize_as_def by (simp add: legacy_layout_def)

lemma btc_serialize_segwit:
  assumes "ver \<le> 16" and "length prog = 20 \<or> length prog = 32"
  shows "btc_serialize_as X (TAG_SEGWIT # of_nat ver # prog) =
           Some (map_err ''Bech32 encode error: '' (segwit_encode X ''bc'' ver prog))"
  using assms by (auto simp: btc_serialize_as_def btc_encode_tagged_segwit_def Let_def unat_version)

lemma btc_serialize_Inr:
  assumes "btc_serialize_as X b = Some (Inr s)"
  shows "btc_layout b"
proof (cases "3 \<le> length b \<and> b ! 0 = TAG_SEGWIT")
  case True
  then obtain ver prog where b: "b = TAG_SEGWIT # ver # prog" by (cases b; cases "tl b") auto
  with assms True have "unat ver \<le> 16" "length prog = 20 \<or> length prog = 32"
    by (auto simp: btc_serialize_as_def btc_encode_tagged_segwit_def Let_def split: if_splits)
  then show ?thesis unfolding btc_layout_def using segwit_layoutI[of "unat ver" 16 prog] b by simp
next
  case False
  with assms have "length b = 21" "base58_serialize X 0x00 0x05 b = Some (Inr s)" by (auto simp: btc_serialize_as_def split: if_splits)
  then show ?thesis unfolding btc_layout_def using base58_serialize_Inr by blast
qed

interpretation btc_text: text_codec "base58_laws X \<and> segwit_laws X" btc_layout "\<lambda>b. text_of (btc_serialize_as X b)" "\<lambda>t. value_of (btc_deserialize_as X t)" for X
proof
  fix b t
  assume laws: "base58_laws X \<and> segwit_laws X"
  {
    assume "btc_layout b"
    then have "\<exists>s. btc_serialize_as X b = Some (Inr s) \<and> btc_deserialize_as X s = Inr b"
      unfolding btc_layout_def
    proof
      assume leg: "legacy_layout 0x00 0x05 b"
      with laws have "\<not> btc_looks_bech32_addr (b58check_encode X b)"
        using btc_legacy_not_bech32 by (fastforce simp: base58_laws_def legacy_layout_def)
      moreover from laws have "b58check_decode X (b58check_encode X b) = Inr b" by (simp add: base58_laws_def)
      ultimately have "btc_deserialize_as X (b58check_encode X b) = Inr b"
        using leg base58_deserialize_ok unfolding btc_deserialize_as_def by simp
      then show ?thesis using btc_serialize_legacy[OF leg] by blast
    next
      assume "segwit_layout 16 b"
      then obtain ver prog where b: "b = TAG_SEGWIT # of_nat ver # prog" "ver \<le> 16" "length prog = 20 \<or> length prog = 32"
        by (rule segwit_layoutE)
      obtain t where t: "segwit_encode X ''bc'' ver prog = Inr (''bc'' @ ''1'' @ t)"
        "btc_address_from_str X (''bc'' @ ''1'' @ t) = Inr (Some (ver, prog))"
        by (rule segwit_lawsE[of X ver prog "''bc''"]) (use laws b(2,3) in auto)
      have "btc_deserialize_as X (''bc'' @ ''1'' @ t) = Inr b"
        unfolding btc_deserialize_as_def using t(2) b btc_segwit_bech32[of t] by auto
      moreover have "btc_serialize_as X b = Some (Inr (''bc'' @ ''1'' @ t))"
        unfolding b(1) btc_serialize_segwit[OF b(2,3)] t(1) by simp
      ultimately show ?thesis by blast
    qed
  }
  then show "btc_layout b \<Longrightarrow> \<exists>t. text_of (btc_serialize_as X b) = Some t"
    and "btc_layout b \<Longrightarrow> text_of (btc_serialize_as X b) = Some t \<Longrightarrow> value_of (btc_deserialize_as X t) = Some b" by auto
  show "btc_layout b" if "value_of (btc_deserialize_as X t) = Some b"
  proof -
    from that have d: "btc_deserialize_as X t = Inr b" by (simp add: value_of_Some)
    show ?thesis
    proof (cases "btc_looks_bech32_addr t")
      case True
      with d obtain ver prog where "btc_address_from_str X t = Inr (Some (ver, prog))" "b = TAG_SEGWIT # of_nat ver # prog"
        "length prog = 20 \<or> length prog = 32" by (auto simp: btc_deserialize_as_def split: sum.splits option.splits if_splits)
      with laws segwit_laws_version[of X t ver prog] segwit_layoutI[of ver 16 prog] show ?thesis by (simp add: btc_layout_def)
    next
      case False
      with d show ?thesis using base58_deserialize_Inr[of X "0x00" "0x05" t b] by (simp add: btc_deserialize_as_def btc_layout_def)
    qed
  qed
qed

text \<open>
  The Litecoin codec writes versions 0 and 1 only, and reads a legacy text only if it does not begin like a
  Bech32 text.
\<close>

definition ltc_layout :: "('h, 'a) addr_env \<Rightarrow> bytes \<Rightarrow> bool" where
  "ltc_layout X b \<longleftrightarrow> legacy_layout 0x30 0x32 b \<and> \<not> ltc_looks_bech32_addr (b58check_encode X b) \<or> segwit_layout 1 b"

lemma ltc_serialize_legacy: "legacy_layout 0x30 0x32 b \<Longrightarrow> ltc_serialize_as X b = Some (Inr (b58check_encode X b))"
  using legacy_not_tagged[OF _ tag_not_legacy(3,4)[symmetric]] base58_serialize_ok[of "0x30" "0x32" b X]
  unfolding ltc_serialize_as_def by (simp add: legacy_layout_def)

lemma ltc_serialize_segwit:
  assumes "ver \<le> 16" and "length prog = 20 \<or> length prog = 32"
  shows "ltc_serialize_as X (TAG_SEGWIT # of_nat ver # prog) =
           Some (if ver \<le> 1 then map_err ''Bech32 encode error: '' (segwit_encode X ''ltc'' ver prog) else Inl ''unsupported segwit version'')"
  using assms by (auto simp: ltc_serialize_as_def ltc_encode_tagged_segwit_def Let_def unat_version)

lemma ltc_deserialize_segwit:
  assumes "segwit_decode X (''ltc'' @ ''1'' @ t) = Inr (h, ver, prog)" and "ver \<le> 16" and "length prog = 20 \<or> length prog = 32"
  shows "ltc_deserialize_as X (''ltc'' @ ''1'' @ t) = Inr (TAG_SEGWIT # of_nat ver # prog)"
  unfolding ltc_deserialize_as_def using assms ltc_segwit_bech32[of t] by auto

interpretation ltc_text: text_writer "base58_laws X \<and> segwit_laws X" "ltc_layout X" "\<lambda>b. text_of (ltc_serialize_as X b)" "\<lambda>t. value_of (ltc_deserialize_as X t)" for X
proof
  fix b t
  assume laws: "base58_laws X \<and> segwit_laws X"
  {
    assume "ltc_layout X b"
    then have "\<exists>s. ltc_serialize_as X b = Some (Inr s) \<and> ltc_deserialize_as X s = Inr b"
      unfolding ltc_layout_def
    proof
      assume leg: "legacy_layout 0x30 0x32 b \<and> \<not> ltc_looks_bech32_addr (b58check_encode X b)"
      moreover from laws have "b58check_decode X (b58check_encode X b) = Inr b" by (simp add: base58_laws_def)
      ultimately have "ltc_deserialize_as X (b58check_encode X b) = Inr b"
        using base58_deserialize_ok[of X b "0x30" "0x32"] unfolding ltc_deserialize_as_def by simp
      then show ?thesis using ltc_serialize_legacy leg by blast
    next
      assume "segwit_layout 1 b"
      then obtain ver prog where b: "b = TAG_SEGWIT # of_nat ver # prog" "ver \<le> 1" "length prog = 20 \<or> length prog = 32"
        by (rule segwit_layoutE)
      then have ver: "ver \<le> 16" by simp
      obtain t h where t: "segwit_encode X ''ltc'' ver prog = Inr (''ltc'' @ ''1'' @ t)"
        "segwit_decode X (''ltc'' @ ''1'' @ t) = Inr (h, ver, prog)"
        by (rule segwit_lawsE[of X ver prog "''ltc''"]) (use laws ver b(3) in auto)
      have "ltc_serialize_as X b = Some (Inr (''ltc'' @ ''1'' @ t))"
        unfolding b(1) ltc_serialize_segwit[OF ver b(3)] t(1) using b(2) by simp
      then show ?thesis using ltc_deserialize_segwit[OF t(2) ver b(3)] b(1) by blast
    qed
  }
  then show "ltc_layout X b \<Longrightarrow> \<exists>t. text_of (ltc_serialize_as X b) = Some t"
    and "ltc_layout X b \<Longrightarrow> text_of (ltc_serialize_as X b) = Some t \<Longrightarrow> value_of (ltc_deserialize_as X t) = Some b" by auto
qed

interpretation bch_text: text_codec "base58_laws X" "legacy_layout 0x00 0x05" "\<lambda>b. text_of (bch_serialize_as X b)" "\<lambda>t. value_of (bch_deserialize_as X t)" for X
proof
  fix b t
  assume laws: "base58_laws X"
  have ok: "bch_serialize_as X b = Some (Inr (b58check_encode X b)) \<and> bch_deserialize_as X (b58check_encode X b) = Inr b"
    if "legacy_layout 0x00 0x05 b"
    using that laws base58_serialize_ok[OF that, of X] base58_deserialize_ok[OF _ that, of X]
    unfolding bch_serialize_as_def bch_deserialize_as_def base58_laws_def legacy_layout_def by simp
  then show "legacy_layout 0x00 0x05 b \<Longrightarrow> \<exists>t. text_of (bch_serialize_as X b) = Some t"
    and "legacy_layout 0x00 0x05 b \<Longrightarrow> text_of (bch_serialize_as X b) = Some t \<Longrightarrow> value_of (bch_deserialize_as X t) = Some b" by auto
  show "legacy_layout 0x00 0x05 b" if "value_of (bch_deserialize_as X t) = Some b"
    using that base58_deserialize_Inr by (simp add: value_of_Some bch_deserialize_as_def)
qed

text \<open>A Cardano address that is not shown as Bech32 is read back unless its Base58 text happens to be a Bech32 text.\<close>

definition cardano_layout :: "('h, 'a) addr_env \<Rightarrow> bytes \<Rightarrow> bool" where
  "cardano_layout X b \<longleftrightarrow> 20 \<le> length b \<and> length b \<le> 32 \<or> (\<exists>e. bech32_decode X (b58check_encode X b) = Inl e)"

interpretation cardano_text: text_writer "cardano_laws X" "cardano_layout X" "\<lambda>b. value_of (cardano_serialize_as X b)" "\<lambda>t. value_of (cardano_deserialize_as X t)" for X
proof
  fix b t
  assume laws: "cardano_laws X"
  {
    assume w: "cardano_layout X b"
    have "\<exists>s. cardano_serialize_as X b = Inr s \<and> cardano_deserialize_as X s = Inr b"
    proof (cases "20 \<le> length b \<and> length b \<le> 32")
      case True
      with laws obtain s h where "bech32m_encode X ''addr'' b = Inr s" "bech32_decode X s = Inr (h, b)"
        unfolding cardano_laws_def by blast
      with True show ?thesis by (simp add: cardano_serialize_as_def cardano_deserialize_as_def)
    next
      case False
      with w obtain e where "bech32_decode X (b58check_encode X b) = Inl e" unfolding cardano_layout_def by blast
      with False laws show ?thesis by (auto simp: cardano_serialize_as_def cardano_deserialize_as_def cardano_laws_def)
    qed
  }
  then show "cardano_layout X b \<Longrightarrow> \<exists>t. value_of (cardano_serialize_as X b) = Some t"
    and "cardano_layout X b \<Longrightarrow> value_of (cardano_serialize_as X b) = Some t \<Longrightarrow> value_of (cardano_deserialize_as X t) = Some b" by auto
qed

definition ergo_layout :: "('h, 'a) addr_env \<Rightarrow> bytes \<Rightarrow> bool" where
  "ergo_layout X b \<longleftrightarrow> b = [] \<or> (\<exists>a. b = ergo_to_bytes X a)"

interpretation ergo_text: text_codec "ergo_laws X" "ergo_layout X" "\<lambda>b. value_of (ergo_serialize_as X b)" "\<lambda>t. value_of (ergo_deserialize_as X t)" for X
proof
  fix b t
  assume laws: "ergo_laws X"
  have ok: "\<exists>s. ergo_serialize_as X b = Inr s \<and> ergo_deserialize_as X s = Inr b" if "ergo_layout X b"
    using that laws by (auto simp: ergo_layout_def ergo_laws_def ergo_serialize_as_def ergo_deserialize_as_def)
  then show "ergo_layout X b \<Longrightarrow> \<exists>t. value_of (ergo_serialize_as X b) = Some t"
    and "ergo_layout X b \<Longrightarrow> value_of (ergo_serialize_as X b) = Some t \<Longrightarrow> value_of (ergo_deserialize_as X t) = Some b" by auto
  show "ergo_layout X b" if "value_of (ergo_deserialize_as X t) = Some b"
    using that by (cases "ergo_from_str X t") (auto simp: ergo_layout_def ergo_deserialize_as_def split: if_splits)
qed

subsection \<open>Properties\<close>

text \<open>
  C26. The Bitcoin address codec: serialising never panics, and it succeeds exactly for the two layouts, a legacy
  address of 21 bytes with version 0 or 5 and a tagged witness program of 20 or 32 bytes with a version
  up to 16. The text of an address is read back to its bytes, two addresses have different texts, and
  whatever text is read gives bytes of one of the two layouts, which can be written again.
\<close>

theorem btc_address_codec:
  assumes "base58_laws X" and "segwit_laws X"
  shows "btc_serialize_as X b \<noteq> None \<and>
         ((\<exists>s. btc_serialize_as X b = Some (Inr s)) \<longleftrightarrow> btc_layout b) \<and>
         (\<forall>s. btc_serialize_as X b = Some (Inr s) \<longrightarrow> btc_deserialize_as X s = Inr b) \<and>
         (\<forall>s. btc_deserialize_as X s = Inr b \<longrightarrow> (\<exists>s'. btc_serialize_as X b = Some (Inr s') \<and> btc_deserialize_as X s' = Inr b))"
proof -
  have ok: "base58_laws X \<and> segwit_laws X" using assms by simp
  have tx_iff: "text_of r = Some t \<longleftrightarrow> r = Some (Inr t)" for r t by (auto simp: text_of_def split: option.splits sum.splits)
  have "btc_serialize_as X b \<noteq> None" by (cases b) (auto simp: btc_serialize_as_def base58_serialize_def)
  moreover have "(\<exists>s. btc_serialize_as X b = Some (Inr s)) \<longleftrightarrow> btc_layout b"
    using btc_text.enc_total[OF ok, of b] btc_serialize_Inr[of X b] by (auto simp: tx_iff)
  moreover have "btc_deserialize_as X s = Inr b" if "btc_serialize_as X b = Some (Inr s)" for s
    using btc_text.dec_enc[OF ok btc_serialize_Inr[OF that], of s] that by (simp add: value_of_Some)
  moreover have "\<exists>s'. btc_serialize_as X b = Some (Inr s') \<and> btc_deserialize_as X s' = Inr b" if "btc_deserialize_as X s = Inr b" for s
    using btc_text.canonical[OF ok, of s b] that by (simp add: value_of_Some tx_iff)
  ultimately show ?thesis by blast
qed

text \<open>
  C1. What the Litecoin codec cannot do. A witness program of version 2 to 16 is read from its text but cannot
  be written again. A legacy address whose text begins with \<open>LTC1\<close>, which Base58 allows, is written to that text
  but cannot be read back: the text is taken for Bech32.
\<close>

theorem ltc_codec_gaps:
  assumes "segwit_laws X" and "2 \<le> ver" and "ver \<le> 16" and "length prog = 20 \<or> length prog = 32"
    and "legacy_layout 0x30 0x32 b" and "b58check_encode X b = ''LTC1'' @ t" and "segwit_decode X (''LTC1'' @ t) = Inl e"
  shows "(\<exists>s. segwit_encode X ''ltc'' ver prog = Inr s \<and> ltc_deserialize_as X s = Inr (TAG_SEGWIT # of_nat ver # prog) \<and>
              ltc_serialize_as X (TAG_SEGWIT # of_nat ver # prog) = Some (Inl ''unsupported segwit version'')) \<and>
         ltc_serialize_as X b = Some (Inr (''LTC1'' @ t)) \<and> ltc_deserialize_as X (''LTC1'' @ t) = Inl (''Bech32 parse failed: '' @ e)"
proof (intro conjI)
  obtain t h where t: "segwit_encode X ''ltc'' ver prog = Inr (''ltc'' @ ''1'' @ t)"
    "segwit_decode X (''ltc'' @ ''1'' @ t) = Inr (h, ver, prog)"
    by (rule segwit_lawsE[of X ver prog "''ltc''"]) (use assms in auto)
  with assms(2-4) ltc_deserialize_segwit[OF t(2)] ltc_serialize_segwit[of ver prog X]
  show "\<exists>s. segwit_encode X ''ltc'' ver prog = Inr s \<and> ltc_deserialize_as X s = Inr (TAG_SEGWIT # of_nat ver # prog) \<and>
            ltc_serialize_as X (TAG_SEGWIT # of_nat ver # prog) = Some (Inl ''unsupported segwit version'')"
    by (intro exI[of _ "''ltc'' @ ''1'' @ t"]) simp
next
  have "ltc_looks_bech32_addr (''LTC1'' @ t)"
    by (simp add: ltc_looks_bech32_addr_def as_bytes_Cons has_prefix_icase_Cons ascii_eq_icase_def)
  then show "ltc_deserialize_as X (''LTC1'' @ t) = Inl (''Bech32 parse failed: '' @ e)"
    unfolding ltc_deserialize_as_def assms(7) by simp
  show "ltc_serialize_as X b = Some (Inr (''LTC1'' @ t))"
    using ltc_serialize_legacy[OF assms(5), of X] unfolding assms(6) .
qed

text \<open>
  The codec for witness programs alone does not keep the version: the address of a script, a program of 32
  bytes with version 0, is read from its text and written as the different address with version 1.
\<close>

theorem bech32_version_lost:
  assumes "segwit_laws X" and "length prog = 32"
  shows "\<exists>s s' h. segwit_encode X ''bc'' 0 prog = Inr s \<and> bech32_deserialize_as X s = Inr prog \<and>
           bech32_serialize_as X prog = Inr s' \<and> s' \<noteq> s \<and> segwit_decode X s' = Inr (h, 1, prog)"
proof -
  obtain t h where 0: "segwit_encode X ''bc'' 0 prog = Inr (''bc'' @ ''1'' @ t)" "segwit_decode X (''bc'' @ ''1'' @ t) = Inr (h, 0, prog)"
    by (rule segwit_lawsE[of X 0 prog "''bc''"]) (use assms in auto)
  obtain t' h' where 1: "segwit_encode X ''bc'' 1 prog = Inr (''bc'' @ ''1'' @ t')" "segwit_decode X (''bc'' @ ''1'' @ t') = Inr (h', 1, prog)"
    by (rule segwit_lawsE[of X 1 prog "''bc''"]) (use assms in auto)
  have "''bc'' @ ''1'' @ t' \<noteq> ''bc'' @ ''1'' @ t" using 0(2) 1(2) by auto
  moreover have "bech32_deserialize_as X (''bc'' @ ''1'' @ t) = Inr prog" unfolding bech32_deserialize_as_def 0(2) by simp
  moreover have "bech32_serialize_as X prog = Inr (''bc'' @ ''1'' @ t')" unfolding bech32_serialize_as_def using 1(1) assms(2) by simp
  ultimately show ?thesis using 0(1) 1(2) by blast
qed

subsection \<open>Witnesses\<close>

text \<open>A simple encoding with the laws: the bytes themselves, with the prefix that the laws ask for.\<close>

definition demo_chars :: "bytes \<Rightarrow> string" where
  "demo_chars b = map (\<lambda>w. char_of (unat w)) b"

definition demo_bytes :: "string \<Rightarrow> bytes" where
  "demo_bytes s = map (\<lambda>c. of_nat (of_char c)) s"

definition demo_b58 :: "bytes \<Rightarrow> string" where
  "demo_b58 b = (if hd b = 0 then ''1'' else if hd b = 5 then ''3'' else ''L'') @ demo_chars b"

definition demo_segwit :: "string \<Rightarrow> (unit \<times> nat \<times> bytes) parsed" where
  "demo_segwit s =
     (let n = of_char (last s); m = length s - 2; ver = of_char (s ! m) in
      if ver \<le> 16 \<and> n \<le> m then Inr ((), ver, demo_bytes (take n (drop (m - n) s))) else Inl ''checksum'')"

definition demo_addr :: "(unit, bytes) addr_env" where
  "demo_addr =
     \<lparr>b58check_encode = demo_b58, b58check_decode = (\<lambda>s. Inr (demo_bytes (tl s))),
      segwit_encode = (\<lambda>hrp ver prog. Inr (hrp @ ''1'' @ demo_chars prog @ [char_of ver, char_of (length prog)])),
      segwit_decode = demo_segwit,
      btc_address_from_str = (\<lambda>s. map_sum id (\<lambda>(_, ver, prog). Some (ver, prog)) (demo_segwit s)),
      bech32m_encode = (\<lambda>hrp b. Inr (demo_chars b)), bech32_decode = (\<lambda>s. Inr ((), demo_bytes s)),
      ergo_from_bytes = Inr, ergo_from_str = (\<lambda>s. Inr (demo_bytes s)), ergo_to_str = demo_chars, ergo_to_bytes = id\<rparr>"

lemma demo_bytes_chars [simp]: "demo_bytes (demo_chars b) = b"
proof -
  have "of_nat (of_char (char_of (unat w) :: char) :: nat) = w" for w :: u8
    proof -
    have "unat w < 256" using unsigned_less[of w, where 'a = nat] by simp
    then show ?thesis by simp
  qed
  then show ?thesis by (simp add: demo_bytes_def demo_chars_def o_def)
qed

lemma demo_segwit_encoded:
  assumes "ver \<le> 16" and "length prog = 20 \<or> length prog = 32"
  shows "demo_segwit (hrp @ ''1'' @ demo_chars prog @ [char_of ver, char_of (length prog)]) = Inr ((), ver, prog)"
proof -
  have "length (demo_chars prog) = length prog" by (simp add: demo_chars_def)
  moreover have "(of_char (char_of ver :: char) :: nat) = ver" "(of_char (char_of (length prog) :: char) :: nat) = length prog"
    using assms by auto
  ultimately show ?thesis using assms(1) by (auto simp: demo_segwit_def Let_def nth_append)
qed

lemma demo_base58_laws: "base58_laws demo_addr"
  by (auto simp: base58_laws_def demo_addr_def demo_b58_def)

lemma demo_segwit_laws: "segwit_laws demo_addr"
  unfolding segwit_laws_def
proof (intro conjI allI impI)
  fix hrp and ver :: nat and prog :: bytes
  assume "ver \<le> 16" "length prog = 20 \<or> length prog = 32"
  from demo_segwit_encoded[OF this, of hrp]
  show "\<exists>t. segwit_encode demo_addr hrp ver prog = Inr (hrp @ ''1'' @ t) \<and>
          (\<exists>h. segwit_decode demo_addr (hrp @ ''1'' @ t) = Inr (h, ver, prog)) \<and>
          (hrp = ''bc'' \<longrightarrow> btc_address_from_str demo_addr (hrp @ ''1'' @ t) = Inr (Some (ver, prog)))"
    by (intro exI[of _ "demo_chars prog @ [char_of ver, char_of (length prog)]"]) (auto simp: demo_addr_def)
next
  fix s ver prog
  assume "btc_address_from_str demo_addr s = Inr (Some (ver, prog))"
  then show "ver \<le> 16" by (auto simp: demo_addr_def demo_segwit_def Let_def split: if_splits)
qed

theorem btc_address_codec_witness:
  "\<exists>s. btc_serialize_as demo_addr (TAG_SEGWIT # 1 # replicate 32 7) = Some (Inr s) \<and>
       btc_deserialize_as demo_addr s = Inr (TAG_SEGWIT # 1 # replicate 32 7)"
proof -
  have "btc_layout (TAG_SEGWIT # of_nat 1 # replicate 32 7)" unfolding btc_layout_def by (intro disjI2 segwit_layoutI) simp_all
  then have "btc_layout (TAG_SEGWIT # 1 # replicate 32 7)" by simp
  with btc_address_codec[OF demo_base58_laws demo_segwit_laws, of "TAG_SEGWIT # 1 # replicate 32 7"] show ?thesis by blast
qed

definition demo_ltc :: "(unit, bytes) addr_env" where
  "demo_ltc = demo_addr\<lparr>b58check_encode := (\<lambda>b. ''LTC1'' @ demo_chars b)\<rparr>"

theorem ltc_codec_gaps_witness:
  "(\<exists>s. segwit_encode demo_ltc ''ltc'' 2 (replicate 20 7) = Inr s \<and>
        ltc_deserialize_as demo_ltc s = Inr (TAG_SEGWIT # of_nat 2 # replicate 20 7) \<and>
        ltc_serialize_as demo_ltc (TAG_SEGWIT # of_nat 2 # replicate 20 7) = Some (Inl ''unsupported segwit version'')) \<and>
   ltc_serialize_as demo_ltc (0x30 # replicate 20 255) = Some (Inr (''LTC1'' @ demo_chars (0x30 # replicate 20 255))) \<and>
   ltc_deserialize_as demo_ltc (''LTC1'' @ demo_chars (0x30 # replicate 20 255)) = Inl (''Bech32 parse failed: '' @ ''checksum'')"
proof (rule ltc_codec_gaps)
  show "segwit_laws demo_ltc" using demo_segwit_laws by (simp add: segwit_laws_def demo_ltc_def)
  show "segwit_decode demo_ltc (''LTC1'' @ demo_chars (0x30 # replicate 20 255)) = Inl ''checksum''"
  proof -
    have "(''LTC1'' @ demo_chars (0x30 # replicate 20 255)) ! 23 = char_of (255 :: nat)"
      by (simp add: demo_chars_def nth_append)
    moreover have "length (''LTC1'' @ demo_chars (0x30 # replicate 20 255)) = 25" by (simp add: demo_chars_def)
    ultimately show ?thesis unfolding demo_ltc_def demo_addr_def demo_segwit_def Let_def by simp
  qed
qed (simp_all add: legacy_layout_def demo_ltc_def)

theorem bech32_version_lost_witness:
  "\<exists>s s' h. segwit_encode demo_addr ''bc'' 0 (replicate 32 7) = Inr s \<and> bech32_deserialize_as demo_addr s = Inr (replicate 32 7) \<and>
     bech32_serialize_as demo_addr (replicate 32 7) = Inr s' \<and> s' \<noteq> s \<and> segwit_decode demo_addr s' = Inr (h, 1, replicate 32 7)"
  by (rule bech32_version_lost[OF demo_segwit_laws]) simp

end
