(* ===== verification/Bitcoin.thy ===== *)
theory Bitcoin
  imports Address_Codec Input_Hooks Block_Chain
begin

section \<open>From raw Bitcoin blocks to entities\<close>

text \<open>
  The block providers of Bitcoin, Litecoin and Bitcoin Cash (\<open>chains/*/src/block_provider.rs\<close>): a raw block is
  parsed by the crate of the chain, every output script becomes address bytes or a tag, and the block
  becomes an instance of the entity \<open>Block\<close> of \<open>chains/btc/src/model_v1.rs\<close>. The three providers share the code but for
  the function from scripts to address bytes.

  The crates bitcoin and litcoin are the environments \<open>script_env\<close> and \<open>node_env\<close>: the predicates on scripts, the
  parser of blocks and the hashes. A panic, such as a slice out of range, is \<open>None\<close>.
\<close>

subsection \<open>Scripts\<close>

record script_env =
  is_p2pkh :: "bytes \<Rightarrow> bool"
  is_p2sh :: "bytes \<Rightarrow> bool"
  is_witness_program :: "bytes \<Rightarrow> bool"
  is_op_return :: "bytes \<Rightarrow> bool"
  first_opcode :: "bytes \<Rightarrow> u8 option"
  opcode_version :: "u8 \<Rightarrow> nat option"

definition slice_bytes :: "bytes \<Rightarrow> nat \<Rightarrow> nat \<Rightarrow> bytes option" where
  "slice_bytes b i j = (if i \<le> j \<and> j \<le> length b then Some (take (j - i) (drop i b)) else None)"

text \<open>The part for witness programs: the program without the version and the length, tagged.\<close>

definition segwit_bytes :: "bytes \<Rightarrow> nat option \<Rightarrow> bytes option" where
  "segwit_bytes b version =
     (case version of
        Some ver \<Rightarrow> do {
          prog \<leftarrow> slice_bytes b 2 (length b);
          Some (if length prog = 20 \<or> length prog = 32 then [TAG_SEGWIT, of_nat ver] @ prog else [TAG_NON_ADDR])
        }
      | None \<Rightarrow> Some [TAG_NON_ADDR])"

definition btc_spk_to_address_bytes_or_tag :: "script_env \<Rightarrow> bytes \<Rightarrow> bytes option" where
  "btc_spk_to_address_bytes_or_tag S b =
     (if is_p2pkh S b then map_option (\<lambda>h. 0x00 # h) (slice_bytes b 3 23)
      else if is_p2sh S b then map_option (\<lambda>h. 0x05 # h) (slice_bytes b 2 22)
      else if is_witness_program S b then do { opcode \<leftarrow> first_opcode S b; segwit_bytes b (opcode_version S opcode) }
      else if is_op_return S b then Some [TAG_OP_RETURN]
      else Some [TAG_NON_ADDR])"

text \<open>In Litecoin the version is that of the script, and a script has none if it is empty.\<close>

definition ltc_spk_to_address_bytes_or_tag :: "script_env \<Rightarrow> bytes \<Rightarrow> bytes option" where
  "ltc_spk_to_address_bytes_or_tag S b =
     (if is_p2pkh S b then map_option (\<lambda>h. 0x30 # h) (slice_bytes b 3 23)
      else if is_p2sh S b then map_option (\<lambda>h. 0x32 # h) (slice_bytes b 2 22)
      else if is_witness_program S b then segwit_bytes b (Option.bind (first_opcode S b) (opcode_version S))
      else if is_op_return S b then Some [TAG_OP_RETURN]
      else Some [TAG_NON_ADDR])"

definition bch_spk_to_address_bytes_or_tag :: "script_env \<Rightarrow> bytes \<Rightarrow> bytes option" where
  "bch_spk_to_address_bytes_or_tag S b =
     (if is_p2pkh S b then map_option (\<lambda>h. 0x00 # h) (slice_bytes b 3 23)
      else if is_p2sh S b then map_option (\<lambda>h. 0x05 # h) (slice_bytes b 2 22)
      else if is_op_return S b then Some [TAG_OP_RETURN]
      else Some [TAG_NON_ADDR])"

subsection \<open>Blocks\<close>

record 'h ext_txin =
  txin_txid :: 'h
  txin_vout :: nat

record ext_txout =
  txout_value :: nat
  txout_script :: bytes

record 'h ext_tx =
  ext_inputs :: "'h ext_txin list"
  ext_outputs :: "ext_txout list"

record 'h ext_block =
  ext_time :: nat
  ext_prev_blockhash :: 'h
  ext_merkle_root :: 'h
  ext_txdata :: "'h ext_tx list"

record 'h node_env =
  nd_deserialize :: "bytes \<Rightarrow> string + 'h ext_block"
  nd_block_hash :: "'h ext_block \<Rightarrow> 'h"
  nd_txid :: "'h ext_tx \<Rightarrow> 'h"

record utxo =
  utxo_id :: pointer
  utxo_amount :: nat
  utxo_script_hash :: bytes
  utxo_address :: bytes

record 'h transaction =
  tx_id :: pointer
  tx_hash :: 'h
  tx_utxos :: "utxo list"
  tx_input_refs :: "'h input_ref list"

record 'h btc_header =
  hd_height :: pointer
  hd_timestamp :: nat
  hd_hash :: 'h
  hd_prev_hash :: 'h
  hd_merkle_root :: 'h
  hd_weight :: nat

record 'h btc_block =
  bl_height :: pointer
  bl_header :: "'h btc_header"
  bl_transactions :: "'h transaction list"

record btc_cbor =
  cbor_raw :: bytes
  cbor_height :: nat

definition process_inputs :: "'h ext_txin list \<Rightarrow> 'h input_ref list" where
  "process_inputs txins = map (\<lambda>i. \<lparr>ref_hash = txin_txid i, ref_index = txin_vout i mod 2 ^ 16\<rparr>) txins"

definition process_output :: "(bytes \<Rightarrow> bytes option) \<Rightarrow> pointer \<Rightarrow> nat \<times> ext_txout \<Rightarrow> utxo option" where
  "process_output spk tx_pointer out_ix =
     (case out_ix of (out_index, out) \<Rightarrow> do {
        address \<leftarrow> spk (txout_script out);
        Some \<lparr>utxo_id = from_parent tx_pointer (out_index mod 2 ^ 16), utxo_amount = txout_value out,
              utxo_script_hash = txout_script out, utxo_address = address\<rparr>
      })"

definition process_outputs :: "(bytes \<Rightarrow> bytes option) \<Rightarrow> ext_txout list \<Rightarrow> pointer \<Rightarrow> (nat \<times> utxo list) option" where
  "process_outputs spk outs tx_pointer =
     map_option (\<lambda>result_outs. (length result_outs, result_outs)) (those (map (process_output spk tx_pointer) (enumerate 0 outs)))"

definition process_tx :: "'h node_env \<Rightarrow> (bytes \<Rightarrow> bytes option) \<Rightarrow> pointer \<Rightarrow> nat \<Rightarrow> 'h ext_tx \<Rightarrow> 'h transaction option" where
  "process_tx N spk height tx_index tx =
     (let tx_pointer = from_parent height tx_index in do {
        (_, outputs) \<leftarrow> process_outputs spk (ext_outputs tx) tx_pointer;
        Some \<lparr>tx_id = tx_pointer, tx_hash = nd_txid N tx, tx_utxos = outputs, tx_input_refs = process_inputs (ext_inputs tx)\<rparr>
      })"

definition block_weight :: "'h ext_tx list \<Rightarrow> nat" where
  "block_weight txs = foldl (\<lambda>w tx. w + (length (ext_inputs tx) + length (ext_outputs tx) + 1)) 6 txs"

definition process_block_pure :: "'h node_env \<Rightarrow> (bytes \<Rightarrow> bytes option) \<Rightarrow> btc_cbor \<Rightarrow> 'h btc_block cres option" where
  "process_block_pure N spk cbor =
     (case nd_deserialize N (cbor_raw cbor) of
        Inl e \<Rightarrow> Some (Inl (chain_error_new (''Failed to deser CBOR: '' @ e)))
      | Inr block \<Rightarrow>
          let height = Root (cbor_height cbor) in do {
            transactions \<leftarrow> those (map (\<lambda>(tx_index, tx). process_tx N spk height (tx_index mod 2 ^ 16) tx) (enumerate 0 (ext_txdata block)));
            Some (Inr \<lparr>bl_height = height,
                       bl_header = \<lparr>hd_height = height, hd_timestamp = ext_time block, hd_hash = nd_block_hash N block,
                                    hd_prev_hash = ext_prev_blockhash block, hd_merkle_root = ext_merkle_root block,
                                    hd_weight = block_weight (ext_txdata block) mod 2 ^ 32\<rparr>,
                       bl_transactions = transactions\<rparr>)
          })"

text \<open>The provider: an error of the node is no block.\<close>

definition get_processed_block :: "'h node_env \<Rightarrow> (bytes \<Rightarrow> bytes option) \<Rightarrow> ('h \<Rightarrow> string + btc_cbor) \<Rightarrow> 'h \<Rightarrow> 'h btc_block option cres option" where
  "get_processed_block N spk by_hash h =
     (case by_hash h of
        Inr block \<Rightarrow> map_option (map_sum id Some) (process_block_pure N spk block)
      | Inl _ \<Rightarrow> Some (Inr None))"

definition get_chain_tip :: "'h node_env \<Rightarrow> (bytes \<Rightarrow> bytes option) \<Rightarrow> chain_error + btc_cbor \<Rightarrow> 'h btc_header cres option" where
  "get_chain_tip N spk best =
     (case best of
        Inl e \<Rightarrow> Some (Inl e)
      | Inr block \<Rightarrow> map_option (map_sum id bl_header) (process_block_pure N spk block))"

subsection \<open>The entities of the model\<close>

datatype 'h btc_value = V_Hash 'h | V_Int nat | V_Bytes bytes

definition ent_header :: ent where
  "ent_header = Ent False (Root_Ty 4) [E_Value, E_Value, E_Value, E_Value]"

definition ent_utxo :: ent where
  "ent_utxo = Ent False (Child_Ty (Child_Ty (Root_Ty 4) 2) 2) [E_Value, E_Value, E_Value]"

text \<open>The inputs of a transaction are written by the hook, and its transient fields are not stored.\<close>

definition ent_transaction :: ent where
  "ent_transaction = Ent False (Child_Ty (Root_Ty 4) 2) [E_Value, E_Many ent_utxo]"

definition ent_block :: ent where
  "ent_block = Ent True (Root_Ty 4) [E_One ent_header, E_Many ent_transaction]"

definition header_inst :: "'h btc_header \<Rightarrow> 'h btc_value einst" where
  "header_inst h = Einst (hd_height h) [F_Value (V_Hash (hd_hash h)), F_Value (V_Hash (hd_prev_hash h)), F_Value (V_Int (hd_timestamp h)), F_Value (V_Hash (hd_merkle_root h))]"

definition utxo_inst :: "utxo \<Rightarrow> 'h btc_value einst" where
  "utxo_inst u = Einst (utxo_id u) [F_Value (V_Int (utxo_amount u)), F_Value (V_Bytes (utxo_script_hash u)), F_Value (V_Bytes (utxo_address u))]"

definition transaction_inst :: "'h transaction \<Rightarrow> 'h btc_value einst" where
  "transaction_inst t = Einst (tx_id t) [F_Value (V_Hash (tx_hash t)), F_Many (map utxo_inst (tx_utxos t))]"

definition block_inst :: "'h btc_block \<Rightarrow> 'h btc_value einst" where
  "block_inst b = Einst (bl_height b) [F_One (header_inst (bl_header b)), F_Many (map transaction_inst (bl_transactions b))]"

subsection \<open>What the crates document of scripts\<close>

definition script_laws :: "script_env \<Rightarrow> bool" where
  "script_laws S \<longleftrightarrow>
     (\<forall>b. is_p2pkh S b \<longleftrightarrow> (\<exists>h. length h = 20 \<and> b = [0x76, 0xA9, 0x14] @ h @ [0x88, 0xAC])) \<and>
     (\<forall>b. is_p2sh S b \<longleftrightarrow> (\<exists>h. length h = 20 \<and> b = [0xA9, 0x14] @ h @ [0x87])) \<and>
     (\<forall>b. is_witness_program S b \<longleftrightarrow>
        4 \<le> length b \<and> length b \<le> 42 \<and> (b ! 0 = 0 \<or> 0x51 \<le> b ! 0 \<and> b ! 0 \<le> 0x60) \<and> unat (b ! 1) = length b - 2) \<and>
     (\<forall>b. is_op_return S b \<longleftrightarrow> b \<noteq> [] \<and> hd b = 0x6A) \<and>
     (\<forall>b. first_opcode S b = (case b of [] \<Rightarrow> None | c # _ \<Rightarrow> Some c)) \<and>
     (\<forall>c. opcode_version S c = (if c = 0 then Some 0 else if 0x51 \<le> c \<and> c \<le> 0x60 then Some (unat c - 0x50) else None))"

text \<open>The script of an address, the reference for the address of a script.\<close>

definition address_script :: "bytes \<Rightarrow> bytes" where
  "address_script a =
     (if hd a = TAG_SEGWIT
      then (if a ! 1 = 0 then 0 else a ! 1 + 0x50) # of_nat (length a - 2) # drop 2 a
      else if hd a = 0x00 then [0x76, 0xA9, 0x14] @ tl a @ [0x88, 0xAC]
      else [0xA9, 0x14] @ tl a @ [0x87])"

subsection \<open>Lemmas on addresses\<close>

lemma script_lawsD:
  assumes "script_laws S"
  shows "is_p2pkh S b \<longleftrightarrow> (\<exists>h. length h = 20 \<and> b = [0x76, 0xA9, 0x14] @ h @ [0x88, 0xAC])"
    "is_p2sh S b \<longleftrightarrow> (\<exists>h. length h = 20 \<and> b = [0xA9, 0x14] @ h @ [0x87])"
    "is_witness_program S b \<longleftrightarrow>
        4 \<le> length b \<and> length b \<le> 42 \<and> (b ! 0 = 0 \<or> 0x51 \<le> b ! 0 \<and> b ! 0 \<le> 0x60) \<and> unat (b ! 1) = length b - 2"
    "is_op_return S b \<longleftrightarrow> b \<noteq> [] \<and> hd b = 0x6A"
    "first_opcode S b = (case b of [] \<Rightarrow> None | c # _ \<Rightarrow> Some c)"
    "opcode_version S c = (if c = 0 then Some 0 else if 0x51 \<le> c \<and> c \<le> 0x60 then Some (unat c - 0x50) else None)"
  using assms unfolding script_laws_def by blast+

lemma slice_hash: "length h = 20 \<Longrightarrow> length p = n \<Longrightarrow> slice_bytes (p @ h @ q) n (n + 20) = Some h"
  by (simp add: slice_bytes_def)

lemma spk_p2pkh:
  assumes "script_laws S" and "is_p2pkh S b"
  shows "\<exists>h. length h = 20 \<and> b = [0x76, 0xA9, 0x14] @ h @ [0x88, 0xAC] \<and> slice_bytes b 3 23 = Some h"
proof -
  from assms script_lawsD(1)[OF assms(1)] obtain h where "length h = 20" "b = [0x76, 0xA9, 0x14] @ h @ [0x88, 0xAC]" by blast
  with slice_hash[of h "[0x76, 0xA9, 0x14]" 3 "[0x88, 0xAC]"] show ?thesis by simp
qed

lemma spk_p2sh:
  assumes "script_laws S" and "is_p2sh S b"
  shows "\<exists>h. length h = 20 \<and> b = [0xA9, 0x14] @ h @ [0x87] \<and> slice_bytes b 2 22 = Some h"
proof -
  from assms script_lawsD(2)[OF assms(1)] obtain h where "length h = 20" "b = [0xA9, 0x14] @ h @ [0x87]" by blast
  with slice_hash[of h "[0xA9, 0x14]" 2 "[0x87]"] show ?thesis by simp
qed

text \<open>A witness program: its version byte, its length and the program.\<close>

lemma spk_witness:
  assumes "script_laws S" and "is_witness_program S b"
  shows "\<exists>c ver prog. b = c # of_nat (length prog) # prog \<and> first_opcode S b = Some c \<and> opcode_version S c = Some ver \<and> ver \<le> 16 \<and>
           c = (if ver = 0 then 0 else of_nat ver + 0x50) \<and> slice_bytes b 2 (length b) = Some prog"
proof -
  from assms script_lawsD(3)[OF assms(1), of b] have b: "4 \<le> length b" "b ! 0 = 0 \<or> 0x51 \<le> b ! 0 \<and> b ! 0 \<le> 0x60" "unat (b ! 1) = length b - 2"
    by auto
  then obtain c l prog where c: "b = c # l # prog" by (cases b; cases "tl b") auto
  have "unat l = length prog" using b(3) c by simp
  then have "l = of_nat (length prog)" by (metis of_nat_unat ucast_id)
  moreover have "\<exists>ver. opcode_version S c = Some ver \<and> ver \<le> 16 \<and> c = (if ver = 0 then 0 else of_nat ver + 0x50)"
  proof (cases "c = 0")
    case True
    then show ?thesis using script_lawsD(6)[OF assms(1), of c] by simp
  next
    case False
    with b(2) c have r: "0x51 \<le> c" "c \<le> 0x60" by auto
    have u: "0x51 \<le> unat c" "unat c \<le> 0x60" using r by (simp_all add: word_le_nat_alt)
    have "of_nat (unat c - 0x50) + 0x50 = (of_nat (unat c - 0x50 + 0x50) :: u8)" by simp
    also have "unat c - 0x50 + 0x50 = unat c" using u by simp
    finally have "of_nat (unat c - 0x50) + 0x50 = c" by simp
    with u r False show ?thesis using script_lawsD(6)[OF assms(1), of c] by auto
  qed
  moreover have "slice_bytes b 2 (length b) = Some prog" using c by (simp add: slice_bytes_def)
  ultimately show ?thesis using c script_lawsD(5)[OF assms(1), of b] by auto
qed

text \<open>The address of a script: its reference script is the script, unless it is a tag.\<close>

definition is_tag :: "bytes \<Rightarrow> bool" where
  "is_tag a \<longleftrightarrow> a = [TAG_OP_RETURN] \<or> a = [TAG_NON_ADDR]"

lemma tag_not_layout: "is_tag a \<Longrightarrow> length a = 1"
  by (auto simp: is_tag_def)

lemma legacy_bytes: "length h = 20 \<Longrightarrow> legacy_layout v w (v # h)" "length h = 20 \<Longrightarrow> legacy_layout v w (w # h)"
  by (simp_all add: legacy_layout_def)

lemma segwit_bytes_ok:
  assumes "script_laws S" and "is_witness_program S b"
  shows "\<exists>a c. first_opcode S b = Some c \<and> segwit_bytes b (opcode_version S c) = Some a \<and>
           (if length b = 22 \<or> length b = 34 then segwit_layout 16 a \<and> address_script a = b else is_tag a)"
proof -
  from spk_witness[OF assms] obtain c ver prog where
    w: "b = c # of_nat (length prog) # prog" "first_opcode S b = Some c" "opcode_version S c = Some ver" "ver \<le> 16"
      "c = (if ver = 0 then 0 else of_nat ver + 0x50)" "slice_bytes b 2 (length b) = Some prog" by blast
  have len: "length b = 22 \<or> length b = 34 \<longleftrightarrow> length prog = 20 \<or> length prog = 32" using w(1) by auto
  have "ver = 0" if "(of_nat ver :: u8) = 0" using unat_version[OF w(4)] unfolding that by simp
  then have ver0: "(of_nat ver :: u8) = 0 \<longleftrightarrow> ver = 0" by auto
  show ?thesis
  proof (cases "length prog = 20 \<or> length prog = 32")
    case True
    then have "address_script (TAG_SEGWIT # of_nat ver # prog) = b" using w(1,5) ver0 by (simp add: address_script_def)
    with True len w segwit_layoutI[OF w(4) True] show ?thesis by (auto simp: segwit_bytes_def)
  next
    case False
    with len w show ?thesis by (auto simp: segwit_bytes_def is_tag_def)
  qed
qed

lemma btc_spk_ok:
  assumes "script_laws S"
  shows "\<exists>a. btc_spk_to_address_bytes_or_tag S b = Some a \<and>
           (if is_p2pkh S b \<or> is_p2sh S b \<or> is_witness_program S b \<and> (length b = 22 \<or> length b = 34)
            then btc_layout a \<and> address_script a = b else is_tag a)"
proof -
  consider (pkh) "is_p2pkh S b" | (sh) "\<not> is_p2pkh S b" "is_p2sh S b"
    | (w) "\<not> is_p2pkh S b" "\<not> is_p2sh S b" "is_witness_program S b"
    | (tag) "\<not> is_p2pkh S b" "\<not> is_p2sh S b" "\<not> is_witness_program S b" by blast
  then show ?thesis
  proof cases
    case pkh
    from spk_p2pkh[OF assms pkh] obtain h where h: "length h = 20" "b = [0x76, 0xA9, 0x14] @ h @ [0x88, 0xAC]" "slice_bytes b 3 23 = Some h"
      by blast
    have "address_script (0x00 # h) = b" using h(2) tag_not_legacy(1) by (simp add: address_script_def)
    with pkh h legacy_bytes(1)[OF h(1), of "0x00" "0x05"] show ?thesis by (simp add: btc_spk_to_address_bytes_or_tag_def btc_layout_def)
  next
    case sh
    from spk_p2sh[OF assms sh(2)] obtain h where h: "length h = 20" "b = [0xA9, 0x14] @ h @ [0x87]" "slice_bytes b 2 22 = Some h" by blast
    have "address_script (0x05 # h) = b" using h(2) tag_not_legacy(2) by (simp add: address_script_def)
    with sh h legacy_bytes(2)[OF h(1), of "0x00" "0x05"] show ?thesis by (simp add: btc_spk_to_address_bytes_or_tag_def btc_layout_def)
  next
    case w
    with segwit_bytes_ok[OF assms w(3)] show ?thesis by (auto simp: btc_spk_to_address_bytes_or_tag_def btc_layout_def)
  next
    case tag
    then show ?thesis by (auto simp: btc_spk_to_address_bytes_or_tag_def is_tag_def)
  qed
qed

subsection \<open>Lemmas on blocks\<close>

lemma those_map_Some: "(\<And>x. x \<in> set xs \<Longrightarrow> f x = Some (g x)) \<Longrightarrow> those (map f xs) = Some (map g xs)"
  by (induction xs) auto

lemma map_snd_enumerate: "map (\<lambda>x. f (snd x)) (enumerate n xs) = map f xs"
  by (rule nth_equalityI) (simp_all add: nth_enumerate_eq)

definition utxo_of :: "(bytes \<Rightarrow> bytes option) \<Rightarrow> pointer \<Rightarrow> nat \<times> ext_txout \<Rightarrow> utxo" where
  "utxo_of spk p x = \<lparr>utxo_id = from_parent p (fst x mod 2 ^ 16), utxo_amount = txout_value (snd x),
     utxo_script_hash = txout_script (snd x), utxo_address = the (spk (txout_script (snd x)))\<rparr>"

definition transaction_of :: "'h node_env \<Rightarrow> (bytes \<Rightarrow> bytes option) \<Rightarrow> pointer \<Rightarrow> nat \<times> 'h ext_tx \<Rightarrow> 'h transaction" where
  "transaction_of N spk p x =
     (let q = from_parent p (fst x mod 2 ^ 16)
      in \<lparr>tx_id = q, tx_hash = nd_txid N (snd x), tx_utxos = map (utxo_of spk q) (enumerate 0 (ext_outputs (snd x))),
          tx_input_refs = process_inputs (ext_inputs (snd x))\<rparr>)"

definition block_of :: "'h node_env \<Rightarrow> (bytes \<Rightarrow> bytes option) \<Rightarrow> nat \<Rightarrow> 'h ext_block \<Rightarrow> 'h btc_block" where
  "block_of N spk h block =
     \<lparr>bl_height = Root h,
      bl_header = \<lparr>hd_height = Root h, hd_timestamp = ext_time block, hd_hash = nd_block_hash N block,
                   hd_prev_hash = ext_prev_blockhash block, hd_merkle_root = ext_merkle_root block,
                   hd_weight = (6 + (\<Sum>tx\<leftarrow>ext_txdata block. length (ext_inputs tx) + length (ext_outputs tx) + 1)) mod 2 ^ 32\<rparr>,
      bl_transactions = map (transaction_of N spk (Root h)) (enumerate 0 (ext_txdata block))\<rparr>"

lemma process_outputs_ok:
  assumes "\<forall>b. spk b \<noteq> None"
  shows "process_outputs spk outs p = Some (length outs, map (utxo_of spk p) (enumerate 0 outs))"
proof -
  have "process_output spk p x = Some (utxo_of spk p x)" for x
  proof -
    obtain a where "spk (txout_script (snd x)) = Some a" using assms by blast
    then show ?thesis by (cases x) (simp add: process_output_def utxo_of_def)
  qed
  then show ?thesis by (simp add: process_outputs_def those_map_Some)
qed

lemma block_weight_sum: "block_weight txs = 6 + (\<Sum>tx\<leftarrow>txs. length (ext_inputs tx) + length (ext_outputs tx) + 1)"
proof -
  have "foldl (\<lambda>w tx. w + (length (ext_inputs tx) + length (ext_outputs tx) + 1)) n txs =
        n + (\<Sum>tx\<leftarrow>txs. length (ext_inputs tx) + length (ext_outputs tx) + 1)" for n
    by (induction txs arbitrary: n) simp_all
  then show ?thesis by (simp add: block_weight_def)
qed

lemma raw_block_ok:
  assumes "\<forall>b. spk b \<noteq> None" and "nd_deserialize N (cbor_raw cbor) = Inr block"
  shows "process_block_pure N spk cbor = Some (Inr (block_of N spk (cbor_height cbor) block))"
proof -
  have "(case x of (tx_index, tx) \<Rightarrow> process_tx N spk p (tx_index mod 2 ^ 16) tx) = Some (transaction_of N spk p x)" for x p
    by (cases x) (simp add: process_tx_def process_outputs_ok[OF assms(1)] transaction_of_def Let_def)
  then have "those (map (\<lambda>(tx_index, tx). process_tx N spk p (tx_index mod 2 ^ 16) tx) xs) = Some (map (transaction_of N spk p) xs)" for p xs
    by (intro those_map_Some) auto
  then show ?thesis by (simp add: process_block_pure_def assms(2) Let_def block_of_def block_weight_sum)
qed

text \<open>Keys of children, in the order of their positions.\<close>

lemma children_keys_sorted:
  assumes "length xs \<le> 65536"
  shows "sorted_wrt (<) (map (\<lambda>x. from_parent p (fst x mod 2 ^ 16)) (enumerate 0 xs))"
proof -
  have "map (\<lambda>x. from_parent p (fst x mod 2 ^ 16)) (enumerate 0 xs) = map (from_parent p) [0..<length xs]"
    using assms by (intro nth_equalityI) (auto simp: nth_enumerate_eq)
  then show ?thesis by (simp add: sorted_wrt_map from_parent_def sorted_wrt_upt)
qed

lemma child_key_ok: "key_ok ty p \<Longrightarrow> i < 65535 \<Longrightarrow> key_ok (Child_Ty ty 2) (from_parent p i)"
  by (auto simp: key_ok_def from_parent_def add_index_def)

lemma root_key_ok: "h < 2 ^ 32 - 1 \<Longrightarrow> key_ok (Root_Ty 4) (Root h)"
  by (auto simp: key_ok_def add_index_def)

lemma block_inst_wf:
  assumes "h < 2 ^ 32 - 1" and "length (ext_txdata block) \<le> 65535" and "\<forall>tx\<in>set (ext_txdata block). length (ext_outputs tx) \<le> 65535"
  shows "wf_inst ent_block (block_inst (block_of N spk h block))"
proof -
  have root: "key_ok (Root_Ty 4) (Root h)" using assms(1) by (rule root_key_ok)
  have tx: "wf_inst ent_transaction (transaction_inst (transaction_of N spk (Root h) x)) \<and>
            inst_key (transaction_inst (transaction_of N spk (Root h) x)) = from_parent (Root h) (fst x mod 2 ^ 16)"
    if "x \<in> set (enumerate 0 (ext_txdata block))" for x
  proof -
    let ?q = "from_parent (Root h) (fst x mod 2 ^ 16)"
    have x: "fst x < 65535" "snd x \<in> set (ext_txdata block)"
      using that assms(2) by (auto simp: in_set_enumerate_eq) (metis nth_mem)
    then have q: "key_ok (Child_Ty (Root_Ty 4) 2) ?q" using child_key_ok[OF root, of "fst x"] by simp
    have outs: "length (ext_outputs (snd x)) \<le> 65535" using x(2) assms(3) by simp
    have "wf_inst ent_utxo (utxo_inst (utxo_of spk ?q y)) \<and> parent (inst_key (utxo_inst (utxo_of spk ?q y))) = Some ?q"
      if "y \<in> set (enumerate 0 (ext_outputs (snd x)))" for y
    proof -
      have "fst y < 65535" using that outs by (auto simp: in_set_enumerate_eq)
      with child_key_ok[OF q, of "fst y"] show ?thesis
        by (simp add: ent_utxo_def utxo_inst_def utxo_of_def) (simp add: from_parent_def)
    qed
    moreover have "sorted_wrt (<) (map inst_key (map utxo_inst (tx_utxos (transaction_of N spk (Root h) x))))"
      using children_keys_sorted[of "ext_outputs (snd x)" ?q] outs
      by (simp add: transaction_of_def Let_def utxo_inst_def utxo_of_def o_def)
    ultimately show ?thesis using q
      by (auto simp: ent_transaction_def transaction_inst_def transaction_of_def Let_def)
  qed
  moreover have "sorted_wrt (<) (map inst_key (map transaction_inst (bl_transactions (block_of N spk h block))))"
    using children_keys_sorted[of "ext_txdata block" "Root h"] assms(2)
    by (simp add: block_of_def transaction_inst_def transaction_of_def Let_def o_def)
  moreover have "wf_inst ent_header (header_inst (bl_header (block_of N spk h block)))" "inst_key (header_inst (bl_header (block_of N spk h block))) = Root h"
    using root by (simp_all add: ent_header_def header_inst_def block_of_def)
  ultimately show ?thesis using root
    by (auto simp: ent_block_def block_inst_def) (auto simp: block_of_def from_parent_def)
qed

subsection \<open>Properties\<close>


text \<open>
  C25. The address of an output. No script panics. The scripts of legacy addresses and the witness programs
  of 20 and 32 bytes, and no others, get address bytes; from these the script can be computed, so different scripts have
  different addresses, and their text is read back to the same bytes. Every other script gets a tag, and
  a tag cannot be written as text: an output with a tag cannot be shown as JSON.
\<close>

theorem output_addresses:
  assumes "script_laws S" and "base58_laws X" and "segwit_laws X"
  shows "\<exists>a. btc_spk_to_address_bytes_or_tag S b = Some a \<and>
           (if is_p2pkh S b \<or> is_p2sh S b \<or> is_witness_program S b \<and> (length b = 22 \<or> length b = 34)
            then address_script a = b \<and> (\<exists>s. btc_serialize_as X a = Some (Inr s) \<and> btc_deserialize_as X s = Inr a)
            else (a = [TAG_OP_RETURN] \<or> a = [TAG_NON_ADDR]) \<and> btc_serialize_as X a = Some (Inl ''unsupported address-bytes layout''))"
proof -
  from btc_spk_ok[OF assms(1), of b] obtain a where a: "btc_spk_to_address_bytes_or_tag S b = Some a"
    "if is_p2pkh S b \<or> is_p2sh S b \<or> is_witness_program S b \<and> (length b = 22 \<or> length b = 34)
     then btc_layout a \<and> address_script a = b else is_tag a" by blast
  have "\<exists>s. btc_serialize_as X a = Some (Inr s) \<and> btc_deserialize_as X s = Inr a" if "btc_layout a"
    using btc_text.roundtrip[of X a] that assms(2,3) by (auto simp: value_of_Some text_of_def split: option.splits sum.splits)
  moreover have "btc_serialize_as X a = Some (Inl ''unsupported address-bytes layout'')" if "is_tag a"
    using that by (auto simp: btc_serialize_as_def is_tag_def)
  ultimately show ?thesis using a by (cases "is_p2pkh S b \<or> is_p2sh S b \<or> is_witness_program S b \<and> (length b = 22 \<or> length b = 34)")
      (auto simp: is_tag_def)
qed

subsection \<open>Witnesses\<close>

definition demo_scripts :: script_env where
  "demo_scripts =
     \<lparr>is_p2pkh = (\<lambda>b. length b = 25 \<and> take 3 b = [0x76, 0xA9, 0x14] \<and> drop 23 b = [0x88, 0xAC]),
      is_p2sh = (\<lambda>b. length b = 23 \<and> take 2 b = [0xA9, 0x14] \<and> drop 22 b = [0x87]),
      is_witness_program = (\<lambda>b. 4 \<le> length b \<and> length b \<le> 42 \<and> (b ! 0 = 0 \<or> 0x51 \<le> b ! 0 \<and> b ! 0 \<le> 0x60) \<and> unat (b ! 1) = length b - 2),
      is_op_return = (\<lambda>b. b \<noteq> [] \<and> hd b = 0x6A),
      first_opcode = (\<lambda>b. case b of [] \<Rightarrow> None | c # _ \<Rightarrow> Some c),
      opcode_version = (\<lambda>c. if c = 0 then Some 0 else if 0x51 \<le> c \<and> c \<le> 0x60 then Some (unat c - 0x50) else None)\<rparr>"

lemma framed: "length b = length p + 20 + length q \<and> take (length p) b = p \<and> drop (length p + 20) b = q \<longleftrightarrow> (\<exists>h. length h = 20 \<and> b = p @ h @ q)"
proof
  assume b: "length b = length p + 20 + length q \<and> take (length p) b = p \<and> drop (length p + 20) b = q"
  then have "b = p @ take 20 (drop (length p) b) @ q" by (metis append_take_drop_id drop_drop add.commute)
  moreover have "length (take 20 (drop (length p) b)) = 20" using b by simp
  ultimately show "\<exists>h. length h = 20 \<and> b = p @ h @ q" by blast
qed auto

lemma demo_script_laws: "script_laws demo_scripts"
  unfolding script_laws_def
proof (intro conjI allI)
  fix b :: bytes
  show "is_p2pkh demo_scripts b \<longleftrightarrow> (\<exists>h. length h = 20 \<and> b = [0x76, 0xA9, 0x14] @ h @ [0x88, 0xAC])"
    using framed[of b "[0x76, 0xA9, 0x14]" "[0x88, 0xAC]"] by (simp add: demo_scripts_def numeral_eq_Suc)
  show "is_p2sh demo_scripts b \<longleftrightarrow> (\<exists>h. length h = 20 \<and> b = [0xA9, 0x14] @ h @ [0x87])"
    using framed[of b "[0xA9, 0x14]" "[0x87]"] by (simp add: demo_scripts_def numeral_eq_Suc)
qed (simp_all add: demo_scripts_def)

theorem output_addresses_witness:
  "(\<exists>a. btc_spk_to_address_bytes_or_tag demo_scripts (0x51 # 0x20 # replicate 32 9) = Some a \<and>
      address_script a = 0x51 # 0x20 # replicate 32 9 \<and> (\<exists>s. btc_serialize_as demo_addr a = Some (Inr s) \<and> btc_deserialize_as demo_addr s = Inr a)) \<and>
   (\<exists>a. btc_spk_to_address_bytes_or_tag demo_scripts [0x6A, 1, 7] = Some a \<and>
      btc_serialize_as demo_addr a = Some (Inl ''unsupported address-bytes layout''))"
  using output_addresses[OF demo_script_laws demo_base58_laws demo_segwit_laws, of "0x51 # 0x20 # replicate 32 9"]
    output_addresses[OF demo_script_laws demo_base58_laws demo_segwit_laws, of "[0x6A, 1, 7]"]
  by (auto simp: demo_scripts_def)

definition demo_raw :: "nat ext_block" where
  "demo_raw = \<lparr>ext_time = 7, ext_prev_blockhash = 1, ext_merkle_root = 2,
     ext_txdata = [\<lparr>ext_inputs = [\<lparr>txin_txid = 0, txin_vout = 2 ^ 32 - 1\<rparr>], ext_outputs = [\<lparr>txout_value = 50, txout_script = [0x6A]\<rparr>]\<rparr>]\<rparr>"

definition demo_node :: "nat node_env" where
  "demo_node = \<lparr>nd_deserialize = (\<lambda>b. if b = [1] then Inr demo_raw else Inl ''truncated''), nd_block_hash = (\<lambda>_. 3), nd_txid = (\<lambda>_. 4)\<rparr>"

abbreviation btc_vals :: "((pointer \<times> nat btc_value) list, pointer, nat btc_value) table_ops" where
  "btc_vals \<equiv> alist_table_ops"

lemma btc_tables: "tables_ok demo_keys btc_vals map_of map_of"
  by (simp add: tables_ok_def alist_table_ok)

definition btc_empty :: "((pointer \<times> unit) list, (pointer \<times> nat btc_value) list) edb" where
  "btc_empty = Edb [] [Sub (Edb [] [Tab [], Tab [], Tab [], Tab []]), Sub (Edb [] [Tab [], Sub (Edb [] [Tab [], Tab [], Tab []])])]"

lemma btc_empty_valid: "valid map_of map_of ent_block btc_empty"
  by (simp add: ent_block_def ent_header_def ent_transaction_def ent_utxo_def btc_empty_def)


end
