(* ===== verification/Storage_Init.thy ===== *)
theory Storage_Init
  imports Cache_Alloc Pointers
begin

section \<open>Creating and opening the databases\<close>

text \<open>
  The model of \<open>redbit/src/storage/init.rs\<close>: every column has one database file per shard; the first start
  creates them in a new directory, every later start opens them. The directory is the map of its files;
  redb is the environment \<open>disk_env\<close>. Strong and weak references to a database are the database itself.
\<close>

type_synonym 'db files = "string \<rightharpoonup> 'db"

record 'db disk_env =
  db_create :: "string \<Rightarrow> usize \<Rightarrow> 'db files \<Rightarrow> 'db files \<times> 'db res"
  db_open :: "string \<Rightarrow> 'db files \<Rightarrow> 'db res"
  create_dir :: "unit res"

record 'db db_dir =
  dir_exists :: bool
  dir_files :: "'db files"

subsection \<open>Operations\<close>

definition db_file_path :: "string \<Rightarrow> usize option \<Rightarrow> string" where
  "db_file_path name shard_idx =
     (case shard_idx of Some i \<Rightarrow> name @ ''-'' @ show_uint i @ ''.db'' | None \<Rightarrow> name @ ''.db'')"

definition shard_suffix :: "db_def_with_cache \<Rightarrow> usize \<Rightarrow> usize option" where
  "shard_suffix d idx = (if dc_shards d = 1 then None else Some idx)"

abbreviation shard_path :: "db_def_with_cache \<Rightarrow> usize \<Rightarrow> string" where
  "shard_path d idx \<equiv> db_file_path (dc_name d) (shard_suffix d idx)"

text \<open>The databases in the order of their shards, whatever the order in which they were opened.\<close>

fun push_shard :: "string \<times> usize \<times> 'db \<Rightarrow> (string \<rightharpoonup> (usize \<times> 'db) list) \<Rightarrow> (string \<rightharpoonup> (usize \<times> 'db) list)" where
  "push_shard (name, idx, db) m = m(name \<mapsto> (case m name of None \<Rightarrow> [] | Some v \<Rightarrow> v) @ [(idx, db)])"

definition db_set_owned_new :: "(string \<times> usize \<times> 'db) list \<Rightarrow> (string \<rightharpoonup> 'db list)" where
  "db_set_owned_new name_index_dbs =
     (let shards = fold push_shard name_index_dbs Map.empty
      in (\<lambda>name. map_option (\<lambda>v. map snd (sort_key fst v)) (shards name)))"

fun create_shards :: "'db disk_env \<Rightarrow> db_def_with_cache \<Rightarrow> usize list \<Rightarrow> 'db files \<Rightarrow> 'db files \<times> 'db list res" where
  "create_shards D d [] fs = (fs, Inr [])"
| "create_shards D d (i # is) fs =
     (case db_create D (shard_path d i) (db_cache_in_mb d) fs of
        (fs1, Inl e) \<Rightarrow> (fs1, Inl e)
      | (fs1, Inr db) \<Rightarrow> (case create_shards D d is fs1 of (fs2, r) \<Rightarrow> (fs2, map_sum id (\<lambda>v. db # v) r)))"

fun build_owned_map_create ::
    "'db disk_env \<Rightarrow> (string \<rightharpoonup> 'db list) \<Rightarrow> db_def_with_cache list \<Rightarrow> 'db files \<Rightarrow> 'db files \<times> (string \<rightharpoonup> 'db list) res" where
  "build_owned_map_create D out [] fs = (fs, Inr out)"
| "build_owned_map_create D out (d # defs) fs =
     (case validate d of
        Inl e \<Rightarrow> (fs, Inl e)
      | Inr _ \<Rightarrow>
          (case create_shards D d [0..<dc_shards d] fs of
             (fs1, Inl e) \<Rightarrow> (fs1, Inl e)
           | (fs1, Inr v) \<Rightarrow> build_owned_map_create D (out(dc_name d \<mapsto> v)) defs fs1))"

fun validate_all :: "db_def_with_cache list \<Rightarrow> unit res" where
  "validate_all [] = Inr ()"
| "validate_all (d # defs) = (case validate d of Inl e \<Rightarrow> Inl e | Inr _ \<Rightarrow> validate_all defs)"

text \<open>All databases are opened at the same time; the first error in the order of the tasks is returned.\<close>

fun collect_results :: "'a res list \<Rightarrow> 'a list res" where
  "collect_results [] = Inr []"
| "collect_results (r # rs) = (case r of Inl e \<Rightarrow> Inl e | Inr x \<Rightarrow> map_sum id (\<lambda>xs. x # xs) (collect_results rs))"

definition open_tasks :: "'db disk_env \<Rightarrow> 'db files \<Rightarrow> db_def_with_cache \<Rightarrow> (string \<times> usize \<times> 'db) res list" where
  "open_tasks D fs d = map (\<lambda>idx. map_sum id (\<lambda>db. (dc_name d, idx, db)) (db_open D (shard_path d idx) fs)) [0..<dc_shards d]"

definition build_owned_map_open :: "'db disk_env \<Rightarrow> db_def_with_cache list \<Rightarrow> 'db files \<Rightarrow> (string \<rightharpoonup> 'db list) res" where
  "build_owned_map_open D defs fs =
     (case validate_all defs of
        Inl e \<Rightarrow> Inl e
      | Inr _ \<Rightarrow> map_sum id db_set_owned_new (collect_results (concat (map (open_tasks D fs) defs))))"

definition fetch_dbs :: "(string \<rightharpoonup> 'db list) \<Rightarrow> string \<Rightarrow> 'db list res" where
  "fetch_dbs index_dbs name = (case index_dbs name of Some v \<Rightarrow> Inr v | None \<Rightarrow> Inl (Custom (''column `'' @ name @ ''`: not found'')))"

definition storage_init ::
    "'db disk_env \<Rightarrow> db_def list \<Rightarrow> nat \<Rightarrow> 'db db_dir \<Rightarrow> ('db db_dir \<times> (bool \<times> (string \<rightharpoonup> 'db list)) res) option" where
  "storage_init D db_defs total_cache_size_gb dir =
     do {
       defs_with_cache \<leftarrow> allocate_cache_mb db_defs (total_cache_size_gb * 1024);
       Some (if \<not> dir_exists dir
             then (case create_dir D of
                     Inl e \<Rightarrow> (dir, Inl e)
                   | Inr _ \<Rightarrow>
                       (case build_owned_map_create D Map.empty defs_with_cache (dir_files dir) of
                          (fs, r) \<Rightarrow> (\<lparr>dir_exists = True, dir_files = fs\<rparr>, map_sum id (\<lambda>m. (True, m)) r)))
             else (dir, map_sum id (\<lambda>m. (False, m)) (build_owned_map_open D defs_with_cache (dir_files dir))))
     }"

subsection \<open>What redb documents\<close>

definition disk_laws :: "'db disk_env \<Rightarrow> bool" where
  "disk_laws D \<longleftrightarrow>
     (\<forall>p n fs fs' db. db_create D p n fs = (fs', Inr db) \<longrightarrow> fs' = fs(p \<mapsto> db)) \<and>
     (\<forall>p fs db. fs p = Some db \<longrightarrow> db_open D p fs = Inr db) \<and>
     (\<forall>p fs. fs p = None \<longrightarrow> (\<exists>e. db_open D p fs = Inl e))"

lemma disk_lawsD:
  assumes "disk_laws D"
  shows "db_create D p n fs = (fs', Inr db) \<Longrightarrow> fs' = fs(p \<mapsto> db)" "fs p = Some db \<Longrightarrow> db_open D p fs = Inr db"
    "fs p = None \<Longrightarrow> \<exists>e. db_open D p fs = Inl e"
  using assms[unfolded disk_laws_def] by (auto simp del: fun_upd_apply)

subsection \<open>File names\<close>

lemma show_uint_inj: "show_uint m = show_uint n \<Longrightarrow> m = n"
proof -
  assume eq: "show_uint m = show_uint n"
  have le: "k < 256 ^ (m + n)" if "k \<le> m + n" for k
  proof -
    have "m + n < 2 ^ (m + n)" by (rule less_exp)
    also have "(2 :: nat) ^ (m + n) \<le> 256 ^ (m + n)" by (rule power_mono) simp_all
    finally show ?thesis using that by simp
  qed
  have "(Inr m :: int_error + nat) = parse_digits (m + n) 0 (show_uint m)" by (rule parse_digits_show[OF le, symmetric]) simp
  also have "\<dots> = Inr n" unfolding eq by (rule parse_digits_show[OF le]) simp
  finally show "m = n" by simp
qed

definition plain_name :: "string \<Rightarrow> bool" where
  "plain_name name \<longleftrightarrow> CHR ''-'' \<notin> set name"

lemma db_file_path_inj:
  assumes "plain_name n" and "plain_name n'" and "db_file_path n s = db_file_path n' s'"
  shows "n = n' \<and> s = s'"
proof (cases s; cases s')
  assume "s = None" "s' = None"
  with assms show ?thesis by (simp add: db_file_path_def)
next
  fix i assume "s = None" "s' = Some i"
  with assms have "n @ ''.db'' = n' @ ''-'' @ show_uint i @ ''.db''" by (simp add: db_file_path_def)
  then have "CHR ''-'' \<in> set (n @ ''.db'')" by simp
  with assms(1) show ?thesis by (simp add: plain_name_def)
next
  fix i assume "s = Some i" "s' = None"
  with assms have "n @ ''-'' @ show_uint i @ ''.db'' = n' @ ''.db''" by (simp add: db_file_path_def)
  then have "CHR ''-'' \<in> set (n' @ ''.db'')" by (auto dest: arg_cong[where f = set])
  with assms(2) show ?thesis by (simp add: plain_name_def)
next
  fix i j assume s: "s = Some i" "s' = Some j"
  with assms(3) have eq: "n @ CHR ''-'' # show_uint i @ ''.db'' = n' @ CHR ''-'' # show_uint j @ ''.db''" by (simp add: db_file_path_def)
  have "takeWhile (\<lambda>c. c \<noteq> CHR ''-'') (m @ CHR ''-'' # t) = m" if "plain_name m" for m t
    using that by (induction m) (auto simp: plain_name_def)
  with eq assms(1,2) have "n = n'" by metis
  with eq s show_uint_inj show ?thesis by simp
qed

lemma shard_path_inj:
  assumes "plain_name (dc_name d)" and "plain_name (dc_name d')" and "i < dc_shards d" and "j < dc_shards d'" and "shard_path d i = shard_path d' j"
  shows "dc_name d = dc_name d' \<and> (d = d' \<longrightarrow> i = j)"
  using db_file_path_inj[OF assms(1,2,5)] assms(3,4) by (auto simp: shard_suffix_def split: if_splits)

subsection \<open>Creating\<close>

lemma map_sum_eq_Inr: "map_sum f g r = Inr y \<longleftrightarrow> (\<exists>x. r = Inr x \<and> y = g x)"
  by (cases r) auto

lemma create_shards_ok:
  assumes "disk_laws D" and "create_shards D d is fs = (fs', Inr v)" and "distinct (map (shard_path d) is)"
  shows "length v = length is \<and> (\<forall>j < length is. fs' (shard_path d (is ! j)) = Some (v ! j)) \<and>
         (\<forall>p. p \<notin> shard_path d ` set is \<longrightarrow> fs' p = fs p)"
  using assms(2,3)
proof (induction "is" arbitrary: fs fs' v)
  case (Cons i "is")
  from Cons.prems(1) obtain fs1 db v' where
    1: "db_create D (shard_path d i) (db_cache_in_mb d) fs = (fs1, Inr db)" "create_shards D d is fs1 = (fs', Inr v')" "v = db # v'"
    by (auto simp: map_sum_eq_Inr split: prod.splits sum.splits)
  have fs1: "fs1 = fs(shard_path d i \<mapsto> db)" using disk_lawsD(1)[OF assms(1) 1(1)] .
  from Cons.IH[OF 1(2)] Cons.prems(2) have IH: "length v' = length is" "\<forall>j < length is. fs' (shard_path d (is ! j)) = Some (v' ! j)"
    "\<forall>p. p \<notin> shard_path d ` set is \<longrightarrow> fs' p = fs1 p" by simp_all
  have i: "fs' (shard_path d i) = Some db" using IH(3) fs1 Cons.prems(2) by simp
  have "fs' (shard_path d ((i # is) ! j)) = Some (v ! j)" if "j < length (i # is)" for j
    using that i IH(2) 1(3) by (cases j) simp_all
  moreover have "fs' p = fs p" if "p \<notin> shard_path d ` set (i # is)" for p
  proof -
    from that have "p \<noteq> shard_path d i" "p \<notin> shard_path d ` set is" by simp_all
    with IH(3) fs1 show ?thesis by simp
  qed
  ultimately show ?case using IH(1) 1(3) by simp
qed simp

definition def_paths :: "db_def_with_cache \<Rightarrow> string set" where
  "def_paths d = shard_path d ` {..<dc_shards d}"

lemma distinct_shard_paths: "plain_name (dc_name d) \<Longrightarrow> distinct (map (shard_path d) [0..<dc_shards d])"
  using shard_path_inj[of d d] by (auto simp: distinct_map inj_on_def)

lemma paths_disjoint:
  "plain_name (dc_name d) \<Longrightarrow> plain_name (dc_name d') \<Longrightarrow> dc_name d \<noteq> dc_name d' \<Longrightarrow> def_paths d \<inter> def_paths d' = {}"
  using shard_path_inj[of d d'] by (auto simp: def_paths_def)

text \<open>The files of a set of columns, and the databases of a storage that has them.\<close>

definition holds :: "'db files \<Rightarrow> db_def_with_cache \<Rightarrow> 'db list \<Rightarrow> bool" where
  "holds fs d v \<longleftrightarrow> length v = dc_shards d \<and> (\<forall>j < dc_shards d. fs (shard_path d j) = Some (v ! j))"

lemma build_create_ok:
  assumes "disk_laws D" and "build_owned_map_create D out defs fs = (fs', Inr m)"
    and "distinct (map dc_name defs)" and "\<forall>d\<in>set defs. plain_name (dc_name d)"
  shows "(\<forall>d\<in>set defs. 0 < dc_shards d \<and> (\<exists>v. m (dc_name d) = Some v \<and> holds fs' d v)) \<and>
         (\<forall>n. n \<notin> dc_name ` set defs \<longrightarrow> m n = out n) \<and>
         (\<forall>p. p \<notin> (\<Union>d\<in>set defs. def_paths d) \<longrightarrow> fs' p = fs p)"
  using assms(2-)
proof (induction defs arbitrary: out fs)
  case (Cons d defs)
  from Cons.prems(1) obtain fs1 v where
    1: "validate d = Inr ()" "create_shards D d [0..<dc_shards d] fs = (fs1, Inr v)" "build_owned_map_create D (out(dc_name d \<mapsto> v)) defs fs1 = (fs', Inr m)"
    by (auto split: prod.splits sum.splits)
  have IH: "\<forall>d\<in>set defs. 0 < dc_shards d \<and> (\<exists>v. m (dc_name d) = Some v \<and> holds fs' d v)"
    "\<forall>n. n \<notin> dc_name ` set defs \<longrightarrow> m n = (out(dc_name d \<mapsto> v)) n"
    "\<forall>p. p \<notin> (\<Union>d\<in>set defs. def_paths d) \<longrightarrow> fs' p = fs1 p"
    using Cons.IH[OF 1(3)] Cons.prems(2,3) by simp_all
  from create_shards_ok[OF assms(1) 1(2)] distinct_shard_paths Cons.prems(3) have
    v: "length v = dc_shards d" "\<forall>j < dc_shards d. fs1 (shard_path d j) = Some (v ! j)" "\<forall>p. p \<notin> def_paths d \<longrightarrow> fs1 p = fs p"
    by (auto simp: def_paths_def atLeast0LessThan)
  have "shard_path d j \<notin> (\<Union>d'\<in>set defs. def_paths d')" if "j < dc_shards d" for j
    using paths_disjoint[of d] Cons.prems(2,3) that by (fastforce simp: def_paths_def)
  with v IH(3) have "holds fs' d v" by (simp add: holds_def)
  moreover have "m (dc_name d) = Some v" using IH(2) Cons.prems(2) by simp
  moreover have "0 < dc_shards d" using 1(1) by (simp add: validate_def split: if_splits)
  ultimately show ?case using IH v(3) by simp
qed simp

subsection \<open>Opening\<close>

lemma validate_all_ok: "\<forall>d\<in>set defs. 0 < dc_shards d \<Longrightarrow> validate_all defs = Inr ()"
  by (induction defs) (simp_all add: validate_def)

lemma collect_results_ok: "collect_results (map Inr xs) = Inr xs"
  by (induction xs) simp_all

lemma collect_results_Inl: "Inl e \<in> set rs \<Longrightarrow> \<exists>e'. collect_results rs = Inl e'"
  by (induction rs) (auto split: sum.split)

lemma open_tasks_ok: "disk_laws D \<Longrightarrow> holds fs d v \<Longrightarrow> open_tasks D fs d = map Inr (map (\<lambda>i. (dc_name d, i, v ! i)) [0..<dc_shards d])"
  by (auto simp: open_tasks_def holds_def disk_laws_def)

lemma group_shards:
  "fold push_shard xs m n =
     (case map snd (filter (\<lambda>x. fst x = n) xs) of [] \<Rightarrow> m n | ys \<Rightarrow> Some ((case m n of None \<Rightarrow> [] | Some v \<Rightarrow> v) @ ys))"
proof (induction xs arbitrary: m)
  case (Cons x xs)
  obtain name idx db where x: "x = (name, idx, db)" by (cases x) auto
  have "fold push_shard (x # xs) m n = fold push_shard xs (push_shard x m) n" by simp
  also have "\<dots> = (case map snd (filter (\<lambda>x. fst x = n) xs) of [] \<Rightarrow> push_shard x m n
      | ys \<Rightarrow> Some ((case push_shard x m n of None \<Rightarrow> [] | Some v \<Rightarrow> v) @ ys))" by (rule Cons)
  finally show ?case by (simp add: x split: list.split)
qed simp

lemma db_set_owned_new_iff:
  "db_set_owned_new xs n =
     (case map snd (filter (\<lambda>x. fst x = n) xs) of [] \<Rightarrow> None | ys \<Rightarrow> Some (map snd (sort_key fst ys)))"
  by (simp add: db_set_owned_new_def Let_def group_shards split: list.split)

lemma list_case_nonempty: "zs \<noteq> [] \<Longrightarrow> (case zs of [] \<Rightarrow> a | y # ys \<Rightarrow> f (y # ys)) = f zs"
  by (cases zs) simp_all

lemma filter_shards_of:
  assumes "distinct (map dc_name defs)" and "d \<in> set defs"
  shows "filter (\<lambda>x. fst x = dc_name d) (concat (map (\<lambda>d. map (\<lambda>i. (dc_name d, i, w d i)) [0..<dc_shards d]) defs)) =
         map (\<lambda>i. (dc_name d, i, w d i)) [0..<dc_shards d]"
  using assms
proof (induction defs)
  case (Cons d' defs)
  show ?case
  proof (cases "d = d'")
    case True
    with Cons.prems(1) have "filter (\<lambda>x. fst x = dc_name d) (concat (map (\<lambda>d. map (\<lambda>i. (dc_name d, i, w d i)) [0..<dc_shards d]) defs)) = []"
      by (auto simp: filter_empty_conv image_iff)
    with True show ?thesis by simp
  next
    case False
    with Cons.prems have "d \<in> set defs" "dc_name d' \<noteq> dc_name d" by auto
    with Cons show ?thesis by (simp add: filter_empty_conv)
  qed
qed simp

lemma build_open_ok:
  assumes "disk_laws D" and "distinct (map dc_name defs)" and "\<forall>d\<in>set defs. 0 < dc_shards d \<and> holds fs d (w d)"
  shows "\<exists>m. build_owned_map_open D defs fs = Inr m \<and> (\<forall>d\<in>set defs. m (dc_name d) = Some (w d)) \<and>
           (\<forall>n. n \<notin> dc_name ` set defs \<longrightarrow> m n = None)"
proof -
  let ?xs = "concat (map (\<lambda>d. map (\<lambda>i. (dc_name d, i, w d ! i)) [0..<dc_shards d]) defs)"
  have "concat (map (open_tasks D fs) defs) = map Inr ?xs"
    using open_tasks_ok[OF assms(1)] assms(3) by (induction defs) auto
  then have run: "build_owned_map_open D defs fs = Inr (db_set_owned_new ?xs)"
    using validate_all_ok[of defs] assms(3) by (simp add: build_owned_map_open_def collect_results_ok)
  have "db_set_owned_new ?xs (dc_name d) = Some (w d)" if d: "d \<in> set defs" for d
  proof -
    let ?ys = "map (\<lambda>i. (i, w d ! i)) [0..<dc_shards d]"
    have ys: "map snd (filter (\<lambda>x. fst x = dc_name d) ?xs) = ?ys" unfolding filter_shards_of[OF assms(2) d] by (simp add: o_def)
    have "?ys \<noteq> []" using assms(3) d by simp
    moreover have "sort_key fst ?ys = ?ys" by (rule sort_key_id_if_sorted) (simp add: o_def)
    moreover have "map snd ?ys = w d"
      using assms(3) d by (intro nth_equalityI) (auto simp: holds_def)
    moreover have "(case ?ys of [] \<Rightarrow> None | z # zs \<Rightarrow> Some (map snd (sort_key fst (z # zs)))) = Some (map snd (sort_key fst ?ys))"
      by (rule list_case_nonempty[where f = "\<lambda>z. Some (map snd (sort_key fst z))"]) fact
    ultimately show ?thesis unfolding db_set_owned_new_iff ys by (simp only:)
  qed
  moreover have "db_set_owned_new ?xs n = None" if "n \<notin> dc_name ` set defs" for n
  proof -
    have "filter (\<lambda>x. fst x = n) ?xs = []" using that by (auto simp: filter_empty_conv)
    then show ?thesis by (simp add: db_set_owned_new_iff)
  qed
  ultimately show ?thesis using run by blast
qed

subsection \<open>A creation that fails\<close>

definition failure_keeps :: "'db disk_env \<Rightarrow> bool" where
  "failure_keeps D \<longleftrightarrow> (\<forall>p n fs fs' e. db_create D p n fs = (fs', Inl e) \<longrightarrow> fs' = fs)"

lemma create_shards_Inl:
  assumes "disk_laws D" and "failure_keeps D" and "create_shards D d is fs = (fs', Inl e)"
    and "distinct (map (shard_path d) is)" and "\<forall>i\<in>set is. fs (shard_path d i) = None"
  shows "\<exists>i\<in>set is. fs' (shard_path d i) = None"
  using assms(3-)
proof (induction "is" arbitrary: fs)
  case (Cons i "is")
  obtain fs1 r where c: "db_create D (shard_path d i) (db_cache_in_mb d) fs = (fs1, r)" by fastforce
  show ?case
  proof (cases r)
    case (Inl e')
    with c assms(2) have "fs1 = fs" unfolding failure_keeps_def by blast
    with Inl c Cons.prems show ?thesis by auto
  next
    case (Inr db)
    with c have fs1: "fs1 = fs(shard_path d i \<mapsto> db)" using disk_lawsD(1)[OF assms(1)] by blast
    have rest: "create_shards D d is fs1 = (fs', Inl e)"
      using Cons.prems(1) c Inr by (cases "create_shards D d is fs1"; cases "snd (create_shards D d is fs1)") auto
    have fresh: "shard_path d i \<notin> shard_path d ` set is" using Cons.prems(2) by simp
    have "\<forall>i'\<in>set is. fs1 (shard_path d i') = None"
    proof
      fix i' assume "i' \<in> set is"
      then have "shard_path d i' \<in> shard_path d ` set is" by (rule imageI)
      then have "shard_path d i' \<noteq> shard_path d i" using fresh by metis
      with Cons.prems(3) \<open>i' \<in> set is\<close> fs1 show "fs1 (shard_path d i') = None" by simp
    qed
    with Cons.IH[OF rest] Cons.prems(2) show ?thesis by auto
  qed
qed simp

lemma build_create_Inl:
  assumes "disk_laws D" and "failure_keeps D" and "build_owned_map_create D out defs fs = (fs', Inl e)"
    and "distinct (map dc_name defs)" and "\<forall>d\<in>set defs. plain_name (dc_name d) \<and> 0 < dc_shards d"
    and "\<forall>d\<in>set defs. \<forall>p\<in>def_paths d. fs p = None"
  shows "\<exists>d\<in>set defs. \<exists>p\<in>def_paths d. fs' p = None"
  using assms(3-)
proof (induction defs arbitrary: out fs)
  case (Cons d defs)
  obtain fs1 r where c: "create_shards D d [0..<dc_shards d] fs = (fs1, r)" by fastforce
  have ok: "validate d = Inr ()" "distinct (map (shard_path d) [0..<dc_shards d])"
    using Cons.prems(3) distinct_shard_paths by (simp_all add: validate_def)
  have free: "\<forall>i\<in>set [0..<dc_shards d]. fs (shard_path d i) = None" using Cons.prems(4) by (simp add: def_paths_def)
  show ?case
  proof (cases r)
    case (Inl e')
    with Cons.prems(1) c ok(1) have "fs' = fs1" by simp
    with create_shards_Inl[OF assms(1,2) _ ok(2) free, of fs1 e'] c Inl show ?thesis by (force simp: def_paths_def)
  next
    case (Inr v)
    with c Cons.prems(1) ok(1) have rest: "build_owned_map_create D (out(dc_name d \<mapsto> v)) defs fs1 = (fs', Inl e)" by simp
    have "fs1 p = None" if d': "d' \<in> set defs" "p \<in> def_paths d'" for d' p
    proof -
      have "def_paths d \<inter> def_paths d' = {}" using paths_disjoint[of d d'] Cons.prems(2,3) d'(1) by force
      moreover have "shard_path d ` set [0..<dc_shards d] = def_paths d" by (simp add: def_paths_def atLeast0LessThan)
      ultimately have "p \<notin> shard_path d ` set [0..<dc_shards d]" using d'(2) by blast
      with create_shards_ok[OF assms(1), of d "[0..<dc_shards d]" fs fs1 v] c Inr ok(2) Cons.prems(4) d' show ?thesis by simp
    qed
    with Cons.IH[OF rest] Cons.prems(2,3) show ?thesis by auto
  qed
qed simp

subsection \<open>Properties\<close>

text \<open>
  C21. What the first start creates the next start opens. When the names of the columns are distinct and
  without a dash, and the first start succeeds in a new directory, then every column has its databases, one
  per shard, and a later start with the same columns opens exactly the same databases, every shard at its
  place.
\<close>

theorem storage_reopens:
  assumes "disk_laws D" and "allocate_cache_mb db_defs (gb * 1024) = Some defs"
    and "distinct (map dc_name defs)" and "\<forall>d\<in>set defs. plain_name (dc_name d)"
    and "\<not> dir_exists dir" and "storage_init D db_defs gb dir = Some (dir', Inr (created, m))"
  shows "created \<and> storage_init D db_defs gb dir' = Some (dir', Inr (False, m)) \<and>
         (\<forall>d\<in>set defs. \<exists>v. fetch_dbs m (dc_name d) = Inr v \<and> length v = dc_shards d \<and>
            (\<forall>j < dc_shards d. dir_files dir' (shard_path d j) = Some (v ! j)))"
proof -
  from assms(2,5,6) obtain fs where
    b: "build_owned_map_create D Map.empty defs (dir_files dir) = (fs, Inr m)" "dir' = \<lparr>dir_exists = True, dir_files = fs\<rparr>" "created"
    by (auto simp: storage_init_def map_sum_eq_Inr split: sum.splits prod.splits)
  from build_create_ok[OF assms(1) b(1) assms(3,4)] have
    m: "\<forall>d\<in>set defs. 0 < dc_shards d \<and> (\<exists>v. m (dc_name d) = Some v \<and> holds fs d v)" "\<forall>n. n \<notin> dc_name ` set defs \<longrightarrow> m n = None" by simp_all
  have h: "\<forall>d\<in>set defs. 0 < dc_shards d \<and> holds fs d (the (m (dc_name d)))" using m(1) by force
  from build_open_ok[OF assms(1,3) this] obtain m' where
    o: "build_owned_map_open D defs fs = Inr m'" "\<forall>d\<in>set defs. m' (dc_name d) = Some (the (m (dc_name d)))"
      "\<forall>n. n \<notin> dc_name ` set defs \<longrightarrow> m' n = None" by blast
  have "m' n = m n" for n
  proof (cases "n \<in> dc_name ` set defs")
    case True
    then obtain d where d: "d \<in> set defs" "n = dc_name d" by blast
    with m(1) obtain v where "m n = Some v" by blast
    with o(2) d show ?thesis by simp
  qed (use o(3) m(2) in simp)
  then have "m' = m" by (rule ext)
  moreover have "\<forall>d\<in>set defs. \<exists>v. fetch_dbs m (dc_name d) = Inr v \<and> length v = dc_shards d \<and>
      (\<forall>j < dc_shards d. fs (shard_path d j) = Some (v ! j))" using m(1) by (force simp: fetch_dbs_def holds_def)
  ultimately show ?thesis using b o(1) assms(2) by (simp add: storage_init_def)
qed

text \<open>
  A first start that fails is never repeated. When the directory was made and the creation of some
  database fails, leaving no file behind, every later start with the same columns finds the directory,
  opens instead of creating, and fails again.
\<close>

theorem failed_creation_blocks:
  assumes "disk_laws D" and "failure_keeps D" and "allocate_cache_mb db_defs (gb * 1024) = Some defs"
    and "distinct (map dc_name defs)" and "\<forall>d\<in>set defs. plain_name (dc_name d) \<and> 0 < dc_shards d"
    and "create_dir D = Inr ()" and "dir = \<lparr>dir_exists = False, dir_files = Map.empty\<rparr>"
    and "storage_init D db_defs gb dir = Some (dir', Inl e)"
  shows "dir_exists dir' \<and> (\<exists>e'. storage_init D db_defs gb dir' = Some (dir', Inl e'))"
proof -
  from assms(3,6-8) obtain fs where
    b: "build_owned_map_create D Map.empty defs Map.empty = (fs, Inl e)" "dir' = \<lparr>dir_exists = True, dir_files = fs\<rparr>"
    by (cases "snd (build_owned_map_create D Map.empty defs Map.empty)") (auto simp: storage_init_def split: prod.splits)
  from build_create_Inl[OF assms(1,2) b(1) assms(4,5)] obtain d j where d: "d \<in> set defs" "j < dc_shards d" "fs (shard_path d j) = None"
    by (auto simp: def_paths_def)
  from disk_lawsD(3)[OF assms(1), of fs "shard_path d j"] d(3) obtain e1 where "db_open D (shard_path d j) fs = Inl e1" by blast
  with d(2) have "Inl e1 \<in> set (open_tasks D fs d)" by (force simp: open_tasks_def)
  with d(1) have "Inl e1 \<in> set (concat (map (open_tasks D fs) defs))" by auto
  from collect_results_Inl[OF this] obtain e2 where "collect_results (concat (map (open_tasks D fs) defs)) = Inl e2" by blast
  then have "build_owned_map_open D defs fs = Inl e2"
    using validate_all_ok[of defs] assms(5) by (simp add: build_owned_map_open_def)
  then show ?thesis using b(2) assms(3) by (simp add: storage_init_def)
qed

text \<open>
  Fewer shards than were created are accepted: a column with several shards is opened with a smaller number of
  at least two, without an error; the databases of the last shards are left out, while values are now
  placed by the smaller number.
\<close>

theorem fewer_shards_accepted:
  assumes "disk_laws D" and "holds fs d v" and "2 \<le> k" and "k < dc_shards d"
  shows "\<exists>m. build_owned_map_open D [d\<lparr>dc_shards := k\<rparr>] fs = Inr m \<and> m (dc_name d) = Some (take k v)"
proof -
  have "holds fs (d\<lparr>dc_shards := k\<rparr>) (take k v)" using assms(2-4) by (auto simp: holds_def shard_suffix_def)
  with build_open_ok[OF assms(1), of "[d\<lparr>dc_shards := k\<rparr>]" fs "\<lambda>_. take k v"] assms(3) show ?thesis by auto
qed

subsection \<open>Witnesses\<close>

text \<open>A disk on which every database is its path; creating a file that is called \<open>b.db\<close> may fail.\<close>

definition demo_disk :: "bool \<Rightarrow> string disk_env" where
  "demo_disk full =
     \<lparr>db_create = (\<lambda>p n fs. if full \<and> p = ''b.db'' then (fs, Inl (Database ''no space'')) else (fs(p \<mapsto> p), Inr p)),
      db_open = (\<lambda>p fs. case fs p of Some d \<Rightarrow> Inr d | None \<Rightarrow> Inl (Database ''not found'')), create_dir = Inr ()\<rparr>"

lemma demo_disk_laws: "disk_laws (demo_disk full)" "failure_keeps (demo_disk full)"
  by (auto simp: disk_laws_def failure_keeps_def demo_disk_def split: if_splits)

definition demo_defs :: "db_def list" where
  "demo_defs = [\<lparr>def_name = ''a'', def_shards = 3, db_cache_weight_or_zero = 0, lru_cache_size_or_zero = 0\<rparr>,
                \<lparr>def_name = ''b'', def_shards = 1, db_cache_weight_or_zero = 0, lru_cache_size_or_zero = 0\<rparr>]"

lemma demo_defs_alloc: "allocate_cache_mb demo_defs (0 * 1024) = Some (map (\<lambda>d. with_cache_new d 0) demo_defs)"
  by (simp add: allocate_cache_mb_def)

theorem storage_reopens_witness:
  "\<exists>dir' m. storage_init (demo_disk False) demo_defs 0 \<lparr>dir_exists = False, dir_files = Map.empty\<rparr> = Some (dir', Inr (True, m)) \<and>
     storage_init (demo_disk False) demo_defs 0 dir' = Some (dir', Inr (False, m)) \<and> (\<exists>v. fetch_dbs m ''a'' = Inr v \<and> length v = 3)"
proof -
  let ?dir = "\<lparr>dir_exists = False, dir_files = Map.empty :: string files\<rparr>"
  have "\<exists>dir' m. storage_init (demo_disk False) demo_defs 0 ?dir = Some (dir', Inr (True, m))"
    using demo_defs_alloc
    by (simp add: storage_init_def demo_disk_def demo_defs_def with_cache_new_def validate_def upt_conv_Cons numeral_eq_Suc)
  then obtain dir' m where r: "storage_init (demo_disk False) demo_defs 0 ?dir = Some (dir', Inr (True, m))" by blast
  from storage_reopens[OF demo_disk_laws(1) demo_defs_alloc _ _ _ r]
  have "storage_init (demo_disk False) demo_defs 0 dir' = Some (dir', Inr (False, m)) \<and> (\<exists>v. fetch_dbs m ''a'' = Inr v \<and> length v = 3)"
    by (auto simp: demo_defs_def with_cache_new_def plain_name_def)
  with r show ?thesis by blast
qed

theorem failed_creation_blocks_witness:
  "\<exists>dir' e e'. storage_init (demo_disk True) demo_defs 0 \<lparr>dir_exists = False, dir_files = Map.empty\<rparr> = Some (dir', Inl e) \<and>
     storage_init (demo_disk True) demo_defs 0 dir' = Some (dir', Inl e')"
proof -
  let ?dir = "\<lparr>dir_exists = False, dir_files = Map.empty :: string files\<rparr>"
  have "\<exists>dir' e. storage_init (demo_disk True) demo_defs 0 ?dir = Some (dir', Inl e)"
    using demo_defs_alloc
    by (simp add: storage_init_def demo_disk_def demo_defs_def with_cache_new_def validate_def upt_conv_Cons numeral_eq_Suc
        db_file_path_def shard_suffix_def)
  then obtain dir' e where r: "storage_init (demo_disk True) demo_defs 0 ?dir = Some (dir', Inl e)" by blast
  from failed_creation_blocks[OF demo_disk_laws demo_defs_alloc _ _ _ refl r]
  have "\<exists>e'. storage_init (demo_disk True) demo_defs 0 dir' = Some (dir', Inl e')"
    by (auto simp: demo_defs_def with_cache_new_def plain_name_def demo_disk_def)
  with r show ?thesis by blast
qed

end
