(* ===== verification/Node_Client.thy ===== *)
theory Node_Client
  imports Bitcoin
begin

section \<open>Asking the node\<close>

text \<open>
  The retries of \<open>redbit/src/retry.rs\<close> and the block requests of \<open>chains/btc/src/rest_client.rs\<close> that use them. A request is a function of the state \<open>'s\<close> of the world outside, which
  it changes, with a result; the answers of the node are parameters. The time between two attempts is
  the number of sleeps.
\<close>

subsection \<open>Retries\<close>

fun retry_loop :: "nat \<Rightarrow> ('s \<Rightarrow> 's \<times> ('e + 'a)) \<Rightarrow> 's \<Rightarrow> nat \<Rightarrow> 's \<times> nat \<times> ('e + 'a)" where
  "retry_loop left op s sleeps =
     (case op s of
        (s', Inr v) \<Rightarrow> (s', sleeps, Inr v)
      | (s', Inl e) \<Rightarrow> if 1 < left then retry_loop (left - 1) op s' (Suc sleeps) else (s', sleeps, Inl e))"

declare retry_loop.simps [simp del]

definition retry_with_delay :: "nat \<Rightarrow> ('s \<Rightarrow> 's \<times> ('e + 'a)) \<Rightarrow> 's \<Rightarrow> ('s \<times> nat \<times> ('e + 'a)) option" where
  "retry_with_delay attempts op s = (if 1 \<le> attempts then Some (retry_loop attempts op s 0) else None)"

subsection \<open>Requests for blocks\<close>

text \<open>\<open>raw\<close> and \<open>height\<close> are the two requests for one hash.\<close>

definition request_block :: "('s \<Rightarrow> 's \<times> (string + bytes)) \<Rightarrow> ('s \<Rightarrow> 's \<times> (string + nat)) \<Rightarrow> 's \<Rightarrow> 's \<times> (string + btc_cbor)" where
  "request_block raw height s =
     (case raw s of
        (s1, Inl e) \<Rightarrow> (s1, Inl e)
      | (s1, Inr b) \<Rightarrow> (case height s1 of (s2, r) \<Rightarrow> (s2, map_sum id (\<lambda>h. \<lparr>cbor_raw = b, cbor_height = h\<rparr>) r)))"

definition get_block_by_hash_str_sync ::
    "('h \<Rightarrow> 's \<Rightarrow> 's \<times> (string + bytes)) \<Rightarrow> ('h \<Rightarrow> 's \<Rightarrow> 's \<times> (string + nat)) \<Rightarrow> 'h \<Rightarrow> 's \<Rightarrow> ('s \<times> nat \<times> (string + btc_cbor)) option" where
  "get_block_by_hash_str_sync raw height h s = retry_with_delay 3 (request_block (raw h) (height h)) s"

text \<open>A block by its height is one request for the hash and one for the bytes.\<close>

definition request_block_at :: "nat \<Rightarrow> ('s \<Rightarrow> 's \<times> (string + 'h)) \<Rightarrow> ('h \<Rightarrow> 's \<Rightarrow> 's \<times> (string + bytes)) \<Rightarrow> 's \<Rightarrow> 's \<times> (string + btc_cbor)" where
  "request_block_at h hash_at raw s =
     (case hash_at s of
        (s1, Inl e) \<Rightarrow> (s1, Inl e)
      | (s1, Inr hash) \<Rightarrow> (case raw hash s1 of (s2, r) \<Rightarrow> (s2, map_sum id (\<lambda>b. \<lparr>cbor_raw = b, cbor_height = h\<rparr>) r)))"

definition get_block_by_height ::
    "(nat \<Rightarrow> 's \<Rightarrow> 's \<times> (string + 'h)) \<Rightarrow> ('h \<Rightarrow> 's \<Rightarrow> 's \<times> (string + bytes)) \<Rightarrow> nat \<Rightarrow> 's \<Rightarrow> ('s \<times> nat \<times> (string + btc_cbor)) option" where
  "get_block_by_height hash_at raw h s = retry_with_delay 3 (request_block_at h (hash_at h) raw) s"

subsection \<open>Lemmas on retries\<close>

text \<open>The attempts one after the other: the state before each of them and its result.\<close>

fun before :: "('s \<Rightarrow> 's \<times> 'r) \<Rightarrow> nat \<Rightarrow> 's \<Rightarrow> 's" where
  "before op 0 s = s"
| "before op (Suc n) s = before op n (fst (op s))"

definition attempt :: "('s \<Rightarrow> 's \<times> 'r) \<Rightarrow> nat \<Rightarrow> 's \<Rightarrow> 'r" where
  "attempt op n s = snd (op (before op n s))"

lemma attempt_simps [simp]: "attempt op 0 s = snd (op s)" "attempt op (Suc n) s = attempt op n (fst (op s))"
  by (simp_all add: attempt_def)

lemma retry_loop_step:
  "op s = (s', Inr v) \<Longrightarrow> retry_loop left op s n = (s', n, Inr v)"
  "op s = (s', Inl e) \<Longrightarrow> retry_loop left op s n = (if 1 < left then retry_loop (left - 1) op s' (Suc n) else (s', n, Inl e))"
  by (simp_all add: retry_loop.simps[of left op s n])

lemma retry_loop_success:
  assumes "k < left" and "\<forall>i<k. \<exists>e. attempt op i s = Inl e" and "attempt op k s = Inr v"
  shows "retry_loop left op s n = (before op (Suc k) s, n + k, Inr v)"
  using assms
proof (induction k arbitrary: left s n)
  case 0
  then obtain s' where "op s = (s', Inr v)" by (cases "op s") auto
  then show ?case by (simp add: retry_loop_step(1))
next
  case (Suc k)
  obtain e s' where e: "op s = (s', Inl e)" using Suc.prems(2)[rule_format, of 0] by (cases "op s") auto
  have "\<forall>i<k. \<exists>e. attempt op i s' = Inl e"
  proof (intro allI impI)
    fix i assume "i < k"
    with Suc.prems(2)[rule_format, of "Suc i"] e show "\<exists>e. attempt op i s' = Inl e" by simp
  qed
  with Suc.IH[of "left - 1" s' "Suc n"] Suc.prems(1,3) e show ?case by (simp add: retry_loop_step(2)[of op s s' e, OF e])
qed

lemma retry_loop_failure:
  assumes "\<forall>i\<le>m. \<exists>e. attempt op i s = Inl e"
  shows "retry_loop (Suc m) op s n = (before op (Suc m) s, n + m, attempt op m s)"
  using assms
proof (induction m arbitrary: s n)
  case 0
  then obtain e s' where "op s = (s', Inl e)" by (cases "op s") auto
  then show ?case by (simp add: retry_loop_step(2))
next
  case (Suc m)
  obtain e s' where e: "op s = (s', Inl e)" using Suc.prems[rule_format, of 0] by (cases "op s") auto
  have "\<forall>i\<le>m. \<exists>e. attempt op i s' = Inl e"
  proof (intro allI impI)
    fix i assume "i \<le> m"
    with Suc.prems[rule_format, of "Suc i"] e show "\<exists>e. attempt op i s' = Inl e" by simp
  qed
  with Suc.IH[of s' "Suc n"] e show ?case by (simp add: retry_loop_step(2)[of op s s' e, OF e])
qed

subsection \<open>Properties\<close>

text \<open>
  Retrying: with at least one attempt allowed, the operation is called until it succeeds, and no more
  often than allowed. The result is the first success among the allowed attempts, with one sleep before
  every further attempt, or, when all of them fail, the error of the last one.
\<close>

theorem retry_first_success:
  assumes "1 \<le> attempts"
  shows "retry_with_delay attempts op s =
           Some (case find (\<lambda>k. \<exists>v. attempt op k s = Inr v) [0..<attempts] of
                   Some k \<Rightarrow> (before op (Suc k) s, k, attempt op k s)
                 | None \<Rightarrow> (before op attempts s, attempts - 1, attempt op (attempts - 1) s))"
proof -
  have Inl_iff: "(\<exists>e. r = Inl e) \<longleftrightarrow> \<not> (\<exists>v. r = Inr v)" for r :: "'b + 'c" by (cases r) auto
  show ?thesis
  proof (cases "find (\<lambda>k. \<exists>v. attempt op k s = Inr v) [0..<attempts]")
    case None
    then have "\<forall>i<attempts. \<exists>e. attempt op i s = Inl e" by (auto simp: find_None_iff Inl_iff)
    with retry_loop_failure[of "attempts - 1" op s 0] None assms show ?thesis by (simp add: retry_with_delay_def)
  next
    case (Some k)
    then have k: "k < attempts" "\<exists>v. attempt op k s = Inr v" "\<forall>i<k. \<exists>e. attempt op i s = Inl e"
      by (auto simp: find_Some_iff Inl_iff)
    with retry_loop_success[OF k(1,3)] Some assms show ?thesis by (auto simp: retry_with_delay_def)
  qed
qed

text \<open>
  A node that cannot be reached looks like a node without the block: when the three attempts to get a block
  by its hash all fail, the provider answers that there is no such block, not that there was an error. A block whose
  parent is asked for at that moment is taken to have no parent.
\<close>

theorem unreachable_is_no_block:
  assumes "\<forall>i\<le>2. \<exists>e. attempt (request_block (raw h) (height h)) i s = Inl e"
    and "get_block_by_hash_str_sync raw height h s = Some (s', sleeps, r)"
  shows "sleeps = 2 \<and> get_processed_block N spk (\<lambda>_. r) h = Some (Inr None)"
proof -
  have "get_block_by_hash_str_sync raw height h s = Some (before (request_block (raw h) (height h)) 3 s, 2, attempt (request_block (raw h) (height h)) 2 s)"
    using retry_loop_failure[OF assms(1), of 0] by (simp add: get_block_by_hash_str_sync_def retry_with_delay_def numeral_eq_Suc)
  with assms have "sleeps = 2" "\<exists>e. r = Inl e" by auto
  then show ?thesis by (auto simp: get_processed_block_def)
qed

subsection \<open>Witnesses\<close>

theorem retry_first_success_witness:
  "retry_with_delay 5 (\<lambda>n. (Suc n, if n < 3 then Inl ''fail'' else Inr n)) 0 = Some (4, 3, Inr 3)"
  using retry_first_success[of 5 "\<lambda>n. (Suc n, if n < 3 then Inl ''fail'' else Inr n)" 0]
  by (simp add: upt_conv_Cons numeral_eq_Suc)

theorem unreachable_is_no_block_witness:
  "\<exists>s' sleeps r. get_block_by_hash_str_sync (\<lambda>_ n. (Suc n, Inl ''timeout'')) (\<lambda>_ n. (Suc n, Inr 7)) (9 :: nat) (0 :: nat) = Some (s', sleeps, r) \<and>
     sleeps = 2 \<and> get_processed_block demo_node (btc_spk_to_address_bytes_or_tag demo_scripts) (\<lambda>_. r) 9 = Some (Inr None)"
proof -
  let ?raw = "\<lambda>(_ :: nat) n. (Suc n, Inl ''timeout'' :: string + bytes)" and ?height = "\<lambda>(_ :: nat) n. (Suc n, Inr 7 :: string + nat)"
  obtain s' sleeps r where g: "get_block_by_hash_str_sync ?raw ?height 9 0 = Some (s', sleeps, r)"
    by (auto simp: get_block_by_hash_str_sync_def retry_with_delay_def) (metis prod_cases3)
  have "\<forall>i\<le>2. \<exists>e. attempt (request_block (?raw 9) (?height 9)) i 0 = Inl e" by (simp add: attempt_def request_block_def)
  from unreachable_is_no_block[OF this g] g show ?thesis by blast
qed

end
