(* ===== verification/Block_Tree.thy ===== *)
theory Block_Tree
  imports Bitcoin
begin

section \<open>Blocks with assets\<close>

text \<open>
  What the block providers of Cardano and Ergo share: the values of their columns, the actions of assets
  (\<open>AssetType\<close> of \<open>chains/cardano/src/lib.rs\<close> and \<open>chains/ergo/src/lib.rs\<close>), and the lemmas by which a block whose
  owned entities are numbered by their position can be stored and read back.
\<close>

datatype chain_value = C_Int nat | C_Bytes bytes

datatype asset_type = Mint | Transfer | Burn

fun asset_code :: "asset_type \<Rightarrow> nat" where
  "asset_code Mint = 0"
| "asset_code Transfer = 1"
| "asset_code Burn = 2"

lemma asset_code_inj: "asset_code a = asset_code b \<longleftrightarrow> a = b"
  by (cases a; cases b) simp_all

subsection \<open>Numbered children\<close>

definition numbered :: "(nat \<Rightarrow> 'x \<Rightarrow> 'y) \<Rightarrow> 'x list \<Rightarrow> 'y list" where
  "numbered f xs = map (\<lambda>(i, x). f i x) (enumerate 0 xs)"

lemma length_numbered [simp]: "length (numbered f xs) = length xs"
  by (simp add: numbered_def)

lemma nth_numbered [simp]: "i < length xs \<Longrightarrow> numbered f xs ! i = f i (xs ! i)"
  by (simp add: numbered_def nth_enumerate_eq)

lemma numbered_cong: "(\<And>i x. i < length xs \<Longrightarrow> x \<in> set xs \<Longrightarrow> f i x = g i x) \<Longrightarrow> numbered f xs = numbered g xs"
  by (rule nth_equalityI) simp_all

lemma map_numbered: "map h (numbered f xs) = numbered (\<lambda>i x. h (f i x)) xs"
  by (rule nth_equalityI) simp_all

lemma numbered_const [simp]: "numbered (\<lambda>i x. f x) xs = map f xs"
  by (rule nth_equalityI) simp_all

lemma those_numbered: "(\<And>i x. i < length xs \<Longrightarrow> x \<in> set xs \<Longrightarrow> f i x = Some (g i x)) \<Longrightarrow> those (numbered f xs) = Some (numbered g xs)"
  unfolding numbered_def by (rule those_map_Some) (auto simp: in_set_enumerate_eq)

lemma numbered_key_ok: "key_ok ty p \<Longrightarrow> Suc i < 256 ^ w \<Longrightarrow> key_ok (Child_Ty ty w) (from_parent p i)"
  by (auto simp: key_ok_def from_parent_def add_index_def)

text \<open>Entities numbered by their position are well formed children, as long as their number is below the range of the index.\<close>

lemma wf_many_numbered:
  assumes "key_ok ty p" and "length xs < 256 ^ w" and "ent_key e = Child_Ty ty w"
    and "\<And>i x. i < length xs \<Longrightarrow> x \<in> set xs \<Longrightarrow> inst_key (f i x) = from_parent p i"
    and "\<And>i x. i < length xs \<Longrightarrow> x \<in> set xs \<Longrightarrow> key_ok (Child_Ty ty w) (from_parent p i) \<Longrightarrow> wf_inst e (f i x)"
  shows "wf_field ty p (E_Many e) (F_Many (numbered f xs))"
proof -
  have "parent (inst_key y) = Some p \<and> wf_inst e y" if "y \<in> set (numbered f xs)" for y
  proof -
    from that obtain i where i: "i < length xs" "y = f i (xs ! i)" by (auto simp: in_set_conv_nth)
    moreover have "key_ok (Child_Ty ty w) (from_parent p i)" using numbered_key_ok[OF assms(1)] i(1) assms(2) by simp
    ultimately show ?thesis using assms(4,5)[of i "xs ! i"] by (simp add: from_parent_def)
  qed
  moreover have "map inst_key (numbered f xs) = map (from_parent p) [0..<length xs]"
    by (rule nth_equalityI) (simp_all add: assms(4))
  then have "sorted_wrt (<) (map inst_key (numbered f xs))" by (simp add: sorted_wrt_map from_parent_def sorted_wrt_upt)
  ultimately show ?thesis by simp
qed

subsection \<open>Storing\<close>

lemma fresh_stored:
  assumes "tables_ok K V kview vview" and "valid kview vview e db" and "wf_inst e i" and "get checks K V e db (inst_key i) = Some (Inr None)"
  shows "\<exists>db'. store K V e db i = (db', Inr ()) \<and> valid kview vview e db' \<and>
           (\<forall>q. get checks K V e db' q = (if q = inst_key i then Some (Inr (Some i)) else get checks K V e db q))"
proof -
  have "lookup kview vview e db (inst_key i) = None" using assms(4) by (simp add: get_ok[OF assms(1,2)])
  with entity.store_law[of K V kview vview e db i] assms(1-3) obtain db' where
    "store K V e db i = (db', Inr ())" "valid kview vview e db'" "lookup kview vview e db' = (lookup kview vview e db)(inst_key i \<mapsto> i)" by auto
  with assms(1,2) show ?thesis by (auto simp: get_ok)
qed

end
