(* ===== verification/Cardano.thy ===== *)
theory Cardano
  imports Block_Tree Sync_Pipeline
begin

section \<open>From Cardano blocks to entities\<close>

text \<open>
  The block provider of Cardano (\<open>chains/cardano/src/block_provider.rs\<close>) with the entities of its \<open>model_v1.rs\<close>. The
  crate pallas is a parameter: \<open>decode\<close> parses the bytes of a block, and the records below hold what the
  provider reads from the parsed block, with the wall clock time of its slot. \<open>any_coin\<close> is a 64-bit amount.
  With \<open>checks\<close> an overflow of the 16-bit index of assets panics, which is \<open>None\<close>; without it the index wraps.
\<close>

subsection \<open>Parsed blocks\<close>

record ca_asset =
  as_coin :: int
  as_is_mint :: bool
  as_name :: bytes

record ca_policy =
  pol_id :: bytes
  pol_assets :: "ca_asset list"

record ca_output =
  co_address :: "bytes option"
  co_script_ref :: "bytes option option"
  co_coin :: nat
  co_policies :: "ca_policy list"

record ca_tx =
  ct_hash :: bytes
  ct_inputs :: "(bytes \<times> nat) list"
  ct_outputs :: "ca_output list"

record ca_block =
  cb_epoch_boundary :: bool
  cb_number :: nat
  cb_hash :: bytes
  cb_previous_hash :: "bytes option"
  cb_slot :: nat
  cb_wallclock :: nat
  cb_txs :: "ca_tx list"

subsection \<open>Entities\<close>

record cardano_asset =
  ca_asset_id :: pointer
  ca_asset_amount :: nat
  ca_asset_name :: bytes
  ca_policy_id :: bytes
  ca_asset_action :: nat

record cardano_utxo =
  ca_utxo_id :: pointer
  ca_amount :: nat
  ca_address :: bytes
  ca_script_hash :: bytes
  ca_assets :: "cardano_asset list"

record cardano_tx =
  ca_tx_id :: pointer
  ca_tx_hash :: bytes
  ca_utxos :: "cardano_utxo list"
  ca_input_refs :: "bytes input_ref list"

record cardano_header =
  ca_height :: pointer
  ca_timestamp :: nat
  ca_slot :: nat
  ca_hash :: bytes
  ca_prev_hash :: bytes
  ca_weight :: nat

record cardano_block =
  ca_block_height :: pointer
  ca_header :: cardano_header
  ca_transactions :: "cardano_tx list"

subsection \<open>Processing\<close>

definition inc_u16 :: "bool \<Rightarrow> nat \<Rightarrow> nat option" where
  "inc_u16 checks i = (if i + 1 < 2 ^ 16 then Some (i + 1) else if checks then None else Some 0)"

definition asset_action :: "ca_asset \<Rightarrow> asset_type" where
  "asset_action a = (if as_is_mint a then Mint else if as_coin a < 0 then Burn else Transfer)"

definition cardano_asset_of :: "pointer \<Rightarrow> nat \<Rightarrow> bytes \<Rightarrow> ca_asset \<Rightarrow> cardano_asset" where
  "cardano_asset_of utxo_pointer idx policy_id a =
     \<lparr>ca_asset_id = from_parent utxo_pointer idx, ca_asset_amount = nat \<bar>as_coin a\<bar> mod 2 ^ 64, ca_asset_name = as_name a,
      ca_policy_id = policy_id, ca_asset_action = asset_code (asset_action a)\<rparr>"

fun push_assets :: "bool \<Rightarrow> pointer \<Rightarrow> bytes \<Rightarrow> ca_asset list \<Rightarrow> cardano_asset list \<times> nat \<Rightarrow> (cardano_asset list \<times> nat) option" where
  "push_assets checks utxo_pointer policy_id [] st = Some st"
| "push_assets checks utxo_pointer policy_id (a # as) (result_assets, idx) =
     (case inc_u16 checks idx of
        None \<Rightarrow> None
      | Some idx1 \<Rightarrow> push_assets checks utxo_pointer policy_id as (result_assets @ [cardano_asset_of utxo_pointer idx policy_id a], idx1))"

text \<open>A policy whose identifier has not 28 bytes is left out.\<close>

fun push_policies :: "bool \<Rightarrow> pointer \<Rightarrow> ca_policy list \<Rightarrow> cardano_asset list \<times> nat \<Rightarrow> (cardano_asset list \<times> nat) option" where
  "push_policies checks utxo_pointer [] st = Some st"
| "push_policies checks utxo_pointer (pol # pols) st =
     (if length (pol_id pol) \<noteq> 28 then push_policies checks utxo_pointer pols st
      else (case push_assets checks utxo_pointer (pol_id pol) (pol_assets pol) st of
              None \<Rightarrow> None
            | Some st1 \<Rightarrow> push_policies checks utxo_pointer pols st1))"

definition cardano_process_output :: "bool \<Rightarrow> pointer \<Rightarrow> nat \<Rightarrow> ca_output \<Rightarrow> cardano_utxo option" where
  "cardano_process_output checks tx_pointer out_index out =
     (let utxo_pointer = from_parent tx_pointer (out_index mod 2 ^ 16) in do {
        (result_assets, _) \<leftarrow> push_policies checks utxo_pointer (co_policies out) ([], 0);
        Some \<lparr>ca_utxo_id = utxo_pointer, ca_amount = co_coin out, ca_address = (case co_address out of Some a \<Rightarrow> a | None \<Rightarrow> []),
              ca_script_hash = (case co_script_ref out of Some (Some s) \<Rightarrow> s | _ \<Rightarrow> []), ca_assets = result_assets\<rparr>
      })"

definition cardano_process_outputs :: "bool \<Rightarrow> ca_output list \<Rightarrow> pointer \<Rightarrow> (nat \<times> cardano_utxo list) option" where
  "cardano_process_outputs checks outs tx_pointer =
     map_option (\<lambda>result_outs. ((\<Sum>u\<leftarrow>result_outs. length (ca_assets u)) + length result_outs, result_outs))
       (those (numbered (cardano_process_output checks tx_pointer) outs))"

definition cardano_process_inputs :: "(bytes \<times> nat) list \<Rightarrow> bytes input_ref list" where
  "cardano_process_inputs txins = map (\<lambda>(h, i). \<lparr>ref_hash = h, ref_index = i mod 2 ^ 16\<rparr>) txins"

definition cardano_process_tx :: "bool \<Rightarrow> pointer \<Rightarrow> nat \<Rightarrow> ca_tx \<Rightarrow> (nat \<times> cardano_tx) option" where
  "cardano_process_tx checks height tx_index tx =
     (let tx_id = from_parent height (tx_index mod 2 ^ 16); input_refs = cardano_process_inputs (ct_inputs tx) in do {
        (box_weight, outputs) \<leftarrow> cardano_process_outputs checks (ct_outputs tx) tx_id;
        Some (box_weight + length input_refs + 1, \<lparr>ca_tx_id = tx_id, ca_tx_hash = ct_hash tx, ca_utxos = outputs, ca_input_refs = input_refs\<rparr>)
      })"

definition cardano_process_block :: "bool \<Rightarrow> (bytes \<Rightarrow> string + ca_block) \<Rightarrow> bytes \<Rightarrow> cardano_block cres option" where
  "cardano_process_block checks decode cbor =
     (case decode cbor of
        Inl e \<Rightarrow> Some (Inl (chain_error_new (''Cardano pallas traverse error: '' @ e)))
      | Inr b \<Rightarrow>
          if cb_epoch_boundary b
          then Some (Inl (chain_error_new (''Skipping Byron epoch boundary block '' @ show_uint (cb_number b))))
          else
            let height = Root (cb_number b mod 2 ^ 32) in do {
              txs \<leftarrow> those (numbered (cardano_process_tx checks height) (cb_txs b));
              Some (Inr
                \<lparr>ca_block_height = height,
                 ca_header = \<lparr>ca_height = height, ca_timestamp = cb_wallclock b mod 2 ^ 32, ca_slot = cb_slot b mod 2 ^ 32, ca_hash = cb_hash b,
                              ca_prev_hash = (case cb_previous_hash b of Some h \<Rightarrow> h | None \<Rightarrow> replicate 32 0),
                              ca_weight = (25 + sum_list (map fst txs)) mod 2 ^ 32\<rparr>,
                 ca_transactions = map snd txs\<rparr>)
            })"

definition cardano_get_processed_block :: "bytes \<Rightarrow> cardano_block option cres" where
  "cardano_get_processed_block h = Inr None"

definition cardano_get_chain_tip :: "bool \<Rightarrow> (bytes \<Rightarrow> string + ca_block) \<Rightarrow> chain_error + bytes \<Rightarrow> cardano_header cres option" where
  "cardano_get_chain_tip checks decode best =
     (case best of
        Inl e \<Rightarrow> Some (Inl e)
      | Inr block \<Rightarrow> map_option (map_sum id ca_header) (cardano_process_block checks decode block))"

subsection \<open>The stream of blocks\<close>

text \<open>
  The events of the loop of \<open>block_stream\<close>: the shutdown, or the answer of the node to the request for the
  next block. \<open>send_ok n\<close> says whether the channel takes a batch after \<open>n\<close> sent ones.
\<close>

datatype 'f chainsync_event = Shutdown_Event | RollForward 'f | RollBackward | Await | Next_Failed

fun chainsync_loop :: "('f \<Rightarrow> usize) \<Rightarrow> (nat \<Rightarrow> bool) \<Rightarrow> 'f size_batcher \<Rightarrow> 'f list list \<Rightarrow> 'f chainsync_event list \<Rightarrow> 'f list list" where
  "chainsync_loop size_of send_ok s sent [] = sent"
| "chainsync_loop size_of send_ok s sent (RollForward f # es) =
     (case sb_push size_of s f of
        (Some b, s1) \<Rightarrow> if send_ok (length sent) then chainsync_loop size_of send_ok s1 (sent @ [b]) es else sent
      | (None, s1) \<Rightarrow> chainsync_loop size_of send_ok s1 sent es)"
| "chainsync_loop size_of send_ok s sent (RollBackward # es) = chainsync_loop size_of send_ok s sent es"
| "chainsync_loop size_of send_ok s sent (_ # es) =
     (case take_all s of
        (Some tail, _) \<Rightarrow> if send_ok (length sent) then sent @ [tail] else sent
      | (None, _) \<Rightarrow> sent)"

definition cardano_block_stream ::
    "bool \<Rightarrow> bool \<Rightarrow> ('f \<Rightarrow> usize) \<Rightarrow> (nat \<Rightarrow> bool) \<Rightarrow> usize \<Rightarrow> bool \<Rightarrow> 'f chainsync_event list \<Rightarrow> 'f list list option" where
  "cardano_block_stream connected intersected size_of send_ok max_entity_buffer_kb batch es =
     (if \<not> connected \<or> \<not> intersected then Some []
      else do {
        s \<leftarrow> size_batcher_from_kb (max max_entity_buffer_kb 256 div 64) (\<not> batch);
        Some (chainsync_loop size_of send_ok s [] es)
      })"

subsection \<open>The stored entities\<close>

definition cardano_ent_asset :: ent where
  "cardano_ent_asset = Ent False (Child_Ty (Child_Ty (Child_Ty (Root_Ty 4) 2) 2) 2) [E_Value, E_Value, E_Value, E_Value]"

definition cardano_ent_utxo :: ent where
  "cardano_ent_utxo = Ent False (Child_Ty (Child_Ty (Root_Ty 4) 2) 2) [E_Value, E_Value, E_Value, E_Many cardano_ent_asset]"

text \<open>The inputs are written by the hook, and the transient fields are not stored.\<close>

definition cardano_ent_transaction :: ent where
  "cardano_ent_transaction = Ent False (Child_Ty (Root_Ty 4) 2) [E_Value, E_Many cardano_ent_utxo]"

definition cardano_ent_header :: ent where
  "cardano_ent_header = Ent False (Root_Ty 4) [E_Value, E_Value, E_Value, E_Value]"

definition cardano_ent_block :: ent where
  "cardano_ent_block = Ent True (Root_Ty 4) [E_One cardano_ent_header, E_Many cardano_ent_transaction]"

lemmas cardano_ents = cardano_ent_asset_def cardano_ent_utxo_def cardano_ent_transaction_def cardano_ent_header_def cardano_ent_block_def

definition cardano_asset_inst :: "cardano_asset \<Rightarrow> chain_value einst" where
  "cardano_asset_inst a =
     Einst (ca_asset_id a) [F_Value (C_Int (ca_asset_amount a)), F_Value (C_Int (ca_asset_action a)), F_Value (C_Bytes (ca_asset_name a)), F_Value (C_Bytes (ca_policy_id a))]"

definition cardano_utxo_inst :: "cardano_utxo \<Rightarrow> chain_value einst" where
  "cardano_utxo_inst u =
     Einst (ca_utxo_id u) [F_Value (C_Int (ca_amount u)), F_Value (C_Bytes (ca_script_hash u)), F_Value (C_Bytes (ca_address u)), F_Many (map cardano_asset_inst (ca_assets u))]"

definition cardano_tx_inst :: "cardano_tx \<Rightarrow> chain_value einst" where
  "cardano_tx_inst t = Einst (ca_tx_id t) [F_Value (C_Bytes (ca_tx_hash t)), F_Many (map cardano_utxo_inst (ca_utxos t))]"

definition cardano_header_inst :: "cardano_header \<Rightarrow> chain_value einst" where
  "cardano_header_inst h =
     Einst (ca_height h) [F_Value (C_Bytes (ca_hash h)), F_Value (C_Bytes (ca_prev_hash h)), F_Value (C_Int (ca_slot h)), F_Value (C_Int (ca_timestamp h))]"

definition cardano_block_inst :: "cardano_block \<Rightarrow> chain_value einst" where
  "cardano_block_inst b = Einst (ca_block_height b) [F_One (cardano_header_inst (ca_header b)), F_Many (map cardano_tx_inst (ca_transactions b))]"

subsection \<open>The reference\<close>

text \<open>The assets of an output that are kept, each with its policy.\<close>

definition kept_assets :: "ca_policy list \<Rightarrow> (bytes \<times> ca_asset) list" where
  "kept_assets pols = concat (map (\<lambda>pol. map (Pair (pol_id pol)) (pol_assets pol)) (filter (\<lambda>pol. length (pol_id pol) = 28) pols))"

definition ref_utxo :: "pointer \<Rightarrow> nat \<Rightarrow> ca_output \<Rightarrow> cardano_utxo" where
  "ref_utxo p i out =
     \<lparr>ca_utxo_id = from_parent p i, ca_amount = co_coin out, ca_address = (case co_address out of Some a \<Rightarrow> a | None \<Rightarrow> []),
      ca_script_hash = (case co_script_ref out of Some (Some s) \<Rightarrow> s | _ \<Rightarrow> []),
      ca_assets = numbered (\<lambda>j (pid, a). cardano_asset_of (from_parent p i) j pid a) (kept_assets (co_policies out))\<rparr>"

definition ref_tx :: "pointer \<Rightarrow> nat \<Rightarrow> ca_tx \<Rightarrow> cardano_tx" where
  "ref_tx p i tx = \<lparr>ca_tx_id = from_parent p i, ca_tx_hash = ct_hash tx, ca_utxos = numbered (ref_utxo (from_parent p i)) (ct_outputs tx),
                    ca_input_refs = cardano_process_inputs (ct_inputs tx)\<rparr>"

definition tx_weight :: "ca_tx \<Rightarrow> nat" where
  "tx_weight tx = (\<Sum>out\<leftarrow>ct_outputs tx. length (kept_assets (co_policies out)) + 1) + length (ct_inputs tx) + 1"

text \<open>Blocks whose numbers of transactions, outputs and assets fit their 16-bit indexes.\<close>

definition fits_indexes :: "ca_block \<Rightarrow> bool" where
  "fits_indexes b \<longleftrightarrow> length (cb_txs b) < 2 ^ 16 \<and>
     (\<forall>tx\<in>set (cb_txs b). length (ct_outputs tx) < 2 ^ 16 \<and> (\<forall>out\<in>set (ct_outputs tx). length (kept_assets (co_policies out)) < 2 ^ 16))"

subsection \<open>Lemmas\<close>

lemma push_assets_ok:
  "idx + length as < 2 ^ 16 \<Longrightarrow>
     push_assets checks p pid as (acc, idx) = Some (acc @ map (\<lambda>(i, a). cardano_asset_of p i pid a) (enumerate idx as), idx + length as)"
  by (induction as arbitrary: acc idx) (simp_all add: inc_u16_def)

lemma enumerate_tagged: "map (\<lambda>(i, pid, a). g i pid a) (enumerate n (map (Pair q) xs)) = map (\<lambda>(i, a). g i q a) (enumerate n xs)"
  by (induction xs arbitrary: n) simp_all

lemma sum_list_Suc: "(\<Sum>x\<leftarrow>xs. Suc (f x)) = (\<Sum>x\<leftarrow>xs. f x) + length xs"
  by (induction xs) simp_all

lemma push_policies_ok:
  "idx + length (kept_assets pols) < 2 ^ 16 \<Longrightarrow>
     push_policies checks p pols (acc, idx) =
       Some (acc @ map (\<lambda>(i, pid, a). cardano_asset_of p i pid a) (enumerate idx (kept_assets pols)), idx + length (kept_assets pols))"
proof (induction pols arbitrary: acc idx)
  case (Cons pol pols)
  show ?case
  proof (cases "length (pol_id pol) = 28")
    case True
    then have "kept_assets (pol # pols) = map (Pair (pol_id pol)) (pol_assets pol) @ kept_assets pols" by (simp add: kept_assets_def)
    with True Cons.prems Cons.IH[of "idx + length (pol_assets pol)"] show ?thesis
      by (simp add: push_assets_ok enumerate_append_eq enumerate_tagged)
  next
    case False
    then have "kept_assets (pol # pols) = kept_assets pols" by (simp add: kept_assets_def)
    with False Cons show ?thesis by simp
  qed
qed (simp add: kept_assets_def)

lemma process_output_ok:
  assumes "i < 2 ^ 16" and "length (kept_assets (co_policies out)) < 2 ^ 16"
  shows "cardano_process_output checks p i out = Some (ref_utxo p i out)"
  using push_policies_ok[of 0 "co_policies out" checks "from_parent p i" "[]"] assms
  by (simp add: cardano_process_output_def ref_utxo_def numbered_def Let_def case_prod_unfold)

lemma process_tx_ok:
  assumes "i < 2 ^ 16" and "length (ct_outputs tx) < 2 ^ 16" and "\<forall>out\<in>set (ct_outputs tx). length (kept_assets (co_policies out)) < 2 ^ 16"
  shows "cardano_process_tx checks p i tx = Some (tx_weight tx, ref_tx p i tx)"
proof -
  let ?q = "from_parent p i"
  have "those (numbered (cardano_process_output checks ?q) (ct_outputs tx)) = Some (numbered (ref_utxo ?q) (ct_outputs tx))"
    by (rule those_numbered) (use assms in \<open>simp add: process_output_ok\<close>)
  moreover have "(\<Sum>u\<leftarrow>numbered (ref_utxo ?q) outs. length (ca_assets u)) = (\<Sum>out\<leftarrow>outs. length (kept_assets (co_policies out)))" for outs
    by (simp add: map_numbered ref_utxo_def)
  ultimately show ?thesis using assms(1)
    by (simp add: cardano_process_tx_def cardano_process_outputs_def ref_tx_def tx_weight_def cardano_process_inputs_def sum_list_Suc Let_def)
qed

lemma cardano_processed:
  assumes "decode cbor = Inr b" and "\<not> cb_epoch_boundary b" and "fits_indexes b"
  shows "\<exists>blk. cardano_process_block checks decode cbor = Some (Inr blk) \<and> ca_block_height blk = Root (cb_number b mod 2 ^ 32) \<and>
           ca_height (ca_header blk) = Root (cb_number b mod 2 ^ 32) \<and>
           ca_transactions blk = numbered (ref_tx (Root (cb_number b mod 2 ^ 32))) (cb_txs b) \<and>
           ca_weight (ca_header blk) = (25 + (\<Sum>tx\<leftarrow>cb_txs b. tx_weight tx)) mod 2 ^ 32"
proof -
  let ?h = "Root (cb_number b mod 2 ^ 32)"
  have "those (numbered (cardano_process_tx checks ?h) (cb_txs b)) = Some (numbered (\<lambda>i tx. (tx_weight tx, ref_tx ?h i tx)) (cb_txs b))"
    by (rule those_numbered) (use assms(3) in \<open>simp add: fits_indexes_def process_tx_ok\<close>)
  then show ?thesis by (simp add: cardano_process_block_def assms(1,2) Let_def map_numbered)
qed

text \<open>Numbered entities are well formed, level by level.\<close>

lemma cardano_utxo_wf:
  assumes "key_ok (Child_Ty (Child_Ty (Root_Ty 4) 2) 2) (from_parent p i)" and "length (kept_assets (co_policies out)) < 2 ^ 16"
  shows "wf_inst cardano_ent_utxo (cardano_utxo_inst (ref_utxo p i out))"
proof -
  have "wf_field (Child_Ty (Child_Ty (Root_Ty 4) 2) 2) (from_parent p i) (E_Many cardano_ent_asset)
      (F_Many (numbered (\<lambda>j x. cardano_asset_inst (case x of (pid, a) \<Rightarrow> cardano_asset_of (from_parent p i) j pid a)) (kept_assets (co_policies out))))"
    by (rule wf_many_numbered[OF assms(1)])
      (use assms(2) in \<open>auto simp: cardano_ents cardano_asset_inst_def cardano_asset_of_def split: prod.split\<close>)
  with assms(1) show ?thesis by (simp add: cardano_ent_utxo_def cardano_utxo_inst_def ref_utxo_def map_numbered)
qed

lemma cardano_tx_wf:
  assumes "key_ok (Child_Ty (Root_Ty 4) 2) (from_parent p i)" and "length (ct_outputs tx) < 2 ^ 16"
    and "\<forall>out\<in>set (ct_outputs tx). length (kept_assets (co_policies out)) < 2 ^ 16"
  shows "wf_inst cardano_ent_transaction (cardano_tx_inst (ref_tx p i tx))"
proof -
  have "wf_field (Child_Ty (Root_Ty 4) 2) (from_parent p i) (E_Many cardano_ent_utxo)
      (F_Many (numbered (\<lambda>j out. cardano_utxo_inst (ref_utxo (from_parent p i) j out)) (ct_outputs tx)))"
  proof (rule wf_many_numbered[OF assms(1)])
    show "wf_inst cardano_ent_utxo (cardano_utxo_inst (ref_utxo (from_parent p i) j out))"
      if "out \<in> set (ct_outputs tx)" "key_ok (Child_Ty (Child_Ty (Root_Ty 4) 2) 2) (from_parent (from_parent p i) j)" for j out
      using cardano_utxo_wf[OF that(2)] assms(3) that(1) by blast
  qed (use assms(2) in \<open>simp_all add: cardano_ent_utxo_def cardano_utxo_inst_def ref_utxo_def\<close>)
  with assms(1) show ?thesis by (simp add: cardano_ent_transaction_def cardano_tx_inst_def ref_tx_def map_numbered)
qed

lemma cardano_block_wf:
  assumes "fits_indexes b" and "cb_number b < 2 ^ 32 - 1" and "ca_block_height blk = Root (cb_number b)" and "ca_height (ca_header blk) = Root (cb_number b)"
    and "ca_transactions blk = numbered (ref_tx (Root (cb_number b))) (cb_txs b)"
  shows "wf_inst cardano_ent_block (cardano_block_inst blk)"
proof -
  have root: "key_ok (Root_Ty 4) (Root (cb_number b))" using assms(2) by (rule root_key_ok)
  have "wf_field (Root_Ty 4) (Root (cb_number b)) (E_Many cardano_ent_transaction)
      (F_Many (numbered (\<lambda>i tx. cardano_tx_inst (ref_tx (Root (cb_number b)) i tx)) (cb_txs b)))"
  proof (rule wf_many_numbered[OF root])
    show "wf_inst cardano_ent_transaction (cardano_tx_inst (ref_tx (Root (cb_number b)) i tx))"
      if "tx \<in> set (cb_txs b)" "key_ok (Child_Ty (Root_Ty 4) 2) (from_parent (Root (cb_number b)) i)" for i tx
      using cardano_tx_wf[OF that(2)] assms(1) that(1) unfolding fits_indexes_def by blast
  qed (use assms(1) in \<open>simp_all add: fits_indexes_def cardano_ent_transaction_def cardano_tx_inst_def ref_tx_def\<close>)
  with root assms(3-5) show ?thesis
    by (simp add: cardano_ent_block_def cardano_ent_header_def cardano_block_inst_def cardano_header_inst_def map_numbered)
qed

text \<open>The stream of Cardano is the fetching loop on the blocks that the node rolls forward.\<close>

fun fetch_events :: "'f chainsync_event list \<Rightarrow> 'f fetch_event list" where
  "fetch_events [] = []"
| "fetch_events (RollForward f # es) = Fetched f # fetch_events es"
| "fetch_events (RollBackward # es) = fetch_events es"
| "fetch_events (Shutdown_Event # es) = [Fetch_Shutdown]"
| "fetch_events (_ # es) = [Fetch_End]"

lemma chainsync_loop_fetch: "chainsync_loop size_of send_ok s sent es = fetch_loop size_of send_ok s sent (fetch_events es)"
  by (induction es arbitrary: s sent rule: fetch_events.induct) (simp_all split: prod.split option.split)

fun forwarded :: "'f chainsync_event list \<Rightarrow> 'f list" where
  "forwarded [] = []"
| "forwarded (RollForward f # es) = f # forwarded es"
| "forwarded (_ # es) = forwarded es"

lemma fetch_events_forwarded:
  "\<forall>e\<in>set es. e = RollBackward \<or> (\<exists>f. e = RollForward f) \<Longrightarrow> fetch_events (es @ [Await]) = map Fetched (forwarded es) @ [Fetch_End]"
  by (induction es rule: fetch_events.induct) auto

subsection \<open>Properties\<close>


text \<open>
  C1. The stream of Cardano ignores rollbacks. Until the node has no further block, with an open channel, the batches that
  \<open>block_stream\<close> sends, joined, are all the blocks that the node rolled forward, those included that it has rolled
  back.
\<close>

theorem rollbacks_ignored:
  assumes "\<forall>e\<in>set es. e = RollBackward \<or> (\<exists>f. e = RollForward f)" and "max kb 256 div 64 * 1024 < usize_max"
    and "\<forall>f\<in>set (forwarded es). size_of f \<le> usize_max"
  shows "\<exists>bs. cardano_block_stream True True size_of (\<lambda>_. True) kb batch (es @ [Await]) = Some bs \<and> concat bs = forwarded es \<and> [] \<notin> set bs"
proof -
  have "cardano_block_stream True True size_of (\<lambda>_. True) kb batch (es @ [Await]) =
      fetch_task size_of (\<lambda>_. True) kb batch (map Fetched (forwarded es) @ [Fetch_End])"
    by (simp add: cardano_block_stream_def fetch_task_def stream_batch_kb_def chainsync_loop_fetch fetch_events_forwarded[OF assms(1)])
  with fetch_task_complete[of kb "forwarded es" size_of batch] assms(2,3) show ?thesis by (auto simp: stream_batch_kb_def)
qed

subsection \<open>Witnesses\<close>

definition demo_cardano :: ca_block where
  "demo_cardano =
     \<lparr>cb_epoch_boundary = False, cb_number = 7, cb_hash = [1], cb_previous_hash = None, cb_slot = 9, cb_wallclock = 100,
      cb_txs = [\<lparr>ct_hash = [2], ct_inputs = [([3], 0)],
        ct_outputs = [\<lparr>co_address = None, co_script_ref = None, co_coin = 5,
          co_policies = [\<lparr>pol_id = [0], pol_assets = [\<lparr>as_coin = 1, as_is_mint = False, as_name = [8]\<rparr>]\<rparr>,
                         \<lparr>pol_id = replicate 28 4, pol_assets = [\<lparr>as_coin = 2, as_is_mint = False, as_name = [9]\<rparr>]\<rparr>]\<rparr>]\<rparr>]\<rparr>"

abbreviation chain_vals :: "((pointer \<times> chain_value) list, pointer, chain_value) table_ops" where
  "chain_vals \<equiv> alist_table_ops"

lemma chain_tables: "tables_ok demo_keys chain_vals map_of map_of"
  by (simp add: tables_ok_def alist_table_ok)

definition cardano_empty :: "((pointer \<times> unit) list, (pointer \<times> chain_value) list) edb" where
  "cardano_empty =
     Edb [] [Sub (Edb [] [Tab [], Tab [], Tab [], Tab []]),
             Sub (Edb [] [Tab [], Sub (Edb [] [Tab [], Tab [], Tab [], Sub (Edb [] [Tab [], Tab [], Tab [], Tab []])])])]"

lemma cardano_empty_valid: "valid map_of map_of cardano_ent_block cardano_empty"
  by (simp add: cardano_ents cardano_empty_def)


theorem rollbacks_ignored_witness:
  "\<exists>bs. cardano_block_stream True True length (\<lambda>_. True) 512 True ([RollForward [1 :: u8], RollForward [2], RollBackward, RollForward [3]] @ [Await]) = Some bs \<and>
     concat bs = [[1], [2], [3]]"
  using rollbacks_ignored[of "[RollForward [1 :: u8], RollForward [2], RollBackward, RollForward [3]]" 512 length True] by auto

end
