(* ===== verification/Ergo.thy ===== *)
theory Ergo
  imports Cardano
begin

section \<open>From Ergo blocks to entities\<close>

text \<open>
  The block provider of Ergo (\<open>chains/ergo/src/block_provider.rs\<close>) with the entities of its \<open>model_v1.rs\<close>. The crates
  ergo-lib and serde_json are parameters: \<open>from_slice\<close> parses the JSON of a block, \<open>encode_address\<close> encodes
  an address, and the records below hold what the provider reads from the parsed block. A box identifier that has not 32
  bytes makes the \<open>unwrap\<close> of its conversion panic, which is \<open>None\<close>.
\<close>

subsection \<open>Parsed blocks\<close>

datatype ergo_address = P2S bytes | P2PK bytes | P2SH bytes

record ergo_box =
  eb_box_id :: bytes
  eb_template_bytes :: "bytes option"
  eb_recreated_address :: "ergo_address option"
  eb_tree_bytes :: "bytes option"
  eb_value :: nat
  eb_tokens :: "(bytes \<times> nat) list option"

record ergo_ext_tx =
  et_id :: bytes
  et_inputs :: "bytes list"
  et_outputs :: "ergo_box list"

record ergo_ext_block =
  eh_id :: bytes
  eh_parent_id :: bytes
  eh_height :: nat
  eh_timestamp :: nat
  eh_transactions :: "ergo_ext_tx list"

subsection \<open>Entities\<close>

record ergo_asset =
  ea_id :: pointer
  ea_name :: bytes
  ea_amount :: nat
  ea_action :: nat

record ergo_utxo =
  eu_id :: pointer
  eu_assets :: "ergo_asset list"
  eu_address :: bytes
  eu_amount :: nat
  eu_box_id :: bytes
  eu_tree :: bytes
  eu_tree_template :: bytes

record ergo_tx =
  ex_id :: pointer
  ex_hash :: bytes
  ex_utxos :: "ergo_utxo list"
  ex_input_refs :: "bytes list"

record ergo_header =
  er_height :: pointer
  er_timestamp :: nat
  er_hash :: bytes
  er_prev_hash :: bytes
  er_weight :: nat

record ergo_block =
  eb_height :: pointer
  eb_header :: ergo_header
  eb_transactions :: "ergo_tx list"

subsection \<open>Processing\<close>

definition box_id_of :: "bytes \<Rightarrow> bytes option" where
  "box_id_of b = (if length b = 32 then Some b else None)"

text \<open>A token counts as minted when its identifier is that of the first output of the transaction.\<close>

definition ergo_asset_of :: "bytes \<Rightarrow> pointer \<Rightarrow> nat \<Rightarrow> bytes \<times> nat \<Rightarrow> ergo_asset" where
  "ergo_asset_of new_token_id utxo_pointer index tok =
     (case tok of (token_id, amount) \<Rightarrow>
        \<lparr>ea_id = from_parent utxo_pointer (index mod 2 ^ 8), ea_name = token_id, ea_amount = amount,
         ea_action = asset_code (if new_token_id = token_id then Mint else Transfer)\<rparr>)"

definition ergo_tree_of :: "ergo_box \<Rightarrow> bytes option" where
  "ergo_tree_of out = (case eb_recreated_address out of Some (P2S sigma_bytes) \<Rightarrow> Some sigma_bytes | _ \<Rightarrow> eb_tree_bytes out)"

definition bytes_or_default :: "bytes option \<Rightarrow> bytes" where
  "bytes_or_default b = (case b of Some x \<Rightarrow> x | None \<Rightarrow> [])"

definition ergo_process_output :: "(ergo_address \<Rightarrow> bytes) \<Rightarrow> ergo_box list \<Rightarrow> pointer \<Rightarrow> nat \<Rightarrow> ergo_box \<Rightarrow> ergo_utxo option" where
  "ergo_process_output encode_address outs tx_pointer out_index out =
     do {
       box_id \<leftarrow> box_id_of (eb_box_id out);
       let utxo_pointer = from_parent tx_pointer (out_index mod 2 ^ 16);
       Some \<lparr>eu_id = utxo_pointer,
             eu_assets = (case eb_tokens out of Some tokens \<Rightarrow> numbered (ergo_asset_of (eb_box_id (hd outs)) utxo_pointer) tokens | None \<Rightarrow> []),
             eu_address = bytes_or_default (map_option encode_address (eb_recreated_address out)), eu_amount = eb_value out, eu_box_id = box_id,
             eu_tree = bytes_or_default (ergo_tree_of out), eu_tree_template = bytes_or_default (eb_template_bytes out)\<rparr>
     }"

definition ergo_process_outputs :: "(ergo_address \<Rightarrow> bytes) \<Rightarrow> ergo_box list \<Rightarrow> pointer \<Rightarrow> (nat \<times> ergo_utxo list) option" where
  "ergo_process_outputs encode_address outs tx_pointer =
     map_option (\<lambda>result_outs. ((\<Sum>u\<leftarrow>result_outs. length (eu_assets u)) + length result_outs, result_outs))
       (those (numbered (ergo_process_output encode_address outs tx_pointer) outs))"

definition ergo_process_tx :: "(ergo_address \<Rightarrow> bytes) \<Rightarrow> pointer \<Rightarrow> nat \<Rightarrow> ergo_ext_tx \<Rightarrow> (nat \<times> ergo_tx) option" where
  "ergo_process_tx encode_address height tx_index tx =
     (let tx_id = from_parent height (tx_index mod 2 ^ 16) in do {
        (outs_weight, outputs) \<leftarrow> ergo_process_outputs encode_address (et_outputs tx) tx_id;
        inputs \<leftarrow> those (map box_id_of (et_inputs tx));
        Some (outs_weight + length (et_inputs tx) + 1, \<lparr>ex_id = tx_id, ex_hash = et_id tx, ex_utxos = outputs, ex_input_refs = inputs\<rparr>)
      })"

definition ergo_process_block :: "(ergo_address \<Rightarrow> bytes) \<Rightarrow> (bytes \<Rightarrow> string + ergo_ext_block) \<Rightarrow> bytes \<Rightarrow> ergo_block cres option" where
  "ergo_process_block encode_address from_slice cbor =
     (case from_slice cbor of
        Inl e \<Rightarrow> Some (Inl (chain_error_new (''Failed to parse block CBOR: '' @ e)))
      | Inr b \<Rightarrow>
          let height = Root (eh_height b) in do {
            txs \<leftarrow> those (numbered (ergo_process_tx encode_address height) (eh_transactions b));
            Some (Inr
              \<lparr>eb_height = height,
               eb_header = \<lparr>er_height = height, er_timestamp = eh_timestamp b div 1000 mod 2 ^ 32, er_hash = eh_id b, er_prev_hash = eh_parent_id b,
                            er_weight = (6 + sum_list (map fst txs)) mod 2 ^ 32\<rparr>,
               eb_transactions = map snd txs\<rparr>)
          })"

definition ergo_get_processed_block ::
    "(ergo_address \<Rightarrow> bytes) \<Rightarrow> (bytes \<Rightarrow> string + ergo_ext_block) \<Rightarrow> (bytes \<Rightarrow> string + bytes) \<Rightarrow> bytes \<Rightarrow> ergo_block option cres option" where
  "ergo_get_processed_block encode_address from_slice by_hash h =
     (case by_hash h of
        Inr block \<Rightarrow> map_option (map_sum id Some) (ergo_process_block encode_address from_slice block)
      | Inl _ \<Rightarrow> Some (Inr None))"

definition ergo_get_chain_tip ::
    "(ergo_address \<Rightarrow> bytes) \<Rightarrow> (bytes \<Rightarrow> string + ergo_ext_block) \<Rightarrow> chain_error + bytes \<Rightarrow> ergo_header cres option" where
  "ergo_get_chain_tip encode_address from_slice best =
     (case best of
        Inl e \<Rightarrow> Some (Inl e)
      | Inr block \<Rightarrow> map_option (map_sum id eb_header) (ergo_process_block encode_address from_slice block))"

subsection \<open>The stored entities\<close>

definition ergo_ent_asset :: ent where
  "ergo_ent_asset = Ent False (Child_Ty (Child_Ty (Child_Ty (Root_Ty 4) 2) 2) 1) [E_Value, E_Value, E_Value]"

definition ergo_ent_utxo :: ent where
  "ergo_ent_utxo = Ent False (Child_Ty (Child_Ty (Root_Ty 4) 2) 2) [E_Value, E_Value, E_Value, E_Value, E_Value, E_Many ergo_ent_asset]"

definition ergo_ent_transaction :: ent where
  "ergo_ent_transaction = Ent False (Child_Ty (Root_Ty 4) 2) [E_Value, E_Many ergo_ent_utxo]"

definition ergo_ent_header :: ent where
  "ergo_ent_header = Ent False (Root_Ty 4) [E_Value, E_Value, E_Value]"

definition ergo_ent_block :: ent where
  "ergo_ent_block = Ent True (Root_Ty 4) [E_One ergo_ent_header, E_Many ergo_ent_transaction]"

lemmas ergo_ents = ergo_ent_asset_def ergo_ent_utxo_def ergo_ent_transaction_def ergo_ent_header_def ergo_ent_block_def

definition ergo_asset_inst :: "ergo_asset \<Rightarrow> chain_value einst" where
  "ergo_asset_inst a = Einst (ea_id a) [F_Value (C_Int (ea_amount a)), F_Value (C_Int (ea_action a)), F_Value (C_Bytes (ea_name a))]"

definition ergo_utxo_inst :: "ergo_utxo \<Rightarrow> chain_value einst" where
  "ergo_utxo_inst u =
     Einst (eu_id u) [F_Value (C_Int (eu_amount u)), F_Value (C_Bytes (eu_box_id u)), F_Value (C_Bytes (eu_address u)), F_Value (C_Bytes (eu_tree u)),
                      F_Value (C_Bytes (eu_tree_template u)), F_Many (map ergo_asset_inst (eu_assets u))]"

definition ergo_tx_inst :: "ergo_tx \<Rightarrow> chain_value einst" where
  "ergo_tx_inst t = Einst (ex_id t) [F_Value (C_Bytes (ex_hash t)), F_Many (map ergo_utxo_inst (ex_utxos t))]"

definition ergo_header_inst :: "ergo_header \<Rightarrow> chain_value einst" where
  "ergo_header_inst h = Einst (er_height h) [F_Value (C_Bytes (er_hash h)), F_Value (C_Bytes (er_prev_hash h)), F_Value (C_Int (er_timestamp h))]"

definition ergo_block_inst :: "ergo_block \<Rightarrow> chain_value einst" where
  "ergo_block_inst b = Einst (eb_height b) [F_One (ergo_header_inst (eb_header b)), F_Many (map ergo_tx_inst (eb_transactions b))]"

subsection \<open>The reference\<close>

abbreviation box_tokens :: "ergo_box \<Rightarrow> (bytes \<times> nat) list" where
  "box_tokens out \<equiv> (case eb_tokens out of Some tokens \<Rightarrow> tokens | None \<Rightarrow> [])"

definition ergo_ref_utxo :: "(ergo_address \<Rightarrow> bytes) \<Rightarrow> bytes \<Rightarrow> pointer \<Rightarrow> nat \<Rightarrow> ergo_box \<Rightarrow> ergo_utxo" where
  "ergo_ref_utxo encode_address first p i out =
     \<lparr>eu_id = from_parent p i, eu_assets = numbered (ergo_asset_of first (from_parent p i)) (box_tokens out),
      eu_address = bytes_or_default (map_option encode_address (eb_recreated_address out)), eu_amount = eb_value out, eu_box_id = eb_box_id out,
      eu_tree = bytes_or_default (ergo_tree_of out), eu_tree_template = bytes_or_default (eb_template_bytes out)\<rparr>"

definition ergo_ref_tx :: "(ergo_address \<Rightarrow> bytes) \<Rightarrow> pointer \<Rightarrow> nat \<Rightarrow> ergo_ext_tx \<Rightarrow> ergo_tx" where
  "ergo_ref_tx encode_address p i tx =
     \<lparr>ex_id = from_parent p i, ex_hash = et_id tx,
      ex_utxos = numbered (ergo_ref_utxo encode_address (eb_box_id (hd (et_outputs tx))) (from_parent p i)) (et_outputs tx), ex_input_refs = et_inputs tx\<rparr>"

definition ergo_tx_weight :: "ergo_ext_tx \<Rightarrow> nat" where
  "ergo_tx_weight tx = (\<Sum>out\<leftarrow>et_outputs tx. length (box_tokens out) + 1) + length (et_inputs tx) + 1"

text \<open>
  Transactions as ergo-lib parses them: box identifiers of 32 bytes and fewer tokens than a byte counts, at
  positions that fit their indexes.
\<close>

definition ergo_box_ok :: "ergo_box \<Rightarrow> bool" where
  "ergo_box_ok out \<longleftrightarrow> length (eb_box_id out) = 32 \<and> length (box_tokens out) < 2 ^ 8"

definition ergo_tx_ok :: "ergo_ext_tx \<Rightarrow> bool" where
  "ergo_tx_ok tx \<longleftrightarrow> length (et_outputs tx) < 2 ^ 16 \<and> (\<forall>out\<in>set (et_outputs tx). ergo_box_ok out) \<and> (\<forall>i\<in>set (et_inputs tx). length i = 32)"

subsection \<open>Lemmas\<close>

lemma ergo_process_output_ok:
  assumes "i < 2 ^ 16" and "ergo_box_ok out"
  shows "ergo_process_output enc outs p i out = Some (ergo_ref_utxo enc (eb_box_id (hd outs)) p i out)"
  using assms by (simp add: ergo_process_output_def ergo_ref_utxo_def ergo_box_ok_def box_id_of_def numbered_def Let_def split: option.split)

lemma ergo_process_tx_ok:
  assumes "i < 2 ^ 16" and "ergo_tx_ok tx"
  shows "ergo_process_tx enc p i tx = Some (ergo_tx_weight tx, ergo_ref_tx enc p i tx)"
proof -
  let ?q = "from_parent p i" and ?first = "eb_box_id (hd (et_outputs tx))"
  have "those (numbered (ergo_process_output enc (et_outputs tx) ?q) (et_outputs tx)) = Some (numbered (ergo_ref_utxo enc ?first ?q) (et_outputs tx))"
    by (rule those_numbered) (use assms in \<open>simp add: ergo_process_output_ok ergo_tx_ok_def\<close>)
  moreover have "(\<Sum>u\<leftarrow>numbered (ergo_ref_utxo enc ?first ?q) outs. length (eu_assets u)) = (\<Sum>out\<leftarrow>outs. length (box_tokens out))" for outs
    by (simp add: map_numbered ergo_ref_utxo_def)
  moreover have "those (map box_id_of (et_inputs tx)) = Some (et_inputs tx)"
    using those_map_Some[of "et_inputs tx" box_id_of id] assms(2) by (simp add: box_id_of_def ergo_tx_ok_def)
  ultimately show ?thesis using assms(1)
    by (simp add: ergo_process_tx_def ergo_process_outputs_def ergo_ref_tx_def ergo_tx_weight_def sum_list_Suc Let_def)
qed

lemma ergo_utxo_wf:
  assumes "key_ok (Child_Ty (Child_Ty (Root_Ty 4) 2) 2) (from_parent p i)" and "ergo_box_ok out"
  shows "wf_inst ergo_ent_utxo (ergo_utxo_inst (ergo_ref_utxo enc first p i out))"
proof -
  have "wf_field (Child_Ty (Child_Ty (Root_Ty 4) 2) 2) (from_parent p i) (E_Many ergo_ent_asset)
      (F_Many (numbered (\<lambda>j x. ergo_asset_inst (ergo_asset_of first (from_parent p i) j x)) (box_tokens out)))"
    by (rule wf_many_numbered[OF assms(1)])
      (use assms(2) in \<open>simp_all add: ergo_box_ok_def ergo_ent_asset_def ergo_asset_inst_def ergo_asset_of_def split: prod.split\<close>)
  with assms(1) show ?thesis by (simp add: ergo_ent_utxo_def ergo_utxo_inst_def ergo_ref_utxo_def map_numbered)
qed

lemma ergo_tx_wf:
  assumes "key_ok (Child_Ty (Root_Ty 4) 2) (from_parent p i)" and "ergo_tx_ok tx"
  shows "wf_inst ergo_ent_transaction (ergo_tx_inst (ergo_ref_tx enc p i tx))"
proof -
  let ?first = "eb_box_id (hd (et_outputs tx))"
  have "wf_field (Child_Ty (Root_Ty 4) 2) (from_parent p i) (E_Many ergo_ent_utxo)
      (F_Many (numbered (\<lambda>j out. ergo_utxo_inst (ergo_ref_utxo enc ?first (from_parent p i) j out)) (et_outputs tx)))"
  proof (rule wf_many_numbered[OF assms(1)])
    show "wf_inst ergo_ent_utxo (ergo_utxo_inst (ergo_ref_utxo enc ?first (from_parent p i) j out))"
      if "out \<in> set (et_outputs tx)" "key_ok (Child_Ty (Child_Ty (Root_Ty 4) 2) 2) (from_parent (from_parent p i) j)" for j out
      using ergo_utxo_wf[OF that(2)] assms(2) that(1) unfolding ergo_tx_ok_def by blast
  qed (use assms(2) in \<open>simp_all add: ergo_tx_ok_def ergo_ent_utxo_def ergo_utxo_inst_def ergo_ref_utxo_def\<close>)
  with assms(1) show ?thesis by (simp add: ergo_ent_transaction_def ergo_tx_inst_def ergo_ref_tx_def map_numbered)
qed

lemma ergo_processed:
  assumes "from_slice cbor = Inr b" and "length (eh_transactions b) < 2 ^ 16" and "\<forall>tx\<in>set (eh_transactions b). ergo_tx_ok tx"
  shows "\<exists>blk. ergo_process_block enc from_slice cbor = Some (Inr blk) \<and> eb_height blk = Root (eh_height b) \<and> er_height (eb_header blk) = Root (eh_height b) \<and>
           eb_transactions blk = numbered (ergo_ref_tx enc (Root (eh_height b))) (eh_transactions b) \<and>
           er_weight (eb_header blk) = (6 + (\<Sum>tx\<leftarrow>eh_transactions b. ergo_tx_weight tx)) mod 2 ^ 32"
proof -
  let ?h = "Root (eh_height b)"
  have "those (numbered (ergo_process_tx enc ?h) (eh_transactions b)) = Some (numbered (\<lambda>i tx. (ergo_tx_weight tx, ergo_ref_tx enc ?h i tx)) (eh_transactions b))"
    by (rule those_numbered) (use assms(2,3) in \<open>simp add: ergo_process_tx_ok\<close>)
  then show ?thesis by (simp add: ergo_process_block_def assms(1) Let_def map_numbered)
qed

lemma ergo_block_wf:
  assumes "eh_height b < 2 ^ 32 - 1" and "length (eh_transactions b) < 2 ^ 16" and "\<forall>tx\<in>set (eh_transactions b). ergo_tx_ok tx"
    and "eb_height blk = Root (eh_height b)" and "er_height (eb_header blk) = Root (eh_height b)"
    and "eb_transactions blk = numbered (ergo_ref_tx enc (Root (eh_height b))) (eh_transactions b)"
  shows "wf_inst ergo_ent_block (ergo_block_inst blk)"
proof -
  have root: "key_ok (Root_Ty 4) (Root (eh_height b))" using assms(1) by (rule root_key_ok)
  have "wf_field (Root_Ty 4) (Root (eh_height b)) (E_Many ergo_ent_transaction)
      (F_Many (numbered (\<lambda>i tx. ergo_tx_inst (ergo_ref_tx enc (Root (eh_height b)) i tx)) (eh_transactions b)))"
  proof (rule wf_many_numbered[OF root])
    show "wf_inst ergo_ent_transaction (ergo_tx_inst (ergo_ref_tx enc (Root (eh_height b)) i tx))"
      if "tx \<in> set (eh_transactions b)" "key_ok (Child_Ty (Root_Ty 4) 2) (from_parent (Root (eh_height b)) i)" for i tx
      using ergo_tx_wf[OF that(2)] assms(3) that(1) by blast
  qed (use assms(2) in \<open>simp_all add: ergo_ent_transaction_def ergo_tx_inst_def ergo_ref_tx_def\<close>)
  with root assms(4-6) show ?thesis
    by (simp add: ergo_ent_block_def ergo_ent_header_def ergo_block_inst_def ergo_header_inst_def map_numbered)
qed

subsection \<open>Properties\<close>

text \<open>
  An Ergo block becomes a stored block: for transactions as ergo-lib parses them processing does not panic,
  storing under a fresh height succeeds and reading the height gives exactly the processed block. Its outputs and tokens
  are those of the raw block in order; a token is recorded as minted exactly when its identifier is the identifier of the
  first output of its transaction, and never as burned.
\<close>

theorem ergo_block_stored:
  assumes "from_slice cbor = Inr b" and "eh_height b < 2 ^ 32 - 1" and "length (eh_transactions b) < 2 ^ 16"
    and "\<forall>tx\<in>set (eh_transactions b). ergo_tx_ok tx"
    and "tables_ok K V kview vview" and "valid kview vview ergo_ent_block db"
    and "get checks K V ergo_ent_block db (Root (eh_height b)) = Some (Inr None)"
  shows "\<exists>blk db'. ergo_process_block enc from_slice cbor = Some (Inr blk) \<and>
           store K V ergo_ent_block db (ergo_block_inst blk) = (db', Inr ()) \<and> valid kview vview ergo_ent_block db' \<and>
           (\<forall>q. get checks K V ergo_ent_block db' q =
              (if q = Root (eh_height b) then Some (Inr (Some (ergo_block_inst blk))) else get checks K V ergo_ent_block db q)) \<and>
           map (\<lambda>t. map (\<lambda>u. (eu_box_id u, map (\<lambda>a. (ea_name a, ea_amount a, ea_action a)) (eu_assets u))) (ex_utxos t)) (eb_transactions blk) =
             map (\<lambda>tx. map (\<lambda>out. (eb_box_id out,
                    map (\<lambda>(token, amount). (token, amount, asset_code (if token = eb_box_id (hd (et_outputs tx)) then Mint else Transfer))) (box_tokens out)))
                  (et_outputs tx)) (eh_transactions b) \<and>
           er_weight (eb_header blk) = (6 + (\<Sum>tx\<leftarrow>eh_transactions b. ergo_tx_weight tx)) mod 2 ^ 32"
proof -
  from ergo_processed[of from_slice cbor b enc, OF assms(1,3,4)] obtain blk where
    blk: "ergo_process_block enc from_slice cbor = Some (Inr blk)" "eb_height blk = Root (eh_height b)" "er_height (eb_header blk) = Root (eh_height b)"
      "eb_transactions blk = numbered (ergo_ref_tx enc (Root (eh_height b))) (eh_transactions b)"
      "er_weight (eb_header blk) = (6 + (\<Sum>tx\<leftarrow>eh_transactions b. ergo_tx_weight tx)) mod 2 ^ 32" by blast
  have wf: "wf_inst ergo_ent_block (ergo_block_inst blk)" by (rule ergo_block_wf[OF assms(2-4) blk(2-4)])
  have pk: "inst_key (ergo_block_inst blk) = Root (eh_height b)" by (simp add: ergo_block_inst_def blk(2))
  from fresh_stored[OF assms(5,6) wf, of checks] assms(7) pk obtain db' where
    "store K V ergo_ent_block db (ergo_block_inst blk) = (db', Inr ())" "valid kview vview ergo_ent_block db'"
    "\<forall>q. get checks K V ergo_ent_block db' q = (if q = Root (eh_height b) then Some (Inr (Some (ergo_block_inst blk))) else get checks K V ergo_ent_block db q)"
    by auto
  moreover have "map (\<lambda>t. map (\<lambda>u. (eu_box_id u, map (\<lambda>a. (ea_name a, ea_amount a, ea_action a)) (eu_assets u))) (ex_utxos t)) (eb_transactions blk) =
      map (\<lambda>tx. map (\<lambda>out. (eb_box_id out,
             map (\<lambda>(token, amount). (token, amount, asset_code (if token = eb_box_id (hd (et_outputs tx)) then Mint else Transfer))) (box_tokens out)))
           (et_outputs tx)) (eh_transactions b)"
    by (simp add: blk(4) map_numbered ergo_ref_tx_def ergo_ref_utxo_def ergo_asset_of_def case_prod_unfold eq_commute[of "eb_box_id _"])
  ultimately show ?thesis using blk(1,5) by blast
qed

subsection \<open>Witness\<close>

definition demo_ergo :: ergo_ext_block where
  "demo_ergo =
     \<lparr>eh_id = [1], eh_parent_id = [2], eh_height = 7, eh_timestamp = 5000,
      eh_transactions = [\<lparr>et_id = [3], et_inputs = [replicate 32 4],
        et_outputs = [\<lparr>eb_box_id = replicate 32 5, eb_template_bytes = None, eb_recreated_address = None, eb_tree_bytes = None, eb_value = 6,
                       eb_tokens = Some [(replicate 32 4, 9)]\<rparr>]\<rparr>]\<rparr>"

definition ergo_empty :: "((pointer \<times> unit) list, (pointer \<times> chain_value) list) edb" where
  "ergo_empty =
     Edb [] [Sub (Edb [] [Tab [], Tab [], Tab []]),
             Sub (Edb [] [Tab [], Sub (Edb [] [Tab [], Tab [], Tab [], Tab [], Tab [], Sub (Edb [] [Tab [], Tab [], Tab []])])])]"

lemma ergo_empty_valid: "valid map_of map_of ergo_ent_block ergo_empty"
  by (simp add: ergo_ents ergo_empty_def)

text \<open>The token of the example has the identifier of the first input, as a minted token has, and is recorded as transferred.\<close>

theorem ergo_block_stored_witness:
  "\<exists>blk db'. ergo_process_block (\<lambda>_. []) (\<lambda>_. Inr demo_ergo) [] = Some (Inr blk) \<and>
     store demo_keys chain_vals ergo_ent_block ergo_empty (ergo_block_inst blk) = (db', Inr ()) \<and>
     get True demo_keys chain_vals ergo_ent_block db' (Root 7) = Some (Inr (Some (ergo_block_inst blk))) \<and>
     map (\<lambda>t. map (\<lambda>u. map ea_action (eu_assets u)) (ex_utxos t)) (eb_transactions blk) = [[[asset_code Transfer]]]"
proof -
  have ok: "eh_height demo_ergo < 2 ^ 32 - 1" "length (eh_transactions demo_ergo) < 2 ^ 16" "\<forall>tx\<in>set (eh_transactions demo_ergo). ergo_tx_ok tx"
    by (simp_all add: demo_ergo_def ergo_tx_ok_def ergo_box_ok_def)
  have n: "eh_height demo_ergo = 7" by (simp add: demo_ergo_def)
  have "get True demo_keys chain_vals ergo_ent_block ergo_empty (Root (eh_height demo_ergo)) = Some (Inr None)"
    by (simp add: get_def get_with_def ergo_empty_def alist_table_ops_def)
  from ergo_block_stored[of "\<lambda>_. Inr demo_ergo" "[]" demo_ergo, OF refl ok chain_tables ergo_empty_valid this] obtain blk db' where
    r: "ergo_process_block (\<lambda>_. []) (\<lambda>_. Inr demo_ergo) [] = Some (Inr blk)" "store demo_keys chain_vals ergo_ent_block ergo_empty (ergo_block_inst blk) = (db', Inr ())"
      "get True demo_keys chain_vals ergo_ent_block db' (Root 7) = Some (Inr (Some (ergo_block_inst blk)))"
    and m: "map (\<lambda>t. map (\<lambda>u. (eu_box_id u, map (\<lambda>a. (ea_name a, ea_amount a, ea_action a)) (eu_assets u))) (ex_utxos t)) (eb_transactions blk) =
        [[(replicate 32 5, [(replicate 32 4, 9, asset_code Transfer)])]]"
    by (fastforce simp: n demo_ergo_def)
  have "map (\<lambda>t. map (\<lambda>u. map ea_action (eu_assets u)) (ex_utxos t)) (eb_transactions blk) =
      map (map (\<lambda>x. map (\<lambda>y. snd (snd y)) (snd x)))
        (map (\<lambda>t. map (\<lambda>u. (eu_box_id u, map (\<lambda>a. (ea_name a, ea_amount a, ea_action a)) (eu_assets u))) (ex_utxos t)) (eb_transactions blk))"
    by (simp add: o_def)
  with r m show ?thesis by auto
qed

end
