(* ===== verification/Names.thy ===== *)
theory Names
  imports Prelude "HOL-Library.Sublist"
begin

section \<open>Identifiers and their spelling\<close>

text \<open>
  What the macros and the settings do with names: \<open>to_lowercase\<close> and \<open>to_uppercase\<close> on ASCII text, and the
  characters that an identifier of Rust is made of. Identifiers with letters outside ASCII and raw
  identifiers (\<open>r#\<dots>\<close>) are not considered.
\<close>

definition ascii_lower :: "char \<Rightarrow> char" where
  "ascii_lower c = (if 65 \<le> (of_char c :: nat) \<and> of_char c \<le> (90 :: nat) then char_of (of_char c + 32 :: nat) else c)"

definition ascii_upper :: "char \<Rightarrow> char" where
  "ascii_upper c = (if 97 \<le> (of_char c :: nat) \<and> of_char c \<le> (122 :: nat) then char_of (of_char c - 32 :: nat) else c)"

definition to_lowercase :: "string \<Rightarrow> string" where
  "to_lowercase s = map ascii_lower s"

definition to_uppercase :: "string \<Rightarrow> string" where
  "to_uppercase s = map ascii_upper s"

definition ident_char :: "char \<Rightarrow> bool" where
  "ident_char c \<longleftrightarrow> (let n = (of_char c :: nat) in 48 \<le> n \<and> n \<le> 57 \<or> 65 \<le> n \<and> n \<le> 90 \<or> n = 95 \<or> 97 \<le> n \<and> n \<le> 122)"

definition rust_ident :: "string \<Rightarrow> bool" where
  "rust_ident s \<longleftrightarrow> s \<noteq> [] \<and> list_all ident_char s"

subsection \<open>Case\<close>

lemma lower_of_upper [simp]: "ascii_lower (ascii_upper c) = ascii_lower c"
proof (cases "97 \<le> (of_char c :: nat) \<and> of_char c \<le> (122 :: nat)")
  case True
  then have "of_char c - 32 < (256 :: nat)" by linarith
  then have "(of_char c - 32) mod 256 = (of_char c - 32 :: nat)" by (rule mod_less)
  with True have "(of_char (ascii_upper c) :: nat) = of_char c - 32" by (simp add: ascii_upper_def)
  moreover have "(of_char c :: nat) - 32 + 32 = of_char c" "65 \<le> (of_char c :: nat) - 32" "(of_char c :: nat) - 32 \<le> 90"
    using True by linarith+
  ultimately show ?thesis using True by (simp add: ascii_lower_def)
next
  case False
  then have "ascii_upper c = c" by (auto simp: ascii_upper_def)
  then show ?thesis by simp
qed

lemma to_lowercase_upper [simp]: "to_lowercase (to_uppercase s) = to_lowercase s"
  by (simp add: to_lowercase_def to_uppercase_def)

lemma to_lowercase_append [simp]: "to_lowercase (s @ t) = to_lowercase s @ to_lowercase t"
  by (simp add: to_lowercase_def)

lemma to_uppercase_append [simp]: "to_uppercase (s @ t) = to_uppercase s @ to_uppercase t"
  by (simp add: to_uppercase_def)

lemma to_lowercase_Cons [simp]: "to_lowercase (c # s) = ascii_lower c # to_lowercase s" "to_lowercase [] = []"
  by (simp_all add: to_lowercase_def)

lemma ascii_lower_letters [simp]:
  "ascii_lower (CHR ''_'') = CHR ''_''" "ascii_lower (CHR ''A'') = CHR ''a''" "ascii_lower (CHR ''B'') = CHR ''b''"
  "ascii_lower (CHR ''C'') = CHR ''c''" "ascii_lower (CHR ''D'') = CHR ''d''" "ascii_lower (CHR ''E'') = CHR ''e''"
  "ascii_lower (CHR ''F'') = CHR ''f''" "ascii_lower (CHR ''G'') = CHR ''g''" "ascii_lower (CHR ''H'') = CHR ''h''"
  "ascii_lower (CHR ''I'') = CHR ''i''" "ascii_lower (CHR ''J'') = CHR ''j''" "ascii_lower (CHR ''K'') = CHR ''k''"
  "ascii_lower (CHR ''L'') = CHR ''l''" "ascii_lower (CHR ''M'') = CHR ''m''" "ascii_lower (CHR ''N'') = CHR ''n''"
  "ascii_lower (CHR ''O'') = CHR ''o''" "ascii_lower (CHR ''P'') = CHR ''p''" "ascii_lower (CHR ''Q'') = CHR ''q''"
  "ascii_lower (CHR ''R'') = CHR ''r''" "ascii_lower (CHR ''S'') = CHR ''s''" "ascii_lower (CHR ''T'') = CHR ''t''"
  "ascii_lower (CHR ''U'') = CHR ''u''" "ascii_lower (CHR ''V'') = CHR ''v''" "ascii_lower (CHR ''W'') = CHR ''w''"
  "ascii_lower (CHR ''X'') = CHR ''x''" "ascii_lower (CHR ''Y'') = CHR ''y''" "ascii_lower (CHR ''Z'') = CHR ''z''"
  by code_simp+

lemma ident_char_lower: "ident_char c \<Longrightarrow> ident_char (ascii_lower c)"
  by (auto simp: ident_char_def ascii_lower_def Let_def)

lemma rust_ident_lower: "rust_ident s \<Longrightarrow> rust_ident (to_lowercase s)"
  by (auto simp: rust_ident_def to_lowercase_def list_all_iff ident_char_lower)

lemma rust_ident_append: "rust_ident s \<Longrightarrow> list_all ident_char t \<Longrightarrow> rust_ident (s @ t)"
  by (simp add: rust_ident_def)

lemma not_ident_char:
  "\<not> ident_char (CHR ''/'')" "\<not> ident_char (CHR ''-'')" "\<not> ident_char (CHR ''{'')" "\<not> ident_char (CHR ''}'')"
  by (simp_all add: ident_char_def)

lemma rust_ident_notin: "rust_ident s \<Longrightarrow> \<not> ident_char c \<Longrightarrow> c \<notin> set s"
  by (auto simp: rust_ident_def list_all_iff)

subsection \<open>Separators\<close>

text \<open>A separator that occurs in neither of two prefixes ends both at the same place.\<close>

lemma append_sep_eq:
  assumes "s @ c # t = s' @ c # t'" and "c \<notin> set s" and "c \<notin> set s'"
  shows "s = s' \<and> t = t'"
  using assms by (induction s arbitrary: s') (auto simp: Cons_eq_append_conv append_eq_Cons_conv split: list.splits)

lemma suffix_same_length: "suffix s t \<Longrightarrow> suffix s' t \<Longrightarrow> length s \<le> length s' \<Longrightarrow> suffix s s'"
  by (rule suffix_length_suffix)

end
