(* ===== verification/Launcher.thy ===== *)
theory Launcher
  imports Column_Query Sync_Pipeline Names
begin

section \<open>Starting a node\<close>

text \<open>
  The start of a chain (\<open>chain/src/launcher.rs\<close>) and its periodic synchronisation (\<open>chain/src/scheduler.rs\<close>). Configuration,
  storage, chain and synchroniser are the parameter \<open>launch_env\<close>; what a start does is the list of its
  steps with its result. A signal that arrives during the initial synchronisation is \<open>le_signalled\<close>.

  On a start with an existing database the first header that does not link to its successor is handed to the
  synchroniser as the last persisted one. The blocks above it are fetched again and stored over those that are there: what that
  leaves behind is the second part of the theory.
\<close>

subsection \<open>Settings\<close>

text \<open>
  The settings that are given as a share of the machine (\<open>chain/src/settings.rs\<close>): \<open>cpus\<close> is its number of processors, \<open>memory\<close> its
  memory in bytes.
\<close>

datatype ratio = Ratio_Off | Ratio_Tiny | Ratio_Low | Ratio_Mild | Ratio_High | Ratio_Ultra

definition ratio_from_str :: "string \<Rightarrow> string + ratio" where
  "ratio_from_str s =
     (let t = to_lowercase s in
        if t = ''off'' then Inr Ratio_Off
        else if t = ''tiny'' then Inr Ratio_Tiny
        else if t = ''low'' then Inr Ratio_Low
        else if t = ''mild'' then Inr Ratio_Mild
        else if t = ''high'' then Inr Ratio_High
        else if t = ''ultra'' then Inr Ratio_Ultra
        else Inl (''Invalid value for Parallelism: '' @ s))"

fun ratio_cpus :: "nat \<Rightarrow> ratio \<Rightarrow> nat" where
  "ratio_cpus cpus Ratio_Off = 1"
| "ratio_cpus cpus Ratio_Tiny = cpus div 16"
| "ratio_cpus cpus Ratio_Low = cpus div 8"
| "ratio_cpus cpus Ratio_Mild = cpus div 4"
| "ratio_cpus cpus Ratio_High = cpus div 2"
| "ratio_cpus cpus Ratio_Ultra = cpus"

definition parallelism_with_ratio :: "nat \<Rightarrow> ratio \<Rightarrow> nat" where
  "parallelism_with_ratio cpus r = max 1 (ratio_cpus cpus r)"

fun ram_ratio :: "ratio \<Rightarrow> nat" where
  "ram_ratio Ratio_Off = 0"
| "ram_ratio Ratio_Tiny = 64"
| "ram_ratio Ratio_Low = 32"
| "ram_ratio Ratio_Mild = 16"
| "ram_ratio Ratio_High = 8"
| "ram_ratio Ratio_Ultra = 4"

definition db_cache_with_ratio :: "nat \<Rightarrow> ratio \<Rightarrow> nat" where
  "db_cache_with_ratio memory r =
     (if ram_ratio r = 0 then 0
      else
        let total_gib = memory div (1024 * 1024 * 1024); target = total_gib div ram_ratio r; floor_gib = max (total_gib div 64) 1; gib = max target floor_gib
        in if gib > 255 then 255 else gib)"

text \<open>A machine-relative setting is positive, within the machine or one, and the cache fits its byte.\<close>

lemma settings_bounds:
  "1 \<le> parallelism_with_ratio cpus r" "parallelism_with_ratio cpus r \<le> max 1 cpus"
  "db_cache_with_ratio memory r \<le> 255" "db_cache_with_ratio memory r = 0 \<longleftrightarrow> r = Ratio_Off"
proof -
  show "1 \<le> parallelism_with_ratio cpus r" by (simp add: parallelism_with_ratio_def)
  have "ratio_cpus cpus r \<le> max 1 cpus" by (cases r) (simp_all add: le_max_iff_disj)
  then show "parallelism_with_ratio cpus r \<le> max 1 cpus" by (simp add: parallelism_with_ratio_def)
  have *: "db_cache_with_ratio memory r = (if ram_ratio r = 0 then 0 else min 255 (max (memory div (1024 * 1024 * 1024) div ram_ratio r) (max (memory div (1024 * 1024 * 1024) div 64) 1)))"
    unfolding db_cache_with_ratio_def Let_def min_def by simp
  show "db_cache_with_ratio memory r \<le> 255" unfolding * by simp
  have "0 < min 255 (max a (max b (1 :: nat)))" for a b by (simp add: less_max_iff_disj)
  moreover have "ram_ratio r = 0 \<longleftrightarrow> r = Ratio_Off" by (cases r) simp_all
  ultimately show "db_cache_with_ratio memory r = 0 \<longleftrightarrow> r = Ratio_Off" unfolding * by (metis less_irrefl)
qed

subsection \<open>Steps\<close>

datatype 'hd launch_step = L_Init | L_Validate nat | L_Sync "'hd option" | L_Serve | L_Teardown

record 'hd launch_env =
  le_config :: "indexer_settings cres"
  le_http_enable :: bool
  le_storage :: "bool cres"
  le_init :: "unit cres"
  le_validate :: "nat \<Rightarrow> 'hd list cres"
  le_sync :: "'hd option \<Rightarrow> unit cres"
  le_signalled :: bool

datatype flow = Flow_Continue | Flow_Stop

definition run_initial_sync_phase :: "'hd launch_env \<Rightarrow> indexer_settings \<Rightarrow> 'hd option \<Rightarrow> 'hd launch_step list \<times> flow" where
  "run_initial_sync_phase E conf last_header =
     (let sync_failed = (is_enable conf \<and> \<not> is_ok (le_sync E last_header))
      in (if is_enable conf then [L_Sync last_header] else [],
          if le_signalled E \<or> sync_failed then Flow_Stop else Flow_Continue))"

text \<open>The loop of the scheduler: a synchronisation per tick of its interval, until the shutdown changes. Errors are logged.\<close>

datatype sched_event = Sched_Tick | Sched_Shutdown

fun schedule :: "'hd launch_env \<Rightarrow> sched_event list \<Rightarrow> 'hd launch_step list" where
  "schedule E [] = []"
| "schedule E (Sched_Shutdown # es) = []"
| "schedule E (Sched_Tick # es) = L_Sync None # schedule E es"

definition maybe_run_scheduling :: "'hd launch_env \<Rightarrow> indexer_settings \<Rightarrow> sched_event list \<Rightarrow> 'hd launch_step list" where
  "maybe_run_scheduling E conf es = (if is_enable conf \<and> node_sync_interval_s conf > 0 then schedule E es else [])"

definition maybe_run_server :: "'hd launch_env \<Rightarrow> 'hd launch_step list" where
  "maybe_run_server E = (if le_http_enable E then [L_Serve] else [])"

definition unlinked_at_start :: "'hd launch_env \<Rightarrow> indexer_settings \<Rightarrow> bool \<Rightarrow> 'hd launch_step list \<times> 'hd list cres" where
  "unlinked_at_start E conf created =
     (if created
      then ([L_Init], map_sum id (\<lambda>_. []) (le_init E))
      else ([L_Validate (validation_from_height conf)], le_validate E (validation_from_height conf)))"

definition launch_with_provider :: "'hd launch_env \<Rightarrow> sched_event list \<Rightarrow> 'hd launch_step list \<times> unit cres" where
  "launch_with_provider E es =
     (case le_config E of
        Inl e \<Rightarrow> ([], Inl e)
      | Inr conf \<Rightarrow>
          (case le_storage E of
             Inl e \<Rightarrow> ([], Inl e)
           | Inr created \<Rightarrow>
               (case unlinked_at_start E conf created of
                  (steps, Inl e) \<Rightarrow> (steps, Inl e)
                | (steps, Inr unlinked_headers) \<Rightarrow>
                    (case run_initial_sync_phase E conf (case unlinked_headers of [] \<Rightarrow> None | h # _ \<Rightarrow> Some h) of
                       (sync_steps, Flow_Stop) \<Rightarrow> (steps @ sync_steps @ [L_Teardown], Inr ())
                     | (sync_steps, Flow_Continue) \<Rightarrow>
                         (steps @ sync_steps @ maybe_run_scheduling E conf es @ maybe_run_server E @ [L_Teardown], Inr ())))))"

subsection \<open>Storing over an existing key\<close>

lemma for_each_over:
  assumes "\<And>db i. valid kview vview e db \<Longrightarrow> wf_inst e i \<Longrightarrow>
      \<exists>db'. store K V e db i = (db', Inr ()) \<and> valid kview vview e db' \<and> stored_keys kview db' = insert (inst_key i) (stored_keys kview db)"
    and "valid kview vview e db" and "\<forall>i\<in>set is. wf_inst e i"
  shows "\<exists>db'. for_each (store K V e) db is = (db', Inr ()) \<and> valid kview vview e db' \<and>
           stored_keys kview db' = stored_keys kview db \<union> inst_key ` set is"
  using assms(2,3)
proof (induction "is" arbitrary: db)
  case (Cons i "is")
  from assms(1)[OF Cons.prems(1), of i] Cons.prems(2) obtain db1 where
    1: "store K V e db i = (db1, Inr ())" "valid kview vview e db1" "stored_keys kview db1 = insert (inst_key i) (stored_keys kview db)" by auto
  from Cons.IH[OF 1(2)] Cons.prems(2) 1 show ?case by auto
qed simp

text \<open>Storing succeeds and keeps the invariant whether or not the key is there.\<close>

lemma store_over:
  fixes V :: "('t, pointer, 'v) table_ops"
  assumes "tables_ok K V kview vview"
  shows "valid kview vview e db \<Longrightarrow> wf_inst e i \<Longrightarrow>
           \<exists>db'. store K V e db i = (db', Inr ()) \<and> valid kview vview e db' \<and> stored_keys kview db' = insert (inst_key i) (stored_keys kview db) \<and>
             length (edb_tabs db') = length (edb_tabs db) \<and>
             (\<forall>n child cdb. many_column e db n child cdb \<longrightarrow>
                (\<exists>cdb'. many_column e db' n child cdb' \<and>
                   (\<forall>is. inst_fields i ! n = F_Many is \<longrightarrow> stored_keys kview cdb' = stored_keys kview cdb \<union> inst_key ` set is)))"
    and "valid_col kview vview ty D c t \<Longrightarrow> wf_field ty p c f \<Longrightarrow>
           \<exists>t'. store_col K V c t p f = (t', Inr ()) \<and> valid_col kview vview ty (insert p D) c t' \<and>
             (\<forall>child cdb is. c = E_Many child \<longrightarrow> t = Sub cdb \<longrightarrow> f = F_Many is \<longrightarrow>
                (\<exists>cdb'. t' = Sub cdb' \<and> stored_keys kview cdb' = stored_keys kview cdb \<union> inst_key ` set is))"
proof (induction e and c arbitrary: db i and ty D t p f rule: ent.induct ecol.induct)
  case (Ent root ty cols)
  let ?D = "stored_keys kview db" and ?p = "inst_key i"
  have cols: "\<exists>ts'. store_cols K V cs ts ?p fs = (ts', Inr ()) \<and> valid_cols kview vview ty (insert ?p ?D) cs ts' \<and> length ts' = length ts \<and>
      (\<forall>n < length cs. \<forall>child cdb is. cs ! n = E_Many child \<longrightarrow> ts ! n = Sub cdb \<longrightarrow> fs ! n = F_Many is \<longrightarrow>
         (\<exists>cdb'. ts' ! n = Sub cdb' \<and> stored_keys kview cdb' = stored_keys kview cdb \<union> inst_key ` set is))"
    if "valid_cols kview vview ty ?D cs ts" "wf_fields ty ?p cs fs" "set cs \<subseteq> set cols" for cs ts fs
    using that
  proof (induction cs arbitrary: ts fs)
    case (Cons c cs)
    then obtain t ts' f fs' where *: "ts = t # ts'" "valid_col kview vview ty ?D c t" "valid_cols kview vview ty ?D cs ts'"
      "fs = f # fs'" "wf_field ty ?p c f" "wf_fields ty ?p cs fs'" by (cases ts; cases fs) auto
    from Ent.IH[OF _ *(2,5)] Cons.prems(3) obtain t1 where
      1: "store_col K V c t ?p f = (t1, Inr ())" "valid_col kview vview ty (insert ?p ?D) c t1"
        "\<forall>child cdb is. c = E_Many child \<longrightarrow> t = Sub cdb \<longrightarrow> f = F_Many is \<longrightarrow>
           (\<exists>cdb'. t1 = Sub cdb' \<and> stored_keys kview cdb' = stored_keys kview cdb \<union> inst_key ` set is)" by auto
    from Cons.IH[OF *(3,6)] Cons.prems(3) obtain ts1 where
      2: "store_cols K V cs ts' ?p fs' = (ts1, Inr ())" "valid_cols kview vview ty (insert ?p ?D) cs ts1" "length ts1 = length ts'"
        "\<forall>n < length cs. \<forall>child cdb is. cs ! n = E_Many child \<longrightarrow> ts' ! n = Sub cdb \<longrightarrow> fs' ! n = F_Many is \<longrightarrow>
           (\<exists>cdb'. ts1 ! n = Sub cdb' \<and> stored_keys kview cdb' = stored_keys kview cdb \<union> inst_key ` set is)" by auto
    from 1 2 *(1,4) show ?case by (intro exI[of _ "t1 # ts1"]) (auto simp: less_Suc_eq_0_disj)
  qed simp
  from cols[of cols "edb_tabs db" "inst_fields i"] Ent.prems obtain ts' where
    ts': "store_cols K V cols (edb_tabs db) ?p (inst_fields i) = (ts', Inr ())" "valid_cols kview vview ty (insert ?p ?D) cols ts'"
      "length ts' = length (edb_tabs db)"
      "\<forall>n < length cols. \<forall>child cdb is. cols ! n = E_Many child \<longrightarrow> edb_tabs db ! n = Sub cdb \<longrightarrow> inst_fields i ! n = F_Many is \<longrightarrow>
         (\<exists>cdb'. ts' ! n = Sub cdb' \<and> stored_keys kview cdb' = stored_keys kview cdb \<union> inst_key ` set is)" by auto
  from tables_okD(1)[OF assms, of "edb_keys db" ?p] obtain ks' where
    ks': "ins K (edb_keys db) ?p () = (ks', Inr ())" "kview ks' = (kview (edb_keys db))(?p \<mapsto> ())" by blast
  have "store K V (Ent root ty cols) db i = (Edb ks' ts', Inr ())" using ts'(1) ks'(1) by simp
  moreover have "valid kview vview (Ent root ty cols) (Edb ks' ts')" using Ent.prems(1,2) ts'(2) ks'(2) by auto
  moreover have "stored_keys kview (Edb ks' ts') = insert ?p ?D" using ks'(2) by simp
  moreover have "\<exists>cdb'. many_column (Ent root ty cols) (Edb ks' ts') n child cdb' \<and>
      (\<forall>is. inst_fields i ! n = F_Many is \<longrightarrow> stored_keys kview cdb' = stored_keys kview cdb \<union> inst_key ` set is)"
    if "many_column (Ent root ty cols) db n child cdb" for n child cdb
  proof -
    have n: "n < length cols" "n < length (edb_tabs db)" "cols ! n = E_Many child" "edb_tabs db ! n = Sub cdb" using that by (simp_all add: many_column_def)
    have "valid_col kview vview ty (insert ?p ?D) (E_Many child) (ts' ! n)" using valid_cols_nth[OF ts'(2) n(1)] n(3) by simp
    then obtain cdb' where cdb': "ts' ! n = Sub cdb'" by (cases "ts' ! n") auto
    have "stored_keys kview cdb' = stored_keys kview cdb \<union> inst_key ` set is" if "inst_fields i ! n = F_Many is" for "is"
      using ts'(4)[rule_format, OF n(1,3,4) that] cdb' by (elim exE conjE) (simp only: etab.inject)
    with n ts'(3) cdb' show ?thesis by (intro exI[of _ cdb'] conjI) (simp_all add: many_column_def)
  qed
  ultimately show ?case using ts'(3) by (intro exI[of _ "Edb ks' ts'"]) auto
next
  case E_Value
  then obtain tb v where *: "t = Tab tb" "dom (vview tb) = D" "f = F_Value v" by (cases t; cases f) auto
  from tables_okD(2)[OF assms, of tb p v] obtain tb' where "ins V tb p v = (tb', Inr ())" "vview tb' = (vview tb)(p \<mapsto> v)" by blast
  with * show ?case by (intro exI[of _ "Tab tb'"]) auto
next
  case (E_One e)
  then obtain db i where *: "t = Sub db" "ent_key e = ty" "valid kview vview e db" "stored_keys kview db = D"
    "f = F_One i" "inst_key i = p" "wf_inst e i" by (cases t; cases f) auto
  from E_One.IH[OF *(3,7)] * show ?case by auto
next
  case (E_Opt e)
  then obtain db io where *: "t = Sub db" "ent_key e = ty" "valid kview vview e db" "stored_keys kview db \<subseteq> D"
    "f = F_Opt io" "\<And>i. io = Some i \<Longrightarrow> inst_key i = p \<and> wf_inst e i" by (cases t; cases f) auto
  show ?case
  proof (cases io)
    case None
    with * show ?thesis by (intro exI[of _ "Sub db"]) auto
  next
    case (Some i)
    from E_Opt.IH[OF *(3), of i] *(6)[OF Some] obtain db' where
      "store K V e db i = (db', Inr ())" "valid kview vview e db'" "stored_keys kview db' = insert p (stored_keys kview db)" by blast
    moreover from this(3) *(4) have "stored_keys kview db' \<subseteq> insert p D" by blast
    ultimately show ?thesis using * Some by (intro exI[of _ "Sub db'"]) simp
  qed
next
  case (E_Many e)
  then obtain db w "is" where *: "t = Sub db" "ent_key e = Child_Ty ty w" "valid kview vview e db"
    "\<forall>c\<in>stored_keys kview db. \<exists>p\<in>D. parent c = Some p" "f = F_Many is"
    "\<And>i. i \<in> set is \<Longrightarrow> parent (inst_key i) = Some p \<and> wf_inst e i"
    by (cases t; cases f) auto
  have "\<exists>db'. for_each (store K V e) db is = (db', Inr ()) \<and> valid kview vview e db' \<and>
      stored_keys kview db' = stored_keys kview db \<union> inst_key ` set is"
    by (rule for_each_over[OF _ *(3)]) (use E_Many.IH *(6) in blast)+
  with * show ?case by (auto 4 3)
qed

lemma wf_fields_nth: "wf_fields ty p cs fs \<Longrightarrow> n < length cs \<Longrightarrow> wf_field ty p (cs ! n) (fs ! n)"
  by (induction cs arbitrary: fs n) (auto simp: nth_Cons' split: list.splits)

lemma children_keys:
  assumes "tables_ok K V kview vview" and "valid kview vview e db" and "many_column e db n child cdb"
    and "lookup kview vview e db p = Some i" and "inst_fields i ! n = F_Many children"
  shows "inst_key ` set children = {c \<in> stored_keys kview cdb. parent c = Some p}"
proof -
  from many_column_ok(3)[OF assms(1-4)] assms(5) have
    set: "set children = (\<lambda>c. the (lookup kview vview child cdb c)) ` {c \<in> stored_keys kview cdb. parent c = Some p}" by auto
  have "inst_key (the (lookup kview vview child cdb c)) = c" if "c \<in> stored_keys kview cdb" for c
    using that lookup_Some[of c kview cdb vview child] lookup_key[of kview vview child cdb c] by force
  then show ?thesis unfolding set image_image by force
qed

subsection \<open>Properties\<close>

text \<open>
  Storing a block over a stored one mixes the two. Storing an instance under a key that is there succeeds and keeps
  the invariant, and reading the key afterwards gives a list of owned entities with the keys of the new version and
  those of the old one: what the old version owned and the new one does not is never removed.
\<close>

theorem overwrite_keeps_children:
  assumes "tables_ok K V kview vview" and "valid kview vview e db" and "wf_inst e i" and "many_column e db n child cdb"
    and "get checks K V e db (inst_key i) = Some (Inr (Some old))" and "inst_fields old ! n = F_Many old_children" and "inst_fields i ! n = F_Many new_children"
  shows "\<exists>db' r children. store K V e db i = (db', Inr ()) \<and> valid kview vview e db' \<and>
           get checks K V e db' (inst_key i) = Some (Inr (Some r)) \<and> inst_fields r ! n = F_Many children \<and>
           inst_key ` set children = inst_key ` set old_children \<union> inst_key ` set new_children"
proof -
  let ?p = "inst_key i"
  from store_over(1)[OF assms(1-3)] obtain db' where
    s: "store K V e db i = (db', Inr ())" "valid kview vview e db'" "stored_keys kview db' = insert ?p (stored_keys kview db)"
    and cols: "\<forall>n child cdb. many_column e db n child cdb \<longrightarrow>
      (\<exists>cdb'. many_column e db' n child cdb' \<and> (\<forall>is. inst_fields i ! n = F_Many is \<longrightarrow> stored_keys kview cdb' = stored_keys kview cdb \<union> inst_key ` set is))"
    by (elim exE conjE)
  from cols[rule_format, OF assms(4)] assms(7) obtain cdb' where
    c: "many_column e db' n child cdb'" "stored_keys kview cdb' = stored_keys kview cdb \<union> inst_key ` set new_children"
    by (elim exE conjE allE impE) assumption+
  from assms(5) have old: "lookup kview vview e db ?p = Some old" by (simp add: get_ok[OF assms(1,2)])
  from s(3) obtain r where r: "lookup kview vview e db' ?p = Some r" using lookup_Some[of ?p kview db' vview e] by blast
  from many_column_ok(3)[OF assms(1) s(2) c(1) r] obtain children where ch: "inst_fields r ! n = F_Many children" by blast
  have "wf_field (ent_key e) ?p (E_Many child) (F_Many new_children)"
    using assms(3,4,7) wf_fields_nth[of "ent_key e" ?p "ent_cols e" "inst_fields i" n] by (cases e) (simp add: many_column_def)
  then have "\<forall>c\<in>inst_key ` set new_children. parent c = Some ?p" by auto
  then have "inst_key ` set children = inst_key ` set old_children \<union> inst_key ` set new_children"
    unfolding children_keys[OF assms(1) s(2) c(1) r ch] children_keys[OF assms(1,2,4) old assms(6)] c(2) by blast
  with s(1,2) r ch show ?thesis by (auto simp: get_ok[OF assms(1) s(2)])
qed

text \<open>
  A start on an existing database with an unlinked header synchronises from that header, and a start whose
  synchronisation fails returns success, without a server and without a schedule.
\<close>

theorem start_from_unlinked:
  assumes "le_config E = Inr conf" and "is_enable conf" and "le_storage E = Inr False"
    and "le_validate E (validation_from_height conf) = Inr (u # us)"
  shows "take 2 (fst (launch_with_provider E es)) = [L_Validate (validation_from_height conf), L_Sync (Some u)] \<and>
         (\<not> is_ok (le_sync E (Some u)) \<longrightarrow>
            launch_with_provider E es = ([L_Validate (validation_from_height conf), L_Sync (Some u), L_Teardown], Inr ()))"
  using assms by (auto simp: launch_with_provider_def unlinked_at_start_def run_initial_sync_phase_def Let_def split: flow.split)

subsection \<open>Witnesses\<close>

theorem overwrite_keeps_children_witness:
  "\<exists>db' r children. store demo_keys demo_vals demo_block demo_db1
       (Einst (Root 5) [F_Value 7, F_One (Einst (Root 5) [F_Value 8]), F_Many [Einst (Child (Root 5) 1) [F_Value 6]]]) = (db', Inr ()) \<and>
     get True demo_keys demo_vals demo_block db' (Root 5) = Some (Inr (Some r)) \<and> inst_fields r ! 2 = F_Many children \<and>
     inst_key ` set children = {Child (Root 5) 0, Child (Root 5) 1, Child (Root 5) 3}"
proof -
  let ?i = "Einst (Root 5) [F_Value 7, F_One (Einst (Root 5) [F_Value 8]), F_Many [Einst (Child (Root 5) 1) [F_Value (6::nat)]]]"
  let ?cdb = "Edb [(Child (Root 5) 3, ()), (Child (Root 5) 0, ())] [Tab [(Child (Root 5) 3, 10), (Child (Root 5) 0, 9::nat)]]"
  have wf: "wf_inst demo_block ?i" by (auto simp: demo_block_def key_ok_def add_index_def)
  have m: "many_column demo_block demo_db1 2 (Ent False (Child_Ty (Root_Ty 4) 2) [E_Value]) ?cdb"
    by (simp add: many_column_def demo_block_def demo_db1_def)
  have old: "\<exists>old. lookup map_of map_of demo_block demo_db1 (Root 5) = Some old" by (simp add: demo_block_def demo_db1_def)
  then obtain old where old: "lookup map_of map_of demo_block demo_db1 (Root 5) = Some old" by blast
  from many_column_ok(3)[OF demo_tables demo_valid1 m old] obtain cs where cs: "inst_fields old ! 2 = F_Many cs" by blast
  have "{c \<in> stored_keys map_of ?cdb. parent c = Some (Root 5)} = {Child (Root 5) 3, Child (Root 5) 0}"
    by (auto split: if_splits)
  with children_keys[OF demo_tables demo_valid1 m old cs] have k: "inst_key ` set cs = {Child (Root 5) 3, Child (Root 5) 0}" by simp
  have "get True demo_keys demo_vals demo_block demo_db1 (inst_key ?i) = Some (Inr (Some old))" by (simp add: get_ok[OF demo_tables demo_valid1] old)
  from overwrite_keeps_children[OF demo_tables demo_valid1 wf m this cs, of "[Einst (Child (Root 5) 1) [F_Value 6]]"] obtain db' r children where
    "store demo_keys demo_vals demo_block demo_db1 ?i = (db', Inr ())" "get True demo_keys demo_vals demo_block db' (inst_key ?i) = Some (Inr (Some r))"
    "inst_fields r ! 2 = F_Many children" "inst_key ` set children = inst_key ` set cs \<union> inst_key ` set [Einst (Child (Root 5) 1) [F_Value (6::nat)]]"
    by auto
  with k show ?thesis by (intro exI[of _ db'] exI[of _ r] exI[of _ children]) auto
qed

definition demo_launch :: "nat launch_env" where
  "demo_launch =
     \<lparr>le_config = Inr \<lparr>is_name = ''btc'', is_enable = True, is_db_path = ''db'', node_sync_interval_s = 5, fork_detection_heights = 100,
        min_entity_batch_size = 1000, max_entity_buffer_kb_size = 512, non_durable_batches = 3, db_cache_size_gb = 1, processing_parallelism = 2,
        validation_from_height = 10\<rparr>,
      le_http_enable = True, le_storage = Inr False, le_init = Inr (), le_validate = (\<lambda>_. Inr [42]), le_sync = (\<lambda>_. Inl (Ch_Custom ''refused'')),
      le_signalled = False\<rparr>"

theorem start_from_unlinked_witness:
  "launch_with_provider demo_launch [Sched_Tick] = ([L_Validate 10, L_Sync (Some 42), L_Teardown], Inr ())"
proof -
  have "le_config demo_launch = Inr (projr (le_config demo_launch))" "is_enable (projr (le_config demo_launch))" "le_storage demo_launch = Inr False"
    "le_validate demo_launch (validation_from_height (projr (le_config demo_launch))) = Inr (42 # [])"
    by (simp_all add: demo_launch_def)
  from start_from_unlinked[OF this, of "[Sched_Tick]"] show ?thesis by (simp add: demo_launch_def)
qed

end
