(* ===== verification/Table_Defs.thy ===== *)
theory Table_Defs
  imports Names Schema Storage_Init Sharded_Reader Plain_Table Index_Table Dict_Table
begin

section \<open>Tables and databases of an entity\<close>

text \<open>
  The tables that the entity macro declares for the columns of an entity (\<open>macros/src/table.rs\<close>), the fields that its
  transaction contexts get for them (\<open>macros/src/entity/context.rs\<close>), the databases they are kept in (\<open>macros/src/storage.rs\<close>)
  and how a context finds its databases (\<open>RedbitTableDefinition\<close> in \<open>redbit/src/storage/table_writer_api.rs\<close>).

  A declaration \<open>TableDefinition::<'static, K, V>::new(name)\<close> is the value \<open>Table_Definition K V name\<close>; the value type of
  the table of keys is the unit type, written \<open>None\<close>.
\<close>

subsection \<open>Entities\<close>

record entity_def =
  ed_key_def :: key_def
  ed_entity_name :: string
  ed_entity_type :: syn_type
  ed_query_type :: syn_type
  ed_info_type :: syn_type
  ed_ctx_type :: syn_type
  ed_read_ctx_type :: syn_type
  ed_write_ctx_type :: syn_type

datatype tx_type = Tx_Read | Tx_Write

definition tx_context_name :: "tx_type \<Rightarrow> string" where
  "tx_context_name t = (case t of Tx_Read \<Rightarrow> ''Read'' | Tx_Write \<Rightarrow> ''Write'') @ ''TxContext''"

text \<open>The last segment of a path type; the macro panics on every other type.\<close>

fun type_ident :: "syn_type \<Rightarrow> string option" where
  "type_ident (Ty_Path s args) = Some s"
| "type_ident Ty_Other = None"

definition entity_tx_context_type :: "syn_type \<Rightarrow> tx_type \<Rightarrow> syn_type option" where
  "entity_tx_context_type ty t = map_option (\<lambda>i. Ty_Path (i @ tx_context_name t) None) (type_ident ty)"

definition entity_tx_context_def_type :: "syn_type \<Rightarrow> syn_type option" where
  "entity_tx_context_def_type ty = map_option (\<lambda>i. Ty_Path (i @ ''TxContext'') None) (type_ident ty)"

definition filter_query_type :: "syn_type \<Rightarrow> syn_type option" where
  "filter_query_type ty = map_option (\<lambda>i. Ty_Path (i @ ''FilterQuery'') None) (type_ident ty)"

definition table_info_type :: "syn_type \<Rightarrow> syn_type option" where
  "table_info_type ty = map_option (\<lambda>i. Ty_Path (i @ ''TableInfo'') None) (type_ident ty)"

definition entity_def_new :: "key_def \<Rightarrow> string \<Rightarrow> syn_type \<Rightarrow> entity_def option" where
  "entity_def_new key_def entity_name entity_type =
     do {
       query_type \<leftarrow> filter_query_type entity_type;
       ctx_type \<leftarrow> entity_tx_context_def_type entity_type;
       read_ctx_type \<leftarrow> entity_tx_context_type entity_type Tx_Read;
       write_ctx_type \<leftarrow> entity_tx_context_type entity_type Tx_Write;
       info_type \<leftarrow> table_info_type entity_type;
       Some \<lparr>ed_key_def = key_def, ed_entity_name = entity_name, ed_entity_type = entity_type, ed_query_type = query_type,
             ed_info_type = info_type, ed_ctx_type = ctx_type, ed_read_ctx_type = read_ctx_type, ed_write_ctx_type = write_ctx_type\<rparr>
     }"

abbreviation ed_pk_name :: "entity_def \<Rightarrow> string" where
  "ed_pk_name e \<equiv> fd_name (key_field_def (ed_key_def e))"

abbreviation ed_pk_type :: "entity_def \<Rightarrow> syn_type" where
  "ed_pk_type e \<equiv> fd_tpe (key_field_def (ed_key_def e))"

subsection \<open>Tables\<close>

datatype table_type = Tt_Pk | Tt_Plain | Tt_Index | Tt_DictPkToIds | Tt_ValueByDictPk | Tt_ValueToDictPk | Tt_DictPkByPk

datatype redb_def =
    Table_Definition (rd_key: syn_type) (rd_value: "syn_type option") (rd_name: string)
  | Multimap_Table_Definition (rd_key: syn_type) (rd_value: "syn_type option") (rd_name: string)

record table_def =
  td_var_name :: string
  td_key_type :: syn_type
  td_value_type :: "syn_type option"
  td_table_type :: table_type
  td_definition :: redb_def

definition pk_table_def :: "entity_def \<Rightarrow> table_def" where
  "pk_table_def e =
     (let name = to_uppercase (ed_entity_name e) @ ''_'' @ to_uppercase (ed_pk_name e) in
        \<lparr>td_var_name = to_lowercase name, td_key_type = ed_pk_type e, td_value_type = None, td_table_type = Tt_Pk,
         td_definition = Table_Definition (ed_pk_type e) None name\<rparr>)"

definition plain_table_def :: "entity_def \<Rightarrow> string \<Rightarrow> syn_type \<Rightarrow> table_def" where
  "plain_table_def e column_name column_type =
     (let name = to_uppercase (ed_entity_name e) @ ''_'' @ to_uppercase column_name @ ''_BY_'' @ to_uppercase (ed_pk_name e) in
        \<lparr>td_var_name = to_lowercase name, td_key_type = ed_pk_type e, td_value_type = Some column_type, td_table_type = Tt_Plain,
         td_definition = Table_Definition (ed_pk_type e) (Some column_type) name\<rparr>)"

definition index_table_def :: "entity_def \<Rightarrow> string \<Rightarrow> syn_type \<Rightarrow> table_def" where
  "index_table_def e column_name column_type =
     (let name = to_uppercase (ed_entity_name e) @ ''_'' @ to_uppercase column_name @ ''_INDEX'' in
        \<lparr>td_var_name = to_lowercase name, td_key_type = column_type, td_value_type = Some (ed_pk_type e), td_table_type = Tt_Index,
         td_definition = Multimap_Table_Definition column_type (Some (ed_pk_type e)) name\<rparr>)"

definition dict_pk_to_ids_table_def :: "string \<Rightarrow> string \<Rightarrow> syn_type \<Rightarrow> table_def" where
  "dict_pk_to_ids_table_def entity_name column_name pk_type =
     (let name = to_uppercase entity_name @ ''_'' @ to_uppercase column_name @ ''_DICT_INDEX'' in
        \<lparr>td_var_name = to_lowercase name, td_key_type = pk_type, td_value_type = Some pk_type, td_table_type = Tt_DictPkToIds,
         td_definition = Multimap_Table_Definition pk_type (Some pk_type) name\<rparr>)"

definition value_by_dict_pk_table_def :: "string \<Rightarrow> string \<Rightarrow> syn_type \<Rightarrow> syn_type \<Rightarrow> table_def" where
  "value_by_dict_pk_table_def entity_name column_name column_type pk_type =
     (let name = to_uppercase entity_name @ ''_'' @ to_uppercase column_name @ ''_BY_DICT_PK'' in
        \<lparr>td_var_name = to_lowercase name, td_key_type = pk_type, td_value_type = Some column_type, td_table_type = Tt_ValueByDictPk,
         td_definition = Table_Definition pk_type (Some column_type) name\<rparr>)"

definition value_to_dict_pk_table_def :: "string \<Rightarrow> string \<Rightarrow> syn_type \<Rightarrow> syn_type \<Rightarrow> table_def" where
  "value_to_dict_pk_table_def entity_name column_name column_type pk_type =
     (let name = to_uppercase entity_name @ ''_'' @ to_uppercase column_name @ ''_TO_DICT_PK'' in
        \<lparr>td_var_name = to_lowercase name, td_key_type = column_type, td_value_type = Some pk_type, td_table_type = Tt_ValueToDictPk,
         td_definition = Table_Definition column_type (Some pk_type) name\<rparr>)"

definition dict_pk_by_pk_table_def :: "string \<Rightarrow> string \<Rightarrow> string \<Rightarrow> syn_type \<Rightarrow> table_def" where
  "dict_pk_by_pk_table_def entity_name column_name pk_name pk_type =
     (let name = to_uppercase entity_name @ ''_'' @ to_uppercase column_name @ ''_DICT_PK_BY_'' @ to_uppercase pk_name in
        \<lparr>td_var_name = to_lowercase name, td_key_type = pk_type, td_value_type = Some pk_type, td_table_type = Tt_DictPkByPk,
         td_definition = Table_Definition pk_type (Some pk_type) name\<rparr>)"

record plain_defs =
  pd_root_pk :: bool
  pd_var_name :: string
  pd_key_type :: syn_type
  pd_value_type :: "syn_type option"
  pd_column_props :: column_props
  pd_underlying :: table_def

definition plain_defs_new :: "table_def \<Rightarrow> column_props \<Rightarrow> bool \<Rightarrow> plain_defs" where
  "plain_defs_new underlying props root =
     \<lparr>pd_root_pk = root, pd_var_name = td_var_name underlying, pd_key_type = td_key_type underlying,
      pd_value_type = td_value_type underlying, pd_column_props = props, pd_underlying = underlying\<rparr>"

record index_defs =
  xd_var_name :: string
  xd_key_type :: syn_type
  xd_value_type :: syn_type
  xd_column_props :: column_props
  xd_pk_by_index :: table_def
  xd_index_by_pk :: table_def

definition index_defs_new :: "entity_def \<Rightarrow> string \<Rightarrow> syn_type \<Rightarrow> column_props \<Rightarrow> index_defs" where
  "index_defs_new e column_name column_type props =
     (let name = to_uppercase (ed_entity_name e) @ ''_'' @ to_uppercase column_name @ ''_INDEX'' in
        \<lparr>xd_var_name = to_lowercase name, xd_key_type = ed_pk_type e, xd_value_type = column_type, xd_column_props = props,
         xd_pk_by_index = index_table_def e column_name column_type,
         xd_index_by_pk = plain_table_def e column_name column_type\<rparr>)"

record dict_defs =
  dd_var_name :: string
  dd_key_type :: syn_type
  dd_value_type :: syn_type
  dd_column_props :: column_props
  dd_dict_pk_to_ids :: table_def
  dd_value_by_dict_pk :: table_def
  dd_value_to_dict_pk :: table_def
  dd_dict_pk_by_pk :: table_def

definition dict_defs_new :: "entity_def \<Rightarrow> string \<Rightarrow> syn_type \<Rightarrow> column_props \<Rightarrow> dict_defs" where
  "dict_defs_new e column_name column_type props =
     (let name = to_uppercase (ed_entity_name e) @ ''_'' @ to_uppercase column_name @ ''_DICT'' in
        \<lparr>dd_var_name = to_lowercase name, dd_key_type = ed_pk_type e, dd_value_type = column_type, dd_column_props = props,
         dd_dict_pk_to_ids = dict_pk_to_ids_table_def (ed_entity_name e) column_name (ed_pk_type e),
         dd_value_by_dict_pk = value_by_dict_pk_table_def (ed_entity_name e) column_name column_type (ed_pk_type e),
         dd_value_to_dict_pk = value_to_dict_pk_table_def (ed_entity_name e) column_name column_type (ed_pk_type e),
         dd_dict_pk_by_pk = dict_pk_by_pk_table_def (ed_entity_name e) column_name (ed_pk_name e) (ed_pk_type e)\<rparr>)"

subsection \<open>Databases\<close>

text \<open>One database per table field, named after it: first the plain tables, then the indexes, then the dictionaries.\<close>

definition get_db_defs :: "plain_defs list \<Rightarrow> dict_defs list \<Rightarrow> index_defs list \<Rightarrow> db_def list" where
  "get_db_defs plains dicts indexes =
     (let idents = map pd_var_name plains @ map xd_var_name indexes @ map dd_var_name dicts;
          props = map pd_column_props plains @ map xd_column_props indexes @ map dd_column_props dicts
      in map (\<lambda>(n, p). \<lparr>def_name = n, def_shards = cp_shards p, db_cache_weight_or_zero = cp_db_cache_weight p,
                        lru_cache_size_or_zero = cp_lru_cache_size p\<rparr>) (zip idents props))"

subsection \<open>Fields of the transaction contexts\<close>

text \<open>
  A field of a context is a table with its partitioning, which panics for zero shards, or the context of a
  child entity.
\<close>

type_synonym table_factory =
  "(redb_def plain_factory, (redb_def, redb_def) index_factory, (redb_def, redb_def, redb_def, redb_def) dict_factory) read_factory"

fun factory_name :: "table_factory \<Rightarrow> string" where
  "factory_name (Plain_Factory f) = pf_name f"
| "factory_name (Index_Factory f) = if_name f"
| "factory_name (Dict_Factory f) = df_name f"

record redbit_table_definition =
  rtd_root_pk :: bool
  rtd_partitioning :: "(bytes_partitioner, xxh3_partitioner) partitioning"
  rtd_factory :: table_factory

definition redbit_table_definition_new ::
    "bool \<Rightarrow> (bytes_partitioner, xxh3_partitioner) partitioning \<Rightarrow> table_factory \<Rightarrow> redbit_table_definition" where
  "redbit_table_definition_new root part f = \<lparr>rtd_root_pk = root, rtd_partitioning = part, rtd_factory = f\<rparr>"

datatype ctx_constructor =
    New_Table "redbit_table_definition option"
  | Child_Definition syn_type

record tx_context_item =
  ci_var_name :: string
  ci_constructor :: ctx_constructor

definition tx_context_plain_item :: "plain_defs \<Rightarrow> tx_context_item" where
  "tx_context_plain_item d =
     \<lparr>ci_var_name = pd_var_name d,
      ci_constructor = New_Table
        (do {
           part \<leftarrow> by_key_shards (cp_shards (pd_column_props d));
           Some (redbit_table_definition_new (pd_root_pk d) part
                   (Plain_Factory (plain_factory_new (pd_var_name d) (td_definition (pd_underlying d)))))
         })\<rparr>"

definition tx_context_index_item :: "index_defs \<Rightarrow> tx_context_item" where
  "tx_context_index_item d =
     \<lparr>ci_var_name = xd_var_name d,
      ci_constructor = New_Table
        (do {
           part \<leftarrow> by_value_shards (cp_shards (xd_column_props d));
           Some (redbit_table_definition_new False part
                   (Index_Factory (index_factory_new (xd_var_name d) (cp_lru_cache_size (xd_column_props d))
                      (td_definition (xd_pk_by_index d)) (td_definition (xd_index_by_pk d)))))
         })\<rparr>"

definition tx_context_dict_item :: "dict_defs \<Rightarrow> tx_context_item" where
  "tx_context_dict_item d =
     \<lparr>ci_var_name = dd_var_name d,
      ci_constructor = New_Table
        (do {
           part \<leftarrow> by_value_shards (cp_shards (dd_column_props d));
           Some (redbit_table_definition_new False part
                   (Dict_Factory (dict_factory_new (dd_var_name d) (cp_lru_cache_size (dd_column_props d))
                      (td_definition (dd_dict_pk_to_ids d)) (td_definition (dd_value_by_dict_pk d))
                      (td_definition (dd_value_to_dict_pk d)) (td_definition (dd_dict_pk_by_pk d)))))
         })\<rparr>"

definition tx_context_child_item :: "string \<Rightarrow> syn_type \<Rightarrow> tx_context_item" where
  "tx_context_child_item child_name child_tx_context_type =
     \<lparr>ci_var_name = child_name, ci_constructor = Child_Definition child_tx_context_type\<rparr>"


subsection \<open>Contexts\<close>

text \<open>
  A context definition evaluates the constructors of its fields in order; \<open>None\<close> is a panic. The contexts of
  the child entities are the argument \<open>child\<close>.
\<close>

datatype 'c ctx_field = Table_Field redbit_table_definition | Child_Field 'c

fun ctx_definition ::
    "(syn_type \<Rightarrow> 'c res option) \<Rightarrow> tx_context_item list \<Rightarrow> (string \<times> 'c ctx_field) list res option" where
  "ctx_definition child [] = Some (Inr [])"
| "ctx_definition child (i # is) =
     (case ci_constructor i of
        New_Table None \<Rightarrow> None
      | New_Table (Some d) \<Rightarrow> map_option (map_sum id (Cons (ci_var_name i, Table_Field d))) (ctx_definition child is)
      | Child_Definition ty \<Rightarrow>
          (case child ty of
             None \<Rightarrow> None
           | Some (Inl e) \<Rightarrow> Some (Inl e)
           | Some (Inr c) \<Rightarrow> map_option (map_sum id (Cons (ci_var_name i, Child_Field c))) (ctx_definition child is)))"

text \<open>A writer has one thread per database, each with the factory of the table, and a router with its partitioning.\<close>

record 'db sharded_writer =
  sw_root_pk :: bool
  sw_shards :: "('db \<times> table_factory) list"
  sw_router :: "(bytes_partitioner, xxh3_partitioner) partitioning"
  sw_deferred :: bool

definition writer_from_dbs :: "redbit_table_definition \<Rightarrow> 'db list \<Rightarrow> 'db sharded_writer res" where
  "writer_from_dbs d dbs =
     Inr \<lparr>sw_root_pk = rtd_root_pk d, sw_shards = map (\<lambda>db. (db, rtd_factory d)) dbs, sw_router = rtd_partitioning d, sw_deferred = False\<rparr>"

definition table_field_writer :: "(string \<rightharpoonup> 'db list) \<Rightarrow> redbit_table_definition \<Rightarrow> 'db sharded_writer res" where
  "table_field_writer storage d =
     (case fetch_dbs storage (factory_name (rtd_factory d)) of Inl e \<Rightarrow> Inl e | Inr dbs \<Rightarrow> writer_from_dbs d dbs)"

text \<open>
  A reader opens its tables in every database: \<open>opens\<close> are the \<open>open_for_read\<close> of the three factories, \<open>kp\<close> and \<open>vp\<close>
  what the partitioners do on keys and values.
\<close>

definition table_field_reader where
  "table_field_reader opens kp vp storage d =
     (case fetch_dbs storage (factory_name (rtd_factory d)) of
        Inl e \<Rightarrow> Inl e
      | Inr dbs \<Rightarrow> reader_from_dbs (opens (rtd_factory d)) dbs (map_partitioning kp vp (rtd_partitioning d)))"

text \<open>Both contexts turn their fields into writers or readers one after the other, up to the first error.\<close>

fun ctx_fields ::
    "(redbit_table_definition \<Rightarrow> 't res) \<Rightarrow> ('c \<Rightarrow> 'w res) \<Rightarrow> (string \<times> 'c ctx_field) list \<Rightarrow> (string \<times> ('t + 'w)) list res" where
  "ctx_fields table child [] = Inr []"
| "ctx_fields table child ((n, Table_Field d) # fs) =
     (case table d of Inl e \<Rightarrow> Inl e | Inr t \<Rightarrow> map_sum id (Cons (n, Inl t)) (ctx_fields table child fs))"
| "ctx_fields table child ((n, Child_Field c) # fs) =
     (case child c of Inl e \<Rightarrow> Inl e | Inr w \<Rightarrow> map_sum id (Cons (n, Inr w)) (ctx_fields table child fs))"

definition new_write_ctx where
  "new_write_ctx child storage defs = ctx_fields (table_field_writer storage) child defs"

definition begin_read_ctx where
  "begin_read_ctx opens kp vp child storage defs = ctx_fields (table_field_reader opens kp vp storage) child defs"

subsection \<open>Names of databases and tables\<close>

lemma var_names:
  "td_var_name (pk_table_def e) = to_lowercase (ed_entity_name e) @ ''_'' @ to_lowercase (ed_pk_name e)"
  "td_var_name (plain_table_def e c t) = to_lowercase (ed_entity_name e) @ ''_'' @ to_lowercase c @ ''_by_'' @ to_lowercase (ed_pk_name e)"
  "xd_var_name (index_defs_new e c t p) = to_lowercase (ed_entity_name e) @ ''_'' @ to_lowercase c @ ''_index''"
  "dd_var_name (dict_defs_new e c t p) = to_lowercase (ed_entity_name e) @ ''_'' @ to_lowercase c @ ''_dict''"
  by (simp_all add: pk_table_def_def plain_table_def_def index_defs_new_def dict_defs_new_def Let_def)

text \<open>The tables that share a database have different names, whatever the columns are called.\<close>

lemma index_tables_differ:
  "rd_name (td_definition (xd_pk_by_index (index_defs_new e c t p))) \<noteq> rd_name (td_definition (xd_index_by_pk (index_defs_new e c t p)))"
  by (simp add: index_defs_new_def index_table_def_def plain_table_def_def Let_def)

lemma dict_tables_differ:
  "distinct (map (rd_name \<circ> td_definition)
     [dd_dict_pk_to_ids (dict_defs_new e c t p), dd_value_by_dict_pk (dict_defs_new e c t p),
      dd_value_to_dict_pk (dict_defs_new e c t p), dd_dict_pk_by_pk (dict_defs_new e c t p)])"
  by (simp add: dict_defs_new_def dict_pk_to_ids_table_def_def value_by_dict_pk_table_def_def value_to_dict_pk_table_def_def
      dict_pk_by_pk_table_def_def Let_def)

end
