(* ===== verification/Endpoints.thy ===== *)
theory Endpoints
  imports Table_Defs
begin

section \<open>Functions and HTTP endpoints of an entity\<close>

text \<open>
  The functions that the templates of \<open>macros/src/pk\<close>, \<open>column\<close>, \<open>relationship\<close> and \<open>entity\<close> add to an entity, each with
  its name and, where it is reachable over HTTP, its endpoint: method, path, parameters and the name of the handler
  (\<open>macros/src/rest.rs\<close>, \<open>macros/src/endpoint.rs\<close>). What the functions do is in the theories of the queries and of
  the entities; generated tests and benchmarks are left out.
\<close>

subsection \<open>Endpoints\<close>

datatype http_method = GET | POST | DELETE | HEAD

fun http_method_text :: "http_method \<Rightarrow> string" where
  "http_method_text GET = ''get''"
| "http_method_text POST = ''post''"
| "http_method_text DELETE = ''delete''"
| "http_method_text HEAD = ''head''"

datatype endpoint_tag = MetaRead | DataRead | DataWrite | DataDelete

record path_expr =
  pe_name :: string
  pe_ty :: syn_type
  pe_description :: string

datatype http_params = Path_Params "path_expr list" | Query_Param syn_type | Body_Param syn_type bool

text \<open>A documented answer: the status, the type of its content and the type of its body.\<close>

record doc_response =
  dr_status :: nat
  dr_content_type :: "string option"
  dr_body :: "syn_type option"

abbreviation ok_json_doc :: "syn_type \<Rightarrow> doc_response" where
  "ok_json_doc t \<equiv> \<lparr>dr_status = 200, dr_content_type = Some ''application/json'', dr_body = Some t\<rparr>"

abbreviation ok_ndjson_doc :: "syn_type \<Rightarrow> doc_response" where
  "ok_ndjson_doc t \<equiv> \<lparr>dr_status = 200, dr_content_type = Some ''application/x-ndjson'', dr_body = Some t\<rparr>"

abbreviation ok_doc :: doc_response where
  "ok_doc \<equiv> \<lparr>dr_status = 200, dr_content_type = None, dr_body = None\<rparr>"

abbreviation error_doc :: "nat \<Rightarrow> doc_response" where
  "error_doc n \<equiv> \<lparr>dr_status = n, dr_content_type = Some ''application/json'', dr_body = Some (Ty_Path ''ErrorResponse'' None)\<rparr>"

record endpoint_def =
  ep_return_type :: "syn_type option"
  ep_tag :: endpoint_tag
  ep_fn_name :: string
  ep_params :: "http_params list"
  ep_endpoint :: string
  ep_method :: http_method
  ep_handler_name :: string
  ep_responses :: "doc_response list"

record function_def =
  fn_name :: string
  fn_endpoint :: "endpoint_def option"

text \<open>The arguments of a handler after the state: what axum extracts from the request, in order.\<close>

datatype binding = Bind_Path "(string \<times> syn_type) list" | Bind_Query syn_type | Bind_Body syn_type

fun axum_binding :: "http_params \<Rightarrow> binding list" where
  "axum_binding (Path_Params []) = []"
| "axum_binding (Path_Params ps) = [Bind_Path (map (\<lambda>p. (pe_name p, pe_ty p)) ps)]"
| "axum_binding (Query_Param t) = [Bind_Query t]"
| "axum_binding (Body_Param t r) = [Bind_Body t]"

definition axum_bindings :: "endpoint_def \<Rightarrow> binding list" where
  "axum_bindings ep = concat (map axum_binding (ep_params ep))"

text \<open>The parameters and the request body that the OpenAPI description lists; a later body replaces an earlier one.\<close>

datatype utoipa_param = Doc_Path string syn_type string | Doc_Type syn_type

fun utoipa_param_of :: "http_params \<Rightarrow> utoipa_param list" where
  "utoipa_param_of (Path_Params ps) = map (\<lambda>p. Doc_Path (pe_name p) (pe_ty p) (pe_description p)) ps"
| "utoipa_param_of (Query_Param t) = [Doc_Type t]"
| "utoipa_param_of (Body_Param t r) = []"

fun utoipa_body :: "syn_type option \<Rightarrow> http_params list \<Rightarrow> syn_type option" where
  "utoipa_body b [] = b"
| "utoipa_body b (Body_Param t r # ps) = utoipa_body (Some t) ps"
| "utoipa_body b (_ # ps) = utoipa_body b ps"

text \<open>\<open>None\<close> in the first component: the description has no \<open>params(\<dots>)\<close> because there is a body only.\<close>

definition utoipa_params :: "endpoint_def \<Rightarrow> utoipa_param list option \<times> syn_type option" where
  "utoipa_params ep =
     (let ps = concat (map utoipa_param_of (ep_params ep)); b = utoipa_body None (ep_params ep)
      in case b of
           Some t \<Rightarrow> if ps \<noteq> [] then (Some ps, Some t) else (None, Some t)
         | None \<Rightarrow> (Some ps, None))"

text \<open>\<open>Rest::new\<close>: the handlers of the functions that have an endpoint, one route for each.\<close>

definition endpoints_of :: "function_def list \<Rightarrow> endpoint_def list" where
  "endpoints_of fs = List.map_filter fn_endpoint fs"

definition rest_routes :: "function_def list \<Rightarrow> (http_method \<times> string \<times> string) list" where
  "rest_routes fs = map (\<lambda>ep. (ep_method ep, ep_endpoint ep, ep_handler_name ep)) (endpoints_of fs)"

subsection \<open>Range queries\<close>

text \<open>\<open>str::split('_')\<close> and the conversion to camel case.\<close>

fun split_char :: "char \<Rightarrow> string \<Rightarrow> string list" where
  "split_char c [] = [[]]"
| "split_char c (x # xs) = (if x = c then [] # split_char c xs else (case split_char c xs of w # ws \<Rightarrow> (x # w) # ws | [] \<Rightarrow> [[x]]))"

fun capitalise :: "string \<Rightarrow> string" where
  "capitalise [] = []"
| "capitalise (c # cs) = ascii_upper c # to_lowercase cs"

definition to_camel_case :: "string \<Rightarrow> bool \<Rightarrow> string" where
  "to_camel_case input upper_first =
     (case split_char (CHR ''_'') input of
        [] \<Rightarrow> []
      | w # ws \<Rightarrow> (if upper_first then capitalise w else to_lowercase w) @ concat (map capitalise ws))"

definition range_query_type :: "string \<Rightarrow> string \<Rightarrow> syn_type" where
  "range_query_type entity_name field_name = Ty_Path (entity_name @ to_camel_case field_name True @ ''RangeQuery'') None"

subsection \<open>Functions of the key\<close>

definition plain_fn :: "string \<Rightarrow> function_def" where
  "plain_fn name = \<lparr>fn_name = name, fn_endpoint = None\<rparr>"

definition lower_name :: "entity_def \<Rightarrow> string" where
  "lower_name e = to_lowercase (ed_entity_name e)"

text \<open>An endpoint is called after the function it exposes, its handler after the entity and the function.\<close>

definition endpoint_fn ::
    "entity_def \<Rightarrow> string \<Rightarrow> syn_type option \<Rightarrow> endpoint_tag \<Rightarrow> http_params list \<Rightarrow> http_method \<Rightarrow>
      doc_response list \<Rightarrow> string \<Rightarrow> function_def" where
  "endpoint_fn e name ret tag params method responses path =
     \<lparr>fn_name = name,
      fn_endpoint = Some \<lparr>ep_return_type = ret, ep_tag = tag, ep_fn_name = name, ep_params = params, ep_endpoint = path,
                          ep_method = method, ep_handler_name = lower_name e @ ''_'' @ name,
                          ep_responses = responses\<rparr>\<rparr>"

abbreviation vec_of :: "syn_type \<Rightarrow> syn_type" where "vec_of t \<equiv> Ty_Path ''Vec'' (Some [t])"
abbreviation option_of :: "syn_type \<Rightarrow> syn_type" where "option_of t \<equiv> Ty_Path ''Option'' (Some [t])"

definition pk_param :: "entity_def \<Rightarrow> string \<Rightarrow> http_params" where
  "pk_param e description = Path_Params [\<lparr>pe_name = ed_pk_name e, pe_ty = ed_pk_type e, pe_description = description\<rparr>]"

definition col_param :: "string \<Rightarrow> syn_type \<Rightarrow> string \<Rightarrow> http_params" where
  "col_param column_name column_type description = Path_Params [\<lparr>pe_name = column_name, pe_ty = column_type, pe_description = description\<rparr>]"

definition get_fn :: "entity_def \<Rightarrow> function_def" where
  "get_fn e = endpoint_fn e ''get'' (Some (ed_entity_type e)) DataRead [pk_param e ''Primary key''] GET
     [ok_json_doc (ed_entity_type e), error_doc 404]
     (''/'' @ lower_name e @ ''/'' @ ed_pk_name e @ ''/{'' @ ed_pk_name e @ ''}'')"

definition filter_fn :: "entity_def \<Rightarrow> function_def" where
  "filter_fn e = plain_fn ''filter''"

definition take_fn :: "entity_def \<Rightarrow> function_def" where
  "take_fn e = endpoint_fn e ''take'' (Some (vec_of (ed_entity_type e))) DataRead [Query_Param (Ty_Path ''TakeQuery'' None)] GET
     [ok_json_doc (vec_of (ed_entity_type e)), error_doc 500]
     (''/'' @ lower_name e @ ''/'' @ ''take'')"

definition tail_fn :: "entity_def \<Rightarrow> function_def" where
  "tail_fn e = endpoint_fn e ''tail'' (Some (vec_of (ed_entity_type e))) DataRead [Query_Param (Ty_Path ''TailQuery'' None)] GET
     [ok_json_doc (vec_of (ed_entity_type e)), error_doc 500]
     (''/'' @ lower_name e @ ''/'' @ ''tail'')"

definition first_fn :: "entity_def \<Rightarrow> function_def" where
  "first_fn e = endpoint_fn e ''first'' (Some (vec_of (ed_entity_type e))) DataRead [] GET
     [ok_json_doc (vec_of (ed_entity_type e)), error_doc 500]
     (''/'' @ lower_name e @ ''/'' @ ''first'')"

definition last_fn :: "entity_def \<Rightarrow> function_def" where
  "last_fn e = endpoint_fn e ''last'' (Some (vec_of (ed_entity_type e))) DataRead [] GET
     [ok_json_doc (vec_of (ed_entity_type e)), error_doc 500]
     (''/'' @ lower_name e @ ''/'' @ ''last'')"

definition exists_fn :: "entity_def \<Rightarrow> function_def" where
  "exists_fn e = endpoint_fn e ''exists'' None DataRead [pk_param e ''Primary key''] HEAD
     [ok_doc, error_doc 404]
     (''/'' @ lower_name e @ ''/'' @ ed_pk_name e @ ''/{'' @ ed_pk_name e @ ''}'')"

definition range_fn :: "entity_def \<Rightarrow> function_def" where
  "range_fn e = plain_fn ''range''"

definition stream_range_fn :: "entity_def \<Rightarrow> syn_type \<Rightarrow> function_def" where
  "stream_range_fn e range_query_ty = endpoint_fn e ''stream_range'' (Some (ed_entity_type e)) DataRead
     [Query_Param range_query_ty, Body_Param (option_of (ed_query_type e)) False] POST
     [ok_ndjson_doc (ed_entity_type e), error_doc 500]
     (''/'' @ lower_name e @ ''/'' @ ed_pk_name e)"

definition pk_range_fn :: "entity_def \<Rightarrow> function_def" where
  "pk_range_fn e = plain_fn ''pk_range''"

definition parent_key_fn :: "entity_def \<Rightarrow> function_def" where
  "parent_key_fn e = endpoint_fn e ''parent_key'' (Some (Ty_Path ''String'' None)) DataRead [pk_param e ''Primary key of the owner entity''] GET
     [ok_json_doc (ed_pk_type e), error_doc 500]
     (''/'' @ lower_name e @ ''/'' @ ed_pk_name e @ ''/{'' @ ed_pk_name e @ ''}/'' @ ''parent_key'')"

subsection \<open>Functions of a column\<close>

record parent_def =
  pa_parent_type :: syn_type
  pa_parent_ident :: string
  pa_stream_query_ty :: syn_type
  pa_tx_context_ty :: syn_type

definition get_by_fn :: "string \<Rightarrow> function_def" where
  "get_by_fn column_name = plain_fn (''get_by_'' @ column_name)"

definition stream_by_dict_fn :: "entity_def \<Rightarrow> string \<Rightarrow> syn_type \<Rightarrow> function_def" where
  "stream_by_dict_fn e column_name column_type = endpoint_fn e (''stream_by_'' @ column_name) (Some (ed_entity_type e)) DataRead
     [col_param column_name column_type ''Secondary index column with dictionary'', Body_Param (option_of (ed_query_type e)) False] POST
     [ok_ndjson_doc (ed_entity_type e), error_doc 500]
     (''/'' @ lower_name e @ ''/'' @ column_name @ ''/{'' @ column_name @ ''}'')"

definition stream_by_index_fn :: "entity_def \<Rightarrow> string \<Rightarrow> syn_type \<Rightarrow> function_def" where
  "stream_by_index_fn e column_name column_type = endpoint_fn e (''stream_by_'' @ column_name) (Some (ed_entity_type e)) DataRead
     [col_param column_name column_type ''Secondary index column'', Body_Param (option_of (ed_query_type e)) False] POST
     [ok_ndjson_doc (ed_entity_type e), error_doc 500]
     (''/'' @ lower_name e @ ''/'' @ column_name @ ''/{'' @ column_name @ ''}'')"

definition stream_parents_by_dict_fn :: "entity_def \<Rightarrow> string \<Rightarrow> syn_type \<Rightarrow> parent_def \<Rightarrow> function_def" where
  "stream_parents_by_dict_fn e column_name column_type p =
     endpoint_fn e (''stream_'' @ to_lowercase (pa_parent_ident p) @ ''s_by_'' @ column_name) (Some (pa_parent_type p)) DataRead
     [col_param column_name column_type ''Secondary index column with dictionary'', Body_Param (option_of (pa_stream_query_ty p)) False] POST
     [ok_ndjson_doc (pa_parent_type p), error_doc 500]
     (''/'' @ lower_name e @ ''/'' @ column_name @ ''/{'' @ column_name @ ''}/'' @ to_lowercase (pa_parent_ident p))"

definition stream_parents_by_index_fn :: "entity_def \<Rightarrow> string \<Rightarrow> syn_type \<Rightarrow> parent_def \<Rightarrow> function_def" where
  "stream_parents_by_index_fn e column_name column_type p =
     endpoint_fn e (''stream_'' @ to_lowercase (pa_parent_ident p) @ ''s_by_'' @ column_name) (Some (pa_parent_type p)) DataRead
     [col_param column_name column_type ''Secondary index column'', Body_Param (option_of (pa_stream_query_ty p)) False] POST
     [ok_ndjson_doc (pa_parent_type p), error_doc 500]
     (''/'' @ lower_name e @ ''/'' @ column_name @ ''/{'' @ column_name @ ''}/'' @ to_lowercase (pa_parent_ident p))"

text \<open>The field of the context of the parent in which the streams of parents expect the tables of the child.\<close>

definition parent_one2many_field_name :: "entity_def \<Rightarrow> string" where
  "parent_one2many_field_name e = lower_name e @ ''s''"

definition get_keys_by_fn :: "entity_def \<Rightarrow> string \<Rightarrow> function_def" where
  "get_keys_by_fn e column_name = plain_fn (''get_'' @ ed_pk_name e @ ''s_by_'' @ column_name)"

definition stream_keys_by_dict_fn :: "entity_def \<Rightarrow> string \<Rightarrow> syn_type \<Rightarrow> function_def" where
  "stream_keys_by_dict_fn e column_name column_type =
     endpoint_fn e (''stream_'' @ ed_pk_name e @ ''s_by_'' @ column_name) (Some (ed_pk_type e)) DataRead
     [col_param column_name column_type ''Secondary index column (dict)''] GET
     [ok_ndjson_doc (ed_pk_type e), error_doc 500]
     (''/'' @ lower_name e @ ''/'' @ column_name @ ''/{'' @ column_name @ ''}/'' @ ed_pk_name e)"

definition stream_keys_by_index_fn :: "entity_def \<Rightarrow> string \<Rightarrow> syn_type \<Rightarrow> function_def" where
  "stream_keys_by_index_fn e column_name column_type =
     endpoint_fn e (''stream_'' @ ed_pk_name e @ ''s_by_'' @ column_name) (Some (ed_pk_type e)) DataRead
     [col_param column_name column_type ''Secondary index column''] GET
     [ok_ndjson_doc (ed_pk_type e), error_doc 500]
     (''/'' @ lower_name e @ ''/'' @ column_name @ ''/{'' @ column_name @ ''}/'' @ ed_pk_name e)"

definition stream_range_by_fn :: "entity_def \<Rightarrow> string \<Rightarrow> syn_type \<Rightarrow> function_def" where
  "stream_range_by_fn e column_name range_query_ty =
     endpoint_fn e (''stream_range_by_'' @ column_name) (Some (ed_entity_type e)) DataRead
     [Query_Param range_query_ty, Body_Param (option_of (ed_query_type e)) False] POST
     [ok_ndjson_doc (ed_entity_type e), error_doc 500]
     (''/'' @ lower_name e @ ''/'' @ column_name)"

definition range_by_fn :: "string \<Rightarrow> function_def" where
  "range_by_fn column_name = plain_fn (''range_by_'' @ column_name)"

subsection \<open>Functions of a relationship\<close>

definition one2one_fn :: "entity_def \<Rightarrow> string \<Rightarrow> syn_type \<Rightarrow> function_def" where
  "one2one_fn e child_name child_type = endpoint_fn e (''get_'' @ child_name) (Some child_type) DataRead [pk_param e ''Primary key''] GET
     [ok_json_doc child_type, error_doc 404]
     (''/'' @ lower_name e @ ''/{'' @ ed_pk_name e @ ''}/'' @ child_name)"

definition one2opt_fn :: "entity_def \<Rightarrow> string \<Rightarrow> syn_type \<Rightarrow> function_def" where
  "one2opt_fn e child_name child_type = endpoint_fn e (''get_'' @ child_name) (Some child_type) DataRead [pk_param e ''Primary key''] GET
     [ok_json_doc child_type, error_doc 404]
     (''/'' @ lower_name e @ ''/{'' @ ed_pk_name e @ ''}/'' @ child_name)"

definition one2many_fn :: "entity_def \<Rightarrow> string \<Rightarrow> syn_type \<Rightarrow> function_def" where
  "one2many_fn e child_name child_type = endpoint_fn e (''get_'' @ child_name) (Some (vec_of child_type)) DataRead [pk_param e ''Primary key''] GET
     [ok_json_doc (vec_of child_type), error_doc 500]
     (''/'' @ lower_name e @ ''/{'' @ ed_pk_name e @ ''}/'' @ child_name)"

subsection \<open>Functions of the entity\<close>

definition table_info_fn :: "entity_def \<Rightarrow> function_def" where
  "table_info_fn e = endpoint_fn e ''table_info'' (Some (ed_info_type e)) MetaRead [] GET
     [ok_json_doc (ed_info_type e), error_doc 500]
     (''/'' @ lower_name e @ ''/'' @ ''table_info'')"

definition persist_fn :: "entity_def \<Rightarrow> function_def" where
  "persist_fn e = endpoint_fn e ''persist'' None DataWrite [Body_Param (ed_entity_type e) True] POST
     [ok_doc, error_doc 500]
     (''/'' @ lower_name e)"

definition remove_fn :: "entity_def \<Rightarrow> function_def" where
  "remove_fn e = endpoint_fn e ''remove'' None DataDelete [pk_param e ''Primary key''] DELETE
     [ok_doc, error_doc 404]
     (''/'' @ lower_name e @ ''/'' @ ed_pk_name e @ ''/{'' @ ed_pk_name e @ ''}'')"

end
