(* ===== verification/Entity_Macros.thy ===== *)
theory Entity_Macros
  imports Endpoints
begin

section \<open>Assembling an entity\<close>

text \<open>
  How the entity macro puts an entity together: the macros of its key, its columns and its relationships (\<open>macros/src/pk/mod.rs\<close>,
  \<open>column/mod.rs\<close>, \<open>relationship/mod.rs\<close>), the choice between them for every column of the schema (\<open>macros/src/field.rs\<close>), and the
  tables, context fields, databases, functions and routes of the whole entity (\<open>macros/src/entity/mod.rs\<close>).

  Of a macro the model keeps what is named here; the statements it contributes to the generated functions are
  those of the theories of the entities and of the queries. Types that are no paths make the macro panic,
  which is \<open>None\<close>.
\<close>

subsection \<open>The key\<close>

record pk_macros =
  pkm_field_def :: field_def
  pkm_plain :: plain_defs
  pkm_item :: tx_context_item
  pkm_range_query :: syn_type
  pkm_functions :: "function_def list"

definition pk_macros_new :: "entity_def \<Rightarrow> multiplicity option \<Rightarrow> column_props \<Rightarrow> pk_macros" where
  "pk_macros_new e multiplicity props =
     (let plain = plain_defs_new (pk_table_def e) props (is_root (ed_key_def e));
          range_query = range_query_type (ed_entity_name e) (ed_pk_name e)
      in \<lparr>pkm_field_def = key_field_def (ed_key_def e), pkm_plain = plain, pkm_item = tx_context_plain_item plain,
          pkm_range_query = range_query,
          pkm_functions =
            [get_fn e, filter_fn e, take_fn e, tail_fn e, first_fn e, last_fn e, exists_fn e, range_fn e,
             stream_range_fn e range_query, pk_range_fn e] @
            (if multiplicity = Some OneToMany then [parent_key_fn e] else [])\<rparr>)"

subsection \<open>A column\<close>

record column_macros =
  cm_field_def :: field_def
  cm_range_query :: "syn_type option"
  cm_plains :: "plain_defs list"
  cm_index :: "index_defs option"
  cm_dict :: "dict_defs option"
  cm_items :: "tx_context_item list"
  cm_functions :: "function_def list"

definition column_macros_plain :: "entity_def \<Rightarrow> field_def \<Rightarrow> column_props \<Rightarrow> column_macros" where
  "column_macros_plain e col props =
     (let plain = plain_defs_new (plain_table_def e (fd_name col) (fd_tpe col)) props False
      in \<lparr>cm_field_def = col, cm_range_query = None, cm_plains = [plain], cm_index = None, cm_dict = None,
          cm_items = [tx_context_plain_item plain], cm_functions = []\<rparr>)"

definition column_macros_index ::
    "entity_def \<Rightarrow> field_def \<Rightarrow> parent_def option \<Rightarrow> bool \<Rightarrow> column_props \<Rightarrow> column_macros" where
  "column_macros_index e col par range_on props =
     (let name = fd_name col; ty = fd_tpe col; index = index_defs_new e name ty props;
          range_query = range_query_type (ed_entity_name e) name
      in \<lparr>cm_field_def = col, cm_range_query = (if range_on then Some range_query else None), cm_plains = [],
          cm_index = Some index, cm_dict = None, cm_items = [tx_context_index_item index],
          cm_functions =
            [get_by_fn name, stream_by_index_fn e name ty] @
            (case par of Some p \<Rightarrow> [stream_parents_by_index_fn e name ty p] | None \<Rightarrow> []) @
            [get_keys_by_fn e name, stream_keys_by_index_fn e name ty] @
            (if range_on then [stream_range_by_fn e name range_query, range_by_fn name] else [])\<rparr>)"

definition column_macros_dict :: "entity_def \<Rightarrow> field_def \<Rightarrow> parent_def option \<Rightarrow> column_props \<Rightarrow> column_macros" where
  "column_macros_dict e col par props =
     (let name = fd_name col; ty = fd_tpe col; dict = dict_defs_new e name ty props
      in \<lparr>cm_field_def = col, cm_range_query = None, cm_plains = [], cm_index = None, cm_dict = Some dict,
          cm_items = [tx_context_dict_item dict],
          cm_functions =
            [get_by_fn name, stream_by_dict_fn e name ty] @
            (case par of Some p \<Rightarrow> [stream_parents_by_dict_fn e name ty p] | None \<Rightarrow> []) @
            [get_keys_by_fn e name, stream_keys_by_dict_fn e name ty]\<rparr>)"

fun column_macros_new :: "entity_def \<Rightarrow> field_def \<Rightarrow> indexing_type \<Rightarrow> parent_def option \<Rightarrow> column_macros" where
  "column_macros_new e col (Off props) par = column_macros_plain e col props"
| "column_macros_new e col (Index props) par = column_macros_index e col par False props"
| "column_macros_new e col (Range props) par = column_macros_index e col par True props"
| "column_macros_new e col (Dict props) par = column_macros_dict e col par props"

subsection \<open>A relationship\<close>

record rel_macros =
  rlm_field_def :: field_def
  rlm_item :: tx_context_item
  rlm_write_from :: "write_from option"
  rlm_function :: function_def

definition rel_macros_new :: "entity_def \<Rightarrow> field_def \<Rightarrow> multiplicity \<Rightarrow> write_from option \<Rightarrow> rel_macros option" where
  "rel_macros_new e f multiplicity write_from_using =
     do {
       _ \<leftarrow> filter_query_type (fd_tpe f);
       _ \<leftarrow> table_info_type (fd_tpe f);
       child_ctx \<leftarrow> entity_tx_context_def_type (fd_tpe f);
       _ \<leftarrow> entity_tx_context_type (fd_tpe f) Tx_Write;
       _ \<leftarrow> entity_tx_context_type (fd_tpe f) Tx_Read;
       Some \<lparr>rlm_field_def = f, rlm_item = tx_context_child_item (fd_name f) child_ctx,
             rlm_write_from = (case multiplicity of OneToMany \<Rightarrow> write_from_using | _ \<Rightarrow> None),
             rlm_function =
               (case multiplicity of
                  OneToOne \<Rightarrow> one2one_fn e (fd_name f) (fd_tpe f)
                | OneToOption \<Rightarrow> one2opt_fn e (fd_name f) (fd_tpe f)
                | OneToMany \<Rightarrow> one2many_fn e (fd_name f) (fd_tpe f))\<rparr>
     }"

subsection \<open>All fields\<close>

datatype field_macros =
    Fm_Pk pk_macros
  | Fm_Plain column_macros
  | Fm_Relationship rel_macros
  | Fm_TransientRel field_def
  | Fm_Transient field_def

text \<open>The parent that the streams of parents go to: only of a one-to-many child whose parent type is known.\<close>

definition one_to_many_parent_def :: "key_def \<Rightarrow> parent_def option option" where
  "one_to_many_parent_def k =
     (case k of
        Fk f OneToMany (Some parent_ty) props \<Rightarrow>
          do {
            ctx \<leftarrow> entity_tx_context_type parent_ty Tx_Read;
            query \<leftarrow> filter_query_type parent_ty;
            ident \<leftarrow> type_ident parent_ty;
            Some (Some \<lparr>pa_parent_type = parent_ty, pa_parent_ident = ident, pa_stream_query_ty = query, pa_tx_context_ty = ctx\<rparr>)
          }
      | _ \<Rightarrow> Some None)"

fun field_macro :: "entity_def \<Rightarrow> parent_def option \<Rightarrow> column_def \<Rightarrow> field_macros option" where
  "field_macro e par (Col_Key (Pk f props)) = Some (Fm_Pk (pk_macros_new e None props))"
| "field_macro e par (Col_Key (Fk f m t props)) = Some (Fm_Pk (pk_macros_new e (Some m) props))"
| "field_macro e par (Col_Plain f ix used pointer) = Some (Fm_Plain (column_macros_new e f ix par))"
| "field_macro e par (Col_TransientRel f r) = Some (Fm_TransientRel f)"
| "field_macro e par (Col_Relationship f w u m) = map_option Fm_Relationship (rel_macros_new e f m w)"
| "field_macro e par (Col_Transient f) = Some (Fm_Transient f)"

definition field_macros_new ::
    "string \<Rightarrow> syn_type \<Rightarrow> key_def \<times> column_def list \<Rightarrow> (entity_def \<times> parent_def option \<times> field_macros list) option" where
  "field_macros_new entity_name entity_type kc =
     (case kc of (key_def, col_defs) \<Rightarrow>
        do {
          par \<leftarrow> one_to_many_parent_def key_def;
          e \<leftarrow> entity_def_new key_def entity_name entity_type;
          ms \<leftarrow> those (map (field_macro e par) col_defs);
          Some (e, par, ms)
        })"

fun fm_field_def :: "field_macros \<Rightarrow> field_def" where
  "fm_field_def (Fm_Pk m) = pkm_field_def m"
| "fm_field_def (Fm_Plain m) = cm_field_def m"
| "fm_field_def (Fm_Relationship m) = rlm_field_def m"
| "fm_field_def (Fm_TransientRel f) = f"
| "fm_field_def (Fm_Transient f) = f"

fun plain_table_definitions :: "field_macros \<Rightarrow> plain_defs list" where
  "plain_table_definitions (Fm_Pk m) = [pkm_plain m]"
| "plain_table_definitions (Fm_Plain m) = cm_plains m"
| "plain_table_definitions _ = []"

fun index_table_definitions :: "field_macros \<Rightarrow> index_defs option" where
  "index_table_definitions (Fm_Plain m) = cm_index m"
| "index_table_definitions _ = None"

fun dict_table_definitions :: "field_macros \<Rightarrow> dict_defs option" where
  "dict_table_definitions (Fm_Plain m) = cm_dict m"
| "dict_table_definitions _ = None"

fun range_queries :: "field_macros \<Rightarrow> syn_type list" where
  "range_queries (Fm_Pk m) = [pkm_range_query m]"
| "range_queries (Fm_Plain m) = (case cm_range_query m of Some q \<Rightarrow> [q] | None \<Rightarrow> [])"
| "range_queries _ = []"

fun tx_context_items :: "field_macros \<Rightarrow> tx_context_item list" where
  "tx_context_items (Fm_Pk m) = [pkm_item m]"
| "tx_context_items (Fm_Plain m) = cm_items m"
| "tx_context_items (Fm_Relationship m) = [rlm_item m]"
| "tx_context_items _ = []"

fun fm_function_defs :: "field_macros \<Rightarrow> function_def list" where
  "fm_function_defs (Fm_Pk m) = pkm_functions m"
| "fm_function_defs (Fm_Plain m) = cm_functions m"
| "fm_function_defs (Fm_Relationship m) = [rlm_function m]"
| "fm_function_defs _ = []"

subsection \<open>The entity\<close>

definition sample_fns :: "function_def list" where
  "sample_fns = map plain_fn [''sample'', ''sample_many'', ''sample_many_with_query'', ''sample_with'', ''sample_with_query'']"

definition init_fns :: "key_def \<Rightarrow> function_def list" where
  "init_fns k = (case k of Pk f p \<Rightarrow> [plain_fn ''init''] | _ \<Rightarrow> [])"

record entity_out =
  eo_def :: entity_def
  eo_field_defs :: "field_def list"
  eo_range_queries :: "syn_type list"
  eo_items :: "tx_context_item list"
  eo_functions :: "function_def list"
  eo_db_defs :: "db_def list"
  eo_routes :: "(http_method \<times> string \<times> string) list"

definition entity_out_of :: "entity_def \<Rightarrow> field_macros list \<Rightarrow> entity_out" where
  "entity_out_of e ms =
     (let functions =
            [table_info_fn e, persist_fn e, plain_fn ''store_many'', plain_fn ''store'', plain_fn ''definition'', plain_fn ''begin_write_ctx'',
             plain_fn ''new_write_ctx'', plain_fn ''begin_read_ctx'', remove_fn e, plain_fn ''delete'', plain_fn ''delete_many'',
             plain_fn ''compose'', plain_fn ''compose_with_filter'', plain_fn ''compose_many'', plain_fn ''compose_many_stream''] @
            sample_fns @ concat (map fm_function_defs ms) @ init_fns (ed_key_def e)
      in \<lparr>eo_def = e, eo_field_defs = map fm_field_def ms, eo_range_queries = concat (map range_queries ms),
          eo_items = concat (map tx_context_items ms), eo_functions = functions,
          eo_db_defs = get_db_defs (concat (map plain_table_definitions ms)) (List.map_filter dict_table_definitions ms)
                         (List.map_filter index_table_definitions ms),
          eo_routes = rest_routes functions\<rparr>)"

text \<open>The outer option is a panic of the macro, the sum an error of the parser.\<close>

definition entity_new ::
    "(string \<Rightarrow> syn_type option) \<Rightarrow> (string \<Rightarrow> string) \<Rightarrow> string \<Rightarrow> syn_fields \<Rightarrow> (syn_error + entity_out) option" where
  "entity_new parse_type snake entity_name ast =
     (case get_field_macros parse_type snake ast of
        Inl err \<Rightarrow> Some (Inl err)
      | Inr kc \<Rightarrow> map_option (\<lambda>(e, par, ms). Inr (entity_out_of e ms)) (field_macros_new entity_name (Ty_Path entity_name None) kc))"

text \<open>What is registered for the storage and the router: every entity of the program.\<close>

definition build_db_defs :: "entity_out list \<Rightarrow> db_def list" where
  "build_db_defs es = concat (map eo_db_defs es)"

definition build_routes :: "entity_out list \<Rightarrow> (http_method \<times> string \<times> string) list" where
  "build_routes es = concat (map eo_routes es)"

end
