(* ===== verification/Entity_Tables.thy ===== *)
theory Entity_Tables
  imports Entity_Macros
begin

section \<open>Every table has its own databases\<close>

text \<open>
  The macro names the database of a column after the entity, the column and the kind of its table, and the
  context of the entity looks it up under that name. This theory shows when these names are different, so that no two
  columns share a database, and that a storage made from the databases of all entities has for every table
  of every context as many databases as its partitioner counts on.
\<close>

subsection \<open>Names\<close>

text \<open>The part of the name of a database after that of the entity; \<open>pk\<close> is the name of the key in lower case.\<close>

fun db_stem :: "string \<Rightarrow> column_def \<Rightarrow> string option" where
  "db_stem pk (Col_Key k) = Some pk"
| "db_stem pk (Col_Plain f (Off p) u q) = Some (to_lowercase (fd_name f) @ ''_by_'' @ pk)"
| "db_stem pk (Col_Plain f (Index p) u q) = Some (to_lowercase (fd_name f) @ ''_index'')"
| "db_stem pk (Col_Plain f (Range p) u q) = Some (to_lowercase (fd_name f) @ ''_index'')"
| "db_stem pk (Col_Plain f (Dict p) u q) = Some (to_lowercase (fd_name f) @ ''_dict'')"
| "db_stem pk _ = None"

text \<open>One database for every definition, with the properties of its column.\<close>

definition db_of :: "string \<Rightarrow> column_props \<Rightarrow> db_def" where
  "db_of n p = \<lparr>def_name = n, def_shards = cp_shards p, db_cache_weight_or_zero = cp_db_cache_weight p,
                lru_cache_size_or_zero = cp_lru_cache_size p\<rparr>"

lemma map2_map_same: "map2 g (map f xs) (map h xs) = map (\<lambda>x. g (f x) (h x)) xs"
  by (induction xs) simp_all

lemma get_db_defs_eq:
  "get_db_defs ps ds is = map (\<lambda>d. db_of (pd_var_name d) (pd_column_props d)) ps @
     map (\<lambda>d. db_of (xd_var_name d) (xd_column_props d)) is @ map (\<lambda>d. db_of (dd_var_name d) (dd_column_props d)) ds"
  by (simp add: get_db_defs_def Let_def db_of_def map2_map_same)

definition macro_dbs :: "field_macros \<Rightarrow> db_def list" where
  "macro_dbs m = map (\<lambda>d. db_of (pd_var_name d) (pd_column_props d)) (plain_table_definitions m) @
     (case index_table_definitions m of Some d \<Rightarrow> [db_of (xd_var_name d) (xd_column_props d)] | None \<Rightarrow> []) @
     (case dict_table_definitions m of Some d \<Rightarrow> [db_of (dd_var_name d) (dd_column_props d)] | None \<Rightarrow> [])"

lemma field_macro_key:
  obtains m p where "field_macro e par (Col_Key k) = Some (Fm_Pk (pk_macros_new e m p))" and "p = (case k of Pk f q \<Rightarrow> q | Fk f n t q \<Rightarrow> q)"
  by (cases k) simp_all

lemmas macro_defs = pk_macros_new_def column_macros_plain_def column_macros_index_def column_macros_dict_def plain_defs_new_def Let_def

lemma macro_db_names:
  assumes "field_macro e par c = Some m"
  shows "map def_name (macro_dbs m) = map (\<lambda>s. lower_name e @ ''_'' @ s) (case db_stem (to_lowercase (ed_pk_name e)) c of Some s \<Rightarrow> [s] | None \<Rightarrow> [])"
proof (cases "(to_lowercase (ed_pk_name e), c)" rule: db_stem.cases)
  case (1 pk k)
  with assms field_macro_key[of e par k] obtain n p where "m = Fm_Pk (pk_macros_new e n p)" by fastforce
  with 1 show ?thesis by (simp add: macro_dbs_def db_of_def macro_defs var_names lower_name_def)
qed (use assms in \<open>auto simp: macro_dbs_def db_of_def macro_defs var_names lower_name_def\<close>)

lemma map_filter_Cons: "List.map_filter f (x # xs) = (case f x of Some y \<Rightarrow> [y] | None \<Rightarrow> []) @ List.map_filter f xs"
  by (simp add: List.map_filter_def split: option.splits)

lemma set_map_filter: "set (List.map_filter f xs) = {y. \<exists>x\<in>set xs. f x = Some y}"
  by (induction xs) (auto simp: map_filter_Cons List.map_filter_def split: option.splits)

lemma entity_dbs: "mset (eo_db_defs (entity_out_of e ms)) = mset (concat (map macro_dbs ms))"
proof -
  have "mset (get_db_defs (concat (map plain_table_definitions ms)) (List.map_filter dict_table_definitions ms)
      (List.map_filter index_table_definitions ms)) = mset (concat (map macro_dbs ms))"
  proof (induction ms)
    case (Cons m ms)
    then show ?case by (auto simp: get_db_defs_eq macro_dbs_def map_filter_Cons union_ac split: option.splits)
  qed (simp add: List.map_filter_def get_db_defs_def)
  then show ?thesis by (simp add: entity_out_of_def Let_def)
qed

subsection \<open>When the names differ\<close>

text \<open>
  A key must not end in the words that mark the database of an index or a dictionary: with a key called
  \<open>index\<close>, the plain column \<open>a\<close> and the indexed column \<open>a_by\<close> would both get the database \<open>a_by_index\<close>.
\<close>

definition key_name_ok :: "string \<Rightarrow> bool" where
  "key_name_ok pk \<longleftrightarrow> \<not> suffix ''_index'' (''_'' @ to_lowercase pk) \<and> \<not> suffix ''_dict'' (''_'' @ to_lowercase pk)"

lemma suffix_sep:
  assumes "suffix (c # s) (t @ c # r)" and "c \<notin> set s"
  shows "suffix (c # s) (c # r)"
proof -
  have r: "suffix (c # r) (t @ c # r)" by (simp add: suffix_def)
  show ?thesis
proof (cases "length (c # s) \<le> length (c # r)")
  case True
  with assms(1) r show ?thesis by (rule suffix_length_suffix)
next
  case False
  then have "length (c # r) \<le> length (c # s)" by simp
  with r assms(1) have "suffix (c # r) (c # s)" by (rule suffix_length_suffix)
  then obtain u where u: "c # s = u @ c # r" by (auto simp: suffix_def)
  with False have "u \<noteq> []" by auto
  with u have "c \<in> set s" by (cases u) auto
  with assms(2) show ?thesis by simp
qed
qed

lemma db_stem_inj:
  assumes ok: "key_name_ok pk" and s: "db_stem (to_lowercase pk) c = Some s" "db_stem (to_lowercase pk) c' = Some s"
    and keys: "is_key_col c \<longrightarrow> to_lowercase (col_name c) = to_lowercase pk" "is_key_col c' \<longrightarrow> to_lowercase (col_name c') = to_lowercase pk"
  shows "to_lowercase (col_name c) = to_lowercase (col_name c')"
proof -
  let ?pk = "to_lowercase pk"
  have pkx: "?pk \<noteq> x @ ''_index''" "?pk \<noteq> x @ ''_dict''" for x
    using ok by (auto simp: key_name_ok_def suffix_def)
  have by_x: "x @ ''_by_'' @ ?pk \<noteq> y @ ''_index''" "x @ ''_by_'' @ ?pk \<noteq> y @ ''_dict''" for x y
  proof -
    have "suffix (CHR ''_'' # w) (CHR ''_'' # ?pk)" if "x @ ''_by_'' @ ?pk = y @ CHR ''_'' # w" "CHR ''_'' \<notin> set w" for w
      by (rule suffix_sep[of _ _ "x @ ''_by''"]) (use that in \<open>auto simp: suffix_def\<close>)
    from this[of "''index''"] this[of "''dict''"] ok show "x @ ''_by_'' @ ?pk \<noteq> y @ ''_index''" "x @ ''_by_'' @ ?pk \<noteq> y @ ''_dict''"
      by (auto simp: key_name_ok_def)
  qed
  have by_pk: "?pk \<noteq> y @ ''_by_'' @ ?pk" for y
  proof
    assume "?pk = y @ ''_by_'' @ ?pk"
    from arg_cong[OF this, of length] show False by simp
  qed
  have ends: "x @ ''_index'' \<noteq> y @ ''_dict''" for x y :: string
  proof
    assume "x @ ''_index'' = y @ ''_dict''"
    from arg_cong[OF this, of last] show False by simp
  qed
  note facts = pkx pkx[symmetric] by_x by_x[symmetric] by_pk by_pk[symmetric] ends ends[symmetric]
  have "db_stem ?pk c = db_stem ?pk c'" "db_stem ?pk c \<noteq> None" using s by simp_all
  then show ?thesis
    using keys facts
    by (cases "(?pk, c)" rule: db_stem.cases; cases "(?pk, c')" rule: db_stem.cases)
      (simp_all del: append_Cons append_Nil, blast+)
qed


subsection \<open>One entity\<close>

lemma those_map_Cons:
  "those (map f (x # xs)) = Some ys \<longleftrightarrow> (\<exists>y ys'. ys = y # ys' \<and> f x = Some y \<and> those (map f xs) = Some ys')"
  by (auto split: option.splits)

lemma those_map_in: "those (map f xs) = Some ys \<Longrightarrow> y \<in> set ys \<Longrightarrow> \<exists>x\<in>set xs. f x = Some y"
  by (induction xs arbitrary: ys) (auto split: option.splits)

lemma macro_names_all:
  assumes "those (map (field_macro e par) cols) = Some ms"
  shows "map def_name (concat (map macro_dbs ms)) = map (\<lambda>s. lower_name e @ ''_'' @ s) (List.map_filter (db_stem (to_lowercase (ed_pk_name e))) cols)"
  using assms
proof (induction cols arbitrary: ms)
  case (Cons c cols)
  then obtain m ms' where "ms = m # ms'" "field_macro e par c = Some m" "those (map (field_macro e par) cols) = Some ms'"
    unfolding those_map_Cons by blast
  with Cons.IH show ?case by (simp add: macro_db_names map_filter_Cons split: option.splits)
qed (simp add: List.map_filter_def)

lemma distinct_map_filter:
  assumes "distinct (map g xs)" and "\<And>x y s. x \<in> set xs \<Longrightarrow> y \<in> set xs \<Longrightarrow> f x = Some s \<Longrightarrow> f y = Some s \<Longrightarrow> g x = g y"
  shows "distinct (List.map_filter f xs)"
  using assms
proof (induction xs)
  case (Cons x xs)
  then have IH: "distinct (List.map_filter f xs)" by auto
  have "s \<notin> set (List.map_filter f xs)" if "f x = Some s" for s
  proof
    assume "s \<in> set (List.map_filter f xs)"
    then obtain y where "y \<in> set xs" "f y = Some s" by (auto simp: set_map_filter)
    with Cons.prems(2)[of x y s] that have "g x = g y" by simp
    with Cons.prems(1) \<open>y \<in> set xs\<close> show False by auto
  qed
  with IH show ?case by (auto simp: map_filter_Cons split: option.splits)
qed (simp add: List.map_filter_def)

lemma entity_dbs_distinct:
  assumes ms: "those (map (field_macro e par) cols) = Some ms" and key: "filter is_key_col cols = [Col_Key (ed_key_def e)]"
    and dist: "distinct (map (to_lowercase \<circ> col_name) cols)" and ok: "key_name_ok (ed_pk_name e)"
  shows "distinct (map def_name (concat (map macro_dbs ms)))"
proof -
  have k: "to_lowercase (col_name c) = to_lowercase (ed_pk_name e)" if "c \<in> set cols" "is_key_col c" for c
  proof -
    from that have "c \<in> set (filter is_key_col cols)" by simp
    with key show ?thesis by simp
  qed
  have "distinct (List.map_filter (db_stem (to_lowercase (ed_pk_name e))) cols)"
    using dist by (rule distinct_map_filter) (use db_stem_inj[OF ok] k in auto)
  then show ?thesis unfolding macro_names_all[OF ms] by (simp add: distinct_map inj_on_def)
qed

lemma db_stem_ident:
  assumes "db_stem pk c = Some s" and "list_all ident_char pk" and "rust_ident (col_name c)"
  shows "list_all ident_char s"
  using assms rust_ident_lower[OF assms(3)]
  by (cases "(pk, c)" rule: db_stem.cases) (auto simp: rust_ident_def ident_char_def)

lemma entity_db_name:
  assumes ms: "those (map (field_macro e par) cols) = Some ms" and d: "d \<in> set (concat (map macro_dbs ms))"
    and ids: "rust_ident (ed_entity_name e)" "rust_ident (ed_pk_name e)" "\<forall>c\<in>set cols. rust_ident (col_name c)"
  shows "\<exists>s. def_name d = lower_name e @ CHR ''_'' # s" and "plain_name (def_name d)"
proof -
  from d have "def_name d \<in> set (map def_name (concat (map macro_dbs ms)))" by auto
  then obtain c s where c: "c \<in> set cols" "db_stem (to_lowercase (ed_pk_name e)) c = Some s" "def_name d = lower_name e @ ''_'' @ s"
    unfolding macro_names_all[OF ms] by (auto simp: set_map_filter)
  then show "\<exists>s. def_name d = lower_name e @ CHR ''_'' # s" by auto
  have "list_all ident_char s"
    using db_stem_ident[OF c(2)] rust_ident_lower[OF ids(2)] ids(3) c(1) by (auto simp: rust_ident_def)
  moreover have "list_all ident_char (lower_name e)" using rust_ident_lower[OF ids(1)] by (simp add: rust_ident_def lower_name_def)
  ultimately have "list_all ident_char (def_name d)" using c(3) by (simp add: ident_char_def)
  then show "plain_name (def_name d)" using not_ident_char by (auto simp: plain_name_def list_all_iff)
qed


subsection \<open>Fields of a context\<close>

fun shard_count :: "(bytes_partitioner, xxh3_partitioner) partitioning \<Rightarrow> usize" where
  "shard_count (ByKey (BytesPartitioner n)) = n"
| "shard_count (ByValue (Xxh3Partitioner n)) = n"

text \<open>The partitionings that the readers of the three kinds of tables accept.\<close>

fun kind_matches :: "table_factory \<Rightarrow> ('kp, 'vp) partitioning \<Rightarrow> bool" where
  "kind_matches (Plain_Factory f) (ByKey p) \<longleftrightarrow> True"
| "kind_matches (Index_Factory f) (ByValue p) \<longleftrightarrow> True"
| "kind_matches (Dict_Factory f) (ByValue p) \<longleftrightarrow> True"
| "kind_matches _ _ \<longleftrightarrow> False"

definition has_db :: "db_def list \<Rightarrow> redbit_table_definition \<Rightarrow> bool" where
  "has_db dbs d \<longleftrightarrow> (\<exists>db\<in>set dbs. def_name db = factory_name (rtd_factory d) \<and> def_shards db = shard_count (rtd_partitioning d))"

lemma item_facts:
  assumes "ci_constructor i = New_Table (Some d)"
  shows "i = tx_context_plain_item pd \<Longrightarrow> factory_name (rtd_factory d) = pd_var_name pd \<and> shard_count (rtd_partitioning d) = cp_shards (pd_column_props pd) \<and>
           kind_matches (rtd_factory d) (rtd_partitioning d) \<and> ci_var_name i = factory_name (rtd_factory d)"
    and "i = tx_context_index_item xd \<Longrightarrow> factory_name (rtd_factory d) = xd_var_name xd \<and> shard_count (rtd_partitioning d) = cp_shards (xd_column_props xd) \<and>
           kind_matches (rtd_factory d) (rtd_partitioning d) \<and> ci_var_name i = factory_name (rtd_factory d)"
    and "i = tx_context_dict_item dd \<Longrightarrow> factory_name (rtd_factory d) = dd_var_name dd \<and> shard_count (rtd_partitioning d) = cp_shards (dd_column_props dd) \<and>
           kind_matches (rtd_factory d) (rtd_partitioning d) \<and> ci_var_name i = factory_name (rtd_factory d)"
  using assms
  by (auto simp: tx_context_plain_item_def tx_context_index_item_def tx_context_dict_item_def redbit_table_definition_new_def
      plain_factory_new_def index_factory_new_def dict_factory_new_def by_key_shards_def by_value_shards_def
      bytes_partitioner_new_def xxh3_partitioner_new_def split: if_splits)

lemma rel_macros_item: "rel_macros_new e f n w = Some r \<Longrightarrow> \<exists>t. rlm_item r = tx_context_child_item (fd_name f) t"
  by (auto simp: rel_macros_new_def Option.bind_eq_Some_conv)

lemma has_dbI:
  "db_of n p \<in> set dbs \<Longrightarrow> factory_name (rtd_factory d) = n \<Longrightarrow> shard_count (rtd_partitioning d) = cp_shards p \<Longrightarrow> has_db dbs d"
  unfolding has_db_def by (rule bexI[of _ "db_of n p"]) (simp_all add: db_of_def)

lemma has_db_mono: "has_db dbs d \<Longrightarrow> set dbs \<subseteq> set dbs' \<Longrightarrow> has_db dbs' d"
  unfolding has_db_def by blast

lemma macro_item:
  assumes "field_macro e par c = Some m" and "i \<in> set (tx_context_items m)" and "ci_constructor i = New_Table (Some d)"
  shows "has_db (macro_dbs m) d \<and> kind_matches (rtd_factory d) (rtd_partitioning d) \<and> ci_var_name i = factory_name (rtd_factory d)"
proof -
  have plain: ?thesis if "i = tx_context_plain_item pd" "pd \<in> set (plain_table_definitions m)" for pd
    using item_facts(1)[OF assms(3) that(1)] that(2) has_dbI[of "pd_var_name pd" "pd_column_props pd" "macro_dbs m" d] by (simp add: macro_dbs_def)
  have index: ?thesis if "i = tx_context_index_item xd" "index_table_definitions m = Some xd" for xd
    using item_facts(2)[OF assms(3) that(1)] that(2) has_dbI[of "xd_var_name xd" "xd_column_props xd" "macro_dbs m" d] by (simp add: macro_dbs_def)
  have dict: ?thesis if "i = tx_context_dict_item dd" "dict_table_definitions m = Some dd" for dd
    using item_facts(3)[OF assms(3) that(1)] that(2) has_dbI[of "dd_var_name dd" "dd_column_props dd" "macro_dbs m" d] by (simp add: macro_dbs_def)
  show ?thesis
  proof (cases "(to_lowercase (ed_pk_name e), c)" rule: db_stem.cases)
    case (1 pk k)
    with assms(1) field_macro_key[of e par k] obtain n p where m: "m = Fm_Pk (pk_macros_new e n p)" by fastforce
    with assms(2) show ?thesis by (intro plain[of "pkm_plain (pk_macros_new e n p)"]) (simp_all add: macro_defs)
  next
    case (2 pk f p u q)
    with assms(1,2) show ?thesis by (intro plain[of "hd (cm_plains (column_macros_plain e f p))"]) (auto simp: macro_defs)
  next
    case (3 pk f p u q)
    with assms(1,2) show ?thesis by (intro index[of "index_defs_new e (fd_name f) (fd_tpe f) p"]) (auto simp: macro_defs)
  next
    case (4 pk f p u q)
    with assms(1,2) show ?thesis by (intro index[of "index_defs_new e (fd_name f) (fd_tpe f) p"]) (auto simp: macro_defs)
  next
    case (5 pk f p u q)
    with assms(1,2) show ?thesis by (intro dict[of "dict_defs_new e (fd_name f) (fd_tpe f) p"]) (auto simp: macro_defs)
  next
    case "6_1"
    then obtain f w u n where "c = Col_Relationship f w u n" by auto
    with assms(1) obtain r where r: "rel_macros_new e f n w = Some r" "m = Fm_Relationship r" by auto
    with assms(2,3) rel_macros_item[OF r(1)] show ?thesis by (auto simp: tx_context_child_item_def)
  qed (use assms(1,2) in auto)
qed

lemma ctx_definition_fields:
  assumes "ctx_definition child is = Some (Inr fs)" and "(n, Table_Field d) \<in> set fs"
  shows "\<exists>i\<in>set is. ci_var_name i = n \<and> ci_constructor i = New_Table (Some d)"
  using assms
proof (induction "is" arbitrary: fs)
  case (Cons i "is")
  then show ?case
    by (fastforce simp: map_sum_eq_Inr split: ctx_constructor.splits option.splits sum.splits)
qed simp

lemma entity_field_table:
  assumes ms: "those (map (field_macro e par) cols) = Some ms" and c: "ctx_definition child (eo_items (entity_out_of e ms)) = Some (Inr fs)"
    and d: "(n, Table_Field d) \<in> set fs"
  shows "has_db (concat (map macro_dbs ms)) d \<and> kind_matches (rtd_factory d) (rtd_partitioning d) \<and> n = factory_name (rtd_factory d)"
proof -
  from ctx_definition_fields[OF c d] obtain m i where i: "m \<in> set ms" "i \<in> set (tx_context_items m)" "ci_var_name i = n" "ci_constructor i = New_Table (Some d)"
    by (auto simp: entity_out_of_def Let_def)
  from those_map_in[OF ms i(1)] obtain c where "field_macro e par c = Some m" by blast
  from macro_item[OF this i(2,4)] i(3) has_db_mono[of "macro_dbs m" d "concat (map macro_dbs ms)"] i(1) show ?thesis by auto
qed


subsection \<open>The databases of a storage\<close>

text \<open>The allocation of the cache keeps the names and the numbers of shards.\<close>

lemma give_remainder_idx: "give_remainder defs ss r = Some ss' \<Longrightarrow> map sh_idx ss' = map sh_idx ss"
proof (induction defs ss r arbitrary: ss' rule: give_remainder.induct)
  case (2 defs s ss r)
  then show ?case by (auto split: if_splits simp: Let_def)
qed simp

lemma those_allocations:
  assumes "collect_allocations_mb ss db_defs = Some defs"
  shows "map (\<lambda>d. (dc_name d, dc_shards d)) defs = map (\<lambda>s. (def_name (db_defs ! sh_idx s), def_shards (db_defs ! sh_idx s))) ss"
  using assms unfolding collect_allocations_mb_def
proof (induction ss arbitrary: defs)
  case (Cons s ss)
  then obtain d ds where "defs = d # ds" "allocation_mb db_defs s = Some d" "those (map (allocation_mb db_defs) ss) = Some ds"
    unfolding those_map_Cons by blast
  moreover have "dc_name d = def_name (db_defs ! sh_idx s) \<and> dc_shards d = def_shards (db_defs ! sh_idx s)"
    using \<open>allocation_mb db_defs s = Some d\<close> by (auto simp: allocation_mb_def Let_def with_cache_new_def split: if_splits)
  ultimately show ?case using Cons.IH by simp
qed simp

lemma allocate_keeps_defs:
  assumes "allocate_cache_mb db_defs mb = Some defs"
  shows "mset (map (\<lambda>d. (dc_name d, dc_shards d)) defs) = mset (map (\<lambda>d. (def_name d, def_shards d)) db_defs)"
proof -
  let ?pair = "\<lambda>i. (def_name (db_defs ! i), def_shards (db_defs ! i))"
  have all: "map ?pair [0..<length db_defs] = map (\<lambda>d. (def_name d, def_shards d)) db_defs"
    by (rule nth_equalityI) simp_all
  have zeros: ?thesis if "defs = map (\<lambda>d. with_cache_new d 0) db_defs" using that by (simp add: with_cache_new_def image_mset.compositionality o_def)
  have "?thesis" if "collect_allocations_mb ss db_defs = Some defs" "mset (map sh_idx ss) = mset [0..<length db_defs]" for ss
  proof -
    have "mset (map (\<lambda>d. (dc_name d, dc_shards d)) defs) = image_mset ?pair (mset (map sh_idx ss))"
      unfolding those_allocations[OF that(1)] by (simp add: image_mset.compositionality o_def)
    also have "\<dots> = mset (map ?pair [0..<length db_defs])" unfolding that(2) by simp
    finally show ?thesis unfolding all .
  qed note collected = this
  have idx: "map sh_idx (compute_shares_mb db_defs t W) = [0..<length db_defs]" for t W
    by (rule nth_equalityI) (simp_all add: compute_shares_mb_def share_of_def Let_def)
  show ?thesis
  proof (cases "defs = map (\<lambda>d. with_cache_new d 0) db_defs")
    case False
    with assms obtain W ss where
      ss: "(\<exists>r. distribute_remainder_mb (compute_shares_mb db_defs mb W) r db_defs = Some ss) \<or> ss = compute_shares_mb db_defs mb W"
        "collect_allocations_mb ss db_defs = Some defs"
      by (auto simp: allocate_cache_mb_def Let_def Option.bind_eq_Some_conv split: if_splits)
    from ss(1) have "mset (map sh_idx ss) = mset [0..<length db_defs]"
    proof
      assume "\<exists>r. distribute_remainder_mb (compute_shares_mb db_defs mb W) r db_defs = Some ss"
      then obtain r ss1 where ss1: "give_remainder db_defs (sort by_remainder (compute_shares_mb db_defs mb W)) r = Some ss1" "ss = sort (key sh_idx default) ss1"
        by (auto simp: distribute_remainder_mb_def)
      then have "mset (map sh_idx ss) = mset (map sh_idx ss1)" by simp
      also have "\<dots> = mset (map sh_idx (compute_shares_mb db_defs mb W))" unfolding give_remainder_idx[OF ss1(1)] by simp
      finally show ?thesis unfolding idx .
    qed (simp only: idx)
    with ss(2) show ?thesis by (rule collected)
  qed (rule zeros)
qed

lemma storage_has_dbs:
  assumes D: "disk_laws D" and dist: "distinct (map def_name db_defs)" and plain: "\<forall>d\<in>set db_defs. plain_name (def_name d)"
    and new: "\<not> dir_exists dir" and r: "storage_init D db_defs gb dir = Some (dir', Inr (created, m))" and d: "d \<in> set db_defs"
  shows "\<exists>dbs. fetch_dbs m (def_name d) = Inr dbs \<and> length dbs = def_shards d \<and> dbs \<noteq> []"
proof -
  from r obtain defs where al: "allocate_cache_mb db_defs (gb * 1024) = Some defs" by (auto simp: storage_init_def Option.bind_eq_Some_conv)
  obtain fs q where "build_owned_map_create D Map.empty defs (dir_files dir) = (fs, q)" by (cases "build_owned_map_create D Map.empty defs (dir_files dir)")
  with new r al have b: "build_owned_map_create D Map.empty defs (dir_files dir) = (fs, Inr m)"
    by (cases "create_dir D") (simp_all add: storage_init_def map_sum_eq_Inr)
  note al = allocate_keeps_defs[OF al]
  from arg_cong[OF al, of "image_mset fst"] have n: "mset (map dc_name defs) = mset (map def_name db_defs)"
    by (simp add: image_mset.compositionality o_def)
  have dist': "distinct (map dc_name defs)" using dist mset_eq_imp_distinct_iff[OF n] by simp
  have "dc_name ` set defs = def_name ` set db_defs" using mset_eq_setD[OF n] by simp
  then have plain': "\<forall>d\<in>set defs. plain_name (dc_name d)" using plain by (metis (no_types, lifting) imageE imageI)
  from d have "(def_name d, def_shards d) \<in> set (map (\<lambda>d. (dc_name d, dc_shards d)) defs)" using mset_eq_setD[OF al] by auto
  then obtain d' where "d' \<in> set defs" "dc_name d' = def_name d" "dc_shards d' = def_shards d" by auto
  with build_create_ok[OF D b dist' plain'] show ?thesis by (force simp: fetch_dbs_def holds_def)
qed


subsection \<open>All entities\<close>

record struct_src =
  ss_name :: string
  ss_fields :: "syn_field list"

definition expands :: "(string \<Rightarrow> syn_type option) \<Rightarrow> (string \<Rightarrow> string) \<Rightarrow> struct_src \<Rightarrow> entity_out \<Rightarrow> bool" where
  "expands parse_type snake s out \<longleftrightarrow> entity_new parse_type snake (ss_name s) (Named (ss_fields s)) = Some (Inr out)"

text \<open>
  Names as Rust has them: identifiers, fields that differ by more than case, and structs in camel case, without an
  underscore.
\<close>

definition names_ok :: "struct_src \<Rightarrow> bool" where
  "names_ok s \<longleftrightarrow> rust_ident (ss_name s) \<and> CHR ''_'' \<notin> set (ss_name s) \<and>
     (\<forall>f\<in>set (ss_fields s). case sf_ident f of Some n \<Rightarrow> rust_ident n | None \<Rightarrow> False) \<and>
     distinct (map (map_option to_lowercase \<circ> sf_ident) (ss_fields s))"

lemma expandsE:
  assumes "expands pt snake s out"
  obtains k cols e par ms where "get_field_macros pt snake (Named (ss_fields s)) = Inr (k, cols)" and "one_to_many_parent_def k = Some par"
    and "those (map (field_macro e par) cols) = Some ms" and "out = entity_out_of e ms" and "ed_key_def e = k" and "ed_entity_name e = ss_name s"
    and "eo_def out = e"
proof -
  from assms obtain k cols e par ms where 1: "get_field_macros pt snake (Named (ss_fields s)) = Inr (k, cols)"
    "field_macros_new (ss_name s) (Ty_Path (ss_name s) None) (k, cols) = Some (e, par, ms)" "out = entity_out_of e ms"
    by (auto simp: expands_def entity_new_def split: sum.splits)
  from 1(2) have "one_to_many_parent_def k = Some par" "those (map (field_macro e par) cols) = Some ms" "ed_key_def e = k" "ed_entity_name e = ss_name s"
    by (auto simp: field_macros_new_def entity_def_new_def Option.bind_eq_Some_conv)
  with 1 show thesis by (intro that[of k cols par e ms]) (simp_all add: entity_out_of_def Let_def)
qed

lemma expanded_names:
  assumes "get_field_macros pt snake (Named (ss_fields s)) = Inr (k, cols)" and "names_ok s"
  shows "distinct (map (to_lowercase \<circ> col_name) cols)" and "\<forall>c\<in>set cols. rust_ident (col_name c)" and "rust_ident (fd_name (key_field_def k))"
proof -
  note n = get_field_macros_names[OF assms(1)]
  from arg_cong[OF n(1), of "image_mset (map_option to_lowercase)"]
  have "mset (map (Some \<circ> (to_lowercase \<circ> col_name)) cols) = mset (map (map_option to_lowercase \<circ> sf_ident) (ss_fields s))"
    by (simp add: image_mset.compositionality o_def)
  from mset_eq_imp_distinct_iff[OF this] assms(2) have "distinct (map (Some \<circ> (to_lowercase \<circ> col_name)) cols)" by (simp add: names_ok_def)
  then show "distinct (map (to_lowercase \<circ> col_name) cols)" by (simp add: distinct_map inj_on_def)
  have sets: "Some ` col_name ` set cols = sf_ident ` set (ss_fields s)" using mset_eq_setD[OF n(1)] by (simp add: image_image)
  show *: "\<forall>c\<in>set cols. rust_ident (col_name c)"
  proof
    fix c assume "c \<in> set cols"
    with sets have "Some (col_name c) \<in> sf_ident ` set (ss_fields s)" by blast
    then obtain f where "f \<in> set (ss_fields s)" "sf_ident f = Some (col_name c)" by (metis imageE)
    with assms(2) show "rust_ident (col_name c)" by (fastforce simp: names_ok_def)
  qed
  have "Col_Key k \<in> set (filter is_key_col cols)" unfolding n(2) by simp
  then have "Col_Key k \<in> set cols" by simp
  with * show "rust_ident (fd_name (key_field_def k))" by fastforce
qed

definition key_names_ok :: "entity_out list \<Rightarrow> bool" where
  "key_names_ok es \<longleftrightarrow> (\<forall>out\<in>set es. key_name_ok (ed_pk_name (eo_def out)))"

lemma expanded_dbs:
  assumes "expands pt snake s out" and "names_ok s" and "key_name_ok (ed_pk_name (eo_def out))"
  shows "distinct (map def_name (eo_db_defs out))"
    and "\<And>d. d \<in> set (eo_db_defs out) \<Longrightarrow> plain_name (def_name d) \<and> (\<exists>t. def_name d = to_lowercase (ss_name s) @ CHR ''_'' # t)"
proof -
  obtain k cols e par ms where e: "get_field_macros pt snake (Named (ss_fields s)) = Inr (k, cols)"
    "those (map (field_macro e par) cols) = Some ms" "out = entity_out_of e ms" "ed_key_def e = k" "ed_entity_name e = ss_name s" "eo_def out = e"
    using expandsE[OF assms(1)] by metis
  note n = expanded_names[OF e(1) assms(2)]
  have dbs: "mset (eo_db_defs out) = mset (concat (map macro_dbs ms))" unfolding e(3) by (rule entity_dbs)
  have "filter is_key_col cols = [Col_Key (ed_key_def e)]" using get_field_macros_names(2)[OF e(1)] e(4) by simp
  from entity_dbs_distinct[OF e(2) this n(1)] assms(3) e(6) have "distinct (map def_name (concat (map macro_dbs ms)))" by simp
  with mset_eq_imp_distinct_iff[of "map def_name (eo_db_defs out)" "map def_name (concat (map macro_dbs ms))"] dbs
  show "distinct (map def_name (eo_db_defs out))" by simp
  fix d assume "d \<in> set (eo_db_defs out)"
  then have "d \<in> set (concat (map macro_dbs ms))" using mset_eq_setD[OF dbs] by simp
  from entity_db_name[OF e(2) this] n(2,3) e(4,5) assms(2)
  show "plain_name (def_name d) \<and> (\<exists>t. def_name d = to_lowercase (ss_name s) @ CHR ''_'' # t)" by (simp add: names_ok_def lower_name_def)
qed

lemma lower_no_underscore: "CHR ''_'' \<notin> set s \<Longrightarrow> rust_ident s \<Longrightarrow> CHR ''_'' \<notin> set (to_lowercase s)"
proof -
  have "ascii_lower c \<noteq> CHR ''_''" if "c \<noteq> CHR ''_''" for c
  proof
    assume l: "ascii_lower c = CHR ''_''"
    show False
    proof (cases "65 \<le> (of_char c :: nat) \<and> of_char c \<le> (90 :: nat)")
      case True
      then have "of_char (ascii_lower c) = (of_char c + 32 :: nat)" by (simp add: ascii_lower_def)
      with l True show False by simp
    qed (use l that in \<open>auto simp: ascii_lower_def\<close>)
  qed
  then show "CHR ''_'' \<notin> set s \<Longrightarrow> CHR ''_'' \<notin> set (to_lowercase s)" by (metis (no_types, lifting) imageE list.set_map to_lowercase_def)
qed

lemma all_dbs:
  assumes "list_all2 (expands pt snake) srcs es" and "\<forall>s\<in>set srcs. names_ok s" and "distinct (map (to_lowercase \<circ> ss_name) srcs)" and "key_names_ok es"
  shows "distinct (map def_name (build_db_defs es))" and "\<forall>d\<in>set (build_db_defs es). plain_name (def_name d)"
    and "\<forall>d\<in>set (build_db_defs es). \<exists>s\<in>set srcs. \<exists>t. def_name d = to_lowercase (ss_name s) @ CHR ''_'' # t"
proof -
  have "distinct (map def_name (build_db_defs es)) \<and> (\<forall>d\<in>set (build_db_defs es). plain_name (def_name d)) \<and>
      (\<forall>d\<in>set (build_db_defs es). \<exists>s\<in>set srcs. \<exists>t. def_name d = to_lowercase (ss_name s) @ CHR ''_'' # t)"
    using assms
  proof (induction rule: list_all2_induct)
    case (Cons s srcs out es)
    then have ok: "names_ok s" "key_name_ok (ed_pk_name (eo_def out))" and IH: "distinct (map def_name (build_db_defs es))"
      "\<forall>d\<in>set (build_db_defs es). plain_name (def_name d)"
      "\<forall>d\<in>set (build_db_defs es). \<exists>s\<in>set srcs. \<exists>t. def_name d = to_lowercase (ss_name s) @ CHR ''_'' # t" by (auto simp: key_names_ok_def)
    note x = expanded_dbs[OF Cons.hyps(1) ok]
    have "def_name d \<noteq> def_name d'" if "d \<in> set (eo_db_defs out)" "d' \<in> set (build_db_defs es)" for d d'
    proof
      assume eq: "def_name d = def_name d'"
      from x(2)[OF that(1)] obtain t where t: "def_name d = to_lowercase (ss_name s) @ CHR ''_'' # t" by blast
      from IH(3) that(2) obtain s' t' where t': "s' \<in> set srcs" "def_name d' = to_lowercase (ss_name s') @ CHR ''_'' # t'" by blast
      have "to_lowercase (ss_name s) = to_lowercase (ss_name s')"
        using append_sep_eq[of _ _ t _ t'] eq t t'(2) lower_no_underscore Cons.prems(1) t'(1) ok(1)
        by (metis list.set_intros(2) names_ok_def)
      with Cons.prems(2) t'(1) show False by auto
    qed
    then have disj: "def_name ` set (eo_db_defs out) \<inter> def_name ` set (build_db_defs es) = {}" by blast
    have dbs: "build_db_defs (out # es) = eo_db_defs out @ build_db_defs es" by (simp add: build_db_defs_def)
    show ?case unfolding dbs map_append distinct_append set_append ball_Un set_map using x IH disj by auto
  qed (simp add: build_db_defs_def)
  then show "distinct (map def_name (build_db_defs es))" "\<forall>d\<in>set (build_db_defs es). plain_name (def_name d)"
    "\<forall>d\<in>set (build_db_defs es). \<exists>s\<in>set srcs. \<exists>t. def_name d = to_lowercase (ss_name s) @ CHR ''_'' # t" by blast+
qed


subsection \<open>Properties\<close>

lemma open_shards_all: "\<forall>db. \<exists>t. f db = Inr t \<Longrightarrow> \<exists>ts. open_shards f dbs = Inr ts"
proof (induction dbs)
  case (Cons db dbs)
  then obtain t ts where "f db = Inr t" "open_shards f dbs = Inr ts" by meson
  then show ?case by simp
qed simp

lemma reader_made:
  assumes "kind_matches f part" and "dbs \<noteq> []"
    and "\<forall>p db. \<exists>t. o1 p db = Inr t" and "\<forall>p db. \<exists>t. o2 p db = Inr t" and "\<forall>p db. \<exists>t. o3 p db = Inr t"
  shows "\<exists>rd. reader_from_dbs (map_read_factory o1 o2 o3 f) dbs (map_partitioning kp vp part) = Inr rd"
proof -
  have "\<exists>ts. open_shards (o1 p) dbs = Inr ts" "\<exists>ts. open_shards (o2 p2) dbs = Inr ts" "\<exists>ts. open_shards (o3 p3) dbs = Inr ts" for p p2 p3
    using assms(3-5) by (simp_all add: open_shards_all)
  with assms(1,2) show ?thesis
    by (cases "(f, part)" rule: kind_matches.cases) (force simp: reader_from_dbs_def build_sharded_reader_def map_sum_eq_Inr Suc_le_eq)+
qed

text \<open>
  C12. Every table of every entity has databases of its own, as many as its partitioner counts on. When the
  names of structs and fields are those of Rust (structs without an underscore, fields that differ by more than
  case) and no key is called \<open>index\<close> or \<open>dict\<close> or ends in \<open>_index\<close> or \<open>_dict\<close>, the databases that the macro declares for all
  entities have different names; and in a storage made from them, the context of every entity finds for each of its
  tables as many databases as the partitioner of the table has shards. The writer gets one thread for each of
  them, and the reader accepts the partitioning and is made whenever the tables can be opened.
\<close>

theorem contexts_find_databases:
  assumes "list_all2 (expands parse_type snake) srcs es" and "\<forall>s\<in>set srcs. names_ok s" and "distinct (map (to_lowercase \<circ> ss_name) srcs)"
    and "key_names_ok es" and "disk_laws D" and "\<not> dir_exists dir"
    and "storage_init D (build_db_defs es) gb dir = Some (dir', Inr (created, m))"
    and "out \<in> set es" and "ctx_definition child (eo_items out) = Some (Inr fs)" and "(n, Table_Field d) \<in> set fs"
  shows "distinct (map def_name (build_db_defs es)) \<and>
         (\<exists>dbs. fetch_dbs m n = Inr dbs \<and> length dbs = shard_count (rtd_partitioning d) \<and>
            table_field_writer m d = Inr \<lparr>sw_root_pk = rtd_root_pk d, sw_shards = map (\<lambda>db. (db, rtd_factory d)) dbs,
                                          sw_router = rtd_partitioning d, sw_deferred = False\<rparr> \<and>
            ((\<forall>p db. \<exists>t. o1 p db = Inr t) \<and> (\<forall>p db. \<exists>t. o2 p db = Inr t) \<and> (\<forall>p db. \<exists>t. o3 p db = Inr t) \<longrightarrow>
               (\<exists>rd. table_field_reader (map_read_factory o1 o2 o3) kp vp m d = Inr rd)))"
proof -
  note dbs = all_dbs[OF assms(1-4)]
  from assms(1,8) obtain s where "expands parse_type snake s out" by (metis list_all2_conv_all_nth in_set_conv_nth)
  from expandsE[OF this] obtain k cols e par ms where e: "those (map (field_macro e par) cols) = Some ms" "out = entity_out_of e ms" by metis
  from entity_field_table[OF e(1)] assms(9,10) e(2) have
    f: "has_db (concat (map macro_dbs ms)) d" "kind_matches (rtd_factory d) (rtd_partitioning d)" "n = factory_name (rtd_factory d)" by blast+
  have "set (concat (map macro_dbs ms)) \<subseteq> set (build_db_defs es)"
    using mset_eq_setD[OF entity_dbs[of e ms]] assms(8) e(2) by (auto simp: build_db_defs_def)
  from has_db_mono[OF f(1) this] obtain db where
    db: "db \<in> set (build_db_defs es)" "def_name db = n" "def_shards db = shard_count (rtd_partitioning d)" unfolding has_db_def f(3) by blast
  from storage_has_dbs[OF assms(5) dbs(1,2) assms(6,7) db(1)] db(2,3) obtain v where
    v: "fetch_dbs m n = Inr v" "length v = shard_count (rtd_partitioning d)" "v \<noteq> []" by auto
  have "\<exists>rd. table_field_reader (map_read_factory o1 o2 o3) kp vp m d = Inr rd"
    if "(\<forall>p db. \<exists>t. o1 p db = Inr t) \<and> (\<forall>p db. \<exists>t. o2 p db = Inr t) \<and> (\<forall>p db. \<exists>t. o3 p db = Inr t)"
    using reader_made[OF f(2) v(3), of o1 o2 o3 kp vp] that v(1) f(3) by (simp add: table_field_reader_def)
  with dbs(1) v f(3) show ?thesis by (auto simp: table_field_writer_def writer_from_dbs_def)
qed


text \<open>The condition on the key is needed: with a key called \<open>index\<close> two columns get one database.\<close>

lemma key_called_index_collides:
  assumes "to_lowercase (ed_pk_name e) = ''index''"
  shows "pd_var_name (plain_defs_new (plain_table_def e ''a'' t) p r) = xd_var_name (index_defs_new e ''a_by'' t' p')"
  using assms by (simp add: plain_defs_new_def var_names to_lowercase_def ascii_lower_def)

text \<open>A block with an indexed hash in two shards and a plain size.\<close>

definition demo_block_src :: struct_src where
  "demo_block_src = \<lparr>ss_name = ''Block'', ss_fields =
     [\<lparr>sf_ident = Some ''height'', sf_ty = Ty_Path ''Height'' None, sf_attrs = [\<lparr>at_path = ''pk'', at_metas = None\<rparr>]\<rparr>,
      \<lparr>sf_ident = Some ''hash'', sf_ty = Ty_Path ''Hash'' None,
       sf_attrs = [\<lparr>at_path = ''column'', at_metas = Some [Meta_Ident ''index'', Meta_Int ''shards'' 2]\<rparr>]\<rparr>,
      \<lparr>sf_ident = Some ''size'', sf_ty = Ty_Path ''Size'' None, sf_attrs = [\<lparr>at_path = ''column'', at_metas = None\<rparr>]\<rparr>]\<rparr>"

lemma demo_block_ok: "names_ok demo_block_src"
  by code_simp

definition demo_block_key :: key_def where
  "demo_block_key = Pk \<lparr>fd_name = ''height'', fd_tpe = Ty_Path ''Height'' None\<rparr> (column_props_for_key 0)"

definition demo_block_cols :: "column_def list" where
  "demo_block_cols = [Col_Plain \<lparr>fd_name = ''hash'', fd_tpe = Ty_Path ''Hash'' None\<rparr> (Index (column_props_new 2 0 0)) False False,
     Col_Plain \<lparr>fd_name = ''size'', fd_tpe = Ty_Path ''Size'' None\<rparr> (Off (column_props_new 1 0 0)) False False, Col_Key demo_block_key]"

lemma demo_block_columns:
  "get_field_macros (\<lambda>s. Some (Ty_Path s None)) id (Named (ss_fields demo_block_src)) = Inr (demo_block_key, demo_block_cols)"
  by (simp add: get_field_macros_def get_named_fields_def demo_block_src_def parse_entity_field_def
      parse_nested_meta_def pk_meta_def column_meta_def column_flags_init_def get_column_usize_attr_def
      column_of_flags_def take_and_chain_relation_with_plain_def extract_dependency_def Let_def demo_block_key_def demo_block_cols_def)


definition demo_block_entity :: entity_def where
  "demo_block_entity = the (entity_def_new demo_block_key ''Block'' (Ty_Path ''Block'' None))"

definition demo_block_macros :: "field_macros list" where
  "demo_block_macros = the (those (map (field_macro demo_block_entity None) demo_block_cols))"

lemma demo_block_expands: "expands (\<lambda>s. Some (Ty_Path s None)) id demo_block_src (entity_out_of demo_block_entity demo_block_macros)"
proof -
  have "ss_name demo_block_src = ''Block''" by (simp add: demo_block_src_def)
  moreover have "field_macros_new ''Block'' (Ty_Path ''Block'' None) (demo_block_key, demo_block_cols) = Some (demo_block_entity, None, demo_block_macros)"
    by (simp add: field_macros_new_def demo_block_key_def demo_block_cols_def one_to_many_parent_def_def entity_def_new_def filter_query_type_def
        entity_tx_context_def_type_def entity_tx_context_type_def table_info_type_def demo_block_entity_def demo_block_macros_def)
  ultimately show ?thesis unfolding expands_def entity_new_def demo_block_columns by simp
qed

lemma demo_storage:
  assumes "\<forall>d\<in>set defs. 0 < def_shards d"
  shows "\<exists>dir' m. storage_init (demo_disk False) defs 0 \<lparr>dir_exists = False, dir_files = Map.empty\<rparr> = Some (dir', Inr (True, m))"
proof -
  have c: "\<exists>fs' v. create_shards (demo_disk False) d is fs = (fs', Inr v)" for d "is" fs
  proof (induction "is" arbitrary: fs)
    case (Cons i "is")
    let ?p = "shard_path d i"
    from Cons[of "fs(?p \<mapsto> ?p)"] obtain fs' v where "create_shards (demo_disk False) d is (fs(?p \<mapsto> ?p)) = (fs', Inr v)" by blast
    then show ?case by (simp add: demo_disk_def)
  qed simp
  have "\<exists>fs' m. build_owned_map_create (demo_disk False) out ds fs = (fs', Inr m)" if "\<forall>d\<in>set ds. 0 < dc_shards d" for out ds fs
    using that
  proof (induction ds arbitrary: out fs)
    case (Cons d ds)
    from c[of d "[0..<dc_shards d]" fs] obtain fs' v where "create_shards (demo_disk False) d [0..<dc_shards d] fs = (fs', Inr v)" by blast
    with Cons show ?case by (simp add: validate_def)
  qed simp
  from this[of "map (\<lambda>d. with_cache_new d 0) defs" Map.empty Map.empty] assms show ?thesis
    by (auto simp: storage_init_def allocate_cache_mb_def demo_disk_def with_cache_new_def)
qed


lemma ctx_definition_tables: "\<forall>i\<in>set is. \<exists>d. ci_constructor i = New_Table (Some d) \<Longrightarrow> \<exists>fs. ctx_definition child is = Some (Inr fs)"
  by (induction "is") auto

lemma ctx_definition_Cons_table:
  "xs = i # is \<Longrightarrow> ci_constructor i = New_Table (Some d) \<Longrightarrow> ci_var_name i = n \<Longrightarrow> ctx_definition child is = Some (Inr fs) \<Longrightarrow>
   ctx_definition child xs = Some (Inr ((n, Table_Field d) # fs))"
  by simp

theorem contexts_find_databases_witness:
  "\<exists>dir' m fs d dbs. storage_init (demo_disk False) (build_db_defs [entity_out_of demo_block_entity demo_block_macros]) 0
       \<lparr>dir_exists = False, dir_files = Map.empty\<rparr> = Some (dir', Inr (True, m)) \<and>
     ctx_definition (\<lambda>t. None :: unit res option) (eo_items (entity_out_of demo_block_entity demo_block_macros)) = Some (Inr fs) \<and>
     (''block_hash_index'', Table_Field d) \<in> set fs \<and> shard_count (rtd_partitioning d) = 2 \<and>
     fetch_dbs m ''block_hash_index'' = Inr dbs \<and> length dbs = 2"
proof -
  let ?out = "entity_out_of demo_block_entity demo_block_macros"
  have ms: "demo_block_macros = [Fm_Plain (column_macros_index demo_block_entity \<lparr>fd_name = ''hash'', fd_tpe = Ty_Path ''Hash'' None\<rparr> None False (column_props_new 2 0 0)),
      Fm_Plain (column_macros_plain demo_block_entity \<lparr>fd_name = ''size'', fd_tpe = Ty_Path ''Size'' None\<rparr> (column_props_new 1 0 0)),
      Fm_Pk (pk_macros_new demo_block_entity None (column_props_for_key 0))]"
    by (simp add: demo_block_macros_def demo_block_cols_def demo_block_key_def)
  have e: "ed_entity_name demo_block_entity = ''Block''" "ed_key_def demo_block_entity = demo_block_key"
    by (simp_all add: demo_block_entity_def entity_def_new_def filter_query_type_def entity_tx_context_def_type_def entity_tx_context_type_def table_info_type_def)
  have "\<forall>d\<in>set (concat (map macro_dbs demo_block_macros)). 0 < def_shards d"
    unfolding ms by (simp add: macro_dbs_def macro_defs db_of_def index_defs_new_def column_props_new_def column_props_for_key_def)
  then have "\<forall>d\<in>set (eo_db_defs ?out). 0 < def_shards d"
    unfolding mset_eq_setD[OF entity_dbs[of demo_block_entity demo_block_macros]] .
  then have "\<forall>d\<in>set (build_db_defs [?out]). 0 < def_shards d" by (simp add: build_db_defs_def)
  from demo_storage[OF this] obtain dir' m where
    st: "storage_init (demo_disk False) (build_db_defs [?out]) 0 \<lparr>dir_exists = False, dir_files = Map.empty\<rparr> = Some (dir', Inr (True, m))" by blast
  let ?ix = "index_defs_new demo_block_entity ''hash'' (Ty_Path ''Hash'' None) (column_props_new 2 0 0)"
  have items: "eo_items ?out = tx_context_index_item ?ix # tl (eo_items ?out)"
    by (simp add: entity_out_of_def Let_def ms column_macros_index_def column_macros_plain_def)
  have "to_lowercase ''Block'' = ''block''" "to_lowercase ''hash'' = ''hash''" by code_simp+
  then have "xd_var_name ?ix = ''block_hash_index''" by (simp add: var_names e del: to_lowercase_Cons)
  then have "\<exists>d. ci_var_name (tx_context_index_item ?ix) = ''block_hash_index'' \<and> ci_constructor (tx_context_index_item ?ix) = New_Table (Some d) \<and> shard_count (rtd_partitioning d) = 2"
    by (simp add: tx_context_index_item_def by_value_shards_def xxh3_partitioner_new_def column_props_new_def redbit_table_definition_new_def index_defs_new_def Let_def)
  then obtain d where d: "ci_var_name (tx_context_index_item ?ix) = ''block_hash_index''" "ci_constructor (tx_context_index_item ?ix) = New_Table (Some d)"
    "shard_count (rtd_partitioning d) = 2" by blast
  have "\<exists>d. ci_constructor i = New_Table (Some d)" if "i \<in> set (tl (eo_items ?out))" for i
    using that by (auto simp: entity_out_of_def Let_def ms macro_defs tx_context_plain_item_def by_key_shards_def bytes_partitioner_new_def
        column_props_new_def column_props_for_key_def)
  then obtain fs0 where "ctx_definition (\<lambda>t. None :: unit res option) (tl (eo_items ?out)) = Some (Inr fs0)"
    using ctx_definition_tables by metis
  from ctx_definition_Cons_table[OF items d(2,1) this]
  have "ctx_definition (\<lambda>t. None :: unit res option) (eo_items ?out) = Some (Inr ((''block_hash_index'', Table_Field d) # fs0))" .
  then have "\<exists>fs d. ctx_definition (\<lambda>t. None :: unit res option) (eo_items ?out) = Some (Inr fs) \<and>
      (''block_hash_index'', Table_Field d) \<in> set fs \<and> shard_count (rtd_partitioning d) = 2" using d(3) by (metis list.set_intros(1))
  then obtain fs d where f: "ctx_definition (\<lambda>t. None :: unit res option) (eo_items ?out) = Some (Inr fs)"
      "(''block_hash_index'', Table_Field d) \<in> set fs" "shard_count (rtd_partitioning d) = 2" by blast
  have l: "list_all2 (expands (\<lambda>s. Some (Ty_Path s None)) id) [demo_block_src] [?out]" using demo_block_expands by simp
  have k: "key_names_ok [?out]"
    by (simp add: key_names_ok_def entity_out_of_def Let_def e demo_block_key_def key_name_ok_def suffix_def to_lowercase_def ascii_lower_def Cons_eq_append_conv)
  have "\<forall>s\<in>set [demo_block_src]. names_ok s" "distinct (map (to_lowercase \<circ> ss_name) [demo_block_src])"
    "\<not> dir_exists \<lparr>dir_exists = False, dir_files = Map.empty :: string files\<rparr>" "?out \<in> set [?out]" using demo_block_ok by simp_all
  note c = contexts_find_databases[where ?o1.0 = "\<lambda>p db. Inl (Custom [])" and ?o2.0 = "\<lambda>p db. Inl (Custom [])" and ?o3.0 = "\<lambda>p db. Inl (Custom [])"
      and kp = "\<lambda>_ _. None" and vp = "\<lambda>_ _. None", OF l this(1,2) k demo_disk_laws(1) this(3) st this(4) f(1,2)]
  obtain dbs where "fetch_dbs m ''block_hash_index'' = Inr dbs" "length dbs = shard_count (rtd_partitioning d)"
    using conjunct2[OF c] by (elim exE conjE) (rule that)
  with st f show ?thesis by (metis (no_types))
qed

end
