(* ===== verification/Entity_Routes.thy ===== *)
theory Entity_Routes
  imports Entity_Tables
begin

section \<open>The routes of all entities\<close>

text \<open>
  Every endpoint becomes a route of the web server, and axum panics when two handlers are registered for the same method
  and path. This theory splits the paths into their segments and shows that the routes of all entities are
  different, that the placeholders of a path are the parameters its handler extracts, and that only the
  last argument of a handler consumes the body of the request, as axum demands.
\<close>

subsection \<open>Segments\<close>

abbreviation segments :: "string \<Rightarrow> string list" where
  "segments path \<equiv> split_char (CHR ''/'') path"

lemma split_char_none: "c \<notin> set s \<Longrightarrow> split_char c s = [s]"
  by (induction s) auto

lemma split_char_sep: "c \<notin> set s \<Longrightarrow> split_char c (s @ c # t) = s # split_char c t"
  by (induction s) (auto split: list.splits)

definition braced :: "string \<Rightarrow> string" where
  "braced s = ''{'' @ s @ ''}''"

lemma braced_inj [simp]: "braced s = braced t \<longleftrightarrow> s = t"
  by (simp add: braced_def)

lemma braced_slash [simp]: "CHR ''/'' \<in> set (braced s) \<longleftrightarrow> CHR ''/'' \<in> set s"
  by (simp add: braced_def)

lemma braced_not_ident: "rust_ident s \<Longrightarrow> braced t \<noteq> s"
  using not_ident_char(3) by (auto simp: braced_def rust_ident_def)

text \<open>The routes that the functions of a column add, as methods and the segments after the name of the entity.\<close>

definition index_routes :: "string \<Rightarrow> parent_def option \<Rightarrow> string \<Rightarrow> (http_method \<times> string list) list" where
  "index_routes pk par c =
     [(POST, [c, braced c])] @ (case par of Some p \<Rightarrow> [(POST, [c, braced c, to_lowercase (pa_parent_ident p)])] | None \<Rightarrow> []) @
     [(GET, [c, braced c, pk])]"

definition key_routes :: "string \<Rightarrow> multiplicity option \<Rightarrow> (http_method \<times> string list) list" where
  "key_routes pk m =
     [(GET, [pk, braced pk]), (GET, [''take'']), (GET, [''tail'']), (GET, [''first'']), (GET, [''last'']), (HEAD, [pk, braced pk]), (POST, [pk])] @
     (if m = Some OneToMany then [(GET, [pk, braced pk, ''parent_key''])] else [])"

fun col_routes :: "string \<Rightarrow> parent_def option \<Rightarrow> column_def \<Rightarrow> (http_method \<times> string list) list" where
  "col_routes pk par (Col_Key k) = key_routes pk (case k of Pk f p \<Rightarrow> None | Fk f m t p \<Rightarrow> Some m)"
| "col_routes pk par (Col_Plain f (Off p) u q) = []"
| "col_routes pk par (Col_Plain f (Index p) u q) = index_routes pk par (fd_name f)"
| "col_routes pk par (Col_Plain f (Range p) u q) = index_routes pk par (fd_name f) @ [(POST, [fd_name f])]"
| "col_routes pk par (Col_Plain f (Dict p) u q) = index_routes pk par (fd_name f)"
| "col_routes pk par (Col_Relationship f w u m) = [(GET, [braced pk, fd_name f])]"
| "col_routes pk par _ = []"

definition entity_routes :: "string \<Rightarrow> (http_method \<times> string list) list" where
  "entity_routes pk = [(GET, [''table_info'']), (POST, []), (DELETE, [pk, braced pk])]"

definition route_key :: "endpoint_def \<Rightarrow> http_method \<times> string list" where
  "route_key ep = (ep_method ep, segments (ep_endpoint ep))"

definition beneath :: "string \<Rightarrow> http_method \<times> string list \<Rightarrow> http_method \<times> string list" where
  "beneath n r = (case r of (m, ss) \<Rightarrow> (m, [] # n # ss))"

lemma endpoints_simps [simp]:
  "endpoints_of [] = []"
  "endpoints_of (plain_fn n # fs) = endpoints_of fs"
  "endpoints_of (fs @ gs) = endpoints_of fs @ endpoints_of gs"
  by (simp_all add: endpoints_of_def plain_fn_def List.map_filter_def)

lemma endpoints_fn:
  "endpoints_of (endpoint_fn e n ret tag ps m rs p # fs) =
     \<lparr>ep_return_type = ret, ep_tag = tag, ep_fn_name = n, ep_params = ps, ep_endpoint = p, ep_method = m, ep_handler_name = lower_name e @ ''_'' @ n,
      ep_responses = rs\<rparr> # endpoints_of fs"
  by (simp add: endpoints_of_def endpoint_fn_def List.map_filter_def)

lemma segments_slash: "segments (CHR ''/'' # s) = [] # segments s"
  by simp

text \<open>The five shapes of paths.\<close>

lemma path_shapes:
  assumes "CHR ''/'' \<notin> set e" and "CHR ''/'' \<notin> set a" and "CHR ''/'' \<notin> set b" and "CHR ''/'' \<notin> set c"
  shows "segments (''/'' @ e) = [[], e]"
    and "segments (''/'' @ e @ ''/'' @ a) = [[], e, a]"
    and "segments (''/'' @ e @ ''/'' @ a @ ''/{'' @ b @ ''}'') = [[], e, a, braced b]"
    and "segments (''/'' @ e @ ''/'' @ a @ ''/{'' @ b @ ''}/'' @ c) = [[], e, a, braced b, c]"
    and "segments (''/'' @ e @ ''/{'' @ a @ ''}/'' @ b) = [[], e, braced a, b]"
proof -
  have b: "segments (CHR ''{'' # a @ ''}'') = [braced a]" "segments (CHR ''{'' # a @ CHR ''}'' # CHR ''/'' # t) = braced a # segments t"
    if "CHR ''/'' \<notin> set a" for a t
    using that split_char_none[of "CHR ''/''" "CHR ''{'' # a @ ''}''"] split_char_sep[of "CHR ''/''" "CHR ''{'' # a @ ''}''" t]
    by (simp_all add: braced_def)
  show "segments (''/'' @ e) = [[], e]" "segments (''/'' @ e @ ''/'' @ a) = [[], e, a]"
    using assms by (simp_all add: segments_slash split_char_none split_char_sep)
  show "segments (''/'' @ e @ ''/'' @ a @ ''/{'' @ b @ ''}'') = [[], e, a, braced b]"
    "segments (''/'' @ e @ ''/'' @ a @ ''/{'' @ b @ ''}/'' @ c) = [[], e, a, braced b, c]"
    "segments (''/'' @ e @ ''/{'' @ a @ ''}/'' @ b) = [[], e, braced a, b]"
    using assms b by (simp_all add: segments_slash split_char_none split_char_sep del: split_char.simps(2))
qed


lemma rust_ident_slash: "rust_ident s \<Longrightarrow> CHR ''/'' \<notin> set s"
  by (rule rust_ident_notin) (simp_all add: not_ident_char)

text \<open>Identifiers of an entity as far as the paths use them.\<close>

definition path_names_ok :: "entity_def \<Rightarrow> parent_def option \<Rightarrow> bool" where
  "path_names_ok e par \<longleftrightarrow> rust_ident (ed_entity_name e) \<and> rust_ident (ed_pk_name e) \<and> (case par of Some p \<Rightarrow> rust_ident (pa_parent_ident p) | None \<Rightarrow> True)"

lemmas fn_defs = get_fn_def filter_fn_def take_fn_def tail_fn_def first_fn_def last_fn_def exists_fn_def range_fn_def stream_range_fn_def
  pk_range_fn_def parent_key_fn_def get_by_fn_def stream_by_dict_fn_def stream_by_index_fn_def stream_parents_by_dict_fn_def
  stream_parents_by_index_fn_def get_keys_by_fn_def stream_keys_by_dict_fn_def stream_keys_by_index_fn_def stream_range_by_fn_def
  range_by_fn_def one2one_fn_def one2opt_fn_def one2many_fn_def table_info_fn_def persist_fn_def remove_fn_def

lemma macro_routes:
  assumes ok: "path_names_ok e par" and m: "field_macro e par c = Some m" and c: "rust_ident (col_name c)"
  shows "map route_key (endpoints_of (fm_function_defs m)) = map (beneath (lower_name e)) (col_routes (ed_pk_name e) par c)"
proof -
  let ?e = "lower_name e" and ?pk = "ed_pk_name e"
  have e: "CHR ''/'' \<notin> set ?e" and pk: "CHR ''/'' \<notin> set ?pk"
    using ok rust_ident_slash rust_ident_lower by (auto simp: path_names_ok_def lower_name_def)
  have p: "CHR ''/'' \<notin> set (to_lowercase (pa_parent_ident p))" if "par = Some p" for p
    using ok that rust_ident_slash rust_ident_lower by (auto simp: path_names_ok_def)
  have n: "CHR ''/'' \<notin> set (col_name c)" using c by (rule rust_ident_slash)
  have w: "CHR ''/'' \<notin> set ''take''" "CHR ''/'' \<notin> set ''tail''" "CHR ''/'' \<notin> set ''first''" "CHR ''/'' \<notin> set ''last''" "CHR ''/'' \<notin> set ''parent_key''"
    by simp_all
  note keys = path_shapes[OF e pk pk w(5)] path_shapes(2)[OF e w(1) pk pk] path_shapes(2)[OF e w(2) pk pk] path_shapes(2)[OF e w(3) pk pk] path_shapes(2)[OF e w(4) pk pk]
  note cols = path_shapes[OF e n n pk] path_shapes(5)[OF e pk n pk] 
  show ?thesis
  proof (cases "(?pk, par, c)" rule: col_routes.cases)
    case (1 pk' par' k)
    with m obtain p where "m = Fm_Pk (pk_macros_new e (case k of Pk f p \<Rightarrow> None | Fk f m t p \<Rightarrow> Some m) p)" by (cases k) auto
    moreover from 1 have "c = Col_Key k" by simp
    ultimately show ?thesis
      by (simp add: pk_macros_new_def Let_def fn_defs endpoints_fn route_key_def beneath_def key_routes_def keys del: append_Cons)
  next
    case (3 pk' par' f p u q)
    then have "c = Col_Plain f (Index p) u q" by simp
    with m cols p path_shapes(4)[OF e n n] show ?thesis
      by (auto simp: column_macros_index_def Let_def fn_defs endpoints_fn route_key_def beneath_def index_routes_def simp del: append_Cons split: option.splits)
  next
    case (4 pk' par' f p u q)
    then have "c = Col_Plain f (Range p) u q" by simp
    with m cols p path_shapes(4)[OF e n n] show ?thesis
      by (auto simp: column_macros_index_def Let_def fn_defs endpoints_fn route_key_def beneath_def index_routes_def simp del: append_Cons split: option.splits)
  next
    case (5 pk' par' f p u q)
    then have "c = Col_Plain f (Dict p) u q" by simp
    with m cols p path_shapes(4)[OF e n n] show ?thesis
      by (auto simp: column_macros_dict_def Let_def fn_defs endpoints_fn route_key_def beneath_def index_routes_def simp del: append_Cons split: option.splits)
  next
    case (6 pk' par' f w u n')
    then have "c = Col_Relationship f w u n'" by simp
    with m cols show ?thesis
      by (cases n') (auto simp: rel_macros_new_def Option.bind_eq_Some_conv fn_defs endpoints_fn route_key_def beneath_def simp del: append_Cons)
  qed (use m in \<open>auto simp: column_macros_plain_def Let_def\<close>)
qed


subsection \<open>Different routes\<close>

lemma col_routes_owner:
  assumes "r \<in> set (col_routes pk par c)" and "r \<in> set (col_routes pk par c')" and "rust_ident pk"
    and "rust_ident (col_name c)" and "rust_ident (col_name c')" and "is_key_col c \<longrightarrow> col_name c = pk" and "is_key_col c' \<longrightarrow> col_name c' = pk"
  shows "col_name c = col_name c'"
proof -
  note b = braced_not_ident[OF assms(3)] braced_not_ident[OF assms(4)] braced_not_ident[OF assms(5)]
    braced_not_ident[OF assms(3), symmetric] braced_not_ident[OF assms(4), symmetric] braced_not_ident[OF assms(5), symmetric]
  show ?thesis
    using assms(1,2,6,7) b
    by (cases "(pk, par, c)" rule: col_routes.cases; cases "(pk, par, c')" rule: col_routes.cases)
      (auto simp: key_routes_def index_routes_def split: if_splits option.splits)
qed

lemma col_routes_distinct: "distinct (col_routes pk par c)"
proof -
  have "braced s \<noteq> s" for s using arg_cong[of "braced s" s length] by (auto simp: braced_def)
  then show ?thesis
    by (cases "(pk, par, c)" rule: col_routes.cases) (auto simp: key_routes_def index_routes_def split: option.splits)
qed

lemma entity_routes_fresh:
  assumes "r \<in> set (entity_routes pk)" and "r \<in> set (col_routes pk par c)"
  shows False
  using assms
  by (cases "(pk, par, c)" rule: col_routes.cases) (auto simp: key_routes_def index_routes_def entity_routes_def split: if_splits option.splits)

lemma distinct_concat_map:
  assumes "distinct (map g xs)" and "\<And>x. x \<in> set xs \<Longrightarrow> distinct (f x)"
    and "\<And>x y r. x \<in> set xs \<Longrightarrow> y \<in> set xs \<Longrightarrow> r \<in> set (f x) \<Longrightarrow> r \<in> set (f y) \<Longrightarrow> g x = g y"
  shows "distinct (concat (map f xs))"
  using assms
proof (induction xs)
  case (Cons x xs)
  have "distinct (concat (map f xs))" by (rule Cons.IH) (use Cons.prems in auto)
  moreover have "r \<notin> set (concat (map f xs))" if r: "r \<in> set (f x)" for r
  proof
    assume "r \<in> set (concat (map f xs))"
    then obtain y where "y \<in> set xs" "r \<in> set (f y)" by auto
    with Cons.prems(3)[of x y r] r Cons.prems(1) show False by auto
  qed
  ultimately show ?case using Cons.prems(2)[of x] by auto
qed simp

definition all_routes :: "string \<Rightarrow> parent_def option \<Rightarrow> column_def list \<Rightarrow> (http_method \<times> string list) list" where
  "all_routes pk par cols = entity_routes pk @ concat (map (col_routes pk par) cols)"

lemma all_routes_distinct:
  assumes "distinct (map col_name cols)" and "\<forall>c\<in>set cols. rust_ident (col_name c)" and "rust_ident pk" and "\<forall>c\<in>set cols. is_key_col c \<longrightarrow> col_name c = pk"
  shows "distinct (all_routes pk par cols)"
proof -
  have "distinct (concat (map (col_routes pk par) cols))"
    using assms(1) by (rule distinct_concat_map) (use col_routes_distinct col_routes_owner assms(2-4) in blast)+
  moreover have "distinct (entity_routes pk)" by (simp add: entity_routes_def)
  ultimately show ?thesis using entity_routes_fresh by (fastforce simp: all_routes_def)
qed

lemma those_map_concat:
  assumes "those (map f xs) = Some ys" and "\<And>x y. x \<in> set xs \<Longrightarrow> f x = Some y \<Longrightarrow> g y = h x"
  shows "concat (map g ys) = concat (map h xs)"
  using assms
proof (induction xs arbitrary: ys)
  case (Cons x xs)
  then obtain y ys' where "ys = y # ys'" "f x = Some y" "those (map f xs) = Some ys'" unfolding those_map_Cons by blast
  with Cons show ?case by simp
qed simp

lemma endpoints_concat: "endpoints_of (concat (map f ms)) = concat (map (\<lambda>m. endpoints_of (f m)) ms)"
  by (induction ms) simp_all

lemma entity_out_endpoints:
  "endpoints_of (eo_functions (entity_out_of e ms)) =
     endpoints_of [table_info_fn e, persist_fn e, remove_fn e] @ concat (map (\<lambda>m. endpoints_of (fm_function_defs m)) ms)"
  by (simp add: entity_out_of_def Let_def sample_fns_def init_fns_def endpoints_concat fn_defs endpoints_fn split: key_def.splits)

lemma entity_out_routes:
  assumes ok: "path_names_ok e par" and ms: "those (map (field_macro e par) cols) = Some ms" and ids: "\<forall>c\<in>set cols. rust_ident (col_name c)"
  shows "map route_key (endpoints_of (eo_functions (entity_out_of e ms))) = map (beneath (lower_name e)) (all_routes (ed_pk_name e) par cols)"
proof -
  have "concat (map (\<lambda>m. map route_key (endpoints_of (fm_function_defs m))) ms) = concat (map (\<lambda>c. map (beneath (lower_name e)) (col_routes (ed_pk_name e) par c)) cols)"
    by (rule those_map_concat[OF ms]) (use macro_routes[OF ok] ids in auto)
  moreover have "map route_key (endpoints_of [table_info_fn e, persist_fn e, remove_fn e]) = map (beneath (lower_name e)) (entity_routes (ed_pk_name e))"
  proof -
    have e: "CHR ''/'' \<notin> set (lower_name e)" and pk: "CHR ''/'' \<notin> set (ed_pk_name e)" and w: "CHR ''/'' \<notin> set ''table_info''"
      using ok rust_ident_slash rust_ident_lower by (auto simp: path_names_ok_def lower_name_def)
    show ?thesis
      by (simp add: fn_defs endpoints_fn route_key_def beneath_def entity_routes_def path_shapes(1,3)[OF e pk pk pk] path_shapes(2)[OF e w pk pk] del: append_Cons)
  qed
  ultimately show ?thesis by (simp add: entity_out_endpoints all_routes_def map_concat o_def)
qed


subsection \<open>Parameters\<close>

fun placeholder :: "string \<Rightarrow> string option" where
  "placeholder (c # t) = (if c = CHR ''{'' \<and> t \<noteq> [] \<and> last t = CHR ''}'' then Some (butlast t) else None)"
| "placeholder [] = None"

definition path_param_names :: "endpoint_def \<Rightarrow> string list" where
  "path_param_names ep = concat (map (\<lambda>p. case p of Path_Params ps \<Rightarrow> map pe_name ps | _ \<Rightarrow> []) (ep_params ep))"

fun is_body :: "binding \<Rightarrow> bool" where
  "is_body (Bind_Body t) = True"
| "is_body _ = False"

text \<open>
  The placeholders of the path are the parameters that are extracted from it, and only the last argument may
  consume the body.
\<close>

definition endpoint_ok :: "endpoint_def \<Rightarrow> bool" where
  "endpoint_ok ep \<longleftrightarrow> List.map_filter placeholder (segments (ep_endpoint ep)) = path_param_names ep \<and>
     (\<forall>b\<in>set (butlast (axum_bindings ep)). \<not> is_body b)"

lemma placeholder_braced [simp]: "placeholder (braced s) = Some s"
  by (simp add: braced_def)

lemma placeholder_ident: "rust_ident s \<Longrightarrow> placeholder s = None"
  using not_ident_char(3) by (cases s) (auto simp: rust_ident_def)

lemma map_filter_simps: "List.map_filter f [] = []" "List.map_filter f (x # xs) = (case f x of Some y \<Rightarrow> [y] | None \<Rightarrow> []) @ List.map_filter f xs"
  by (simp add: List.map_filter_def) (rule map_filter_Cons)

text \<open>What \<open>endpoint_ok\<close> says of the five shapes.\<close>

lemma shapes_ok:
  assumes "rust_ident e" and "rust_ident a" and "rust_ident b" and "rust_ident c"
  shows "List.map_filter placeholder (segments (''/'' @ e)) = []"
    and "List.map_filter placeholder (segments (''/'' @ e @ ''/'' @ a)) = []"
    and "List.map_filter placeholder (segments (''/'' @ e @ ''/'' @ a @ ''/{'' @ b @ ''}'')) = [b]"
    and "List.map_filter placeholder (segments (''/'' @ e @ ''/'' @ a @ ''/{'' @ b @ ''}/'' @ c)) = [b]"
    and "List.map_filter placeholder (segments (''/'' @ e @ ''/{'' @ a @ ''}/'' @ b)) = [a]"
  unfolding path_shapes[OF assms[THEN rust_ident_slash]]
  using assms[THEN placeholder_ident] by (simp_all add: map_filter_simps)

lemmas endpoint_ok_defs = fn_defs endpoints_fn endpoint_ok_def path_param_names_def axum_bindings_def pk_param_def col_param_def

lemma macro_endpoints_ok:
  assumes ok: "path_names_ok e par" and m: "field_macro e par c = Some m" and c: "rust_ident (col_name c)"
    and ep: "ep \<in> set (endpoints_of (fm_function_defs m))"
  shows "endpoint_ok ep"
proof -
  have e: "rust_ident (lower_name e)" and pk: "rust_ident (ed_pk_name e)"
    using ok rust_ident_lower by (auto simp: path_names_ok_def lower_name_def)
  have p: "rust_ident (to_lowercase (pa_parent_ident p))" if "par = Some p" for p
    using ok that rust_ident_lower by (auto simp: path_names_ok_def)
  have w: "rust_ident ''take''" "rust_ident ''tail''" "rust_ident ''first''" "rust_ident ''last''" "rust_ident ''parent_key''" by code_simp+
  note keys = shapes_ok[OF e pk pk w(5)] shapes_ok(2)[OF e w(1) pk pk] shapes_ok(2)[OF e w(2) pk pk] shapes_ok(2)[OF e w(3) pk pk] shapes_ok(2)[OF e w(4) pk pk]
  note cols = shapes_ok[OF e c c pk] shapes_ok(5)[OF e pk c pk] shapes_ok(4)[OF e c c p]
  show ?thesis
  proof (cases "(ed_pk_name e, par, c)" rule: col_routes.cases)
    case (1 pk' par' k)
    with m obtain p where "m = Fm_Pk (pk_macros_new e (case k of Pk f p \<Rightarrow> None | Fk f m t p \<Rightarrow> Some m) p)" by (cases k) auto
    with ep keys show ?thesis
      by (auto simp: pk_macros_new_def Let_def endpoint_ok_defs simp del: append_Cons split_char.simps split: if_splits)
  next
    case (3 pk' par' f p u q)
    then have "c = Col_Plain f (Index p) u q" by simp
    with m ep cols show ?thesis
      by (auto simp: column_macros_index_def Let_def endpoint_ok_defs simp del: append_Cons split_char.simps split: option.splits)
  next
    case (4 pk' par' f p u q)
    then have "c = Col_Plain f (Range p) u q" by simp
    with m ep cols show ?thesis
      by (auto simp: column_macros_index_def Let_def endpoint_ok_defs simp del: append_Cons split_char.simps split: option.splits)
  next
    case (5 pk' par' f p u q)
    then have "c = Col_Plain f (Dict p) u q" by simp
    with m ep cols show ?thesis
      by (auto simp: column_macros_dict_def Let_def endpoint_ok_defs simp del: append_Cons split_char.simps split: option.splits)
  next
    case (6 pk' par' f w u n')
    then have "c = Col_Relationship f w u n'" by simp
    with m ep cols show ?thesis
      by (cases n') (auto simp: rel_macros_new_def Option.bind_eq_Some_conv endpoint_ok_defs simp del: append_Cons split_char.simps)
  qed (use m ep in \<open>auto simp: column_macros_plain_def Let_def\<close>)
qed

lemma entity_endpoints_ok:
  assumes ok: "path_names_ok e par" and ms: "those (map (field_macro e par) cols) = Some ms" and ids: "\<forall>c\<in>set cols. rust_ident (col_name c)"
    and ep: "ep \<in> set (endpoints_of (eo_functions (entity_out_of e ms)))"
  shows "endpoint_ok ep"
proof -
  have e: "rust_ident (lower_name e)" and pk: "rust_ident (ed_pk_name e)"
    using ok rust_ident_lower by (auto simp: path_names_ok_def lower_name_def)
  have w: "rust_ident ''table_info''" by code_simp
  consider "ep \<in> set (endpoints_of [table_info_fn e, persist_fn e, remove_fn e])"
    | m where "m \<in> set ms" "ep \<in> set (endpoints_of (fm_function_defs m))"
    using ep unfolding entity_out_endpoints by auto
  then show ?thesis
  proof cases
    case 1
    then show ?thesis using shapes_ok[OF e pk pk pk] shapes_ok(2)[OF e w pk pk]
      by (auto simp: endpoint_ok_defs simp del: append_Cons split_char.simps)
  next
    case (2 m)
    from those_map_in[OF ms 2(1)] obtain c where "c \<in> set cols" "field_macro e par c = Some m" by blast
    with macro_endpoints_ok[OF ok _ _ 2(2)] ids show ?thesis by blast
  qed
qed


subsection \<open>Properties\<close>

definition parent_name_ok :: "entity_out \<Rightarrow> bool" where
  "parent_name_ok out \<longleftrightarrow> (case one_to_many_parent_def (ed_key_def (eo_def out)) of Some (Some p) \<Rightarrow> rust_ident (pa_parent_ident p) | _ \<Rightarrow> True)"

lemma expanded_routes:
  assumes "expands pt snake s out" and "names_ok s" and "parent_name_ok out"
  shows "distinct (map route_key (endpoints_of (eo_functions out)))"
    and "\<And>ep. ep \<in> set (endpoints_of (eo_functions out)) \<Longrightarrow> endpoint_ok ep"
    and "\<And>ep. ep \<in> set (endpoints_of (eo_functions out)) \<Longrightarrow> \<exists>ss. snd (route_key ep) = [] # to_lowercase (ss_name s) # ss"
proof -
  obtain k cols e par ms where e: "get_field_macros pt snake (Named (ss_fields s)) = Inr (k, cols)" "one_to_many_parent_def k = Some par"
    "those (map (field_macro e par) cols) = Some ms" "out = entity_out_of e ms" "ed_key_def e = k" "ed_entity_name e = ss_name s" "eo_def out = e"
    using expandsE[OF assms(1)] by metis
  note n = expanded_names[OF e(1) assms(2)]
  have ok: "path_names_ok e par" using n(3) e assms(2,3) by (auto simp: path_names_ok_def parent_name_ok_def names_ok_def split: option.splits)
  have r: "map route_key (endpoints_of (eo_functions out)) = map (beneath (lower_name e)) (all_routes (ed_pk_name e) par cols)"
    unfolding e(4) by (rule entity_out_routes[OF ok e(3) n(2)])
  have "distinct (map col_name cols)" using n(1) by (metis distinct_map map_map)
  moreover have "\<forall>c\<in>set cols. is_key_col c \<longrightarrow> col_name c = ed_pk_name e"
  proof (intro ballI impI)
    fix c assume "c \<in> set cols" "is_key_col c"
    then have "c \<in> set (filter is_key_col cols)" by simp
    with get_field_macros_names(2)[OF e(1)] e(5) show "col_name c = ed_pk_name e" by simp
  qed
  ultimately have "distinct (all_routes (ed_pk_name e) par cols)" using all_routes_distinct n(2,3) e(5) by blast
  moreover have "inj (beneath (lower_name e))" by (auto simp: inj_def beneath_def split: prod.splits)
  ultimately show "distinct (map route_key (endpoints_of (eo_functions out)))" unfolding r distinct_map using inj_on_subset by blast
  show "endpoint_ok ep" if "ep \<in> set (endpoints_of (eo_functions out))" for ep
    using entity_endpoints_ok[OF ok e(3) n(2)] that e(4) by blast
  show "\<exists>ss. snd (route_key ep) = [] # to_lowercase (ss_name s) # ss" if "ep \<in> set (endpoints_of (eo_functions out))" for ep
  proof -
    from that have "route_key ep \<in> set (map route_key (endpoints_of (eo_functions out)))" by simp
    then show ?thesis unfolding r using e(6) by (auto simp: beneath_def lower_name_def split: prod.splits)
  qed
qed

text \<open>
  C13. The generated web interface is consistent. When the names of structs, fields and parents are identifiers, fields
  differ by more than case and so do the structs, then no two handlers of all entities are registered for the same
  method and path; the placeholders of every path are exactly the parameters that its handler extracts from the
  path, in order; and a handler consumes the body of the request with its last argument at most.
\<close>

theorem routes_consistent:
  assumes "list_all2 (expands parse_type snake) srcs es" and "\<forall>s\<in>set srcs. names_ok s" and "distinct (map (to_lowercase \<circ> ss_name) srcs)"
    and "\<forall>out\<in>set es. parent_name_ok out"
  shows "distinct (map (\<lambda>(m, p, h). (m, p)) (build_routes es)) \<and> (\<forall>out\<in>set es. \<forall>ep\<in>set (endpoints_of (eo_functions out)). endpoint_ok ep)"
proof -
  let ?eps = "\<lambda>es. concat (map (\<lambda>out. endpoints_of (eo_functions out)) es)"
  have routes: "eo_routes out = map (\<lambda>ep. (ep_method ep, ep_endpoint ep, ep_handler_name ep)) (endpoints_of (eo_functions out))" if "out \<in> set es" for out
  proof -
    from assms(1) that obtain s where "expands parse_type snake s out" by (metis list_all2_conv_all_nth in_set_conv_nth)
    then obtain e ms where "out = entity_out_of e ms" by (rule expandsE)
    then show ?thesis by (simp add: entity_out_of_def Let_def rest_routes_def)
  qed
  then have keys: "map (\<lambda>(m, p, h). (m, segments p)) (build_routes es) = map route_key (?eps es)"
    by (simp add: build_routes_def map_concat o_def route_key_def cong: map_cong)
  have "distinct (map route_key (?eps es)) \<and> (\<forall>ep\<in>set (?eps es). \<exists>s\<in>set srcs. \<exists>ss. snd (route_key ep) = [] # to_lowercase (ss_name s) # ss)"
    using assms
  proof (induction rule: list_all2_induct)
    case (Cons s srcs out es)
    then have ok: "names_ok s" "parent_name_ok out" and IH: "distinct (map route_key (?eps es))"
      "\<forall>ep\<in>set (?eps es). \<exists>s\<in>set srcs. \<exists>ss. snd (route_key ep) = [] # to_lowercase (ss_name s) # ss" by auto
    note x = expanded_routes[OF Cons.hyps(1) ok]
    have "route_key ep \<noteq> route_key ep'" if "ep \<in> set (endpoints_of (eo_functions out))" "ep' \<in> set (?eps es)" for ep ep'
    proof
      assume "route_key ep = route_key ep'"
      with x(3)[OF that(1)] IH(2) that(2) obtain s' where "s' \<in> set srcs" "to_lowercase (ss_name s) = to_lowercase (ss_name s')" by fastforce
      with Cons.prems(2) show False by auto
    qed
    then have disj: "route_key ` set (endpoints_of (eo_functions out)) \<inter> route_key ` set (?eps es) = {}" by blast
    have eps: "?eps (out # es) = endpoints_of (eo_functions out) @ ?eps es" by simp
    show ?case unfolding eps map_append distinct_append set_append ball_Un set_map using x(1,3) IH disj by auto
  qed simp
  then have "distinct (map (\<lambda>(m, p, h). (m, segments p)) (build_routes es))" unfolding keys by blast
  then have "distinct (map (\<lambda>(m, p). (m, segments p)) (map (\<lambda>(m, p, h). (m, p)) (build_routes es)))" by (simp add: split_def o_def)
  then have "distinct (map (\<lambda>(m, p, h). (m, p)) (build_routes es))" unfolding distinct_map by blast
  moreover have "endpoint_ok ep" if "out \<in> set es" "ep \<in> set (endpoints_of (eo_functions out))" for out ep
  proof -
    from assms(1) that(1) obtain i where "i < length es" "out = es ! i" by (metis in_set_conv_nth)
    with assms(1) have "expands parse_type snake (srcs ! i) out" "srcs ! i \<in> set srcs" by (auto simp: list_all2_conv_all_nth)
    with expanded_routes(2) assms(2,4) that show ?thesis by blast
  qed
  ultimately show ?thesis by blast
qed

theorem routes_consistent_witness:
  "let out = entity_out_of demo_block_entity demo_block_macros
   in distinct (map (\<lambda>(m, p, h). (m, p)) (build_routes [out])) \<and> (\<forall>ep\<in>set (endpoints_of (eo_functions out)). endpoint_ok ep)"
proof -
  have "parent_name_ok (entity_out_of demo_block_entity demo_block_macros)"
    by (simp add: parent_name_ok_def entity_out_of_def Let_def one_to_many_parent_def_def demo_block_entity_def entity_def_new_def filter_query_type_def
        entity_tx_context_def_type_def entity_tx_context_type_def table_info_type_def demo_block_key_def)
  then show ?thesis
    using routes_consistent[of "\<lambda>s. Some (Ty_Path s None)" id "[demo_block_src]" "[entity_out_of demo_block_entity demo_block_macros]"]
      demo_block_expands demo_block_ok by (simp add: Let_def)
qed

subsection \<open>Names that do not fit\<close>

text \<open>
  The streams of parents look for the tables of their entity in a field named by the lower case of the
  entity, while the parser demands that the field of the parent is called by its snake case: the generated code has
  no such field when these differ.
\<close>

lemma parent_field_must_be_lower:
  assumes "validate_one_to_many_name snake field (ed_entity_name e) = Inr ()"
  shows "field = parent_one2many_field_name e \<longleftrightarrow> snake (ed_entity_name e) = lower_name e"
  using assms by (auto simp: validate_one_to_many_name_def parent_one2many_field_name_def split: if_splits)

text \<open>
  When the key of a child is called like its parent in lower case, the stream of parents and the stream of keys of a
  column have the same name.
\<close>

lemma parent_stream_name_clash:
  assumes "ed_pk_name e = to_lowercase (pa_parent_ident p)"
  shows "fn_name (stream_parents_by_index_fn e c t p) = fn_name (stream_keys_by_index_fn e c t)"
  using assms by (simp add: stream_parents_by_index_fn_def stream_keys_by_index_fn_def endpoint_fn_def)

end
