(* ===== verification/Http_Handlers.thy ===== *)
theory Http_Handlers
  imports Column_Query Block_Chain
begin

section \<open>Answers of the web interface\<close>

text \<open>
  The handlers of the generated endpoints (\<open>handler_impl_stream\<close> in the templates of \<open>macros/src\<close>) and the conversions of
  \<open>redbit/src/rest.rs\<close>: from the result of a function of an entity to a status and a body. A handler that opens
  a read context gets its result as \<open>begin\<close>; a panic of the function it calls is \<open>None\<close>. The framework axum extracts the
  arguments before a handler runs: the key of a path is read by \<open>try_from\<close> of its type, and what axum answers when this
  fails is the argument \<open>reject\<close>. Serialisation to JSON is that of serde, so that a body is the value itself.
\<close>

datatype 'b body = Json_Body 'b | Nd_Json "'b res list" | Empty_Body | Error_Body string nat

record 'b response =
  rs_status :: nat
  rs_body :: "'b body"

subsection \<open>Errors and optional bodies\<close>

definition into_response :: "app_error \<Rightarrow> 'b response" where
  "into_response e =
     (let status = status_code e; message = (case e of JsonRejection s t \<Rightarrow> t | other \<Rightarrow> error_text other)
      in \<lparr>rs_status = status, rs_body = Error_Body message status\<rparr>)"

text \<open>\<open>MaybeJson\<close>: \<open>None\<close> is a body that could not be read; parsing is that of serde.\<close>

definition maybe_json :: "(bytes \<Rightarrow> string + 't) \<Rightarrow> bytes option \<Rightarrow> 't option res" where
  "maybe_json from_slice body =
     (case body of
        None \<Rightarrow> Inr None
      | Some bs \<Rightarrow> if bs = [] then Inr None else (case from_slice bs of Inl m \<Rightarrow> Inl (SerdeError m) | Inr x \<Rightarrow> Inr (Some x)))"

definition ok_json :: "'b \<Rightarrow> 'b response" where
  "ok_json x = \<lparr>rs_status = 200, rs_body = Json_Body x\<rparr>"

definition status_only :: "bool \<Rightarrow> 'b response" where
  "status_only found = \<lparr>rs_status = (if found then 200 else 404), rs_body = Empty_Body\<rparr>"

text \<open>\<open>Result<AppJson<T>, AppError>\<close> as a response.\<close>

definition json_result :: "'b res \<Rightarrow> 'b response" where
  "json_result r = (case r of Inl e \<Rightarrow> into_response e | Inr x \<Rightarrow> ok_json x)"

definition with_ctx :: "'c res \<Rightarrow> ('c \<Rightarrow> 'a res option) \<Rightarrow> 'a res option" where
  "with_ctx begin f = (case begin of Inl e \<Rightarrow> Some (Inl e) | Inr ctx \<Rightarrow> f ctx)"

subsection \<open>Handlers\<close>

definition handle_get :: "string \<Rightarrow> 'c res \<Rightarrow> ('c \<Rightarrow> 'i option res option) \<Rightarrow> 'i response option" where
  "handle_get entity_name begin get_it =
     map_option (\<lambda>r. case r of
         Inr (Some x) \<Rightarrow> ok_json x
       | Inr None \<Rightarrow> \<lparr>rs_status = 404, rs_body = Error_Body (entity_name @ '' not found'') 404\<rparr>
       | Inl e \<Rightarrow> into_response e) (with_ctx begin get_it)"

definition handle_exists :: "'c res \<Rightarrow> ('c \<Rightarrow> bool res option) \<Rightarrow> 'b response option" where
  "handle_exists begin exists_it =
     map_option (\<lambda>r. case r of Inr found \<Rightarrow> status_only found | Inl e \<Rightarrow> into_response e) (with_ctx begin exists_it)"

definition handle_remove :: "bool res \<Rightarrow> 'b response" where
  "handle_remove removed = (case removed of Inr found \<Rightarrow> status_only found | Inl e \<Rightarrow> into_response e)"

definition handle_persist :: "'k res \<Rightarrow> 'b response" where
  "handle_persist persisted = (case persisted of Inr _ \<Rightarrow> \<lparr>rs_status = 200, rs_body = Empty_Body\<rparr> | Inl e \<Rightarrow> into_response e)"

definition handle_take :: "'c res \<Rightarrow> ('c \<Rightarrow> usize \<Rightarrow> 'i list res option) \<Rightarrow> usize \<Rightarrow> 'i list response option" where
  "handle_take begin take_it n = map_option json_result (with_ctx begin (\<lambda>ctx. take_it ctx n))"

definition handle_tail :: "'c res \<Rightarrow> ('c \<Rightarrow> usize \<Rightarrow> 'i list res option) \<Rightarrow> usize \<Rightarrow> 'i list response option" where
  "handle_tail begin tail_it n = map_option json_result (with_ctx begin (\<lambda>ctx. tail_it ctx n))"

text \<open>The first or the last entity as a list of at most one.\<close>

definition handle_edge :: "'c res \<Rightarrow> ('c \<Rightarrow> 'i option res option) \<Rightarrow> 'i list response option" where
  "handle_edge begin edge = map_option (json_result \<circ> map_sum id (\<lambda>o'. case o' of Some i \<Rightarrow> [i] | None \<Rightarrow> [])) (with_ctx begin edge)"

definition handle_table_info :: "'t res option \<Rightarrow> 't response option" where
  "handle_table_info info = map_option json_result info"

text \<open>Streams of entities or keys, with or without a filter in the body.\<close>

definition handle_stream :: "'c res \<Rightarrow> ('c \<Rightarrow> 'i res list res option) \<Rightarrow> 'i response option" where
  "handle_stream begin stream =
     map_option (\<lambda>r. case r of Inr items \<Rightarrow> \<lparr>rs_status = 200, rs_body = Nd_Json items\<rparr> | Inl e \<Rightarrow> into_response e) (with_ctx begin stream)"

definition handle_filtered_stream ::
    "(bytes \<Rightarrow> string + 'q) \<Rightarrow> bytes option \<Rightarrow> 'c res \<Rightarrow> ('c \<Rightarrow> 'q option \<Rightarrow> 'i res list res option) \<Rightarrow> 'i response option" where
  "handle_filtered_stream from_slice body begin stream =
     (case maybe_json from_slice body of
        Inl e \<Rightarrow> Some (into_response e)
      | Inr q \<Rightarrow> handle_stream begin (\<lambda>ctx. stream ctx q))"

definition handle_one2one :: "'c res \<Rightarrow> ('c \<Rightarrow> 'i res option) \<Rightarrow> 'i response option" where
  "handle_one2one begin get_child = map_option json_result (with_ctx begin get_child)"

definition handle_one2opt :: "string \<Rightarrow> 'c res \<Rightarrow> ('c \<Rightarrow> 'i option res option) \<Rightarrow> 'i response option" where
  "handle_one2opt child_name begin get_child =
     map_option (\<lambda>r. json_result (case r of
         Inl e \<Rightarrow> Inl e
       | Inr (Some i) \<Rightarrow> Inr i
       | Inr None \<Rightarrow> Inl (NotFound (''Not '' @ child_name @ '' found'')))) (with_ctx begin get_child)"

definition handle_one2many :: "'c res \<Rightarrow> ('c \<Rightarrow> 'i list res option) \<Rightarrow> 'i list response option" where
  "handle_one2many begin get_children = map_option json_result (with_ctx begin get_children)"

text \<open>The key of the owner, which needs no table.\<close>

definition handle_parent_key :: "pointer \<Rightarrow> pointer response option" where
  "handle_parent_key p = map_option ok_json (parent p)"

subsection \<open>Writing\<close>

text \<open>
  \<open>persist\<close> and \<open>remove\<close> open a write context of their own, run the statements of \<open>store\<close> or \<open>delete\<close> on it, commit and close
  it. \<open>remove\<close> returns what the deletions have reported.
\<close>

definition persist ::
    "('w, 'd) component list \<Rightarrow> ('w \<Rightarrow> ('s, 't) edb) \<Rightarrow> ('w \<Rightarrow> ('s, 't) edb \<Rightarrow> 'w) \<Rightarrow>
     ('s, pointer, unit) table_ops \<Rightarrow> ('t, pointer, 'v) table_ops \<Rightarrow> ent \<Rightarrow> 'd \<Rightarrow> nat \<Rightarrow> 'v einst \<Rightarrow> 'w \<Rightarrow> ('w \<times> pointer res) option" where
  "persist ctx rd wr K V e dur took i w =
     and_then (begin_writing ctx dur w) (\<lambda>w1 _.
       and_then (two_phase_commit_or_rollback_and_close_with ctx (on_tx rd wr (\<lambda>db. Some (store K V e db i))) took w1)
         (\<lambda>w2 _. Some (w2, Inr (inst_key i))))"

definition remove ::
    "('w, 'd) component list \<Rightarrow> ('w \<Rightarrow> ('s, 't) edb) \<Rightarrow> ('w \<Rightarrow> ('s, 't) edb \<Rightarrow> 'w) \<Rightarrow> bool \<Rightarrow>
     ('s, pointer, unit) table_ops \<Rightarrow> ('t, pointer, 'v) table_ops \<Rightarrow> ent \<Rightarrow> 'd \<Rightarrow> nat \<Rightarrow> pointer \<Rightarrow> 'w \<Rightarrow> ('w \<times> bool res) option" where
  "remove ctx rd wr checks K V e dur took p w =
     and_then (begin_writing ctx dur w) (\<lambda>w1 _.
       case delete checks K V e (rd w1) p of
         None \<Rightarrow> None
       | Some (_, removed) \<Rightarrow>
           and_then (two_phase_commit_or_rollback_and_close_with ctx (on_tx rd wr (\<lambda>db. delete checks K V e db p)) took w1)
             (\<lambda>w2 _. Some (w2, removed)))"

subsection \<open>Requests\<close>

text \<open>
  The extraction of the arguments in front of a handler: the key from the path, and an instance from the body by the JSON
  extractor of axum, whose rejection has a status and a text.
\<close>

definition app_json :: "(bytes \<Rightarrow> (nat \<times> string) + 'i) \<Rightarrow> bytes \<Rightarrow> 'i res" where
  "app_json from_json body = (case from_json body of Inl (status, t) \<Rightarrow> Inl (JsonRejection status t) | Inr i \<Rightarrow> Inr i)"


definition with_path_key :: "ptr_ty \<Rightarrow> (parse_pointer_error \<Rightarrow> 'b response) \<Rightarrow> string \<Rightarrow> (pointer \<Rightarrow> 'b response option) \<Rightarrow> 'b response option" where
  "with_path_key ty reject segment handler = (case try_from ty segment of Inl e \<Rightarrow> Some (reject e) | Inr p \<Rightarrow> handler p)"

definition http_get where
  "http_get checks K V e entity_name reject begin segment =
     with_path_key (ent_key e) reject segment (\<lambda>p. handle_get entity_name begin (\<lambda>db. get checks K V e db p))"

definition http_head where
  "http_head K e reject begin segment =
     with_path_key (ent_key e) reject segment (\<lambda>p. handle_exists begin (\<lambda>db. Some (exists_key K db p)))"

definition http_post where
  "http_post ctx rd wr K V e dur took from_json body w =
     (case app_json from_json body of
        Inl er \<Rightarrow> Some (w, into_response er)
      | Inr i \<Rightarrow> map_option (\<lambda>(w', r). (w', handle_persist r)) (persist ctx rd wr K V e dur took i w))"

definition http_delete where
  "http_delete ctx rd wr checks K V e dur took reject segment w =
     (case try_from (ent_key e) segment of
        Inl er \<Rightarrow> Some (w, reject er)
      | Inr p \<Rightarrow> map_option (\<lambda>(w', r). (w', handle_remove r)) (remove ctx rd wr checks K V e dur took p w))"

subsection \<open>Properties\<close>

lemma handle_get_simps [simp]:
  "handle_get n (Inr db) (\<lambda>db. Some (Inr (Some x))) = Some (ok_json x)"
  "handle_get n (Inr db) (\<lambda>db. Some (Inr None)) = Some \<lparr>rs_status = 404, rs_body = Error_Body (n @ '' not found'') 404\<rparr>"
  by (simp_all add: handle_get_def with_ctx_def)

lemma http_get_ok:
  assumes "tables_ok K V kview vview" and "valid kview vview e db" and "try_from (ent_key e) s = Inr p"
  shows "http_get checks K V e n reject (Inr db) s =
    Some (case lookup kview vview e db p of Some i \<Rightarrow> ok_json i | None \<Rightarrow> \<lparr>rs_status = 404, rs_body = Error_Body (n @ '' not found'') 404\<rparr>)"
  using assms(3) get_ok[OF assms(1,2)]
  by (simp add: http_get_def with_path_key_def handle_get_def with_ctx_def split: option.splits)

lemma http_head_ok:
  assumes "tables_ok K V kview vview" and "valid kview vview e db" and "try_from (ent_key e) s = Inr p"
  shows "http_head K e reject (Inr db) s = Some (status_only (lookup kview vview e db p \<noteq> None))"
proof -
  have "exists_key K db p = Inr (p \<in> stored_keys kview db)"
    using tables_okD(3)[OF assms(1)] by (auto simp: exists_key_def)
  moreover have "p \<in> stored_keys kview db \<longleftrightarrow> lookup kview vview e db p \<noteq> None" by (cases e) (auto split: if_splits)
  ultimately show ?thesis using assms(3) by (simp add: http_head_def with_path_key_def handle_exists_def with_ctx_def)
qed


lemma persist_ok:
  assumes "serves ctx dur rd wr" and "store K V e (rd w) i = (db, Inr ())"
  shows "\<exists>w'. persist ctx rd wr K V e dur took i w = Some (w', Inr (inst_key i)) \<and> rd w' = db"
proof -
  let ?f = "\<lambda>db. Some (store K V e db i)"
  have "?f (rd w) = Some (db, Inr ())" using assms(2) by simp
  from transaction_ok(2)[OF assms(1), of ?f w db "()" took, OF this] obtain w' tasks where
    1: "and_then (begin_writing ctx dur w) (\<lambda>w1 _. two_phase_commit_or_rollback_and_close_with ctx (on_tx rd wr ?f) took w1) = Some (w', Inr tasks)"
    "rd w' = db" by blast
  from servesD(2)[OF assms(1), of w] obtain w1 where "begin_writing ctx dur w = Some (w1, Inr ())" "rd w1 = rd w" by blast
  with 1 show ?thesis by (simp add: persist_def and_then_def)
qed

lemma remove_ok:
  assumes "serves ctx dur rd wr" and "delete checks K V e (rd w) p = Some (db, Inr b)"
  shows "\<exists>w'. remove ctx rd wr checks K V e dur took p w = Some (w', Inr b) \<and> rd w' = db"
proof -
  let ?f = "\<lambda>db. delete checks K V e db p"
  from transaction_ok(2)[OF assms(1), of ?f w db b took, OF assms(2)] obtain w' tasks where
    1: "and_then (begin_writing ctx dur w) (\<lambda>w1 _. two_phase_commit_or_rollback_and_close_with ctx (on_tx rd wr ?f) took w1) = Some (w', Inr tasks)"
    "rd w' = db" by blast
  from servesD(2)[OF assms(1), of w] obtain w1 where "begin_writing ctx dur w = Some (w1, Inr ())" "rd w1 = rd w" by blast
  with 1 assms(2) show ?thesis by (simp add: remove_def and_then_def)
qed



text \<open>
  A filter that is no JSON is answered with the status of an internal error, where every other malformed request is
  the fault of the client.
\<close>

lemma malformed_filter_internal:
  assumes "bs \<noteq> []" and "from_slice bs = Inl m"
  shows "handle_filtered_stream from_slice (Some bs) begin stream = Some \<lparr>rs_status = 500, rs_body = Error_Body (''serde error: '' @ m) 500\<rparr>"
  using assms by (simp add: handle_filtered_stream_def maybe_json_def into_response_def)

end
