(* ===== verification/Samples.thy ===== *)
theory Samples
  imports Http_Handlers Column_Codec
begin

section \<open>Samples\<close>

text \<open>
  The sample instances that every entity gets (\<open>macros/src/entity/sample.rs\<close> with the \<open>default_init\<close> templates of \<open>column/init.rs\<close>,
  \<open>pk/init.rs\<close> and \<open>relationship/init.rs\<close>), and the initialisation of a new storage, which stores a sample and removes it
  again (\<open>macros/src/entity/init.rs\<close>).

  A sample needs the default of every column and its next value, so the description \<open>ent\<close> of an entity is extended by
  them: \<open>sent\<close>. A column that points to another entity takes the key itself, which \<open>S_Pointer\<close> turns into a value.
  Index arithmetic may panic, which is \<open>None\<close>.
\<close>

subsection \<open>Entities with defaults\<close>

datatype 'v sent = Sent (sent_root: bool) (sent_key: ptr_ty) (sent_cols: "'v scol list")
and 'v scol = S_Value 'v "'v \<Rightarrow> 'v" | S_Pointer "pointer \<Rightarrow> 'v" | S_One "'v sent" | S_Opt "'v sent" | S_Many "'v sent"

fun ent_of :: "'v sent \<Rightarrow> ent" and ecol_of :: "'v scol \<Rightarrow> ecol" where
  "ent_of (Sent root ty cols) = Ent root ty (map ecol_of cols)"
| "ecol_of (S_Value d nx) = E_Value"
| "ecol_of (S_Pointer of_key) = E_Value"
| "ecol_of (S_One s) = E_One (ent_of s)"
| "ecol_of (S_Opt s) = E_Opt (ent_of s)"
| "ecol_of (S_Many s) = E_Many (ent_of s)"

lemma ent_key_of [simp]: "ent_key (ent_of s) = sent_key s"
  by (cases s) simp

subsection \<open>Samples\<close>

text \<open>
  \<open>std::iter::successors\<close> under \<open>take\<close>: every item that is taken computes its successor first, so that one sample more is
  computed than returned.
\<close>

fun successors_take :: "(pointer \<Rightarrow> 'i option) \<Rightarrow> (pointer \<Rightarrow> pointer option) \<Rightarrow> nat \<Rightarrow> pointer \<times> 'i \<Rightarrow> 'i list option" where
  "successors_take f nx 0 st = Some []"
| "successors_take f nx (Suc n) (prev_pointer, i) =
     do {
       new_entity \<leftarrow> f prev_pointer;
       q \<leftarrow> nx prev_pointer;
       rest \<leftarrow> successors_take f nx n (q, new_entity);
       Some (i # rest)
     }"

definition sample_many :: "(pointer \<Rightarrow> 'i option) \<Rightarrow> (pointer \<Rightarrow> pointer option) \<Rightarrow> pointer \<Rightarrow> nat \<Rightarrow> 'i list option" where
  "sample_many sample nx pk n =
     do {
       first \<leftarrow> sample pk;
       q \<leftarrow> nx pk;
       successors_take sample nx n (q, first)
     }"

text \<open>The value of a column is the \<open>n\<close>-th after the default, for the number \<open>n\<close> of the key.\<close>

definition default_value :: "'v \<Rightarrow> ('v \<Rightarrow> 'v) \<Rightarrow> pointer \<Rightarrow> 'v" where
  "default_value d nx p = nth_value nx d (total_index p mod 2 ^ 64)"

fun sample_with :: "bool \<Rightarrow> 'v sent \<Rightarrow> pointer \<Rightarrow> 'v einst option"
  and sample_cols :: "bool \<Rightarrow> ptr_ty \<Rightarrow> 'v scol list \<Rightarrow> pointer \<Rightarrow> 'v efield list option"
  and sample_col :: "bool \<Rightarrow> ptr_ty \<Rightarrow> 'v scol \<Rightarrow> pointer \<Rightarrow> 'v efield option" where
  "sample_with checks (Sent root ty cols) p = map_option (Einst p) (sample_cols checks ty cols p)"
| "sample_cols checks ty [] p = Some []"
| "sample_cols checks ty (c # cs) p =
     do { f \<leftarrow> sample_col checks ty c p; fs \<leftarrow> sample_cols checks ty cs p; Some (f # fs) }"
| "sample_col checks ty (S_Value d nx) p = Some (F_Value (default_value d nx p))"
| "sample_col checks ty (S_Pointer of_key) p = Some (F_Value (of_key p))"
| "sample_col checks ty (S_One s) p = map_option F_One (sample_with checks s p)"
| "sample_col checks ty (S_Opt s) p = map_option (F_Opt \<circ> Some) (sample_with checks s p)"
| "sample_col checks ty (S_Many s) p =
     do {
       (a, b) \<leftarrow> fk_range checks ty p;
       map_option F_Many (sample_many (sample_with checks s) (next_index checks (sent_key s)) a 3)
     }"

text \<open>The same under a query; the series of samples ends with the first that the query does not select.\<close>

fun successors_query ::
    "(pointer \<Rightarrow> 'i option option) \<Rightarrow> (pointer \<Rightarrow> pointer option) \<Rightarrow> nat \<Rightarrow> (pointer \<times> 'i) option \<Rightarrow> 'i list option" where
  "successors_query f nx 0 st = Some []"
| "successors_query f nx (Suc n) None = Some []"
| "successors_query f nx (Suc n) (Some (prev_pointer, i)) =
     do {
       new_entity \<leftarrow> f prev_pointer;
       st \<leftarrow> (case new_entity of None \<Rightarrow> Some None | Some j \<Rightarrow> map_option (\<lambda>q. Some (q, j)) (nx prev_pointer));
       rest \<leftarrow> successors_query f nx n st;
       Some (i # rest)
     }"

definition sample_many_with_query ::
    "(pointer \<Rightarrow> 'i option option) \<Rightarrow> (pointer \<Rightarrow> pointer option) \<Rightarrow> pointer \<Rightarrow> nat \<Rightarrow> 'i list option" where
  "sample_many_with_query sample nx pk n =
     do {
       first \<leftarrow> sample pk;
       st \<leftarrow> (case first of None \<Rightarrow> Some None | Some e \<Rightarrow> map_option (\<lambda>q. Some (q, e)) (nx pk));
       successors_query sample nx n st
     }"

definition keep_sample :: "'v::order fcol \<Rightarrow> 'v \<Rightarrow> 'v efield option" where
  "keep_sample q v = (case q of Q_Value (Some filter_op) \<Rightarrow> if \<not> matches filter_op v then None else Some (F_Value v) | _ \<Rightarrow> Some (F_Value v))"

fun sample_with_query :: "bool \<Rightarrow> 'v::order sent \<Rightarrow> 'v fquery \<Rightarrow> pointer \<Rightarrow> 'v einst option option"
  and sample_cols_query :: "bool \<Rightarrow> ptr_ty \<Rightarrow> 'v scol list \<Rightarrow> 'v fcol list \<Rightarrow> pointer \<Rightarrow> 'v efield list option option"
  and sample_col_query :: "bool \<Rightarrow> ptr_ty \<Rightarrow> 'v scol \<Rightarrow> 'v fcol \<Rightarrow> pointer \<Rightarrow> 'v efield option option" where
  "sample_with_query checks (Sent root ty cols) q p =
     (case q of Query qs \<Rightarrow> map_option (map_option (Einst p)) (sample_cols_query checks ty cols qs p))"
| "sample_cols_query checks ty [] qs p = Some (Some [])"
| "sample_cols_query checks ty (c # cs) qs p =
     (if qs = [] then Some (Some [])
      else (case sample_col_query checks ty c (hd qs) p of
              None \<Rightarrow> None
            | Some None \<Rightarrow> Some None
            | Some (Some f) \<Rightarrow> map_option (map_option (Cons f)) (sample_cols_query checks ty cs (tl qs) p)))"
| "sample_col_query checks ty (S_Value d nx) q p = Some (keep_sample q (default_value d nx p))"
| "sample_col_query checks ty (S_Pointer of_key) q p = Some (keep_sample q (of_key p))"
| "sample_col_query checks ty (S_One s) q p =
     (case q of
        Q_Child (Some cq) \<Rightarrow> map_option (map_option F_One) (sample_with_query checks s cq p)
      | _ \<Rightarrow> map_option (Some \<circ> F_One) (sample_with checks s p))"
| "sample_col_query checks ty (S_Opt s) q p =
     (case q of
        Q_Child (Some cq) \<Rightarrow> map_option (Some \<circ> F_Opt) (sample_with_query checks s cq p)
      | _ \<Rightarrow> map_option (Some \<circ> F_Opt \<circ> Some) (sample_with checks s p))"
| "sample_col_query checks ty (S_Many s) q p =
     do {
       (a, b) \<leftarrow> fk_range checks ty p;
       map_option (Some \<circ> F_Many)
         (case q of
            Q_Child (Some cq) \<Rightarrow> sample_many_with_query (sample_with_query checks s cq) (next_index checks (sent_key s)) a 3
          | _ \<Rightarrow> sample_many (sample_with checks s) (next_index checks (sent_key s)) a 3)
     }"

subsection \<open>Initialising a storage\<close>

fun default_key :: "ptr_ty \<Rightarrow> pointer" where
  "default_key (Root_Ty k) = Root 0"
| "default_key (Child_Ty t k) = Child (default_key t) 0"

definition sample :: "bool \<Rightarrow> 'v sent \<Rightarrow> 'v einst option" where
  "sample checks s = sample_with checks s (default_key (sent_key s))"

definition init_storage where
  "init_storage ctx rd wr checks K V s dur took took' w =
     (case sample checks s of
        None \<Rightarrow> None
      | Some sample_block \<Rightarrow>
          and_then (persist ctx rd wr K V (ent_of s) dur took sample_block w) (\<lambda>w1 _.
            and_then (remove ctx rd wr checks K V (ent_of s) dur took' (inst_key sample_block) w1) (\<lambda>w2 _. Some (w2, Inr ()))))"

subsection \<open>Samples exist and are well-formed\<close>

fun sent_ok :: "'v sent \<Rightarrow> bool" and scol_ok :: "ptr_ty \<Rightarrow> 'v scol \<Rightarrow> bool" where
  "sent_ok (Sent root ty cols) \<longleftrightarrow> (\<forall>c\<in>set cols. scol_ok ty c)"
| "scol_ok ty (S_Value d nx) \<longleftrightarrow> True"
| "scol_ok ty (S_Pointer of_key) \<longleftrightarrow> True"
| "scol_ok ty (S_One s) \<longleftrightarrow> sent_key s = ty \<and> sent_ok s"
| "scol_ok ty (S_Opt s) \<longleftrightarrow> sent_key s = ty \<and> sent_ok s"
| "scol_ok ty (S_Many s) \<longleftrightarrow> (case sent_key s of Child_Ty t w \<Rightarrow> t = ty \<and> 0 < w | Root_Ty w \<Rightarrow> False) \<and> sent_ok s"

lemma child_keys:
  assumes "key_ok ty p" and "0 < w" and "j \<le> 3"
  shows "key_ok (Child_Ty ty w) (Child p j)" and "next_index checks (Child_Ty ty w) (Child p j) = Some (Child p (Suc j))"
proof -
  have "(256::nat) ^ 1 \<le> 256 ^ w" using assms(2) by (intro power_increasing) auto
  then have "Suc j < 256 ^ w" using assms(3) by simp
  with assms(1) show "key_ok (Child_Ty ty w) (Child p j)" "next_index checks (Child_Ty ty w) (Child p j) = Some (Child p (Suc j))"
    by (auto simp: key_ok_def add_index_def)
qed

lemma fk_range_key_ok:
  assumes "key_ok ty p"
  shows "\<exists>b. fk_range checks ty p = Some (Child p 0, b)"
proof -
  from assms obtain q where "next_index True ty p = Some q" by (auto simp: key_ok_def)
  then have "next_index checks ty p = Some q"
    by (cases ty; cases p) (auto simp: add_index_def split: if_splits)
  then show ?thesis by (auto simp: fk_range_def from_parent_def)
qed

lemma sample_many_ok:
  assumes "key_ok ty p" and "0 < w" and "\<And>j. j \<le> 3 \<Longrightarrow> f (Child p j) = Some (g j)"
  shows "sample_many f (next_index checks (Child_Ty ty w)) (Child p 0) 3 = Some [g 0, g 1, g 2]"
  using assms(3) child_keys(2)[OF assms(1,2)] by (simp add: sample_many_def numeral_3_eq_3 numeral_2_eq_2)

lemma sample_ok:
  fixes s :: "'v sent" and c :: "'v scol"
  shows "sent_ok s \<Longrightarrow> key_ok (sent_key s) p \<Longrightarrow>
           \<exists>i. sample_with checks s p = Some i \<and> inst_key i = p \<and> wf_inst (ent_of s) i"
    and "scol_ok ty c \<Longrightarrow> key_ok ty p \<Longrightarrow> \<exists>f. sample_col checks ty c p = Some f \<and> wf_field ty p (ecol_of c) f"
proof (induction s and c arbitrary: p and ty p rule: sent.induct scol.induct)
  case (Sent root ty cols)
  have "\<exists>fs. sample_cols checks ty cs p = Some fs \<and> wf_fields ty p (map ecol_of cs) fs" if "set cs \<subseteq> set cols" for cs
    using that
  proof (induction cs)
    case (Cons c cs)
    with Sent.IH[of c ty p] Sent.prems obtain f fs where "sample_col checks ty c p = Some f" "wf_field ty p (ecol_of c) f"
      "sample_cols checks ty cs p = Some fs" "wf_fields ty p (map ecol_of cs) fs" by auto
    then show ?case by auto
  qed simp
  from this[of cols] Sent.prems show ?case by auto
next
  case (S_Many s)
  then obtain w where w: "sent_key s = Child_Ty ty w" "0 < w" by (auto split: ptr_ty.splits)
  have "\<exists>i. sample_with checks s (Child p j) = Some i \<and> inst_key i = Child p j \<and> wf_inst (ent_of s) i" if "j \<le> 3" for j
    using S_Many child_keys(1)[OF S_Many.prems(2) w(2) that] w(1) by simp
  then obtain g where g: "\<And>j. j \<le> 3 \<Longrightarrow> sample_with checks s (Child p j) = Some (g j) \<and> inst_key (g j) = Child p j \<and> wf_inst (ent_of s) (g j)"
    by metis
  from fk_range_key_ok[OF S_Many.prems(2)] obtain b where "fk_range checks ty p = Some (Child p 0, b)" by blast
  then have "sample_col checks ty (S_Many s) p = Some (F_Many [g 0, g 1, g 2])"
    using sample_many_ok[OF S_Many.prems(2) w(2), of "sample_with checks s" g checks] g w(1) by simp
  with g[of 0] g[of 1] g[of 2] show ?case by simp
next
  case (S_One s)
  then obtain i where "sample_with checks s p = Some i" "inst_key i = p" "wf_inst (ent_of s) i" by auto
  then show ?case by auto
next
  case (S_Opt s)
  then obtain i where "sample_with checks s p = Some i" "inst_key i = p" "wf_inst (ent_of s) i" by auto
  then show ?case by auto
qed auto

subsection \<open>Samples under a query\<close>

text \<open>Queries that ask for no optional child and no list of children.\<close>

fun plain_query :: "'v sent \<Rightarrow> 'v fquery \<Rightarrow> bool" and plain_cols :: "'v scol list \<Rightarrow> 'v fcol list \<Rightarrow> bool" and plain_col :: "'v scol \<Rightarrow> 'v fcol \<Rightarrow> bool" where
  "plain_query (Sent root ty cols) q \<longleftrightarrow> (case q of Query qs \<Rightarrow> plain_cols cols qs)"
| "plain_cols [] qs \<longleftrightarrow> True"
| "plain_cols (c # cs) qs \<longleftrightarrow> qs = [] \<or> plain_col c (hd qs) \<and> plain_cols cs (tl qs)"
| "plain_col (S_One s) q \<longleftrightarrow> (case q of Q_Child (Some cq) \<Rightarrow> plain_query s cq | _ \<Rightarrow> True)"
| "plain_col (S_Opt s) q \<longleftrightarrow> (case q of Q_Child (Some cq) \<Rightarrow> False | _ \<Rightarrow> True)"
| "plain_col (S_Many s) q \<longleftrightarrow> (case q of Q_Child (Some cq) \<Rightarrow> False | _ \<Rightarrow> True)"
| "plain_col _ q \<longleftrightarrow> True"

lemma successors_take_length: "successors_take f nx n st = Some is \<Longrightarrow> length is = n"
  by (induction f nx n st arbitrary: "is" rule: successors_take.induct) (auto simp: Option.bind_eq_Some_conv)

lemma keep_sample_filter: "keep_sample q v = filter_field q (F_Value v)"
  by (simp add: keep_sample_def split: fcol.split option.split)

lemma sample_with_query_ok:
  fixes s :: "'v::order sent" and c :: "'v scol"
  shows "plain_query s q \<Longrightarrow> sample_with checks s p = Some i \<Longrightarrow> sample_with_query checks s q p = Some (filter_inst q i)"
    and "plain_col c fq \<Longrightarrow> sample_col checks ty c p = Some f \<Longrightarrow> sample_col_query checks ty c fq p = Some (filter_field fq f)"
proof (induction s and c arbitrary: q p i and fq ty p f rule: sent.induct scol.induct)
  case (Sent root ty cols)
  have "sample_cols_query checks ty cs qs p = Some (filter_fields qs fs)"
    if "plain_cols cs qs" "sample_cols checks ty cs p = Some fs" "set cs \<subseteq> set cols" for cs qs fs
    using that
  proof (induction cs arbitrary: qs fs)
    case (Cons c cs)
    then obtain f fs' where f: "sample_col checks ty c p = Some f" "sample_cols checks ty cs p = Some fs'" "fs = f # fs'"
      by (auto simp: Option.bind_eq_Some_conv)
    show ?case
    proof (cases qs)
      case (Cons q qs')
      with Cons.prems f Sent.IH[of c q ty p f] Cons.IH[of qs' fs'] show ?thesis by (auto split: option.split)
    qed (simp add: f)
  qed simp
  with Sent.prems show ?case by (cases q) auto
next
  case (S_One s)
  then show ?case by (auto split: fcol.splits option.splits)
next
  case (S_Opt s)
  then show ?case by (auto split: fcol.splits option.splits)
next
  case (S_Many s)
  then obtain a b "is" where "fk_range checks ty p = Some (a, b)" "f = F_Many is"
    "sample_many (sample_with checks s) (next_index checks (sent_key s)) a 3 = Some is" by (auto simp: Option.bind_eq_Some_conv)
  moreover from this(3) have "length is = 3" using successors_take_length by (auto simp: sample_many_def Option.bind_eq_Some_conv)
  moreover from this have "is \<noteq> []" by auto
  ultimately show ?case using S_Many.prems(1) by (auto split: fcol.splits option.splits)
qed (simp_all add: keep_sample_filter)

subsection \<open>Properties\<close>


text \<open>A stored sample is read under a plain query as the query samples it.\<close>

lemma stored_sample_selected:
  assumes "tables_ok K V kview vview" and "valid kview vview (ent_of s) db" and "plain_query s q"
    and "sample_with checks s p = Some i" and "get checks K V (ent_of s) db p = Some (Inr (Some i))"
  shows "\<exists>r. sample_with_query checks s q p = Some r \<and> filter_ent checks K V (ent_of s) db p q = Some (Inr r)"
proof -
  have l: "lookup kview vview (ent_of s) db p = Some i" using assms(5) by (simp add: get_ok[OF assms(1,2)])
  then have "p \<in> stored_keys kview db" by (cases "ent_of s") (auto split: if_splits)
  then have "filter_ent checks K V (ent_of s) db p q = Some (Inr (filter_inst q i))"
    using filter_with_ok[OF assms(1), of p db "compose_with_filter checks K V (ent_of s) db q" q "ent_of s"] compose_with_filter_ok(1)[OF assms(1,2)] l
    by (simp add: filter_ent_def)
  with sample_with_query_ok(1)[OF assms(3,4)] show ?thesis by blast
qed

definition demo_sample :: "nat sent" where
  "demo_sample = Sent True (Root_Ty 4)
     [S_Value 0 Suc, S_One (Sent False (Root_Ty 4) [S_Value 0 Suc]), S_Many (Sent False (Child_Ty (Root_Ty 4) 2) [S_Value 0 Suc])]"

lemma demo_sample_ok: "ent_of demo_sample = demo_block" "sent_ok demo_sample" "sent_key demo_sample = Root_Ty 4"
  by (simp_all add: demo_sample_def demo_block_def)

lemma nth_value_Suc_zero: "nth_value Suc m n = m + n"
  by (induction n arbitrary: m) simp_all

text \<open>
  A query on a list of owned entities ends the samples at the first that is not selected, while reading skips it:
  a query for children with a value of at least one selects two of the three children of the sample, and the
  sample under the query has none.
\<close>

lemma sampled_children_end_early:
  "let q = Query [Q_Value None, Q_Child None, Q_Child (Some (Query [Q_Value (Some (Ge 1))]))]
   in \<exists>i j. sample_with True demo_sample (Root 0) = Some i \<and> filter_inst q i = Some j \<and>
        inst_fields j ! 2 = F_Many [Einst (Child (Root 0) 1) [F_Value 1], Einst (Child (Root 0) 2) [F_Value 2]] \<and>
        (\<exists>k. sample_with_query True demo_sample q (Root 0) = Some (Some k) \<and> inst_fields k ! 2 = F_Many [])"
  by (simp add: demo_sample_def default_value_def fk_range_def from_parent_def add_index_def sample_many_def sample_many_with_query_def keep_sample_def
      nth_value_Suc_zero numeral_3_eq_3)


end
