(* ===== verification/Text_Codec.thy ===== *)
theory Text_Codec
  imports Address_Codec Column_Codec
begin

section \<open>Text forms of byte columns\<close>

text \<open>
  The encodings of byte columns as text, \<open>Base64\<close>, \<open>Hex\<close> and \<open>Utf8\<close> of \<open>redbit/src/codec.rs\<close>, and of the strings of Rust
  what they use: the check for UTF-8 (\<open>str::from_utf8\<close>), the replacement of invalid parts (\<open>String::from_utf8_lossy\<close>) and the bytes
  of a string. A text is the list of its scalar values. The crates hex and base64 are parameters with the
  law that decoding inverts encoding.
\<close>

subsection \<open>UTF-8\<close>

definition cont :: "u8 \<Rightarrow> bool" where
  "cont b \<longleftrightarrow> 0x80 \<le> unat b \<and> unat b \<le> 0xBF"

text \<open>The second byte after a first byte of three or four: overlong forms, surrogates and too large values are excluded.\<close>

definition second_of_3 :: "nat \<Rightarrow> u8 \<Rightarrow> bool" where
  "second_of_3 x b \<longleftrightarrow> cont b \<and> (x = 0xE0 \<longrightarrow> 0xA0 \<le> unat b) \<and> (x = 0xED \<longrightarrow> unat b \<le> 0x9F)"

definition second_of_4 :: "nat \<Rightarrow> u8 \<Rightarrow> bool" where
  "second_of_4 x b \<longleftrightarrow> cont b \<and> (x = 0xF0 \<longrightarrow> 0x90 \<le> unat b) \<and> (x = 0xF4 \<longrightarrow> unat b \<le> 0x8F)"

definition low6 :: "u8 \<Rightarrow> nat" where
  "low6 b = unat b - 0x80"

text \<open>One scalar value, or the rest after the longest invalid part that begins like one.\<close>

fun utf8_step :: "bytes \<Rightarrow> bytes + nat \<times> bytes" where
  "utf8_step [] = Inl []"
| "utf8_step (b # bs) =
     (let x = unat b in
      if x < 0x80 then Inr (x, bs)
      else if 0xC2 \<le> x \<and> x \<le> 0xDF
      then (case bs of
              b1 # r \<Rightarrow> if cont b1 then Inr ((x - 0xC0) * 64 + low6 b1, r) else Inl bs
            | [] \<Rightarrow> Inl bs)
      else if 0xE0 \<le> x \<and> x \<le> 0xEF
      then (case bs of
              b1 # r \<Rightarrow>
                if second_of_3 x b1
                then (case r of
                        b2 # r' \<Rightarrow> if cont b2 then Inr (((x - 0xE0) * 64 + low6 b1) * 64 + low6 b2, r') else Inl r
                      | [] \<Rightarrow> Inl r)
                else Inl bs
            | [] \<Rightarrow> Inl bs)
      else if 0xF0 \<le> x \<and> x \<le> 0xF4
      then (case bs of
              b1 # r \<Rightarrow>
                if second_of_4 x b1
                then (case r of
                        b2 # r' \<Rightarrow>
                          if cont b2
                          then (case r' of
                                  b3 # r'' \<Rightarrow>
                                    if cont b3 then Inr ((((x - 0xF0) * 64 + low6 b1) * 64 + low6 b2) * 64 + low6 b3, r'') else Inl r'
                                | [] \<Rightarrow> Inl r')
                          else Inl r
                      | [] \<Rightarrow> Inl r)
                else Inl bs
            | [] \<Rightarrow> Inl bs)
      else Inl bs)"

lemma utf8_step_shorter:
  assumes "bs \<noteq> []"
  shows "utf8_step bs = Inl r \<Longrightarrow> length r < length bs" and "utf8_step bs = Inr (c, r) \<Longrightarrow> length r < length bs"
  using assms by (cases bs; auto simp: Let_def split: if_splits list.splits)+

function str_from_utf8 :: "bytes \<Rightarrow> nat list option" where
  "str_from_utf8 bs =
     (if bs = [] then Some []
      else (case utf8_step bs of Inl _ \<Rightarrow> None | Inr (c, r) \<Rightarrow> map_option (Cons c) (str_from_utf8 r)))"
  by pat_completeness auto
termination by (relation "measure length") (auto simp: utf8_step_shorter)

function from_utf8_lossy :: "bytes \<Rightarrow> nat list" where
  "from_utf8_lossy bs =
     (if bs = [] then []
      else (case utf8_step bs of Inl r \<Rightarrow> 0xFFFD # from_utf8_lossy r | Inr (c, r) \<Rightarrow> c # from_utf8_lossy r))"
  by pat_completeness auto
termination by (relation "measure length") (auto simp: utf8_step_shorter)

declare str_from_utf8.simps [simp del] from_utf8_lossy.simps [simp del]

definition utf8_encode :: "nat \<Rightarrow> bytes" where
  "utf8_encode c =
     (if c < 0x80 then [of_nat c]
      else if c < 0x800 then [of_nat (0xC0 + c div 64), of_nat (0x80 + c mod 64)]
      else if c < 0x10000 then [of_nat (0xE0 + c div 4096), of_nat (0x80 + c div 64 mod 64), of_nat (0x80 + c mod 64)]
      else [of_nat (0xF0 + c div 262144), of_nat (0x80 + c div 4096 mod 64), of_nat (0x80 + c div 64 mod 64), of_nat (0x80 + c mod 64)])"

definition str_bytes :: "nat list \<Rightarrow> bytes" where
  "str_bytes s = concat (map utf8_encode s)"

subsection \<open>Codecs\<close>

record byte_text_env =
  hex_encode :: "bytes \<Rightarrow> string"
  hex_decode :: "string \<Rightarrow> string + bytes"
  base64_encode :: "bytes \<Rightarrow> string"
  base64_decode :: "string \<Rightarrow> string + bytes"

definition byte_text_laws :: "byte_text_env \<Rightarrow> bool" where
  "byte_text_laws X \<longleftrightarrow> (\<forall>b. hex_decode X (hex_encode X b) = Inr b) \<and> (\<forall>b. base64_decode X (base64_encode X b) = Inr b)"

definition hex_serialize_as :: "byte_text_env \<Rightarrow> bytes \<Rightarrow> string + string" where
  "hex_serialize_as X source = Inr (hex_encode X source)"

definition hex_deserialize_as :: "byte_text_env \<Rightarrow> string \<Rightarrow> string + bytes" where
  "hex_deserialize_as X s = hex_decode X s"

definition base64_serialize_as :: "byte_text_env \<Rightarrow> bytes \<Rightarrow> string + string" where
  "base64_serialize_as X source = Inr (base64_encode X source)"

definition base64_deserialize_as :: "byte_text_env \<Rightarrow> string \<Rightarrow> string + bytes" where
  "base64_deserialize_as X s = base64_decode X s"

definition utf8_serialize_as :: "bytes \<Rightarrow> string + nat list" where
  "utf8_serialize_as source =
     (case str_from_utf8 source of Some s \<Rightarrow> Inr s | None \<Rightarrow> Inl ''Bytes cannot be UTF-8 encoded'')"

definition utf8_deserialize_as :: "nat list \<Rightarrow> string + bytes" where
  "utf8_deserialize_as s = Inr (str_bytes s)"

definition utf8_next_value :: "bytes \<Rightarrow> bytes" where
  "utf8_next_value value =
     (let s = (case str_from_utf8 value of Some s \<Rightarrow> s | None \<Rightarrow> from_utf8_lossy value) in str_bytes (increment_last_scalar s))"

text \<open>The examples; decoding the hexadecimal and the base 64 one is an \<open>unwrap\<close>.\<close>

definition hex_decoded_example :: "byte_text_env \<Rightarrow> bytes option" where
  "hex_decoded_example X = (case hex_decode X ''61'' of Inr b \<Rightarrow> Some b | Inl _ \<Rightarrow> None)"

definition base64_decoded_example :: "byte_text_env \<Rightarrow> bytes option" where
  "base64_decoded_example X = (case base64_decode X ''YQ=='' of Inr b \<Rightarrow> Some b | Inl _ \<Rightarrow> None)"

definition utf8_decoded_example :: bytes where
  "utf8_decoded_example = str_bytes [0x61]"

subsection \<open>Decoding inverts encoding\<close>

lemma unat_of_nat_u8: "n < 256 \<Longrightarrow> unat (of_nat n :: u8) = n"
  by (simp add: unat_of_nat)

lemma cont_of_nat: "n < 64 \<Longrightarrow> cont (of_nat (0x80 + n))" "n < 64 \<Longrightarrow> low6 (of_nat (0x80 + n)) = n"
  using unat_of_nat_u8[of "0x80 + n"] by (simp_all add: cont_def low6_def)

text \<open>The groups of six bits of a scalar value.\<close>

lemma six_bits:
  fixes a b d e :: nat
  assumes "b < 64" and "d < 64"
  shows "((a * 64 + b) * 64 + d) div 4096 = a" "((a * 64 + b) * 64 + d) div 64 mod 64 = b" "((a * 64 + b) * 64 + d) mod 64 = d"
    "e < 64 \<Longrightarrow> (((a * 64 + b) * 64 + d) * 64 + e) div 262144 = a" "e < 64 \<Longrightarrow> (((a * 64 + b) * 64 + d) * 64 + e) div 4096 mod 64 = b"
proof -
  have d4096: "x div 4096 = x div 64 div 64" for x :: nat by (simp add: div_mult2_eq[symmetric])
  have d262144: "x div 262144 = x div 64 div 64 div 64" for x :: nat by (simp add: div_mult2_eq[symmetric])
  have 1: "(x * 64 + y) div 64 = x" "(x * 64 + y) mod 64 = y" if "y < 64" for x y :: nat using that by simp_all
  show "((a * 64 + b) * 64 + d) div 4096 = a" "((a * 64 + b) * 64 + d) div 64 mod 64 = b" "((a * 64 + b) * 64 + d) mod 64 = d"
    by (simp_all only: d4096 1[OF assms(1)] 1[OF assms(2)])
  show "(((a * 64 + b) * 64 + d) * 64 + e) div 262144 = a" "(((a * 64 + b) * 64 + d) * 64 + e) div 4096 mod 64 = b" if "e < 64"
    by (simp_all only: d262144 d4096 1[OF assms(1)] 1[OF assms(2)] 1[OF that])
qed

lemma three_groups:
  fixes c :: nat obtains a b d where "c = (a * 64 + b) * 64 + d" "b < 64" "d < 64"
proof
  show "c = ((c div 64 div 64) * 64 + c div 64 mod 64) * 64 + c mod 64" "c div 64 mod 64 < 64" "c mod 64 < 64"
    by (simp_all only: div_mult_mod_eq mod_less_divisor zero_less_numeral)
qed

lemma utf8_step_encode:
  assumes "is_scalar c"
  shows "utf8_step (utf8_encode c @ r) = Inr (c, r)"
proof -
  have top: "c < 0x110000" using assms by (auto simp: is_scalar_def)
  consider "c < 0x80" | "0x80 \<le> c" "c < 0x800" | "0x800 \<le> c" "c < 0x10000" | "0x10000 \<le> c" by linarith
  then show ?thesis
  proof cases
    case 1
    then show ?thesis using unat_of_nat_u8[of c] by (simp add: utf8_encode_def)
  next
    case 2
    then have u: "unat (of_nat (0xC0 + c div 64) :: u8) = 0xC0 + c div 64" by (intro unat_of_nat_u8) (simp add: less_mult_imp_div_less)
    have "2 \<le> c div 64" "c div 64 < 32" using 2 by (simp_all add: less_eq_div_iff_mult_less_eq less_mult_imp_div_less)
    with 2 u cont_of_nat[of "c mod 64"] show ?thesis by (simp add: utf8_encode_def Let_def del: of_nat_add of_nat_numeral)
  next
    case 3
    obtain a b d where c: "c = (a * 64 + b) * 64 + d" "b < 64" "d < 64" by (rule three_groups)
    have a: "a < 16" using 3(2) c by simp
    have u: "unat (of_nat (0xE0 + a) :: u8) = 0xE0 + a" by (rule unat_of_nat_u8) (use a in simp)
    have ub: "unat (of_nat (0x80 + b) :: u8) = 0x80 + b" by (rule unat_of_nat_u8) (use c in simp)
    have enc: "utf8_encode c = [of_nat (0xE0 + a), of_nat (0x80 + b), of_nat (0x80 + d)]"
      unfolding utf8_encode_def using 3 six_bits(1-3)[OF c(2,3), of a] c(1) by (simp del: of_nat_add of_nat_numeral)
    have "second_of_3 (0xE0 + a) (of_nat (0x80 + b))"
      using assms 3 c ub cont_of_nat(1)[of b] by (auto simp: second_of_3_def is_scalar_def)
    with a c u enc cont_of_nat[of b] cont_of_nat[of d] show ?thesis by (simp add: Let_def del: of_nat_add of_nat_numeral)
  next
    case 4
    obtain a' d e where c: "c = (a' * 64 + d) * 64 + e" "d < 64" "e < 64" by (rule three_groups)
    define a b where "a = a' div 64" and "b = a' mod 64"
    have a': "a' = a * 64 + b" "b < 64" by (simp_all add: a_def b_def)
    have a: "a < 5" using top c(1) a' by simp
    have u: "unat (of_nat (0xF0 + a) :: u8) = 0xF0 + a" by (rule unat_of_nat_u8) (use a in simp)
    have ub: "unat (of_nat (0x80 + b) :: u8) = 0x80 + b" by (rule unat_of_nat_u8) (use a' in simp)
    have enc: "utf8_encode c = [of_nat (0xF0 + a), of_nat (0x80 + b), of_nat (0x80 + d), of_nat (0x80 + e)]"
      unfolding utf8_encode_def using 4 six_bits(4,5)[OF a'(2) c(2) c(3), of a] six_bits(2,3)[OF c(2,3), of a'] c(1) a'(1)
      by (simp del: of_nat_add of_nat_numeral)
    have "second_of_4 (0xF0 + a) (of_nat (0x80 + b))"
      using top 4 c a' ub cont_of_nat(1)[of b] by (auto simp: second_of_4_def)
    with a a' c u enc cont_of_nat[of b] cont_of_nat[of d] cont_of_nat[of e] show ?thesis by (simp add: Let_def del: of_nat_add of_nat_numeral)
  qed
qed

lemma byte_of_nat: "unat b = n \<Longrightarrow> b = (of_nat n :: u8)"
  by (metis of_nat_unat ucast_id)

lemma contE:
  assumes "cont b"
  obtains n where "b = of_nat (0x80 + n)" "n < 64" "low6 b = n" "unat b = 0x80 + n"
proof
  show "b = of_nat (0x80 + (unat b - 0x80))" by (rule byte_of_nat) (use assms in \<open>simp add: cont_def\<close>)
  show "unat b - 0x80 < 64" "low6 b = unat b - 0x80" "unat b = 0x80 + (unat b - 0x80)" using assms by (auto simp: cont_def low6_def)
qed

text \<open>The four forms of a scalar value in bytes.\<close>

lemma utf8_step_cases:
  assumes "utf8_step bs = Inr (c, r)"
  obtains "c < 0x80" "bs = of_nat c # r"
  | a d where "bs = of_nat (0xC0 + a) # of_nat (0x80 + d) # r" "c = a * 64 + d" "2 \<le> a" "a < 32" "d < 64"
  | a b d where "bs = of_nat (0xE0 + a) # of_nat (0x80 + b) # of_nat (0x80 + d) # r" "c = (a * 64 + b) * 64 + d" "a < 16" "b < 64" "d < 64"
      "a = 0 \<longrightarrow> 32 \<le> b" "a = 13 \<longrightarrow> b < 32"
  | a b d e where "bs = of_nat (0xF0 + a) # of_nat (0x80 + b) # of_nat (0x80 + d) # of_nat (0x80 + e) # r" "c = ((a * 64 + b) * 64 + d) * 64 + e"
      "a < 5" "b < 64" "d < 64" "e < 64" "a = 0 \<longrightarrow> 16 \<le> b" "a = 4 \<longrightarrow> b < 16"
proof -
  from assms obtain x bs' where bs: "bs = x # bs'" by (cases bs) auto
  have x: "x = of_nat (k + (unat x - k))" if "k \<le> unat x" for k by (rule byte_of_nat) (use that in simp)
  consider (1) "unat x < 0x80" | (2) "0xC2 \<le> unat x" "unat x \<le> 0xDF" | (3) "0xE0 \<le> unat x" "unat x \<le> 0xEF" | (4) "0xF0 \<le> unat x" "unat x \<le> 0xF4"
    using assms bs by (fastforce simp: Let_def split: if_splits)
  then show ?thesis
  proof cases
    case 1
    then have "c = unat x" "r = bs'" using assms bs by (auto simp: Let_def)
    with 1 bs that(1) byte_of_nat[of x c] show ?thesis by simp
  next
    case 2
    then obtain b1 where b: "bs' = b1 # r" "cont b1" "c = (unat x - 0xC0) * 64 + low6 b1" using assms bs by (auto simp: Let_def split: list.splits if_splits)
    from contE[OF b(2)] obtain d where d: "b1 = of_nat (0x80 + d)" "d < 64" "low6 b1 = d" by blast
    have "bs = of_nat (0xC0 + (unat x - 0xC0)) # of_nat (0x80 + d) # r" using bs b(1) d(1) x[of "0xC0"] 2 by simp
    then show ?thesis by (rule that(2)) (use 2 b(3) d in auto)
  next
    case 3
    then obtain b1 b2 where b: "bs' = b1 # b2 # r" "second_of_3 (unat x) b1" "cont b2" "c = ((unat x - 0xE0) * 64 + low6 b1) * 64 + low6 b2"
      using assms bs by (auto simp: Let_def split: list.splits if_splits)
    from b(2) have "cont b1" by (simp add: second_of_3_def)
    from contE[OF this] obtain g where g: "b1 = of_nat (0x80 + g)" "g < 64" "low6 b1 = g" "unat b1 = 0x80 + g" by blast
    from contE[OF b(3)] obtain d where d: "b2 = of_nat (0x80 + d)" "d < 64" "low6 b2 = d" by blast
    have "bs = of_nat (0xE0 + (unat x - 0xE0)) # of_nat (0x80 + g) # of_nat (0x80 + d) # r" using bs b(1) g(1) d(1) x[of "0xE0"] 3 by simp
    then show ?thesis by (rule that(3)) (use 3 b(2,4) g(2-4) d(2,3) in \<open>auto simp: second_of_3_def\<close>)
  next
    case 4
    then obtain b1 b2 b3 where b: "bs' = b1 # b2 # b3 # r" "second_of_4 (unat x) b1" "cont b2" "cont b3"
      "c = (((unat x - 0xF0) * 64 + low6 b1) * 64 + low6 b2) * 64 + low6 b3"
      using assms bs by (auto simp: Let_def split: list.splits if_splits)
    from b(2) have "cont b1" by (simp add: second_of_4_def)
    from contE[OF this] obtain g where g: "b1 = of_nat (0x80 + g)" "g < 64" "low6 b1 = g" "unat b1 = 0x80 + g" by blast
    from contE[OF b(3)] obtain d where d: "b2 = of_nat (0x80 + d)" "d < 64" "low6 b2 = d" by blast
    from contE[OF b(4)] obtain e where e: "b3 = of_nat (0x80 + e)" "e < 64" "low6 b3 = e" by blast
    have "bs = of_nat (0xF0 + (unat x - 0xF0)) # of_nat (0x80 + g) # of_nat (0x80 + d) # of_nat (0x80 + e) # r"
      using bs b(1) g(1) d(1) e(1) x[of "0xF0"] 4 by simp
    then show ?thesis by (rule that(4)) (use 4 b(2,5) g(2-4) d(2,3) e(2,3) in \<open>auto simp: second_of_4_def\<close>)
  qed
qed

lemma utf8_step_decode:
  assumes "utf8_step bs = Inr (c, r)"
  shows "is_scalar c \<and> bs = utf8_encode c @ r"
  using assms
proof (cases rule: utf8_step_cases)
  case 1
  then show ?thesis by (simp add: is_scalar_def utf8_encode_def)
next
  case (2 a d)
  have "0x80 \<le> c" "c < 0x800" using 2(2-5) by auto
  moreover have "c div 64 = a" "c mod 64 = d" using 2(2,5) by simp_all
  ultimately show ?thesis using 2(1) by (auto simp: is_scalar_def utf8_encode_def simp del: of_nat_add of_nat_numeral)
next
  case (3 a b d)
  have r: "0x800 \<le> c" "c < 0x10000" using 3(2-6) by auto
  have "is_scalar c"
  proof -
    consider "a < 13" | "a = 13" | "14 \<le> a" by linarith
    then show ?thesis using 3(2-5,7) r by cases (auto simp: is_scalar_def)
  qed
  moreover have "c div 4096 = a" "c div 64 mod 64 = b" "c mod 64 = d" unfolding 3(2) by (rule six_bits[OF 3(4,5)])+
  ultimately show ?thesis using 3(1) r by (simp add: utf8_encode_def del: of_nat_add of_nat_numeral)
next
  case (4 a b d e)
  have r: "0x10000 \<le> c" "c < 0x110000" using 4(2-8) by (cases "a = 0"; cases "a = 4"; simp)+
  have "c div 262144 = a" "c div 4096 mod 64 = b" unfolding 4(2) by (rule six_bits(4,5)[OF 4(4,5,6)])+
  moreover have "c div 64 mod 64 = d" "c mod 64 = e" unfolding 4(2) by (rule six_bits(2,3)[OF 4(5,6)])+
  ultimately show ?thesis using 4(1) r by (simp add: is_scalar_def utf8_encode_def del: of_nat_add of_nat_numeral)
qed

lemma utf8_encode_nonempty [simp]: "utf8_encode c \<noteq> []"
  by (simp add: utf8_encode_def)

lemma from_utf8_str_bytes: "\<forall>c\<in>set s. is_scalar c \<Longrightarrow> str_from_utf8 (str_bytes s) = Some s"
proof (induction s)
  case Nil
  then show ?case by (simp add: str_bytes_def str_from_utf8.simps)
next
  case (Cons c s)
  have "str_bytes (c # s) = utf8_encode c @ str_bytes s" by (simp add: str_bytes_def)
  with Cons utf8_step_encode[of c "str_bytes s"] show ?case by (subst str_from_utf8.simps) simp
qed

lemma str_bytes_from_utf8: "str_from_utf8 bs = Some s \<Longrightarrow> (\<forall>c\<in>set s. is_scalar c) \<and> str_bytes s = bs"
proof (induction bs arbitrary: s rule: str_from_utf8.induct)
  case (1 bs)
  show ?case
  proof (cases "bs = []")
    case True
    with 1 show ?thesis by (simp add: str_bytes_def str_from_utf8.simps)
  next
    case False
    with 1(2) obtain c r s' where st: "utf8_step bs = Inr (c, r)" "str_from_utf8 r = Some s'" "s = c # s'"
      by (subst (asm) str_from_utf8.simps) (auto split: sum.splits prod.splits)
    from 1(1)[OF False st(1) refl st(2)] utf8_step_decode[OF st(1)] st(3) show ?thesis by (simp add: str_bytes_def)
  qed
qed

lemma from_utf8_lossy_scalar: "\<forall>c\<in>set (from_utf8_lossy bs). is_scalar c"
proof (induction bs rule: from_utf8_lossy.induct)
  case (1 bs)
  show ?case
  proof (cases "bs = []")
    case True
    then show ?thesis by (simp add: from_utf8_lossy.simps)
  next
    case False
    show ?thesis
    proof (cases "utf8_step bs")
      case (Inl r)
      with 1(1)[OF False Inl] False show ?thesis by (subst from_utf8_lossy.simps) (simp add: is_scalar_def)
    next
      case (Inr cr)
      obtain c r where cr: "cr = (c, r)" by (cases cr)
      with Inr 1(2)[OF False Inr cr[symmetric]] utf8_step_decode[of bs c r] False show ?thesis by (subst from_utf8_lossy.simps) simp
    qed
  qed
qed

lemma increment_last_scalar_scalar: "\<forall>c\<in>set s. is_scalar c \<Longrightarrow> \<forall>c\<in>set (increment_last_scalar s). is_scalar c"
  using next_scalar_Some[of "last s + 1"]
  by (auto simp: increment_last_scalar_def is_scalar_def split: option.splits dest: in_set_butlastD)

subsection \<open>The codecs are faithful\<close>

interpretation hex_text: text_codec "byte_text_laws X" "\<lambda>_. True" "\<lambda>b. value_of (hex_serialize_as X b)" "\<lambda>t. value_of (hex_deserialize_as X t)" for X
  by unfold_locales (auto simp: byte_text_laws_def hex_serialize_as_def hex_deserialize_as_def)

interpretation base64_text: text_codec "byte_text_laws X" "\<lambda>_. True" "\<lambda>b. value_of (base64_serialize_as X b)" "\<lambda>t. value_of (base64_deserialize_as X t)" for X
  by unfold_locales (auto simp: byte_text_laws_def base64_serialize_as_def base64_deserialize_as_def)

text \<open>A string of Rust has scalar values only.\<close>

interpretation utf8_text: text_codec True "\<lambda>b. str_from_utf8 b \<noteq> None" "\<lambda>b. value_of (utf8_serialize_as b)"
  "\<lambda>t. if \<forall>c\<in>set t. is_scalar c then value_of (utf8_deserialize_as t) else None"
  by unfold_locales
    (auto simp: utf8_serialize_as_def utf8_deserialize_as_def from_utf8_str_bytes split: option.splits if_splits dest!: str_bytes_from_utf8)

text \<open>
  C33. Byte columns keep their bytes through their text. With the documented behaviour of the crates hex and base64,
  every byte string has a hexadecimal and a base 64 text that is read to it; a byte string has a UTF-8 text exactly
  if it is the encoding of a list of scalar values, that text is this list and is read to the same bytes, different texts have
  different bytes, and the next value of any bytes as a sample of a UTF-8 column has a text again.
\<close>

theorem byte_columns_roundtrip:
  assumes "byte_text_laws X"
  shows "(\<exists>t. hex_serialize_as X b = Inr t \<and> hex_deserialize_as X t = Inr b) \<and>
         (\<exists>t. base64_serialize_as X b = Inr t \<and> base64_deserialize_as X t = Inr b) \<and>
         (\<forall>s. utf8_serialize_as b = Inr s \<longleftrightarrow> (\<forall>c\<in>set s. is_scalar c) \<and> utf8_deserialize_as s = Inr b) \<and>
         (\<exists>s. utf8_serialize_as (utf8_next_value b) = Inr s)"
proof -
  have "(\<exists>t. hex_serialize_as X b = Inr t \<and> hex_deserialize_as X t = Inr b)"
    using hex_text.roundtrip[OF assms, of b] by (auto simp: value_of_Some)
  moreover have "\<exists>t. base64_serialize_as X b = Inr t \<and> base64_deserialize_as X t = Inr b"
    using base64_text.roundtrip[OF assms, of b] by (auto simp: value_of_Some)
  moreover have "utf8_serialize_as b = Inr s \<longleftrightarrow> (\<forall>c\<in>set s. is_scalar c) \<and> utf8_deserialize_as s = Inr b" for s
    using str_bytes_from_utf8[of b s] from_utf8_str_bytes[of s] by (auto simp: utf8_serialize_as_def utf8_deserialize_as_def split: option.splits)
  moreover have "\<exists>s. utf8_serialize_as (utf8_next_value b) = Inr s"
  proof -
    let ?s = "case str_from_utf8 b of Some s \<Rightarrow> s | None \<Rightarrow> from_utf8_lossy b"
    have "\<forall>c\<in>set ?s. is_scalar c" using str_bytes_from_utf8[of b] from_utf8_lossy_scalar[of b] by (simp split: option.splits)
    from from_utf8_str_bytes[OF increment_last_scalar_scalar[OF this]] show ?thesis by (simp add: utf8_next_value_def utf8_serialize_as_def)
  qed
  ultimately show ?thesis by blast
qed

text \<open>Instances of the crates: a text of one character per byte.\<close>

definition demo_bytes_env :: byte_text_env where
  "demo_bytes_env = \<lparr>hex_encode = map (\<lambda>b. char_of (unat b)), hex_decode = (\<lambda>s. Inr (map (\<lambda>c. of_nat (of_char c)) s)),
     base64_encode = map (\<lambda>b. char_of (unat b)), base64_decode = (\<lambda>s. Inr (map (\<lambda>c. of_nat (of_char c)) s))\<rparr>"

lemma demo_bytes_laws: "byte_text_laws demo_bytes_env"
proof -
  have "of_nat (of_char (char_of (unat (b :: u8)) :: char)) = b" for b
    using unat_u8_less[of b] by (simp add: of_char_of)
  then show ?thesis by (simp add: byte_text_laws_def demo_bytes_env_def o_def)
qed

theorem byte_columns_roundtrip_witness:
  "(\<exists>t. hex_serialize_as demo_bytes_env [0x41] = Inr t \<and> hex_deserialize_as demo_bytes_env t = Inr [0x41]) \<and>
   utf8_serialize_as [0xC3, 0xA9] = Inr [0xE9] \<and> (\<exists>s. utf8_serialize_as (utf8_next_value [0xFF]) = Inr s)"
proof -
  have "utf8_deserialize_as [0xE9] = Inr [0xC3, 0xA9]" by code_simp
  moreover have "\<forall>c\<in>set [0xE9]. is_scalar c" by (simp add: is_scalar_def)
  ultimately have "utf8_serialize_as [0xC3, 0xA9] = Inr [0xE9]"
    using byte_columns_roundtrip[OF demo_bytes_laws, of "[0xC3, 0xA9]"] by blast
  with byte_columns_roundtrip[OF demo_bytes_laws, of "[0x41]"] byte_columns_roundtrip[OF demo_bytes_laws, of "[0xFF]"] show ?thesis by blast
qed

end
