(* ===== verification/Column_Macros.thy ===== *)
theory Column_Macros
  imports Text_Codec Names "HOL-Library.List_Lexorder" "HOL-Library.Char_ord"
begin

section \<open>Column types\<close>

text \<open>
  The macro for column types: which kind of column the type inside a newtype makes (\<open>classify_inner_type\<close> in
  \<open>macros/src/macro_utils.rs\<close>), the implementations that a kind gets (\<open>macros/src/column/column_impls.rs\<close>, \<open>column_codec.rs\<close>), what the generated
  \<open>Default\<close> and \<open>Sampleable\<close> compute, columns that are structs with named fields, and the merging of derive attributes.

  A path type is the list of its segments, each with the types among its arguments in angle brackets; an array type has
  its length if this is a literal. Code that is spliced into an implementation is a constructor that says which one it is, with
  a function for what it computes. The examples in the OpenAPI schema are left out. A panic of the macro or of the generated code is \<open>None\<close>.
\<close>

subsection \<open>Kinds of columns\<close>

datatype rust_ty = Rt_Path "(string \<times> rust_ty list option) list" | Rt_Array rust_ty "nat option" | Rt_Other

datatype integer_type = U8 | U16 | U32 | U64 | U128 | Usize | I8 | I16 | I32 | I64 | I128 | Isize

fun integer_as_str :: "integer_type \<Rightarrow> string" where
  "integer_as_str U8 = ''u8''"
| "integer_as_str U16 = ''u16''"
| "integer_as_str U32 = ''u32''"
| "integer_as_str U64 = ''u64''"
| "integer_as_str U128 = ''u128''"
| "integer_as_str Usize = ''usize''"
| "integer_as_str I8 = ''i8''"
| "integer_as_str I16 = ''i16''"
| "integer_as_str I32 = ''i32''"
| "integer_as_str I64 = ''i64''"
| "integer_as_str I128 = ''i128''"
| "integer_as_str Isize = ''isize''"

datatype col_kind = K_String | K_VecU8 | K_ByteArray nat | K_Integer integer_type | K_Bool | K_Uuid | K_Time | K_Other

definition is_ident :: "string \<Rightarrow> rust_ty \<Rightarrow> bool" where
  "is_ident name ty \<longleftrightarrow> ty = Rt_Path [(name, None)]"

definition is_string :: "rust_ty \<Rightarrow> bool" where
  "is_string ty \<longleftrightarrow> is_ident ''String'' ty"

definition is_bool :: "rust_ty \<Rightarrow> bool" where
  "is_bool ty \<longleftrightarrow> is_ident ''bool'' ty"

definition is_vec_u8 :: "rust_ty \<Rightarrow> bool" where
  "is_vec_u8 ty \<longleftrightarrow>
     (case ty of
        Rt_Path segs \<Rightarrow> segs \<noteq> [] \<and> fst (last segs) = ''Vec'' \<and> (case snd (last segs) of Some args \<Rightarrow> list_ex (is_ident ''u8'') args | None \<Rightarrow> False)
      | _ \<Rightarrow> False)"

definition is_uuid :: "rust_ty \<Rightarrow> bool" where
  "is_uuid ty \<longleftrightarrow> (case ty of Rt_Path segs \<Rightarrow> segs \<noteq> [] \<and> fst (last segs) = ''Uuid'' \<and> list_ex (\<lambda>s. fst s = ''uuid'') segs | _ \<Rightarrow> False)"

definition last_ident :: "string \<Rightarrow> rust_ty \<Rightarrow> bool" where
  "last_ident name ty \<longleftrightarrow> (case ty of Rt_Path segs \<Rightarrow> segs \<noteq> [] \<and> fst (last segs) = name | _ \<Rightarrow> False)"

definition is_datetime_utc :: "rust_ty \<Rightarrow> bool" where
  "is_datetime_utc ty \<longleftrightarrow>
     (case ty of
        Rt_Path segs \<Rightarrow> last_ident ''DateTime'' ty \<and> (case snd (last segs) of Some args \<Rightarrow> list_ex (last_ident ''Utc'') args | None \<Rightarrow> False)
      | _ \<Rightarrow> False)"

definition is_time :: "rust_ty \<Rightarrow> bool" where
  "is_time ty \<longleftrightarrow> last_ident ''Duration'' ty"

definition classify_integer_type :: "rust_ty \<Rightarrow> integer_type option" where
  "classify_integer_type ty =
     (case ty of
        Rt_Path [(name, None)] \<Rightarrow>
          find (\<lambda>k. integer_as_str k = name) [U8, U16, U32, U64, U128, Usize, I8, I16, I32, I64, I128, Isize]
      | _ \<Rightarrow> None)"

definition extract_int_type :: "rust_ty \<Rightarrow> col_kind" where
  "extract_int_type ty = (case classify_integer_type ty of Some k \<Rightarrow> K_Integer k | None \<Rightarrow> K_Other)"

definition classify_inner_type :: "rust_ty \<Rightarrow> col_kind" where
  "classify_inner_type ty =
     (if is_string ty then K_String
      else if is_vec_u8 ty then K_VecU8
      else if is_bool ty then K_Bool
      else if is_uuid ty then K_Uuid
      else if is_datetime_utc ty then K_Other
      else if is_time ty then K_Time
      else (case ty of
              Rt_Array elem (Some n) \<Rightarrow> if last_ident ''u8'' elem then K_ByteArray n else extract_int_type ty
            | _ \<Rightarrow> extract_int_type ty))"

subsection \<open>Implementations\<close>

datatype schema_type = Schema_String | Schema_Integer | Schema_Boolean

datatype db_codec = Codec_Array nat | Codec_Vec | Codec_Integer integer_type | Codec_Bincode | Codec_None

datatype default_code = Zero_Array nat | Example_Vec string | Decoded_Example string | Default_Inner | String_A | Bool_False | Uuid_Nil | Duration_Zero

datatype next_code = Inc_Le | Codec_Next string | Wrapping_Inc | Inc_Last_Byte | Negate | Inc_Be | Add_Milli | Compile_Error

datatype url_code = Json_Trimmed | Display_Inner | Bool_Text | Uuid_Text | Millis_Text

record column_impls =
  cmi_serde_as :: "string option"
  cmi_copy :: bool
  cmi_schema :: schema_type
  cmi_default :: default_code
  cmi_url :: url_code
  cmi_next :: next_code
  cmi_db_codec :: db_codec
  cmi_cache_key :: db_codec

fun split_once :: "char \<Rightarrow> string \<Rightarrow> (string \<times> string) option" where
  "split_once c [] = None"
| "split_once c (x # xs) = (if x = c then Some ([], xs) else map_option (map_prod (Cons x) id) (split_once c xs))"

definition array_encoding :: "string \<Rightarrow> nat \<Rightarrow> (string \<times> default_code) option" where
  "array_encoding enc len =
     (if enc = ''hex'' then Some (''serde_with::hex::Hex'', Zero_Array len)
      else if enc = ''base64'' then Some (''serde_with::base64::Base64'', Zero_Array len)
      else if enc = ''utf-8'' then Some (''redbit::codec::Utf8'', Zero_Array len)
      else map_option (\<lambda>(encoding, example). (encoding, Example_Vec example)) (split_once (CHR '' '') enc))"

definition vec_encoding :: "string \<Rightarrow> string" where
  "vec_encoding enc =
     (if enc = ''hex'' then ''redbit::codec::Hex''
      else if enc = ''base64'' then ''redbit::codec::Base64''
      else if enc = ''utf-8'' then ''redbit::codec::Utf8''
      else enc)"

text \<open>\<open>path_ok\<close>: the encoding parses as a path.\<close>

definition generate_column_impls :: "(string \<Rightarrow> bool) \<Rightarrow> rust_ty \<Rightarrow> string option \<Rightarrow> column_impls option" where
  "generate_column_impls path_ok inner_type binary_encoding_opt =
     (let enc = (case binary_encoding_opt of Some s \<Rightarrow> s | None \<Rightarrow> ''hex'');
          base = \<lparr>cmi_serde_as = None, cmi_copy = False, cmi_schema = Schema_String, cmi_default = Default_Inner, cmi_url = Display_Inner,
                  cmi_next = Compile_Error, cmi_db_codec = Codec_None, cmi_cache_key = Codec_None\<rparr>
      in case classify_inner_type inner_type of
           K_ByteArray len \<Rightarrow>
             do {
               (encoding, dflt) \<leftarrow> array_encoding enc len;
               Some (base\<lparr>cmi_serde_as := Some encoding, cmi_copy := True, cmi_default := dflt, cmi_url := Json_Trimmed, cmi_next := Inc_Le,
                          cmi_db_codec := Codec_Array len, cmi_cache_key := Codec_Array len\<rparr>)
             }
         | K_VecU8 \<Rightarrow>
             (let encoding = vec_encoding enc in
              if path_ok encoding
              then Some (base\<lparr>cmi_serde_as := Some encoding, cmi_default := Decoded_Example encoding, cmi_url := Json_Trimmed,
                              cmi_next := Codec_Next encoding, cmi_db_codec := Codec_Vec, cmi_cache_key := Codec_Vec\<rparr>)
              else None)
         | K_Integer k \<Rightarrow>
             Some (base\<lparr>cmi_copy := True, cmi_schema := Schema_Integer, cmi_next := Wrapping_Inc, cmi_db_codec := Codec_Integer k,
                        cmi_cache_key := Codec_Integer k\<rparr>)
         | K_String \<Rightarrow>
             Some (base\<lparr>cmi_default := String_A, cmi_next := Inc_Last_Byte, cmi_db_codec := Codec_Bincode, cmi_cache_key := Codec_Bincode\<rparr>)
         | K_Bool \<Rightarrow>
             Some (base\<lparr>cmi_copy := True, cmi_schema := Schema_Boolean, cmi_default := Bool_False, cmi_url := Bool_Text, cmi_next := Negate,
                        cmi_db_codec := Codec_Bincode, cmi_cache_key := Codec_Bincode\<rparr>)
         | K_Uuid \<Rightarrow>
             Some (base\<lparr>cmi_default := Uuid_Nil, cmi_url := Uuid_Text, cmi_next := Inc_Be, cmi_db_codec := Codec_Bincode, cmi_cache_key := Codec_Bincode\<rparr>)
         | K_Time \<Rightarrow>
             Some (base\<lparr>cmi_serde_as := Some ''serde_with::DurationMilliSeconds'', cmi_schema := Schema_Integer, cmi_default := Duration_Zero,
                        cmi_url := Millis_Text, cmi_next := Add_Milli, cmi_db_codec := Codec_Bincode, cmi_cache_key := Codec_Bincode\<rparr>)
         | K_Other \<Rightarrow> Some base)"

subsection \<open>What the implementations compute\<close>

fun integer_bytes :: "integer_type \<Rightarrow> nat" where
  "integer_bytes U8 = 1" | "integer_bytes U16 = 2" | "integer_bytes U32 = 4" | "integer_bytes U64 = 8" | "integer_bytes U128 = 16"
| "integer_bytes Usize = 8" | "integer_bytes I8 = 1" | "integer_bytes I16 = 2" | "integer_bytes I32 = 4" | "integer_bytes I64 = 8"
| "integer_bytes I128 = 16" | "integer_bytes Isize = 8"

definition integer_signed :: "integer_type \<Rightarrow> bool" where
  "integer_signed k \<longleftrightarrow> k \<in> {I8, I16, I32, I64, I128, Isize}"

text \<open>The value of an integer type that is congruent to an integer.\<close>

definition wrap_int :: "integer_type \<Rightarrow> int \<Rightarrow> int" where
  "wrap_int k i =
     (let m = 256 ^ integer_bytes k in if integer_signed k then (i + m div 2) mod m - m div 2 else i mod m)"

text \<open>Samples of the kinds; a duration is its number of nanoseconds.\<close>

datatype sample_val = Sv_Int integer_type int | Sv_Bytes bytes | Sv_Str bytes | Sv_Bool bool | Sv_Uuid bytes | Sv_Time nat

abbreviation max_nanos :: nat where
  "max_nanos \<equiv> (2 ^ 64 - 1) * 1000000000 + 999999999"

definition inc_be :: "bytes \<Rightarrow> bytes" where
  "inc_be bs = rev (inc_le (rev bs))"

text \<open>The next value of a byte vector is that of its encoding; \<open>custom\<close> are the encodings of an application.\<close>

definition codec_next :: "(string \<Rightarrow> bytes \<Rightarrow> bytes) \<Rightarrow> string \<Rightarrow> bytes \<Rightarrow> bytes" where
  "codec_next custom encoding b =
     (if encoding = ''redbit::codec::Utf8'' then utf8_next_value b
      else if encoding = ''redbit::codec::Hex'' \<or> encoding = ''redbit::codec::Base64'' then next_bytes b
      else custom encoding b)"

fun run_next :: "(string \<Rightarrow> bytes \<Rightarrow> bytes) \<Rightarrow> next_code \<Rightarrow> sample_val \<Rightarrow> sample_val option" where
  "run_next custom Inc_Le (Sv_Bytes b) = Some (Sv_Bytes (inc_le b))"
| "run_next custom (Codec_Next encoding) (Sv_Bytes b) = Some (Sv_Bytes (codec_next custom encoding b))"
| "run_next custom Wrapping_Inc (Sv_Int k i) = Some (Sv_Int k (wrap_int k (i + 1)))"
| "run_next custom Inc_Last_Byte (Sv_Str b) = (let v = next_bytes b in if str_from_utf8 v = None then None else Some (Sv_Str v))"
| "run_next custom Negate (Sv_Bool b) = Some (Sv_Bool (\<not> b))"
| "run_next custom Inc_Be (Sv_Uuid b) = Some (Sv_Uuid (inc_be b))"
| "run_next custom Add_Milli (Sv_Time t) = (if t + 1000000 \<le> max_nanos then Some (Sv_Time (t + 1000000)) else None)"
| "run_next custom _ _ = None"

text \<open>\<open>nth_value\<close> for a next value that may panic.\<close>

fun nth_sample :: "('a \<Rightarrow> 'a option) \<Rightarrow> 'a \<Rightarrow> nat \<Rightarrow> 'a option" where
  "nth_sample f v 0 = Some v"
| "nth_sample f v (Suc n) = Option.bind (f v) (\<lambda>w. nth_sample f w n)"

fun run_default :: "(string \<Rightarrow> bytes option) \<Rightarrow> col_kind \<Rightarrow> default_code \<Rightarrow> sample_val option" where
  "run_default decoded k (Zero_Array n) = Some (Sv_Bytes (replicate n 0))"
| "run_default decoded k (Decoded_Example encoding) = map_option Sv_Bytes (decoded encoding)"
| "run_default decoded (K_Integer k) Default_Inner = Some (Sv_Int k 0)"
| "run_default decoded k String_A = Some (Sv_Str [0x61])"
| "run_default decoded k Bool_False = Some (Sv_Bool False)"
| "run_default decoded k Uuid_Nil = Some (Sv_Uuid (replicate 16 0))"
| "run_default decoded k Duration_Zero = Some (Sv_Time 0)"
| "run_default decoded k _ = None"

subsection \<open>Columns with named fields\<close>

text \<open>A field of an integer type is counted, every other field has a default and a next value of its own.\<close>

record 'v named_field =
  nf_name :: string
  nf_int :: "integer_type option"
  nf_default :: 'v
  nf_next :: "'v \<Rightarrow> 'v"

datatype 'v nval = N_Int int | N_Val 'v

definition zero_or_default :: "'v named_field \<Rightarrow> 'v nval" where
  "zero_or_default f = (case nf_int f of Some k \<Rightarrow> N_Int 0 | None \<Rightarrow> N_Val (nf_default f))"

definition struct_default :: "'v named_field list \<Rightarrow> 'v nval list" where
  "struct_default fs = map zero_or_default fs"

fun next_field :: "'v named_field \<Rightarrow> 'v nval \<Rightarrow> 'v nval" where
  "next_field f (N_Int i) = N_Int (case nf_int f of Some k \<Rightarrow> wrap_int k (i + 1) | None \<Rightarrow> i)"
| "next_field f (N_Val v) = N_Val (nf_next f v)"

fun step_field :: "'v named_field \<Rightarrow> 'v nval \<Rightarrow> 'v nval" where
  "step_field f (N_Int i) = N_Int (case nf_int f of Some k \<Rightarrow> wrap_int k (i + 1) | None \<Rightarrow> i)"
| "step_field f (N_Val v) = N_Val v"

definition struct_next :: "'v named_field list \<Rightarrow> 'v nval list \<Rightarrow> 'v nval list" where
  "struct_next fs vs = map2 next_field fs vs"

definition step_index_only :: "'v named_field list \<Rightarrow> 'v nval list \<Rightarrow> 'v nval list" where
  "step_index_only fs vs = map2 step_field fs vs"

definition index_zero :: "'v named_field \<Rightarrow> 'v nval \<Rightarrow> 'v nval" where
  "index_zero f v = (if nf_name f = ''index'' \<and> nf_int f \<noteq> None then N_Int 0 else v)"

definition seed_nth_with_index_zero :: "'v named_field list \<Rightarrow> usize \<Rightarrow> 'v nval list" where
  "seed_nth_with_index_zero fs start_at = map2 index_zero fs (nth_value (struct_next fs) (struct_default fs) start_at)"

definition struct_sample_many_from :: "'v named_field list \<Rightarrow> usize \<Rightarrow> usize \<Rightarrow> 'v nval list list" where
  "struct_sample_many_from fs n start_at = sample_many_from_seed (step_index_only fs) n (seed_nth_with_index_zero fs start_at)"

subsection \<open>Attributes\<close>

text \<open>A derive attribute has its paths unless they do not parse; then it stays as it is.\<close>

datatype 'a attribute = Derive "string list option" | Other_Attr 'a

fun kept_attr :: "'a attribute \<Rightarrow> bool" where
  "kept_attr (Derive (Some ps)) = False"
| "kept_attr _ = True"

fun derived_paths :: "'a attribute \<Rightarrow> string list" where
  "derived_paths (Derive (Some ps)) = ps"
| "derived_paths _ = []"

definition merge_struct_derives :: "'a attribute list \<Rightarrow> string list \<Rightarrow> 'a attribute list" where
  "merge_struct_derives attrs extra =
     (let derives = extra @ concat (map derived_paths attrs)
      in filter kept_attr attrs @ [Derive (Some (remdups_adj (sort_key (\<lambda>p. p) derives)))])"

text \<open>The column macro: a newtype, a struct with named fields, or an error.\<close>

datatype 'v fields_shape = Unnamed_Fields "rust_ty list" | Named_Fields "'v named_field list" | Unit_Fields

datatype 'v column_out =
    Newtype_Column "string attribute list" column_impls
  | Struct_Column "string attribute list" "'v named_field list" db_codec

definition newtype_derives :: "string list" where
  "newtype_derives = [''Clone'', ''Hash'', ''Eq'', ''Ord'', ''PartialEq'', ''PartialOrd'', ''Debug'', ''Decode'', ''Encode'', ''Serialize'', ''Deserialize'']"

definition struct_derives :: "string list" where
  "struct_derives =
     [''Decode'', ''Encode'', ''Serialize'', ''Deserialize'', ''Debug'', ''Clone'', ''Hash'', ''PartialEq'', ''Ord'', ''PartialOrd'', ''Eq'',
      ''utoipa :: ToSchema'']"

text \<open>The outer option is a panic, the sum an abort with an error.\<close>

definition column_macro ::
    "(string \<Rightarrow> bool) \<Rightarrow> string attribute list \<Rightarrow> 'v fields_shape \<Rightarrow> string option \<Rightarrow> (string + 'v column_out) option" where
  "column_macro path_ok attrs shape literal =
     (case shape of
        Unnamed_Fields [inner_ty] \<Rightarrow>
          map_option (\<lambda>impls.
              let attrs' = (case cmi_serde_as impls of Some _ \<Rightarrow> attrs @ [Other_Attr ''serde_with::serde_as''] | None \<Rightarrow> attrs);
                  extra = (if cmi_copy impls then [''Copy''] else [])
              in Inr (Newtype_Column (merge_struct_derives attrs' (newtype_derives @ extra)) impls))
            (generate_column_impls path_ok inner_ty literal)
      | Named_Fields fs \<Rightarrow> Some (Inr (Struct_Column (merge_struct_derives attrs struct_derives) fs Codec_Bincode))
      | _ \<Rightarrow> Some (Inl ''#[column] cannot be applied to structs with Unit or multiple unnamed fields''))"

subsection \<open>Properties\<close>

lemma classify_integer_as_str: "classify_integer_type (Rt_Path [(integer_as_str k, None)]) = Some k"
  by (cases k) (simp_all add: classify_integer_type_def)

lemma wrap_int_add: "wrap_int k (wrap_int k i + j) = wrap_int k (i + j)"
proof (cases "integer_signed k")
  case True
  let ?m = "256 ^ integer_bytes k :: int" and ?h = "256 ^ integer_bytes k div 2 :: int"
  have "((i + ?h) mod ?m - ?h + j + ?h) mod ?m = ((i + ?h) mod ?m + j) mod ?m" by (simp add: algebra_simps)
  also have "\<dots> = (i + ?h + j) mod ?m" by (rule mod_add_left_eq)
  also have "\<dots> = (i + j + ?h) mod ?m" by (simp add: algebra_simps)
  finally show ?thesis using True by (simp add: wrap_int_def Let_def)
qed (simp add: wrap_int_def Let_def mod_add_left_eq)

lemma wrap_int_zero [simp]: "wrap_int k 0 = 0"
  by (cases k) (simp_all add: wrap_int_def integer_signed_def)

lemma nth_sample_Suc: "nth_sample f v (Suc n) = Option.bind (nth_sample f v n) f"
proof (induction n arbitrary: v)
  case (Suc n)
  show ?case
  proof (cases "f v")
    case (Some w)
    then have "nth_sample f v (Suc (Suc n)) = nth_sample f w (Suc n)" "nth_sample f v (Suc n) = nth_sample f w n" by simp_all
    with Suc.IH[of w] show ?thesis by (simp only:)
  qed simp
qed simp

lemma nth_sample_by:
  assumes "g 0 = v" and "\<And>n. n < m \<Longrightarrow> f (g n) = Some (g (Suc n))"
  shows "n \<le> m \<Longrightarrow> nth_sample f v n = Some (g n)"
proof (induction n)
  case (Suc n)
  then show ?case unfolding nth_sample_Suc using assms(2)[of n] by simp
qed (use assms(1) in simp)

lemma inc_le_iterate: "le_value ((inc_le ^^ n) bs) = (le_value bs + n) mod 256 ^ length bs \<and> length ((inc_le ^^ n) bs) = length bs"
proof (induction n)
  case 0
  then show ?case using le_value_bound[of bs] by simp
next
  case (Suc n)
  then show ?case using inc_le_value[of "(inc_le ^^ n) bs"] by (simp add: mod_Suc_eq)
qed

lemma le_value_zeros [simp]: "le_value (replicate n 0) = 0"
  by (induction n) simp_all

lemma ascii_utf8: "x < 0x80 \<Longrightarrow> str_from_utf8 [of_nat x] = Some [x]"
  using unat_of_nat_u8[of x] by (simp add: str_from_utf8.simps Let_def)

lemma string_nth_sample:
  "nth_sample (run_next custom Inc_Last_Byte) (Sv_Str [0x61]) n = (if n \<le> 30 then Some (Sv_Str [of_nat (0x61 + n)]) else None)"
proof -
  let ?f = "run_next custom Inc_Last_Byte" and ?g = "\<lambda>n. Sv_Str [of_nat (0x61 + n)]"
  have step: "?f (?g n) = Some (?g (Suc n))" if "n < 30" for n
  proof -
    have "of_nat (0x61 + n) + (1 :: u8) = of_nat (0x61 + Suc n)" by simp
    moreover have "str_from_utf8 [of_nat (0x61 + Suc n)] \<noteq> None" using that ascii_utf8[of "0x61 + Suc n"] by simp
    ultimately show ?thesis by (simp add: next_bytes_def Let_def del: of_nat_add of_nat_Suc of_nat_numeral)
  qed
  have upto: "nth_sample ?f (Sv_Str [0x61]) n = Some (?g n)" if "n \<le> 30" for n
    by (rule nth_sample_by[of ?g, OF _ step that]) simp
  have "str_from_utf8 [0x80] = None" by (simp add: str_from_utf8.simps)
  then have "?f (?g 30) = None" by (simp add: next_bytes_def)
  then have "nth_sample ?f (Sv_Str [0x61]) (Suc 30) = None" unfolding nth_sample_Suc upto[OF order_refl] by (simp only: Option.bind_lunit)
  then have past: "nth_sample ?f (Sv_Str [0x61]) (Suc 30 + m) = None" for m
  proof (induction m)
    case (Suc m)
    have "nth_sample ?f (Sv_Str [0x61]) (Suc (Suc 30 + m)) = None" unfolding nth_sample_Suc[of _ _ "Suc 30 + m"] Suc.IH[OF Suc.prems] by simp
    then show ?case by simp
  qed (simp only: add_0_right)
  have "nth_sample ?f (Sv_Str [0x61]) n = None" if "30 < n"
    using past[of "n - Suc 30"] that by (simp only: Suc_leI le_add_diff_inverse)
  with upto show ?thesis by auto
qed

lemma remdups_adj_strict:
  fixes xs :: "'a::linorder list"
  shows "sorted_wrt (\<le>) xs \<Longrightarrow> sorted_wrt (<) (remdups_adj xs)"
proof (induction xs rule: remdups_adj.induct)
  case (3 x y xs)
  show ?case
  proof (cases "x = y")
    case False
    with 3 have "sorted_wrt (<) (remdups_adj (y # xs))" "x < y" "\<forall>z\<in>set (y # xs). y \<le> z" by auto
    then have "\<forall>z\<in>set (remdups_adj (y # xs)). x < z" by (simp only: remdups_adj_set) (auto intro: less_le_trans)
    with 3 False show ?thesis by simp
  qed (use 3 in simp)
qed simp_all

text \<open>Merging leaves one sorted derive attribute without repetitions, with all paths, behind the attributes that are kept.\<close>

lemma merged_derives:
  assumes "merge_struct_derives attrs extra = rs"
  shows "butlast rs = filter kept_attr attrs" and "\<exists>ds. last rs = Derive (Some ds) \<and> sorted_wrt (<) ds \<and> set ds = set extra \<union> (\<Union>a\<in>set attrs. set (derived_paths a))"
proof -
  let ?all = "extra @ concat (map derived_paths attrs)"
  show "butlast rs = filter kept_attr attrs" using assms by (auto simp: merge_struct_derives_def Let_def)
  have "sorted_wrt (\<le>) (sort_key (\<lambda>p. p) ?all)" by simp
  then have "sorted_wrt (<) (remdups_adj (sort_key (\<lambda>p. p) ?all))" by (rule remdups_adj_strict)
  then show "\<exists>ds. last rs = Derive (Some ds) \<and> sorted_wrt (<) ds \<and> set ds = set extra \<union> (\<Union>a\<in>set attrs. set (derived_paths a))"
    using assms by (auto simp: merge_struct_derives_def Let_def)
qed

text \<open>A newtype ends with one derive attribute; it names \<open>Copy\<close> beyond what the user and the macro ask for only for the kinds of fixed size.\<close>

lemma newtype_derive_attribute:
  assumes "column_macro path_ok attrs (Unnamed_Fields [ty]) literal = Some (Inr (Newtype_Column out impls))"
  shows "\<exists>ds. last out = Derive (Some ds) \<and> sorted_wrt (<) ds \<and> set newtype_derives \<subseteq> set ds \<and>
           (''Copy'' \<in> set ds \<longleftrightarrow> cmi_copy impls \<or> (\<exists>a\<in>set attrs. ''Copy'' \<in> set (derived_paths a)))"
proof -
  from assms obtain attrs' where a: "attrs' = (case cmi_serde_as impls of Some _ \<Rightarrow> attrs @ [Other_Attr ''serde_with::serde_as''] | None \<Rightarrow> attrs)"
    and out: "merge_struct_derives attrs' (newtype_derives @ (if cmi_copy impls then [''Copy''] else [])) = out"
    by (auto simp: column_macro_def Let_def split: option.splits)
  have "(\<Union>x\<in>set attrs'. set (derived_paths x)) = (\<Union>x\<in>set attrs. set (derived_paths x))"
    by (auto simp: a split: option.splits)
  moreover have "''Copy'' \<notin> set newtype_derives" by (simp add: newtype_derives_def)
  ultimately show ?thesis using merged_derives(2)[OF out] by fastforce
qed

text \<open>
  The samples of a struct: the field called \<open>index\<close> counts from zero, the other integers count on from the start, and
  the remaining fields stay at the value of the start.
\<close>

definition struct_sample_field :: "'v named_field \<Rightarrow> nat \<Rightarrow> nat \<Rightarrow> 'v nval" where
  "struct_sample_field f start_at i =
     (case nf_int f of
        Some k \<Rightarrow> N_Int (wrap_int k (int (if nf_name f = ''index'' then i else start_at + i)))
      | None \<Rightarrow> N_Val (nth_value (nf_next f) (nf_default f) start_at))"

lemma struct_nth:
  "nth_value (struct_next fs) (struct_default fs) n =
     map (\<lambda>f. case nf_int f of Some k \<Rightarrow> N_Int (wrap_int k (int n)) | None \<Rightarrow> N_Val (nth_value (nf_next f) (nf_default f) n)) fs"
proof (induction n)
  case 0
  show ?case by (auto simp: struct_default_def zero_or_default_def split: option.split)
next
  case (Suc n)
  have "nth_value (struct_next fs) (struct_default fs) (Suc n) = struct_next fs (nth_value (struct_next fs) (struct_default fs) n)" by (rule nth_value_Suc)
  also have "\<dots> = map (\<lambda>f. case nf_int f of Some k \<Rightarrow> N_Int (wrap_int k (int (Suc n))) | None \<Rightarrow> N_Val (nth_value (nf_next f) (nf_default f) (Suc n))) fs"
    unfolding Suc.IH struct_next_def
    by (rule nth_equalityI)
      (auto simp del: nth_value.simps simp: nth_value_Suc wrap_int_add[of _ _ 1, simplified add.commute[of _ 1]] add.commute[of _ 1] split: option.split)
  finally show ?case .
qed

lemma struct_samples:
  "struct_sample_many_from fs n start_at = map (\<lambda>i. map (\<lambda>f. struct_sample_field f start_at i) fs) [0..<n]"
proof -
  have seed: "seed_nth_with_index_zero fs start_at = map (\<lambda>f. struct_sample_field f start_at 0) fs"
    unfolding seed_nth_with_index_zero_def struct_nth
    by (rule nth_equalityI) (auto simp: index_zero_def struct_sample_field_def split: option.split)
  have step: "step_index_only fs (map (\<lambda>f. struct_sample_field f start_at i) fs) = map (\<lambda>f. struct_sample_field f start_at (Suc i)) fs" for i
    unfolding step_index_only_def
    by (rule nth_equalityI)
      (auto simp: struct_sample_field_def wrap_int_add[of _ _ 1, simplified add.commute[of _ 1]] add.commute[of _ 1] add.assoc split: option.split)
  have "sample_many_from_seed (step_index_only fs) n (map (\<lambda>f. struct_sample_field f start_at i) fs) =
      map (\<lambda>j. map (\<lambda>f. struct_sample_field f start_at j) fs) [i..<i + n]" for i
  proof (induction n arbitrary: i)
    case (Suc n)
    have "[i..<i + Suc n] = i # [Suc i..<Suc i + n]" by (simp add: upt_conv_Cons)
    with Suc[of "Suc i"] step[of i] show ?case by simp
  qed simp
  from this[of 0] show ?thesis by (simp add: struct_sample_many_from_def seed)
qed

lemma generated_codes:
  assumes "generate_column_impls path_ok ty enc = Some impls"
  shows "case classify_inner_type ty of
           K_Integer k \<Rightarrow> cmi_next impls = Wrapping_Inc \<and> cmi_default impls = Default_Inner
         | K_ByteArray len \<Rightarrow> cmi_next impls = Inc_Le \<and> (cmi_default impls = Zero_Array len \<or> (\<exists>e. cmi_default impls = Example_Vec e))
         | K_VecU8 \<Rightarrow> \<exists>e. cmi_next impls = Codec_Next e \<and> cmi_default impls = Decoded_Example e
         | K_Bool \<Rightarrow> cmi_next impls = Negate \<and> cmi_default impls = Bool_False
         | K_Uuid \<Rightarrow> cmi_next impls = Inc_Be \<and> cmi_default impls = Uuid_Nil
         | K_Time \<Rightarrow> cmi_next impls = Add_Milli \<and> cmi_default impls = Duration_Zero
         | K_String \<Rightarrow> cmi_next impls = Inc_Last_Byte \<and> cmi_default impls = String_A
         | K_Other \<Rightarrow> cmi_next impls = Compile_Error"
  using assms
  by (cases "classify_inner_type ty") (auto simp: generate_column_impls_def Let_def array_encoding_def Option.bind_eq_Some_conv split: if_splits)

text \<open>The samples of each kind, from the default.\<close>

lemma nth_int_sample: "nth_sample (run_next custom Wrapping_Inc) (Sv_Int k 0) n = Some (Sv_Int k (wrap_int k (int n)))"
  by (rule nth_sample_by[of "\<lambda>n. Sv_Int k (wrap_int k (int n))" _ n])
    (simp_all add: wrap_int_add[of k _ 1, simplified add.commute[of _ 1]] add.commute[of _ 1])

lemma nth_array_sample:
  "\<exists>b. nth_sample (run_next custom Inc_Le) (Sv_Bytes (replicate len 0)) n = Some (Sv_Bytes b) \<and> length b = len \<and> le_value b = n mod 256 ^ len"
proof -
  have "nth_sample (run_next custom Inc_Le) (Sv_Bytes (replicate len 0)) n = Some (Sv_Bytes ((inc_le ^^ n) (replicate len 0)))"
    by (rule nth_sample_by[of "\<lambda>n. Sv_Bytes ((inc_le ^^ n) (replicate len 0))" _ n]) simp_all
  with inc_le_iterate[of n "replicate len 0"] show ?thesis by simp
qed

lemma nth_vec_sample: "nth_sample (run_next custom (Codec_Next e)) (Sv_Bytes b) n = Some (Sv_Bytes ((codec_next custom e ^^ n) b))"
  by (rule nth_sample_by[of "\<lambda>n. Sv_Bytes ((codec_next custom e ^^ n) b)" _ n]) simp_all

lemma nth_bool_sample: "nth_sample (run_next custom Negate) (Sv_Bool False) n = Some (Sv_Bool (odd n))"
  by (rule nth_sample_by[of "\<lambda>n. Sv_Bool (odd n)" _ n]) simp_all

lemma nth_uuid_sample:
  "\<exists>b. nth_sample (run_next custom Inc_Be) (Sv_Uuid (replicate 16 0)) n = Some (Sv_Uuid b) \<and> length b = 16 \<and> le_value (rev b) = n mod 256 ^ 16"
proof -
  have "nth_sample (run_next custom Inc_Be) (Sv_Uuid (replicate 16 0)) n = Some (Sv_Uuid (rev ((inc_le ^^ n) (replicate 16 0))))"
    by (rule nth_sample_by[of "\<lambda>n. Sv_Uuid (rev ((inc_le ^^ n) (replicate 16 0)))" _ n]) (simp_all add: inc_be_def)
  with inc_le_iterate[of n "replicate 16 0"] show ?thesis by (simp del: power_numeral)
qed

lemma nth_time_sample: "n * 1000000 \<le> max_nanos \<Longrightarrow> nth_sample (run_next custom Add_Milli) (Sv_Time 0) n = Some (Sv_Time (n * 1000000))"
  by (rule nth_sample_by[of "\<lambda>n. Sv_Time (n * 1000000)" _ n]) simp_all



end
