(* ===== verification/Chain_Macros.thy ===== *)
theory Chain_Macros
  imports Column_Macros Entity_Macros
begin

section \<open>Entities of a chain\<close>

text \<open>
  The macros of an entity around what \<open>Entity_Macros\<close> assembles (\<open>macros/src/lib.rs\<close>): the attribute macro that puts the
  derives in place, and the derive macro that registers the entity and gives it the implementation of a block header or of
  a block. Which one is decided by the name of the struct; the fields it needs are looked up by name (\<open>macros/src/entity/chain.rs\<close>).
  What the generated chain computes is in \<open>Block_Chain\<close>. A panic of a macro is \<open>None\<close>, an abort with an error the left summand.
\<close>

subsection \<open>Required fields\<close>

datatype expected = Unsigned nat | ArrayU8 nat

fun expected_hint :: "expected \<Rightarrow> string" where
  "expected_hint (Unsigned b) = ''a #[column] newtype wrapping `u'' @ show_uint b @ ''`''"
| "expected_hint (ArrayU8 n) = ''a #[column] newtype wrapping `[u8; '' @ show_uint n @ '']`''"

fun expected_repr :: "expected \<Rightarrow> string" where
  "expected_repr (Unsigned b) = ''u'' @ show_uint b"
| "expected_repr (ArrayU8 n) = ''[u8; '' @ show_uint n @ '']''"

definition find_field :: "field_def list \<Rightarrow> string \<Rightarrow> field_def option" where
  "find_field fs name = find (\<lambda>f. fd_name f = name) fs"

definition expect_field :: "field_def list \<Rightarrow> string \<Rightarrow> expected \<Rightarrow> string + syn_type" where
  "expect_field fs name e =
     (case find_field fs name of
        Some f \<Rightarrow> Inr (fd_tpe f)
      | None \<Rightarrow> Inl (''missing required field `'' @ name @ ''` (help: add `pub '' @ name @
                    '': <YourNewtype>` where `<YourNewtype>: Column<Repr = '' @ expected_hint e @ ''>`)''))"

definition field_type_from :: "field_def list \<Rightarrow> string \<Rightarrow> string + syn_type" where
  "field_type_from fs name =
     (case find_field fs name of
        Some f \<Rightarrow> Inr (fd_tpe f)
      | None \<Rightarrow> Inl ''missing required field `hash` (help: add `pub hash: <HeaderType>`)'')"

definition impl_where_bounds :: "(syn_type \<times> expected) list \<Rightarrow> (syn_type \<times> string) list" where
  "impl_where_bounds wants = map (map_prod id expected_repr) wants"

subsection \<open>Implementations for chains\<close>

record header_impl =
  hi_header :: syn_type
  hi_hash :: syn_type
  hi_timestamp :: syn_type
  hi_bounds :: "(syn_type \<times> string) list"

record block_impl =
  bi_block :: syn_type
  bi_header :: syn_type
  bi_pk_name :: string
  bi_pk_type :: syn_type
  bi_write_ctx :: syn_type

text \<open>The question mark operator.\<close>

fun ok_or_return :: "'e + 'a \<Rightarrow> ('a \<Rightarrow> 'e + 'b) \<Rightarrow> 'e + 'b" where
  "ok_or_return (Inl e) f = Inl e"
| "ok_or_return (Inr x) f = f x"

definition block_header_like :: "syn_type \<Rightarrow> field_def list \<Rightarrow> string + header_impl" where
  "block_header_like header_type fs =
     ok_or_return (field_type_from fs ''hash'') (\<lambda>hash_type.
     ok_or_return (field_type_from fs ''timestamp'') (\<lambda>timestamp_type.
     ok_or_return (expect_field fs ''height'' (Unsigned 32)) (\<lambda>height_inner_ty.
     ok_or_return (expect_field fs ''hash'' (ArrayU8 32)) (\<lambda>hash_inner_ty.
     ok_or_return (expect_field fs ''prev_hash'' (ArrayU8 32)) (\<lambda>prev_hash_inner_ty.
     ok_or_return (expect_field fs ''timestamp'' (Unsigned 32)) (\<lambda>timestamp_inner_ty.
     ok_or_return (expect_field fs ''weight'' (Unsigned 32)) (\<lambda>weight_inner_ty.
       Inr \<lparr>hi_header = header_type, hi_hash = hash_type, hi_timestamp = timestamp_type,
            hi_bounds = impl_where_bounds [(height_inner_ty, Unsigned 32), (hash_inner_ty, ArrayU8 32), (prev_hash_inner_ty, ArrayU8 32),
                                           (timestamp_inner_ty, Unsigned 32), (weight_inner_ty, Unsigned 32)]\<rparr>)))))))"

definition block_like :: "syn_type \<Rightarrow> string \<Rightarrow> syn_type \<Rightarrow> field_def list \<Rightarrow> syn_type \<Rightarrow> string + block_impl" where
  "block_like block_type pk_name pk_type fs write_tx_context =
     ok_or_return (field_type_from fs ''header'') (\<lambda>header_type.
       Inr \<lparr>bi_block = block_type, bi_header = header_type, bi_pk_name = pk_name, bi_pk_type = pk_type, bi_write_ctx = write_tx_context\<rparr>)"

subsection \<open>The macros of an entity\<close>

definition str_contains :: "string \<Rightarrow> string \<Rightarrow> bool" where
  "str_contains s part \<longleftrightarrow> list_ex (\<lambda>i. take (length part) (drop i s) = part) [0..<Suc (length s)]"

datatype chain_impl = Header_Like header_impl | Block_Like block_impl | No_Chain

definition chain_impl_of :: "string \<Rightarrow> key_def \<Rightarrow> field_def list \<Rightarrow> (string + chain_impl) option" where
  "chain_impl_of struct_ident key_def field_defs =
     (if str_contains struct_ident ''Header''
      then Some (map_sum id Header_Like (block_header_like (Ty_Path struct_ident None) field_defs))
      else if str_contains struct_ident ''Block''
      then do {
        write_tx_context \<leftarrow> entity_tx_context_type (Ty_Path struct_ident None) Tx_Write;
        Some (map_sum id Block_Like
                (block_like (Ty_Path struct_ident None) (fd_name (key_field_def key_def)) (fd_tpe (key_field_def key_def)) field_defs write_tx_context))
      }
      else Some (Inr No_Chain))"

record struct_info =
  si_name :: string
  si_root :: bool
  si_routes :: "(http_method \<times> string \<times> string) list"
  si_db_defs :: "db_def list"

datatype derive_error = Schema_Error syn_error | Chain_Error string

definition derive_entity ::
    "(string \<Rightarrow> syn_type option) \<Rightarrow> (string \<Rightarrow> string) \<Rightarrow> string \<Rightarrow> syn_fields \<Rightarrow>
     (derive_error + entity_out \<times> chain_impl \<times> struct_info) option" where
  "derive_entity parse_type snake struct_ident ast =
     do {
       r \<leftarrow> entity_new parse_type snake struct_ident ast;
       (case r of
          Inl err \<Rightarrow> Some (Inl (Schema_Error err))
        | Inr out \<Rightarrow>
            do {
              c \<leftarrow> chain_impl_of struct_ident (ed_key_def (eo_def out)) (eo_field_defs out);
              Some (case c of
                      Inl msg \<Rightarrow> Inl (Chain_Error msg)
                    | Inr impl \<Rightarrow>
                        Inr (out, impl, \<lparr>si_name = struct_ident, si_root = is_root (ed_key_def (eo_def out)), si_routes = eo_routes out, si_db_defs = eo_db_defs out\<rparr>))
            })
     }"

definition entity_derives :: "string list" where
  "entity_derives = [''Clone'', ''Debug'', ''Default'', ''Serialize'', ''Deserialize'', ''Eq'', ''Entity'', ''PartialEq'', ''ToSchema'']"

fun is_derive :: "'a attribute \<Rightarrow> bool" where
  "is_derive (Derive ps) = True"
| "is_derive (Other_Attr a) = False"

text \<open>The attribute macro of an entity: its derives take the place of those of the user.\<close>

definition entity_attr :: "'a attribute list \<Rightarrow> 'a attribute list" where
  "entity_attr attrs = Derive (Some entity_derives) # filter (Not \<circ> is_derive) attrs"

subsection \<open>Properties\<close>

lemma find_field_Some: "find_field fs name = Some f \<Longrightarrow> f \<in> set fs \<and> fd_name f = name"
  by (induction fs) (auto simp: find_field_def split: if_splits)

lemma find_field_None: "find_field fs name = None \<longleftrightarrow> name \<notin> fd_name ` set fs"
  by (auto simp: find_field_def find_None_iff)

text \<open>A header is implemented exactly for the structs that have the five fields, whose types are what the bounds are about.\<close>

lemma header_needs_fields:
  "(\<exists>h. block_header_like ty fs = Inr h) \<longleftrightarrow> {''height'', ''hash'', ''prev_hash'', ''timestamp'', ''weight''} \<subseteq> fd_name ` set fs"
  using find_field_None[of fs "''height''"] find_field_None[of fs "''hash''"] find_field_None[of fs "''prev_hash''"]
    find_field_None[of fs "''timestamp''"] find_field_None[of fs "''weight''"]
  by (auto simp: block_header_like_def field_type_from_def expect_field_def split: option.splits)

lemma show_uint_32: "show_uint 32 = ''32''"
  by code_simp

lemma header_bounds:
  assumes "block_header_like ty fs = Inr h"
  shows "map snd (hi_bounds h) = [''u32'', ''[u8; 32]'', ''[u8; 32]'', ''u32'', ''u32'']"
    and "fst ` set (hi_bounds h) \<subseteq> fd_tpe ` set fs"
  using assms find_field_Some
  by (auto simp: block_header_like_def field_type_from_def expect_field_def impl_where_bounds_def show_uint_32 split: option.splits)

text \<open>The error for a missing header names another field.\<close>

lemma missing_header_blames_hash:
  assumes "''header'' \<notin> fd_name ` set fs"
  shows "block_like ty n t fs w = Inl ''missing required field `hash` (help: add `pub hash: <HeaderType>`)''"
  using assms by (simp add: block_like_def field_type_from_def find_field_None[THEN iffD2])

text \<open>
  The field of the key is among the fields that are looked at, so that the key of a header may be its height; and an entity
  with neither word in its name is registered whenever it parses.
\<close>

lemma derived_plain_entity:
  assumes "\<not> str_contains name ''Header''" and "\<not> str_contains name ''Block''" and "entity_new parse_type snake name ast = Some (Inr out)"
  shows "derive_entity parse_type snake name ast =
    Some (Inr (out, No_Chain, \<lparr>si_name = name, si_root = is_root (ed_key_def (eo_def out)), si_routes = eo_routes out, si_db_defs = eo_db_defs out\<rparr>))"
  using assms by (simp add: derive_entity_def chain_impl_of_def)

text \<open>An entity that has \<open>Block\<close> in its name but no header, such as statistics about blocks, is refused.\<close>

lemma block_by_name_refused:
  assumes "str_contains name ''Block''" and "\<not> str_contains name ''Header''" and "entity_new parse_type snake name ast = Some (Inr out)"
    and "''header'' \<notin> fd_name ` set (eo_field_defs out)"
  shows "\<exists>msg. derive_entity parse_type snake name ast = Some (Inl (Chain_Error msg))"
  using assms
  by (simp add: derive_entity_def chain_impl_of_def entity_tx_context_type_def block_like_def field_type_from_def find_field_None[THEN iffD2])

lemma entity_attr_idem: "entity_attr (entity_attr attrs) = entity_attr attrs"
  by (simp add: entity_attr_def comp_def)

lemma entity_drops_user_derives: "\<not> set ps \<subseteq> set entity_derives \<Longrightarrow> \<forall>a\<in>set (entity_attr (Derive (Some ps) # attrs)). a \<noteq> Derive (Some ps)"
  by (auto simp: entity_attr_def)

end
