(* ===== verification/Task_Stats.thy ===== *)
theory Task_Stats
  imports Pointers Tx_Fsm
begin

section \<open>Statistics of tasks\<close>

text \<open>
  What the persisting task of a synchronisation measures and reports: the accumulated durations of the tables
  (\<open>TaskAcc\<close> in \<open>chain/src/stats.rs\<close>), the report as a table of text, and the monitor that is told about every batch
  (\<open>chain/src/monitor.rs\<close>). Durations are \<open>u128\<close> and the number of batches is \<open>u64\<close>, as numbers with their saturation and overflow
  written out. Floating point arithmetic is a parameter: deviations are computed with it and nothing else depends on it.
  The results of a batch are the values of a hash map: a list in the order of the iteration, with different names.
\<close>

subsection \<open>Numbers\<close>

abbreviation u128_max :: nat where
  "u128_max \<equiv> 2 ^ 128 - 1"

abbreviation u64_max :: nat where
  "u64_max \<equiv> 2 ^ 64 - 1"

definition saturate :: "nat \<Rightarrow> nat \<Rightarrow> nat" where
  "saturate mx n = min mx n"

text \<open>Addition of unsigned integers: an overflow panics in a build with checks and wraps in one without.\<close>

definition add_uint :: "bool \<Rightarrow> nat \<Rightarrow> nat \<Rightarrow> nat \<Rightarrow> nat option" where
  "add_uint checks mx a b = (if a + b \<le> mx then Some (a + b) else if checks then None else Some ((a + b) mod Suc mx))"

fun sum_uint :: "bool \<Rightarrow> nat \<Rightarrow> nat \<Rightarrow> nat list \<Rightarrow> nat option" where
  "sum_uint checks mx acc [] = Some acc"
| "sum_uint checks mx acc (x # xs) = Option.bind (add_uint checks mx acc x) (\<lambda>a. sum_uint checks mx a xs)"

record 'f float_ops =
  f_of_nat :: "nat \<Rightarrow> 'f"
  f_add :: "'f \<Rightarrow> 'f \<Rightarrow> 'f"
  f_sub :: "'f \<Rightarrow> 'f \<Rightarrow> 'f"
  f_mul :: "'f \<Rightarrow> 'f \<Rightarrow> 'f"
  f_div :: "'f \<Rightarrow> 'f \<Rightarrow> 'f"
  f_max :: "'f \<Rightarrow> 'f \<Rightarrow> 'f"
  f_sqrt :: "'f \<Rightarrow> 'f"
  f_is_zero :: "'f \<Rightarrow> bool"
  f_less :: "'f \<Rightarrow> 'f \<Rightarrow> bool"
  f_round_u128 :: "'f \<Rightarrow> nat"

subsection \<open>Accumulated durations\<close>

type_synonym 'f phase = "(string \<rightharpoonup> nat) \<times> (string \<rightharpoonup> 'f)"

record 'f task_acc =
  ta_write :: "'f phase"
  ta_flush :: "'f phase"
  ta_collect :: "'f phase"
  ta_sort :: "'f phase"
  ta_iters :: nat

definition task_acc_default :: "'f task_acc" where
  "task_acc_default = \<lparr>ta_write = (Map.empty, Map.empty), ta_flush = (Map.empty, Map.empty), ta_collect = (Map.empty, Map.empty),
     ta_sort = (Map.empty, Map.empty), ta_iters = 0\<rparr>"

definition update_phase_maps :: "'f float_ops \<Rightarrow> string \<Rightarrow> nat \<Rightarrow> 'f phase \<Rightarrow> 'f phase" where
  "update_phase_maps F name took p =
     (case p of (totals, sumsqs) \<Rightarrow>
        (let totals' = (case totals name of
                          None \<Rightarrow> totals(name \<mapsto> took)
                        | Some t \<Rightarrow> totals(name \<mapsto> saturate u128_max (t + took)));
             sq = f_mul F (f_of_nat F took) (f_of_nat F took);
             old = (case sumsqs name of None \<Rightarrow> f_of_nat F 0 | Some s \<Rightarrow> s)
         in (totals', sumsqs(name \<mapsto> f_add F old sq))))"

definition update_task :: "'f float_ops \<Rightarrow> 'f task_acc \<Rightarrow> task_result \<Rightarrow> 'f task_acc" where
  "update_task F a tr =
     a\<lparr>ta_collect := update_phase_maps F (task_name tr) (collect_took (task_stats_of tr)) (ta_collect a),
       ta_sort := update_phase_maps F (task_name tr) (sort_took (task_stats_of tr)) (ta_sort a),
       ta_write := update_phase_maps F (task_name tr) (write_took (task_stats_of tr)) (ta_write a),
       ta_flush := update_phase_maps F (task_name tr) (flush_took (task_stats_of tr)) (ta_flush a)\<rparr>"

definition acc_update :: "'f float_ops \<Rightarrow> 'f task_acc \<Rightarrow> task_result list \<Rightarrow> 'f task_acc" where
  "acc_update F a batch = foldl (update_task F) (a\<lparr>ta_iters := saturate u64_max (ta_iters a + 1)\<rparr>) batch"

subsection \<open>Reports\<close>

record 'f report_data =
  rd_last :: nat
  rd_avg :: nat
  rd_dev :: nat
  rd_cv :: 'f

record 'f report_row =
  rr_name :: string
  rr_collect :: "'f report_data"
  rr_sort :: "'f report_data"
  rr_write :: "'f report_data"
  rr_flush :: "'f report_data"

definition build_data :: "'f float_ops \<Rightarrow> 'f task_acc \<Rightarrow> nat \<Rightarrow> nat \<Rightarrow> 'f \<Rightarrow> 'f report_data" where
  "build_data F a took tot sumsq =
     (let iters_f = f_of_nat F (ta_iters a);
          mean_f = (if f_is_zero F iters_f then f_of_nat F 0 else f_div F (f_of_nat F tot) iters_f);
          ex2 = (if f_is_zero F iters_f then f_of_nat F 0 else f_div F sumsq iters_f);
          var = f_max F (f_sub F ex2 (f_mul F mean_f mean_f)) (f_of_nat F 0);
          dev_f = f_sqrt F var
      in \<lparr>rd_last = took, rd_avg = (if ta_iters a = 0 then 0 else tot div ta_iters a), rd_dev = f_round_u128 F dev_f,
          rd_cv = (if f_less F (f_of_nat F 0) mean_f then f_mul F (f_of_nat F 100) (f_div F dev_f mean_f) else f_of_nat F 0)\<rparr>)"

definition phase_data :: "'f float_ops \<Rightarrow> 'f task_acc \<Rightarrow> string \<Rightarrow> nat \<Rightarrow> 'f phase \<Rightarrow> 'f report_data" where
  "phase_data F a name took p =
     (case p of (totals, sumsqs) \<Rightarrow>
        build_data F a took (case totals name of None \<Rightarrow> 0 | Some t \<Rightarrow> t) (case sumsqs name of None \<Rightarrow> f_of_nat F 0 | Some s \<Rightarrow> s))"

definition build_row :: "'f float_ops \<Rightarrow> 'f task_acc \<Rightarrow> task_result \<Rightarrow> 'f report_row" where
  "build_row F a tr =
     \<lparr>rr_name = task_name tr,
      rr_collect = phase_data F a (task_name tr) (collect_took (task_stats_of tr)) (ta_collect a),
      rr_sort = phase_data F a (task_name tr) (sort_took (task_stats_of tr)) (ta_sort a),
      rr_write = phase_data F a (task_name tr) (write_took (task_stats_of tr)) (ta_write a),
      rr_flush = phase_data F a (task_name tr) (flush_took (task_stats_of tr)) (ta_flush a)\<rparr>"

definition build_report :: "'f float_ops \<Rightarrow> 'f task_acc \<Rightarrow> task_result list \<Rightarrow> 'f report_row list" where
  "build_report F a batch = map (build_row F a) batch"

subsection \<open>Text\<close>

definition pad_left :: "nat \<Rightarrow> string \<Rightarrow> string" where
  "pad_left w s = replicate (w - length s) (CHR '' '') @ s"

definition pad_right :: "nat \<Rightarrow> string \<Rightarrow> string" where
  "pad_right w s = s @ replicate (w - length s) (CHR '' '')"

fun join_with :: "string \<Rightarrow> string list \<Rightarrow> string" where
  "join_with sep [] = []"
| "join_with sep [s] = s"
| "join_with sep (s # ss) = s @ sep @ join_with sep ss"

definition plus_eq :: "string list \<Rightarrow> string \<Rightarrow> string" where
  "plus_eq cells label = join_with ''  '' (map (pad_left 5) cells) @ '' = '' @ pad_left 5 label"

definition plus_eq_fmt :: "bool \<Rightarrow> nat list \<Rightarrow> string option" where
  "plus_eq_fmt checks vals = map_option (\<lambda>s. plus_eq (map show_uint vals) (show_uint s)) (sum_uint checks u128_max 0 vals)"

definition plus_eq_header :: "string \<Rightarrow> string" where
  "plus_eq_header label = plus_eq [''c'', ''s'', ''w'', ''f''] label"

definition sum_col_w :: nat where
  "sum_col_w = max (length (plus_eq_header ''last'')) (length (plus_eq_header ''avg''))"

definition report_line :: "string \<Rightarrow> string \<Rightarrow> string \<Rightarrow> string \<Rightarrow> string \<Rightarrow> string" where
  "report_line name lst avg dev cov =
     pad_right 40 name @ '' | '' @ pad_left sum_col_w lst @ '' | '' @ pad_left sum_col_w avg @ '' | '' @ pad_left 8 dev @ '' | '' @ pad_left 8 cov"

definition report_header :: string where
  "report_header = report_line ''TASK (c)ollect,(s)ort,(w)rite,(f)lush ms'' (plus_eq_header ''last'') (plus_eq_header ''avg'') ''dev'' ''coefov %''"

definition row_phases :: "'f report_row \<Rightarrow> 'f report_data list" where
  "row_phases r = [rr_collect r, rr_sort r, rr_write r, rr_flush r]"

definition sum_last :: "bool \<Rightarrow> 'f report_row \<Rightarrow> nat option" where
  "sum_last checks r = sum_uint checks u128_max 0 (map rd_last (row_phases r))"

definition row_line :: "'f float_ops \<Rightarrow> bool \<Rightarrow> 'f report_row \<Rightarrow> string option" where
  "row_line F checks r =
     do {
       lasts \<leftarrow> plus_eq_fmt checks (map rd_last (row_phases r));
       avgs \<leftarrow> plus_eq_fmt checks (map rd_avg (row_phases r));
       devs \<leftarrow> sum_uint checks u128_max 0 (map rd_dev (row_phases r));
       cvs \<leftarrow> sum_uint checks u128_max 0 (map (f_round_u128 F \<circ> rd_cv) (row_phases r));
       Some (report_line (rr_name r) lasts avgs (show_uint devs) (show_uint cvs))
     }"

definition sort_rows :: "bool \<Rightarrow> 'f report_row list \<Rightarrow> 'f report_row list option" where
  "sort_rows checks rows =
     map_option (\<lambda>sums. map snd (sort_key (\<lambda>(s, r). - int s) (zip sums rows))) (those (map (sum_last checks) rows))"

definition report_lines :: "'f float_ops \<Rightarrow> bool \<Rightarrow> 'f report_row list \<Rightarrow> string list option" where
  "report_lines F checks rows =
     do {
       rs \<leftarrow> sort_rows checks rows;
       ls \<leftarrow> those (map (row_line F checks) rs);
       Some (report_header # ls)
     }"

definition printable :: "'f float_ops \<Rightarrow> bool \<Rightarrow> 'f report_row list \<Rightarrow> string option" where
  "printable F checks rows =
     map_option (\<lambda>ls. ''Task performance :'' @ [CHR 0x0A] @ join_with [CHR 0x0A] ls) (report_lines F checks rows)"

subsection \<open>The monitor\<close>

record 'f progress_monitor =
  pm_task_stats :: "'f task_acc"
  pm_total_weight :: nat

definition progress_monitor_new :: "'f progress_monitor" where
  "progress_monitor_new = \<lparr>pm_task_stats = task_acc_default, pm_total_weight = 0\<rparr>"

text \<open>A header as the monitor sees it, and what it logs of a batch: its length, the height and the first characters of the hash of its first block, the total weight.\<close>

record logged_header =
  lh_height :: nat
  lh_hash_text :: string
  lh_timestamp_text :: string
  lh_weight :: nat

record batch_entry =
  be_len :: nat
  be_height :: nat
  be_hash :: string
  be_timestamp :: string
  be_total_weight :: nat

definition log_batch :: "bool \<Rightarrow> 'f progress_monitor \<Rightarrow> logged_header list \<Rightarrow> ('f progress_monitor \<times> batch_entry option) option" where
  "log_batch checks pm batch =
     (case batch of
        [] \<Rightarrow> Some (pm, None)
      | first # _ \<Rightarrow>
          do {
            batch_weight \<leftarrow> sum_uint checks usize_max 0 (map lh_weight batch);
            total_weight_now \<leftarrow> add_uint checks usize_max (pm_total_weight pm) batch_weight;
            (if length (lh_hash_text first) < 12 then None
             else Some (pm\<lparr>pm_total_weight := total_weight_now\<rparr>,
                        Some \<lparr>be_len = length batch, be_height = lh_height first, be_hash = take 12 (lh_hash_text first),
                              be_timestamp = lh_timestamp_text first, be_total_weight = total_weight_now\<rparr>))
          })"

definition log_task_results ::
    "'f float_ops \<Rightarrow> bool \<Rightarrow> 'f progress_monitor \<Rightarrow> task_result list \<Rightarrow> ('f progress_monitor \<times> string option) option" where
  "log_task_results F checks pm tasks =
     (let s = acc_update F (pm_task_stats pm) tasks; pm' = pm\<lparr>pm_task_stats := s\<rparr>
      in if ta_iters s mod 10 \<noteq> 0 then Some (pm', None)
         else map_option (\<lambda>text. (pm', Some text)) (printable F checks (build_report F s tasks)))"

subsection \<open>Averages\<close>

datatype phase_kind = Collect | Sort | Write | Flush_Phase

fun stat_of :: "phase_kind \<Rightarrow> task_result \<Rightarrow> nat" where
  "stat_of Collect t = collect_took (task_stats_of t)"
| "stat_of Sort t = sort_took (task_stats_of t)"
| "stat_of Write t = write_took (task_stats_of t)"
| "stat_of Flush_Phase t = flush_took (task_stats_of t)"

fun acc_phase :: "phase_kind \<Rightarrow> 'f task_acc \<Rightarrow> 'f phase" where
  "acc_phase Collect a = ta_collect a"
| "acc_phase Sort a = ta_sort a"
| "acc_phase Write a = ta_write a"
| "acc_phase Flush_Phase a = ta_flush a"

fun row_phase :: "phase_kind \<Rightarrow> 'f report_row \<Rightarrow> 'f report_data" where
  "row_phase Collect r = rr_collect r"
| "row_phase Sort r = rr_sort r"
| "row_phase Write r = rr_write r"
| "row_phase Flush_Phase r = rr_flush r"

definition total_of :: "'f phase \<Rightarrow> string \<Rightarrow> nat" where
  "total_of p name = (case fst p name of None \<Rightarrow> 0 | Some t \<Rightarrow> t)"

definition total_took :: "phase_kind \<Rightarrow> string \<Rightarrow> task_result list \<Rightarrow> nat" where
  "total_took k name ts = sum_list (map (stat_of k) (filter (\<lambda>t. task_name t = name) ts))"

lemma acc_phase_update_task: "acc_phase k (update_task F a t) = update_phase_maps F (task_name t) (stat_of k t) (acc_phase k a)"
  by (cases k) (simp_all add: update_task_def)

lemma total_of_update:
  assumes "total_of p n = saturate u128_max m" and "took \<le> u128_max"
  shows "total_of (update_phase_maps F name took p) n = saturate u128_max (m + (if name = n then took else 0))"
  using assms by (cases p) (auto simp: update_phase_maps_def total_of_def Let_def saturate_def split: option.splits)

lemma iters_update_task [simp]: "ta_iters (update_task F a t) = ta_iters a"
  by (simp add: update_task_def)

lemma tasks_accumulated:
  assumes "total_of (acc_phase k a) n = saturate u128_max m" and "\<forall>t\<in>set ts. stat_of k t \<le> u128_max"
  shows "total_of (acc_phase k (foldl (update_task F) a ts)) n = saturate u128_max (m + total_took k n ts) \<and>
         ta_iters (foldl (update_task F) a ts) = ta_iters a"
  using assms
proof (induction ts arbitrary: a m)
  case (Cons t ts)
  have "total_of (acc_phase k (update_task F a t)) n = saturate u128_max (m + (if task_name t = n then stat_of k t else 0))"
    using total_of_update[OF Cons.prems(1), of "stat_of k t" F "task_name t"] Cons.prems(2) by (simp add: acc_phase_update_task)
  from Cons.IH[OF this] Cons.prems(2) show ?case by (simp add: total_took_def add.assoc)
qed (simp add: total_took_def)

lemma batches_accumulated:
  assumes "\<forall>b\<in>set bs. \<forall>t\<in>set b. stat_of k t \<le> u128_max" and "length bs \<le> u64_max"
  shows "total_of (acc_phase k (foldl (acc_update F) task_acc_default bs)) n = saturate u128_max (total_took k n (concat bs)) \<and>
         ta_iters (foldl (acc_update F) task_acc_default bs) = length bs"
  using assms
proof (induction bs rule: rev_induct)
  case Nil
  then show ?case by (cases k) (simp_all add: total_of_def task_acc_default_def total_took_def saturate_def)
next
  case (snoc b bs)
  let ?a = "foldl (acc_update F) task_acc_default bs" and ?i = "saturate u64_max (Suc (length bs))"
  from snoc have ih: "total_of (acc_phase k ?a) n = saturate u128_max (total_took k n (concat bs))" "ta_iters ?a = length bs" by auto
  have "acc_phase k (?a\<lparr>ta_iters := ?i\<rparr>) = acc_phase k ?a" by (cases k) simp_all
  with ih(1) have "total_of (acc_phase k (?a\<lparr>ta_iters := ?i\<rparr>)) n = saturate u128_max (total_took k n (concat bs))" by simp
  moreover have "foldl (acc_update F) task_acc_default (bs @ [b]) = foldl (update_task F) (?a\<lparr>ta_iters := ?i\<rparr>) b"
    by (simp add: acc_update_def[of F ?a] ih(2))
  moreover have "?i = length (bs @ [b])" using snoc.prems(2) by (simp add: saturate_def)
  ultimately show ?case using tasks_accumulated[of k "?a\<lparr>ta_iters := ?i\<rparr>" n "total_took k n (concat bs)" b F] snoc.prems(1)
    by (simp add: total_took_def del: power_numeral)
qed

text \<open>
  In a report the average of a task is the sum of its durations in all batches, divided by the number of batches, whether the
  task took part in a batch or not; its last duration is that of the batch the report is made for.
\<close>

lemma report_averages:
  assumes "\<forall>b\<in>set bs. \<forall>t\<in>set b. stat_of k t \<le> u128_max" and "length bs \<le> u64_max" and "bs \<noteq> []"
    and "total_took k (task_name tr) (concat bs) \<le> u128_max"
    and r_def: "r = build_row F (foldl (acc_update F) task_acc_default bs) tr"
  shows "rd_last (row_phase k r) = stat_of k tr \<and> rd_avg (row_phase k r) = total_took k (task_name tr) (concat bs) div length bs"
proof -
  let ?a = "foldl (acc_update F) task_acc_default bs"
  have "row_phase k r = phase_data F ?a (task_name tr) (stat_of k tr) (acc_phase k ?a)"
    by (cases k) (simp_all add: r_def build_row_def)
  with batches_accumulated[OF assms(1,2), of F "task_name tr"] assms(3,4) show ?thesis
    by (simp add: phase_data_def build_data_def Let_def total_of_def saturate_def split: prod.splits)
qed

subsection \<open>Layout\<close>

lemma length_show_uint: "n < 10 ^ Suc w \<Longrightarrow> length (show_uint n) \<le> Suc w"
proof (induction w arbitrary: n)
  case (Suc w)
  then have "n div 10 < 10 ^ Suc w" by (simp add: less_mult_imp_div_less mult.commute)
  from Suc.IH[OF this] show ?case by (subst show_uint.simps) simp
qed (simp add: show_uint.simps)

lemma length_pad: "length (pad_left w s) = max w (length s)" "length (pad_right w s) = max w (length s)"
  by (simp_all add: pad_left_def pad_right_def)

lemma sum_uint_Some: "acc + sum_list xs \<le> mx \<Longrightarrow> sum_uint checks mx acc xs = Some (acc + sum_list xs)"
  by (induction xs arbitrary: acc) (auto simp: add_uint_def)

lemma plus_eq_length:
  assumes "length a \<le> 5" "length b \<le> 5" "length c \<le> 5" "length d \<le> 5" "length e \<le> 5"
  shows "length (plus_eq [a, b, c, d] e) = 34"
  using assms by (simp add: plus_eq_def length_pad)

lemma header_widths: "sum_col_w = 34" "length report_header = 136"
proof -
  show "sum_col_w = 34" by (simp add: sum_col_w_def plus_eq_header_def plus_eq_length)
  then show "length report_header = 136"
    by (simp add: report_header_def report_line_def length_pad plus_eq_header_def plus_eq_length)
qed

definition fits :: "'f float_ops \<Rightarrow> 'f report_row \<Rightarrow> bool" where
  "fits F r \<longleftrightarrow> length (rr_name r) \<le> 40 \<and> sum_list (map rd_last (row_phases r)) < 10 ^ 5 \<and> sum_list (map rd_avg (row_phases r)) < 10 ^ 5 \<and>
     sum_list (map rd_dev (row_phases r)) < 10 ^ 8 \<and> sum_list (map (f_round_u128 F \<circ> rd_cv) (row_phases r)) < 10 ^ 8"

lemma plus_eq_fmt_fits:
  assumes "length vals = 4" and "sum_list vals < 10 ^ 5"
  shows "\<exists>s. plus_eq_fmt checks vals = Some s \<and> length s = 34"
proof -
  from assms(1) obtain a b c d where v: "vals = [a, b, c, d]" by (auto simp: numeral_eq_Suc length_Suc_conv)
  with assms(2) have "length (show_uint x) \<le> 5" if "x \<in> {a, b, c, d, sum_list vals}" for x
    using length_show_uint[of x 4] that by auto
  with v have "length (plus_eq (map show_uint vals) (show_uint (sum_list vals))) = 34" by (simp add: plus_eq_length)
  moreover have "sum_uint checks u128_max 0 vals = Some (sum_list vals)" using sum_uint_Some[of 0 vals u128_max checks] assms(2) by simp
  ultimately show ?thesis by (simp add: plus_eq_fmt_def)
qed

text \<open>Rows whose names and numbers fit are printed in every build, with the columns below each other.\<close>

lemma row_line_aligned:
  assumes "fits F r"
  shows "\<exists>l. row_line F checks r = Some l \<and> length l = length report_header"
proof -
  have n: "length (map f (row_phases r)) = 4" for f :: "'a report_data \<Rightarrow> nat" by (simp add: row_phases_def)
  from assms plus_eq_fmt_fits[OF n] obtain ls as where
    p: "plus_eq_fmt checks (map rd_last (row_phases r)) = Some ls" "length ls = 34"
       "plus_eq_fmt checks (map rd_avg (row_phases r)) = Some as" "length as = 34"
    unfolding fits_def by meson
  have w: "\<exists>v. sum_uint checks u128_max 0 xs = Some v \<and> length (show_uint v) \<le> 8" if "sum_list xs < 10 ^ 8" for xs
    using sum_uint_Some[of 0 xs u128_max checks] length_show_uint[of "sum_list xs" 7] that by simp
  from assms obtain d c where
    q: "sum_uint checks u128_max 0 (map rd_dev (row_phases r)) = Some d" "length (show_uint d) \<le> 8"
       "sum_uint checks u128_max 0 (map (f_round_u128 F \<circ> rd_cv) (row_phases r)) = Some c" "length (show_uint c) \<le> 8"
    using w unfolding fits_def by meson
  show ?thesis using p q assms
    by (simp add: row_line_def report_line_def length_pad header_widths fits_def)
qed

lemma sort_rows_ok:
  assumes "\<forall>r\<in>set rows. fits F r"
  shows "\<exists>rs. sort_rows checks rows = Some rs \<and> mset rs = mset rows \<and>
           sorted_wrt (\<lambda>x y. sum_list (map rd_last (row_phases y)) \<le> sum_list (map rd_last (row_phases x))) rs"
proof -
  let ?l = "\<lambda>r. sum_list (map rd_last (row_phases r))" and ?f = "\<lambda>(s, r). - int s"
  let ?ps = "zip (map ?l rows) rows"
  have ps: "?ps = map (\<lambda>r. (?l r, r)) rows" by (induction rows) simp_all
  have "sum_last checks r = Some (?l r)" if "r \<in> set rows" for r
    using assms that sum_uint_Some[of 0 "map rd_last (row_phases r)" u128_max checks] by (force simp: sum_last_def fits_def)
  then have s: "those (map (sum_last checks) rows) = Some (map ?l rows)" by (induction rows) auto
  have "mset (map snd (sort_key ?f ?ps)) = image_mset snd (mset ?ps)" by simp
  also have "\<dots> = mset rows" by (simp only: mset_map[symmetric] map_snd_zip length_map)
  finally have m: "mset (map snd (sort_key ?f ?ps)) = mset rows" .
  have e: "fst p = ?l (snd p)" if "p \<in> set (sort_key ?f ?ps)" for p
    using that unfolding ps by auto
  have "sorted_wrt (\<lambda>p q. ?f p \<le> ?f q) (sort_key ?f ?ps)"
    using sorted_sort_key[of ?f ?ps] by (simp only: sorted_map)
  moreover have "?l (snd q) \<le> ?l (snd p)" if "p \<in> set (sort_key ?f ?ps)" "q \<in> set (sort_key ?f ?ps)" "?f p \<le> ?f q" for p q
    using that(3) e[OF that(1)] e[OF that(2)] by (simp only: case_prod_beta)
  ultimately have "sorted_wrt (\<lambda>p q. ?l (snd q) \<le> ?l (snd p)) (sort_key ?f ?ps)"
    by (rule sorted_wrt_mono_rel[rotated])
  with s m show ?thesis by (simp add: sort_rows_def sorted_wrt_map)
qed

lemma those_all: "\<forall>x\<in>set xs. \<exists>y. f x = Some y \<and> P y \<Longrightarrow> \<exists>ys. those (map f xs) = Some ys \<and> length ys = length xs \<and> (\<forall>y\<in>set ys. P y)"
  by (induction xs) auto

text \<open>Every tenth batch is reported. The report of results that fit is printed without a panic: one line for each, all as wide as the header.\<close>

lemma report_printed:
  assumes "\<forall>r\<in>set rows. fits F r"
  shows "\<exists>ls. report_lines F checks rows = Some ls \<and> length ls = Suc (length rows) \<and> (\<forall>l\<in>set ls. length l = length report_header)"
proof -
  from sort_rows_ok[OF assms, of checks] obtain rs where rs: "sort_rows checks rows = Some rs" "mset rs = mset rows" by blast
  have "set rs = set rows" using rs(2) by (rule mset_eq_setD)
  with assms row_line_aligned[of F _ checks] have "\<forall>r\<in>set rs. \<exists>l. row_line F checks r = Some l \<and> length l = length report_header" by simp
  from those_all[OF this] obtain ls where
    "those (map (row_line F checks) rs) = Some ls" "length ls = length rs" "\<forall>l\<in>set ls. length l = length report_header" by blast
  with rs(1) mset_eq_length[OF rs(2)] show ?thesis by (simp add: report_lines_def)
qed

lemma reports_every_tenth:
  assumes "log_task_results F checks pm tasks = Some (pm', out)"
  shows "out \<noteq> None \<longleftrightarrow> 10 dvd ta_iters (pm_task_stats pm')"
  using assms by (auto simp: log_task_results_def Let_def dvd_eq_mod_eq_0 split: if_splits)

text \<open>The weight that is logged is the weight of all batches so far, as long as it can be represented.\<close>

lemma log_batch_total:
  assumes "pm_total_weight pm + sum_list (map lh_weight batch) \<le> usize_max" and "\<forall>h\<in>set batch. 12 \<le> length (lh_hash_text h)"
  shows "\<exists>pm' out. log_batch checks pm batch = Some (pm', out) \<and>
           pm_total_weight pm' = pm_total_weight pm + sum_list (map lh_weight batch) \<and> (out = None \<longleftrightarrow> batch = [])"
  using assms sum_uint_Some[of 0 "map lh_weight batch" usize_max checks]
  by (cases batch) (auto simp: log_batch_def add_uint_def simp del: sum_uint.simps)

end
