(* ===== verification/Spec2Isabelle.thy ===== *)
theory Spec2Isabelle
  imports Merge_Buffer Partitioning Cache_Alloc Plain_Table Index_Table Dict_Table Tx_Commit Sharded_Table Sync_Pipeline Column_Codec Schema Column_Query Context Block_Chain Input_Hooks Address_Codec Bitcoin Storage_Init Node_Client Ergo Launcher Entity_Routes Samples Chain_Macros Task_Stats
begin

text \<open>
  A verification of \<^emph>\<open>redbit\<close>, an embedded storage engine for entities on top of the key/value store redb, and of
  the block chain indexers that are built on it (Bitcoin, Litecoin, Bitcoin Cash, Cardano, Ergo).

  \<^bold>\<open>The program.\<close> A Rust struct with the attribute \<open>entity\<close> is parsed (\<open>macros/src/field_parser.rs\<close>) and expanded into
  functions that store, compose, query and delete the entity with everything it owns (\<open>macros/src/entity\<close>, \<open>column\<close>,
  \<open>pk\<close>, \<open>relationship\<close>). Every column is a table of redb, plain, indexed or with a dictionary, and may be split into shards, one
  database file each (\<open>redbit/src/storage\<close>). A table is written by one thread per shard: commands arrive over a channel, unsorted
  writes are collected in a merge buffer, a flush writes them in key order and commits. A context holds the
  writers of all tables of an entity and commits them in two phases. On top, the synchroniser (\<open>chain/src\<close>) fetches
  blocks from a node, processes them in parallel, restores their order, and persists them in batches, linking
  forks near the tip; the crates under \<open>chains\<close> turn raw blocks into entities and resolve the inputs of
  transactions to the outputs they spend.

  \<^bold>\<open>Conventions.\<close> A \<open>Result\<close> is a sum with the error on the left (\<open>app_error\<close>, \<open>chain_error\<close>); a panic is \<open>None\<close>. Only
  \<open>chain_link\<close> has two levels of option: the outer \<open>None\<close> is a recursion that does not end, the inner one a panic. State is passed explicitly.
  Sizes are natural numbers with the bounds and the saturation of \<open>usize\<close> written out, bytes and hashes are words. The flag \<open>checks\<close> selects a
  build with overflow checks, where an overflow panics, or one without, where it wraps. What is not part of the
  repository (redb, the LRU cache, crossbeam and tokio channels, xxh3, syn, heck, axum, hex, base64, bs58, bech32, bitcoin, pallas, ergo-lib,
  the node) is a parameter, and what is relied on is a named law (\<open>table_laws\<close>, \<open>table_range_law\<close>, \<open>lru_laws\<close>, \<open>reads_ordered\<close>,
  \<open>base58_laws\<close>, \<open>segwit_laws\<close>, \<open>script_laws\<close>, \<open>disk_laws\<close>, \<open>byte_text_laws\<close>, ...), for which the witnesses give concrete instances. Checks that are compiled for tests only
  are not modelled.

  \<^bold>\<open>Shared theories.\<close>
  \<^item> \<open>Prelude\<close>: machine integers, little-endian bytes, errors (\<open>redbit/src/error.rs\<close>), loops that stop at an error;
    \<open>Sorting_Facts\<close>: sorting by a comparator; \<open>Redb\<close>: the operations of redb tables, multimaps and the cache as
    records with their laws, and instances of them.

  \<^bold>\<open>Storage.\<close>
  \<^item> \<open>Merge_Buffer\<close> (\<open>sort_buffer.rs\<close>): galloping searches, the stable two-way merge, the levels of runs and the heap-driven drain. The
    locale \<open>sort_buffer\<close> is its contract: nothing is lost, draining is sorted. The merge equals the stable sort; the
    drain as a whole is not stable.
  \<^item> \<open>Partitioning\<close>, \<open>Cache_Alloc\<close> (\<open>partitioning.rs\<close>, \<open>cache.rs\<close>): the shard of a key on machine words without overflow; the
    division of the cache as the method of largest remainders.
  \<^item> \<open>Table_Api\<close> (\<open>table_writer_api.rs\<close>): the trait of writable tables as a record and the locale \<open>write_table\<close>, interpreted in
    \<open>Plain_Table\<close>, \<open>Index_Table\<close> and \<open>Dict_Table\<close> (\<open>table_plain*.rs\<close>, \<open>table_index*.rs\<close>, \<open>table_dict*.rs\<close>). The index keeps its
    inverse multimap, the dictionary refines an abstract dictionary, with the cache or past it, one at a time or in a batch.
  \<^item> \<open>Tx_Fsm\<close>, \<open>Tx_Commit\<close> (\<open>tx_fsm.rs\<close>): the thread of a shard as a machine over its commands. The locale \<open>writer_thread\<close>
    extends \<open>write_table\<close>: how commands are batched is not observable, a deferred flush commits when the last part has arrived,
    a failed command never commits.
  \<^item> \<open>Router\<close>, \<open>Table_Writer\<close>, \<open>Sharded_Reader\<close>, \<open>Sharded_Table\<close> (\<open>router.rs\<close>, \<open>table_writer.rs\<close>, \<open>table_*_read.rs\<close>): every pair goes to its
    shard once; what is written, flushed and committed through all of them is read back.
  \<^item> \<open>Context\<close> (\<open>context.rs\<close>, \<open>macros/src/entity/context.rs\<close>): the two-phase commit flushes the key table of the root last.
  \<^item> \<open>Storage_Init\<close> (\<open>init.rs\<close>): creating and opening the files of the shards; what was created is opened.

  \<^bold>\<open>Entities.\<close>
  \<^item> \<open>Pointers\<close>, \<open>Column_Codec\<close> (\<open>macro_rules.rs\<close>, \<open>lib.rs\<close>, \<open>utils.rs\<close>, \<open>codec.rs\<close>): keys of any depth, their bytes, text, order and ranges; the bytes
    and order of column values.
  \<^item> \<open>Schema\<close> (\<open>field_parser.rs\<close>): the parser of entity structs.
  \<^item> \<open>Entity\<close>, \<open>Entity_Refine\<close> (\<open>macros/src/entity\<close>, \<open>column\<close>, \<open>pk\<close>, \<open>relationship\<close>): storing, composing, deleting for every shape of
    entity, refined to a map from keys to instances; the locale \<open>entity_map\<close> states what the other theories use of it.
  \<^item> \<open>Entity_Query\<close>, \<open>Column_Query\<close>: filters, first and last entities, and all queries by the value of a column, as lists and as streams. The
    locale \<open>column_keys\<close> is what a query needs of the table of its column; the sharded index and the sharded dictionary
    interpret it.

  \<^bold>\<open>Code generation and web interface.\<close>
  \<^item> \<open>Names\<close>: conversions of identifiers (case, words) as far as names of tables and handlers are made from them.
  \<^item> \<open>Table_Defs\<close> (\<open>macros/src/table.rs\<close>, \<open>storage.rs\<close>, \<open>entity/context.rs\<close>): the tables of a column, the databases that keep them, the fields
    of the read and write contexts. \<open>Endpoints\<close> (\<open>macros/src/endpoint.rs\<close>, \<open>rest.rs\<close> and the \<open>fn_def\<close> functions under \<open>pk\<close>, \<open>column\<close>,
    \<open>relationship\<close>, \<open>entity\<close>): the functions of an entity with method, path, parameters and handler. \<open>Entity_Macros\<close>
    (\<open>macros/src/field.rs\<close>, \<open>entity/mod.rs\<close>): how they are put together from a parsed schema.
  \<^item> \<open>Entity_Tables\<close>: the databases of all entities have different names, and every field of a context finds its own. \<open>Entity_Routes\<close>:
    no two handlers have the same method and path, and a handler extracts the placeholders of its path.
  \<^item> \<open>Http_Handlers\<close> (\<open>redbit/src/rest.rs\<close>, the handlers of the endpoints): from results to status codes and bodies; posting, reading, testing
    and deleting an entity over the web interface is the map from keys to instances of \<open>Entity_Refine\<close>.
  \<^item> \<open>Samples\<close> (\<open>macros/src/entity/sample.rs\<close>, \<open>init.rs\<close>): sample instances; initialising a storage leaves nothing behind.
  \<^item> \<open>Text_Codec\<close> (\<open>redbit/src/codec.rs\<close>): the texts of byte columns with UTF-8 decoding and encoding written out; hexadecimal, base64 and UTF-8
    interpret the locale \<open>text_codec\<close>. \<open>Column_Macros\<close> (\<open>macros/src/macro_utils.rs\<close>, \<open>column/column_impls.rs\<close>): the kinds of columns,
    the implementations that the macro \<open>column\<close> generates, and what their samples are. \<open>Chain_Macros\<close> (\<open>macros/src/lib.rs\<close>,
    \<open>entity/chain.rs\<close>): the macros of an entity and the fields that blocks and headers must have.

  \<^bold>\<open>Chains.\<close>
  \<^item> \<open>Reorder_Buffer\<close>, \<open>Batchers\<close> (\<open>reorder_buffer.rs\<close>, \<open>weight_batcher.rs\<close>, \<open>size_batcher.rs\<close>): both batchers interpret the locale \<open>batcher\<close>:
    the batches joined are the stream.
  \<^item> \<open>Syncer\<close>, \<open>Sync_Pipeline\<close> (\<open>syncer.rs\<close>, \<open>block_stream.rs\<close>, \<open>combine.rs\<close>): the tasks of a synchronisation as functions from what
    they receive to what they send. Linking a block is a partial function; that it ends and returns a branch is proved
    for a node and a database that agree on the chain.
  \<^item> \<open>Block_Chain\<close> (\<open>macros/src/entity/chain.rs\<close>): storing, replacing, deleting and validating blocks; \<open>Input_Hooks\<close> (\<open>chains/*/src/hook.rs\<close>): every
    input is resolved and committed, a double spend is refused.
  \<^item> \<open>Address_Codec\<close> (\<open>chains/*/src/codec.rs\<close>): the locales \<open>text_writer\<close> and \<open>text_codec\<close>, interpreted for the codecs of the five chains;
    where a codec is not an inverse of its reader, it interprets the weaker one.
  \<^item> \<open>Bitcoin\<close>, \<open>Block_Tree\<close>, \<open>Cardano\<close>, \<open>Ergo\<close> (\<open>chains/*/src/block_provider.rs\<close>, \<open>model_v1.rs\<close>): raw blocks become entities that can be stored and
    read back; the stream of Cardano blocks.
  \<^item> \<open>Node_Client\<close> (\<open>retry.rs\<close>, \<open>chains/btc/src/rest_client.rs\<close>): retries. \<open>Launcher\<close> (\<open>launcher.rs\<close>, \<open>scheduler.rs\<close>, \<open>settings.rs\<close>): the
    steps of a start, and what storing over an existing block leaves behind. \<open>Task_Stats\<close> (\<open>stats.rs\<close>, \<open>monitor.rs\<close>): the averages and the
    layout of the report about the durations of the tables.

  \<^bold>\<open>Fuel and bounds.\<close> No theorem rests on fuel. Loops are structural or have a measure; \<open>chain_link\<close>
  is a partial function whose termination is a theorem. Bounds that appear as hypotheses are those of the program: heights
  below the largest \<open>u32\<close>, fewer children than their index can count, limits below the largest \<open>usize\<close>.

  \<^bold>\<open>Not modelled.\<close> Token streams as such (generated code is modelled by what it computes, and by the names, types and routes it declares), the tests and
  benchmarks that are generated for every entity, OpenAPI schemas, the HTTP server and its shutdown, sample values of addresses, log output and
  floating point arithmetic (a parameter of the statistics), configuration files, spawning of tasks and threads, signals, the clients of the other nodes, columns encoded by
  the crate bincode, JSON beyond the texts of byte columns and addresses, and the demonstration chain. They are glue around
  the modelled functions or consist of calls into other crates.
\<close>

end
